(* ===== verification/Prelude.thy ===== *)
theory Prelude
  imports Complex_Main "HOL-Library.AList" "HOL-Library.Multiset" "HOL-Library.Sublist"
    "HOL-Library.List_Lexorder" "HOL-Library.Product_Lexorder"
begin

text \<open>
  Shared ground of the development.  A JavaScript \<^verbatim>\<open>Map\<close> keeps its entries in insertion order
  and overwrites in place, so it is modelled by a list of key/value pairs with \<^const>\<open>map_of\<close>,
  \<^const>\<open>AList.update\<close> and \<^const>\<open>AList.delete\<close>.  The locales of this theory are the
  interfaces the components rely on: a keyed store, a state machine with an invariant, and a
  memo cache in front of a pure function.
\<close>

named_theorems store_simps \<open>reads of a keyed store after a write\<close>

named_theorems machine_intros \<open>single steps that keep a component's invariant\<close>

section \<open>JavaScript maps as association lists\<close>

declare map_of_eq_Some_iff [simp del] Some_eq_map_of_iff [simp del]

type_synonym ('k, 'v) js_map = "('k \<times> 'v) list"

abbreviation js_get :: "('k, 'v) js_map \<Rightarrow> 'k \<Rightarrow> 'v option" where
  "js_get m k \<equiv> map_of m k"

abbreviation js_set :: "'k \<Rightarrow> 'v \<Rightarrow> ('k, 'v) js_map \<Rightarrow> ('k, 'v) js_map" where
  "js_set k v m \<equiv> AList.update k v m"

abbreviation js_delete :: "'k \<Rightarrow> ('k, 'v) js_map \<Rightarrow> ('k, 'v) js_map" where
  "js_delete k m \<equiv> AList.delete k m"

abbreviation js_keys :: "('k, 'v) js_map \<Rightarrow> 'k list" where
  "js_keys m \<equiv> map fst m"

abbreviation js_values :: "('k, 'v) js_map \<Rightarrow> 'v list" where
  "js_values m \<equiv> map snd m"

text \<open>Insertion into a JavaScript \<^verbatim>\<open>Set\<close>: a present element keeps its place.\<close>

definition js_set_add :: "'a \<Rightarrow> 'a list \<Rightarrow> 'a list" where
  "js_set_add x xs = (if x \<in> set xs then xs else xs @ [x])"

lemma set_js_set_add [simp]: "set (js_set_add x xs) = insert x (set xs)"
  by (auto simp: js_set_add_def)

lemma distinct_js_set_add [simp]: "distinct (js_set_add x xs) = distinct xs"
  by (auto simp: js_set_add_def)

lemma js_get_set [store_simps, simp]:
  "js_get (js_set k v m) k' = (if k' = k then Some v else js_get m k')"
  by (simp add: update_conv')

lemma js_get_delete [store_simps, simp]:
  "js_get (js_delete k m) k' = (if k' = k then None else js_get m k')"
  by (simp add: delete_conv')

lemma js_keys_set: "set (js_keys (js_set k v m)) = insert k (set (js_keys m))"
  by (simp add: dom_map_of_conv_image_fst [symmetric] update_conv' dom_def)
     (auto simp: dom_map_of_conv_image_fst [symmetric] update_conv')

lemma distinct_js_set [intro, simp]: "distinct (js_keys m) \<Longrightarrow> distinct (js_keys (js_set k v m))"
  by (rule distinct_update)

lemma distinct_js_delete [intro, simp]: "distinct (js_keys m) \<Longrightarrow> distinct (js_keys (js_delete k m))"
  by (rule distinct_delete)

lemma set_js_set_subset: "set (js_set k v m) \<subseteq> insert (k, v) (set m)"
  by (induction m) auto

lemma js_values_set_subset: "set (js_values (js_set k v m)) \<subseteq> insert v (set (js_values m))"
  using set_js_set_subset [of k v m] by force

lemma ball_values_set:
  "\<forall>x \<in> set (js_values m). P x \<Longrightarrow> P v \<Longrightarrow> \<forall>x \<in> set (js_values (js_set k v m)). P x"
  using js_values_set_subset [of k v m] by blast

lemma set_js_delete_subset: "set (js_delete k m) \<subseteq> set m"
  by (induction m) auto

lemma ball_values_delete:
  "\<forall>x \<in> set (js_values m). P x \<Longrightarrow> \<forall>x \<in> set (js_values (js_delete k m)). P x"
  using set_js_delete_subset [of k m] by auto

lemma js_set_present_keys:
  "k \<in> set (js_keys m) \<Longrightarrow> js_keys (js_set k v m) = js_keys m"
  by (induction m) auto

lemma js_set_absent:
  "k \<notin> set (js_keys m) \<Longrightarrow> js_set k v m = m @ [(k, v)]"
  by (induction m) auto

lemma fold_js_set_append:
  "distinct (js_keys acc @ js_keys ps) \<Longrightarrow> fold (\<lambda>(k, v). js_set k v) ps acc = acc @ ps"
  by (induction ps arbitrary: acc) (auto simp: js_set_absent)

lemma fold_js_set: "distinct (js_keys ps) \<Longrightarrow> fold (\<lambda>(k, v). js_set k v) ps [] = ps"
  by (simp add: fold_js_set_append)

lemma map_of_permuted:
  "mset ps = mset qs \<Longrightarrow> distinct (js_keys ps) \<Longrightarrow> js_get ps = js_get qs"
  by (rule map_of_eqI) (metis mset_map mset_eq_imp_distinct_iff mset_eq_setD,
      metis map_of_eq_Some_iff mset_eq_imp_distinct_iff mset_eq_setD mset_map option.exhaust)

lemma js_get_None_iff: "js_get m k = None \<longleftrightarrow> k \<notin> set (js_keys m)"
  by (simp add: map_of_eq_None_iff)

lemma js_get_in_values: "js_get m k = Some v \<Longrightarrow> v \<in> set (js_values m)"
  by (force dest: map_of_SomeD)

lemma ball_js_set:
  "\<forall>(k', v') \<in> set m. P k' v' \<Longrightarrow> P k v \<Longrightarrow> \<forall>(k', v') \<in> set (js_set k v m). P k' v'"
  using set_js_set_subset [of k v m] by fast

lemma sum_list_js_set:
  fixes f :: "'v \<Rightarrow> 'a :: comm_monoid_add"
  assumes "distinct (js_keys m)" and "js_get m k = Some v"
  shows "sum_list (map f (js_values (js_set k v' m))) + f v = sum_list (map f (js_values m)) + f v'"
  using assms by (induction m) (auto simp: ac_simps)

lemma sum_list_js_set_new:
  fixes f :: "'v \<Rightarrow> 'a :: comm_monoid_add"
  assumes "js_get m k = None"
  shows "sum_list (map f (js_values (js_set k v m))) = sum_list (map f (js_values m)) + f v"
  using assms by (induction m) (auto simp: ac_simps split: if_splits)

text \<open>The interface: what a component may use of a store keyed by ids.\<close>

locale keyed_store =
  fixes lookup :: "'s \<Rightarrow> 'k \<Rightarrow> 'v option"
    and insert_at :: "'k \<Rightarrow> 'v \<Rightarrow> 's \<Rightarrow> 's"
    and remove_at :: "'k \<Rightarrow> 's \<Rightarrow> 's"
  assumes lookup_insert: "lookup (insert_at k v s) k' = (if k' = k then Some v else lookup s k')"
    and lookup_remove: "lookup (remove_at k s) k' = (if k' = k then None else lookup s k')"
begin

lemma lookup_insert_same: "lookup (insert_at k v s) k = Some v"
  by (simp add: lookup_insert)

lemma lookup_insert_other: "k' \<noteq> k \<Longrightarrow> lookup (insert_at k v s) k' = lookup s k'"
  by (simp add: lookup_insert)

lemma insert_overwrites: "lookup (insert_at k v (insert_at k w s)) = lookup (insert_at k v s)"
  by (rule ext) (simp add: lookup_insert)

lemma insert_commutes:
  "k \<noteq> k' \<Longrightarrow> lookup (insert_at k v (insert_at k' w s)) = lookup (insert_at k' w (insert_at k v s))"
  by (rule ext) (simp add: lookup_insert)

lemma remove_after_insert: "lookup s k = None \<Longrightarrow> lookup (remove_at k (insert_at k v s)) = lookup s"
  by (rule ext) (simp add: lookup_insert lookup_remove)

end

interpretation js_store: keyed_store js_get js_set js_delete
  by unfold_locales auto

text \<open>
  The interface of a durable store behind an in-memory map: what reading a key gives after a write,
  a removal and a replacement by a whole snapshot.  A value may come back changed by the encoding
  (\<^verbatim>\<open>view\<close>), and only well-formed values (\<^verbatim>\<open>ok\<close>) are promised to come back at all.
\<close>

definition keyed_by :: "('v \<Rightarrow> 'k) \<Rightarrow> ('k, 'v) js_map \<Rightarrow> bool" where
  "keyed_by key m \<longleftrightarrow> distinct (js_keys m) \<and> (\<forall>(k, v) \<in> set m. key v = k)"

lemma keyed_by_Nil [simp]: "keyed_by key []"
  by (simp add: keyed_by_def)

lemma keyed_by_set: "keyed_by key m \<Longrightarrow> key v = k \<Longrightarrow> keyed_by key (js_set k v m)"
  using set_js_set_subset [of k v m] by (auto simp: keyed_by_def)

lemma keyed_by_delete: "keyed_by key m \<Longrightarrow> keyed_by key (js_delete k m)"
  using set_js_delete_subset [of k m] by (auto simp: keyed_by_def)

lemma keyed_by_get: "keyed_by key m \<Longrightarrow> js_get m k = Some v \<Longrightarrow> key v = k"
  by (auto simp: keyed_by_def dest: map_of_SomeD)

locale durable_store =
  fixes read :: "'s \<Rightarrow> 'k \<Rightarrow> 'v option"
    and save :: "'v \<Rightarrow> 's \<Rightarrow> 's"
    and remove :: "'k \<Rightarrow> 's \<Rightarrow> 's"
    and replace :: "('k, 'v) js_map \<Rightarrow> 's \<Rightarrow> 's"
    and key :: "'v \<Rightarrow> 'k"
    and view :: "'v \<Rightarrow> 'v"
    and ok :: "'v \<Rightarrow> bool"
  assumes read_save: "ok v \<Longrightarrow> read (save v s) k = (if k = key v then Some (view v) else read s k)"
    and read_remove: "read (remove k s) k' = (if k' = k then None else read s k')"
    and read_replace:
      "keyed_by key m \<Longrightarrow> \<forall>v \<in> set (js_values m). ok v
         \<Longrightarrow> read (replace m s) k = map_option view (js_get m k)"
begin

lemma save_keeps_sync:
  "ok v \<Longrightarrow> \<forall>k. read s k = map_option view (js_get m k)
     \<Longrightarrow> \<forall>k. read (save v s) k = map_option view (js_get (js_set (key v) v m) k)"
  by (simp add: read_save)

lemma remove_keeps_sync:
  "\<forall>k. read s k = map_option view (js_get m k)
     \<Longrightarrow> \<forall>k. read (remove k' s) k = map_option view (js_get (js_delete k' m) k)"
  by (simp add: read_remove)

lemma save_covers:
  "ok v \<Longrightarrow> \<forall>k w. js_get m k = Some w \<longrightarrow> read s k = Some (view w)
     \<Longrightarrow> \<forall>k w. js_get (js_set (key v) v m) k = Some w \<longrightarrow> read (save v s) k = Some (view w)"
  by (simp add: read_save)

lemma snapshot_agrees_with_save:
  assumes "keyed_by key m" and "\<forall>w \<in> set (js_values m). ok w" and "ok v"
    and "\<forall>k. read s k = map_option view (js_get m k)"
  shows "read (replace (js_set (key v) v m) s) = read (save v s)"
proof -
  have "\<forall>w \<in> set (js_values (js_set (key v) v m)). ok w"
    using assms(2,3) js_values_set_subset [of "key v" v m] by blast
  with assms show ?thesis
    by (intro ext) (simp add: read_replace read_save keyed_by_set)
qed

end

section \<open>State machines with an invariant\<close>

text \<open>
  Every component with state is a total step function over its events and a predicate each step
  keeps; the locale lifts the predicate to runs.
\<close>

locale invariant_machine =
  fixes step :: "'e \<Rightarrow> 's \<Rightarrow> 's"
    and inv :: "'s \<Rightarrow> bool"
  assumes step_inv: "inv s \<Longrightarrow> inv (step e s)"
begin

lemma run_inv: "inv s \<Longrightarrow> inv (fold step es s)"
  by (induction es arbitrary: s) (simp_all add: step_inv)

lemma run_rel:
  assumes refl: "\<And>s. rel s s" and trans: "\<And>a b c. rel a b \<Longrightarrow> rel b c \<Longrightarrow> rel a c"
    and step_rel: "\<And>s e. inv s \<Longrightarrow> rel s (step e s)"
  shows "inv s \<Longrightarrow> rel s (fold step es s)"
proof (induction es arbitrary: s)
  case Nil
  show ?case by (simp add: refl)
next
  case (Cons e es)
  then have "rel (step e s) (fold step es (step e s))" by (blast intro: step_inv)
  with step_rel [OF Cons.prems, of e] show ?case by (simp add: trans)
qed

end

text \<open>A machine whose states also carry a two-state guarantee: what a step may do to a run.\<close>

locale guaranteed_machine = invariant_machine step inv
  for step :: "'e \<Rightarrow> 's \<Rightarrow> 's" and inv :: "'s \<Rightarrow> bool" +
  fixes guar :: "'s \<Rightarrow> 's \<Rightarrow> bool"
  assumes guar_refl: "guar s s"
    and guar_trans: "guar a b \<Longrightarrow> guar b c \<Longrightarrow> guar a c"
    and step_guar: "inv s \<Longrightarrow> guar s (step e s)"
begin

lemma run_guar: "inv s \<Longrightarrow> guar s (fold step es s)"
  by (rule run_rel [where rel = guar]) (auto intro: guar_refl guar_trans step_guar)

end

section \<open>Memo caches\<close>

text \<open>
  Several modules put a bounded \<^verbatim>\<open>Map\<close> in front of a pure function.  The cache is coherent when
  each entry holds the function's value at its key; bounding the cache only drops entries.
\<close>

definition coherent :: "('k \<Rightarrow> 'v) \<Rightarrow> ('k, 'v) js_map \<Rightarrow> bool" where
  "coherent f c \<longleftrightarrow> (\<forall>(k, v) \<in> set c. v = f k)"

definition memo_call ::
  "(('k, 'v) js_map \<Rightarrow> ('k, 'v) js_map) \<Rightarrow> ('k \<Rightarrow> 'v) \<Rightarrow> 'k \<Rightarrow> ('k, 'v) js_map \<Rightarrow> 'v \<times> ('k, 'v) js_map" where
  "memo_call bound f k c =
     (case js_get c k of Some v \<Rightarrow> (v, c) | None \<Rightarrow> (f k, bound (js_set k (f k) c)))"

locale memo_bound =
  fixes bound :: "('k, 'v) js_map \<Rightarrow> ('k, 'v) js_map"
  assumes bound_subset: "set (bound c) \<subseteq> set c"
begin

lemma memo_call_value: "coherent f c \<Longrightarrow> fst (memo_call bound f k c) = f k"
  by (auto simp: memo_call_def coherent_def split: option.splits dest!: map_of_SomeD)

lemma memo_call_coherent:
  assumes "coherent f c"
  shows "coherent f (snd (memo_call bound f k c))"
proof -
  have "set (bound (js_set k (f k) c)) \<subseteq> insert (k, f k) (set c)"
    using bound_subset [of "js_set k (f k) c"] set_js_set_subset [of k "f k" c] by blast
  with assms show ?thesis
    by (fastforce simp: memo_call_def coherent_def split: option.splits)
qed

end

section \<open>Fallible computations\<close>

text \<open>A computation that may throw is a value of \<^typ>\<open>'e + 'a\<close>: \<^const>\<open>Inl\<close> the exception.\<close>

fun result_bind :: "'e + 'a \<Rightarrow> ('a \<Rightarrow> 'e + 'b) \<Rightarrow> 'e + 'b" where
  "result_bind (Inl e) f = Inl e"
| "result_bind (Inr x) f = f x"

fun traverse :: "('a \<Rightarrow> 'e + 'b) \<Rightarrow> 'a list \<Rightarrow> 'e + 'b list" where
  "traverse f [] = Inr []"
| "traverse f (x # xs) = result_bind (f x) (\<lambda>y. result_bind (traverse f xs) (\<lambda>ys. Inr (y # ys)))"

lemma result_bind_Inr: "result_bind r f = Inr y \<longleftrightarrow> (\<exists>x. r = Inr x \<and> f x = Inr y)"
  by (cases r) auto

lemma result_bind_Inr_right [simp]: "result_bind r Inr = r"
  by (cases r) auto

lemma traverse_all: "(\<And>x. x \<in> set xs \<Longrightarrow> f x = Inr (g x)) \<Longrightarrow> traverse f xs = Inr (map g xs)"
  by (induction xs) auto

lemma traverse_Inr: "traverse f xs = Inr ys \<Longrightarrow> list_all2 (\<lambda>x y. f x = Inr y) xs ys"
  by (induction xs arbitrary: ys) (auto simp: result_bind_Inr)

section \<open>Sorting with a comparator\<close>

text \<open>
  \<^verbatim>\<open>Array.prototype.toSorted\<close>: a stable sort by the sign of a comparator.  The locale states what a
  comparator owes the sort, and what the sort then gives.
\<close>

fun insert_cmp :: "('a \<Rightarrow> 'a \<Rightarrow> int) \<Rightarrow> 'a \<Rightarrow> 'a list \<Rightarrow> 'a list" where
  "insert_cmp cmp x [] = [x]"
| "insert_cmp cmp x (y # ys) = (if cmp x y \<le> 0 then x # y # ys else y # insert_cmp cmp x ys)"

definition js_to_sorted :: "('a \<Rightarrow> 'a \<Rightarrow> int) \<Rightarrow> 'a list \<Rightarrow> 'a list" where
  "js_to_sorted cmp xs = foldr (insert_cmp cmp) xs []"

lemma mset_insert_cmp [simp]: "mset (insert_cmp cmp x ys) = add_mset x (mset ys)"
  by (induction ys) auto

lemma mset_js_to_sorted [simp]: "mset (js_to_sorted cmp xs) = mset xs"
  by (induction xs) (simp_all add: js_to_sorted_def)

lemma set_js_to_sorted [simp]: "set (js_to_sorted cmp xs) = set xs"
  by (metis mset_js_to_sorted set_mset_mset)

lemma set_insert_cmp [simp]: "set (insert_cmp cmp x ys) = insert x (set ys)"
  by (induction ys) auto

locale comparator =
  fixes cmp :: "'a \<Rightarrow> 'a \<Rightarrow> int"
  assumes cmp_flip: "\<not> cmp x y \<le> 0 \<Longrightarrow> cmp y x \<le> 0"
    and cmp_trans: "cmp x y \<le> 0 \<Longrightarrow> cmp y z \<le> 0 \<Longrightarrow> cmp x z \<le> 0"
begin

lemma sorted_insert_cmp:
  "sorted_wrt (\<lambda>x y. cmp x y \<le> 0) ys \<Longrightarrow> sorted_wrt (\<lambda>x y. cmp x y \<le> 0) (insert_cmp cmp x ys)"
  by (induction ys) (auto intro: cmp_flip cmp_trans)

lemma sorted_js_to_sorted: "sorted_wrt (\<lambda>x y. cmp x y \<le> 0) (js_to_sorted cmp xs)"
  by (induction xs) (simp_all add: js_to_sorted_def sorted_insert_cmp)

end

section \<open>Lists and options\<close>

definition or_else :: "'a option \<Rightarrow> 'a option \<Rightarrow> 'a option" where
  "or_else a b = (case a of Some x \<Rightarrow> Some x | None \<Rightarrow> b)"

definition or_default :: "'a option \<Rightarrow> 'a \<Rightarrow> 'a" where
  "or_default a d = (case a of Some x \<Rightarrow> x | None \<Rightarrow> d)"

lemma or_else_simps [simp]: "or_else (Some x) b = Some x" "or_else None b = b"
  by (simp_all add: or_else_def)

lemma or_default_simps [simp]: "or_default (Some x) d = x" "or_default None d = d"
  by (simp_all add: or_default_def)

text \<open>\<^verbatim>\<open>Array.prototype.findIndex\<close>: the length of the longest prefix that fails the test.\<close>

definition find_index :: "('a \<Rightarrow> bool) \<Rightarrow> 'a list \<Rightarrow> nat" where
  "find_index P xs = length (takeWhile (\<lambda>x. \<not> P x) xs)"

definition insert_at_index :: "nat \<Rightarrow> 'a \<Rightarrow> 'a list \<Rightarrow> 'a list" where
  "insert_at_index i x xs = take i xs @ x # drop i xs"

lemma find_index_le: "find_index P xs \<le> length xs"
  by (simp add: find_index_def length_takeWhile_le)

lemma insert_at_find_index:
  "insert_at_index (find_index P xs) x xs
     = takeWhile (\<lambda>y. \<not> P y) xs @ x # dropWhile (\<lambda>y. \<not> P y) xs"
  by (simp add: insert_at_index_def find_index_def takeWhile_eq_take [symmetric]
      dropWhile_eq_drop [symmetric])

lemma set_insert_at_index [simp]: "set (insert_at_index i x xs) = insert x (set xs)"
proof -
  have "set (take i xs) \<union> set (drop i xs) = set xs"
    by (metis append_take_drop_id set_append)
  then show ?thesis by (auto simp: insert_at_index_def)
qed

lemma length_insert_at_index [simp]: "length (insert_at_index i x xs) = Suc (length xs)"
  by (simp add: insert_at_index_def)

lemma find_Some_split:
  "List.find P xs = Some x \<Longrightarrow> \<exists>ys zs. xs = ys @ x # zs \<and> P x \<and> (\<forall>y \<in> set ys. \<not> P y)"
proof (induction xs)
  case (Cons a xs)
  show ?case
  proof (cases "P a")
    case True
    with Cons.prems have "a = x" by simp
    with True show ?thesis by (intro exI [of _ "[]"] exI [of _ xs]) simp
  next
    case False
    with Cons obtain ys zs where "xs = ys @ x # zs" "P x" "\<forall>y \<in> set ys. \<not> P y" by auto
    with False show ?thesis by (intro exI [of _ "a # ys"] exI [of _ zs]) simp
  qed
qed simp

lemma find_filter: "List.find P (filter Q xs) = List.find (\<lambda>x. Q x \<and> P x) xs"
  by (induction xs) auto

lemma find_cong_set: "(\<And>x. x \<in> set xs \<Longrightarrow> P x = Q x) \<Longrightarrow> List.find P xs = List.find Q xs"
  by (induction xs) auto

lemma find_None_all: "List.find P xs = None \<longleftrightarrow> (\<forall>x \<in> set xs. \<not> P x)"
  by (induction xs) auto

lemma distinct_submset:
  assumes "mset xs \<subseteq># mset ys" and "distinct ys"
  shows "distinct xs"
proof -
  obtain zs where "mset zs = mset ys - mset xs" using ex_mset by blast
  with assms(1) have "mset (xs @ zs) = mset ys" by simp
  from mset_eq_imp_distinct_iff [OF this] assms(2) show ?thesis by simp
qed

end
