(* ===== verification/JsRuntime.thy ===== *)
theory JsRuntime
  imports Prelude
begin

text \<open>
  What the components use of the JavaScript language and its standard library.

  A string is a list of UTF-16 code units; the model covers the strings whose code units are
  below 256 (Latin-1), one \<^typ>\<open>char\<close> per code unit, and on those \<^verbatim>\<open>trim\<close>, \<^verbatim>\<open>toLowerCase\<close>,
  \<^verbatim>\<open>startsWith\<close>, \<^verbatim>\<open>split\<close>, \<^verbatim>\<open>join\<close> and \<^verbatim>\<open>lastIndexOf\<close> are ECMAScript's own.

  A number is an exact rational, an infinity or NaN.  The modelled code works on integers below
  $2^{53}$ in absolute value, where double arithmetic is exact; where a sum or a product may
  leave that range the code tests the result with \<^verbatim>\<open>isSafeInteger\<close>, whose answer on the exact
  value agrees with its answer on the rounded one.
\<close>

section \<open>Strings\<close>

definition is_js_space :: "char \<Rightarrow> bool" where
  "is_js_space c \<longleftrightarrow> (let n = (of_char c :: nat) in n \<in> {9, 10, 11, 12, 13, 32, 160})"

definition js_trim_start :: "string \<Rightarrow> string" where
  "js_trim_start s = dropWhile is_js_space s"

definition js_trim_end :: "string \<Rightarrow> string" where
  "js_trim_end s = rev (dropWhile is_js_space (rev s))"

definition js_trim :: "string \<Rightarrow> string" where
  "js_trim s = js_trim_end (js_trim_start s)"

definition js_lower_char :: "char \<Rightarrow> char" where
  "js_lower_char c = (let n = (of_char c :: nat) in
     if 65 \<le> n \<and> n \<le> 90 \<or> 192 \<le> n \<and> n \<le> 222 \<and> n \<noteq> 215 then char_of (n + 32) else c)"

definition js_lower :: "string \<Rightarrow> string" where
  "js_lower s = map js_lower_char s"

definition starts_with :: "string \<Rightarrow> string \<Rightarrow> bool" where
  "starts_with s p \<longleftrightarrow> take (length p) s = p"

fun js_includes :: "string \<Rightarrow> string \<Rightarrow> bool" where
  "js_includes [] p = (p = [])"
| "js_includes (c # s) p = (starts_with (c # s) p \<or> js_includes s p)"

text \<open>\<^verbatim>\<open>s.split(c)\<close> for a one-character separator; the result is never empty.\<close>

fun js_split :: "char \<Rightarrow> string \<Rightarrow> string list" where
  "js_split c [] = [[]]"
| "js_split c (x # xs) =
     (if x = c then [] # js_split c xs
      else (case js_split c xs of [] \<Rightarrow> [[x]] | w # ws \<Rightarrow> (x # w) # ws))"

fun js_join :: "string \<Rightarrow> string list \<Rightarrow> string" where
  "js_join sep [] = []"
| "js_join sep [w] = w"
| "js_join sep (w # v # ws) = w @ sep @ js_join sep (v # ws)"

text \<open>\<^verbatim>\<open>lastIndexOf\<close>: \<^const>\<open>None\<close> stands for \<^verbatim>\<open>-1\<close>.\<close>

fun js_last_index_of :: "string \<Rightarrow> string \<Rightarrow> nat option" where
  "js_last_index_of [] p = (if p = [] then Some 0 else None)"
| "js_last_index_of (c # s) p =
     (case js_last_index_of s p of
        Some i \<Rightarrow> Some (Suc i)
      | None \<Rightarrow> if starts_with (c # s) p then Some 0 else None)"

lemma of_char_lt [simp]: "(of_char c :: nat) < 256"
  using nat_of_char_less_256 [of c] by simp

lemma js_lower_char_idem [simp]: "js_lower_char (js_lower_char c) = js_lower_char c"
  by (auto simp: js_lower_char_def Let_def)

lemma js_lower_idem [simp]: "js_lower (js_lower s) = js_lower s"
  by (simp add: js_lower_def)

lemma js_lower_append [simp]: "js_lower (s @ t) = js_lower s @ js_lower t"
  by (simp add: js_lower_def)

lemma js_lower_Nil [simp]: "js_lower [] = []"
  by (simp add: js_lower_def)

lemma js_lower_Cons [simp]: "js_lower (c # s) = js_lower_char c # js_lower s"
  by (simp add: js_lower_def)

lemma js_lower_eq_Nil [simp]: "js_lower s = [] \<longleftrightarrow> s = []"
  by (simp add: js_lower_def)

lemma length_js_lower [simp]: "length (js_lower s) = length s"
  by (simp add: js_lower_def)

lemma is_js_space_lower [simp]: "is_js_space (js_lower_char c) = is_js_space c"
  by (auto simp: js_lower_char_def is_js_space_def Let_def)

lemma js_trim_start_lower: "js_trim_start (js_lower s) = js_lower (js_trim_start s)"
  by (induction s) (auto simp: js_trim_start_def)

lemma js_trim_end_lower: "js_trim_end (js_lower s) = js_lower (js_trim_end s)"
proof -
  have "dropWhile is_js_space (map js_lower_char t) = map js_lower_char (dropWhile is_js_space t)"
    for t by (induction t) auto
  then show ?thesis by (simp add: js_trim_end_def js_lower_def rev_map)
qed

lemma js_trim_lower: "js_trim (js_lower s) = js_lower (js_trim s)"
  by (simp add: js_trim_def js_trim_start_lower js_trim_end_lower)

definition trimmed :: "string \<Rightarrow> bool" where
  "trimmed s \<longleftrightarrow> s = [] \<or> (\<not> is_js_space (hd s) \<and> \<not> is_js_space (last s))"

lemma js_trim_end_eq: "s \<noteq> [] \<Longrightarrow> \<not> is_js_space (last s) \<Longrightarrow> js_trim_end s = s"
  by (cases s rule: rev_cases) (auto simp: js_trim_end_def)

lemma js_trim_trimmed: "trimmed s \<Longrightarrow> js_trim s = s"
proof (cases s)
  case (Cons c cs)
  assume "trimmed s"
  with Cons have "\<not> is_js_space c" "\<not> is_js_space (last s)" by (auto simp: trimmed_def)
  with Cons have "js_trim_start s = s" "js_trim_end s = s"
    by (simp_all add: js_trim_start_def js_trim_end_eq)
  then show ?thesis by (simp add: js_trim_def)
qed (simp add: js_trim_def js_trim_start_def js_trim_end_def)

lemma js_trim_end_hd:
  assumes "s \<noteq> []" and "\<not> is_js_space (hd s)"
  shows "js_trim_end s \<noteq> [] \<and> hd (js_trim_end s) = hd s"
proof -
  obtain c cs where s: "s = c # cs" using assms(1) by (cases s) auto
  with assms(2) have "dropWhile is_js_space (rev cs @ [c]) \<noteq> []"
    and "last (dropWhile is_js_space (rev cs @ [c])) = c"
    by (simp_all add: dropWhile_append)
  with s show ?thesis by (simp add: js_trim_end_def hd_rev)
qed

lemma js_trim_end_last: "js_trim_end s \<noteq> [] \<Longrightarrow> \<not> is_js_space (last (js_trim_end s))"
  using hd_dropWhile [of is_js_space "rev s"] by (simp add: js_trim_end_def last_rev)

lemma trimmed_js_trim [simp]: "trimmed (js_trim s)"
proof (cases "js_trim_start s = []")
  case True
  then show ?thesis by (simp add: js_trim_def js_trim_end_def trimmed_def)
next
  case False
  then have "\<not> is_js_space (hd (js_trim_start s))"
    using hd_dropWhile [of is_js_space s] by (simp add: js_trim_start_def)
  with False js_trim_end_hd [OF False] js_trim_end_last [of "js_trim_start s"]
  show ?thesis by (simp add: js_trim_def trimmed_def)
qed

lemma js_trim_idem [simp]: "js_trim (js_trim s) = js_trim s"
  by (simp add: js_trim_trimmed)

lemma js_trim_Nil [simp]: "js_trim [] = []"
  by (simp add: js_trim_def js_trim_start_def js_trim_end_def)

lemma starts_with_append [simp]: "starts_with (p @ s) p"
  by (simp add: starts_with_def)

lemma js_split_nonempty [simp]: "js_split c s \<noteq> []"
  by (induction s) (auto split: list.splits)

lemma js_split_no_sep: "c \<notin> set s \<Longrightarrow> js_split c s = [s]"
  by (induction s) auto

lemma js_split_append_sep: "c \<notin> set s \<Longrightarrow> js_split c (s @ c # t) = s # js_split c t"
  by (induction s) auto

lemma js_split_words_no_sep: "w \<in> set (js_split c s) \<Longrightarrow> c \<notin> set w"
proof (induction s arbitrary: w)
  case (Cons x xs)
  show ?case
  proof (cases "x = c")
    case True
    with Cons show ?thesis by auto
  next
    case False
    obtain v vs where vs: "js_split c xs = v # vs" by (cases "js_split c xs") auto
    with Cons False show ?thesis by auto
  qed
qed simp

lemma js_join_split [simp]: "js_join [c] (js_split c s) = s"
proof (induction s)
  case (Cons x xs)
  obtain v vs where vs: "js_split c xs = v # vs" by (cases "js_split c xs") auto
  with Cons show ?case by (cases vs) auto
qed simp

lemma js_split_join:
  assumes "ws \<noteq> []" and "\<forall>w \<in> set ws. c \<notin> set w"
  shows "js_split c (js_join [c] ws) = ws"
  using assms
  by (induction "[c]" ws rule: js_join.induct) (auto simp: js_split_no_sep js_split_append_sep)

section \<open>Optional strings\<close>

text \<open>\<^verbatim>\<open>packages/normalization-core/src/string-coerce.ts\<close> over absent-or-string inputs.\<close>

definition normalizeNullableString :: "string option \<Rightarrow> string option" where
  "normalizeNullableString v =
     (case v of None \<Rightarrow> None | Some s \<Rightarrow> (let t = js_trim s in if t \<noteq> [] then Some t else None))"

definition normalizeOptionalString :: "string option \<Rightarrow> string option" where
  "normalizeOptionalString v = normalizeNullableString v"

definition normalizeOptionalLowercaseString :: "string option \<Rightarrow> string option" where
  "normalizeOptionalLowercaseString v = map_option js_lower (normalizeOptionalString v)"

definition normalizeLowercaseStringOrEmpty :: "string option \<Rightarrow> string" where
  "normalizeLowercaseStringOrEmpty v = or_default (normalizeOptionalLowercaseString v) []"

lemmas string_coerce_defs =
  normalizeNullableString_def normalizeOptionalString_def normalizeOptionalLowercaseString_def
  normalizeLowercaseStringOrEmpty_def

lemma normalizeLowercase_Some: "normalizeLowercaseStringOrEmpty (Some s) = js_lower (js_trim s)"
  by (simp add: string_coerce_defs Let_def)

lemma normalizeLowercase_None [simp]: "normalizeLowercaseStringOrEmpty None = []"
  by (simp add: string_coerce_defs)

lemma normalizeLowercase_idem [simp]:
  "normalizeLowercaseStringOrEmpty (Some (normalizeLowercaseStringOrEmpty v))
     = normalizeLowercaseStringOrEmpty v"
  by (cases v) (simp_all add: normalizeLowercase_Some js_trim_lower)

lemma normalizeOptionalString_Some:
  "normalizeOptionalString v = Some t \<longleftrightarrow> (\<exists>s. v = Some s \<and> t = js_trim s \<and> t \<noteq> [])"
  by (auto simp: string_coerce_defs Let_def split: option.splits)

lemma normalizeOptionalString_idem [simp]:
  "normalizeOptionalString (normalizeOptionalString v) = normalizeOptionalString v"
  by (auto simp: string_coerce_defs Let_def split: option.splits)

lemma normalizeOptionalString_nonempty:
  "normalizeOptionalString v = Some t \<Longrightarrow> t \<noteq> [] \<and> trimmed t"
  by (auto simp: normalizeOptionalString_Some)

section \<open>Numbers\<close>

datatype js_number = Num rat | PInf | NInf | NaN

definition is_finite_num :: "js_number \<Rightarrow> bool" where
  "is_finite_num n = (case n of Num _ \<Rightarrow> True | _ \<Rightarrow> False)"

text \<open>The relational operators: every comparison with NaN is false.\<close>

fun js_less :: "js_number \<Rightarrow> js_number \<Rightarrow> bool" where
  "js_less (Num a) (Num b) = (a < b)"
| "js_less (Num _) PInf = True"
| "js_less NInf (Num _) = True"
| "js_less NInf PInf = True"
| "js_less _ _ = False"

fun js_le :: "js_number \<Rightarrow> js_number \<Rightarrow> bool" where
  "js_le NaN _ = False"
| "js_le _ NaN = False"
| "js_le (Num a) (Num b) = (a \<le> b)"
| "js_le NInf _ = True"
| "js_le _ PInf = True"
| "js_le _ _ = False"

fun js_max :: "js_number \<Rightarrow> js_number \<Rightarrow> js_number" where
  "js_max NaN _ = NaN"
| "js_max _ NaN = NaN"
| "js_max a b = (if js_less a b then b else a)"

fun js_min :: "js_number \<Rightarrow> js_number \<Rightarrow> js_number" where
  "js_min NaN _ = NaN"
| "js_min _ NaN = NaN"
| "js_min a b = (if js_less b a then b else a)"

fun js_floor :: "js_number \<Rightarrow> js_number" where
  "js_floor (Num q) = Num (of_int \<lfloor>q\<rfloor>)"
| "js_floor n = n"

text \<open>
  The exact result of an operation, or the infinity IEEE 754 gives past the largest double.
\<close>

definition js_of_exact :: "rat \<Rightarrow> js_number" where
  "js_of_exact q =
     (if q \<ge> 2 ^ 1024 - 2 ^ 970 then PInf
      else if q \<le> - (2 ^ 1024 - 2 ^ 970) then NInf else Num q)"

fun js_add :: "js_number \<Rightarrow> js_number \<Rightarrow> js_number" where
  "js_add (Num a) (Num b) = js_of_exact (a + b)"
| "js_add NaN _ = NaN"
| "js_add _ NaN = NaN"
| "js_add PInf NInf = NaN"
| "js_add NInf PInf = NaN"
| "js_add PInf _ = PInf"
| "js_add NInf _ = NInf"
| "js_add _ PInf = PInf"
| "js_add _ NInf = NInf"

fun js_neg :: "js_number \<Rightarrow> js_number" where
  "js_neg (Num a) = Num (- a)"
| "js_neg PInf = NInf"
| "js_neg NInf = PInf"
| "js_neg NaN = NaN"

definition js_sub :: "js_number \<Rightarrow> js_number \<Rightarrow> js_number" where
  "js_sub a b = js_add a (js_neg b)"

definition js_trunc :: "rat \<Rightarrow> int" where
  "js_trunc q = (if 0 \<le> q then \<lfloor>q\<rfloor> else \<lceil>q\<rceil>)"

definition MAX_SAFE_INTEGER :: int where
  "MAX_SAFE_INTEGER = 9007199254740991"

fun is_safe_integer :: "js_number \<Rightarrow> bool" where
  "is_safe_integer (Num q) \<longleftrightarrow> q \<in> \<int> \<and> \<bar>q\<bar> \<le> of_int MAX_SAFE_INTEGER"
| "is_safe_integer _ \<longleftrightarrow> False"

text \<open>A dynamically typed value, as far as the coercions tell values apart.\<close>

datatype js_value = VNum js_number | VStr string | VBool bool | VNull | VUndefined | VObject

lemma Ints_rat_iff: "(q :: rat) \<in> \<int> \<longleftrightarrow> of_int \<lfloor>q\<rfloor> = q"
  by (metis Ints_cases Ints_of_int floor_of_int)

lemma is_safe_integer_code [code]:
  "is_safe_integer (Num q) \<longleftrightarrow> of_int \<lfloor>q\<rfloor> = q \<and> \<bar>q\<bar> \<le> of_int MAX_SAFE_INTEGER"
  "is_safe_integer PInf \<longleftrightarrow> False" "is_safe_integer NInf \<longleftrightarrow> False" "is_safe_integer NaN \<longleftrightarrow> False"
  by (simp_all add: Ints_rat_iff)

end
