(* ===== verification/NumberCoercion.thy ===== *)
theory NumberCoercion
  imports JsRuntime
begin

text \<open>
  \<^verbatim>\<open>packages/normalization-core/src/number-coercion.ts\<close>: the coercions every timer, timeout and
  expiry of the program goes through.  \<^verbatim>\<open>unknown\<close> inputs are \<^typ>\<open>js_value\<close>; \<^verbatim>\<open>undefined\<close>
  results are \<^const>\<open>None\<close>; the current time is a parameter.
\<close>

section \<open>Finite and integer numbers\<close>

definition asFiniteNumber :: "js_value \<Rightarrow> rat option" where
  "asFiniteNumber v = (case v of VNum (Num q) \<Rightarrow> Some q | _ \<Rightarrow> None)"

record number_range =
  range_min :: "rat option"
  range_max :: "rat option"
  minExclusive :: bool
  maxExclusive :: bool

definition asFiniteNumberInRange :: "js_value \<Rightarrow> number_range \<Rightarrow> rat option" where
  "asFiniteNumberInRange v r =
     (case asFiniteNumber v of
        None \<Rightarrow> None
      | Some n \<Rightarrow>
          if (case range_min r of None \<Rightarrow> False
              | Some m \<Rightarrow> if minExclusive r then n \<le> m else n < m) then None
          else if (case range_max r of None \<Rightarrow> False
              | Some m \<Rightarrow> if maxExclusive r then n \<ge> m else n > m) then None
          else Some n)"

definition asSafeIntegerInRange :: "js_value \<Rightarrow> rat option \<Rightarrow> rat option \<Rightarrow> rat option" where
  "asSafeIntegerInRange v mn mx =
     (case v of
        VNum (Num q) \<Rightarrow>
          if \<not> is_safe_integer (Num q) then None
          else if (case mn of None \<Rightarrow> False | Some m \<Rightarrow> q < m) then None
          else if (case mx of None \<Rightarrow> False | Some m \<Rightarrow> q > m) then None
          else Some q
      | _ \<Rightarrow> None)"

definition asPositiveSafeInteger :: "js_value \<Rightarrow> rat option" where
  "asPositiveSafeInteger v =
     (case v of VNum (Num q) \<Rightarrow> if is_safe_integer (Num q) \<and> q > 0 then Some q else None | _ \<Rightarrow> None)"

section \<open>Strict integers from text\<close>

definition is_digit :: "char \<Rightarrow> bool" where
  "is_digit c \<longleftrightarrow> (let n = (of_char c :: nat) in 48 \<le> n \<and> n \<le> 57)"

definition digit_value :: "char \<Rightarrow> nat" where
  "digit_value c = of_char c - 48"

definition digits_value :: "string \<Rightarrow> nat" where
  "digits_value ds = foldl (\<lambda>acc c. 10 * acc + digit_value c) 0 ds"

text \<open>\<^verbatim>\<open>/^[+-]?\d+$/\<close> and \<^verbatim>\<open>Number(...)\<close> on the strings it accepts.\<close>

definition split_sign :: "string \<Rightarrow> int \<times> string" where
  "split_sign s =
     (if s \<noteq> [] \<and> hd s = CHR ''+'' then (1, tl s)
      else if s \<noteq> [] \<and> hd s = CHR ''-'' then (-1, tl s)
      else (1, s))"

definition normalizeNumericString :: "string \<Rightarrow> string option" where
  "normalizeNumericString s = (let t = js_trim s in if t \<noteq> [] then Some t else None)"

definition parseStrictInteger :: "js_value \<Rightarrow> int option" where
  "parseStrictInteger v =
     (case v of
        VNum n \<Rightarrow>
          (case n of Num q \<Rightarrow> if is_safe_integer n then Some \<lfloor>q\<rfloor> else None | _ \<Rightarrow> None)
      | VStr s \<Rightarrow>
          (case normalizeNumericString s of
             None \<Rightarrow> None
           | Some t \<Rightarrow>
               (let (sign, ds) = split_sign t in
                if ds = [] \<or> \<not> list_all is_digit ds then None
                else (let n = sign * int (digits_value ds) in
                      if \<bar>n\<bar> \<le> MAX_SAFE_INTEGER then Some n else None)))
      | _ \<Rightarrow> None)"

definition parseStrictPositiveInteger :: "js_value \<Rightarrow> int option" where
  "parseStrictPositiveInteger v =
     (case parseStrictInteger v of Some n \<Rightarrow> if n > 0 then Some n else None | None \<Rightarrow> None)"

definition parseStrictNonNegativeInteger :: "js_value \<Rightarrow> int option" where
  "parseStrictNonNegativeInteger v =
     (case parseStrictInteger v of Some n \<Rightarrow> if n \<ge> 0 then Some n else None | None \<Rightarrow> None)"

definition safe_int :: "int \<Rightarrow> bool" where
  "safe_int n \<longleftrightarrow> \<bar>n\<bar> \<le> MAX_SAFE_INTEGER"

definition positiveSecondsToSafeMilliseconds :: "js_value \<Rightarrow> int option" where
  "positiveSecondsToSafeMilliseconds v =
     (case parseStrictPositiveInteger v of
        None \<Rightarrow> None
      | Some s \<Rightarrow> if safe_int (s * 1000) then Some (s * 1000) else None)"

definition nonNegativeSecondsToSafeMilliseconds :: "js_value \<Rightarrow> int option" where
  "nonNegativeSecondsToSafeMilliseconds v =
     (case parseStrictNonNegativeInteger v of
        None \<Rightarrow> None
      | Some s \<Rightarrow> if safe_int (s * 1000) then Some (s * 1000) else None)"

section \<open>Dates\<close>

definition MAX_DATE_TIMESTAMP_MS :: int where
  "MAX_DATE_TIMESTAMP_MS = 8640000000000000"

definition asDateTimestampMs :: "js_value \<Rightarrow> rat option" where
  "asDateTimestampMs v =
     asFiniteNumberInRange v
       \<lparr>range_min = Some (- of_int MAX_DATE_TIMESTAMP_MS), range_max = Some (of_int MAX_DATE_TIMESTAMP_MS),
        minExclusive = False, maxExclusive = False\<rparr>"

definition isFutureDateTimestampMs :: "int \<Rightarrow> js_value \<Rightarrow> js_number option \<Rightarrow> bool" where
  "isFutureDateTimestampMs clock v nowMs =
     (case (asDateTimestampMs v,
            asDateTimestampMs (VNum (or_default nowMs (Num (of_int clock))))) of
        (Some t, Some n) \<Rightarrow> t > n
      | _ \<Rightarrow> False)"

definition resolveDateTimestampMs :: "js_value \<Rightarrow> js_value \<Rightarrow> rat" where
  "resolveDateTimestampMs v fallback =
     or_default (or_else (asDateTimestampMs v) (asDateTimestampMs fallback)) 0"

section \<open>Timer delays\<close>

definition MAX_TIMER_TIMEOUT_MS :: int where
  "MAX_TIMER_TIMEOUT_MS = 2147000000"

definition clampTimerTimeoutMs :: "js_value \<Rightarrow> js_number \<Rightarrow> js_number option" where
  "clampTimerTimeoutMs v minMs =
     (case asFiniteNumber v of
        None \<Rightarrow> None
      | Some q \<Rightarrow>
          (let mn = js_max (Num 1) (js_floor minMs) in
           Some (js_min (js_max (js_floor (Num q)) mn) (Num (of_int MAX_TIMER_TIMEOUT_MS)))))"

definition clampPositiveTimerTimeoutMs :: "js_value \<Rightarrow> js_number option" where
  "clampPositiveTimerTimeoutMs v =
     (case asFiniteNumber v of
        None \<Rightarrow> None
      | Some q \<Rightarrow> if q \<le> 0 then None else clampTimerTimeoutMs (VNum (Num q)) (Num 1))"

definition resolveTimerTimeoutMs :: "js_value \<Rightarrow> js_number \<Rightarrow> js_number \<Rightarrow> js_number" where
  "resolveTimerTimeoutMs v fallback minMs =
     (let mn = js_max (Num 0) (js_floor minMs) in
      case or_else (asFiniteNumber v) (asFiniteNumber (VNum fallback)) of
        None \<Rightarrow> mn
      | Some q \<Rightarrow> js_min (js_max (js_floor (Num q)) mn) (Num (of_int MAX_TIMER_TIMEOUT_MS)))"

definition resolvePositiveTimerTimeoutMs :: "js_value \<Rightarrow> js_number \<Rightarrow> js_number" where
  "resolvePositiveTimerTimeoutMs v fallback =
     or_default (clampPositiveTimerTimeoutMs v) (resolveTimerTimeoutMs (VNum fallback) (Num 1) (Num 1))"

definition addTimerTimeoutGraceMs :: "js_value \<Rightarrow> js_value \<Rightarrow> js_number option" where
  "addTimerTimeoutGraceMs timeoutMs graceMs =
     (case (asFiniteNumber timeoutMs, asFiniteNumber graceMs) of
        (Some t, Some g) \<Rightarrow>
          (let w = js_add (Num t) (Num g) in
           if is_finite_num w then clampTimerTimeoutMs (VNum w) (Num 1)
           else Some (Num (of_int MAX_TIMER_TIMEOUT_MS)))
      | _ \<Rightarrow> None)"

definition finiteSecondsToTimerSafeMilliseconds :: "js_value \<Rightarrow> bool \<Rightarrow> js_number option" where
  "finiteSecondsToTimerSafeMilliseconds v floorSeconds =
     (case asFiniteNumber v of
        None \<Rightarrow> None
      | Some s \<Rightarrow>
          if s \<le> 0 then None
          else (let bounded = (if floorSeconds then of_int \<lfloor>s\<rfloor> else s);
                    ms = js_floor (js_of_exact (bounded * 1000)) in
                if \<not> is_finite_num ms \<or> js_le ms (Num 0) then None
                else Some (js_min ms (Num (of_int MAX_TIMER_TIMEOUT_MS)))))"

section \<open>Integer options\<close>

definition resolveIntegerOption :: "js_value \<Rightarrow> js_number \<Rightarrow> js_number option \<Rightarrow> js_number option \<Rightarrow> js_number" where
  "resolveIntegerOption v fallback mn mx =
     (let candidate = (case asFiniteNumber v of Some q \<Rightarrow> Num q | None \<Rightarrow> fallback);
          floored = js_floor candidate;
          minBounded = (case mn of None \<Rightarrow> floored | Some m \<Rightarrow> js_max m floored)
      in case mx of None \<Rightarrow> minBounded | Some m \<Rightarrow> js_min m minBounded)"

definition resolveOptionalIntegerOption :: "js_value \<Rightarrow> js_number option \<Rightarrow> js_number option \<Rightarrow> js_number option" where
  "resolveOptionalIntegerOption v mn mx =
     (case asFiniteNumber v of
        None \<Rightarrow> None
      | Some q \<Rightarrow> Some (resolveIntegerOption v (Num q) mn mx))"

definition resolveNonNegativeIntegerOption :: "js_value \<Rightarrow> js_number \<Rightarrow> js_number" where
  "resolveNonNegativeIntegerOption v fallback = resolveIntegerOption v fallback (Some (Num 0)) None"

section \<open>Expiries\<close>

record expiry_opts =
  opt_nowMs :: "js_number option"
  opt_bufferMs :: "js_number option"
  opt_minRemainingMs :: "js_number option"

definition no_expiry_opts :: expiry_opts where
  "no_expiry_opts = \<lparr>opt_nowMs = None, opt_bufferMs = None, opt_minRemainingMs = None\<rparr>"

text \<open>\<^verbatim>\<open>timestampMsToIsoString(t) === undefined\<close>: the timestamp is outside \<^verbatim>\<open>Date\<close>'s range.\<close>

definition date_valid :: "js_number \<Rightarrow> bool" where
  "date_valid n \<longleftrightarrow> asDateTimestampMs (VNum n) \<noteq> None"

definition resolveExpiresAtMsFromDurationMs :: "int \<Rightarrow> js_value \<Rightarrow> expiry_opts \<Rightarrow> js_number option" where
  "resolveExpiresAtMsFromDurationMs clock v opts =
     (case asPositiveSafeInteger v of
        None \<Rightarrow> None
      | Some duration \<Rightarrow>
          (case (asDateTimestampMs (VNum (or_default (opt_nowMs opts) (Num (of_int clock)))),
                 asFiniteNumber (VNum (or_default (opt_bufferMs opts) (Num 0)))) of
             (Some nowMs, Some bufferMs) \<Rightarrow>
               (let expiresAt = js_sub (js_add (Num nowMs) (Num duration)) (Num bufferMs) in
                if \<not> is_safe_integer expiresAt \<or> \<not> date_valid expiresAt then None
                else (case opt_minRemainingMs opts of
                        None \<Rightarrow> Some expiresAt
                      | Some r \<Rightarrow>
                          (let minExpiresAt = js_add (Num nowMs) r in
                           if \<not> is_safe_integer minExpiresAt \<or> \<not> date_valid minExpiresAt
                           then Some expiresAt
                           else Some (js_max expiresAt minExpiresAt))))
           | _ \<Rightarrow> None))"

definition resolveExpiresAtMsFromDurationSeconds :: "int \<Rightarrow> js_value \<Rightarrow> expiry_opts \<Rightarrow> js_number option" where
  "resolveExpiresAtMsFromDurationSeconds clock v opts =
     (case positiveSecondsToSafeMilliseconds v of
        None \<Rightarrow> None
      | Some ms \<Rightarrow> resolveExpiresAtMsFromDurationMs clock (VNum (Num (of_int ms))) opts)"

definition resolveExpiresAtMsFromEpochSeconds ::
  "js_value \<Rightarrow> js_number option \<Rightarrow> js_number option \<Rightarrow> js_number option" where
  "resolveExpiresAtMsFromEpochSeconds v bufferMs maxMs =
     (case (case asFiniteNumber v of
              Some q \<Rightarrow> if q > 0 then Some (js_of_exact (of_int (js_trunc q) * 1000))
                        else map_option (\<lambda>n. Num (of_int n)) (positiveSecondsToSafeMilliseconds v)
            | None \<Rightarrow> map_option (\<lambda>n. Num (of_int n)) (positiveSecondsToSafeMilliseconds v)) of
        None \<Rightarrow> None
      | Some epochMs \<Rightarrow>
          (let expiresAt = js_sub epochMs (or_default bufferMs (Num 0)) in
           if \<not> is_safe_integer expiresAt then None
           else if \<not> date_valid expiresAt then None
           else (case maxMs of
                   None \<Rightarrow> Some expiresAt
                 | Some m \<Rightarrow> if js_le expiresAt m then Some expiresAt else None)))"

definition resolveExpiresAtMsFromDurationOrEpoch ::
  "int \<Rightarrow> js_value \<Rightarrow> js_number option \<Rightarrow> js_number option \<Rightarrow> js_number option \<Rightarrow> js_number option" where
  "resolveExpiresAtMsFromDurationOrEpoch clock v nowMs relThreshold absThreshold =
     (case parseStrictPositiveInteger v of
        None \<Rightarrow> None
      | Some parsed \<Rightarrow>
          (let p = Num (of_int parsed) in
           if js_less p (or_default relThreshold (Num 1000000000))
           then resolveExpiresAtMsFromDurationSeconds clock (VNum p) (no_expiry_opts\<lparr>opt_nowMs := nowMs\<rparr>)
           else if js_less p (or_default absThreshold (Num 1000000000000))
           then resolveExpiresAtMsFromEpochSeconds (VNum p) None None
           else map_option Num (asDateTimestampMs (VNum p))))"

section \<open>Facts about the coercions\<close>

lemma asFiniteNumber_Num [simp]: "asFiniteNumber (VNum (Num q)) = Some q"
  by (simp add: asFiniteNumber_def)

lemma js_max_Num [simp]: "js_max (Num a) (Num b) = Num (max a b)"
  by (simp add: max_def)

lemma js_min_Num [simp]: "js_min (Num a) (Num b) = Num (min a b)"
  by (simp add: min_def not_less)

declare js_max.simps(3) [simp del] js_min.simps(3) [simp del]

lemma js_of_exact_small:
  assumes "\<bar>q\<bar> \<le> 2 ^ 100"
  shows "js_of_exact q = Num q"
proof -
  have "(2 :: rat) ^ 100 < 2 ^ 1024 - 2 ^ 970" by simp
  with assms show ?thesis by (simp add: js_of_exact_def abs_le_iff)
qed

lemma resolveTimer_value:
  assumes "or_else (asFiniteNumber v) (asFiniteNumber (VNum fb)) = Some q"
  shows "resolveTimerTimeoutMs v fb (Num m)
     = Num (of_int (min (max \<lfloor>q\<rfloor> (max 0 \<lfloor>m\<rfloor>)) MAX_TIMER_TIMEOUT_MS))"
  using assms by (simp add: resolveTimerTimeoutMs_def Let_def of_int_min of_int_max)

definition timer_int :: "js_value \<Rightarrow> rat \<Rightarrow> rat \<Rightarrow> int" where
  "timer_int v fb m =
     min (max \<lfloor>or_default (asFiniteNumber v) fb\<rfloor> (max 0 \<lfloor>m\<rfloor>)) MAX_TIMER_TIMEOUT_MS"

lemma resolveTimer_int: "resolveTimerTimeoutMs v (Num fb) (Num m) = Num (of_int (timer_int v fb m))"
  using resolveTimer_value [of v "Num fb" "or_default (asFiniteNumber v) fb" m]
  by (cases "asFiniteNumber v") (simp_all add: timer_int_def)

lemma timer_int_bounds:
  "0 \<le> timer_int v fb m" "timer_int v fb m \<le> MAX_TIMER_TIMEOUT_MS"
  "min \<lfloor>m\<rfloor> MAX_TIMER_TIMEOUT_MS \<le> timer_int v fb m"
  by (simp_all add: timer_int_def MAX_TIMER_TIMEOUT_MS_def)

text \<open>\<^verbatim>\<open>resolveTimerTimeoutMs\<close> answers whole numbers; this reads them as integers.\<close>

definition whole_ms :: "js_number \<Rightarrow> int" where
  "whole_ms n = (case n of Num q \<Rightarrow> \<lfloor>q\<rfloor> | _ \<Rightarrow> 0)"

lemma whole_ms_timer: "whole_ms (resolveTimerTimeoutMs v (Num fb) (Num m)) = timer_int v fb m"
  by (simp add: resolveTimer_int whole_ms_def)

lemma asDateTimestampMs_Some:
  "asDateTimestampMs v = Some t \<longleftrightarrow> v = VNum (Num t) \<and> \<bar>t\<bar> \<le> of_int MAX_DATE_TIMESTAMP_MS"
  by (auto simp: asDateTimestampMs_def asFiniteNumberInRange_def asFiniteNumber_def abs_le_iff
      split: js_value.splits js_number.splits)

lemma date_valid_Num: "date_valid (Num t) \<longleftrightarrow> \<bar>t\<bar> \<le> of_int MAX_DATE_TIMESTAMP_MS"
  using asDateTimestampMs_Some [of "VNum (Num t)" t]
  by (auto simp: date_valid_def asDateTimestampMs_Some)

lemma safe_dateE:
  assumes "is_safe_integer e" and "date_valid e"
  obtains n where "e = Num (of_int n)" and "safe_int n" and "\<bar>n\<bar> \<le> MAX_DATE_TIMESTAMP_MS"
proof -
  from assms(1) obtain q where q: "e = Num q" "q \<in> \<int>" "\<bar>q\<bar> \<le> of_int MAX_SAFE_INTEGER"
    by (cases e) auto
  then obtain n where n: "q = of_int n" by (auto elim: Ints_cases)
  with q have "\<bar>n\<bar> \<le> MAX_SAFE_INTEGER" by (simp flip: of_int_abs)
  moreover from assms(2) q n have "\<bar>n\<bar> \<le> MAX_DATE_TIMESTAMP_MS"
    by (simp add: date_valid_Num flip: of_int_abs)
  ultimately show thesis using that q n by (simp add: safe_int_def)
qed

lemma expiry_cases:
  assumes "resolveExpiresAtMsFromDurationMs clock v opts = Some e"
  shows "is_safe_integer e \<and> date_valid e"
proof -
  have mx: "is_safe_integer (js_max a b) \<and> date_valid (js_max a b)"
    if "is_safe_integer a" "date_valid a" "is_safe_integer b" "date_valid b" for a b
    using that by (cases a; cases b) (auto simp: max_def)
  show ?thesis
    using assms mx
    by (auto simp: resolveExpiresAtMsFromDurationMs_def Let_def split: option.splits if_splits)
qed

section \<open>Printing and parsing integers\<close>

text \<open>\<^verbatim>\<open>String(n)\<close> for an integer below $10^{21}$.\<close>

fun show_nat :: "nat \<Rightarrow> string" where
  "show_nat n = (if n < 10 then [char_of (48 + n)] else show_nat (n div 10) @ [char_of (48 + n mod 10)])"

declare show_nat.simps [simp del]

definition show_int :: "int \<Rightarrow> string" where
  "show_int n = (if n < 0 then CHR ''-'' # show_nat (nat (- n)) else show_nat (nat n))"

lemma digit_char: "d < 10 \<Longrightarrow> is_digit (char_of (48 + d)) \<and> digit_value (char_of (48 + d)) = d"
  by (simp add: is_digit_def digit_value_def)

lemma digits_value_snoc: "digits_value (ds @ [c]) = 10 * digits_value ds + digit_value c"
  by (simp add: digits_value_def)

lemma show_nat_spec:
  "digits_value (show_nat n) = n \<and> list_all is_digit (show_nat n) \<and> show_nat n \<noteq> []"
proof (induction n rule: show_nat.induct)
  case (1 n)
  show ?case
  proof (cases "n < 10")
    case True
    with digit_char [of n] show ?thesis
      by (simp add: show_nat.simps [of n] digits_value_def)
  next
    case False
    with 1 digit_char [of "n mod 10"] show ?thesis
      by (simp add: show_nat.simps [of n] digits_value_snoc)
  qed
qed

lemma is_digit_facts:
  "is_digit c \<Longrightarrow> c \<noteq> CHR ''+'' \<and> c \<noteq> CHR ''-'' \<and> \<not> is_js_space c"
  by (auto simp: is_digit_def is_js_space_def Let_def)

lemma split_sign_digits: "list_all is_digit ds \<Longrightarrow> split_sign ds = (1, ds)"
  by (cases ds) (auto simp: split_sign_def dest: is_digit_facts)

lemma digits_trimmed: "list_all is_digit ds \<Longrightarrow> trimmed ds"
  using is_digit_facts by (cases "ds = []") (simp_all add: trimmed_def list_all_iff)

lemma show_int_trimmed: "trimmed (show_int n)"
proof (cases "n < 0")
  case True
  have "\<not> is_js_space (last (show_nat (nat (- n))))"
    using show_nat_spec [of "nat (- n)"] digits_trimmed [of "show_nat (nat (- n))"]
    by (auto simp: trimmed_def)
  with True show_nat_spec [of "nat (- n)"] show ?thesis
    by (auto simp: show_int_def trimmed_def is_js_space_def)
next
  case False
  then show ?thesis using show_nat_spec digits_trimmed by (simp add: show_int_def)
qed

lemma split_sign_show_int:
  "split_sign (show_int n) = (if n < 0 then -1 else 1, show_nat (nat \<bar>n\<bar>))"
  using show_nat_spec [of "nat n"] split_sign_digits
  by (auto simp: show_int_def) (simp add: split_sign_def)

lemma parse_show_int:
  "parseStrictInteger (VStr (show_int n)) = (if safe_int n then Some n else None)"
proof -
  have "show_int n \<noteq> []" using show_nat_spec by (simp add: show_int_def)
  moreover have "js_trim (show_int n) = show_int n"
    by (rule js_trim_trimmed [OF show_int_trimmed])
  ultimately show ?thesis using show_nat_spec [of "nat \<bar>n\<bar>"]
    by (auto simp: parseStrictInteger_def normalizeNumericString_def split_sign_show_int safe_int_def)
qed

end
