(* ===== verification/NumberProps.thy ===== *)
theory NumberProps
  imports NumberCoercion
begin

text \<open>
  The properties of the number coercions: a timer delay is always one the host accepts, an expiry is
  always a timestamp, and integers survive printing and parsing.
\<close>

text \<open>
  Whatever value, fallback and minimum it is given, \<^verbatim>\<open>resolveTimerTimeoutMs\<close> answers a whole
  number of milliseconds between 0 and the largest delay the host's timers take, and at least the
  minimum unless the minimum itself is past that limit.
\<close>
theorem timer_delay_bounds:
  "\<exists>n. resolveTimerTimeoutMs v (Num fallback) (Num m) = Num (of_int n) \<and>
     0 \<le> n \<and> n \<le> MAX_TIMER_TIMEOUT_MS \<and> min \<lfloor>m\<rfloor> MAX_TIMER_TIMEOUT_MS \<le> n"
  using timer_int_bounds by (intro exI [of _ "timer_int v fallback m"]) (simp add: resolveTimer_int)

text \<open>
  An expiry computed from a duration is a safe integer in the range of \<^verbatim>\<open>Date\<close>, and without a
  buffer it lies after the clock it was computed from.
\<close>
theorem expiry_is_future_date:
  assumes "resolveExpiresAtMsFromDurationMs clock v (no_expiry_opts\<lparr>opt_minRemainingMs := r\<rparr>) = Some e"
  shows "\<exists>n. e = Num (of_int n) \<and> clock < n \<and> \<bar>n\<bar> \<le> MAX_DATE_TIMESTAMP_MS"
proof -
  from expiry_cases [OF assms] obtain n where n: "e = Num (of_int n)" "\<bar>n\<bar> \<le> MAX_DATE_TIMESTAMP_MS"
    by (auto elim: safe_dateE)
  obtain d where d: "asPositiveSafeInteger v = Some d"
    using assms by (auto simp: resolveExpiresAtMsFromDurationMs_def split: option.splits)
  have now: "asDateTimestampMs (VNum (Num (of_int clock))) = Some (of_int clock)"
    using assms d by (auto simp: resolveExpiresAtMsFromDurationMs_def no_expiry_opts_def
        asDateTimestampMs_Some split: option.splits)
  have pos: "0 < d" and small: "\<bar>d\<bar> \<le> of_int MAX_SAFE_INTEGER"
    using d by (auto simp: asPositiveSafeInteger_def split: js_value.splits js_number.splits if_splits)
  have clock: "\<bar>of_int clock :: rat\<bar> \<le> of_int MAX_DATE_TIMESTAMP_MS"
    using now asDateTimestampMs_Some by blast
  have sum: "\<bar>of_int clock + d\<bar> \<le> 2 ^ 100"
    using abs_triangle_ineq [of "of_int clock" d] small clock
    by (simp add: MAX_SAFE_INTEGER_def MAX_DATE_TIMESTAMP_MS_def)
  have expires: "js_sub (js_add (Num (of_int clock)) (Num d)) (Num 0) = Num (of_int clock + d)"
    using js_of_exact_small [OF sum] by (simp add: js_sub_def)
  have "e = Num (of_int clock + d) \<or> (\<exists>y. is_safe_integer y \<and> e = js_max (Num (of_int clock + d)) y)"
    using assms d now expires
    by (auto simp: resolveExpiresAtMsFromDurationMs_def no_expiry_opts_def Let_def
        split: option.splits if_splits)
  then have "\<exists>x. e = Num x \<and> of_int clock + d \<le> x"
  proof
    assume "\<exists>y. is_safe_integer y \<and> e = js_max (Num (of_int clock + d)) y"
    then obtain y where "is_safe_integer y" "e = js_max (Num (of_int clock + d)) y" by blast
    then show ?thesis by (cases y) auto
  qed auto
  with n(1) pos have "(of_int clock :: rat) < of_int n" by auto
  with n show ?thesis by auto
qed

lemma expiry_is_future_date_witness:
  "\<exists>n. Num 1700000060000 = Num (of_int n) \<and> 1700000000000 < n \<and> \<bar>n\<bar> \<le> MAX_DATE_TIMESTAMP_MS"
proof (rule expiry_is_future_date)
  have "js_of_exact 1700000060000 = Num 1700000060000" by (rule js_of_exact_small) simp
  then show "resolveExpiresAtMsFromDurationMs 1700000000000 (VNum (Num 60000))
      (no_expiry_opts\<lparr>opt_minRemainingMs := None\<rparr>) = Some (Num 1700000060000)"
    by (simp add: resolveExpiresAtMsFromDurationMs_def no_expiry_opts_def asPositiveSafeInteger_def
        MAX_SAFE_INTEGER_def asDateTimestampMs_def asFiniteNumberInRange_def MAX_DATE_TIMESTAMP_MS_def
        js_sub_def date_valid_Num)
qed

text \<open>
  The strict integer parser reads back every safe integer as it is printed, and refuses the
  printed form of any other integer.
\<close>
theorem integer_print_parse:
  "parseStrictInteger (VStr (show_int n)) = (if \<bar>n\<bar> \<le> MAX_SAFE_INTEGER then Some n else None)"
  using parse_show_int by (simp add: safe_int_def)

end
