(* ===== verification/CommandQueue.thy ===== *)
theory CommandQueue
  imports NumberCoercion
begin

text \<open>
  \<^verbatim>\<open>src/process/command-queue.ts\<close>: named lanes that serialise and bound the commands of the
  gateway.  A lane holds a priority queue of entries and the ids of its running tasks; a pump
  starts entries while the lane has capacity.  JavaScript runs one continuation at a time, so the
  module is a state machine whose events are the calls of its exported functions and the
  continuations of the running tasks: a task settles, or its timeout timer fires.  The closure of a
  started task is a record of \<^verbatim>\<open>inflight\<close>; settling a promise is an entry of the output log.
  A task, its result and a thrown value are opaque, so they are numbers and strings.
\<close>

section \<open>State\<close>

datatype queue_priority = Foreground | Normal | Background

datatype queue_error =
    CommandLaneClearedError string
  | CommandLaneTaskTimeoutError string int
  | GatewayDrainingError
  | TaskThrew string

datatype task_outcome = Fulfilled nat | Failed queue_error

record queue_entry =
  task :: nat
  enqueuedAt :: int
  sequence :: nat
  priority :: int
  warnAfterMs :: js_number
  queuedAheadAtEnqueue :: nat
  activeAheadAtEnqueue :: nat
  taskTimeoutMs :: "int option"
  onWait :: bool

record lane_state =
  lane :: string
  queue :: "queue_entry list"
  activeTaskIds :: "nat list"
  maxConcurrent :: js_number
  draining :: bool
  generation :: nat

record task_run =
  run_lane :: string
  run_entry :: queue_entry
  run_taskId :: nat
  run_generation :: nat
  run_startedAt :: int
  run_timer :: "int option"

record active_waiter =
  waiter_id :: nat
  waiter_taskIds :: "nat list"

datatype queue_output =
    OnWait nat int nat
  | Settled nat task_outcome
  | WaiterDone nat bool

record queue_state =
  gatewayDraining :: bool
  lanes :: "(string, lane_state) js_map"
  activeTaskWaiters :: "active_waiter list"
  nextTaskId :: nat
  nextQueueSequence :: nat
  inflight :: "task_run list"
  nextWaiterId :: nat
  outputs :: "queue_output list"

definition initial_queue_state :: queue_state where
  "initial_queue_state =
     \<lparr>gatewayDraining = False, lanes = [], activeTaskWaiters = [], nextTaskId = 1,
      nextQueueSequence = 1, inflight = [], nextWaiterId = 0, outputs = []\<rparr>"

record enqueue_opts =
  opt_warnAfterMs :: "js_number option"
  opt_taskTimeoutMs :: "js_number option"
  opt_priority :: "queue_priority option"
  opt_onWait :: bool

record lane_snapshot =
  snap_lane :: string
  snap_queuedCount :: nat
  snap_activeCount :: nat
  snap_maxConcurrent :: js_number
  snap_draining :: bool
  snap_generation :: nat

section \<open>Lanes\<close>

definition normalizeLane :: "string \<Rightarrow> string" where
  "normalizeLane l = (let t = js_trim l in if t \<noteq> [] then t else ''main'')"

definition getLaneDepth :: "lane_state \<Rightarrow> nat" where
  "getLaneDepth s = length (queue s) + length (activeTaskIds s)"

definition createCommandLaneSnapshot :: "lane_state \<Rightarrow> lane_snapshot" where
  "createCommandLaneSnapshot s =
     \<lparr>snap_lane = lane s, snap_queuedCount = length (queue s),
      snap_activeCount = length (activeTaskIds s), snap_maxConcurrent = maxConcurrent s,
      snap_draining = draining s, snap_generation = generation s\<rparr>"

definition fresh_lane :: "string \<Rightarrow> lane_state" where
  "fresh_lane l =
     \<lparr>lane = l, queue = [], activeTaskIds = [], maxConcurrent = Num 1, draining = False,
      generation = 0\<rparr>"

definition put_lane :: "string \<Rightarrow> lane_state \<Rightarrow> queue_state \<Rightarrow> queue_state" where
  "put_lane l s st = st\<lparr>lanes := js_set l s (lanes st)\<rparr>"

definition getLaneState :: "string \<Rightarrow> queue_state \<Rightarrow> lane_state \<times> queue_state" where
  "getLaneState l st =
     (case js_get (lanes st) l of
        Some s \<Rightarrow> (s, st)
      | None \<Rightarrow> (fresh_lane l, put_lane l (fresh_lane l) st))"

definition completeTask :: "lane_state \<Rightarrow> nat \<Rightarrow> nat \<Rightarrow> lane_state \<times> bool" where
  "completeTask s taskId taskGeneration =
     (if taskGeneration \<noteq> generation s then (s, False)
      else (s\<lparr>activeTaskIds := filter (\<lambda>i. i \<noteq> taskId) (activeTaskIds s)\<rparr>, True))"

definition all_active_ids :: "queue_state \<Rightarrow> nat list" where
  "all_active_ids st = concat (map activeTaskIds (js_values (lanes st)))"

definition hasPendingActiveTasks :: "nat list \<Rightarrow> queue_state \<Rightarrow> bool" where
  "hasPendingActiveTasks ids st = list_ex (\<lambda>i. i \<in> set ids) (all_active_ids st)"

definition emit :: "queue_output list \<Rightarrow> queue_state \<Rightarrow> queue_state" where
  "emit os st = st\<lparr>outputs := outputs st @ os\<rparr>"

definition resolveActiveTaskWaiter :: "nat \<Rightarrow> bool \<Rightarrow> queue_state \<Rightarrow> queue_state" where
  "resolveActiveTaskWaiter w drained st =
     (if w \<notin> set (map waiter_id (activeTaskWaiters st)) then st
      else emit [WaiterDone w drained]
             (st\<lparr>activeTaskWaiters := filter (\<lambda>x. waiter_id x \<noteq> w) (activeTaskWaiters st)\<rparr>))"

definition notify_one :: "active_waiter \<Rightarrow> queue_state \<Rightarrow> queue_state" where
  "notify_one w st =
     (if waiter_taskIds w = [] \<or> \<not> hasPendingActiveTasks (waiter_taskIds w) st
      then resolveActiveTaskWaiter (waiter_id w) True st else st)"

definition notifyActiveTaskWaiters :: "queue_state \<Rightarrow> queue_state" where
  "notifyActiveTaskWaiters st = fold notify_one (activeTaskWaiters st) st"

section \<open>Entries\<close>

definition normalizeTaskTimeoutMs :: "js_number option \<Rightarrow> int option" where
  "normalizeTaskTimeoutMs v =
     (case v of
        Some (Num q) \<Rightarrow> if q \<le> 0 then None else Some (max 1 \<lfloor>q\<rfloor>)
      | _ \<Rightarrow> None)"

definition resolveQueuePriority :: "queue_priority option \<Rightarrow> int" where
  "resolveQueuePriority p =
     (case p of Some Foreground \<Rightarrow> 1 | Some Background \<Rightarrow> -1 | _ \<Rightarrow> 0)"

definition comes_after :: "queue_entry \<Rightarrow> queue_entry \<Rightarrow> bool" where
  "comes_after e queued \<longleftrightarrow>
     priority queued < priority e \<or>
     (priority queued = priority e \<and> sequence queued > sequence e)"

definition enqueueLaneEntry :: "lane_state \<Rightarrow> queue_entry \<Rightarrow> lane_state" where
  "enqueueLaneEntry s e =
     (let i = find_index (comes_after e) (queue s);
          e' = e\<lparr>queuedAheadAtEnqueue := i, activeAheadAtEnqueue := length (activeTaskIds s)\<rparr>
      in s\<lparr>queue := insert_at_index i e' (queue s)\<rparr>)"

section \<open>Task timeouts\<close>

text \<open>
  The value the progress callback gives is an input; a throwing or absent callback is
  \<^const>\<open>None\<close>.
\<close>

definition readLastProgressAtMs :: "int \<Rightarrow> js_number option \<Rightarrow> int" where
  "readLastProgressAtMs startedAtMs progress =
     (case progress of
        Some (Num q) \<Rightarrow> if q > 0 then max startedAtMs \<lfloor>q\<rfloor> else startedAtMs
      | _ \<Rightarrow> startedAtMs)"

text \<open>\<^verbatim>\<open>armTimeout\<close>: the time the next timer fires, or \<^const>\<open>None\<close> when the task timed out.\<close>

definition armTimeout :: "int \<Rightarrow> int \<Rightarrow> int \<Rightarrow> js_number option \<Rightarrow> int option" where
  "armTimeout timeoutMs startedAtMs now progress =
     (let elapsedMs = max 0 (now - readLastProgressAtMs startedAtMs progress);
          remainingMs = timeoutMs - elapsedMs
      in if remainingMs \<le> 0 then None else Some (now + remainingMs))"

definition start_run :: "int \<Rightarrow> string \<Rightarrow> nat \<Rightarrow> queue_entry \<Rightarrow> nat \<Rightarrow> task_run" where
  "start_run now l gen e taskId =
     \<lparr>run_lane = l, run_entry = e, run_taskId = taskId, run_generation = gen, run_startedAt = now,
      run_timer =
        (case normalizeTaskTimeoutMs (map_option (\<lambda>n. Num (of_int n)) (taskTimeoutMs e)) of
           None \<Rightarrow> None
         | Some t \<Rightarrow> armTimeout t now now None)\<rparr>"

section \<open>The pump\<close>

definition below_max :: "nat list \<Rightarrow> js_number \<Rightarrow> bool" where
  "below_max active mx \<longleftrightarrow> js_less (Num (of_nat (length active))) mx"

definition wait_outputs :: "int \<Rightarrow> queue_entry \<Rightarrow> queue_output list" where
  "wait_outputs now e =
     (let waitedMs = now - enqueuedAt e in
      if js_le (warnAfterMs e) (Num (of_int waitedMs)) \<and> onWait e
      then [OnWait (sequence e) waitedMs (queuedAheadAtEnqueue e)] else [])"

fun pump_entries ::
  "int \<Rightarrow> string \<Rightarrow> js_number \<Rightarrow> nat \<Rightarrow> queue_entry list \<Rightarrow> nat list \<Rightarrow> nat
     \<Rightarrow> queue_entry list \<times> nat list \<times> nat \<times> task_run list \<times> queue_output list" where
  "pump_entries now l mx gen [] active next = ([], active, next, [], [])"
| "pump_entries now l mx gen (e # q) active next =
     (if below_max active mx then
        (let (q', active', next', runs, outs) =
               pump_entries now l mx gen q (js_set_add next active) (Suc next)
         in (q', active', next', start_run now l gen e next # runs, wait_outputs now e @ outs))
      else (e # q, active, next, [], []))"

definition pump :: "int \<Rightarrow> string \<Rightarrow> queue_state \<Rightarrow> queue_state" where
  "pump now l st =
     (case js_get (lanes st) l of
        None \<Rightarrow> st
      | Some s \<Rightarrow>
          (let (q', active', next', runs, outs) =
                 pump_entries now l (maxConcurrent s) (generation s) (queue s) (activeTaskIds s)
                   (nextTaskId st)
           in emit outs
                ((put_lane l (s\<lparr>queue := q', activeTaskIds := active', draining := False\<rparr>) st)
                   \<lparr>nextTaskId := next', inflight := inflight st @ runs\<rparr>)))"

definition drainLane :: "int \<Rightarrow> string \<Rightarrow> queue_state \<Rightarrow> queue_state" where
  "drainLane now l st =
     (let (s, st1) = getLaneState l st in
      if draining s then st1
      else pump now l (put_lane l (s\<lparr>draining := True\<rparr>) st1))"

text \<open>
  The continuation of a started task once its race with the timeout is decided: the lane forgets
  the task if the task belongs to the lane's current generation, wakes the waiters and pumps; the
  promise of the entry is settled in either case.
\<close>

definition finish_task :: "int \<Rightarrow> task_run \<Rightarrow> task_outcome \<Rightarrow> queue_state \<Rightarrow> queue_state" where
  "finish_task now r outcome st =
     (let st0 = st\<lparr>inflight := filter (\<lambda>x. run_taskId x \<noteq> run_taskId r) (inflight st)\<rparr> in
      emit [Settled (sequence (run_entry r)) outcome]
        (case js_get (lanes st0) (run_lane r) of
           None \<Rightarrow> st0
         | Some s \<Rightarrow>
             (let (s', completedCurrentGeneration) =
                    completeTask s (run_taskId r) (run_generation r)
              in if completedCurrentGeneration
                 then pump now (run_lane r)
                        (notifyActiveTaskWaiters (put_lane (run_lane r) s' st0))
                 else st0)))"

definition find_run :: "nat \<Rightarrow> queue_state \<Rightarrow> task_run option" where
  "find_run taskId st = List.find (\<lambda>r. run_taskId r = taskId) (inflight st)"

definition task_settled :: "int \<Rightarrow> nat \<Rightarrow> task_outcome \<Rightarrow> queue_state \<Rightarrow> queue_state" where
  "task_settled now taskId outcome st =
     (case find_run taskId st of None \<Rightarrow> st | Some r \<Rightarrow> finish_task now r outcome st)"

text \<open>A timeout timer fires: the callback \<^verbatim>\<open>armTimeout\<close> re-arms it or rejects the race.\<close>

definition timer_fired :: "int \<Rightarrow> nat \<Rightarrow> js_number option \<Rightarrow> queue_state \<Rightarrow> queue_state" where
  "timer_fired now taskId progress st =
     (case find_run taskId st of
        None \<Rightarrow> st
      | Some r \<Rightarrow>
          (case (run_timer r, taskTimeoutMs (run_entry r)) of
             (Some due, Some t) \<Rightarrow>
               (case armTimeout t (run_startedAt r) now progress of
                  None \<Rightarrow>
                    finish_task now r (Failed (CommandLaneTaskTimeoutError (run_lane r) t)) st
                | Some due' \<Rightarrow>
                    st\<lparr>inflight := map (\<lambda>x. if run_taskId x = taskId then x\<lparr>run_timer := Some due'\<rparr>
                                            else x) (inflight st)\<rparr>)
           | _ \<Rightarrow> st))"

section \<open>Exported operations\<close>

definition markGatewayDraining :: "queue_state \<Rightarrow> queue_state" where
  "markGatewayDraining st = st\<lparr>gatewayDraining := True\<rparr>"

definition isGatewayDraining :: "queue_state \<Rightarrow> bool" where
  "isGatewayDraining st = gatewayDraining st"

definition is_probe_lane :: "string \<Rightarrow> bool" where
  "is_probe_lane l \<longleftrightarrow> starts_with l ''auth-probe:'' \<or> starts_with l ''session:probe-''"

definition setCommandLaneConcurrency :: "int \<Rightarrow> string \<Rightarrow> js_number \<Rightarrow> queue_state \<Rightarrow> queue_state" where
  "setCommandLaneConcurrency now l mx st =
     (let cleaned = normalizeLane l;
          (s, st1) = getLaneState cleaned st;
          minConcurrent = (if is_probe_lane cleaned then 1 else 0);
          m = js_max (Num minConcurrent) (js_floor mx);
          st2 = put_lane cleaned (s\<lparr>maxConcurrent := m\<rparr>) st1
      in if js_less (Num 0) m then drainLane now cleaned st2 else st2)"

definition make_entry :: "int \<Rightarrow> nat \<Rightarrow> nat \<Rightarrow> enqueue_opts \<Rightarrow> queue_entry" where
  "make_entry now taskRef seq opts =
     \<lparr>task = taskRef, enqueuedAt = now, sequence = seq,
      priority = resolveQueuePriority (opt_priority opts),
      warnAfterMs = or_default (opt_warnAfterMs opts) (Num 2000),
      queuedAheadAtEnqueue = 0, activeAheadAtEnqueue = 0,
      taskTimeoutMs = normalizeTaskTimeoutMs (opt_taskTimeoutMs opts), onWait = opt_onWait opts\<rparr>"

definition enqueueCommandInLane ::
  "int \<Rightarrow> string \<Rightarrow> nat \<Rightarrow> enqueue_opts \<Rightarrow> queue_state \<Rightarrow> (queue_error + nat) \<times> queue_state" where
  "enqueueCommandInLane now l taskRef opts st =
     (if gatewayDraining st then (Inl GatewayDrainingError, st)
      else
        (let cleaned = normalizeLane l;
             (s, st1) = getLaneState cleaned st;
             seq = nextQueueSequence st1;
             st2 = put_lane cleaned (enqueueLaneEntry s (make_entry now taskRef seq opts))
                     (st1\<lparr>nextQueueSequence := Suc seq\<rparr>)
         in (Inr seq, drainLane now cleaned st2)))"

definition enqueueCommand ::
  "int \<Rightarrow> nat \<Rightarrow> enqueue_opts \<Rightarrow> queue_state \<Rightarrow> (queue_error + nat) \<times> queue_state" where
  "enqueueCommand now taskRef opts st = enqueueCommandInLane now ''main'' taskRef opts st"

definition getQueueSize :: "string \<Rightarrow> queue_state \<Rightarrow> nat" where
  "getQueueSize l st =
     (case js_get (lanes st) (normalizeLane l) of None \<Rightarrow> 0 | Some s \<Rightarrow> getLaneDepth s)"

definition getCommandLaneSnapshot :: "string \<Rightarrow> queue_state \<Rightarrow> lane_snapshot" where
  "getCommandLaneSnapshot l st =
     (let resolved = normalizeLane l in
      case js_get (lanes st) resolved of
        None \<Rightarrow> \<lparr>snap_lane = resolved, snap_queuedCount = 0, snap_activeCount = 0,
                 snap_maxConcurrent = Num 1, snap_draining = False, snap_generation = 0\<rparr>
      | Some s \<Rightarrow> createCommandLaneSnapshot s)"

definition getCommandLaneActiveTaskIds :: "string \<Rightarrow> queue_state \<Rightarrow> nat list" where
  "getCommandLaneActiveTaskIds l st =
     (case js_get (lanes st) (normalizeLane l) of None \<Rightarrow> [] | Some s \<Rightarrow> activeTaskIds s)"

definition getTotalQueueSize :: "queue_state \<Rightarrow> nat" where
  "getTotalQueueSize st = sum_list (map getLaneDepth (js_values (lanes st)))"

definition getActiveTaskCount :: "queue_state \<Rightarrow> nat" where
  "getActiveTaskCount st = sum_list (map (\<lambda>s. length (activeTaskIds s)) (js_values (lanes st)))"

definition clearCommandLane :: "string \<Rightarrow> queue_state \<Rightarrow> nat \<times> queue_state" where
  "clearCommandLane l st =
     (let cleaned = normalizeLane l in
      case js_get (lanes st) cleaned of
        None \<Rightarrow> (0, st)
      | Some s \<Rightarrow>
          (length (queue s),
           emit (map (\<lambda>e. Settled (sequence e) (Failed (CommandLaneClearedError cleaned))) (queue s))
             (put_lane cleaned (s\<lparr>queue := []\<rparr>) st)))"

definition reset_lane :: "lane_state \<Rightarrow> lane_state" where
  "reset_lane s = s\<lparr>generation := Suc (generation s), activeTaskIds := [], draining := False\<rparr>"

definition resetCommandLane :: "int \<Rightarrow> string \<Rightarrow> queue_state \<Rightarrow> nat \<times> queue_state" where
  "resetCommandLane now l st =
     (let cleaned = normalizeLane l in
      case js_get (lanes st) cleaned of
        None \<Rightarrow> (0, st)
      | Some s \<Rightarrow>
          (let st1 = put_lane cleaned (reset_lane s) st;
               st2 = (if queue s \<noteq> [] then drainLane now cleaned st1 else st1)
           in (length (activeTaskIds s), notifyActiveTaskWaiters st2)))"

definition resetAllLanes :: "int \<Rightarrow> queue_state \<Rightarrow> queue_state" where
  "resetAllLanes now st =
     (let lanesToDrain = map lane (filter (\<lambda>s. queue s \<noteq> []) (js_values (lanes st)));
          st1 = st\<lparr>gatewayDraining := False,
                   lanes := map (\<lambda>(k, s). (k, reset_lane s)) (lanes st)\<rparr>
      in notifyActiveTaskWaiters (fold (drainLane now) lanesToDrain st1))"

definition waitForActiveTasks :: "js_number option \<Rightarrow> queue_state \<Rightarrow> nat \<times> queue_state" where
  "waitForActiveTasks timeoutMs st =
     (let w = nextWaiterId st;
          activeAtStart = fold js_set_add (all_active_ids st) [];
          st0 = st\<lparr>nextWaiterId := Suc w\<rparr>
      in if activeAtStart = [] then (w, emit [WaiterDone w True] st0)
         else if (case timeoutMs of None \<Rightarrow> False | Some t \<Rightarrow> js_le t (Num 0))
         then (w, emit [WaiterDone w False] st0)
         else (w, notifyActiveTaskWaiters
                    (st0\<lparr>activeTaskWaiters := activeTaskWaiters st0
                           @ [\<lparr>waiter_id = w, waiter_taskIds = activeAtStart\<rparr>]\<rparr>)))"

text \<open>The waiter's own timer.\<close>

definition waiter_timeout :: "nat \<Rightarrow> queue_state \<Rightarrow> queue_state" where
  "waiter_timeout w st = resolveActiveTaskWaiter w False st"

end
