(* ===== verification/CommandQueueInv.thy ===== *)
theory CommandQueueInv
  imports CommandQueue
begin

text \<open>
  The invariant of the command queue and its preservation by every operation: lanes are ordered
  and work conserving, ids are unique, every accepted command is queued, running or settled exactly
  once, and a registered waiter still waits for a running task.
\<close>

named_theorems lane_simps \<open>reading a lane after an update\<close>

section \<open>Reading and writing lanes\<close>

lemma get_put_lane [lane_simps]:
  "js_get (lanes (put_lane l s st)) l' = (if l' = l then Some s else js_get (lanes st) l')"
  by (simp add: put_lane_def)

lemma put_lane_frame [lane_simps]:
  "nextTaskId (put_lane l s st) = nextTaskId st"
  "inflight (put_lane l s st) = inflight st"
  "outputs (put_lane l s st) = outputs st"
  "nextQueueSequence (put_lane l s st) = nextQueueSequence st"
  "activeTaskWaiters (put_lane l s st) = activeTaskWaiters st"
  "nextWaiterId (put_lane l s st) = nextWaiterId st"
  "gatewayDraining (put_lane l s st) = gatewayDraining st"
  by (simp_all add: put_lane_def)

lemma emit_frame [lane_simps]:
  "lanes (emit os st) = lanes st"
  "nextTaskId (emit os st) = nextTaskId st"
  "inflight (emit os st) = inflight st"
  "outputs (emit os st) = outputs st @ os"
  "nextQueueSequence (emit os st) = nextQueueSequence st"
  "activeTaskWaiters (emit os st) = activeTaskWaiters st"
  "nextWaiterId (emit os st) = nextWaiterId st"
  "gatewayDraining (emit os st) = gatewayDraining st"
  by (simp_all add: emit_def)

lemma js_set_twice: "js_set k v (js_set k w m) = js_set k v m"
  by (induction m) auto

lemma put_lane_twice [simp]: "put_lane l s (put_lane l s' st) = put_lane l s st"
  by (simp add: put_lane_def js_set_twice)

lemma pump_draining_irrelevant:
  assumes "js_get (lanes st) l = Some s"
  shows "pump now l (put_lane l (s\<lparr>draining := b\<rparr>) st) = pump now l st"
proof -
  have "put_lane l x (put_lane l (s\<lparr>draining := b\<rparr>) st) = put_lane l x st" for x by simp
  with assms show ?thesis
    by (simp add: pump_def lane_simps split: prod.splits)
qed

lemma drain_is_pump:
  "js_get (lanes st) l = Some s \<Longrightarrow> \<not> draining s \<Longrightarrow> drainLane now l st = pump now l st"
  by (simp add: drainLane_def getLaneState_def pump_draining_irrelevant)

section \<open>The pump\<close>

definition started_runs :: "int \<Rightarrow> string \<Rightarrow> nat \<Rightarrow> nat \<Rightarrow> queue_entry list \<Rightarrow> task_run list" where
  "started_runs now l gen next es = map2 (start_run now l gen) es [next..<next + length es]"

lemma upt_shift: "[n..<n + Suc k] = n # [Suc n..<Suc n + k]"
  using upt_conv_Cons [of n "n + Suc k"] by (simp del: upt_Suc)

lemma started_runs_Cons:
  "started_runs now l gen next (e # es) = start_run now l gen e next # started_runs now l gen (Suc next) es"
proof -
  have "[next..<next + length (e # es)] = next # [Suc next..<Suc next + length es]"
    using upt_shift [of "next" "length es"] by simp
  then show ?thesis by (simp only: started_runs_def) simp
qed

lemma start_run_fields [simp]:
  "run_lane (start_run now l gen e i) = l" "run_entry (start_run now l gen e i) = e"
  "run_taskId (start_run now l gen e i) = i" "run_generation (start_run now l gen e i) = gen"
  by (simp_all add: start_run_def)

lemma map_started_runs [simp]:
  "map run_entry (started_runs now l gen next es) = es"
  "map run_taskId (started_runs now l gen next es) = [next..<next + length es]"
  by (simp_all add: started_runs_def split_def map_snd_zip_take map_fst_zip_take o_def)

lemma set_started_runs:
  "r \<in> set (started_runs now l gen next es) \<Longrightarrow>
     run_lane r = l \<and> run_generation r = gen \<and> next \<le> run_taskId r \<and> run_taskId r < next + length es"
  by (auto simp: started_runs_def set_zip)

text \<open>
  The pump starts a prefix of the queue: as many entries as fit, with fresh consecutive ids.
\<close>

lemma pump_entries_spec:
  assumes "\<forall>i \<in> set active. i < next"
  shows "\<exists>k \<le> length q.
     pump_entries now l mx gen q active next =
       (drop k q, active @ [next..<next + k], next + k, started_runs now l gen next (take k q),
        concat (map (wait_outputs now) (take k q)))
     \<and> (k < length q \<longrightarrow> \<not> below_max (active @ [next..<next + k]) mx)
     \<and> (\<forall>i < k. below_max (active @ [next..<next + i]) mx)"
  using assms
proof (induction q arbitrary: active "next")
  case Nil
  show ?case by (simp add: started_runs_def)
next
  case (Cons e q)
  show ?case
  proof (cases "below_max active mx")
    case False
    then show ?thesis by (intro exI [of _ 0]) (simp add: started_runs_def)
  next
    case True
    have add: "js_set_add next active = active @ [next]"
      using Cons.prems by (auto simp: js_set_add_def)
    have "\<forall>i \<in> set (active @ [next]). i < Suc next" using Cons.prems by auto
    from Cons.IH [OF this] obtain k where k: "k \<le> length q"
      "pump_entries now l mx gen q (active @ [next]) (Suc next) =
         (drop k q, (active @ [next]) @ [Suc next..<Suc next + k], Suc next + k,
          started_runs now l gen (Suc next) (take k q), concat (map (wait_outputs now) (take k q)))"
      "k < length q \<longrightarrow> \<not> below_max ((active @ [next]) @ [Suc next..<Suc next + k]) mx"
      "\<forall>i < k. below_max ((active @ [next]) @ [Suc next..<Suc next + i]) mx" by blast
    have shift: "(active @ [next]) @ [Suc next..<Suc next + i] = active @ [next..<next + Suc i]" for i
      using upt_shift [of "next" i] by simp
    have below: "below_max (active @ [next..<next + i]) mx" if "i < Suc k" for i
      using that True k(4) shift by (cases i) (auto simp del: upt_Suc append_assoc)
    have pumped: "pump_entries now l mx gen (e # q) active next =
       (drop (Suc k) (e # q), active @ [next..<next + Suc k], next + Suc k,
        started_runs now l gen next (take (Suc k) (e # q)),
        concat (map (wait_outputs now) (take (Suc k) (e # q))))"
      using True k(2) shift [of k] by (simp add: add started_runs_Cons del: upt_Suc append_assoc)
    show ?thesis
      by (rule exI [of _ "Suc k"])
         (use k(1,3) shift [of k] below pumped in \<open>simp del: upt_Suc append_assoc pump_entries.simps\<close>)
  qed
qed

definition pumped_lane :: "lane_state \<Rightarrow> nat \<Rightarrow> nat \<Rightarrow> lane_state" where
  "pumped_lane s k next =
     s\<lparr>queue := drop k (queue s), activeTaskIds := activeTaskIds s @ [next..<next + k],
       draining := False\<rparr>"

definition pumped :: "int \<Rightarrow> string \<Rightarrow> lane_state \<Rightarrow> nat \<Rightarrow> queue_state \<Rightarrow> queue_state" where
  "pumped now l s k st =
     emit (concat (map (wait_outputs now) (take k (queue s))))
       ((put_lane l (pumped_lane s k (nextTaskId st)) st)
          \<lparr>nextTaskId := nextTaskId st + k,
           inflight := inflight st
             @ started_runs now l (generation s) (nextTaskId st) (take k (queue s))\<rparr>)"

lemma pumped_lane_fields [simp]:
  "queue (pumped_lane s k n) = drop k (queue s)"
  "activeTaskIds (pumped_lane s k n) = activeTaskIds s @ [n..<n + k]"
  "generation (pumped_lane s k n) = generation s" "maxConcurrent (pumped_lane s k n) = maxConcurrent s"
  "lane (pumped_lane s k n) = lane s" "draining (pumped_lane s k n) = False"
  by (simp_all add: pumped_lane_def)

lemma pumped_fields [lane_simps]:
  "lanes (pumped now l s k st) = js_set l (pumped_lane s k (nextTaskId st)) (lanes st)"
  "nextTaskId (pumped now l s k st) = nextTaskId st + k"
  "inflight (pumped now l s k st) =
     inflight st @ started_runs now l (generation s) (nextTaskId st) (take k (queue s))"
  "outputs (pumped now l s k st) =
     outputs st @ concat (map (wait_outputs now) (take k (queue s)))"
  "nextQueueSequence (pumped now l s k st) = nextQueueSequence st"
  "activeTaskWaiters (pumped now l s k st) = activeTaskWaiters st"
  "nextWaiterId (pumped now l s k st) = nextWaiterId st"
  "gatewayDraining (pumped now l s k st) = gatewayDraining st"
  by (simp_all add: pumped_def emit_def put_lane_def)

lemma pump_spec:
  assumes "js_get (lanes st) l = Some s" and "\<forall>i \<in> set (activeTaskIds s). i < nextTaskId st"
  shows "\<exists>k \<le> length (queue s). pump now l st = pumped now l s k st
     \<and> (k < length (queue s) \<longrightarrow>
          \<not> below_max (activeTaskIds s @ [nextTaskId st..<nextTaskId st + k]) (maxConcurrent s))
     \<and> (\<forall>i < k. below_max (activeTaskIds s @ [nextTaskId st..<nextTaskId st + i]) (maxConcurrent s))"
proof -
  from pump_entries_spec [OF assms(2), of "queue s" now l "maxConcurrent s" "generation s"]
  obtain k where k: "k \<le> length (queue s)"
    "pump_entries now l (maxConcurrent s) (generation s) (queue s) (activeTaskIds s) (nextTaskId st) =
       (drop k (queue s), activeTaskIds s @ [nextTaskId st..<nextTaskId st + k], nextTaskId st + k,
        started_runs now l (generation s) (nextTaskId st) (take k (queue s)),
        concat (map (wait_outputs now) (take k (queue s))))"
    "k < length (queue s) \<longrightarrow>
       \<not> below_max (activeTaskIds s @ [nextTaskId st..<nextTaskId st + k]) (maxConcurrent s)"
    "\<forall>i < k. below_max (activeTaskIds s @ [nextTaskId st..<nextTaskId st + i]) (maxConcurrent s)"
    by blast
  from assms(1) k(2) have "pump now l st = pumped now l s k st"
    by (simp add: pump_def pumped_def pumped_lane_def)
  with k(1,3,4) show ?thesis by blast
qed

section \<open>The invariant\<close>

definition lane_base :: "string \<Rightarrow> lane_state \<Rightarrow> bool" where
  "lane_base l s \<longleftrightarrow>
     lane s = l \<and> \<not> draining s \<and> sorted_wrt comes_after (queue s) \<and> distinct (activeTaskIds s) \<and>
     js_floor (maxConcurrent s) = maxConcurrent s"

text \<open>No capacity is idle while work waits.\<close>

definition conserving :: "lane_state \<Rightarrow> bool" where
  "conserving s \<longleftrightarrow> queue s = [] \<or> \<not> below_max (activeTaskIds s) (maxConcurrent s)"

text \<open>\<^term>\<open>X\<close> are the lanes an operation has touched and not pumped yet.\<close>

definition inv_lanes :: "string set \<Rightarrow> queue_state \<Rightarrow> bool" where
  "inv_lanes X st \<longleftrightarrow> distinct (js_keys (lanes st)) \<and>
     (\<forall>l s. js_get (lanes st) l = Some s \<longrightarrow> lane_base l s \<and> (l \<notin> X \<longrightarrow> conserving s))"

definition inv_ids :: "queue_state \<Rightarrow> bool" where
  "inv_ids st \<longleftrightarrow>
     (\<forall>l s. js_get (lanes st) l = Some s \<longrightarrow>
        (\<forall>i \<in> set (activeTaskIds s). \<exists>r \<in> set (inflight st).
           run_taskId r = i \<and> run_lane r = l \<and> run_generation r = generation s)) \<and>
     (\<forall>r \<in> set (inflight st). run_taskId r < nextTaskId st \<and>
        (\<exists>s. js_get (lanes st) (run_lane r) = Some s \<and> run_generation r \<le> generation s \<and>
             (run_generation r = generation s \<longrightarrow> run_taskId r \<in> set (activeTaskIds s)))) \<and>
     distinct (map run_taskId (inflight st))"

definition lane_seqs :: "lane_state \<Rightarrow> nat multiset" where
  "lane_seqs s = mset (map sequence (queue s))"

definition queued_seqs :: "queue_state \<Rightarrow> nat multiset" where
  "queued_seqs st = sum_list (map lane_seqs (js_values (lanes st)))"

definition running_seqs :: "queue_state \<Rightarrow> nat multiset" where
  "running_seqs st = mset (map (\<lambda>r. sequence (run_entry r)) (inflight st))"

fun settled_seq :: "queue_output \<Rightarrow> nat list" where
  "settled_seq (Settled i out) = [i]"
| "settled_seq _ = []"

definition settled_seqs :: "queue_state \<Rightarrow> nat multiset" where
  "settled_seqs st = mset (concat (map settled_seq (outputs st)))"

definition all_seqs :: "queue_state \<Rightarrow> nat multiset" where
  "all_seqs st = queued_seqs st + running_seqs st + settled_seqs st"

definition inv_seqs :: "queue_state \<Rightarrow> bool" where
  "inv_seqs st \<longleftrightarrow> 1 \<le> nextQueueSequence st \<and> all_seqs st = mset [1..<nextQueueSequence st]"

definition inv_waiters :: "queue_state \<Rightarrow> bool" where
  "inv_waiters st \<longleftrightarrow>
     (\<forall>w \<in> set (activeTaskWaiters st).
        hasPendingActiveTasks (waiter_taskIds w) st \<and> waiter_id w < nextWaiterId st) \<and>
     distinct (map waiter_id (activeTaskWaiters st))"

definition waiter_ids_ok :: "queue_state \<Rightarrow> bool" where
  "waiter_ids_ok st \<longleftrightarrow> (\<forall>w \<in> set (activeTaskWaiters st). waiter_id w < nextWaiterId st) \<and>
     distinct (map waiter_id (activeTaskWaiters st))"

definition queue_inv :: "queue_state \<Rightarrow> bool" where
  "queue_inv st \<longleftrightarrow> inv_lanes {} st \<and> inv_ids st \<and> inv_seqs st \<and> inv_waiters st"

lemma queue_inv_initial: "queue_inv initial_queue_state"
  by (simp add: queue_inv_def inv_lanes_def inv_ids_def inv_seqs_def inv_waiters_def
      initial_queue_state_def all_seqs_def queued_seqs_def running_seqs_def settled_seqs_def)

lemma active_lt:
  "inv_ids st \<Longrightarrow> js_get (lanes st) l = Some s \<Longrightarrow> \<forall>i \<in> set (activeTaskIds s). i < nextTaskId st"
  unfolding inv_ids_def by (metis (no_types, lifting))

section \<open>Pumping a lane\<close>

lemma inv_lanesD:
  "inv_lanes X st \<Longrightarrow> js_get (lanes st) l = Some s \<Longrightarrow> lane_base l s"
  "inv_lanes X st \<Longrightarrow> js_get (lanes st) l = Some s \<Longrightarrow> l \<notin> X \<Longrightarrow> conserving s"
  "inv_lanes X st \<Longrightarrow> distinct (js_keys (lanes st))"
  by (auto simp: inv_lanes_def)

lemma inv_lanes_cong: "lanes st' = lanes st \<Longrightarrow> inv_lanes X st' = inv_lanes X st"
  by (simp add: inv_lanes_def)

lemma inv_lanes_set:
  "inv_lanes X st \<Longrightarrow> lanes st' = js_set l s (lanes st) \<Longrightarrow> lane_base l s \<Longrightarrow>
     (l \<notin> Y \<Longrightarrow> conserving s) \<Longrightarrow> X \<subseteq> insert l Y \<Longrightarrow> inv_lanes Y st'"
  by (auto simp: inv_lanes_def)

lemma inv_lanes_mono: "inv_lanes X st \<Longrightarrow> X \<subseteq> Y \<Longrightarrow> inv_lanes Y st"
  by (auto simp: inv_lanes_def)

lemma queued_seqs_set:
  "distinct (js_keys (lanes st)) \<Longrightarrow> js_get (lanes st) l = Some s \<Longrightarrow> lanes st' = js_set l s' (lanes st) \<Longrightarrow>
     queued_seqs st' + lane_seqs s = queued_seqs st + lane_seqs s'"
  using sum_list_js_set [of "lanes st" l s lane_seqs s'] by (simp add: queued_seqs_def)

lemma queued_seqs_set_new:
  "js_get (lanes st) l = None \<Longrightarrow> lanes st' = js_set l s' (lanes st) \<Longrightarrow>
     queued_seqs st' = queued_seqs st + lane_seqs s'"
  using sum_list_js_set_new [of "lanes st" l lane_seqs s'] by (simp add: queued_seqs_def)

lemma settled_emit: "settled_seqs (emit os st) = settled_seqs st + mset (concat (map settled_seq os))"
  by (simp add: settled_seqs_def emit_def)

lemma wait_outputs_unsettled [simp]:
  "concat (map settled_seq (concat (map (wait_outputs now) es))) = []"
  by (induction es) (auto simp: wait_outputs_def Let_def)

lemma value_iff_get:
  "distinct (js_keys m) \<Longrightarrow> v \<in> set (js_values m) \<longleftrightarrow> (\<exists>k. js_get m k = Some v)"
  by (force simp: map_of_eq_Some_iff)

lemma pending_values:
  "hasPendingActiveTasks ids st \<longleftrightarrow>
     (\<exists>s \<in> set (js_values (lanes st)). \<exists>i. i \<in> set (activeTaskIds s) \<and> i \<in> set ids)"
  by (auto simp: hasPendingActiveTasks_def list_ex_iff all_active_ids_def)

lemma pending_iff:
  "distinct (js_keys (lanes st)) \<Longrightarrow>
     hasPendingActiveTasks ids st \<longleftrightarrow>
       (\<exists>l s i. js_get (lanes st) l = Some s \<and> i \<in> set (activeTaskIds s) \<and> i \<in> set ids)"
  by (simp only: pending_values Bex_def value_iff_get) blast

lemma pump_lanes:
  assumes "inv_lanes (insert l X) st" and "inv_ids st" and "js_get (lanes st) l = Some s"
  shows "inv_lanes X (pump now l st)"
proof -
  have base: "lane_base l s" using assms(1,3) by (rule inv_lanesD)
  have lt: "\<forall>i \<in> set (activeTaskIds s). i < nextTaskId st" by (rule active_lt [OF assms(2,3)])
  from pump_spec [OF assms(3) lt, of now] obtain k where k: "k \<le> length (queue s)"
    and p: "pump now l st = pumped now l s k st"
    and full: "k < length (queue s) \<longrightarrow>
       \<not> below_max (activeTaskIds s @ [nextTaskId st..<nextTaskId st + k]) (maxConcurrent s)" by blast
  have "lane_base l (pumped_lane s k (nextTaskId st))"
    using base lt by (auto simp: lane_base_def sorted_wrt_drop)
  moreover have "conserving (pumped_lane s k (nextTaskId st))"
    using full k by (auto simp: conserving_def)
  ultimately show ?thesis
    using assms(1) unfolding p by (intro inv_lanes_set [OF assms(1)]) (auto simp: lane_simps)
qed

lemma inv_ids_active:
  "inv_ids st \<Longrightarrow> js_get (lanes st) l = Some s \<Longrightarrow> i \<in> set (activeTaskIds s) \<Longrightarrow>
     \<exists>r \<in> set (inflight st). run_taskId r = i \<and> run_lane r = l \<and> run_generation r = generation s"
  unfolding inv_ids_def by blast

lemma inv_ids_run:
  "inv_ids st \<Longrightarrow> r \<in> set (inflight st) \<Longrightarrow> run_taskId r < nextTaskId st"
  "inv_ids st \<Longrightarrow> r \<in> set (inflight st) \<Longrightarrow>
     \<exists>s. js_get (lanes st) (run_lane r) = Some s \<and> run_generation r \<le> generation s \<and>
         (run_generation r = generation s \<longrightarrow> run_taskId r \<in> set (activeTaskIds s))"
  "inv_ids st \<Longrightarrow> distinct (map run_taskId (inflight st))"
  unfolding inv_ids_def by blast+

lemma inv_idsI:
  assumes "\<And>l s i. js_get (lanes st) l = Some s \<Longrightarrow> i \<in> set (activeTaskIds s) \<Longrightarrow>
      \<exists>r \<in> set (inflight st). run_taskId r = i \<and> run_lane r = l \<and> run_generation r = generation s"
    and "\<And>r. r \<in> set (inflight st) \<Longrightarrow> run_taskId r < nextTaskId st"
    and "\<And>r. r \<in> set (inflight st) \<Longrightarrow>
      \<exists>s. js_get (lanes st) (run_lane r) = Some s \<and> run_generation r \<le> generation s \<and>
         (run_generation r = generation s \<longrightarrow> run_taskId r \<in> set (activeTaskIds s))"
    and "distinct (map run_taskId (inflight st))"
  shows "inv_ids st"
  using assms unfolding inv_ids_def by blast

lemma pump_ids:
  assumes "inv_ids st" and "js_get (lanes st) l = Some s"
  shows "inv_ids (pump now l st)"
proof -
  have lt: "\<forall>i \<in> set (activeTaskIds s). i < nextTaskId st" by (rule active_lt [OF assms])
  from pump_spec [OF assms(2) lt, of now] obtain k where k: "k \<le> length (queue s)"
    and p: "pump now l st = pumped now l s k st" by blast
  let ?n = "nextTaskId st"
  let ?runs = "started_runs now l (generation s) ?n (take k (queue s))"
  have ids: "map run_taskId ?runs = [?n..<?n + k]" using k by simp
  have started: "\<exists>r \<in> set ?runs. run_taskId r = i \<and> run_lane r = l \<and> run_generation r = generation s"
    if "i \<in> set [?n..<?n + k]" for i
  proof -
    from that ids obtain r where "r \<in> set ?runs" "run_taskId r = i"
      by (metis (no_types, lifting) imageE image_set)
    then show ?thesis using set_started_runs by blast
  qed
  have new: "run_lane r = l \<and> run_generation r = generation s \<and> run_taskId r \<in> set [?n..<?n + k]"
    if "r \<in> set ?runs" for r
    using set_started_runs [OF that] k by simp
  have lt': "run_taskId r < ?n" if "r \<in> set (inflight st)" for r
    using assms(1) that unfolding inv_ids_def by blast
  have dist: "distinct (map run_taskId (inflight st @ ?runs))"
    using assms(1) lt' unfolding map_append ids by (auto simp: inv_ids_def dest: lt')
  have active: "\<exists>r \<in> set (inflight st). run_taskId r = i \<and> run_lane r = l' \<and> run_generation r = generation s'"
    if "js_get (lanes st) l' = Some s'" "i \<in> set (activeTaskIds s')" for l' s' i
    using assms(1) that unfolding inv_ids_def by blast
  have run: "\<exists>s'. js_get (lanes st) (run_lane r) = Some s' \<and> run_generation r \<le> generation s' \<and>
      (run_generation r = generation s' \<longrightarrow> run_taskId r \<in> set (activeTaskIds s'))"
    if "r \<in> set (inflight st)" for r
    using assms(1) that unfolding inv_ids_def by blast
  show ?thesis
    unfolding inv_ids_def p
  proof (intro conjI allI impI ballI)
    fix l' s' i
    assume "js_get (lanes (pumped now l s k st)) l' = Some s'" and "i \<in> set (activeTaskIds s')"
    then show "\<exists>r \<in> set (inflight (pumped now l s k st)).
        run_taskId r = i \<and> run_lane r = l' \<and> run_generation r = generation s'"
      using assms(2) active started by (fastforce simp: lane_simps split: if_splits)
  next
    fix r
    assume "r \<in> set (inflight (pumped now l s k st))"
    then consider "r \<in> set (inflight st)" | "r \<in> set ?runs" by (auto simp: lane_simps)
    note r = this
    from r show "run_taskId r < nextTaskId (pumped now l s k st)"
    proof cases
      case 1
      then show ?thesis using lt' [OF 1] by (simp add: lane_simps)
    next
      case 2
      then show ?thesis using new [OF 2] by (simp add: lane_simps)
    qed
    from r show "\<exists>s'. js_get (lanes (pumped now l s k st)) (run_lane r) = Some s' \<and>
        run_generation r \<le> generation s' \<and>
        (run_generation r = generation s' \<longrightarrow> run_taskId r \<in> set (activeTaskIds s'))"
    proof cases
      case 1
      then obtain s' where s': "js_get (lanes st) (run_lane r) = Some s'"
        "run_generation r \<le> generation s'"
        "run_generation r = generation s' \<longrightarrow> run_taskId r \<in> set (activeTaskIds s')"
        using run by blast
      with assms(2) show ?thesis by (cases "run_lane r = l") (auto simp: lane_simps)
    next
      case 2
      then show ?thesis using new [OF 2] by (simp add: lane_simps)
    qed
  next
    show "distinct (map run_taskId (inflight (pumped now l s k st)))"
      using dist by (simp add: lane_simps)
  qed
qed

lemma pump_seqs:
  assumes "inv_lanes X st" and "inv_ids st" and "js_get (lanes st) l = Some s"
  shows "all_seqs (pump now l st) = all_seqs st"
proof -
  have lt: "\<forall>i \<in> set (activeTaskIds s). i < nextTaskId st" by (rule active_lt [OF assms(2,3)])
  from pump_spec [OF assms(3) lt, of now] obtain k where
    p: "pump now l st = pumped now l s k st" by blast
  let ?s = "pumped_lane s k (nextTaskId st)"
  let ?runs = "started_runs now l (generation s) (nextTaskId st) (take k (queue s))"
  have "map (\<lambda>r. sequence (run_entry r)) ?runs = map sequence (map run_entry ?runs)"
    by (simp only: map_map o_def)
  then have runs: "map (\<lambda>r. sequence (run_entry r)) ?runs = map sequence (take k (queue s))"
    by (simp only: map_started_runs)
  have "queued_seqs (pump now l st) + lane_seqs s = queued_seqs st + lane_seqs ?s"
    using assms(1,3) unfolding p by (intro queued_seqs_set) (auto dest: inv_lanesD simp: lane_simps)
  moreover have "lane_seqs s = mset (map sequence (take k (queue s))) + lane_seqs ?s"
    by (simp only: lane_seqs_def pumped_lane_fields mset_append [symmetric] map_append [symmetric]
        append_take_drop_id)
  ultimately have "queued_seqs (pump now l st) + mset (map sequence (take k (queue s)))
      = queued_seqs st" by simp
  moreover have "running_seqs (pump now l st) = running_seqs st + mset (map sequence (take k (queue s)))"
    unfolding p running_seqs_def by (simp add: lane_simps runs)
  moreover have "settled_seqs (pump now l st) = settled_seqs st"
    unfolding p settled_seqs_def by (simp add: lane_simps)
  ultimately show ?thesis by (simp add: all_seqs_def ac_simps)
qed

lemma pump_waiters:
  assumes "inv_lanes X st" and "inv_ids st" and "js_get (lanes st) l = Some s"
  shows "hasPendingActiveTasks ids st \<Longrightarrow> hasPendingActiveTasks ids (pump now l st)"
proof -
  have lt: "\<forall>i \<in> set (activeTaskIds s). i < nextTaskId st" by (rule active_lt [OF assms(2,3)])
  from pump_spec [OF assms(3) lt, of now] obtain k where
    p: "pump now l st = pumped now l s k st" by blast
  have d: "distinct (js_keys (lanes st))" using assms(1) by (rule inv_lanesD)
  assume "hasPendingActiveTasks ids st"
  with d obtain l' s' i where "js_get (lanes st) l' = Some s'"
    "i \<in> set (activeTaskIds s')" "i \<in> set ids" by (auto simp: pending_iff)
  with assms(3) have "\<exists>s''. js_get (lanes (pumped now l s k st)) l' = Some s'' \<and>
      i \<in> set (activeTaskIds s'')" by (cases "l' = l") (auto simp: lane_simps)
  moreover have "distinct (js_keys (lanes (pumped now l s k st)))" using d by (simp add: lane_simps)
  ultimately show "hasPendingActiveTasks ids (pump now l st)"
    using \<open>i \<in> set ids\<close> unfolding p by (auto simp: pending_iff)
qed

lemma pump_frame:
  assumes "inv_ids st" and "js_get (lanes st) l = Some s"
  shows "nextQueueSequence (pump now l st) = nextQueueSequence st"
    "activeTaskWaiters (pump now l st) = activeTaskWaiters st"
    "nextWaiterId (pump now l st) = nextWaiterId st"
    "gatewayDraining (pump now l st) = gatewayDraining st"
proof -
  have lt: "\<forall>i \<in> set (activeTaskIds s). i < nextTaskId st" by (rule active_lt [OF assms])
  from pump_spec [OF assms(2) lt, of now] obtain k where
    p: "pump now l st = pumped now l s k st" by blast
  show "nextQueueSequence (pump now l st) = nextQueueSequence st"
    "activeTaskWaiters (pump now l st) = activeTaskWaiters st"
    "nextWaiterId (pump now l st) = nextWaiterId st"
    "gatewayDraining (pump now l st) = gatewayDraining st"
    unfolding p by (simp_all add: lane_simps)
qed

text \<open>The parts of the invariant an operation keeps while it still has lanes to pump.\<close>

definition core_inv :: "string set \<Rightarrow> queue_state \<Rightarrow> bool" where
  "core_inv X st \<longleftrightarrow> inv_lanes X st \<and> inv_ids st \<and> inv_seqs st \<and> waiter_ids_ok st"

lemma inv_waiters_iff:
  "inv_waiters st \<longleftrightarrow> waiter_ids_ok st \<and>
     (\<forall>w \<in> set (activeTaskWaiters st). hasPendingActiveTasks (waiter_taskIds w) st)"
  by (auto simp: inv_waiters_def waiter_ids_ok_def)

lemma queue_inv_core: "queue_inv st \<longleftrightarrow> core_inv {} st \<and> inv_waiters st"
  by (auto simp: queue_inv_def core_inv_def inv_waiters_iff)

lemma pump_core:
  assumes "core_inv (insert l X) st" and "js_get (lanes st) l = Some s"
  shows "core_inv X (pump now l st)"
  using assms pump_lanes [of l X st s now] pump_ids [of st l s now]
    pump_seqs [of "insert l X" st l s now] pump_frame [of st l s now]
  by (auto simp: core_inv_def waiter_ids_ok_def inv_seqs_def)

lemma pump_inv:
  assumes "core_inv {l} st" and "inv_waiters st" and "js_get (lanes st) l = Some s"
  shows "queue_inv (pump now l st)"
  using assms pump_core [of l "{}" st s now] pump_waiters [of "{l}" st l s _ now]
    pump_frame [of st l s now]
  by (auto simp: queue_inv_core core_inv_def inv_waiters_iff)

end
