(* ===== verification/CommandQueueSteps.thy ===== *)
theory CommandQueueSteps
  imports CommandQueueInv
begin

text \<open>
  The events of the command queue, the step function over them, and the preservation of the
  invariant of \<^verbatim>\<open>CommandQueueInv\<close> by every event.
\<close>

section \<open>Notifying waiters\<close>

lemma fold_notify:
  assumes "activeTaskWaiters st = us @ vs" and "distinct (map waiter_id (us @ vs))"
  shows "fold notify_one vs st =
     emit (map (\<lambda>w. WaiterDone (waiter_id w) True)
             (filter (\<lambda>w. \<not> hasPendingActiveTasks (waiter_taskIds w) st) vs))
       (st\<lparr>activeTaskWaiters :=
             us @ filter (\<lambda>w. hasPendingActiveTasks (waiter_taskIds w) st) vs\<rparr>)"
  using assms
proof (induction vs arbitrary: us st)
  case Nil
  then show ?case by (simp add: emit_def)
next
  case (Cons w vs)
  have none: "waiter_taskIds w = [] \<Longrightarrow> \<not> hasPendingActiveTasks (waiter_taskIds w) st"
    by (simp add: hasPendingActiveTasks_def list_ex_iff)
  show ?case
  proof (cases "hasPendingActiveTasks (waiter_taskIds w) st")
    case True
    with none have "notify_one w st = st" by (auto simp: notify_one_def)
    with Cons.IH [of st "us @ [w]"] Cons.prems True show ?thesis by simp
  next
    case False
    let ?st = "emit [WaiterDone (waiter_id w) True] (st\<lparr>activeTaskWaiters := us @ vs\<rparr>)"
    have "filter (\<lambda>x. waiter_id x \<noteq> waiter_id w) (us @ w # vs) = us @ vs"
    proof -
      have "waiter_id w \<notin> waiter_id ` set us" "waiter_id w \<notin> waiter_id ` set vs"
        using Cons.prems(2) by auto
      then have "\<forall>x \<in> set us. waiter_id x \<noteq> waiter_id w" "\<forall>x \<in> set vs. waiter_id x \<noteq> waiter_id w"
        by (metis image_eqI)+
      then show ?thesis by simp
    qed
    with False Cons.prems have step: "notify_one w st = ?st"
      by (simp add: notify_one_def resolveActiveTaskWaiter_def)
    have pend: "hasPendingActiveTasks ids ?st = hasPendingActiveTasks ids st" for ids
      by (simp add: hasPendingActiveTasks_def all_active_ids_def emit_def)
    have "activeTaskWaiters ?st = us @ vs" by (simp add: emit_def)
    with Cons.IH [of ?st us] Cons.prems have "fold notify_one vs ?st =
       emit (map (\<lambda>w. WaiterDone (waiter_id w) True)
             (filter (\<lambda>w. \<not> hasPendingActiveTasks (waiter_taskIds w) ?st) vs))
       (?st\<lparr>activeTaskWaiters :=
             us @ filter (\<lambda>w. hasPendingActiveTasks (waiter_taskIds w) ?st) vs\<rparr>)" by auto
    with step False show ?thesis unfolding pend by (simp add: emit_def)
  qed
qed

lemma notify_spec:
  assumes "waiter_ids_ok st"
  shows "notifyActiveTaskWaiters st =
     emit (map (\<lambda>w. WaiterDone (waiter_id w) True)
             (filter (\<lambda>w. \<not> hasPendingActiveTasks (waiter_taskIds w) st) (activeTaskWaiters st)))
       (st\<lparr>activeTaskWaiters :=
             filter (\<lambda>w. hasPendingActiveTasks (waiter_taskIds w) st) (activeTaskWaiters st)\<rparr>)"
  unfolding notifyActiveTaskWaiters_def
  using fold_notify [of st "[]"] assms by (simp add: waiter_ids_ok_def)

lemma pending_cong: "lanes st' = lanes st \<Longrightarrow> hasPendingActiveTasks ids st' = hasPendingActiveTasks ids st"
  by (simp add: hasPendingActiveTasks_def all_active_ids_def)

lemma unsettled_waiters [simp]:
  "concat (map settled_seq (map (\<lambda>w. WaiterDone (f w) b) ws)) = []"
  by (induction ws) auto

lemma all_seqs_cong:
  "lanes st' = lanes st \<Longrightarrow> inflight st' = inflight st \<Longrightarrow> outputs st' = outputs st @ os \<Longrightarrow>
     concat (map settled_seq os) = [] \<Longrightarrow> all_seqs st' = all_seqs st"
  by (simp add: all_seqs_def queued_seqs_def running_seqs_def settled_seqs_def)

lemma inv_ids_cong:
  "lanes st' = lanes st \<Longrightarrow> inflight st' = inflight st \<Longrightarrow> nextTaskId st' = nextTaskId st \<Longrightarrow>
     inv_ids st' = inv_ids st"
  by (simp add: inv_ids_def)

lemma notify_frame [lane_simps]:
  assumes "waiter_ids_ok st"
  shows "lanes (notifyActiveTaskWaiters st) = lanes st"
    "inflight (notifyActiveTaskWaiters st) = inflight st"
    "nextTaskId (notifyActiveTaskWaiters st) = nextTaskId st"
    "nextQueueSequence (notifyActiveTaskWaiters st) = nextQueueSequence st"
    "nextWaiterId (notifyActiveTaskWaiters st) = nextWaiterId st"
    "gatewayDraining (notifyActiveTaskWaiters st) = gatewayDraining st"
    "activeTaskWaiters (notifyActiveTaskWaiters st) =
       filter (\<lambda>w. hasPendingActiveTasks (waiter_taskIds w) st) (activeTaskWaiters st)"
  by (simp_all add: notify_spec [OF assms] emit_def)

text \<open>Everything but the exact account of sequence numbers, for the states inside an operation.\<close>

definition pre_inv :: "string set \<Rightarrow> queue_state \<Rightarrow> bool" where
  "pre_inv X st \<longleftrightarrow> inv_lanes X st \<and> inv_ids st \<and> waiter_ids_ok st"

lemma core_inv_pre: "core_inv X st \<longleftrightarrow> pre_inv X st \<and> inv_seqs st"
  by (auto simp: core_inv_def pre_inv_def)

lemma notify_pre:
  assumes "pre_inv X st"
  shows "pre_inv X (notifyActiveTaskWaiters st)" and "inv_waiters (notifyActiveTaskWaiters st)"
    and "all_seqs (notifyActiveTaskWaiters st) = all_seqs st"
proof -
  have w: "waiter_ids_ok st" using assms by (simp add: pre_inv_def)
  show "all_seqs (notifyActiveTaskWaiters st) = all_seqs st"
    by (rule all_seqs_cong [where os = "map (\<lambda>w. WaiterDone (waiter_id w) True)
         (filter (\<lambda>w. \<not> hasPendingActiveTasks (waiter_taskIds w) st) (activeTaskWaiters st))"])
       (simp_all add: notify_spec [OF w] emit_def o_def)
  have ids: "waiter_ids_ok (notifyActiveTaskWaiters st)"
    using w by (simp add: waiter_ids_ok_def notify_frame [OF w] distinct_map_filter)
  then show "pre_inv X (notifyActiveTaskWaiters st)"
    using assms inv_lanes_cong [of "notifyActiveTaskWaiters st" st X]
      inv_ids_cong [of "notifyActiveTaskWaiters st" st]
    by (simp add: pre_inv_def notify_frame [OF w])
  show "inv_waiters (notifyActiveTaskWaiters st)"
    using ids pending_cong [of "notifyActiveTaskWaiters st" st]
    by (simp add: inv_waiters_iff notify_frame [OF w])
qed

lemma notify_core:
  assumes "core_inv X st"
  shows "core_inv X (notifyActiveTaskWaiters st)" and "inv_waiters (notifyActiveTaskWaiters st)"
proof -
  have pre: "pre_inv X st" and "inv_seqs st" using assms by (auto simp: core_inv_pre)
  moreover from pre have "waiter_ids_ok st" by (simp add: pre_inv_def)
  ultimately show "core_inv X (notifyActiveTaskWaiters st)"
    using notify_pre(1,3) [OF pre] by (simp add: core_inv_pre inv_seqs_def notify_frame)
  show "inv_waiters (notifyActiveTaskWaiters st)" by (rule notify_pre(2) [OF pre])
qed

lemma notify_inv: "core_inv {} st \<Longrightarrow> queue_inv (notifyActiveTaskWaiters st)"
  unfolding queue_inv_core using notify_core by blast

section \<open>Opening a lane\<close>

lemma fresh_lane_base: "lane_base l (fresh_lane l)" "conserving (fresh_lane l)"
  by (simp_all add: lane_base_def fresh_lane_def conserving_def)

lemma open_ids:
  assumes i: "inv_ids st" and None: "js_get (lanes st) l = None"
  shows "inv_ids (put_lane l (fresh_lane l) st)" (is "inv_ids ?st")
proof (rule inv_idsI)
  fix k s j assume "js_get (lanes ?st) k = Some s" "j \<in> set (activeTaskIds s)"
  then have "js_get (lanes st) k = Some s" "j \<in> set (activeTaskIds s)"
    by (auto simp: lane_simps fresh_lane_def split: if_splits)
  from inv_ids_active [OF i this] show "\<exists>r \<in> set (inflight ?st). run_taskId r = j \<and>
    run_lane r = k \<and> run_generation r = generation s" by (simp add: lane_simps)
next
  fix r assume "r \<in> set (inflight ?st)"
  then have r: "r \<in> set (inflight st)" by (simp add: lane_simps)
  from inv_ids_run(1) [OF i r] show "run_taskId r < nextTaskId ?st" by (simp add: lane_simps)
  from inv_ids_run(2) [OF i r] None show "\<exists>s. js_get (lanes ?st) (run_lane r) = Some s \<and>
    run_generation r \<le> generation s \<and>
    (run_generation r = generation s \<longrightarrow> run_taskId r \<in> set (activeTaskIds s))"
    by (cases "run_lane r = l") (auto simp: lane_simps)
next
  show "distinct (map run_taskId (inflight ?st))"
    using inv_ids_run(3) [OF i] by (simp add: lane_simps)
qed

lemma open_lane:
  assumes "queue_inv st" and "getLaneState l st = (s, st')"
  shows "queue_inv st'" and "js_get (lanes st') l = Some s"
    and "nextQueueSequence st' = nextQueueSequence st" and "inflight st' = inflight st"
    and "outputs st' = outputs st" and "gatewayDraining st' = gatewayDraining st"
proof -
  have "queue_inv st' \<and> js_get (lanes st') l = Some s \<and> nextQueueSequence st' = nextQueueSequence st
    \<and> inflight st' = inflight st \<and> outputs st' = outputs st \<and> gatewayDraining st' = gatewayDraining st"
  proof (cases "js_get (lanes st) l")
    case (Some x)
    with assms show ?thesis by (simp add: getLaneState_def)
  next
    case None
    with assms(2) have st': "s = fresh_lane l" "st' = put_lane l (fresh_lane l) st"
      by (auto simp: getLaneState_def)
    have d: "distinct (js_keys (lanes st))" using assms(1) by (simp add: queue_inv_def inv_lanes_def)
    have "inv_lanes {} st" using assms(1) by (simp add: queue_inv_def)
    then have "inv_lanes {} st'"
      by (rule inv_lanes_set [where l = l and s = "fresh_lane l"])
         (simp_all add: st' put_lane_def fresh_lane_base)
    moreover have "inv_ids st'"
      using assms(1) open_ids [OF _ None] unfolding st' by (simp add: queue_inv_def)
    moreover have "all_seqs st' = all_seqs st"
      using queued_seqs_set_new [OF None, of st' "fresh_lane l"] unfolding st'
      by (simp add: all_seqs_def running_seqs_def settled_seqs_def put_lane_def lane_seqs_def
          fresh_lane_def)
    moreover have "hasPendingActiveTasks ids st' = hasPendingActiveTasks ids st" for ids
      using None unfolding st'
      by (simp add: hasPendingActiveTasks_def all_active_ids_def put_lane_def js_set_absent
          js_get_None_iff fresh_lane_def)
    ultimately show ?thesis using assms(1) unfolding st'
      by (auto simp: queue_inv_def inv_seqs_def inv_waiters_def lane_simps)
  qed
  then show "queue_inv st'" "js_get (lanes st') l = Some s"
    "nextQueueSequence st' = nextQueueSequence st" "inflight st' = inflight st"
    "outputs st' = outputs st" "gatewayDraining st' = gatewayDraining st" by simp_all
qed

section \<open>Changing one lane\<close>

text \<open>
  An operation that replaces a lane keeping its running tasks and generation leaves the ids alone.
\<close>

lemma same_active_ids:
  assumes "inv_ids st" and "js_get (lanes st) l = Some s" and "lanes st' = js_set l s' (lanes st)"
    and "activeTaskIds s' = activeTaskIds s" and "generation s' = generation s"
    and "inflight st' = inflight st" and "nextTaskId st' = nextTaskId st"
  shows "inv_ids st'"
proof -
  have same: "\<exists>x. js_get (lanes st) k = Some x \<and> activeTaskIds x = activeTaskIds y \<and>
      generation x = generation y" if "js_get (lanes st') k = Some y" for k y
    using that assms(2-5) by (cases "k = l") auto
  have same': "\<exists>y. js_get (lanes st') k = Some y \<and> activeTaskIds x = activeTaskIds y \<and>
      generation x = generation y" if "js_get (lanes st) k = Some x" for k x
    using that assms(2-5) by (cases "k = l") auto
  show ?thesis
  proof (rule inv_idsI)
    fix k y i assume y: "js_get (lanes st') k = Some y" and i: "i \<in> set (activeTaskIds y)"
    from same [OF y] obtain x where "js_get (lanes st) k = Some x"
      "activeTaskIds x = activeTaskIds y" "generation x = generation y" by blast
    with inv_ids_active [OF assms(1), of k x i] i
    show "\<exists>r \<in> set (inflight st'). run_taskId r = i \<and> run_lane r = k \<and>
      run_generation r = generation y" by (simp add: assms(6))
  next
    fix r assume "r \<in> set (inflight st')"
    then have r: "r \<in> set (inflight st)" by (simp add: assms(6))
    show "run_taskId r < nextTaskId st'" using inv_ids_run(1) [OF assms(1) r] by (simp add: assms(7))
    from inv_ids_run(2) [OF assms(1) r] obtain x where x: "js_get (lanes st) (run_lane r) = Some x"
      "run_generation r \<le> generation x"
      "run_generation r = generation x \<longrightarrow> run_taskId r \<in> set (activeTaskIds x)" by blast
    from same' [OF x(1)] x(2,3) show "\<exists>s. js_get (lanes st') (run_lane r) = Some s \<and>
      run_generation r \<le> generation s \<and>
      (run_generation r = generation s \<longrightarrow> run_taskId r \<in> set (activeTaskIds s))" by auto
  next
    show "distinct (map run_taskId (inflight st'))"
      using inv_ids_run(3) [OF assms(1)] by (simp add: assms(6))
  qed
qed

lemma same_active_pending:
  assumes "distinct (js_keys (lanes st))" and "js_get (lanes st) l = Some s"
    and "lanes st' = js_set l s' (lanes st)" and "activeTaskIds s' = activeTaskIds s"
  shows "hasPendingActiveTasks ids st' = hasPendingActiveTasks ids st"
proof -
  have d: "distinct (js_keys (lanes st'))" using assms by simp
  have "(\<exists>x. js_get (lanes st') k = Some x \<and> i \<in> set (activeTaskIds x)) \<longleftrightarrow>
        (\<exists>x. js_get (lanes st) k = Some x \<and> i \<in> set (activeTaskIds x))" for k i
    using assms(2-4) by (cases "k = l") auto
  then show ?thesis unfolding pending_iff [OF assms(1)] pending_iff [OF d] by blast
qed

lemma same_active_core:
  assumes "queue_inv st" and "js_get (lanes st) l = Some s" and "lanes st' = js_set l s' (lanes st)"
    and "activeTaskIds s' = activeTaskIds s" and "generation s' = generation s"
    and "inflight st' = inflight st" and "nextTaskId st' = nextTaskId st"
    and "activeTaskWaiters st' = activeTaskWaiters st" and "nextWaiterId st' = nextWaiterId st"
    and "lane_base l s'" and "inv_seqs st'"
  shows "core_inv {l} st'" and "inv_waiters st'" and "conserving s' \<Longrightarrow> queue_inv st'"
proof -
  have inv: "inv_lanes {} st" "inv_ids st" "inv_waiters st" using assms(1) by (auto simp: queue_inv_def)
  have ids: "inv_ids st'" by (rule same_active_ids [OF inv(2) assms(2-7)])
  have lanes: "inv_lanes {l} st'"
    by (rule inv_lanes_set [OF inv(1) assms(3,10)]) simp_all
  have pend: "hasPendingActiveTasks ids st' = hasPendingActiveTasks ids st" for ids
    by (rule same_active_pending [OF _ assms(2-4)]) (rule inv_lanesD(3) [OF inv(1)])
  from inv(3) show w: "inv_waiters st'" by (simp add: inv_waiters_def pend assms(8,9))
  then show "core_inv {l} st'" using ids lanes assms(11) by (simp add: core_inv_def inv_waiters_iff)
  assume c: "conserving s'"
  have "inv_lanes {} st'" by (rule inv_lanes_set [OF inv(1) assms(3,10)]) (simp_all add: c)
  then show "queue_inv st'" using ids w assms(11) by (simp add: queue_inv_def)
qed

lemma all_seqs_lane:
  assumes "distinct (js_keys (lanes st))" and "js_get (lanes st) l = Some s"
    and "lanes st' = js_set l s' (lanes st)" and "inflight st' = inflight st"
    and "outputs st' = outputs st @ os"
  shows "all_seqs st' + lane_seqs s = all_seqs st + lane_seqs s' + mset (concat (map settled_seq os))"
proof -
  have "queued_seqs st' + lane_seqs s = queued_seqs st + lane_seqs s'"
    by (rule queued_seqs_set [OF assms(1-3)])
  moreover have "running_seqs st' = running_seqs st" by (simp add: running_seqs_def assms(4))
  moreover have "settled_seqs st' = settled_seqs st + mset (concat (map settled_seq os))"
    by (simp add: settled_seqs_def assms(5))
  ultimately show ?thesis by (simp add: all_seqs_def)
qed

lemma drain_core:
  assumes "core_inv (insert l X) st" and "js_get (lanes st) l = Some s"
  shows "drainLane now l st = pump now l st" and "core_inv X (drainLane now l st)"
proof -
  have "lane_base l s" using assms by (auto simp: core_inv_def dest: inv_lanesD)
  then show eq: "drainLane now l st = pump now l st"
    using assms(2) by (simp add: drain_is_pump lane_base_def)
  show "core_inv X (drainLane now l st)" unfolding eq by (rule pump_core [OF assms])
qed

lemma drain_inv [machine_intros]:
  assumes "core_inv {l} st" and "inv_waiters st" and "js_get (lanes st) l = Some s"
  shows "queue_inv (drainLane now l st)"
  using assms drain_core(1) [of l "{}" st s now] pump_inv [OF assms] by simp

section \<open>Enqueueing\<close>

lemma comes_after_trans: "comes_after a b \<Longrightarrow> comes_after b c \<Longrightarrow> comes_after a c"
  by (auto simp: comes_after_def)

lemma comes_after_total: "sequence a \<noteq> sequence b \<Longrightarrow> \<not> comes_after a b \<Longrightarrow> comes_after b a"
  by (auto simp: comes_after_def)

lemma sorted_wrt_insert:
  assumes "sorted_wrt comes_after q" and "\<forall>x \<in> set q. sequence x \<noteq> sequence e"
  shows "sorted_wrt comes_after (insert_at_index (find_index (comes_after e) q) e q)"
  using assms
proof (induction q)
  case Nil
  show ?case by (simp add: insert_at_find_index)
next
  case (Cons a q)
  show ?case
  proof (cases "comes_after e a")
    case True
    with Cons.prems have "\<forall>x \<in> set q. comes_after e x" using comes_after_trans by auto
    with True Cons.prems show ?thesis by (simp add: insert_at_find_index)
  next
    case False
    then have "comes_after a e" using Cons.prems by (auto intro: comes_after_total)
    moreover have "set (takeWhile (\<lambda>y. \<not> comes_after e y) q @ e # dropWhile (\<lambda>y. \<not> comes_after e y) q)
        = insert e (set q)"
      using set_insert_at_index [of "find_index (comes_after e) q" e q]
      by (simp add: insert_at_find_index)
    ultimately show ?thesis using Cons False
      by (simp only: insert_at_find_index takeWhile.simps dropWhile.simps if_True
          append_Cons sorted_wrt.simps simp_thms) auto
  qed
qed

text \<open>The entry's own counters do not take part in the order.\<close>

lemma find_index_key:
  "sequence e' = sequence e \<Longrightarrow> priority e' = priority e \<Longrightarrow> comes_after e' = comes_after e"
  by (rule ext) (simp add: comes_after_def)

lemma enqueueLaneEntry_fields [simp]:
  "lane (enqueueLaneEntry s e) = lane s" "activeTaskIds (enqueueLaneEntry s e) = activeTaskIds s"
  "maxConcurrent (enqueueLaneEntry s e) = maxConcurrent s"
  "draining (enqueueLaneEntry s e) = draining s" "generation (enqueueLaneEntry s e) = generation s"
  by (simp_all add: enqueueLaneEntry_def Let_def)

definition placed :: "lane_state \<Rightarrow> queue_entry \<Rightarrow> queue_entry" where
  "placed s e = e\<lparr>queuedAheadAtEnqueue := find_index (comes_after e) (queue s),
                 activeAheadAtEnqueue := length (activeTaskIds s)\<rparr>"

lemma placed_fields [simp]: "sequence (placed s e) = sequence e" "priority (placed s e) = priority e"
  "taskTimeoutMs (placed s e) = taskTimeoutMs e"
  by (simp_all add: placed_def)

lemma queue_enqueueLaneEntry:
  "queue (enqueueLaneEntry s e) =
     insert_at_index (find_index (comes_after (placed s e)) (queue s)) (placed s e) (queue s)"
proof -
  have "comes_after (placed s e) = comes_after e" by (rule find_index_key) simp_all
  then show ?thesis by (simp add: enqueueLaneEntry_def placed_def Let_def)
qed

lemma mset_insert_at_index: "mset (insert_at_index i x xs) = add_mset x (mset xs)"
proof -
  have "mset (take i xs) + mset (drop i xs) = mset xs"
    by (simp only: mset_append [symmetric] append_take_drop_id)
  then show ?thesis by (simp add: insert_at_index_def)
qed

lemma enqueueLaneEntry_base:
  assumes "lane_base l s" and "\<forall>x \<in> set (queue s). sequence x \<noteq> sequence e"
  shows "lane_base l (enqueueLaneEntry s e)"
  using assms sorted_wrt_insert [of "queue s" "placed s e"]
  by (simp add: lane_base_def queue_enqueueLaneEntry)

lemma lane_seqs_enqueue: "lane_seqs (enqueueLaneEntry s e) = add_mset (sequence e) (lane_seqs s)"
  by (simp add: lane_seqs_def queue_enqueueLaneEntry mset_insert_at_index)

lemma queued_lt:
  assumes "inv_seqs st" and "js_get (lanes st) l = Some s" and "e \<in> set (queue s)"
  shows "sequence e < nextQueueSequence st"
proof -
  have "sequence e \<in># lane_seqs s" using assms(3) by (simp add: lane_seqs_def)
  moreover have "lane_seqs s \<subseteq># queued_seqs st"
    using js_get_in_values [OF assms(2)] unfolding queued_seqs_def
    by (metis (no_types, lifting) in_set_conv_decomp list.map(2) map_append mset_subset_eq_add_left
        mset_subset_eq_add_right subset_mset.order_trans sum_list.Cons sum_list_append)
  moreover have "queued_seqs st \<subseteq># mset [1..<nextQueueSequence st]"
    using assms(1) by (metis inv_seqs_def all_seqs_def add.assoc mset_subset_eq_add_left)
  ultimately have "sequence e \<in># mset [1..<nextQueueSequence st]" by (meson mset_subset_eqD)
  then show ?thesis by simp
qed

lemma make_entry_fields [simp]:
  "sequence (make_entry now t q opts) = q"
  "priority (make_entry now t q opts) = resolveQueuePriority (opt_priority opts)"
  "taskTimeoutMs (make_entry now t q opts) = normalizeTaskTimeoutMs (opt_taskTimeoutMs opts)"
  by (simp_all add: make_entry_def)

text \<open>The state between the insertion of the entry and the pump.\<close>

definition enqueued :: "string \<Rightarrow> lane_state \<Rightarrow> queue_entry \<Rightarrow> queue_state \<Rightarrow> queue_state" where
  "enqueued l s e st =
     put_lane l (enqueueLaneEntry s e) (st\<lparr>nextQueueSequence := Suc (nextQueueSequence st)\<rparr>)"

lemma enqueued_inv:
  assumes "queue_inv st" and "js_get (lanes st) l = Some s" and "sequence e = nextQueueSequence st"
  shows "core_inv {l} (enqueued l s e st)" and "inv_waiters (enqueued l s e st)"
proof -
  have inv: "inv_lanes {} st" "inv_seqs st" using assms(1) by (auto simp: queue_inv_def)
  have new: "\<forall>x \<in> set (queue s). sequence x \<noteq> sequence e"
    using queued_lt [OF inv(2) assms(2)] assms(3) by (metis less_irrefl)
  have lanes: "lanes (enqueued l s e st) = js_set l (enqueueLaneEntry s e) (lanes st)"
    by (simp add: enqueued_def put_lane_def)
  have base: "lane_base l (enqueueLaneEntry s e)"
    by (rule enqueueLaneEntry_base [OF inv_lanesD(1) [OF inv(1) assms(2)] new])
  have "all_seqs (enqueued l s e st) + lane_seqs s
      = all_seqs st + lane_seqs (enqueueLaneEntry s e) + mset (concat (map settled_seq []))"
    by (rule all_seqs_lane [OF inv_lanesD(3) [OF inv(1)] assms(2) lanes])
       (simp_all add: enqueued_def lane_simps)
  then have "all_seqs (enqueued l s e st) = add_mset (nextQueueSequence st) (all_seqs st)"
    by (simp add: lane_seqs_enqueue assms(3))
  then have "inv_seqs (enqueued l s e st)"
    using inv(2) by (simp add: inv_seqs_def enqueued_def lane_simps)
  note * = same_active_core(1,2) [OF assms(1,2) lanes _ _ _ _ _ _ base this]
  show "core_inv {l} (enqueued l s e st)" "inv_waiters (enqueued l s e st)"
    by (rule *; simp add: enqueued_def lane_simps)+
qed

lemma enqueue_inv [machine_intros]:
  assumes "queue_inv st"
  shows "queue_inv (snd (enqueueCommandInLane now l t opts st))"
proof (cases "gatewayDraining st")
  case True
  with assms show ?thesis by (simp add: enqueueCommandInLane_def)
next
  case False
  obtain s st' where o: "getLaneState (normalizeLane l) st = (s, st')" by fastforce
  note open' = open_lane [OF assms o]
  let ?e = "make_entry now t (nextQueueSequence st') opts"
  have "queue_inv (drainLane now (normalizeLane l) (enqueued (normalizeLane l) s ?e st'))"
    using enqueued_inv [OF open'(1,2), of ?e]
    by (intro drain_inv [where s = "enqueueLaneEntry s ?e"]) (simp_all add: enqueued_def lane_simps)
  with False o show ?thesis by (simp add: enqueueCommandInLane_def enqueued_def Let_def)
qed

section \<open>Concurrency, clearing\<close>

lemma js_floor_idem [simp]: "js_floor (js_floor x) = js_floor x"
  by (cases x) simp_all

lemma js_floor_max: "js_floor (js_max (Num (of_int m)) (js_floor x)) = js_max (Num (of_int m)) (js_floor x)"
  by (cases x) (simp_all add: max_def)

lemma not_below_nonpos: "\<not> js_less (Num 0) m \<Longrightarrow> \<not> below_max active m"
  by (cases m) (auto simp: below_max_def)

lemma js_floor_probe:
  "js_floor (js_max (Num (if b then 1 else 0)) (js_floor x)) = js_max (Num (if b then 1 else 0)) (js_floor x)"
  using js_floor_max [of 1 x] js_floor_max [of 0 x] by simp

lemma setConcurrency_step:
  assumes "queue_inv st" and o: "getLaneState l st = (s, st')" and "js_floor m = m"
  shows "core_inv {l} (put_lane l (s\<lparr>maxConcurrent := m\<rparr>) st')"
    and "inv_waiters (put_lane l (s\<lparr>maxConcurrent := m\<rparr>) st')"
    and "\<not> js_less (Num 0) m \<Longrightarrow> queue_inv (put_lane l (s\<lparr>maxConcurrent := m\<rparr>) st')"
proof -
  note open' = open_lane [OF assms(1) o]
  let ?s = "s\<lparr>maxConcurrent := m\<rparr>"
  let ?st = "put_lane l ?s st'"
  have lanes: "lanes ?st = js_set l ?s (lanes st')" by (simp add: put_lane_def)
  have inv: "inv_lanes {} st'" "inv_seqs st'" using open'(1) by (auto simp: queue_inv_def)
  have base: "lane_base l ?s"
    using inv_lanesD(1) [OF inv(1) open'(2)] assms(3) by (simp add: lane_base_def)
  have "all_seqs ?st + lane_seqs s = all_seqs st' + lane_seqs ?s + mset (concat (map settled_seq []))"
    by (rule all_seqs_lane [OF inv_lanesD(3) [OF inv(1)] open'(2) lanes]) (simp_all add: lane_simps)
  then have seqs: "inv_seqs ?st" using inv(2) by (simp add: inv_seqs_def lane_simps lane_seqs_def)
  note * = same_active_core [OF open'(1,2) lanes _ _ _ _ _ _ base seqs]
  show "core_inv {l} ?st" "inv_waiters ?st" by (rule *; simp add: lane_simps)+
  show "queue_inv ?st" if "\<not> js_less (Num 0) m"
    by (intro *(3)) (simp_all add: lane_simps conserving_def not_below_nonpos [OF that])
qed

lemmas setConcurrency_core = setConcurrency_step(1) [OF _ _ js_floor_probe]

lemma setConcurrency_inv [machine_intros]:
  assumes "queue_inv st"
  shows "queue_inv (setCommandLaneConcurrency now l mx st)"
proof -
  let ?l = "normalizeLane l"
  obtain s st' where o: "getLaneState ?l st = (s, st')" by fastforce
  let ?m = "js_max (Num (if is_probe_lane ?l then 1 else 0)) (js_floor mx)"
  let ?st = "put_lane ?l (s\<lparr>maxConcurrent := ?m\<rparr>) st'"
  note c = setConcurrency_step [OF assms o js_floor_probe]
  have "queue_inv (drainLane now ?l ?st)" by (rule drain_inv [OF c(1,2)]) (simp add: lane_simps)
  with c(3) o show ?thesis by (simp add: setCommandLaneConcurrency_def Let_def)
qed

lemma settled_clear: "concat (map settled_seq (map (\<lambda>e. Settled (sequence e) (f e)) q)) = map sequence q"
  by (induction q) auto

lemma clear_inv [machine_intros]:
  assumes "queue_inv st"
  shows "queue_inv (snd (clearCommandLane l st))"
proof (cases "js_get (lanes st) (normalizeLane l)")
  case None
  with assms show ?thesis by (simp add: clearCommandLane_def)
next
  case (Some s)
  let ?l = "normalizeLane l" and ?s = "s\<lparr>queue := []\<rparr>"
  let ?os = "map (\<lambda>e. Settled (sequence e) (Failed (CommandLaneClearedError ?l))) (queue s)"
  let ?st = "emit ?os (put_lane ?l ?s st)"
  have inv: "inv_lanes {} st" "inv_seqs st" using assms by (auto simp: queue_inv_def)
  have lanes: "lanes ?st = js_set ?l ?s (lanes st)" by (simp add: lane_simps put_lane_def)
  have base: "lane_base ?l ?s" using inv_lanesD(1) [OF inv(1) Some] by (simp add: lane_base_def)
  have "all_seqs ?st + lane_seqs s = all_seqs st + lane_seqs ?s + mset (concat (map settled_seq ?os))"
    by (rule all_seqs_lane [OF inv_lanesD(3) [OF inv(1)] Some lanes]) (simp_all add: lane_simps)
  then have "all_seqs ?st = all_seqs st" unfolding settled_clear by (simp add: lane_seqs_def)
  then have seqs: "inv_seqs ?st" using inv(2) by (simp add: inv_seqs_def lane_simps)
  have "queue_inv ?st"
    by (rule same_active_core(3) [OF assms Some lanes _ _ _ _ _ _ base seqs])
       (simp_all add: lane_simps conserving_def)
  with Some show ?thesis by (simp add: clearCommandLane_def Let_def)
qed

section \<open>Settling a task\<close>

lemma remove_one:
  assumes "distinct (map f xs)" and "x \<in> set xs"
  shows "add_mset (g x) (mset (map g (filter (\<lambda>y. f y \<noteq> f x) xs))) = mset (map g xs)"
  using assms
proof (induction xs)
  case (Cons a xs)
  show ?case
  proof (cases "a = x")
    case True
    with Cons.prems(1) have "f x \<notin> f ` set xs" by simp
    then have "\<forall>y \<in> set xs. f y \<noteq> f x" by (metis image_eqI)
    with True show ?thesis by simp
  next
    case False
    with Cons.prems have "x \<in> set xs" "f a \<noteq> f x" by auto
    with Cons show ?thesis by auto
  qed
qed simp

lemma run_unique:
  assumes "inv_ids st" and "r \<in> set (inflight st)" "r' \<in> set (inflight st)"
    and "run_taskId r = run_taskId r'"
  shows "r = r'"
  using inv_ids_run(3) [OF assms(1)] assms(2-4) by (simp add: distinct_map inj_on_def)

definition dropped :: "task_run \<Rightarrow> queue_state \<Rightarrow> queue_state" where
  "dropped r st = st\<lparr>inflight := filter (\<lambda>x. run_taskId x \<noteq> run_taskId r) (inflight st)\<rparr>"

definition completed :: "task_run \<Rightarrow> lane_state \<Rightarrow> lane_state" where
  "completed r s = s\<lparr>activeTaskIds := filter (\<lambda>i. i \<noteq> run_taskId r) (activeTaskIds s)\<rparr>"

lemma finish_task_cases:
  assumes "inv_ids st" and "r \<in> set (inflight st)"
  obtains (stale) s where "js_get (lanes st) (run_lane r) = Some s" "run_generation r < generation s"
      "finish_task now r out st = emit [Settled (sequence (run_entry r)) out] (dropped r st)"
  | (current) s where "js_get (lanes st) (run_lane r) = Some s" "run_generation r = generation s"
      "run_taskId r \<in> set (activeTaskIds s)"
      "finish_task now r out st = emit [Settled (sequence (run_entry r)) out]
         (pump now (run_lane r) (notifyActiveTaskWaiters
            (put_lane (run_lane r) (completed r s) (dropped r st))))"
proof -
  from inv_ids_run(2) [OF assms] obtain s where s: "js_get (lanes st) (run_lane r) = Some s"
    "run_generation r \<le> generation s"
    "run_generation r = generation s \<longrightarrow> run_taskId r \<in> set (activeTaskIds s)" by blast
  show thesis
  proof (cases "run_generation r = generation s")
    case True
    with s show thesis
      by (intro current) (simp_all add: finish_task_def completeTask_def dropped_def completed_def)
  next
    case False
    with s have "run_generation r < generation s" by simp
    moreover have "finish_task now r out st = emit [Settled (sequence (run_entry r)) out] (dropped r st)"
      using s False by (simp add: finish_task_def completeTask_def dropped_def)
    ultimately show thesis using s(1) by (rule stale [rotated])
  qed
qed

lemma dropped_frame [lane_simps]:
  "lanes (dropped r st) = lanes st" "nextTaskId (dropped r st) = nextTaskId st"
  "inflight (dropped r st) = filter (\<lambda>x. run_taskId x \<noteq> run_taskId r) (inflight st)"
  "outputs (dropped r st) = outputs st" "nextQueueSequence (dropped r st) = nextQueueSequence st"
  "activeTaskWaiters (dropped r st) = activeTaskWaiters st"
  "nextWaiterId (dropped r st) = nextWaiterId st" "gatewayDraining (dropped r st) = gatewayDraining st"
  by (simp_all add: dropped_def)

lemma completed_fields [simp]:
  "lane (completed r s) = lane s" "queue (completed r s) = queue s"
  "activeTaskIds (completed r s) = filter (\<lambda>i. i \<noteq> run_taskId r) (activeTaskIds s)"
  "maxConcurrent (completed r s) = maxConcurrent s" "draining (completed r s) = draining s"
  "generation (completed r s) = generation s"
  by (simp_all add: completed_def)

lemma drop_ids_stale:
  assumes "inv_ids st" and "r \<in> set (inflight st)" and "js_get (lanes st) (run_lane r) = Some s"
    and "run_generation r < generation s"
  shows "inv_ids (dropped r st)"
proof (rule inv_idsI)
  fix k y i assume y: "js_get (lanes (dropped r st)) k = Some y" and i: "i \<in> set (activeTaskIds y)"
  from y have y: "js_get (lanes st) k = Some y" by (simp add: lane_simps)
  from inv_ids_active [OF assms(1) y i] obtain r' where r': "r' \<in> set (inflight st)"
    "run_taskId r' = i" "run_lane r' = k" "run_generation r' = generation y" by blast
  have "run_taskId r' \<noteq> run_taskId r"
  proof
    assume "run_taskId r' = run_taskId r"
    with run_unique [OF assms(1) r'(1) assms(2)] have "r' = r" by simp
    with r' y assms(3,4) show False by simp
  qed
  with r' show "\<exists>r' \<in> set (inflight (dropped r st)). run_taskId r' = i \<and> run_lane r' = k \<and>
    run_generation r' = generation y" by (auto simp: lane_simps)
qed (use inv_ids_run [OF assms(1)] in \<open>auto simp: lane_simps distinct_map_filter\<close>)

lemma drop_ids_current:
  assumes "inv_ids st" and "r \<in> set (inflight st)" and "js_get (lanes st) (run_lane r) = Some s"
    and "run_generation r = generation s"
  shows "inv_ids (put_lane (run_lane r) (completed r s) (dropped r st))" (is "inv_ids ?st")
proof (rule inv_idsI)
  fix k y i assume y: "js_get (lanes ?st) k = Some y" and i: "i \<in> set (activeTaskIds y)"
  obtain x where x: "js_get (lanes st) k = Some x" "i \<in> set (activeTaskIds x)"
    "generation x = generation y" "k = run_lane r \<longrightarrow> i \<noteq> run_taskId r"
    using y i assms(3) by (cases "k = run_lane r") (auto simp: lane_simps)
  from inv_ids_active [OF assms(1) x(1,2)] obtain r' where r': "r' \<in> set (inflight st)"
    "run_taskId r' = i" "run_lane r' = k" "run_generation r' = generation x" by blast
  have "run_taskId r' \<noteq> run_taskId r"
    using run_unique [OF assms(1) r'(1) assms(2)] r' x(4) by auto
  with r' x(3) show "\<exists>r' \<in> set (inflight ?st). run_taskId r' = i \<and> run_lane r' = k \<and>
    run_generation r' = generation y" by (auto simp: lane_simps)
next
  fix r' assume "r' \<in> set (inflight ?st)"
  then have r': "r' \<in> set (inflight st)" "run_taskId r' \<noteq> run_taskId r" by (auto simp: lane_simps)
  show "run_taskId r' < nextTaskId ?st"
    using inv_ids_run(1) [OF assms(1) r'(1)] by (simp add: lane_simps)
  from inv_ids_run(2) [OF assms(1) r'(1)] obtain x where x:
    "js_get (lanes st) (run_lane r') = Some x" "run_generation r' \<le> generation x"
    "run_generation r' = generation x \<longrightarrow> run_taskId r' \<in> set (activeTaskIds x)" by blast
  then show "\<exists>s. js_get (lanes ?st) (run_lane r') = Some s \<and> run_generation r' \<le> generation s \<and>
      (run_generation r' = generation s \<longrightarrow> run_taskId r' \<in> set (activeTaskIds s))"
    using assms(3) r'(2) by (cases "run_lane r' = run_lane r") (auto simp: lane_simps)
next
  show "distinct (map run_taskId (inflight ?st))"
    using inv_ids_run(3) [OF assms(1)] by (simp add: lane_simps distinct_map_filter)
qed

lemma dropped_seqs:
  assumes "inv_ids st" and "r \<in> set (inflight st)"
  shows "add_mset (sequence (run_entry r)) (all_seqs (dropped r st)) = all_seqs st"
proof -
  have "add_mset (sequence (run_entry r)) (running_seqs (dropped r st)) = running_seqs st"
    using remove_one [OF inv_ids_run(3) [OF assms(1)] assms(2), of "\<lambda>r. sequence (run_entry r)"]
    by (simp add: running_seqs_def lane_simps)
  then show ?thesis
    by (simp add: all_seqs_def queued_seqs_def settled_seqs_def lane_simps)
qed

lemma settle_emit:
  "all_seqs (emit [Settled q out] st) = add_mset q (all_seqs st)"
  "inv_lanes X (emit os st) = inv_lanes X st" "inv_ids (emit os st) = inv_ids st"
  "inv_waiters (emit os st) = inv_waiters st" "waiter_ids_ok (emit os st) = waiter_ids_ok st"
  by (simp_all add: all_seqs_def queued_seqs_def running_seqs_def settled_seqs_def lane_simps
      inv_lanes_def inv_ids_def inv_waiters_def waiter_ids_ok_def
      pending_cong [of "emit os st" st])

lemma pump_pre:
  assumes "pre_inv (insert l X) st" and "js_get (lanes st) l = Some s"
  shows "pre_inv X (pump now l st)" and "all_seqs (pump now l st) = all_seqs st"
    and "inv_waiters st \<Longrightarrow> inv_waiters (pump now l st)"
  using assms pump_lanes [of l X st s now] pump_ids [of st l s now]
    pump_seqs [of "insert l X" st l s now] pump_frame [of st l s now]
    pump_waiters [of "insert l X" st l s _ now]
  by (auto simp: pre_inv_def waiter_ids_ok_def inv_waiters_iff)

lemma finish_current_pre:
  assumes "queue_inv st" and "r \<in> set (inflight st)" and "js_get (lanes st) (run_lane r) = Some s"
    and "run_generation r = generation s"
  shows "pre_inv {run_lane r} (put_lane (run_lane r) (completed r s) (dropped r st))"
    and "add_mset (sequence (run_entry r))
           (all_seqs (put_lane (run_lane r) (completed r s) (dropped r st))) = all_seqs st"
proof -
  have inv: "inv_lanes {} st" "inv_ids st" "waiter_ids_ok st"
    using assms(1) by (auto simp: queue_inv_def inv_waiters_iff)
  let ?st = "put_lane (run_lane r) (completed r s) (dropped r st)"
  have lanes: "lanes ?st = js_set (run_lane r) (completed r s) (lanes st)"
    by (simp add: put_lane_def lane_simps)
  have "lane_base (run_lane r) (completed r s)"
    using inv_lanesD(1) [OF inv(1) assms(3)] by (simp add: lane_base_def)
  with inv_lanes_set [OF inv(1) lanes, of "{run_lane r}"] have "inv_lanes {run_lane r} ?st" by simp
  moreover have "inv_ids ?st" by (rule drop_ids_current [OF inv(2) assms(2-4)])
  ultimately show "pre_inv {run_lane r} ?st"
    using inv(3) by (simp add: pre_inv_def waiter_ids_ok_def lane_simps)
  have "all_seqs ?st + lane_seqs s = all_seqs (dropped r st) + lane_seqs (completed r s)
      + mset (concat (map settled_seq []))"
    by (rule all_seqs_lane [where l = "run_lane r"])
       (use inv_lanesD(3) [OF inv(1)] assms(3) in \<open>simp_all add: lane_simps put_lane_def\<close>)
  then have "all_seqs ?st = all_seqs (dropped r st)" by (simp add: lane_seqs_def)
  then show "add_mset (sequence (run_entry r)) (all_seqs ?st) = all_seqs st"
    using dropped_seqs [OF inv(2) assms(2)] by simp
qed

lemma finish_inv:
  assumes "queue_inv st" and "r \<in> set (inflight st)"
  shows "queue_inv (finish_task now r out st)"
proof -
  have inv: "inv_lanes {} st" "inv_ids st" "inv_seqs st" "inv_waiters st"
    using assms(1) by (auto simp: queue_inv_def)
  from inv(2) assms(2) show ?thesis
  proof (cases rule: finish_task_cases [where now = now and out = out])
    case (stale s)
    have "inv_ids (dropped r st)" by (rule drop_ids_stale [OF inv(2) assms(2) stale(1,2)])
    moreover have "inv_waiters (dropped r st)"
      using inv(4) pending_cong [of "dropped r st" st] by (simp add: inv_waiters_def lane_simps)
    moreover have "inv_lanes {} (dropped r st)"
      using inv(1) inv_lanes_cong [of "dropped r st" st "{}"] by (simp add: lane_simps)
    ultimately show ?thesis
      using inv(3) dropped_seqs [OF inv(2) assms(2)]
      by (simp add: queue_inv_def settle_emit stale(3) inv_seqs_def lane_simps)
  next
    case (current s)
    let ?st = "put_lane (run_lane r) (completed r s) (dropped r st)"
    note pre = finish_current_pre [OF assms current(1,2)]
    note n = notify_pre [OF pre(1)]
    have w: "waiter_ids_ok ?st" using pre(1) by (simp add: pre_inv_def)
    have get: "js_get (lanes (notifyActiveTaskWaiters ?st)) (run_lane r) = Some (completed r s)"
      by (simp add: notify_frame [OF w] lane_simps)
    note p = pump_pre [OF n(1) get, of now]
    have next_q: "nextQueueSequence (pump now (run_lane r) (notifyActiveTaskWaiters ?st))
        = nextQueueSequence st"
      using pump_frame(1) [OF _ get, of now] n(1)
      by (simp add: pre_inv_def notify_frame [OF w] lane_simps)
    show ?thesis
      using p(1) p(3) [OF n(2)] pre(2) inv(3)
      by (simp add: queue_inv_def settle_emit current(4) inv_seqs_def emit_frame next_q p(2) n(3)
          pre_inv_def)
  qed
qed

lemma find_run_in: "find_run i st = Some r \<Longrightarrow> r \<in> set (inflight st) \<and> run_taskId r = i"
  by (auto simp: find_run_def find_Some_iff)

lemma task_settled_inv [machine_intros]:
  "queue_inv st \<Longrightarrow> queue_inv (task_settled now i out st)"
  using find_run_in finish_inv by (auto simp: task_settled_def split: option.splits)

lemma rearm_inv:
  assumes "queue_inv st"
  shows "queue_inv (st\<lparr>inflight := map (\<lambda>x. if run_taskId x = i then x\<lparr>run_timer := d\<rparr> else x)
                                     (inflight st)\<rparr>)" (is "queue_inv ?st")
proof -
  let ?f = "\<lambda>x. if run_taskId x = i then x\<lparr>run_timer := d\<rparr> else x"
  have f: "run_taskId (?f x) = run_taskId x" "run_lane (?f x) = run_lane x"
    "run_generation (?f x) = run_generation x" "run_entry (?f x) = run_entry x" for x by simp_all
  have ids: "inv_ids st" using assms by (simp add: queue_inv_def)
  have "inv_ids ?st"
  proof (rule inv_idsI)
    fix k s j assume "js_get (lanes ?st) k = Some s" "j \<in> set (activeTaskIds s)"
    with inv_ids_active [OF ids, of k s j] obtain r where "r \<in> set (inflight st)"
      "run_taskId r = j" "run_lane r = k" "run_generation r = generation s" by auto
    then show "\<exists>r \<in> set (inflight ?st). run_taskId r = j \<and> run_lane r = k \<and>
      run_generation r = generation s" by (intro bexI [of _ "?f r"]) auto
  next
    fix r assume "r \<in> set (inflight ?st)"
    then obtain r0 where r0: "r0 \<in> set (inflight st)" and r: "r = ?f r0" by auto
    show "run_taskId r < nextTaskId ?st" using inv_ids_run(1) [OF ids r0] r by simp
    show "\<exists>s. js_get (lanes ?st) (run_lane r) = Some s \<and> run_generation r \<le> generation s \<and>
      (run_generation r = generation s \<longrightarrow> run_taskId r \<in> set (activeTaskIds s))"
      using inv_ids_run(2) [OF ids r0] unfolding r f by simp
  next
    have "map run_taskId (inflight ?st) = map run_taskId (inflight st)"
      by (simp add: o_def f del: if_split)
    then show "distinct (map run_taskId (inflight ?st))" using inv_ids_run(3) [OF ids] by (simp only:)
  qed
  moreover have "all_seqs ?st = all_seqs st"
    by (simp add: all_seqs_def queued_seqs_def running_seqs_def settled_seqs_def o_def if_distrib
        cong: if_cong)
  ultimately show ?thesis
    using assms pending_cong [of ?st st] inv_lanes_cong [of ?st st "{}"]
    by (simp add: queue_inv_def inv_seqs_def inv_waiters_def)
qed

lemma timer_fired_inv [machine_intros]:
  "queue_inv st \<Longrightarrow> queue_inv (timer_fired now i progress st)"
  using find_run_in finish_inv rearm_inv
  by (auto simp: timer_fired_def split: option.splits)

section \<open>Resets\<close>

lemma reset_lane_fields [simp]:
  "lane (reset_lane s) = lane s" "queue (reset_lane s) = queue s" "activeTaskIds (reset_lane s) = []"
  "maxConcurrent (reset_lane s) = maxConcurrent s" "draining (reset_lane s) = False"
  "generation (reset_lane s) = Suc (generation s)"
  by (simp_all add: reset_lane_def)

lemma reset_lane_seqs [simp]: "lane_seqs (reset_lane s) = lane_seqs s"
  by (simp add: lane_seqs_def)

lemma reset_lane_base: "lane_base l s \<Longrightarrow> lane_base l (reset_lane s)"
  by (simp add: lane_base_def)

text \<open>A reset of some lanes: each keeps its entries and starts a new generation.\<close>

lemma reset_ids:
  assumes "inv_ids st" and "inflight st' = inflight st" and "nextTaskId st' = nextTaskId st"
    and "\<And>k. js_get (lanes st') k = (if R k then map_option reset_lane (js_get (lanes st) k)
                                   else js_get (lanes st) k)"
  shows "inv_ids st'"
proof (rule inv_idsI)
  fix k y i assume "js_get (lanes st') k = Some y" and i: "i \<in> set (activeTaskIds y)"
  then have "js_get (lanes st) k = Some y" by (auto simp: assms(4) split: if_splits)
  from inv_ids_active [OF assms(1) this i] show "\<exists>r \<in> set (inflight st'). run_taskId r = i \<and>
    run_lane r = k \<and> run_generation r = generation y" by (simp add: assms(2))
next
  fix r assume "r \<in> set (inflight st')"
  then have r: "r \<in> set (inflight st)" by (simp add: assms(2))
  show "run_taskId r < nextTaskId st'" using inv_ids_run(1) [OF assms(1) r] by (simp add: assms(3))
  from inv_ids_run(2) [OF assms(1) r] show "\<exists>s. js_get (lanes st') (run_lane r) = Some s \<and>
    run_generation r \<le> generation s \<and>
    (run_generation r = generation s \<longrightarrow> run_taskId r \<in> set (activeTaskIds s))"
    by (auto simp: assms(4))
next
  show "distinct (map run_taskId (inflight st'))"
    using inv_ids_run(3) [OF assms(1)] by (simp add: assms(2))
qed

lemma resetCommandLane_ids:
  assumes "queue_inv st" and "js_get (lanes st) l = Some s"
  shows "inv_ids (put_lane l (reset_lane s) st)"
proof -
  have "inv_ids st" using assms(1) by (simp add: queue_inv_def)
  then show ?thesis
    by (rule reset_ids [where R = "\<lambda>k. k = l"]) (auto simp: lane_simps assms(2))
qed

lemma resetCommandLane_core:
  assumes "queue_inv st" and Some: "js_get (lanes st) l = Some s"
  shows resetCommandLane_touched: "core_inv {l} (put_lane l (reset_lane s) st)"
    and resetCommandLane_drained: "core_inv {} (if queue s \<noteq> [] then drainLane now l (put_lane l (reset_lane s) st)
                      else put_lane l (reset_lane s) st)"
proof -
  let ?st = "put_lane l (reset_lane s) st"
  have inv: "inv_lanes {} st" "inv_seqs st" "waiter_ids_ok st"
    using assms by (auto simp: queue_inv_def inv_waiters_iff)
  have lanes: "lanes ?st = js_set l (reset_lane s) (lanes st)" by (simp add: put_lane_def)
  have get: "js_get (lanes ?st) l = Some (reset_lane s)" by (simp add: lane_simps)
  have base: "lane_base l (reset_lane s)"
    by (rule reset_lane_base [OF inv_lanesD(1) [OF inv(1) Some]])
  have "all_seqs ?st + lane_seqs s = all_seqs st + lane_seqs (reset_lane s)
      + mset (concat (map settled_seq []))"
    by (rule all_seqs_lane [OF inv_lanesD(3) [OF inv(1)] Some lanes]) (simp_all add: lane_simps)
  then have seqs: "inv_seqs ?st" using inv(2) by (simp add: inv_seqs_def lane_simps)
  have core: "core_inv X ?st" if "l \<in> X \<or> queue s = []" for X
    using inv_lanes_set [OF inv(1) lanes base, of X] that resetCommandLane_ids [OF assms] seqs inv(3)
    by (auto simp: core_inv_def conserving_def waiter_ids_ok_def lane_simps)
  show "core_inv {l} ?st" by (rule core) simp
  show "core_inv {} (if queue s \<noteq> [] then drainLane now l ?st else ?st)"
    using drain_core(2) [OF core get] core [of "{}"] by simp
qed

lemma resetCommandLane_inv [machine_intros]:
  "queue_inv st \<Longrightarrow> queue_inv (snd (resetCommandLane now l st))"
  using notify_inv [OF resetCommandLane_drained]
  by (simp add: resetCommandLane_def Let_def split: option.splits)

lemma pump_keeps_lanes:
  assumes "inv_ids st" and "js_get (lanes st) l = Some s" and "js_get (lanes st) k \<noteq> None"
  shows "js_get (lanes (pump now l st)) k \<noteq> None"
proof -
  from pump_spec [OF assms(2) active_lt [OF assms(1,2)], of now] obtain n where
    "pump now l st = pumped now l s n st" by blast
  with assms(3) show ?thesis by (simp add: lane_simps)
qed

lemma drain_all_core:
  assumes "core_inv (set ls) st" and "\<forall>l \<in> set ls. js_get (lanes st) l \<noteq> None"
  shows "core_inv {} (fold (drainLane now) ls st)"
  using assms
proof (induction ls arbitrary: st)
  case (Cons l ls)
  then obtain s where s: "js_get (lanes st) l = Some s" by auto
  from Cons.prems(1) have c: "core_inv (insert l (set ls)) st" by simp
  note d = drain_core [OF c s, of now]
  have "\<forall>k \<in> set ls. js_get (lanes (drainLane now l st)) k \<noteq> None"
    unfolding d(1) using Cons.prems(2) pump_keeps_lanes [OF _ s, of _ now] c
    by (simp add: core_inv_def)
  with Cons.IH [OF d(2)] show ?case by simp
qed simp

lemma map_of_map_snd: "js_get (map (\<lambda>(k, s). (k, f s)) m) k = map_option f (js_get m k)"
  by (induction m) auto

definition reset_all :: "queue_state \<Rightarrow> queue_state" where
  "reset_all st = st\<lparr>gatewayDraining := False,
     lanes := map (\<lambda>(k, s). (k, reset_lane s)) (lanes st)\<rparr>"

definition lanes_to_drain :: "queue_state \<Rightarrow> string list" where
  "lanes_to_drain st = map lane (filter (\<lambda>s. queue s \<noteq> []) (js_values (lanes st)))"

lemma resetAllLanes_eq:
  "resetAllLanes now st =
     notifyActiveTaskWaiters (fold (drainLane now) (lanes_to_drain st) (reset_all st))"
  by (simp add: resetAllLanes_def reset_all_def lanes_to_drain_def Let_def)

lemma get_reset_all:
  "js_get (lanes (reset_all st)) k = map_option reset_lane (js_get (lanes st) k)"
  by (simp add: reset_all_def map_of_map_snd)

lemma resetAll_open:
  assumes "queue_inv st"
  shows "\<forall>l \<in> set (lanes_to_drain st). js_get (lanes (reset_all st)) l \<noteq> None"
proof
  fix l assume "l \<in> set (lanes_to_drain st)"
  then obtain s where s: "s \<in> set (js_values (lanes st))" "l = lane s"
    unfolding lanes_to_drain_def by auto
  have inv: "inv_lanes {} st" using assms by (simp add: queue_inv_def)
  with value_iff_get [OF inv_lanesD(3)] s(1) obtain k where "js_get (lanes st) k = Some s" by blast
  with inv_lanesD(1) [OF inv this] s show "js_get (lanes (reset_all st)) l \<noteq> None"
    by (auto simp: get_reset_all lane_base_def)
qed

lemma resetAll_core:
  assumes "queue_inv st"
  shows "core_inv (set (lanes_to_drain st)) (reset_all st)"
proof -
  have inv: "inv_lanes {} st" "inv_ids st" "inv_seqs st" "waiter_ids_ok st"
    using assms by (auto simp: queue_inv_def inv_waiters_iff)
  have vals: "js_values (lanes (reset_all st)) = map reset_lane (js_values (lanes st))"
    by (simp add: reset_all_def split_def o_def)
  have keys: "js_keys (lanes (reset_all st)) = js_keys (lanes st)"
    by (simp add: reset_all_def split_def o_def)
  have drained: "l \<in> set (lanes_to_drain st)" if "js_get (lanes st) l = Some s" "queue s \<noteq> []" for l s
  proof -
    have "lane s = l" using inv_lanesD(1) [OF inv(1) that(1)] by (simp add: lane_base_def)
    with that js_get_in_values [OF that(1)] show ?thesis unfolding lanes_to_drain_def by force
  qed
  have "inv_lanes (set (lanes_to_drain st)) (reset_all st)"
    using inv(1) drained
    by (auto simp: inv_lanes_def keys get_reset_all reset_lane_base conserving_def)
  moreover have "inv_ids (reset_all st)"
    by (rule reset_ids [OF inv(2), where R = "\<lambda>k. True"])
       (simp_all add: get_reset_all, simp_all add: reset_all_def)
  moreover have "all_seqs (reset_all st) = all_seqs st"
    unfolding all_seqs_def queued_seqs_def running_seqs_def settled_seqs_def vals
    by (simp add: o_def) (simp add: reset_all_def)
  ultimately show ?thesis
    using inv(3,4) by (simp add: core_inv_def inv_seqs_def waiter_ids_ok_def) (simp add: reset_all_def)
qed

lemma resetAllLanes_inv [machine_intros]:
  "queue_inv st \<Longrightarrow> queue_inv (resetAllLanes now st)"
  unfolding resetAllLanes_eq
  by (intro notify_inv drain_all_core resetAll_core resetAll_open)

section \<open>Waiting and draining\<close>

lemma core_emit_waiter:
  assumes "core_inv X st"
  shows "core_inv X (emit [WaiterDone w b] st)"
  using assms settle_emit(2-5)
    all_seqs_cong [of "emit [WaiterDone w b] st" st "[WaiterDone w b]"]
  by (simp add: core_inv_def inv_seqs_def lane_simps)

lemma add_waiter_core:
  assumes "core_inv X st" and "\<forall>w \<in> set ws. waiter_id w = nextWaiterId st" and "length ws \<le> 1"
  shows "core_inv X (st\<lparr>nextWaiterId := Suc (nextWaiterId st),
                       activeTaskWaiters := activeTaskWaiters st @ ws\<rparr>)" (is "core_inv X ?st")
proof -
  have "waiter_ids_ok ?st"
    using assms by (cases ws) (auto simp: core_inv_def waiter_ids_ok_def less_Suc_eq)
  moreover have "all_seqs ?st = all_seqs st" by (rule all_seqs_cong [where os = "[]"]) simp_all
  ultimately show ?thesis
    using assms(1) inv_lanes_cong [of ?st st X] inv_ids_cong [of ?st st]
    by (simp add: core_inv_def inv_seqs_def)
qed

lemma wait_inv [machine_intros]:
  assumes "queue_inv st"
  shows "queue_inv (snd (waitForActiveTasks t st))"
proof -
  have core: "core_inv {} st" and w: "inv_waiters st" using assms by (auto simp: queue_inv_core)
  let ?st0 = "st\<lparr>nextWaiterId := Suc (nextWaiterId st)\<rparr>"
  have core0: "core_inv {} ?st0" using add_waiter_core [OF core, of "[]"] by simp
  have w0: "inv_waiters (emit [WaiterDone x b] ?st0)" for x b
    unfolding settle_emit(4) using w pending_cong [of ?st0 st] by (auto simp: inv_waiters_def)
  have immediate: "queue_inv (emit [WaiterDone x b] ?st0)" for x b
    using core_emit_waiter [OF core0] w0 by (simp add: queue_inv_core)
  have "core_inv {} (?st0\<lparr>activeTaskWaiters := activeTaskWaiters ?st0
      @ [\<lparr>waiter_id = nextWaiterId st, waiter_taskIds = ids\<rparr>]\<rparr>)" for ids
    using add_waiter_core [OF core, of "[\<lparr>waiter_id = nextWaiterId st, waiter_taskIds = ids\<rparr>]"] by simp
  then have "queue_inv (notifyActiveTaskWaiters (?st0\<lparr>activeTaskWaiters := activeTaskWaiters ?st0
      @ [\<lparr>waiter_id = nextWaiterId st, waiter_taskIds = ids\<rparr>]\<rparr>))" for ids
    by (rule notify_inv)
  with immediate show ?thesis by (simp add: waitForActiveTasks_def Let_def)
qed

lemma waiter_timeout_inv [machine_intros]:
  assumes "queue_inv st"
  shows "queue_inv (waiter_timeout w st)"
proof -
  let ?st = "st\<lparr>activeTaskWaiters := filter (\<lambda>x. waiter_id x \<noteq> w) (activeTaskWaiters st)\<rparr>"
  have core: "core_inv {} st" and iw: "inv_waiters st" using assms by (auto simp: queue_inv_core)
  have "all_seqs ?st = all_seqs st" by (rule all_seqs_cong [where os = "[]"]) simp_all
  then have "core_inv {} ?st"
    using core inv_lanes_cong [of ?st st "{}"] inv_ids_cong [of ?st st]
    by (simp add: core_inv_def inv_seqs_def waiter_ids_ok_def distinct_map_filter)
  moreover have "inv_waiters ?st"
    using iw pending_cong [of ?st st] by (simp add: inv_waiters_def distinct_map_filter)
  ultimately have "queue_inv (emit [WaiterDone w False] ?st)"
    using core_emit_waiter settle_emit(4) by (simp add: queue_inv_core)
  with assms show ?thesis by (simp add: waiter_timeout_def resolveActiveTaskWaiter_def)
qed

lemma mark_draining_inv [machine_intros]: "queue_inv st \<Longrightarrow> queue_inv (markGatewayDraining st)"
  using pending_cong [of "st\<lparr>gatewayDraining := True\<rparr>" st]
  by (simp add: queue_inv_def markGatewayDraining_def inv_lanes_def inv_ids_def inv_seqs_def
      inv_waiters_def all_seqs_def queued_seqs_def running_seqs_def settled_seqs_def)

section \<open>Events\<close>

datatype queue_event =
    Enqueue int string nat enqueue_opts
  | SetConcurrency int string js_number
  | ClearLane string
  | ResetLane int string
  | ResetAll int
  | TaskSettled int nat task_outcome
  | TimerFired int nat "js_number option"
  | WaitForActive "js_number option"
  | WaiterTimer nat
  | MarkDraining

fun queue_step :: "queue_event \<Rightarrow> queue_state \<Rightarrow> queue_state" where
  "queue_step (Enqueue now l t opts) st = snd (enqueueCommandInLane now l t opts st)"
| "queue_step (SetConcurrency now l mx) st = setCommandLaneConcurrency now l mx st"
| "queue_step (ClearLane l) st = snd (clearCommandLane l st)"
| "queue_step (ResetLane now l) st = snd (resetCommandLane now l st)"
| "queue_step (ResetAll now) st = resetAllLanes now st"
| "queue_step (TaskSettled now i out) st = task_settled now i out st"
| "queue_step (TimerFired now i progress) st = timer_fired now i progress st"
| "queue_step (WaitForActive t) st = snd (waitForActiveTasks t st)"
| "queue_step (WaiterTimer w) st = waiter_timeout w st"
| "queue_step MarkDraining st = markGatewayDraining st"

interpretation queue_machine: invariant_machine queue_step queue_inv
proof
  show "queue_inv s \<Longrightarrow> queue_inv (queue_step e s)" for s e
    by (cases e) (simp_all add: machine_intros)
qed

definition run_queue :: "queue_event list \<Rightarrow> queue_state" where
  "run_queue es = fold queue_step es initial_queue_state"

lemma run_queue_inv: "queue_inv (run_queue es)"
  unfolding run_queue_def by (rule queue_machine.run_inv [OF queue_inv_initial])

end
