(* ===== verification/CommandQueueProps.thy ===== *)
theory CommandQueueProps
  imports CommandQueueSteps
begin

text \<open>
  What the events of the command queue never undo, and the properties of the queue: work
  conservation, exactly-once settlement, the concurrency bound, the effect of a lane reset on the
  tasks of earlier generations, progress, and inactivity timeouts.
\<close>

section \<open>What a step never undoes\<close>

definition lane_grows :: "queue_state \<Rightarrow> queue_state \<Rightarrow> bool" where
  "lane_grows st st' \<longleftrightarrow>
     (\<forall>l s. js_get (lanes st) l = Some s \<longrightarrow>
        (\<exists>s'. js_get (lanes st') l = Some s' \<and> generation s \<le> generation s'))"

text \<open>
  A started task stays in flight, under its lane, entry and generation, until its promise is settled;
  only its timer is set anew.  The tasks that are new in flight have new ids.
\<close>

definition same_run :: "task_run \<Rightarrow> task_run \<Rightarrow> bool" where
  "same_run r r' \<longleftrightarrow> r' = r\<lparr>run_timer := run_timer r'\<rparr>"

definition runs_on :: "queue_state \<Rightarrow> task_run \<Rightarrow> bool" where
  "runs_on st r \<longleftrightarrow> (\<exists>r' \<in> set (inflight st). same_run r r')"

definition run_settled :: "queue_state \<Rightarrow> task_run \<Rightarrow> bool" where
  "run_settled st r \<longleftrightarrow> (\<exists>out. Settled (sequence (run_entry r)) out \<in> set (outputs st))"

definition runs_kept :: "queue_state \<Rightarrow> queue_state \<Rightarrow> bool" where
  "runs_kept st st' \<longleftrightarrow>
     (\<forall>r \<in> set (inflight st). runs_on st' r \<or> run_settled st' r) \<and>
     (\<forall>r' \<in> set (inflight st'). (\<exists>r \<in> set (inflight st). same_run r r') \<or> nextTaskId st \<le> run_taskId r')"

lemma same_run_refl [simp]: "same_run r r"
  by (simp add: same_run_def)

lemma same_run_trans: "same_run a b \<Longrightarrow> same_run b c \<Longrightarrow> same_run a c"
  unfolding same_run_def by (cases a; cases b; cases c) simp

lemma same_run_fields:
  "same_run r r' \<Longrightarrow> run_taskId r' = run_taskId r" "same_run r r' \<Longrightarrow> run_lane r' = run_lane r"
  "same_run r r' \<Longrightarrow> run_entry r' = run_entry r" "same_run r r' \<Longrightarrow> run_generation r' = run_generation r"
  unfolding same_run_def by (cases r; cases r'; simp)+

lemma runs_on_self: "r \<in> set (inflight st) \<Longrightarrow> runs_on st r"
  unfolding runs_on_def by (metis same_run_refl)

lemma runs_kept_cong:
  assumes "inflight st' = inflight st"
  shows "runs_kept st st'"
  using assms unfolding runs_kept_def runs_on_def by (metis same_run_refl)

lemma runs_kept_map:
  assumes "\<And>x. same_run x (f x)"
  shows "runs_kept st (st\<lparr>inflight := map f (inflight st)\<rparr>)"
proof -
  have "runs_on (st\<lparr>inflight := map f (inflight st)\<rparr>) r" if "r \<in> set (inflight st)" for r
    using that assms [of r] unfolding runs_on_def by (intro bexI [of _ "f r"]) simp_all
  moreover have "\<exists>r \<in> set (inflight st). same_run r r'" if "r' \<in> set (inflight (st\<lparr>inflight := map f (inflight st)\<rparr>))" for r'
    using that assms by auto
  ultimately show ?thesis unfolding runs_kept_def by blast
qed

lemma runs_kept_trans:
  assumes "runs_kept a b" and "runs_kept b c" and "nextTaskId a \<le> nextTaskId b" and "prefix (outputs b) (outputs c)"
  shows "runs_kept a c"
proof -
  have grows: "run_settled b r \<Longrightarrow> run_settled c r" for r
    using set_mono_prefix [OF assms(4)] unfolding run_settled_def by blast
  have "runs_on c r \<or> run_settled c r" if r: "r \<in> set (inflight a)" for r
  proof -
    from r assms(1) consider r' where "r' \<in> set (inflight b)" "same_run r r'" | "run_settled b r"
      unfolding runs_kept_def runs_on_def by blast
    then show ?thesis
    proof cases
      case 1
      then have "runs_on c r' \<or> run_settled c r'" using assms(2) unfolding runs_kept_def by blast
      then show ?thesis
        using 1(2) same_run_trans [OF 1(2)] same_run_fields(3) [OF 1(2)] unfolding runs_on_def run_settled_def by metis
    qed (simp add: grows)
  qed
  moreover have "(\<exists>r \<in> set (inflight a). same_run r r') \<or> nextTaskId a \<le> run_taskId r'" if r': "r' \<in> set (inflight c)" for r'
  proof -
    from r' assms(2) consider r where "r \<in> set (inflight b)" "same_run r r'" | "nextTaskId b \<le> run_taskId r'"
      unfolding runs_kept_def by blast
    then show ?thesis
    proof cases
      case 1
      then have "(\<exists>q \<in> set (inflight a). same_run q r) \<or> nextTaskId a \<le> run_taskId r" using assms(1) unfolding runs_kept_def by blast
      then show ?thesis using 1(2) same_run_trans same_run_fields(1) [OF 1(2)] by metis
    next
      case 2
      then show ?thesis using assms(3) by simp
    qed
  qed
  ultimately show ?thesis unfolding runs_kept_def by blast
qed

definition queue_guar :: "queue_state \<Rightarrow> queue_state \<Rightarrow> bool" where
  "queue_guar st st' \<longleftrightarrow> prefix (outputs st) (outputs st') \<and> nextTaskId st \<le> nextTaskId st' \<and>
     nextQueueSequence st \<le> nextQueueSequence st' \<and> lane_grows st st' \<and> runs_kept st st'"

lemma lane_grows_refl: "lane_grows st st"
  by (auto simp: lane_grows_def)

lemma lane_grows_trans: "lane_grows a b \<Longrightarrow> lane_grows b c \<Longrightarrow> lane_grows a c"
  unfolding lane_grows_def by (meson order_trans)

lemma queue_guar_refl: "queue_guar st st"
  by (simp add: queue_guar_def lane_grows_refl runs_kept_cong)

lemma queue_guar_trans: "queue_guar a b \<Longrightarrow> queue_guar b c \<Longrightarrow> queue_guar a c"
  unfolding queue_guar_def using lane_grows_trans runs_kept_trans prefix_order.trans order_trans by blast

lemma guar_same_lanes:
  "lanes st' = lanes st \<Longrightarrow> outputs st' = outputs st @ os \<Longrightarrow> nextTaskId st \<le> nextTaskId st' \<Longrightarrow>
     nextQueueSequence st \<le> nextQueueSequence st' \<Longrightarrow> inflight st' = inflight st \<Longrightarrow> queue_guar st st'"
  by (auto simp: queue_guar_def lane_grows_def runs_kept_cong)

lemma guar_put_lane:
  assumes "\<And>x. js_get (lanes st) l = Some x \<Longrightarrow> generation x \<le> generation s"
  shows "queue_guar st (put_lane l s st)"
  using assms by (auto simp: queue_guar_def lane_grows_def lane_simps runs_kept_cong)

lemma emit_guar: "queue_guar st (emit os st)"
  by (rule guar_same_lanes) (simp_all add: emit_def)

lemma notify_guar: "waiter_ids_ok st \<Longrightarrow> queue_guar st (notifyActiveTaskWaiters st)"
  by (rule guar_same_lanes) (simp_all add: notify_spec emit_def)

text \<open>Settling a task: it leaves, and what goes on from there ends with the settlement of its promise.\<close>

lemma settle_guar:
  assumes "queue_guar (dropped r st) st'" and "inv_ids st" and "r \<in> set (inflight st)"
  shows "queue_guar st (emit [Settled (sequence (run_entry r)) out] st')"
proof -
  let ?e = "emit [Settled (sequence (run_entry r)) out] st'"
  have g: "runs_kept (dropped r st) ?e" "prefix (outputs st) (outputs ?e)" "nextTaskId st \<le> nextTaskId ?e"
    "nextQueueSequence st \<le> nextQueueSequence ?e" "lane_grows st ?e"
    using queue_guar_trans [OF assms(1) emit_guar [of st' "[Settled (sequence (run_entry r)) out]"]]
    by (simp_all add: queue_guar_def dropped_frame lane_grows_def)
  have "runs_on ?e x \<or> run_settled ?e x" if x: "x \<in> set (inflight st)" for x
  proof (cases "run_taskId x = run_taskId r")
    case False
    then show ?thesis using x g(1) by (simp add: runs_kept_def dropped_frame)
  next
    case True
    then have "x = r" using run_unique [OF assms(2) x assms(3)] by simp
    then have "run_settled ?e x" by (auto simp: run_settled_def emit_frame)
    then show ?thesis by simp
  qed
  moreover have "(\<exists>x \<in> set (inflight st). same_run x x') \<or> nextTaskId st \<le> run_taskId x'" if "x' \<in> set (inflight ?e)" for x'
    using that g(1) by (auto simp: runs_kept_def dropped_frame)
  ultimately have "runs_kept st ?e" unfolding runs_kept_def by blast
  then show ?thesis using g(2-5) by (simp add: queue_guar_def)
qed

lemma pump_guar:
  assumes "inv_ids st"
  shows "queue_guar st (pump now l st)"
proof (cases "js_get (lanes st) l")
  case None
  then show ?thesis by (simp add: pump_def queue_guar_refl)
next
  case (Some s)
  from pump_spec [OF Some active_lt [OF assms Some], of now] obtain k where
    "pump now l st = pumped now l s k st" by blast
  moreover have "runs_kept st (pumped now l s k st)"
    using set_started_runs runs_on_self by (auto simp: runs_kept_def runs_on_def lane_simps intro: same_run_refl)
  ultimately show ?thesis using Some by (auto simp: queue_guar_def lane_grows_def lane_simps)
qed

lemma drain_guar:
  assumes "inv_ids st"
  shows "queue_guar st (drainLane now l st)"
proof -
  obtain s st1 where o: "getLaneState l st = (s, st1)" by fastforce
  have open1: "queue_guar st st1" and get: "js_get (lanes st1) l = Some s" and ids: "inv_ids st1"
    using o assms guar_put_lane [of st l "fresh_lane l"] queue_guar_refl
    by (auto simp: getLaneState_def lane_simps split: option.splits intro: open_ids)
  show ?thesis
  proof (cases "draining s")
    case True
    with o open1 show ?thesis by (simp add: drainLane_def)
  next
    case False
    with o have "drainLane now l st = pump now l st1"
      using pump_draining_irrelevant [OF get] by (simp add: drainLane_def)
    with queue_guar_trans [OF open1 pump_guar [OF ids]] show ?thesis by simp
  qed
qed

lemma queue_inv_parts:
  "queue_inv st \<Longrightarrow> inv_lanes {} st" "queue_inv st \<Longrightarrow> inv_ids st" "queue_inv st \<Longrightarrow> inv_seqs st"
  "queue_inv st \<Longrightarrow> inv_waiters st" "queue_inv st \<Longrightarrow> waiter_ids_ok st"
  by (auto simp: queue_inv_def inv_waiters_iff)

lemma finish_guar:
  assumes "queue_inv st" and "r \<in> set (inflight st)"
  shows "queue_guar st (finish_task now r out st)"
proof -
  note inv = queue_inv_parts [OF assms(1)]
  from inv(2) assms(2) show ?thesis
  proof (cases rule: finish_task_cases [where now = now and out = out])
    case (stale s)
    show ?thesis unfolding stale(3) by (rule settle_guar [OF queue_guar_refl inv(2) assms(2)])
  next
    case (current s)
    let ?st = "put_lane (run_lane r) (completed r s) (dropped r st)"
    have pre: "pre_inv {run_lane r} ?st" by (rule finish_current_pre(1) [OF assms current(1,2)])
    have "queue_guar (dropped r st) ?st"
      by (rule guar_put_lane) (use current(1) in \<open>simp add: lane_simps\<close>)
    moreover have "queue_guar ?st (notifyActiveTaskWaiters ?st)"
      using pre by (intro notify_guar) (simp add: pre_inv_def)
    moreover have "inv_ids (notifyActiveTaskWaiters ?st)"
      using notify_pre(1) [OF pre] by (simp add: pre_inv_def)
    ultimately have "queue_guar (dropped r st) (pump now (run_lane r) (notifyActiveTaskWaiters ?st))"
      by (meson queue_guar_trans pump_guar)
    then show ?thesis unfolding current(4) by (rule settle_guar [OF _ inv(2) assms(2)])
  qed
qed

lemma enqueue_guar:
  assumes "queue_inv st"
  shows "queue_guar st (snd (enqueueCommandInLane now l t opts st))"
proof (cases "gatewayDraining st")
  case True
  then show ?thesis by (simp add: enqueueCommandInLane_def queue_guar_refl)
next
  case False
  let ?l = "normalizeLane l"
  obtain s st' where o: "getLaneState ?l st = (s, st')" by fastforce
  note open' = open_lane [OF assms o]
  let ?e = "make_entry now t (nextQueueSequence st') opts"
  have a: "queue_guar st st'"
    using o guar_put_lane [of st ?l "fresh_lane ?l"] queue_guar_refl
    by (auto simp: getLaneState_def split: option.splits)
  have b: "queue_guar st' (st'\<lparr>nextQueueSequence := Suc (nextQueueSequence st')\<rparr>)"
    by (rule guar_same_lanes [where os = "[]"]) simp_all
  have c: "queue_guar (st'\<lparr>nextQueueSequence := Suc (nextQueueSequence st')\<rparr>) (enqueued ?l s ?e st')"
    unfolding enqueued_def by (rule guar_put_lane) (use open'(2) in simp)
  have "inv_ids (enqueued ?l s ?e st')"
    using enqueued_inv(1) [OF open'(1,2), of ?e] by (simp add: core_inv_def)
  from drain_guar [OF this, of now ?l] have "queue_guar st (drainLane now ?l (enqueued ?l s ?e st'))"
    by (meson a b c queue_guar_trans)
  with False o show ?thesis by (simp add: enqueueCommandInLane_def enqueued_def Let_def)
qed

lemma setConcurrency_guar:
  assumes "queue_inv st"
  shows "queue_guar st (setCommandLaneConcurrency now l mx st)"
proof -
  let ?l = "normalizeLane l"
  obtain s st' where o: "getLaneState ?l st = (s, st')" by fastforce
  note open' = open_lane [OF assms o]
  have a: "queue_guar st st'"
    using o guar_put_lane [of st ?l "fresh_lane ?l"] queue_guar_refl
    by (auto simp: getLaneState_def split: option.splits)
  have step: "queue_guar st' (put_lane ?l (s\<lparr>maxConcurrent := m\<rparr>) st')" for m
    by (rule guar_put_lane) (use open'(2) in simp)
  have ids: "inv_ids (put_lane ?l (s\<lparr>maxConcurrent := m\<rparr>) st')" for m
    by (rule same_active_ids [OF queue_inv_parts(2) [OF open'(1)] open'(2),
          where s' = "s\<lparr>maxConcurrent := m\<rparr>"]) (simp_all add: put_lane_def)
  have "queue_guar st (drainLane now ?l (put_lane ?l (s\<lparr>maxConcurrent := m\<rparr>) st'))" for m
    by (rule queue_guar_trans [OF queue_guar_trans [OF a step] drain_guar [OF ids]])
  with queue_guar_trans [OF a step] o show ?thesis
    by (simp add: setCommandLaneConcurrency_def Let_def)
qed

lemma clear_guar: "queue_guar st (snd (clearCommandLane l st))"
proof (cases "js_get (lanes st) (normalizeLane l)")
  case None
  then show ?thesis by (simp add: clearCommandLane_def queue_guar_refl)
next
  case (Some s)
  have "queue_guar st (put_lane (normalizeLane l) (s\<lparr>queue := []\<rparr>) st)"
    by (rule guar_put_lane) (use Some in simp)
  with Some show ?thesis
    by (simp add: clearCommandLane_def Let_def queue_guar_trans [OF _ emit_guar])
qed

lemma reset_guar:
  assumes "queue_inv st"
  shows "queue_guar st (snd (resetCommandLane now l st))"
proof (cases "js_get (lanes st) (normalizeLane l)")
  case None
  then show ?thesis by (simp add: resetCommandLane_def queue_guar_refl)
next
  case (Some s)
  let ?st = "put_lane (normalizeLane l) (reset_lane s) st"
  have a: "queue_guar st ?st" by (rule guar_put_lane) (use Some in simp)
  let ?st2 = "if queue s \<noteq> [] then drainLane now (normalizeLane l) ?st else ?st"
  have core: "core_inv {} ?st2"
    using resetCommandLane_drained [OF assms Some] by simp
  have "queue_guar st ?st2"
    using a drain_guar [OF resetCommandLane_ids [OF assms Some]] queue_guar_trans by auto
  moreover have "queue_guar ?st2 (notifyActiveTaskWaiters ?st2)"
    using core by (intro notify_guar) (simp add: core_inv_def)
  ultimately have "queue_guar st (notifyActiveTaskWaiters ?st2)" by (rule queue_guar_trans)
  with Some show ?thesis by (simp add: resetCommandLane_def Let_def)
qed

lemma drain_all_guar:
  assumes "core_inv (set ls) st" and "\<forall>l \<in> set ls. js_get (lanes st) l \<noteq> None"
  shows "queue_guar st (fold (drainLane now) ls st)"
  using assms
proof (induction ls arbitrary: st)
  case Nil
  then show ?case by (simp add: queue_guar_refl)
next
  case (Cons l ls)
  then obtain s where s: "js_get (lanes st) l = Some s" by auto
  from Cons.prems(1) have c: "core_inv (insert l (set ls)) st" by simp
  then have ids: "inv_ids st" by (simp add: core_inv_def)
  note d = drain_core [OF c s, of now]
  have "\<forall>k \<in> set ls. js_get (lanes (drainLane now l st)) k \<noteq> None"
    unfolding d(1) using Cons.prems(2) pump_keeps_lanes [OF ids s, of _ now] by simp
  from queue_guar_trans [OF drain_guar [OF ids] Cons.IH [OF d(2) this]] show ?case by simp
qed

lemma resetAll_guar:
  assumes "queue_inv st"
  shows "queue_guar st (resetAllLanes now st)"
proof -
  let ?st = "reset_all st"
  let ?ls = "lanes_to_drain st"
  note core = resetAll_core [OF assms] and open' = resetAll_open [OF assms]
  have a: "queue_guar st ?st"
    by (auto simp: queue_guar_def lane_grows_def reset_all_def map_of_map_snd runs_kept_cong)
  have "waiter_ids_ok (fold (drainLane now) ?ls ?st)"
    using drain_all_core [OF core open', of now] by (simp add: core_inv_def)
  from queue_guar_trans [OF queue_guar_trans [OF a drain_all_guar [OF core open', of now]]
      notify_guar [OF this]]
  show ?thesis by (simp add: resetAllLanes_eq)
qed

lemma wait_guar:
  assumes "queue_inv st"
  shows "queue_guar st (snd (waitForActiveTasks t st))"
proof -
  let ?st0 = "st\<lparr>nextWaiterId := Suc (nextWaiterId st)\<rparr>"
  let ?st1 = "\<lambda>ids. ?st0\<lparr>activeTaskWaiters := activeTaskWaiters ?st0
      @ [\<lparr>waiter_id = nextWaiterId st, waiter_taskIds = ids\<rparr>]\<rparr>"
  have a: "queue_guar st ?st0" by (rule guar_same_lanes [where os = "[]"]) simp_all
  have b: "queue_guar st (?st1 ids)" for ids by (rule guar_same_lanes [where os = "[]"]) simp_all
  have c: "waiter_ids_ok (?st1 ids)" for ids
    using queue_inv_parts(5) [OF assms] by (auto simp: waiter_ids_ok_def less_Suc_eq)
  show ?thesis
    using queue_guar_trans [OF a emit_guar] queue_guar_trans [OF b notify_guar [OF c]]
    by (simp add: waitForActiveTasks_def Let_def)
qed

lemma waiter_timeout_guar: "queue_guar st (waiter_timeout w st)"
proof -
  have "queue_guar st (emit [WaiterDone w False]
      (st\<lparr>activeTaskWaiters := filter (\<lambda>x. waiter_id x \<noteq> w) (activeTaskWaiters st)\<rparr>))"
    by (rule guar_same_lanes) (simp_all add: emit_def)
  then show ?thesis by (simp add: waiter_timeout_def resolveActiveTaskWaiter_def queue_guar_refl)
qed

lemma timer_guar:
  assumes "queue_inv st"
  shows "queue_guar st (timer_fired now i progress st)"
proof -
  let ?rearm = "\<lambda>d x. if run_taskId x = i then x\<lparr>run_timer := d\<rparr> else x"
  have "same_run x (?rearm d x)" for d x by (simp add: same_run_def)
  note kept = runs_kept_map [of "?rearm d" st for d, OF this]
  have "queue_guar st (st\<lparr>inflight := map (?rearm d) (inflight st)\<rparr>)" for d
    using kept [of d] by (simp add: queue_guar_def lane_grows_def)
  with finish_guar [OF assms] find_run_in queue_guar_refl show ?thesis
    by (auto simp: timer_fired_def split: option.splits)
qed

lemma settled_guar:
  "queue_inv st \<Longrightarrow> queue_guar st (task_settled now i out st)"
  using finish_guar find_run_in queue_guar_refl by (auto simp: task_settled_def split: option.splits)

lemma mark_guar: "queue_guar st (markGatewayDraining st)"
  by (rule guar_same_lanes [where os = "[]"]) (simp_all add: markGatewayDraining_def)

interpretation queue_history: guaranteed_machine queue_step queue_inv queue_guar
proof
  show "queue_guar s s" for s by (rule queue_guar_refl)
  show "queue_guar a b \<Longrightarrow> queue_guar b c \<Longrightarrow> queue_guar a c" for a b c by (rule queue_guar_trans)
  show "queue_inv s \<Longrightarrow> queue_guar s (queue_step e s)" for s e
    by (cases e) (simp_all add: enqueue_guar setConcurrency_guar clear_guar reset_guar resetAll_guar
        settled_guar timer_guar wait_guar waiter_timeout_guar mark_guar)
qed

section \<open>The concurrency bound\<close>

definition active_of :: "queue_state \<Rightarrow> string \<Rightarrow> nat" where
  "active_of st l = (case js_get (lanes st) l of None \<Rightarrow> 0 | Some s \<Rightarrow> length (activeTaskIds s))"

definition bounded_growth :: "queue_state \<Rightarrow> queue_state \<Rightarrow> bool" where
  "bounded_growth st st' \<longleftrightarrow>
     (\<forall>l s'. js_get (lanes st') l = Some s' \<longrightarrow> length (activeTaskIds s') \<le> active_of st l \<or>
        js_le (Num (of_nat (length (activeTaskIds s')))) (maxConcurrent s'))"

lemma bounded_refl: "bounded_growth st st"
  by (simp add: bounded_growth_def active_of_def)

lemma bounded_same: "bounded_growth st a \<Longrightarrow> lanes b = lanes a \<Longrightarrow> bounded_growth st b"
  by (simp add: bounded_growth_def)

lemma bounded_put_lane:
  "bounded_growth st a \<Longrightarrow> length (activeTaskIds s) \<le> active_of st l \<Longrightarrow>
     bounded_growth st (put_lane l s a)"
  by (simp add: bounded_growth_def lane_simps)

lemma js_less_floor_le:
  assumes "js_less (Num (of_nat n)) m" and "js_floor m = m"
  shows "js_le (Num (of_nat (Suc n))) m"
proof (cases m)
  case (Num q)
  with assms obtain z where z: "q = of_int z" by auto
  with assms(1) Num have "(of_int (int n) :: rat) < of_int z" by simp
  then have "int n < z" by (simp only: of_int_less_iff)
  then have "(of_int (int n + 1) :: rat) \<le> of_int z" by (simp only: of_int_le_iff)
  then show ?thesis using z Num by (simp add: add.commute)
qed (use assms in simp_all)

lemma pump_bounded:
  assumes "bounded_growth st a" and "pre_inv X a" and "js_get (lanes a) l = Some s"
  shows "bounded_growth st (pump now l a)"
proof -
  have ids: "inv_ids a" and fl: "js_floor (maxConcurrent s) = maxConcurrent s"
    using assms(2) inv_lanesD(1) [of X a l s] assms(3) by (auto simp: pre_inv_def lane_base_def)
  from pump_spec [OF assms(3) active_lt [OF ids assms(3)], of now] obtain k where
    p: "pump now l a = pumped now l s k a" and
    below: "\<forall>i < k. below_max (activeTaskIds s @ [nextTaskId a..<nextTaskId a + i]) (maxConcurrent s)"
    by blast
  have "length (activeTaskIds s) + k \<le> active_of st l \<or>
      js_le (Num (of_nat (length (activeTaskIds s) + k))) (maxConcurrent s)"
  proof (cases k)
    case 0
    with assms(1,3) show ?thesis by (auto simp: bounded_growth_def)
  next
    case (Suc n)
    with below have "js_less (Num (of_nat (length (activeTaskIds s) + n))) (maxConcurrent s)"
      by (simp add: below_max_def)
    from js_less_floor_le [OF this fl] Suc show ?thesis by simp
  qed
  with assms(1) show ?thesis unfolding p by (auto simp: bounded_growth_def lane_simps)
qed

lemma drain_bounded:
  assumes "bounded_growth st a" and "core_inv (insert l X) a" and "js_get (lanes a) l = Some s"
  shows "bounded_growth st (drainLane now l a)"
  unfolding drain_core(1) [OF assms(2,3)]
  using assms by (intro pump_bounded) (auto simp: core_inv_pre)

lemma drain_all_bounded:
  assumes "bounded_growth st a" and "core_inv (set ls) a"
    and "\<forall>l \<in> set ls. js_get (lanes a) l \<noteq> None"
  shows "bounded_growth st (fold (drainLane now) ls a)"
  using assms
proof (induction ls arbitrary: a)
  case (Cons l ls)
  then obtain s where s: "js_get (lanes a) l = Some s" by auto
  from Cons.prems(2) have c: "core_inv (insert l (set ls)) a" by simp
  then have ids: "inv_ids a" by (simp add: core_inv_def)
  note d = drain_core [OF c s, of now]
  have "\<forall>k \<in> set ls. js_get (lanes (drainLane now l a)) k \<noteq> None"
    unfolding d(1) using Cons.prems(3) pump_keeps_lanes [OF ids s, of _ now] by simp
  from Cons.IH [OF drain_bounded [OF Cons.prems(1) c s] d(2) this] show ?case by simp
qed simp

lemma open_bounded:
  "queue_inv st \<Longrightarrow> getLaneState l st = (s, st') \<Longrightarrow> bounded_growth st st'"
  using bounded_put_lane [OF bounded_refl, of "fresh_lane l" st l] bounded_refl
  by (auto simp: getLaneState_def fresh_lane_def split: option.splits)

lemma open_active:
  "getLaneState l st = (s, st') \<Longrightarrow> length (activeTaskIds s) = active_of st l"
  by (auto simp: getLaneState_def fresh_lane_def active_of_def split: option.splits)

lemma finish_bounded:
  assumes "queue_inv st" and "r \<in> set (inflight st)"
  shows "bounded_growth st (finish_task now r out st)"
proof -
  have ids: "inv_ids st" using assms(1) by (rule queue_inv_parts)
  from ids assms(2) show ?thesis
  proof (cases rule: finish_task_cases [where now = now and out = out])
    case (stale s)
    show ?thesis unfolding stale(3)
      by (rule bounded_same [OF bounded_refl]) (simp add: lane_simps)
  next
    case (current s)
    let ?st = "put_lane (run_lane r) (completed r s) (dropped r st)"
    have pre: "pre_inv {run_lane r} ?st" by (rule finish_current_pre(1) [OF assms current(1,2)])
    then have w: "waiter_ids_ok ?st" by (simp add: pre_inv_def)
    have "bounded_growth st ?st"
      by (rule bounded_put_lane [OF bounded_same [OF bounded_refl]])
         (use current(1) in \<open>simp_all add: lane_simps active_of_def\<close>)
    then have "bounded_growth st (notifyActiveTaskWaiters ?st)"
      by (rule bounded_same) (simp add: notify_frame [OF w])
    from pump_bounded [OF this notify_pre(1) [OF pre], of "run_lane r" "completed r s" now]
    show ?thesis unfolding current(4)
      by (rule bounded_same [where a = "pump now (run_lane r) (notifyActiveTaskWaiters ?st)"])
         (simp_all add: emit_frame notify_frame [OF w] lane_simps)
  qed
qed

lemma enqueue_bounded:
  assumes "queue_inv st"
  shows "bounded_growth st (snd (enqueueCommandInLane now l t opts st))"
proof (cases "gatewayDraining st")
  case True
  then show ?thesis by (simp add: enqueueCommandInLane_def bounded_refl)
next
  case False
  let ?l = "normalizeLane l"
  obtain s st' where o: "getLaneState ?l st = (s, st')" by fastforce
  note open' = open_lane [OF assms o]
  let ?e = "make_entry now t (nextQueueSequence st') opts"
  have "bounded_growth st (enqueued ?l s ?e st')"
    unfolding enqueued_def
    by (rule bounded_put_lane [OF bounded_same [OF open_bounded [OF assms o]]])
       (simp_all add: open_active [OF o])
  then have "bounded_growth st (drainLane now ?l (enqueued ?l s ?e st'))"
    using enqueued_inv(1) [OF open'(1,2), of ?e]
    by (intro drain_bounded [where s = "enqueueLaneEntry s ?e" and X = "{}"])
       (simp_all add: enqueued_def lane_simps)
  with False o show ?thesis by (simp add: enqueueCommandInLane_def enqueued_def Let_def)
qed

lemma setConcurrency_bounded:
  assumes "queue_inv st"
  shows "bounded_growth st (setCommandLaneConcurrency now l mx st)"
proof -
  let ?l = "normalizeLane l"
  obtain s st' where o: "getLaneState ?l st = (s, st')" by fastforce
  note open' = open_lane [OF assms o]
  let ?m = "js_max (Num (if is_probe_lane ?l then 1 else 0)) (js_floor mx)"
  let ?st = "put_lane ?l (s\<lparr>maxConcurrent := ?m\<rparr>) st'"
  have a: "bounded_growth st ?st"
    by (rule bounded_put_lane [OF open_bounded [OF assms o]]) (simp add: open_active [OF o])
  have "bounded_growth st (drainLane now ?l ?st)"
    by (rule drain_bounded [OF a setConcurrency_core [OF assms o]]) (simp add: lane_simps)
  with a o show ?thesis by (simp add: setCommandLaneConcurrency_def Let_def)
qed

lemma clear_bounded: "bounded_growth st (snd (clearCommandLane l st))"
proof (cases "js_get (lanes st) (normalizeLane l)")
  case None
  then show ?thesis by (simp add: clearCommandLane_def bounded_refl)
next
  case (Some s)
  have "bounded_growth st (put_lane (normalizeLane l) (s\<lparr>queue := []\<rparr>) st)"
    by (rule bounded_put_lane [OF bounded_refl]) (simp add: active_of_def Some)
  from bounded_same [OF this] Some show ?thesis
    by (simp add: clearCommandLane_def Let_def emit_frame)
qed

lemma reset_bounded:
  assumes "queue_inv st"
  shows "bounded_growth st (snd (resetCommandLane now l st))"
proof (cases "js_get (lanes st) (normalizeLane l)")
  case None
  then show ?thesis by (simp add: resetCommandLane_def bounded_refl)
next
  case (Some s)
  let ?l = "normalizeLane l"
  let ?st = "put_lane ?l (reset_lane s) st"
  let ?st2 = "if queue s \<noteq> [] then drainLane now ?l ?st else ?st"
  have a: "bounded_growth st ?st" by (rule bounded_put_lane [OF bounded_refl]) simp
  have "bounded_growth st (drainLane now ?l ?st)"
    by (rule drain_bounded [OF a resetCommandLane_touched [OF assms Some]]) (simp add: lane_simps)
  with a have "bounded_growth st ?st2" by simp
  moreover have "waiter_ids_ok ?st2"
    using resetCommandLane_drained [OF assms Some, of now] by (simp only: core_inv_def)
  ultimately have "bounded_growth st (notifyActiveTaskWaiters ?st2)"
    using bounded_same notify_frame(1) by blast
  with Some show ?thesis by (simp add: resetCommandLane_def Let_def)
qed

lemma resetAll_bounded:
  assumes "queue_inv st"
  shows "bounded_growth st (resetAllLanes now st)"
proof -
  note core = resetAll_core [OF assms] and open' = resetAll_open [OF assms]
  have "bounded_growth st (reset_all st)"
    by (auto simp: bounded_growth_def get_reset_all)
  from drain_all_bounded [OF this core open', of now]
  have b: "bounded_growth st (fold (drainLane now) (lanes_to_drain st) (reset_all st))" .
  have "waiter_ids_ok (fold (drainLane now) (lanes_to_drain st) (reset_all st))"
    using drain_all_core [OF core open', of now] by (simp add: core_inv_def)
  then show ?thesis unfolding resetAllLanes_eq by (rule bounded_same [OF b notify_frame(1)])
qed

lemma wait_bounded:
  assumes "queue_inv st"
  shows "bounded_growth st (snd (waitForActiveTasks t st))"
proof -
  have "waiter_ids_ok (st\<lparr>nextWaiterId := Suc (nextWaiterId st), activeTaskWaiters :=
      activeTaskWaiters st @ [\<lparr>waiter_id = nextWaiterId st, waiter_taskIds = ids\<rparr>]\<rparr>)" for ids
    using queue_inv_parts(5) [OF assms] by (auto simp: waiter_ids_ok_def less_Suc_eq)
  then have "lanes (snd (waitForActiveTasks t st)) = lanes st"
    by (simp add: waitForActiveTasks_def Let_def notify_frame emit_frame)
  then show ?thesis by (rule bounded_same [OF bounded_refl])
qed

lemma step_bounded:
  assumes "queue_inv st"
  shows "bounded_growth st (queue_step e st)"
proof (cases e)
  case (TaskSettled now i out)
  with assms find_run_in finish_bounded bounded_refl show ?thesis
    by (auto simp: task_settled_def split: option.splits)
next
  case (TimerFired now i p)
  have "bounded_growth st (st\<lparr>inflight := rs\<rparr>)" for rs
    by (rule bounded_same [OF bounded_refl]) simp
  with assms find_run_in finish_bounded bounded_refl TimerFired show ?thesis
    by (auto simp: timer_fired_def split: option.splits)
next
  case (WaiterTimer w)
  have "lanes (waiter_timeout w st) = lanes st"
    by (simp add: waiter_timeout_def resolveActiveTaskWaiter_def emit_frame)
  with WaiterTimer show ?thesis by (simp add: bounded_same [OF bounded_refl])
next
  case MarkDraining
  then show ?thesis by (simp add: bounded_same [OF bounded_refl] markGatewayDraining_def)
qed (simp_all add: assms enqueue_bounded setConcurrency_bounded clear_bounded reset_bounded
      resetAll_bounded wait_bounded)

section \<open>Placement in a lane\<close>

lemma takeWhile_filter_split:
  assumes "sorted_wrt R xs" and "\<And>x y. R x y \<Longrightarrow> P y \<Longrightarrow> P x"
  shows "takeWhile P xs = filter P xs \<and> dropWhile P xs = filter (\<lambda>x. \<not> P x) xs"
  using assms(1)
proof (induction xs)
  case (Cons a xs)
  show ?case
  proof (cases "P a")
    case True
    with Cons show ?thesis by simp
  next
    case False
    with Cons.prems assms(2) have "\<forall>x \<in> set xs. \<not> P x" by auto
    with False show ?thesis by simp
  qed
qed simp

lemma enqueue_splits:
  assumes "sorted_wrt comes_after q" and "\<forall>x \<in> set q. sequence x < sequence e"
  shows "insert_at_index (find_index (comes_after e) q) e q =
           filter (\<lambda>x. priority e \<le> priority x) q @ e # filter (\<lambda>x. priority x < priority e) q"
    and "find_index (comes_after e) q = length (filter (\<lambda>x. priority e \<le> priority x) q)"
proof -
  have eq: "x \<in> set q \<Longrightarrow> (\<not> comes_after e x) = (priority e \<le> priority x)" for x
    using assms(2) by (auto simp: comes_after_def)
  have split: "takeWhile (\<lambda>x. priority e \<le> priority x) q = filter (\<lambda>x. priority e \<le> priority x) q \<and>
      dropWhile (\<lambda>x. priority e \<le> priority x) q = filter (\<lambda>x. \<not> priority e \<le> priority x) q"
    by (rule takeWhile_filter_split [OF assms(1)]) (auto simp: comes_after_def)
  have tw: "takeWhile (\<lambda>x. \<not> comes_after e x) q = takeWhile (\<lambda>x. priority e \<le> priority x) q"
    by (rule takeWhile_cong) (simp_all add: eq)
  have dw: "dropWhile (\<lambda>x. \<not> comes_after e x) q = dropWhile (\<lambda>x. priority e \<le> priority x) q"
    by (rule dropWhile_cong) (simp_all add: eq)
  show "insert_at_index (find_index (comes_after e) q) e q =
      filter (\<lambda>x. priority e \<le> priority x) q @ e # filter (\<lambda>x. priority x < priority e) q"
    by (simp add: insert_at_find_index tw dw split not_le)
  show "find_index (comes_after e) q = length (filter (\<lambda>x. priority e \<le> priority x) q)"
    by (simp add: find_index_def tw split)
qed

section \<open>Draining a lane\<close>

lemma pump_max:
  assumes "pre_inv X a" and "js_get (lanes a) l = Some s"
  shows "\<exists>s'. js_get (lanes (pump now l a)) l = Some s' \<and> maxConcurrent s' = maxConcurrent s \<and>
           getLaneDepth s' = getLaneDepth s"
proof -
  have "inv_ids a" using assms(1) by (simp add: pre_inv_def)
  from pump_spec [OF assms(2) active_lt [OF this assms(2)], of now] obtain k where
    "k \<le> length (queue s)" "pump now l a = pumped now l s k a" by blast
  then show ?thesis by (simp add: lane_simps getLaneDepth_def)
qed

lemma length_remove_id:
  "distinct xs \<Longrightarrow> i \<in> set xs \<Longrightarrow> Suc (length (filter (\<lambda>x. x \<noteq> i) xs)) = length xs"
proof (induction xs)
  case (Cons a xs)
  then show ?case
  proof (cases "a = i")
    case True
    with Cons.prems have "\<forall>x \<in> set xs. x \<noteq> i" by auto
    with True show ?thesis by simp
  qed auto
qed simp

text \<open>Settling a task of the current generation frees one place and the lane uses it at once.\<close>

lemma settle_current:
  assumes "queue_inv st" and "js_get (lanes st) l = Some s" and "i \<in> set (activeTaskIds s)"
  shows "\<exists>s'. js_get (lanes (task_settled now i out st)) l = Some s' \<and>
     maxConcurrent s' = maxConcurrent s \<and> Suc (getLaneDepth s') = getLaneDepth s"
proof -
  note inv = queue_inv_parts [OF assms(1)]
  from inv_ids_active [OF inv(2) assms(2,3)] obtain r where r: "r \<in> set (inflight st)"
    "run_taskId r = i" "run_lane r = l" "run_generation r = generation s" by blast
  have "\<exists>r'. find_run i st = Some r'"
    using r by (cases "find_run i st") (auto simp: find_run_def find_None_iff)
  then obtain r' where r': "find_run i st = Some r'" by blast
  have "r' = r" using find_run_in [OF r'] r run_unique [OF inv(2)] by auto
  with r' have st: "task_settled now i out st = finish_task now r out st"
    by (simp add: task_settled_def)
  have base: "lane_base l s" by (rule inv_lanesD(1) [OF inv(1) assms(2)])
  from inv(2) r(1) show ?thesis
  proof (cases rule: finish_task_cases [where now = now and out = out])
    case (stale x)
    with r assms(2) show ?thesis by simp
  next
    case (current x)
    then have x: "x = s" using r assms(2) by simp
    let ?st = "put_lane (run_lane r) (completed r x) (dropped r st)"
    have pre: "pre_inv {run_lane r} ?st"
      by (rule finish_current_pre(1) [OF assms(1) r(1) current(1,2)])
    then have w: "waiter_ids_ok ?st" by (simp add: pre_inv_def)
    have "js_get (lanes (notifyActiveTaskWaiters ?st)) (run_lane r) = Some (completed r x)"
      by (simp add: notify_frame [OF w] lane_simps)
    then have get: "js_get (lanes (notifyActiveTaskWaiters ?st)) l = Some (completed r s)"
      by (simp only: r x)
    from pump_max [OF notify_pre(1) [OF pre] get, of now] obtain s' where
      s': "js_get (lanes (pump now l (notifyActiveTaskWaiters ?st))) l = Some s'"
      "maxConcurrent s' = maxConcurrent s" "getLaneDepth s' = getLaneDepth (completed r s)" by auto
    have "Suc (getLaneDepth (completed r s)) = getLaneDepth s"
      using length_remove_id [of "activeTaskIds s" i] base assms(3) r(2)
      by (simp add: getLaneDepth_def lane_base_def)
    with s' show ?thesis unfolding st current(4) by (simp add: emit_frame r)
  qed
qed

lemma lane_drains_from:
  assumes "queue_inv st" and "js_get (lanes st) l = Some s" and "js_less (Num 0) (maxConcurrent s)"
  shows "\<exists>is s'. js_get (lanes (fold (\<lambda>i. task_settled now i out) is st)) l = Some s' \<and>
     queue s' = [] \<and> activeTaskIds s' = [] \<and> length is = getLaneDepth s"
  using assms
proof (induction "getLaneDepth s" arbitrary: st s)
  case 0
  then show ?case by (intro exI [of _ "[]"]) (auto simp: getLaneDepth_def)
next
  case (Suc n)
  have "conserving s" using inv_lanesD(2) [OF queue_inv_parts(1) [OF Suc.prems(1)] Suc.prems(2)] by simp
  with Suc.hyps(2) Suc.prems(3) have "activeTaskIds s \<noteq> []"
    by (auto simp: conserving_def below_max_def getLaneDepth_def)
  then obtain i where i: "i \<in> set (activeTaskIds s)" by (meson list.set_sel(1))
  from settle_current [OF Suc.prems(1,2) i, of now out] obtain s' where s':
    "js_get (lanes (task_settled now i out st)) l = Some s'" "maxConcurrent s' = maxConcurrent s"
    "Suc (getLaneDepth s') = getLaneDepth s" by blast
  have inv: "queue_inv (task_settled now i out st)" by (rule task_settled_inv [OF Suc.prems(1)])
  have "js_less (Num 0) (maxConcurrent s')" using Suc.prems(3) s'(2) by simp
  from Suc.hyps(1) [OF _ inv s'(1) this] Suc.hyps(2) s'(3) obtain "is" s'' where
    "js_get (lanes (fold (\<lambda>i. task_settled now i out) is (task_settled now i out st))) l = Some s''"
    "queue s'' = []" "activeTaskIds s'' = []" "length is = getLaneDepth s'" by auto
  with s'(3) show ?case by (intro exI [of _ "i # is"]) auto
qed

section \<open>The properties of the queue\<close>

text \<open>
  C2. After any sequence of calls, settlements and timers, every lane is work conserving (an entry
  waits only while the lane runs at its limit), its queue is ordered by priority and then by
  arrival, and no pump is left marked as draining.
\<close>
theorem lanes_conserve_work:
  "list_all (\<lambda>(l, s).
       \<not> (queue s \<noteq> [] \<and> js_less (Num (of_nat (length (activeTaskIds s)))) (maxConcurrent s))
       \<and> sorted_wrt (\<lambda>x y. priority y < priority x \<or> priority x = priority y \<and> sequence x < sequence y) (queue s)
       \<and> \<not> draining s)
     (lanes (run_queue es))"
proof -
  have inv: "inv_lanes {} (run_queue es)" by (rule queue_inv_parts [OF run_queue_inv])
  have "conserving s \<and> sorted_wrt comes_after (queue s) \<and> \<not> draining s"
    if "(l, s) \<in> set (lanes (run_queue es))" for l s
  proof -
    from that inv_lanesD(3) [OF inv] have "js_get (lanes (run_queue es)) l = Some s" by simp
    with inv_lanesD(1,2) [OF inv this] show ?thesis by (simp add: lane_base_def)
  qed
  then show ?thesis
    by (fastforce simp: list_all_iff conserving_def below_max_def comes_after_def
        elim: sorted_wrt_mono_rel [rotated])
qed

text \<open>
  C1. Every accepted command is accounted for exactly once: the sequence numbers handed out so far
  are those of the queued entries, of the running tasks and of the settled promises, each once; and
  a settled promise stays settled whatever happens next.
\<close>
theorem commands_settle_exactly_once:
  "mset [1..<nextQueueSequence (run_queue es)]
     = queued_seqs (run_queue es) + running_seqs (run_queue es) + settled_seqs (run_queue es) \<and>
   distinct (concat (map settled_seq (outputs (run_queue es)))) \<and>
   prefix (outputs (run_queue es)) (outputs (run_queue (es @ es')))"
proof -
  have sum: "mset [1..<nextQueueSequence (run_queue es)] =
      queued_seqs (run_queue es) + running_seqs (run_queue es) + settled_seqs (run_queue es)"
    using queue_inv_parts(3) [OF run_queue_inv [of es]] by (simp add: inv_seqs_def all_seqs_def)
  then have "settled_seqs (run_queue es) \<subseteq># mset [1..<nextQueueSequence (run_queue es)]" by simp
  then have "distinct (concat (map settled_seq (outputs (run_queue es))))"
    unfolding settled_seqs_def by (rule distinct_submset) simp
  moreover have "prefix (outputs (run_queue es)) (outputs (run_queue (es @ es')))"
    using queue_history.run_guar [OF run_queue_inv, of es es']
    by (simp add: run_queue_def queue_guar_def)
  ultimately show ?thesis using sum by simp
qed

text \<open>
  C31. No call, settlement or timer starts tasks beyond a lane's limit: whenever a step leaves a lane
  with more running tasks than before, it leaves at most \<^verbatim>\<open>maxConcurrent\<close> of them.
\<close>
theorem concurrency_is_bounded:
  assumes "js_get (lanes (run_queue (es @ [e]))) l = Some s"
    and "active_of (run_queue es) l < length (activeTaskIds s)"
  shows "js_le (Num (of_nat (length (activeTaskIds s)))) (maxConcurrent s)"
  using step_bounded [OF run_queue_inv, of es e] assms
  by (force simp: bounded_growth_def run_queue_def)

definition sample_opts :: enqueue_opts where
  "sample_opts = \<lparr>opt_warnAfterMs = None, opt_taskTimeoutMs = Some (Num 50), opt_priority = None,
                  opt_onWait = True\<rparr>"

definition sample_run :: "queue_event list" where
  "sample_run = [Enqueue 0 ''a'' 7 sample_opts, Enqueue 1 '' a'' 8 sample_opts,
                 Enqueue 2 ''a'' 9 (sample_opts\<lparr>opt_priority := Some Foreground\<rparr>)]"

lemma concurrency_is_bounded_witness:
  "js_le (Num (of_nat (length (activeTaskIds (the (js_get (lanes (run_queue
       ([] @ [Enqueue 0 ''a'' 7 sample_opts]))) ''a''))))))
     (maxConcurrent (the (js_get (lanes (run_queue ([] @ [Enqueue 0 ''a'' 7 sample_opts]))) ''a'')))"
proof (rule concurrency_is_bounded [of "[]" "Enqueue 0 ''a'' 7 sample_opts" "''a''"])
  show "js_get (lanes (run_queue ([] @ [Enqueue 0 ''a'' 7 sample_opts]))) ''a'' =
      Some (the (js_get (lanes (run_queue ([] @ [Enqueue 0 ''a'' 7 sample_opts]))) ''a''))"
    by code_simp
  show "active_of (run_queue []) ''a'' < length (activeTaskIds
      (the (js_get (lanes (run_queue ([] @ [Enqueue 0 ''a'' 7 sample_opts]))) ''a'')))"
    by code_simp
qed

text \<open>
  A new entry is placed behind every queued entry of the same or a higher priority and before
  every entry of a lower one, and the number of entries ahead that the caller is later told is the
  number of those.
\<close>
theorem enqueue_respects_priority:
  assumes "js_get (lanes (run_queue es)) l = Some s"
    and "sequence e = nextQueueSequence (run_queue es)"
  shows "queue (enqueueLaneEntry s e) =
      filter (\<lambda>x. priority e \<le> priority x) (queue s)
        @ e\<lparr>queuedAheadAtEnqueue := length (filter (\<lambda>x. priority e \<le> priority x) (queue s)),
            activeAheadAtEnqueue := length (activeTaskIds s)\<rparr>
        # filter (\<lambda>x. priority x < priority e) (queue s)"
proof -
  note inv = queue_inv_parts [OF run_queue_inv [of es]]
  have sorted: "sorted_wrt comes_after (queue s)"
    using inv_lanesD(1) [OF inv(1) assms(1)] by (simp add: lane_base_def)
  have lt: "\<forall>x \<in> set (queue s). sequence x < sequence e"
    using queued_lt [OF inv(3) assms(1)] by (simp add: assms(2))
  from enqueue_splits [OF sorted, of "placed s e"] lt enqueue_splits(2) [OF sorted, of e]
  show ?thesis by (simp add: queue_enqueueLaneEntry) (simp add: placed_def)
qed

lemma enqueue_respects_priority_witness:
  "queue (enqueueLaneEntry (the (js_get (lanes (run_queue sample_run)) ''a''))
     (make_entry 3 5 4 sample_opts)) =
   filter (\<lambda>x. 0 \<le> priority x) (queue (the (js_get (lanes (run_queue sample_run)) ''a'')))
     @ (make_entry 3 5 4 sample_opts)\<lparr>queuedAheadAtEnqueue := 2, activeAheadAtEnqueue := 1\<rparr> # []"
proof -
  have get: "js_get (lanes (run_queue sample_run)) ''a''
      = Some (the (js_get (lanes (run_queue sample_run)) ''a''))" by code_simp
  have seq: "sequence (make_entry 3 5 4 sample_opts) = nextQueueSequence (run_queue sample_run)"
    by code_simp
  note enqueue_respects_priority [OF get seq]
  moreover have "priority (make_entry 3 5 4 sample_opts) = 0" by code_simp
  moreover have "length (filter (\<lambda>x. 0 \<le> priority x)
      (queue (the (js_get (lanes (run_queue sample_run)) ''a'')))) = 2" by code_simp
  moreover have "length (activeTaskIds (the (js_get (lanes (run_queue sample_run)) ''a''))) = 1"
    by code_simp
  moreover have "filter (\<lambda>x. priority x < 0)
      (queue (the (js_get (lanes (run_queue sample_run)) ''a''))) = []" by code_simp
  ultimately show ?thesis by simp
qed

text \<open>
  C33. Progress: a lane whose limit is at least one always drains.  From any reachable state there is
  a sequence of settlements, one for each queued or running command, after which nothing is queued
  or running.
\<close>
theorem lane_always_drains:
  assumes "js_get (lanes (run_queue es)) l = Some s" and "js_less (Num 0) (maxConcurrent s)"
  shows "\<exists>is s'. js_get (lanes (fold (\<lambda>i. task_settled now i out) is (run_queue es))) l = Some s' \<and>
     queue s' = [] \<and> activeTaskIds s' = [] \<and> length is = getLaneDepth s"
  by (rule lane_drains_from [OF run_queue_inv assms])

lemma lane_always_drains_witness:
  "\<exists>is s'. js_get (lanes (fold (\<lambda>i. task_settled 5 i (Fulfilled 0)) is (run_queue sample_run))) ''a''
       = Some s' \<and> queue s' = [] \<and> activeTaskIds s' = [] \<and>
     length is = getLaneDepth (the (js_get (lanes (run_queue sample_run)) ''a''))"
proof (rule lane_always_drains)
  show "js_get (lanes (run_queue sample_run)) ''a''
      = Some (the (js_get (lanes (run_queue sample_run)) ''a''))" by code_simp
  show "js_less (Num 0) (maxConcurrent (the (js_get (lanes (run_queue sample_run)) ''a'')))"
    by code_simp
qed

text \<open>The resets of a lane: its own, and that of all lanes.\<close>

fun resets_lane :: "queue_event \<Rightarrow> string \<Rightarrow> bool" where
  "resets_lane (ResetLane now l) k \<longleftrightarrow> normalizeLane l = k"
| "resets_lane (ResetAll now) k \<longleftrightarrow> True"
| "resets_lane ev k \<longleftrightarrow> False"

lemma grown_generation:
  "queue_guar a b \<Longrightarrow> js_get (lanes a) k = Some s \<Longrightarrow> \<exists>s'. js_get (lanes b) k = Some s' \<and> generation s \<le> generation s'"
  unfolding queue_guar_def lane_grows_def by blast

lemma reset_raises_generation:
  assumes "queue_inv st" and "resets_lane ev k" and "js_get (lanes st) k = Some s"
  shows "\<exists>s'. js_get (lanes (queue_step ev st)) k = Some s' \<and> generation s < generation s'"
proof -
  have raised: "\<exists>s'. js_get (lanes b) k = Some s' \<and> generation s < generation s'"
    if "queue_guar a b" "js_get (lanes a) k = Some (reset_lane s)" for a b
    using grown_generation [OF that] by (auto simp: Suc_le_eq)
  show ?thesis
    using assms(2)
  proof (cases ev)
    case (ResetLane now l)
    then have k: "normalizeLane l = k" using assms(2) by simp
    let ?st = "put_lane k (reset_lane s) st"
    let ?st2 = "if queue s \<noteq> [] then drainLane now k ?st else ?st"
    have core: "core_inv {} ?st2" using resetCommandLane_drained [of st k s now] assms(1,3) by simp
    have "queue_guar ?st ?st2"
      using drain_guar [OF resetCommandLane_ids [OF assms(1,3)]] queue_guar_refl by simp
    moreover have "queue_guar ?st2 (notifyActiveTaskWaiters ?st2)"
      using core by (intro notify_guar) (simp add: core_inv_def)
    ultimately have "queue_guar ?st (notifyActiveTaskWaiters ?st2)" by (rule queue_guar_trans)
    moreover have "queue_step ev st = notifyActiveTaskWaiters ?st2"
      using ResetLane k assms(3) by (simp add: resetCommandLane_def Let_def)
    ultimately show ?thesis using raised [of ?st] by (simp add: lane_simps)
  next
    case (ResetAll now)
    note core = resetAll_core [OF assms(1)] and open' = resetAll_open [OF assms(1)]
    have "waiter_ids_ok (fold (drainLane now) (lanes_to_drain st) (reset_all st))"
      using drain_all_core [OF core open', of now] by (simp add: core_inv_def)
    then have "queue_guar (reset_all st) (queue_step ev st)"
      using queue_guar_trans [OF drain_all_guar [OF core open', of now] notify_guar] ResetAll by (simp add: resetAllLanes_eq)
    then show ?thesis using raised [of "reset_all st"] assms(3) by (simp add: get_reset_all)
  qed simp_all
qed

text \<open>A task of an earlier generation ends, by itself or by its timer: no lane is touched.\<close>

lemma stale_finish:
  assumes "queue_inv st" and "r \<in> set (inflight st)" and "js_get (lanes st) (run_lane r) = Some s" and "run_generation r < generation s"
  shows "lanes (finish_task now r out st) = lanes st"
    and "outputs (finish_task now r out st) = outputs st @ [Settled (sequence (run_entry r)) out]"
proof -
  have "lanes (finish_task now r out st) = lanes st \<and>
      outputs (finish_task now r out st) = outputs st @ [Settled (sequence (run_entry r)) out]"
    using queue_inv_parts(2) [OF assms(1)] assms(2)
  proof (cases rule: finish_task_cases [where now = now and out = out])
    case (stale x)
    then show ?thesis by (simp add: emit_frame dropped_frame)
  next
    case (current x)
    then show ?thesis using assms(3,4) by simp
  qed
  then show "lanes (finish_task now r out st) = lanes st"
    and "outputs (finish_task now r out st) = outputs st @ [Settled (sequence (run_entry r)) out]" by simp_all
qed

lemma stale_timer:
  assumes "queue_inv st" and "find_run i st = Some r" and "js_get (lanes st) (run_lane r) = Some s" and "run_generation r < generation s"
  shows "lanes (timer_fired now i progress st) = lanes st"
    and "outputs (timer_fired now i progress st) = outputs st
      \<or> (\<exists>t. outputs (timer_fired now i progress st)
            = outputs st @ [Settled (sequence (run_entry r)) (Failed (CommandLaneTaskTimeoutError (run_lane r) t))])"
  using stale_finish [OF assms(1) _ assms(3,4)] find_run_in [OF assms(2)] assms(2)
  by (auto simp: timer_fired_def split: option.split)

lemma find_run_unique:
  assumes "inv_ids st" and "r \<in> set (inflight st)"
  shows "find_run (run_taskId r) st = Some r"
proof -
  have "find_run (run_taskId r) st \<noteq> None" using assms(2) by (auto simp: find_run_def find_None_iff)
  then obtain r' where r': "find_run (run_taskId r) st = Some r'" by blast
  then show ?thesis using find_run_in [OF r'] run_unique [OF assms(1) _ assms(2)] by blast
qed

text \<open>
  C32. A lane reset disowns the running tasks: a task started before \<^verbatim>\<open>resetCommandLane\<close> or
  \<^verbatim>\<open>resetAllLanes\<close> keeps running.  Whatever happens after the reset and before it ends, it ends, by
  itself or by its timeout, with no lane touched, so that it cannot free capacity that the new
  generation is using; its promise is settled with its outcome, or had been settled when it ended
  before.
\<close>
theorem reset_disowns_running_tasks:
  assumes "r \<in> set (inflight (run_queue es))" and "resets_lane ev (run_lane r)"
    and "st = run_queue (es @ ev # es')"
  shows "case find_run (run_taskId r) st of
      None \<Rightarrow> \<exists>o'. Settled (sequence (run_entry r)) o' \<in> set (outputs st)
    | Some r' \<Rightarrow> same_run r r' \<and>
        lanes (task_settled later (run_taskId r) out st) = lanes st \<and>
        outputs (task_settled later (run_taskId r) out st) = outputs st @ [Settled (sequence (run_entry r)) out] \<and>
        lanes (timer_fired later (run_taskId r) progress st) = lanes st \<and>
        (outputs (timer_fired later (run_taskId r) progress st) = outputs st \<or>
         (\<exists>t. outputs (timer_fired later (run_taskId r) progress st)
            = outputs st @ [Settled (sequence (run_entry r)) (Failed (CommandLaneTaskTimeoutError (run_lane r) t))]))"
proof -
  let ?before = "run_queue es"
  note inv = run_queue_inv [of es]
  have st: "st = fold queue_step es' (queue_step ev ?before)" using assms(3) by (simp add: run_queue_def)
  have st_inv: "queue_inv st" using run_queue_inv assms(3) by simp
  note ids = queue_inv_parts(2) [OF inv] and st_ids = queue_inv_parts(2) [OF st_inv]
  from inv_ids_run(2) [OF ids assms(1)] obtain s where
    s: "js_get (lanes ?before) (run_lane r) = Some s" "run_generation r \<le> generation s" by blast
  from reset_raises_generation [OF inv assms(2) s(1)] obtain s1 where
    s1: "js_get (lanes (queue_step ev ?before)) (run_lane r) = Some s1" "generation s < generation s1" by blast
  have "queue_guar (queue_step ev ?before) st"
    unfolding st by (rule queue_history.run_guar [OF queue_machine.step_inv [OF inv]])
  from grown_generation [OF this s1(1)] s(2) s1(2) obtain s2 where
    s2: "js_get (lanes st) (run_lane r) = Some s2" "run_generation r < generation s2" by auto
  have "queue_guar ?before st"
    using queue_history.run_guar [OF inv, of "ev # es'"] by (simp add: st)
  then have kept: "runs_kept ?before st" by (simp add: queue_guar_def)
  show ?thesis
  proof (cases "find_run (run_taskId r) st")
    case None
    have "\<not> runs_on st r"
      using None same_run_fields(1) by (auto simp: runs_on_def find_run_def find_None_iff)
    then have "run_settled st r" using kept assms(1) unfolding runs_kept_def by blast
    then show ?thesis using None by (simp add: run_settled_def)
  next
    case (Some r')
    note in' = find_run_in [OF Some]
    have "run_taskId r < nextTaskId ?before" using inv_ids_run(1) [OF ids assms(1)] .
    then obtain r0 where r0: "r0 \<in> set (inflight ?before)" "same_run r0 r'"
      using kept in' unfolding runs_kept_def by auto
    have "r0 = r" using run_unique [OF ids r0(1) assms(1)] same_run_fields(1) [OF r0(2)] in' by simp
    then have same: "same_run r r'" using r0(2) by simp
    note f = same_run_fields [OF same]
    have gen: "js_get (lanes st) (run_lane r') = Some s2" "run_generation r' < generation s2" using s2 f by simp_all
    have "task_settled later (run_taskId r) out st = finish_task later r' out st" using Some by (simp add: task_settled_def)
    then show ?thesis
      using stale_finish [OF st_inv conjunct1 [OF in'] gen, of later out] stale_timer [OF st_inv Some gen, of later progress]
        Some same f(2,3) by simp
  qed
qed

definition started_run :: task_run where
  "started_run = hd (inflight (run_queue sample_run))"

text \<open>The lane is reset and filled again while the task of the earlier generation runs; then the task ends.\<close>

definition refilled_run :: "queue_event list" where
  "refilled_run = sample_run @ ResetLane 5 ''a'' # [Enqueue 6 ''a'' 7 sample_opts]"

lemma reset_disowns_running_tasks_witness:
  "lanes (task_settled 9 (run_taskId started_run) (Fulfilled 3) (run_queue refilled_run)) = lanes (run_queue refilled_run) \<and>
   lanes (timer_fired 99 (run_taskId started_run) None (run_queue refilled_run)) = lanes (run_queue refilled_run) \<and>
   outputs (task_settled 9 (run_taskId started_run) (Fulfilled 3) (run_queue refilled_run))
     = outputs (run_queue refilled_run) @ [Settled (sequence (run_entry started_run)) (Fulfilled 3)]"
proof -
  have r: "started_run \<in> set (inflight (run_queue sample_run))" by code_simp
  have e: "resets_lane (ResetLane 5 ''a'') (run_lane started_run)" by code_simp
  have "map_option run_taskId (find_run (run_taskId started_run) (run_queue refilled_run)) = Some (run_taskId started_run)" by code_simp
  then obtain r' where "find_run (run_taskId started_run) (run_queue refilled_run) = Some r'" by auto
  then show ?thesis
    using reset_disowns_running_tasks [OF r e refilled_run_def [THEN arg_cong [where f = run_queue]], of 99 "Fulfilled 3" None]
      reset_disowns_running_tasks [OF r e refilled_run_def [THEN arg_cong [where f = run_queue]], of 9 "Fulfilled 3" None] by simp
qed

text \<open>
  Nobody waits for nothing: in every reachable state each registered waiter of
  \<^verbatim>\<open>waitForActiveTasks\<close> still has one of the tasks it captured running in some lane (so once those
  tasks have ended, or a reset has disowned them, the waiter has been resolved).
\<close>
theorem waiters_wait_for_active_tasks:
  "list_all (\<lambda>w. hasPendingActiveTasks (waiter_taskIds w) (run_queue es))
     (activeTaskWaiters (run_queue es))"
  using queue_inv_parts(4) [OF run_queue_inv [of es]] by (simp add: inv_waiters_iff list_all_iff)

lemma pump_inflight:
  assumes "pre_inv X a" and "js_get (lanes a) l = Some s" and "r \<in> set (inflight (pump now l a))"
  shows "r \<in> set (inflight a) \<or> nextTaskId a \<le> run_taskId r"
proof -
  have "inv_ids a" using assms(1) by (simp add: pre_inv_def)
  from pump_spec [OF assms(2) active_lt [OF this assms(2)], of now] obtain k where
    "pump now l a = pumped now l s k a" by blast
  with assms(3) set_started_runs show ?thesis by (auto simp: lane_simps)
qed

lemma finish_forgets:
  assumes "queue_inv st" and "r \<in> set (inflight st)"
  shows "find_run (run_taskId r) (finish_task now r out st) = None"
proof -
  have ids: "inv_ids st" by (rule queue_inv_parts [OF assms(1)])
  have "run_taskId x \<noteq> run_taskId r" if "x \<in> set (inflight (finish_task now r out st))" for x
    using ids assms(2)
  proof (cases rule: finish_task_cases [where now = now and out = out])
    case (stale s)
    with that show ?thesis by (simp add: lane_simps)
  next
    case (current s)
    let ?st = "put_lane (run_lane r) (completed r s) (dropped r st)"
    have pre: "pre_inv {run_lane r} ?st" by (rule finish_current_pre(1) [OF assms current(1,2)])
    then have w: "waiter_ids_ok ?st" by (simp add: pre_inv_def)
    have "js_get (lanes (notifyActiveTaskWaiters ?st)) (run_lane r) = Some (completed r s)"
      by (simp add: notify_frame [OF w] lane_simps)
    from pump_inflight [OF notify_pre(1) [OF pre] this, of x now] that
    have "x \<in> set (inflight (dropped r st)) \<or> nextTaskId st \<le> run_taskId x"
      unfolding current(4) by (simp add: emit_frame notify_frame [OF w] put_lane_frame dropped_frame)
    with inv_ids_run(1) [OF ids assms(2)] show ?thesis by (auto simp: dropped_frame)
  qed
  then show ?thesis by (simp add: find_run_def find_None_iff)
qed

text \<open>
  A task times out by inactivity, not by age: when its timer fires within the timeout of the last
  reported progress (or of its start), nothing is settled and the timer is set to the moment the
  timeout of that progress runs out; when it fires later, the task's promise is rejected and the task
  is forgotten.
\<close>
theorem timeout_measures_inactivity:
  assumes "find_run i (run_queue es) = Some r" and "run_timer r = Some due"
    and "taskTimeoutMs (run_entry r) = Some t" and "1 \<le> t"
    and "last_progress = readLastProgressAtMs (run_startedAt r) progress"
  shows "if now - last_progress < t
     then outputs (timer_fired now i progress (run_queue es)) = outputs (run_queue es) \<and>
       map_option run_timer (find_run i (timer_fired now i progress (run_queue es)))
         = Some (Some (min now last_progress + t))
     else find_run i (timer_fired now i progress (run_queue es)) = None \<and>
       last (outputs (timer_fired now i progress (run_queue es)))
         = Settled (sequence (run_entry r)) (Failed (CommandLaneTaskTimeoutError (run_lane r) t))"
proof (cases "now - last_progress < t")
  case True
  with assms(4,5) have arm: "armTimeout t (run_startedAt r) now progress = Some (min now last_progress + t)"
    by (auto simp: armTimeout_def Let_def)
  have find_map: "find_run i (st\<lparr>inflight := map (\<lambda>x. if run_taskId x = i then x\<lparr>run_timer := d\<rparr> else x) rs\<rparr>)
      = map_option (\<lambda>x. x\<lparr>run_timer := d\<rparr>) (List.find (\<lambda>r. run_taskId r = i) rs)" for st d rs
    by (induction rs) (auto simp: find_run_def)
  show ?thesis
    using True assms(1) by (simp add: timer_fired_def assms(2,3) arm find_map) (simp add: find_run_def)
next
  case False
  with assms(5) have "armTimeout t (run_startedAt r) now progress = None"
    by (auto simp: armTimeout_def Let_def)
  with assms have eq: "timer_fired now i progress (run_queue es) =
      finish_task now r (Failed (CommandLaneTaskTimeoutError (run_lane r) t)) (run_queue es)"
    by (simp add: timer_fired_def)
  have "r \<in> set (inflight (run_queue es))" "run_taskId r = i" using find_run_in [OF assms(1)] by auto
  with finish_forgets [OF run_queue_inv] False show ?thesis
    by (auto simp: eq finish_task_def Let_def emit_frame)
qed

lemma timeout_measures_inactivity_witness:
  "find_run 1 (timer_fired 99 1 (Some (Num 40)) (run_queue sample_run)) = None"
proof -
  have "find_run 1 (run_queue sample_run) = Some started_run" "run_timer started_run = Some 50"
    "taskTimeoutMs (run_entry started_run) = Some 50" "(1::int) \<le> 50"
    "40 = readLastProgressAtMs (run_startedAt started_run) (Some (Num 40))" by code_simp+
  from timeout_measures_inactivity [OF this, of 99] show ?thesis by simp
qed

section \<open>The schema migration of the singleton\<close>

text \<open>
  \<^verbatim>\<open>getQueueState\<close> patches a state left behind by an older version of the module on every access:
  an entry may lack its priority, sequence and counters.  \<^const>\<open>None\<close> is a missing field.
\<close>

record legacy_entry =
  old_entry :: queue_entry
  old_priority :: "int option"
  old_sequence :: "nat option"
  old_queuedAhead :: "nat option"
  old_activeAhead :: "nat option"

definition migrate_entry :: "nat \<Rightarrow> nat \<Rightarrow> legacy_entry \<Rightarrow> nat \<times> nat \<Rightarrow> queue_entry \<times> nat \<times> nat" where
  "migrate_entry active index e c =
     (let (seq, next', maxq) =
            (case old_sequence e of
               None \<Rightarrow> (fst c, Suc (fst c), snd c)
             | Some q \<Rightarrow> (q, fst c, max (snd c) q))
      in ((old_entry e)\<lparr>priority := or_default (old_priority e) 0, sequence := seq,
            queuedAheadAtEnqueue := or_default (old_queuedAhead e) index,
            activeAheadAtEnqueue := or_default (old_activeAhead e) active\<rparr>, next', maxq))"

fun migrate_queue :: "nat \<Rightarrow> nat \<Rightarrow> legacy_entry list \<Rightarrow> nat \<times> nat \<Rightarrow> queue_entry list \<times> nat \<times> nat" where
  "migrate_queue active index [] c = ([], c)"
| "migrate_queue active index (e # q) c =
     (let (e', c1) = migrate_entry active index e c;
          (q', c2) = migrate_queue active (Suc index) q c1
      in (e' # q', c2))"

fun migrate_lanes ::
  "(string \<times> legacy_entry list \<times> lane_state) list \<Rightarrow> nat \<times> nat
     \<Rightarrow> (string, lane_state) js_map \<times> nat \<times> nat" where
  "migrate_lanes [] c = ([], c)"
| "migrate_lanes ((l, q, s) # ls) c =
     (let (q', c1) = migrate_queue (length (activeTaskIds s)) 0 q c;
          (ls', c2) = migrate_lanes ls c1
      in ((l, s\<lparr>queue := q'\<rparr>) # ls', c2))"

definition migrate_queue_state ::
  "nat option \<Rightarrow> active_waiter list option \<Rightarrow> (string \<times> legacy_entry list \<times> lane_state) list
     \<Rightarrow> queue_state \<Rightarrow> queue_state" where
  "migrate_queue_state seq waiters ls st =
     (let n = (case seq of None \<Rightarrow> 1 | Some q \<Rightarrow> if q = 0 then 1 else q);
          (lanes', n', maxq) = migrate_lanes ls (n, n - 1)
      in st\<lparr>activeTaskWaiters := or_default waiters [], lanes := lanes',
             nextQueueSequence := (if n' \<le> maxq then maxq + 1 else n')\<rparr>)"

definition current_entry :: "queue_entry \<Rightarrow> legacy_entry" where
  "current_entry e = \<lparr>old_entry = e, old_priority = Some (priority e), old_sequence = Some (sequence e),
     old_queuedAhead = Some (queuedAheadAtEnqueue e), old_activeAhead = Some (activeAheadAtEnqueue e)\<rparr>"

lemma migrate_current_queue:
  "\<forall>e \<in> set q. sequence e \<le> m \<Longrightarrow> migrate_queue a i (map current_entry q) (n, m) = (q, n, m)"
  by (induction q arbitrary: i) (simp_all add: migrate_entry_def current_entry_def max.absorb1)

lemma migrate_current_lanes:
  "\<forall>(l, s) \<in> set ls. \<forall>e \<in> set (queue s). sequence e \<le> m \<Longrightarrow>
     migrate_lanes (map (\<lambda>(l, s). (l, map current_entry (queue s), s)) ls) (n, m) = (ls, n, m)"
  by (induction ls) (auto simp: migrate_current_queue)

text \<open>
  The migration that runs on every access is invisible to the current version: applied to any
  reachable state it returns that state.
\<close>
theorem migration_is_identity:
  "migrate_queue_state (Some (nextQueueSequence (run_queue es)))
     (Some (activeTaskWaiters (run_queue es)))
     (map (\<lambda>(l, s). (l, map current_entry (queue s), s)) (lanes (run_queue es))) (run_queue es)
   = run_queue es"
proof -
  let ?st = "run_queue es"
  note inv = queue_inv_parts [OF run_queue_inv [of es]]
  have pos: "1 \<le> nextQueueSequence ?st" using inv(3) by (simp add: inv_seqs_def)
  have "\<forall>(l, s) \<in> set (lanes ?st). \<forall>e \<in> set (queue s). sequence e \<le> nextQueueSequence ?st - 1"
  proof (clarify)
    fix l s e assume "(l, s) \<in> set (lanes ?st)" and e: "e \<in> set (queue s)"
    with inv_lanesD(3) [OF inv(1)] have "js_get (lanes ?st) l = Some s" by simp
    from queued_lt [OF inv(3) this e] show "sequence e \<le> nextQueueSequence ?st - 1" by simp
  qed
  from migrate_current_lanes [OF this, of "nextQueueSequence ?st"] pos show ?thesis
    by (simp add: migrate_queue_state_def Let_def)
qed

end
