(* ===== verification/SessionKey.thy ===== *)
theory SessionKey
  imports JsRuntime
begin

text \<open>
  Session keys: \<^verbatim>\<open>src/routing/account-id.ts\<close>, \<^verbatim>\<open>src/sessions/session-key-utils.ts\<close>,
  \<^verbatim>\<open>src/routing/session-key.ts\<close> and \<^verbatim>\<open>src/channels/chat-type.ts\<close>.  Keys are colon-separated
  strings \<^verbatim>\<open>agent:<id>:<rest>\<close>, folded to lower case except for the opaque peer ids of channels
  that own case-sensitive ids.  An absent or null string is \<^const>\<open>None\<close>.  The regular expressions
  are written out as the scans they perform.
\<close>

section \<open>Characters and identifiers\<close>

definition is_lower_alnum :: "char \<Rightarrow> bool" where
  "is_lower_alnum c \<longleftrightarrow> (let n = (of_char c :: nat) in 97 \<le> n \<and> n \<le> 122 \<or> 48 \<le> n \<and> n \<le> 57)"

definition is_id_char :: "char \<Rightarrow> bool" where
  "is_id_char c \<longleftrightarrow> is_lower_alnum c \<or> c = CHR ''_'' \<or> c = CHR ''-''"

definition ascii_lower :: "char \<Rightarrow> char" where
  "ascii_lower c = (let n = (of_char c :: nat) in if 65 \<le> n \<and> n \<le> 90 then char_of (n + 32) else c)"

definition is_id_char_ci :: "char \<Rightarrow> bool" where
  "is_id_char_ci c \<longleftrightarrow> is_id_char (ascii_lower c)"

text \<open>\<^verbatim>\<open>VALID_ID_RE\<close>: \<^verbatim>\<open>/^[a-z0-9][a-z0-9_-]{0,63}$/i\<close>.\<close>

definition valid_id :: "string \<Rightarrow> bool" where
  "valid_id s \<longleftrightarrow> s \<noteq> [] \<and> is_lower_alnum (ascii_lower (hd s)) \<and>
     list_all is_id_char_ci s \<and> length s \<le> 64"

text \<open>
  \<^verbatim>\<open>replace(/[^a-z0-9_-]+/g, "-")\<close>: each maximal run of other characters becomes one dash; the flag
  says whether the scan is inside a run.
\<close>

fun collapse_invalid :: "bool \<Rightarrow> string \<Rightarrow> string" where
  "collapse_invalid in_run [] = []"
| "collapse_invalid in_run (c # s) =
     (if is_id_char c then c # collapse_invalid False s
      else if in_run then collapse_invalid True s else CHR ''-'' # collapse_invalid True s)"

definition strip_leading_dash :: "string \<Rightarrow> string" where
  "strip_leading_dash s = dropWhile (\<lambda>c. c = CHR ''-'') s"

definition strip_trailing_dash :: "string \<Rightarrow> string" where
  "strip_trailing_dash s = rev (dropWhile (\<lambda>c. c = CHR ''-'') (rev s))"

definition fallback_id :: "string \<Rightarrow> string" where
  "fallback_id s = take 64 (strip_trailing_dash (strip_leading_dash (collapse_invalid False s)))"

section \<open>Account ids\<close>

definition isBlockedObjectKey :: "string \<Rightarrow> bool" where
  "isBlockedObjectKey k \<longleftrightarrow> k \<in> {''__proto__'', ''prototype'', ''constructor''}"

definition canonicalizeAccountId :: "string \<Rightarrow> string" where
  "canonicalizeAccountId v =
     (let normalized = normalizeLowercaseStringOrEmpty (Some v) in
      if valid_id v then normalized else fallback_id normalized)"

definition normalizeCanonicalAccountId :: "string \<Rightarrow> string option" where
  "normalizeCanonicalAccountId v =
     (let canonical = canonicalizeAccountId v in
      if canonical = [] \<or> isBlockedObjectKey canonical then None else Some canonical)"

definition DEFAULT_ACCOUNT_ID :: string where
  "DEFAULT_ACCOUNT_ID = ''default''"

definition account_id_of :: "string \<Rightarrow> string" where
  "account_id_of t = or_default (normalizeCanonicalAccountId t) DEFAULT_ACCOUNT_ID"

definition normalizeAccountId :: "string option \<Rightarrow> string" where
  "normalizeAccountId v =
     (let t = js_trim (or_default v []) in if t = [] then DEFAULT_ACCOUNT_ID else account_id_of t)"

definition normalizeOptionalAccountId :: "string option \<Rightarrow> string option" where
  "normalizeOptionalAccountId v =
     (let t = js_trim (or_default v []) in if t = [] then None else normalizeCanonicalAccountId t)"

text \<open>The FIFO bound \<^verbatim>\<open>setNormalizeCache\<close> puts on both caches.\<close>

definition ACCOUNT_ID_CACHE_MAX :: nat where
  "ACCOUNT_ID_CACHE_MAX = 512"

definition evict_oldest :: "('k, 'v) js_map \<Rightarrow> ('k, 'v) js_map" where
  "evict_oldest c =
     (if length c \<le> ACCOUNT_ID_CACHE_MAX then c
      else (case c of [] \<Rightarrow> [] | (k, _) # _ \<Rightarrow> js_delete k c))"

definition normalizeAccountId_cached ::
  "string option \<Rightarrow> (string, string) js_map \<Rightarrow> string \<times> (string, string) js_map" where
  "normalizeAccountId_cached v c =
     (let t = js_trim (or_default v []) in
      if t = [] then (DEFAULT_ACCOUNT_ID, c) else memo_call evict_oldest account_id_of t c)"

definition normalizeOptionalAccountId_cached ::
  "string option \<Rightarrow> (string, string option) js_map \<Rightarrow> string option \<times> (string, string option) js_map" where
  "normalizeOptionalAccountId_cached v c =
     (let t = js_trim (or_default v []) in
      if t = [] then (None, c) else memo_call evict_oldest normalizeCanonicalAccountId t c)"

interpretation account_cache: memo_bound evict_oldest
  by unfold_locales (auto simp: evict_oldest_def dest: subsetD [OF set_js_delete_subset]
      split: list.splits)

section \<open>Case-preserving peers\<close>

datatype chat_type = Direct | Group | Channel

definition normalizeChatType :: "string option \<Rightarrow> chat_type option" where
  "normalizeChatType raw =
     (case normalizeOptionalLowercaseString raw of
        None \<Rightarrow> None
      | Some v \<Rightarrow>
          if v = ''direct'' \<or> v = ''dm'' then Some Direct
          else if v = ''group'' then Some Group
          else if v = ''channel'' then Some Channel
          else None)"

fun chat_type_name :: "chat_type \<Rightarrow> string" where
  "chat_type_name Direct = ''direct''"
| "chat_type_name Group = ''group''"
| "chat_type_name Channel = ''channel''"

datatype peer_span = SegmentSpan | TailSpan

record peer_descriptor =
  pd_channel :: string
  pd_peerKinds :: "string list"
  pd_span :: peer_span
  pd_unscoped :: bool

definition CASE_PRESERVING_PEERS :: "peer_descriptor list" where
  "CASE_PRESERVING_PEERS =
     [\<lparr>pd_channel = ''signal'', pd_peerKinds = [''group''], pd_span = SegmentSpan, pd_unscoped = True\<rparr>,
      \<lparr>pd_channel = ''matrix'', pd_peerKinds = [''channel'', ''group''], pd_span = TailSpan,
       pd_unscoped = True\<rparr>]"

definition findCasePreservingPeerDescriptor ::
  "string option \<Rightarrow> string option \<Rightarrow> peer_descriptor option" where
  "findCasePreservingPeerDescriptor channel peerKind =
     (let c = normalizeLowercaseStringOrEmpty channel;
          k = normalizeLowercaseStringOrEmpty peerKind
      in List.find (\<lambda>d. pd_channel d = c \<and> k \<in> set (pd_peerKinds d)) CASE_PRESERVING_PEERS)"

definition isCasePreservingPeer :: "string option \<Rightarrow> string option \<Rightarrow> bool" where
  "isCasePreservingPeer channel peerKind \<longleftrightarrow>
     findCasePreservingPeerDescriptor (Some (normalizeLowercaseStringOrEmpty channel))
       (Some (normalizeLowercaseStringOrEmpty peerKind)) \<noteq> None"

definition normalizeSessionPeerId ::
  "string option \<Rightarrow> string option \<Rightarrow> string option \<Rightarrow> string" where
  "normalizeSessionPeerId channel peerKind peerId =
     (let p = js_trim (or_default peerId []) in
      if p = [] then []
      else if isCasePreservingPeer channel peerKind then p
      else normalizeLowercaseStringOrEmpty (Some p))"

definition mayContainCasePreservingPeer :: "string \<Rightarrow> bool" where
  "mayContainCasePreservingPeer raw =
     list_ex (\<lambda>d. js_includes (js_lower raw) (pd_channel d @ '':'')) CASE_PRESERVING_PEERS"

section \<open>Preserved spans\<close>

text \<open>A span is its start, its end and whether the preserved text is trimmed.\<close>

type_synonym span = "nat \<times> nat \<times> bool"

definition starts_ci :: "string \<Rightarrow> string \<Rightarrow> bool" where
  "starts_ci s p \<longleftrightarrow> starts_with (js_lower s) p"

definition colon_free :: "string \<Rightarrow> string" where
  "colon_free s = takeWhile (\<lambda>c. c \<noteq> CHR '':'') s"

text \<open>
  The matches of \<^verbatim>\<open>/(^|:)<head>([^:]+)/gi\<close> from position \<open>i\<close>, where \<open>s\<close> is the text from there;
  each match continues after its segment.
\<close>

definition segment_match :: "string \<Rightarrow> nat \<Rightarrow> string \<Rightarrow> (nat \<times> nat) option" where
  "segment_match head i s =
     (let n = (if i = 0 \<and> starts_ci s head then length head
               else if starts_ci s ('':'' @ head) then Suc (length head) else 0);
          seg = colon_free (drop n s)
      in if n = 0 \<or> seg = [] then None else Some (n, length seg))"

function segment_spans :: "string \<Rightarrow> nat \<Rightarrow> string \<Rightarrow> span list" where
  "segment_spans head i [] = []"
| "segment_spans head i (c # s) =
     (case segment_match head i (c # s) of
        None \<Rightarrow> segment_spans head (Suc i) s
      | Some (n, k) \<Rightarrow> (i + n, i + n + k, True) # segment_spans head (i + n + k) (drop (n + k) (c # s)))"
  by pat_completeness auto
termination
  by (relation "measure (\<lambda>(head, i, s). length s)")
     (auto simp: segment_match_def Let_def split: if_splits)

text \<open>\<^verbatim>\<open>collectTailSpan\<close>: the tail of the key, less its structural thread marker.\<close>

definition tail_spans :: "string \<Rightarrow> nat \<Rightarrow> span list" where
  "tail_spans raw tailStart =
     (if length raw \<le> tailStart then []
      else (case js_last_index_of (normalizeLowercaseStringOrEmpty (Some (drop tailStart raw)))
                   '':thread:'' of
              None \<Rightarrow> [(tailStart, length raw, False)]
            | Some m \<Rightarrow>
                (tailStart, tailStart + m, False)
                # (let threadIdStart = tailStart + m + 8 in
                   if threadIdStart < length raw then [(threadIdStart, length raw, False)] else [])))"

text \<open>The length of \<^verbatim>\<open>/^agent:[^:]+:<head>/i\<close>, when it matches.\<close>

definition scoped_head :: "string \<Rightarrow> string \<Rightarrow> nat option" where
  "scoped_head head raw =
     (let a = colon_free (drop 6 raw); n = 6 + length a in
      if starts_ci raw ''agent:'' \<and> a \<noteq> [] \<and> starts_ci (drop n raw) ('':'' @ head)
      then Some (n + 1 + length head) else None)"

definition kind_spans :: "string \<Rightarrow> peer_descriptor \<Rightarrow> string \<Rightarrow> span list" where
  "kind_spans raw d kind =
     (let head = pd_channel d @ '':'' @ kind @ '':'' in
      case pd_span d of
        SegmentSpan \<Rightarrow> segment_spans head 0 raw
      | TailSpan \<Rightarrow>
          (case scoped_head head raw of
             Some n \<Rightarrow> tail_spans raw n
           | None \<Rightarrow>
               if pd_unscoped d \<and> starts_ci raw head then tail_spans raw (length head) else []))"

definition collectCasePreservedSpans :: "string \<Rightarrow> span list" where
  "collectCasePreservedSpans raw =
     concat (map (\<lambda>d. concat (map (kind_spans raw d) (pd_peerKinds d))) CASE_PRESERVING_PEERS)"

text \<open>The emission loop: lower case outside the union of the spans, verbatim inside.\<close>

definition slice :: "nat \<Rightarrow> nat \<Rightarrow> string \<Rightarrow> string" where
  "slice i j s = take (j - i) (drop i s)"

fun emit_spans :: "string \<Rightarrow> nat \<Rightarrow> span list \<Rightarrow> string" where
  "emit_spans raw cursor [] = normalizeLowercaseStringOrEmpty (Some (drop cursor raw))"
| "emit_spans raw cursor ((st, en, tr) # spans) =
     (if st < cursor then emit_spans raw cursor spans
      else normalizeLowercaseStringOrEmpty (Some (slice cursor st raw))
        @ (if tr then js_trim (slice st en raw) else slice st en raw)
        @ emit_spans raw en spans)"

definition sorted_spans :: "string \<Rightarrow> span list" where
  "sorted_spans raw =
     sort_key fst (filter (\<lambda>(st, en, _). st < en) (collectCasePreservedSpans raw))"

definition fold_session_key :: "string \<Rightarrow> string" where
  "fold_session_key raw =
     (if \<not> mayContainCasePreservingPeer raw then js_lower raw
      else emit_spans raw 0 (sorted_spans raw))"

definition normalizeSessionKeyPreservingOpaquePeerIds :: "string option \<Rightarrow> string" where
  "normalizeSessionKeyPreservingOpaquePeerIds sessionKey =
     (case normalizeOptionalString sessionKey of None \<Rightarrow> [] | Some raw \<Rightarrow> fold_session_key raw)"

text \<open>The same function behind its bounded cache.\<close>

definition evict_to_limit :: "('k, 'v) js_map \<Rightarrow> ('k, 'v) js_map" where
  "evict_to_limit c = drop (length c - 2048) c"

definition normalizeSessionKey_cached ::
  "string option \<Rightarrow> (string, string) js_map \<Rightarrow> string \<times> (string, string) js_map" where
  "normalizeSessionKey_cached sessionKey c =
     (case normalizeOptionalString sessionKey of
        None \<Rightarrow> ([], c)
      | Some raw \<Rightarrow>
          if length raw \<le> 4096 then memo_call evict_to_limit fold_session_key raw c
          else (fold_session_key raw, c))"

interpretation session_key_cache: memo_bound evict_to_limit
  by unfold_locales (auto simp: evict_to_limit_def dest: in_set_dropD)

section \<open>Parsing\<close>

record agent_key =
  ak_agentId :: string
  ak_rest :: string

definition nonempty_parts :: "string \<Rightarrow> string list" where
  "nonempty_parts s = filter (\<lambda>w. w \<noteq> []) (js_split (CHR '':'') s)"

definition parse_folded :: "string \<Rightarrow> agent_key option" where
  "parse_folded raw =
     (if raw = [] then None
      else (let parts = nonempty_parts raw in
        if length parts < 3 then None
        else if hd parts \<noteq> ''agent'' then None
        else (case normalizeOptionalString (Some (parts ! 1)) of
                None \<Rightarrow> None
              | Some agentId \<Rightarrow>
                  (let rest = js_join '':'' (drop 2 parts) in
                   if rest = [] then None else Some \<lparr>ak_agentId = agentId, ak_rest = rest\<rparr>))))"

definition parseAgentSessionKey :: "string option \<Rightarrow> agent_key option" where
  "parseAgentSessionKey sessionKey =
     parse_folded (normalizeSessionKeyPreservingOpaquePeerIds sessionKey)"

text \<open>\<^verbatim>\<open>/^cron:[^:]+:run:[^:]+(?::|$)/\<close>; both segments are maximal, so the last group always matches.\<close>

definition is_cron_run :: "string \<Rightarrow> bool" where
  "is_cron_run rest \<longleftrightarrow>
     (let job = colon_free (drop 5 rest); tl1 = drop (5 + length job) rest in
      starts_with rest ''cron:'' \<and> job \<noteq> [] \<and> starts_with tl1 '':run:'' \<and>
      colon_free (drop 5 tl1) \<noteq> [])"

definition isCronRunSessionKey :: "string option \<Rightarrow> bool" where
  "isCronRunSessionKey sessionKey =
     (case parseAgentSessionKey sessionKey of None \<Rightarrow> False | Some k \<Rightarrow> is_cron_run (ak_rest k))"

definition folded_starts_with :: "string option \<Rightarrow> string \<Rightarrow> bool" where
  "folded_starts_with v p =
     (case normalizeOptionalLowercaseString v of None \<Rightarrow> False | Some s \<Rightarrow> starts_with s p)"

definition isCronSessionKey :: "string option \<Rightarrow> bool" where
  "isCronSessionKey sessionKey =
     (case parseAgentSessionKey sessionKey of
        None \<Rightarrow> False | Some k \<Rightarrow> folded_starts_with (Some (ak_rest k)) ''cron:'')"

definition isSubagentSessionKey :: "string option \<Rightarrow> bool" where
  "isSubagentSessionKey sessionKey =
     (case normalizeOptionalString sessionKey of
        None \<Rightarrow> False
      | Some raw \<Rightarrow>
          folded_starts_with (Some raw) ''subagent:'' \<or>
          folded_starts_with (map_option ak_rest (parseAgentSessionKey (Some raw))) ''subagent:'')"

text \<open>Occurrences of a separator, left to right and without overlap.\<close>

function count_occurrences :: "string \<Rightarrow> string \<Rightarrow> nat" where
  "count_occurrences sep [] = 0"
| "count_occurrences sep (c # s) =
     (if starts_with (c # s) sep \<and> sep \<noteq> []
      then Suc (count_occurrences sep (drop (length sep) (c # s)))
      else count_occurrences sep s)"
  by pat_completeness auto
termination
  by (relation "measure (\<lambda>(sep, s). length s)") auto

definition getSubagentDepth :: "string option \<Rightarrow> nat" where
  "getSubagentDepth sessionKey =
     (case normalizeOptionalLowercaseString sessionKey of
        None \<Rightarrow> 0 | Some raw \<Rightarrow> count_occurrences '':subagent:'' raw)"

definition isAcpSessionKey :: "string option \<Rightarrow> bool" where
  "isAcpSessionKey sessionKey =
     (case normalizeOptionalString sessionKey of
        None \<Rightarrow> False
      | Some raw \<Rightarrow>
          starts_with (normalizeLowercaseStringOrEmpty (Some raw)) ''acp:'' \<or>
          folded_starts_with (map_option ak_rest (parseAgentSessionKey (Some raw))) ''acp:'')"

record thread_suffix =
  ts_baseSessionKey :: "string option"
  ts_threadId :: "string option"

definition parseThreadSessionSuffix :: "string option \<Rightarrow> thread_suffix" where
  "parseThreadSessionSuffix sessionKey =
     (case normalizeOptionalString sessionKey of
        None \<Rightarrow> \<lparr>ts_baseSessionKey = None, ts_threadId = None\<rparr>
      | Some raw \<Rightarrow>
          (case js_last_index_of (normalizeLowercaseStringOrEmpty (Some raw)) '':thread:'' of
             None \<Rightarrow> \<lparr>ts_baseSessionKey = Some raw, ts_threadId = normalizeOptionalString None\<rparr>
           | Some i \<Rightarrow>
               \<lparr>ts_baseSessionKey = Some (take i raw),
                ts_threadId = normalizeOptionalString (Some (drop (i + 8) raw))\<rparr>))"

definition resolveThreadParentSessionKey :: "string option \<Rightarrow> string option" where
  "resolveThreadParentSessionKey sessionKey =
     (let p = parseThreadSessionSuffix sessionKey in
      if ts_threadId p = None then None else normalizeOptionalString (ts_baseSessionKey p))"

record conversation_ref =
  cr_channel :: string
  cr_kind :: string
  cr_rawId :: string
  cr_prefix :: string

definition parseRawSessionConversationRef :: "string option \<Rightarrow> conversation_ref option" where
  "parseRawSessionConversationRef sessionKey =
     (case normalizeOptionalString sessionKey of
        None \<Rightarrow> None
      | Some raw \<Rightarrow>
          (let rawParts = nonempty_parts raw;
               body = (if 3 \<le> length rawParts \<and>
                          normalizeOptionalLowercaseString (Some (rawParts ! 0)) = Some ''agent''
                       then 2 else 0);
               parts = drop body rawParts
           in if length parts < 3 then None
              else (case (normalizeOptionalLowercaseString (Some (parts ! 0)),
                          normalizeOptionalLowercaseString (Some (parts ! 1))) of
                      (Some channel, Some kind) \<Rightarrow>
                        if kind \<noteq> ''group'' \<and> kind \<noteq> ''channel'' then None
                        else (case (normalizeOptionalString (Some (js_join '':'' (drop 2 parts))),
                                    normalizeOptionalString
                                      (Some (js_join '':'' (take (body + 2) rawParts)))) of
                                (Some rawId, Some pre) \<Rightarrow>
                                  Some \<lparr>cr_channel = channel, cr_kind = kind, cr_rawId = rawId,
                                        cr_prefix = pre\<rparr>
                              | _ \<Rightarrow> None)
                    | _ \<Rightarrow> None)))"

definition requiresFoldedSessionKeyAliasProof :: "string option \<Rightarrow> bool" where
  "requiresFoldedSessionKeyAliasProof sessionKey =
     (let ref = parseRawSessionConversationRef sessionKey in
      (case findCasePreservingPeerDescriptor (map_option cr_channel ref) (map_option cr_kind ref) of
         None \<Rightarrow> False | Some d \<Rightarrow> pd_span d = TailSpan))"

section \<open>Agent ids and key building\<close>

definition DEFAULT_AGENT_ID :: string where
  "DEFAULT_AGENT_ID = ''main''"

definition DEFAULT_MAIN_KEY :: string where
  "DEFAULT_MAIN_KEY = ''main''"

definition or_string :: "string \<Rightarrow> string \<Rightarrow> string" where
  "or_string s d = (if s \<noteq> [] then s else d)"

definition normalizeMainKey :: "string option \<Rightarrow> string" where
  "normalizeMainKey v = or_string (normalizeLowercaseStringOrEmpty v) DEFAULT_MAIN_KEY"

definition normalizeAgentId :: "string option \<Rightarrow> string" where
  "normalizeAgentId v =
     (let t = js_trim (or_default v []) in
      if t = [] then DEFAULT_AGENT_ID
      else (let normalized = normalizeLowercaseStringOrEmpty (Some t) in
            if valid_id t then normalized else or_string (fallback_id normalized) DEFAULT_AGENT_ID))"

definition isValidAgentId :: "string option \<Rightarrow> bool" where
  "isValidAgentId v = (let t = js_trim (or_default v []) in t \<noteq> [] \<and> valid_id t)"

definition sanitizeAgentId :: "string option \<Rightarrow> string" where
  "sanitizeAgentId v = normalizeAgentId v"

definition buildAgentMainSessionKey :: "string \<Rightarrow> string option \<Rightarrow> string" where
  "buildAgentMainSessionKey agentId mainKey =
     ''agent:'' @ normalizeAgentId (Some agentId) @ '':'' @ normalizeMainKey mainKey"

datatype session_scope = PerSender | GlobalScope

datatype wake_target = Untargeted | WakeSession string | WakeAgent string

definition scopedHeartbeatWakeOptions ::
  "string \<Rightarrow> string option \<Rightarrow> session_scope option \<Rightarrow> wake_target" where
  "scopedHeartbeatWakeOptions sessionKey mainKey scope =
     (case parseAgentSessionKey (Some sessionKey) of
        None \<Rightarrow> Untargeted
      | Some parsed \<Rightarrow>
          if isCronRunSessionKey (Some sessionKey) then
            (if scope = Some GlobalScope then WakeAgent (ak_agentId parsed)
             else WakeSession (buildAgentMainSessionKey (ak_agentId parsed) mainKey))
          else WakeSession sessionKey)"

definition resolveEventSessionKey ::
  "string \<Rightarrow> string option \<Rightarrow> session_scope option \<Rightarrow> string" where
  "resolveEventSessionKey sessionKey mainKey scope =
     (case parseAgentSessionKey (Some sessionKey) of
        None \<Rightarrow> sessionKey
      | Some parsed \<Rightarrow>
          if \<not> isCronRunSessionKey (Some sessionKey) then sessionKey
          else if scope = Some GlobalScope then ''global''
          else buildAgentMainSessionKey (ak_agentId parsed) mainKey)"

definition toAgentRequestSessionKey :: "string option \<Rightarrow> string option" where
  "toAgentRequestSessionKey storeKey =
     (let raw = js_trim (or_default storeKey []) in
      if raw = [] then None
      else Some (or_default (map_option ak_rest (parseAgentSessionKey (Some raw))) raw))"

definition agentSessionKeysMatchByRequestKey :: "string option \<Rightarrow> string option \<Rightarrow> bool" where
  "agentSessionKeysMatchByRequestKey left right =
     (let l = js_trim (or_default left []); r = js_trim (or_default right []) in
      if l = [] \<or> r = [] then False
      else l = r \<or> toAgentRequestSessionKey (Some l) = toAgentRequestSessionKey (Some r))"

definition toAgentStoreSessionKey :: "string \<Rightarrow> string option \<Rightarrow> string option \<Rightarrow> string" where
  "toAgentStoreSessionKey agentId requestKey mainKey =
     (let raw = js_trim (or_default requestKey []);
          lowered = normalizeLowercaseStringOrEmpty (Some raw)
      in if raw = [] \<or> lowered = DEFAULT_MAIN_KEY then buildAgentMainSessionKey agentId mainKey
         else (case parseAgentSessionKey (Some raw) of
                 Some parsed \<Rightarrow> ''agent:'' @ ak_agentId parsed @ '':'' @ ak_rest parsed
               | None \<Rightarrow>
                   (let normalized = normalizeSessionKeyPreservingOpaquePeerIds (Some raw) in
                    if starts_with lowered ''agent:'' then normalized
                    else ''agent:'' @ normalizeAgentId (Some agentId) @ '':'' @ normalized)))"

definition resolveAgentIdFromSessionKey :: "string option \<Rightarrow> string" where
  "resolveAgentIdFromSessionKey sessionKey =
     normalizeAgentId (Some (or_default (map_option ak_agentId (parseAgentSessionKey sessionKey))
                               DEFAULT_AGENT_ID))"

datatype key_shape = Missing | Agent | LegacyOrAlias | MalformedAgent

definition classifySessionKeyShape :: "string option \<Rightarrow> key_shape" where
  "classifySessionKeyShape sessionKey =
     (let raw = js_trim (or_default sessionKey []) in
      if raw = [] then Missing
      else if parseAgentSessionKey (Some raw) \<noteq> None then Agent
      else if starts_with (normalizeLowercaseStringOrEmpty (Some raw)) ''agent:'' then MalformedAgent
      else LegacyOrAlias)"

definition isUnscopedSessionKeySentinel :: "string option \<Rightarrow> bool" where
  "isUnscopedSessionKeySentinel sessionKey =
     (let lowered = normalizeLowercaseStringOrEmpty sessionKey in
      lowered = ''global'' \<or> lowered = ''unknown'')"

definition scopeLegacySessionKeyToAgent ::
  "string option \<Rightarrow> string option \<Rightarrow> string option \<Rightarrow> string option" where
  "scopeLegacySessionKeyToAgent agentId sessionKey mainKey =
     (let raw = js_trim (or_default sessionKey []) in
      if raw = [] then None
      else (let a = js_trim (or_default agentId []) in
            if a = [] \<or> classifySessionKeyShape (Some raw) \<noteq> LegacyOrAlias then Some raw
            else Some (toAgentStoreSessionKey a (Some raw) mainKey)))"

text \<open>\<^verbatim>\<open>identityLinks\<close> is the list of \<^verbatim>\<open>Object.entries\<close>.\<close>

definition resolveLinkedPeerId ::
  "(string \<times> string list) list option \<Rightarrow> string \<Rightarrow> string \<Rightarrow> string option" where
  "resolveLinkedPeerId identityLinks channel peerId =
     (case identityLinks of
        None \<Rightarrow> None
      | Some links \<Rightarrow>
          (let p = js_trim peerId in
           if p = [] then None
           else (let rawCandidate = normalizeLowercaseStringOrEmpty (Some p);
                     ch = normalizeLowercaseStringOrEmpty (Some channel);
                     scoped = normalizeLowercaseStringOrEmpty (Some (ch @ '':'' @ p));
                     candidates = (if rawCandidate \<noteq> [] then {rawCandidate} else {})
                                  \<union> (if ch \<noteq> [] \<and> scoped \<noteq> [] then {scoped} else {})
                 in map_option (\<lambda>(canonical, ids). js_trim canonical)
                      (List.find (\<lambda>(canonical, ids). js_trim canonical \<noteq> [] \<and>
                           list_ex (\<lambda>i. let n = normalizeLowercaseStringOrEmpty (Some i) in
                                        n \<noteq> [] \<and> n \<in> candidates) ids) links))))"

datatype dm_scope = DmMain | PerPeer | PerChannelPeer | PerAccountChannelPeer

record peer_key_params =
  pk_agentId :: string
  pk_mainKey :: "string option"
  pk_channel :: string
  pk_accountId :: "string option"
  pk_peerKind :: "chat_type option"
  pk_peerId :: "string option"
  pk_identityLinks :: "(string \<times> string list) list option"
  pk_dmScope :: "dm_scope option"

definition dm_peer_id :: "peer_key_params \<Rightarrow> string" where
  "dm_peer_id ps =
     (let p = js_trim (or_default (pk_peerId ps) []);
          linked = (if or_default (pk_dmScope ps) DmMain = DmMain then None
                    else resolveLinkedPeerId (pk_identityLinks ps) (pk_channel ps) p)
      in normalizeLowercaseStringOrEmpty (Some (or_default linked p)))"

definition channel_segment :: "string \<Rightarrow> string" where
  "channel_segment c = or_string (normalizeLowercaseStringOrEmpty (Some c)) ''unknown''"

definition buildAgentPeerSessionKey :: "peer_key_params \<Rightarrow> string" where
  "buildAgentPeerSessionKey ps =
     (let kind = or_default (pk_peerKind ps) Direct;
          head = ''agent:'' @ normalizeAgentId (Some (pk_agentId ps)) @ '':''
      in if kind = Direct then
           (let dmScope = or_default (pk_dmScope ps) DmMain; p = dm_peer_id ps in
            if dmScope = PerAccountChannelPeer \<and> p \<noteq> [] then
              head @ channel_segment (pk_channel ps) @ '':''
                @ normalizeAccountId (pk_accountId ps) @ '':direct:'' @ p
            else if dmScope = PerChannelPeer \<and> p \<noteq> [] then
              head @ channel_segment (pk_channel ps) @ '':direct:'' @ p
            else if dmScope = PerPeer \<and> p \<noteq> [] then head @ ''direct:'' @ p
            else buildAgentMainSessionKey (pk_agentId ps) (pk_mainKey ps))
         else
           (let p = or_string (normalizeSessionPeerId (Some (pk_channel ps))
                       (Some (chat_type_name kind)) (pk_peerId ps)) ''unknown''
            in head @ channel_segment (pk_channel ps) @ '':'' @ chat_type_name kind @ '':'' @ p))"

definition buildGroupHistoryKey :: "string \<Rightarrow> string option \<Rightarrow> chat_type \<Rightarrow> string \<Rightarrow> string" where
  "buildGroupHistoryKey channel accountId peerKind peerId =
     (let c = channel_segment channel;
          p = or_string (normalizeSessionPeerId (Some c) (Some (chat_type_name peerKind))
                (Some peerId)) ''unknown''
      in c @ '':'' @ normalizeAccountId accountId @ '':'' @ chat_type_name peerKind @ '':'' @ p)"

record thread_keys =
  tk_sessionKey :: string
  tk_parentSessionKey :: "string option"

definition resolveThreadSessionKeys ::
  "string \<Rightarrow> string option \<Rightarrow> string option \<Rightarrow> bool option \<Rightarrow> (string \<Rightarrow> string) option
     \<Rightarrow> thread_keys" where
  "resolveThreadSessionKeys baseSessionKey threadId parentSessionKey useSuffix normalizeThreadId =
     (let t = js_trim (or_default threadId []) in
      if t = [] then \<lparr>tk_sessionKey = baseSessionKey, tk_parentSessionKey = None\<rparr>
      else (let normalizedThread = (case normalizeThreadId of
                                      Some f \<Rightarrow> f t
                                    | None \<Rightarrow> normalizeLowercaseStringOrEmpty (Some t))
            in \<lparr>tk_sessionKey = (if or_default useSuffix True
                                 then baseSessionKey @ '':thread:'' @ normalizedThread
                                 else baseSessionKey),
                tk_parentSessionKey = parentSessionKey\<rparr>))"

end
