(* ===== verification/SessionKeyProps.thy ===== *)
theory SessionKeyProps
  imports SessionKey
begin

text \<open>
  Facts about session keys: identifiers are path-safe, folding a key is idempotent and changes only
  the case of letters, opaque peer ids survive, the builders and the parsers are inverse, and the
  caches are transparent.
\<close>

section \<open>Identifiers\<close>

lemma ascii_lower_id:
  assumes "is_id_char (ascii_lower c)"
  shows "is_id_char (js_lower_char c)" and "js_lower_char c = ascii_lower c"
proof -
  have "(of_char c :: nat) < 256" by simp
  with assms show eq: "js_lower_char c = ascii_lower c"
    by (auto simp: ascii_lower_def js_lower_char_def is_id_char_def is_lower_alnum_def Let_def
        split: if_splits)
  with assms show "is_id_char (js_lower_char c)" by simp
qed

lemma id_char_not_space: "is_id_char c \<Longrightarrow> \<not> is_js_space c"
  by (auto simp: is_id_char_def is_lower_alnum_def is_js_space_def Let_def)

lemma id_char_not_colon: "is_id_char c \<Longrightarrow> c \<noteq> CHR '':''"
  by (auto simp: is_id_char_def is_lower_alnum_def Let_def)

lemma id_char_lower [simp]: "is_id_char c \<Longrightarrow> js_lower_char c = c"
  by (auto simp: is_id_char_def is_lower_alnum_def js_lower_char_def Let_def)

lemma collapse_id_chars: "list_all is_id_char (collapse_invalid b s)"
  by (induction s arbitrary: b) (auto simp: is_id_char_def)

lemma strip_trailing_prefix: "prefix (strip_trailing_dash s) s"
  unfolding strip_trailing_dash_def
  by (metis rev_rev_ident suffix_dropWhile suffix_to_prefix)

lemma list_all_prefix: "prefix s t \<Longrightarrow> list_all P t \<Longrightarrow> list_all P s"
  by (auto simp: prefix_def)

lemma prefix_hd: "prefix s t \<Longrightarrow> s \<noteq> [] \<Longrightarrow> hd s = hd t"
  by (auto simp: prefix_def)

lemma fallback_prefix: "prefix (fallback_id s) (strip_leading_dash (collapse_invalid False s))"
  unfolding fallback_id_def
  by (meson prefix_order.trans strip_trailing_prefix take_is_prefix)

definition safe_id :: "string \<Rightarrow> bool" where
  "safe_id s \<longleftrightarrow> s \<noteq> [] \<and> length s \<le> 64 \<and> list_all is_id_char s \<and> hd s \<noteq> CHR ''-''"

lemma fallback_safe:
  assumes "fallback_id s \<noteq> []"
  shows "safe_id (fallback_id s)"
proof -
  let ?t = "strip_leading_dash (collapse_invalid False s)"
  have "list_all is_id_char ?t"
    using collapse_id_chars [of False s] unfolding strip_leading_dash_def
    by (metis list_all_iff set_dropWhileD)
  with fallback_prefix have "list_all is_id_char (fallback_id s)" by (rule list_all_prefix)
  moreover have "hd (fallback_id s) \<noteq> CHR ''-''"
  proof -
    have "hd (fallback_id s) = hd ?t" by (rule prefix_hd [OF fallback_prefix assms])
    moreover have "?t \<noteq> []" using assms fallback_prefix [of s] by auto
    ultimately show ?thesis
      using hd_dropWhile [of "\<lambda>c. c = CHR ''-''" "collapse_invalid False s"]
      by (simp add: strip_leading_dash_def)
  qed
  ultimately show ?thesis using assms by (simp add: safe_id_def fallback_id_def)
qed

lemma valid_id_safe:
  assumes "valid_id t"
  shows "safe_id (js_lower t)"
proof -
  have all: "list_all is_id_char (js_lower t)"
    using assms ascii_lower_id(1) by (auto simp: valid_id_def js_lower_def list_all_iff is_id_char_ci_def)
  obtain c cs where t: "t = c # cs" using assms by (cases t) (auto simp: valid_id_def)
  with assms have c: "is_lower_alnum (ascii_lower c)" by (simp add: valid_id_def)
  then have "js_lower_char c = ascii_lower c" by (intro ascii_lower_id) (simp add: is_id_char_def)
  with c have "js_lower_char c \<noteq> CHR ''-''" by (auto simp: is_lower_alnum_def)
  with t all assms show ?thesis by (simp add: safe_id_def valid_id_def)
qed

lemma valid_id_lower: "trimmed t \<Longrightarrow> normalizeLowercaseStringOrEmpty (Some t) = js_lower t"
  by (simp add: normalizeLowercase_Some js_trim_trimmed)

lemma agent_id_safe: "safe_id (normalizeAgentId v)"
proof -
  let ?t = "js_trim (or_default v [])"
  have main: "safe_id ''main''" by (simp add: safe_id_def is_id_char_def is_lower_alnum_def)
  show ?thesis
    using main valid_id_safe [of ?t] fallback_safe [of "js_lower ?t"]
    by (auto simp: normalizeAgentId_def Let_def valid_id_lower or_string_def DEFAULT_AGENT_ID_def)
qed

lemma account_id_safe: "safe_id (account_id_of (js_trim t)) \<and> \<not> isBlockedObjectKey (account_id_of (js_trim t))"
proof -
  have dflt: "safe_id ''default''" "\<not> isBlockedObjectKey ''default''"
    by (simp_all add: safe_id_def is_id_char_def is_lower_alnum_def isBlockedObjectKey_def)
  show ?thesis
    using dflt valid_id_safe [of "js_trim t"] fallback_safe [of "js_lower (js_trim t)"]
    by (auto simp: account_id_of_def normalizeCanonicalAccountId_def canonicalizeAccountId_def
        Let_def valid_id_lower DEFAULT_ACCOUNT_ID_def)
qed

text \<open>
  An account id is safe as an object key and a path segment whatever the input: not empty, at
  most 64 characters of \<^verbatim>\<open>a-z0-9_-\<close>, not starting with a dash, and never one of the keys that reach
  an object's prototype.
\<close>
theorem account_id_is_safe:
  "safe_id (normalizeAccountId v) \<and> \<not> isBlockedObjectKey (normalizeAccountId v)"
proof (cases "js_trim (or_default v []) = []")
  case True
  then show ?thesis
    by (simp add: normalizeAccountId_def DEFAULT_ACCOUNT_ID_def isBlockedObjectKey_def safe_id_def
        is_id_char_def is_lower_alnum_def)
next
  case False
  then show ?thesis using account_id_safe by (simp add: normalizeAccountId_def Let_def)
qed

text \<open>
  The bounded caches in front of the two account-id normalizers and of the session-key folding
  never change an answer: from a coherent cache every call returns the uncached value and leaves a
  coherent cache, eviction included.
\<close>
theorem normalize_caches_transparent:
  assumes "coherent account_id_of c1" and "coherent normalizeCanonicalAccountId c2"
    and "coherent fold_session_key c3"
  shows "fst (normalizeAccountId_cached v c1) = normalizeAccountId v \<and>
    coherent account_id_of (snd (normalizeAccountId_cached v c1)) \<and>
    fst (normalizeOptionalAccountId_cached v c2) = normalizeOptionalAccountId v \<and>
    coherent normalizeCanonicalAccountId (snd (normalizeOptionalAccountId_cached v c2)) \<and>
    fst (normalizeSessionKey_cached v c3) = normalizeSessionKeyPreservingOpaquePeerIds v \<and>
    coherent fold_session_key (snd (normalizeSessionKey_cached v c3))"
  using assms
  by (simp add: account_cache.memo_call_value account_cache.memo_call_coherent
      session_key_cache.memo_call_value session_key_cache.memo_call_coherent
      normalizeAccountId_cached_def normalizeAccountId_def
      normalizeOptionalAccountId_cached_def normalizeOptionalAccountId_def
      normalizeSessionKey_cached_def normalizeSessionKeyPreservingOpaquePeerIds_def Let_def
      split: option.splits)

lemma normalize_caches_transparent_witness:
  "fst (normalizeAccountId_cached (Some '' Ops '') [(''Ops'', ''ops'')]) = normalizeAccountId (Some '' Ops '')"
proof -
  have "coherent account_id_of [(''Ops'', ''ops'')]" by code_simp
  moreover have "coherent normalizeCanonicalAccountId []" "coherent fold_session_key []"
    by (simp_all add: coherent_def)
  ultimately show ?thesis using normalize_caches_transparent by blast
qed

lemma safe_id_trim: "safe_id s \<Longrightarrow> js_trim s = s"
  by (rule js_trim_trimmed) (auto simp: safe_id_def trimmed_def list_all_iff id_char_not_space)

lemma safe_id_lower: "list_all is_id_char s \<Longrightarrow> js_lower s = s"
  by (induction s) simp_all

lemma collapse_id: "list_all is_id_char s \<Longrightarrow> collapse_invalid b s = s"
  by (induction s arbitrary: b) simp_all

lemma strip_trailing_id: "s = [] \<or> last s \<noteq> CHR ''-'' \<Longrightarrow> strip_trailing_dash s = s"
  by (cases s rule: rev_cases) (auto simp: strip_trailing_dash_def)

lemma strip_leading_id: "s = [] \<or> hd s \<noteq> CHR ''-'' \<Longrightarrow> strip_leading_dash s = s"
  by (cases s) (auto simp: strip_leading_dash_def)

lemma ascii_lower_id_char [simp]: "is_id_char c \<Longrightarrow> ascii_lower c = c"
  by (auto simp: is_id_char_def is_lower_alnum_def ascii_lower_def Let_def)

lemma normalizeAgentId_safe:
  assumes "safe_id r" and "\<not> (hd r = CHR ''_'' \<and> last r = CHR ''-'')"
  shows "normalizeAgentId (Some r) = r"
proof -
  have r: "r \<noteq> []" "length r \<le> 64" "list_all is_id_char r" "hd r \<noteq> CHR ''-''"
    using assms(1) by (auto simp: safe_id_def)
  have n: "normalizeLowercaseStringOrEmpty (Some r) = r"
    by (simp add: normalizeLowercase_Some safe_id_trim [OF assms(1)] safe_id_lower [OF r(3)])
  have hd: "is_id_char (hd r)" using r(1,3) by (cases r) auto
  show ?thesis
  proof (cases "valid_id r")
    case True
    with r n safe_id_trim [OF assms(1)] show ?thesis by (simp add: normalizeAgentId_def)
  next
    case False
    have "list_all is_id_char_ci r" using r(3) by (auto simp: list_all_iff is_id_char_ci_def)
    with False r hd have "\<not> is_lower_alnum (hd r)" by (auto simp: valid_id_def)
    with hd r(4) have "hd r = CHR ''_''" by (auto simp: is_id_char_def)
    with assms(2) have "last r \<noteq> CHR ''-''" by simp
    then have "fallback_id r = r"
      using r by (simp add: fallback_id_def collapse_id strip_leading_id strip_trailing_id)
    with False r n safe_id_trim [OF assms(1)] show ?thesis
      by (simp add: normalizeAgentId_def or_string_def)
  qed
qed

text \<open>
  An agent id is path-safe whatever the input, and it is a fixed point of its normalization
  unless the 64-character cut left a trailing dash on an id that starts with an underscore.
\<close>
theorem agent_id_normalized:
  "safe_id (normalizeAgentId v) \<and>
   (normalizeAgentId (Some (normalizeAgentId v)) = normalizeAgentId v \<or>
    hd (normalizeAgentId v) = CHR ''_'' \<and> last (normalizeAgentId v) = CHR ''-'')"
  using agent_id_safe [of v] normalizeAgentId_safe [OF agent_id_safe, of v] by blast

text \<open>
  The exception is real: the normalized form of this id is not a normalized id, so normalizing
  a stored id again yields a different one.
\<close>
theorem agent_id_not_idempotent:
  "normalizeAgentId (Some (normalizeAgentId (Some (CHR ''_'' # replicate 62 (CHR ''a'') @ ''-b''))))
     \<noteq> normalizeAgentId (Some (CHR ''_'' # replicate 62 (CHR ''a'') @ ''-b''))"
  by code_simp

section \<open>Folding a key\<close>

definition no_space :: "string \<Rightarrow> bool" where
  "no_space s \<longleftrightarrow> list_all (\<lambda>c. \<not> is_js_space c) s"

lemma no_space_append [simp]: "no_space (s @ t) = (no_space s \<and> no_space t)"
  by (simp add: no_space_def)

lemma no_space_lower [simp]: "no_space (js_lower s) = no_space s"
  by (induction s) (auto simp: no_space_def)

lemma no_space_take_drop: "no_space s \<Longrightarrow> no_space (take n s)" "no_space s \<Longrightarrow> no_space (drop n s)"
  by (auto simp: no_space_def list_all_iff dest: in_set_takeD in_set_dropD)

lemma no_space_slice: "no_space s \<Longrightarrow> no_space (slice i j s)"
  by (simp add: slice_def no_space_take_drop)

lemma no_space_trim: "no_space s \<Longrightarrow> js_trim s = s"
  by (rule js_trim_trimmed) (auto simp: trimmed_def no_space_def list_all_iff)

lemma no_space_fold: "no_space s \<Longrightarrow> normalizeLowercaseStringOrEmpty (Some s) = js_lower s"
  by (simp add: normalizeLowercase_Some no_space_trim)

lemma lower_colon [simp]: "js_lower_char c = CHR '':'' \<longleftrightarrow> c = CHR '':''"
proof -
  let ?n = "of_char c :: nat"
  have "(of_char (js_lower_char c) :: nat) =
      (if 65 \<le> ?n \<and> ?n \<le> 90 \<or> 192 \<le> ?n \<and> ?n \<le> 222 \<and> ?n \<noteq> 215 then ?n + 32 else ?n)"
    by (auto simp: js_lower_char_def Let_def)
  moreover have "(of_char (CHR '':'') :: nat) = 58" by simp
  ultimately have "(of_char (js_lower_char c) :: nat) = of_char (CHR '':'')
      \<longleftrightarrow> (of_char c :: nat) = of_char (CHR '':'')" by auto
  then show ?thesis by (simp only: of_char_eq_iff)
qed

lemma colon_free_lower: "colon_free (js_lower s) = js_lower (colon_free s)"
  by (induction s) (simp_all add: colon_free_def)

lemma drop_lower: "drop n (js_lower s) = js_lower (drop n s)"
  by (simp add: js_lower_def drop_map)

lemma take_lower: "take n (js_lower s) = js_lower (take n s)"
  by (simp add: js_lower_def take_map)

lemma starts_ci_lower [simp]: "starts_ci (js_lower s) p = starts_ci s p"
  by (simp add: starts_ci_def)

lemma segment_match_lower: "segment_match head i (js_lower s) = segment_match head i s"
  by (simp add: segment_match_def drop_lower colon_free_lower Let_def cong: if_cong)

lemma segment_spans_lower: "segment_spans head i (js_lower s) = segment_spans head i s"
proof (induction head i s rule: segment_spans.induct)
  case (2 head i c s)
  show ?case
  proof (cases "segment_match head i (c # s)")
    case None
    with 2(1) [OF None] segment_match_lower [of head i "c # s"] show ?thesis by simp
  next
    case (Some nk)
    obtain n k where nk: "nk = (n, k)" by fastforce
    with 2(2) [OF Some nk [symmetric]] Some segment_match_lower [of head i "c # s"] drop_lower [of "n + k" "c # s"]
    show ?thesis by simp
  qed
qed simp

lemma tail_spans_lower: "tail_spans (js_lower s) n = tail_spans s n"
  unfolding tail_spans_def drop_lower normalizeLowercase_Some js_trim_lower length_js_lower
    js_lower_idem by (rule refl)

lemma scoped_head_lower: "scoped_head head (js_lower s) = scoped_head head s"
  by (simp add: scoped_head_def drop_lower colon_free_lower Let_def)

lemma collect_lower: "collectCasePreservedSpans (js_lower s) = collectCasePreservedSpans s"
proof -
  have "kind_spans (js_lower s) d k = kind_spans s d k" for d k
    unfolding kind_spans_def segment_spans_lower tail_spans_lower scoped_head_lower starts_ci_lower
    by (rule refl)
  then have "kind_spans (js_lower s) = kind_spans s" by (intro ext)
  then show ?thesis unfolding collectCasePreservedSpans_def by (rule arg_cong)
qed

text \<open>Where the spans lie.\<close>

lemma colon_free_length: "length (colon_free s) \<le> length s"
  by (simp add: colon_free_def length_takeWhile_le)

lemma segment_match_bounds:
  assumes "segment_match head i s = Some (n, k)"
  shows "n + k \<le> length s \<and> 0 < k \<and> 0 < n \<and> take k (drop n s) = colon_free (drop n s)"
proof -
  let ?seg = "colon_free (drop n s)"
  have m: "k = length ?seg" "?seg \<noteq> []" "0 < n"
    using assms by (auto simp: segment_match_def Let_def split: if_splits)
  have "length ?seg \<le> length s - n" using colon_free_length [of "drop n s"] by simp
  moreover have "0 < length ?seg" using m(2) by simp
  moreover have "take k (drop n s) = ?seg"
    unfolding m(1) colon_free_def by (metis takeWhile_eq_take)
  ultimately show ?thesis using m by linarith
qed

lemma segment_spans_bounds:
  "(st, en, tr) \<in> set (segment_spans head i s) \<Longrightarrow>
     i < st \<and> st < en \<and> en \<le> i + length s \<and> CHR '':'' \<notin> set (slice (st - i) (en - i) s)"
proof (induction head i s rule: segment_spans.induct)
  case (2 head i c s)
  show ?case
  proof (cases "segment_match head i (c # s)")
    case None
    with 2 have "Suc i < st \<and> st < en \<and> en \<le> Suc i + length s \<and>
        CHR '':'' \<notin> set (slice (st - Suc i) (en - Suc i) s)" by simp
    moreover from this have "slice (st - i) (en - i) (c # s) = slice (st - Suc i) (en - Suc i) s"
      using Suc_diff_Suc [of i st] by (simp add: slice_def drop_Cons')
    ultimately show ?thesis by auto
  next
    case (Some nk)
    obtain n k where nk: "nk = (n, k)" by fastforce
    with Some have m: "segment_match head i (c # s) = Some (n, k)" by simp
    note b = segment_match_bounds [OF m]
    from 2(3) m consider "(st, en, tr) = (i + n, i + n + k, True)" |
      "(st, en, tr) \<in> set (segment_spans head (i + n + k) (drop (n + k) (c # s)))" by auto
    then show ?thesis
    proof cases
      case 1
      have "CHR '':'' \<notin> set (colon_free (drop n (c # s)))"
        by (auto simp: colon_free_def dest: set_takeWhileD)
      with 1 b show ?thesis by (simp add: slice_def)
    next
      case 2
      from "2.IH"(2) [OF Some nk [symmetric] this] have ih: "i + n + k < st" "st < en"
        "en \<le> i + n + k + length (drop (n + k) (c # s))"
        "CHR '':'' \<notin> set (slice (st - (i + n + k)) (en - (i + n + k)) (drop (n + k) (c # s)))"
        by auto
      have "slice (st - (i + n + k)) (en - (i + n + k)) (drop (n + k) (c # s))
          = slice (st - i) (en - i) (c # s)"
        using ih by (simp add: slice_def add.assoc)
      with ih b show ?thesis by auto
    qed
  qed
qed simp

lemma last_index_bound: "js_last_index_of s p = Some i \<Longrightarrow> i + length p \<le> length s"
proof (induction s arbitrary: i)
  case (Cons a s)
  have "length p \<le> Suc (length s)" if "take (length p) (a # s) = p"
    using arg_cong [OF that, of length] by simp
  with Cons show ?case by (fastforce simp: starts_with_def split: option.splits if_splits)
qed (simp split: if_splits)

lemma js_trim_length: "length (js_trim s) \<le> length s"
  unfolding js_trim_def js_trim_end_def js_trim_start_def
  by (metis length_dropWhile_le length_rev le_trans)

lemma tail_spans_bounds:
  assumes "(st, en, tr) \<in> set (tail_spans raw n)"
  shows "n \<le> st \<and> en \<le> length raw"
proof -
  have "n + m + 8 \<le> length raw"
    if "js_last_index_of (normalizeLowercaseStringOrEmpty (Some (drop n raw))) '':thread:'' = Some m"
      "n < length raw" for m
    using last_index_bound [OF that(1)] that(2) js_trim_length [of "drop n raw"]
    by (simp add: normalizeLowercase_Some)
  with assms show ?thesis
    by (fastforce simp: tail_spans_def Let_def split: if_splits option.splits)
qed

lemma collect_bounds:
  assumes "(st, en, tr) \<in> set (collectCasePreservedSpans raw)"
  shows "en \<le> length raw"
proof -
  from assms obtain d k where "(st, en, tr) \<in> set (kind_spans raw d k)"
    unfolding collectCasePreservedSpans_def by auto
  then show ?thesis
    using segment_spans_bounds [of st en tr _ 0 raw] tail_spans_bounds [of st en tr raw]
    by (cases "pd_span d") (auto simp: kind_spans_def Let_def split: option.splits if_splits)
qed

lemma sorted_spans_facts:
  "sorted_spans (js_lower raw) = sorted_spans raw"
  "(st, en, tr) \<in> set (sorted_spans raw) \<Longrightarrow> st < en \<and> en \<le> length raw"
  "sorted (map fst (sorted_spans raw))"
  by (auto simp: sorted_spans_def collect_lower dest: collect_bounds)

text \<open>The emission of a key without blanks: a change of case, and idempotent.\<close>

lemma slice_split:
  "c \<le> i \<Longrightarrow> i \<le> j \<Longrightarrow> slice c i s @ slice i j s @ drop j s = drop c s"
  by (simp add: slice_def) (metis append_take_drop_id drop_drop le_add_diff_inverse2 add.commute)

lemma length_slice: "i \<le> j \<Longrightarrow> j \<le> length s \<Longrightarrow> length (slice i j s) = j - i"
  by (simp add: slice_def)

lemma emit_lower:
  assumes "no_space raw" and "\<forall>(st, en, tr) \<in> set spans. st \<le> en \<and> en \<le> length raw"
  shows "js_lower (emit_spans raw c spans) = js_lower (drop c raw)"
  using assms(2)
proof (induction spans arbitrary: c)
  case Nil
  then show ?case using assms(1) by (simp add: no_space_fold no_space_take_drop)
next
  case (Cons sp spans)
  obtain st en tr where sp: "sp = (st, en, tr)" by (cases sp) auto
  show ?case
  proof (cases "st < c")
    case True
    with Cons sp show ?thesis by simp
  next
    case False
    have "js_lower (drop c raw) = js_lower (slice c st raw @ slice st en raw @ drop en raw)"
      using False Cons.prems sp slice_split [of c st en raw] by simp
    with Cons sp False assms(1) show ?thesis
      by (simp add: no_space_fold no_space_slice no_space_trim)
  qed
qed

lemma emit_again:
  assumes "no_space raw" and "no_space p" and "length p = c" and "c \<le> length raw"
    and "\<forall>(st, en, tr) \<in> set spans. st \<le> en \<and> en \<le> length raw"
  shows "emit_spans (p @ emit_spans raw c spans) c spans = emit_spans raw c spans"
  using assms(2-5)
proof (induction spans arbitrary: c p)
  case Nil
  then show ?case using assms(1) by (simp add: no_space_fold no_space_take_drop)
next
  case (Cons sp spans)
  obtain st en tr where sp: "sp = (st, en, tr)" by (cases sp) auto
  show ?case
  proof (cases "st < c")
    case True
    with Cons sp show ?thesis by simp
  next
    case False
    with Cons.prems sp have b: "c \<le> st" "st \<le> en" "en \<le> length raw" by auto
    let ?L = "js_lower (slice c st raw)" and ?M = "slice st en raw" and ?R = "emit_spans raw en spans"
    have step: "emit_spans raw c (sp # spans) = ?L @ ?M @ ?R"
      using sp False assms(1) by (simp add: no_space_fold no_space_slice no_space_trim)
    have len: "length ?L = st - c" "length ?M = en - st" using b by (simp_all add: length_slice)
    let ?Y = "p @ ?L @ ?M @ ?R"
    have sL: "slice c st ?Y = ?L" and sM: "slice st en ?Y = ?M"
      using Cons.prems(2) len b by (simp_all add: slice_def)
    have "emit_spans ((p @ ?L @ ?M) @ ?R) en spans = ?R"
      using Cons.IH [of "p @ ?L @ ?M" en] Cons.prems b len assms(1) by (simp add: no_space_slice)
    then have "emit_spans ?Y c (sp # spans) = ?L @ ?M @ ?R"
      using sp False assms(1) sL sM by (simp add: no_space_fold no_space_slice no_space_trim)
    with step show ?thesis by simp
  qed
qed

lemma fold_session_key_lower:
  assumes "no_space raw"
  shows "js_lower (fold_session_key raw) = js_lower raw"
  using emit_lower [OF assms, of "sorted_spans raw" 0] sorted_spans_facts(2) [of _ _ _ raw]
  by (fastforce simp: fold_session_key_def)

lemma no_space_fold_key: "no_space raw \<Longrightarrow> no_space (fold_session_key raw)"
  using fold_session_key_lower no_space_lower by metis

lemma fold_idem:
  assumes "no_space raw"
  shows "fold_session_key (fold_session_key raw) = fold_session_key raw"
proof (cases "mayContainCasePreservingPeer raw")
  case False
  then show ?thesis by (simp add: fold_session_key_def mayContainCasePreservingPeer_def)
next
  case True
  let ?n = "emit_spans raw 0 (sorted_spans raw)"
  have low: "js_lower ?n = js_lower raw"
    using fold_session_key_lower [OF assms] True by (simp add: fold_session_key_def)
  have "mayContainCasePreservingPeer ?n"
    using True low by (simp add: mayContainCasePreservingPeer_def)
  moreover have "sorted_spans ?n = sorted_spans raw" by (metis low sorted_spans_facts(1))
  moreover have "emit_spans ([] @ ?n) 0 (sorted_spans raw) = ?n"
    by (rule emit_again [OF assms])
       (use sorted_spans_facts(2) in \<open>fastforce simp: no_space_def\<close>)+
  ultimately show ?thesis using True by (simp add: fold_session_key_def)
qed

text \<open>
  Folding a session key that contains no blanks changes nothing but the case of letters, and
  folding it again changes nothing: all spellings of a key that the case-insensitive matchers treat
  alike are canonicalized once and for all.
\<close>
theorem session_key_folding_idempotent:
  assumes "no_space key" and "key \<noteq> []"
  shows "js_lower (normalizeSessionKeyPreservingOpaquePeerIds (Some key)) = js_lower key \<and>
    normalizeSessionKeyPreservingOpaquePeerIds
      (Some (normalizeSessionKeyPreservingOpaquePeerIds (Some key)))
    = normalizeSessionKeyPreservingOpaquePeerIds (Some key)"
proof -
  have n: "normalizeSessionKeyPreservingOpaquePeerIds (Some k) = fold_session_key k"
    if "no_space k" "k \<noteq> []" for k
    using that by (simp add: normalizeSessionKeyPreservingOpaquePeerIds_def normalizeOptionalString_def
        normalizeNullableString_def no_space_trim)
  have low: "js_lower (fold_session_key key) = js_lower key" by (rule fold_session_key_lower [OF assms(1)])
  then have "fold_session_key key \<noteq> []" using assms(2) by (metis js_lower_eq_Nil)
  with n [OF assms] n [OF no_space_fold_key [OF assms(1)]] low fold_idem [OF assms(1)]
  show ?thesis by simp
qed

lemma session_key_folding_idempotent_witness:
  "normalizeSessionKeyPreservingOpaquePeerIds (Some (normalizeSessionKeyPreservingOpaquePeerIds
     (Some ''Agent:x:Signal:Group:AbC='')))
   = normalizeSessionKeyPreservingOpaquePeerIds (Some ''Agent:x:Signal:Group:AbC='')"
  using session_key_folding_idempotent [of "''Agent:x:Signal:Group:AbC=''"]
  by (simp add: no_space_def is_js_space_def Let_def)

section \<open>Opaque peer ids\<close>

lemma emit_end:
  "\<forall>(st, en, tr) \<in> set spans. st < length raw \<Longrightarrow> emit_spans raw (length raw) spans = []"
  by (induction spans) (auto simp: normalizeLowercase_Some)

text \<open>A lower-case head followed by a preserved tail is emitted unchanged.\<close>

lemma emit_tail:
  assumes "no_space raw" and "js_lower (take n raw) = take n raw" and "n < length raw"
    and "sorted (map fst spans)" and "(n, length raw, False) \<in> set spans" and "c \<le> n"
    and "\<forall>(st, en, tr) \<in> set spans. st < en \<and> en \<le> length raw \<and> (st < n \<longrightarrow> en \<le> n) \<and>
           (st = n \<longrightarrow> en = length raw)"
  shows "emit_spans raw c spans = drop c raw"
  using assms(4-7)
proof (induction spans arbitrary: c)
  case (Cons sp spans)
  obtain st en tr where sp: "sp = (st, en, tr)" by (cases sp) auto
  have low: "js_lower (slice c i raw) = slice c i raw" if "i \<le> n" for i
  proof -
    have "slice c i raw = slice c i (take n raw)" using that by (simp add: slice_def drop_take min_def)
    with assms(2) show ?thesis by (metis drop_lower slice_def take_lower)
  qed
  have emit: "st \<ge> c \<Longrightarrow> emit_spans raw c (sp # spans) =
      js_lower (slice c st raw) @ slice st en raw @ emit_spans raw en spans"
    using sp assms(1) by (simp add: no_space_fold no_space_slice no_space_trim)
  consider "st < c" | "c \<le> st" "st < n" | "st = n" | "n < st" by linarith
  then show ?case
  proof cases
    case 1
    with Cons sp show ?thesis by auto
  next
    case 2
    with Cons.prems sp have b: "st < en" "en \<le> n" by auto
    have "emit_spans raw en spans = drop en raw" using Cons 2 sp b by auto
    with emit low 2 b slice_split [of c st en raw] show ?thesis by simp
  next
    case 3
    with Cons.prems sp have en: "en = length raw" by auto
    have "emit_spans raw en spans = []" unfolding en
      by (rule emit_end) (use Cons.prems in fastforce)
    moreover have "slice n (length raw) raw = drop n raw" by (simp add: slice_def)
    moreover have "slice c n raw @ drop n raw = drop c raw"
      using slice_split [of c n n raw] Cons.prems by (simp add: slice_def)
    ultimately show ?thesis using emit low 3 en Cons.prems by simp
  next
    case 4
    with Cons.prems sp show ?thesis by (auto simp: image_iff)
  qed
qed simp

lemma segment_spans_head:
  "(st, en, tr) \<in> set (segment_spans head i s) \<Longrightarrow>
     i + length head \<le> st \<and> starts_ci (drop (st - i - length head) s) head"
proof (induction head i s rule: segment_spans.induct)
  case (2 head i c s)
  show ?case
  proof (cases "segment_match head i (c # s)")
    case None
    with 2 have ih: "Suc i + length head \<le> st" "starts_ci (drop (st - Suc i - length head) s) head" by auto
    then have "st - i - length head = Suc (st - Suc i - length head)" by simp
    with ih show ?thesis by simp
  next
    case (Some nk)
    obtain n k where nk: "nk = (n, k)" by fastforce
    with Some have m: "segment_match head i (c # s) = Some (n, k)" by simp
    from 2(3) m consider "st = i + n" |
      "(st, en, tr) \<in> set (segment_spans head (i + n + k) (drop (n + k) (c # s)))" by auto
    then show ?thesis
    proof cases
      case 1
      from m have "n = length head \<and> starts_ci (c # s) head \<or>
          n = Suc (length head) \<and> starts_ci (c # s) ('':'' @ head)"
        by (auto simp: segment_match_def Let_def split: if_splits)
      with 1 show ?thesis by (auto simp: starts_ci_def starts_with_def)
    next
      case 2
      from "2.IH"(2) [OF Some nk [symmetric] this] have ih: "i + n + k + length head \<le> st"
        "starts_ci (drop (st - (i + n + k) - length head) (drop (n + k) (c # s))) head" by auto
      have "st - (i + n + k) - length head + (n + k) = st - i - length head" using ih(1) by simp
      with ih show ?thesis by (simp only: drop_drop) simp
    qed
  qed
qed simp

lemma includes_append: "js_includes (a @ p @ b) p"
proof (induction a)
  case Nil
  have "starts_with (p @ b) p" by simp
  then show ?case by (cases "p @ b") auto
qed simp

lemma colon_free_append: "CHR '':'' \<notin> set a \<Longrightarrow> colon_free (a @ CHR '':'' # s) = a"
  by (induction a) (auto simp: colon_free_def)

definition matrix_head :: "string \<Rightarrow> string \<Rightarrow> string" where
  "matrix_head a kind = ''agent:'' @ a @ '':matrix:'' @ kind @ '':''"

lemma matrix_head_spans:
  assumes a: "list_all is_id_char a" "a \<noteq> []" and kind: "kind = ''group'' \<or> kind = ''channel''"
    and p: "p \<noteq> []" "no_space p" "js_last_index_of (js_lower p) '':thread:'' = None"
  defines "raw \<equiv> matrix_head a kind @ p"
  shows "collectCasePreservedSpans raw =
     segment_spans ''signal:group:'' 0 raw @ [(length (matrix_head a kind), length raw, False)]"
proof -
  have colon: "CHR '':'' \<notin> set a" using a(1) id_char_not_colon by (auto simp: list_all_iff)
  have la: "js_lower a = a" by (rule safe_id_lower [OF a(1)])
  have cf: "colon_free (drop 6 raw) = a"
    using colon by (simp add: raw_def matrix_head_def colon_free_append)
  have tail: "drop (6 + length a) raw = '':matrix:'' @ kind @ '':'' @ p"
    by (simp add: raw_def matrix_head_def numeral_eq_Suc)
  have k: "js_lower_char CHR '':'' = CHR '':''" "js_lower kind = kind"
    using kind by (auto simp: js_lower_char_def)
  have agent: "starts_ci raw ''agent:''"
    by (simp add: raw_def matrix_head_def starts_ci_def starts_with_def js_lower_char_def)
  have scoped: "scoped_head (''matrix:'' @ x @ '':'') raw =
      (if x = kind then Some (length (matrix_head a kind)) else None)"
    if "x = ''group'' \<or> x = ''channel''" for x
    unfolding scoped_head_def Let_def cf tail using that kind agent a(2)
    by (auto simp: starts_ci_def starts_with_def js_lower_char_def matrix_head_def)
  have unscoped: "\<not> starts_ci raw (''matrix:'' @ x)" for x
    by (simp add: raw_def matrix_head_def starts_ci_def starts_with_def js_lower_char_def)
  have tl: "tail_spans raw (length (matrix_head a kind))
      = [(length (matrix_head a kind), length raw, False)]"
    using p by (simp add: tail_spans_def raw_def no_space_fold)
  have "kind_spans raw \<lparr>pd_channel = ''matrix'', pd_peerKinds = [''channel'', ''group''],
      pd_span = TailSpan, pd_unscoped = True\<rparr> x
    = (if x = kind then [(length (matrix_head a kind), length raw, False)] else [])"
    if "x = ''group'' \<or> x = ''channel''" for x
    using scoped [OF that] unscoped [of "x @ '':''"] tl by (simp add: kind_spans_def)
  from this [of "''group''"] this [of "''channel''"] kind show ?thesis
    by (auto simp: collectCasePreservedSpans_def CASE_PRESERVING_PEERS_def)
       (simp_all add: kind_spans_def)
qed

lemma matrix_head_not_signal:
  assumes kind: "kind = ''group'' \<or> kind = ''channel''"
  shows "\<not> starts_ci (drop (length (matrix_head a kind) - 13) (matrix_head a kind @ p)) ''signal:group:''"
proof -
  let ?h = "''agent:'' @ a @ '':''"
  have len: "length (matrix_head a kind) - 13 = length ?h + (if kind = ''group'' then 0 else 2)"
    using kind by (auto simp: matrix_head_def)
  have split: "matrix_head a kind @ p = ?h @ (''matrix:'' @ kind @ '':'' @ p)" by (simp add: matrix_head_def)
  have "drop (length ?h + k) (matrix_head a kind @ p) = drop k (''matrix:'' @ kind @ '':'' @ p)" for k
    unfolding split by (simp only: drop_append) simp
  then show ?thesis unfolding len using kind
    by (auto simp: starts_ci_def starts_with_def js_lower_char_def)
qed

lemma slice_mem:
  assumes "st \<le> i" and "i < en" and "en \<le> length s"
  shows "s ! i \<in> set (slice st en s)"
proof -
  have "slice st en s ! (i - st) = s ! i" and "i - st < length (slice st en s)"
    using assms by (simp_all add: slice_def)
  then show ?thesis by (metis nth_mem)
qed

lemma matrix_fold:
  assumes a: "list_all is_id_char a" "a \<noteq> []" and kind: "kind = ''group'' \<or> kind = ''channel''"
    and p: "p \<noteq> []" "no_space p" "js_last_index_of (js_lower p) '':thread:'' = None"
  shows "fold_session_key (matrix_head a kind @ p) = matrix_head a kind @ p"
proof -
  let ?h = "matrix_head a kind" and ?raw = "matrix_head a kind @ p"
  let ?n = "length ?h"
  note spans = matrix_head_spans [OF assms]
  have low: "js_lower ?h = ?h"
    using kind safe_id_lower [OF a(1)] by (auto simp: matrix_head_def js_lower_char_def)
  have ns: "no_space ?raw"
    using a(1) p(2) kind id_char_not_space
    by (auto simp: matrix_head_def no_space_def list_all_iff is_js_space_def)
  have colon: "?raw ! (?n - 1) = CHR '':''"
    by (simp add: matrix_head_def nth_append)
  have n: "13 \<le> ?n" using kind by (auto simp: matrix_head_def)
  have sorted_set: "set (sorted_spans ?raw) =
      {sp \<in> set (collectCasePreservedSpans ?raw). fst sp < fst (snd sp)}"
    by (auto simp: sorted_spans_def)
  have span: "st < en \<and> en \<le> length ?raw \<and> (st < ?n \<longrightarrow> en \<le> ?n) \<and> (st = ?n \<longrightarrow> en = length ?raw)"
    if "(st, en, tr) \<in> set (sorted_spans ?raw)" for st en tr
  proof -
    from that have b: "st < en" "en \<le> length ?raw" using sorted_spans_facts(2) by blast+
    from that consider "(st, en, tr) \<in> set (segment_spans ''signal:group:'' 0 ?raw)"
      | "st = ?n" "en = length ?raw"
      unfolding sorted_set spans by auto
    then show ?thesis
    proof cases
      case 1
      have nc: "CHR '':'' \<notin> set (slice st en ?raw)" using segment_spans_bounds [OF 1] by simp
      have hd: "13 \<le> st" "starts_ci (drop (st - 13) ?raw) ''signal:group:''"
        using segment_spans_head [OF 1] by (simp_all add: numeral_eq_Suc)
      have "st \<noteq> ?n" using hd(2) matrix_head_not_signal [OF kind] by auto
      moreover have "en \<le> ?n" if "st < ?n"
      proof (rule ccontr)
        assume "\<not> en \<le> ?n"
        with that n have "st \<le> ?n - 1" "?n - 1 < en" by simp_all
        with slice_mem [of st "?n - 1" en ?raw] b(2) colon nc show False by simp
      qed
      ultimately show ?thesis using b by simp
    next
      case 2
      then show ?thesis using b by simp
    qed
  qed
  have "emit_spans ?raw 0 (sorted_spans ?raw) = drop 0 ?raw"
  proof (rule emit_tail [where n = ?n])
    show "(?n, length ?raw, False) \<in> set (sorted_spans ?raw)"
      unfolding sorted_set spans using p(1) by simp
  qed (use ns low p(1) sorted_spans_facts(3) span in auto)
  moreover have "mayContainCasePreservingPeer ?raw"
  proof -
    have "js_lower ?raw = (''agent:'' @ a @ '':'') @ ''matrix:'' @ (kind @ '':'' @ js_lower p)"
      using low by (simp add: matrix_head_def)
    then have "js_includes (js_lower ?raw) ''matrix:''" by (simp only: includes_append)
    then show ?thesis by (simp add: mayContainCasePreservingPeer_def CASE_PRESERVING_PEERS_def)
  qed
  ultimately show ?thesis by (simp add: fold_session_key_def)
qed

section \<open>Building and parsing\<close>

definition clean_parts :: "string \<Rightarrow> bool" where
  "clean_parts s \<longleftrightarrow> [] \<notin> set (js_split (CHR '':'') s)"

lemma js_split_append:
  "js_split c (s @ c # t) = js_split c s @ js_split c t"
  by (induction s) (auto split: list.splits)

lemma parse_folded_key:
  assumes "list_all is_id_char a" and "a \<noteq> []" and "rest \<noteq> []" and "clean_parts rest"
  shows "parse_folded (''agent:'' @ a @ '':'' @ rest) = Some \<lparr>ak_agentId = a, ak_rest = rest\<rparr>"
proof -
  have colon: "CHR '':'' \<notin> set a" using assms(1) id_char_not_colon by (auto simp: list_all_iff)
  let ?ws = "js_split (CHR '':'') rest"
  have ws: "?ws \<noteq> []" by simp
  have "js_split (CHR '':'') (''agent:'' @ a @ '':'' @ rest) = ''agent'' # a # ?ws"
    using js_split_append_sep [OF colon, of rest] by simp
  moreover have "filter (\<lambda>w. w \<noteq> []) ?ws = ?ws"
    using assms(4) by (auto simp: clean_parts_def filter_id_conv)
  ultimately have parts: "nonempty_parts (''agent:'' @ a @ '':'' @ rest) = ''agent'' # a # ?ws"
    using assms(2) by (simp add: nonempty_parts_def)
  have "js_trim a = a"
    using assms(1) id_char_not_space by (intro no_space_trim) (auto simp: no_space_def list_all_iff)
  then have "normalizeOptionalString (Some a) = Some a"
    using assms(2) by (simp add: normalizeOptionalString_Some)
  then show ?thesis
    using assms(3) ws js_join_split [of "CHR '':''" rest] unfolding parse_folded_def Let_def parts
    by (cases ?ws) auto
qed

text \<open>
  C34. Matrix room ids survive a round trip: the key built for a Matrix group or channel parses back
  to the agent and to a rest that holds the room id with its case, although every other part of a
  key is folded.
\<close>
theorem matrix_room_roundtrip:
  assumes "pk_channel ps = ''matrix''" and "pk_peerKind ps = Some kind" and "kind \<noteq> Direct"
    and "pk_peerId ps = Some room" and "room \<noteq> []" and "no_space room" and "clean_parts room"
    and "js_last_index_of (js_lower room) '':thread:'' = None"
  shows "parseAgentSessionKey (Some (buildAgentPeerSessionKey ps)) =
    Some \<lparr>ak_agentId = normalizeAgentId (Some (pk_agentId ps)),
          ak_rest = ''matrix:'' @ chat_type_name kind @ '':'' @ room\<rparr>"
proof -
  let ?a = "normalizeAgentId (Some (pk_agentId ps))" and ?k = "chat_type_name kind"
  have a: "list_all is_id_char ?a" "?a \<noteq> []" using agent_id_safe by (auto simp: safe_id_def)
  have k: "?k = ''group'' \<or> ?k = ''channel''" using assms(3) by (cases kind) auto
  have m: "normalizeLowercaseStringOrEmpty (Some ''matrix'') = ''matrix''" by code_simp
  have kk: "normalizeLowercaseStringOrEmpty (Some ''group'') = ''group''"
    "normalizeLowercaseStringOrEmpty (Some ''channel'') = ''channel''" by code_simp+
  have "isCasePreservingPeer (Some ''matrix'') (Some ?k)"
    using k by (auto simp: isCasePreservingPeer_def findCasePreservingPeerDescriptor_def m kk
        CASE_PRESERVING_PEERS_def)
  then have key: "buildAgentPeerSessionKey ps = matrix_head ?a ?k @ room"
    using assms(1-6) m
    by (simp add: buildAgentPeerSessionKey_def normalizeSessionPeerId_def no_space_trim or_string_def
        channel_segment_def matrix_head_def Let_def)
  have ns: "no_space (matrix_head ?a ?k @ room)"
    using a(1) assms(6) k id_char_not_space
    by (auto simp: matrix_head_def no_space_def list_all_iff is_js_space_def)
  have "normalizeSessionKeyPreservingOpaquePeerIds (Some (matrix_head ?a ?k @ room))
      = matrix_head ?a ?k @ room"
    using matrix_fold [OF a k assms(5,6,8)]
    by (simp add: normalizeSessionKeyPreservingOpaquePeerIds_def normalizeOptionalString_def
        normalizeNullableString_def no_space_trim [OF ns] Let_def)
  moreover have "clean_parts (''matrix:'' @ ?k @ '':'' @ room)"
    using k assms(7) by (auto simp: clean_parts_def)
  ultimately show ?thesis
    using parse_folded_key [OF a, of "''matrix:'' @ ?k @ '':'' @ room"]
    by (simp add: parseAgentSessionKey_def key matrix_head_def)
qed

definition matrix_params :: peer_key_params where
  "matrix_params = \<lparr>pk_agentId = ''Ops'', pk_mainKey = None, pk_channel = ''matrix'', pk_accountId = None,
     pk_peerKind = Some Channel, pk_peerId = Some ''!RooM:Example.org'', pk_identityLinks = None,
     pk_dmScope = None\<rparr>"

lemma matrix_room_roundtrip_witness:
  "parseAgentSessionKey (Some (buildAgentPeerSessionKey matrix_params)) =
    Some \<lparr>ak_agentId = ''ops'', ak_rest = ''matrix:channel:!RooM:Example.org''\<rparr>"
proof -
  have a: "normalizeAgentId (Some (pk_agentId matrix_params)) = ''ops''" by code_simp
  have "no_space ''!RooM:Example.org''" by (simp add: no_space_def is_js_space_def)
  moreover have "clean_parts ''!RooM:Example.org''" by code_simp
  moreover have "js_last_index_of (js_lower ''!RooM:Example.org'') '':thread:'' = None" by code_simp
  ultimately show ?thesis
    using matrix_room_roundtrip [of matrix_params Channel "''!RooM:Example.org''"] a
    by (simp add: matrix_params_def)
qed

section \<open>Isolation of agents, threads\<close>

lemma peer_key_head:
  "\<exists>rest. buildAgentPeerSessionKey ps = ''agent:'' @ normalizeAgentId (Some (pk_agentId ps)) @ '':'' @ rest"
  by (simp add: buildAgentPeerSessionKey_def buildAgentMainSessionKey_def Let_def)

lemma main_key_head:
  "\<exists>rest. buildAgentMainSessionKey a m = ''agent:'' @ normalizeAgentId (Some a) @ '':'' @ rest"
  by (simp add: buildAgentMainSessionKey_def)

text \<open>
  C35. Sessions of different agents never share a key: whatever the channel, scope, peer, account and
  identity links, two peer keys are equal only if their agent ids normalize to the same id.
\<close>
theorem agents_are_isolated:
  assumes "buildAgentPeerSessionKey ps = buildAgentPeerSessionKey qs"
  shows "normalizeAgentId (Some (pk_agentId ps)) = normalizeAgentId (Some (pk_agentId qs))"
proof -
  have colon: "CHR '':'' \<notin> set (normalizeAgentId v)" for v
    using agent_id_safe [of v] id_char_not_colon by (auto simp: safe_id_def list_all_iff)
  obtain r1 r2 where "''agent:'' @ normalizeAgentId (Some (pk_agentId ps)) @ '':'' @ r1 =
      ''agent:'' @ normalizeAgentId (Some (pk_agentId qs)) @ '':'' @ r2"
    using peer_key_head [of ps] peer_key_head [of qs] assms by metis
  then have "colon_free (normalizeAgentId (Some (pk_agentId ps)) @ CHR '':'' # r1) =
      colon_free (normalizeAgentId (Some (pk_agentId qs)) @ CHR '':'' # r2)" by simp
  then show ?thesis by (simp only: colon_free_append [OF colon])
qed

lemma agents_are_isolated_witness:
  "normalizeAgentId (Some (pk_agentId matrix_params)) =
   normalizeAgentId (Some (pk_agentId (matrix_params\<lparr>pk_agentId := ''OPS''\<rparr>)))"
  by (rule agents_are_isolated) code_simp

lemma last_index_append:
  assumes "js_last_index_of (tl (p @ b)) p = None" and "p \<noteq> []"
  shows "js_last_index_of (a @ p @ b) p = Some (length a)"
proof (induction a)
  case Nil
  obtain c s where cs: "p @ b = c # s" using assms(2) by (cases "p @ b") auto
  have "starts_with (c # s) p" using starts_with_append [of p b] cs by simp
  with assms(1) cs show ?case by simp
qed simp

text \<open>
  A thread suffix comes off the way it was put on: for a base key without outer blanks, the
  suffixed key of a thread id parses to that base and the folded thread id, and the thread's parent
  is the base key.
\<close>
theorem thread_suffix_roundtrip:
  assumes "no_space base" and "base \<noteq> []" and "no_space tid" and "tid \<noteq> []"
    and "js_last_index_of (tl ('':thread:'' @ js_lower tid)) '':thread:'' = None"
  shows "parseThreadSessionSuffix
       (Some (tk_sessionKey (resolveThreadSessionKeys base (Some tid) parent None None)))
     = \<lparr>ts_baseSessionKey = Some base, ts_threadId = Some (js_lower tid)\<rparr> \<and>
    resolveThreadParentSessionKey
       (Some (tk_sessionKey (resolveThreadSessionKeys base (Some tid) parent None None))) = Some base"
proof -
  let ?key = "base @ '':thread:'' @ js_lower tid"
  have key: "tk_sessionKey (resolveThreadSessionKeys base (Some tid) parent None None) = ?key"
    using assms(3,4) by (simp add: resolveThreadSessionKeys_def no_space_trim no_space_fold Let_def)
  have "no_space '':thread:''" by (simp add: no_space_def is_js_space_def)
  then have ns: "no_space ?key" using assms(1,3) by (simp only: no_space_append no_space_lower)
  have raw: "normalizeOptionalString (Some ?key) = Some ?key"
    using no_space_trim [OF ns] assms(2) by (simp add: normalizeOptionalString_Some)
  have low: "normalizeLowercaseStringOrEmpty (Some ?key) = js_lower base @ '':thread:'' @ js_lower tid"
    unfolding no_space_fold [OF ns] by (simp add: js_lower_char_def)
  have idx: "js_last_index_of (js_lower base @ '':thread:'' @ js_lower tid) '':thread:'' = Some (length base)"
    using last_index_append [OF assms(5), of "js_lower base"] by simp
  have id: "normalizeOptionalString (Some (js_lower tid)) = Some (js_lower tid)"
    "normalizeOptionalString (Some base) = Some base"
    using assms(1-4) by (simp_all add: normalizeOptionalString_Some no_space_trim)
  have parse: "parseThreadSessionSuffix (Some ?key)
      = \<lparr>ts_baseSessionKey = Some base, ts_threadId = Some (js_lower tid)\<rparr>"
    unfolding parseThreadSessionSuffix_def raw option.case low idx using id
    by (simp add: numeral_eq_Suc)
  show ?thesis unfolding key resolveThreadParentSessionKey_def parse using id by simp
qed

lemma thread_suffix_roundtrip_witness:
  "resolveThreadParentSessionKey (Some (tk_sessionKey
     (resolveThreadSessionKeys ''agent:main:main'' (Some ''T-17'') None None None)))
   = Some ''agent:main:main''"
proof -
  have "js_last_index_of (tl ('':thread:'' @ js_lower ''T-17'')) '':thread:'' = None" by code_simp
  moreover have "no_space ''agent:main:main''" "no_space ''T-17''"
    by (simp_all add: no_space_def is_js_space_def)
  ultimately show ?thesis
    using thread_suffix_roundtrip [of "''agent:main:main''" "''T-17''" None] by simp
qed

end
