(* ===== verification/RouteResolve.thy ===== *)
theory RouteResolve
  imports SessionKey NumberCoercion
begin

text \<open>
  Agent routing: \<^verbatim>\<open>src/routing/resolve-route.ts\<close> with \<^verbatim>\<open>binding-scope.ts\<close>,
  \<^verbatim>\<open>peer-kind-match.ts\<close>, \<^verbatim>\<open>bindings.ts\<close>, \<^verbatim>\<open>account-lookup.ts\<close>, the binding list of
  \<^verbatim>\<open>src/config/bindings.ts\<close> and the default agent of \<^verbatim>\<open>src/agents/agent-scope-config.ts\<close>.
  An inbound message is routed to the first configured binding that matches it, by tiers from the
  most to the least specific; the code finds it through per-channel, per-account indexes.
  A configured id may be a string or an integer.
\<close>

section \<open>Configuration\<close>

datatype route_id = IdAbsent | IdString string | IdNumber int

datatype binding_type = RouteBinding | AcpBinding

record binding_match =
  bm_channel :: "string option"
  bm_accountId :: "string option"
  bm_peer :: "(string option \<times> route_id) option"
  bm_guildId :: route_id
  bm_teamId :: route_id
  bm_roles :: "string list option"

record agent_binding =
  b_type :: binding_type
  b_agentId :: string
  b_match :: binding_match
  b_dmScope :: "dm_scope option"

record agent_entry =
  ae_id :: "string option"
  ae_default :: bool

record route_config =
  cfg_agents :: "agent_entry list"
  cfg_bindings :: "agent_binding list"
  cfg_dmScope :: "dm_scope option"
  cfg_identityLinks :: "(string \<times> string list) list option"

definition listRouteBindings :: "route_config \<Rightarrow> agent_binding list" where
  "listRouteBindings cfg = filter (\<lambda>b. b_type b = RouteBinding) (cfg_bindings cfg)"

definition listBindings :: "route_config \<Rightarrow> agent_binding list" where
  "listBindings cfg = listRouteBindings cfg"

definition resolveDefaultAgentId :: "route_config \<Rightarrow> string" where
  "resolveDefaultAgentId cfg =
     (if cfg_agents cfg = [] then DEFAULT_AGENT_ID
      else (let defaults = filter ae_default (cfg_agents cfg);
                entry = (if defaults \<noteq> [] then hd defaults else hd (cfg_agents cfg));
                chosen = js_trim (or_default (ae_id entry) [])
            in normalizeAgentId (Some (or_string chosen DEFAULT_AGENT_ID))))"

definition agents_by_normalized_id :: "route_config \<Rightarrow> (string, string) js_map" where
  "agents_by_normalized_id cfg =
     fold (\<lambda>a m. let rawId = js_trim (or_default (ae_id a) []) in
             if rawId = [] then m
             else js_set (normalizeAgentId (Some rawId)) (sanitizeAgentId (Some rawId)) m)
       (cfg_agents cfg) []"

definition pickFirstExistingAgentId :: "route_config \<Rightarrow> string \<Rightarrow> string" where
  "pickFirstExistingAgentId cfg agentId =
     (let fallback = sanitizeAgentId (Some (resolveDefaultAgentId cfg));
          t = js_trim agentId;
          byId = agents_by_normalized_id cfg
      in if t = [] then fallback
         else if byId = [] then sanitizeAgentId (Some t)
         else or_default (js_get byId (normalizeAgentId (Some t))) fallback)"

section \<open>Scopes\<close>

definition normalizeRouteBindingId :: "route_id \<Rightarrow> string" where
  "normalizeRouteBindingId v =
     (case v of IdString s \<Rightarrow> js_trim s | IdNumber n \<Rightarrow> js_trim (show_int n) | IdAbsent \<Rightarrow> [])"

definition normalizeRouteBindingRoles :: "string list option \<Rightarrow> string list option" where
  "normalizeRouteBindingRoles v = (case v of Some (r # rs) \<Rightarrow> Some (r # rs) | _ \<Rightarrow> None)"

definition peerKindMatches :: "chat_type \<Rightarrow> chat_type \<Rightarrow> bool" where
  "peerKindMatches bindingKind scopeKind \<longleftrightarrow>
     bindingKind = scopeKind \<or> (bindingKind = Group \<and> scopeKind = Channel) \<or>
     (bindingKind = Channel \<and> scopeKind = Group)"

text \<open>An empty string is the absent constraint, as in the code's falsy tests.\<close>

definition nonempty :: "string \<Rightarrow> string option" where
  "nonempty s = (if s = [] then None else Some s)"

definition scopeIdMatches :: "string option \<Rightarrow> string \<Rightarrow> string \<Rightarrow> bool" where
  "scopeIdMatches constraint exact groupSpace =
     (case constraint of
        None \<Rightarrow> True
      | Some c \<Rightarrow> if c = [] then True else c = exact \<or> c = groupSpace)"

definition hasAnyRouteBindingRole :: "string list \<Rightarrow> string list option \<Rightarrow> bool" where
  "hasAnyRouteBindingRole roles memberRoleIds =
     (case memberRoleIds of None \<Rightarrow> False | Some ms \<Rightarrow> list_ex (\<lambda>r. r \<in> set ms) roles)"

record scope_constraint =
  sc_guildId :: "string option"
  sc_teamId :: "string option"
  sc_roles :: "string list option"

record route_scope =
  rs_guildId :: route_id
  rs_teamId :: route_id
  rs_groupSpace :: route_id
  rs_memberRoleIds :: "string list option"

definition routeBindingScopeMatches :: "scope_constraint \<Rightarrow> route_scope \<Rightarrow> bool" where
  "routeBindingScopeMatches c s =
     (let guildId = normalizeRouteBindingId (rs_guildId s);
          teamId = normalizeRouteBindingId (rs_teamId s);
          groupSpace = normalizeRouteBindingId (rs_groupSpace s)
      in if \<not> scopeIdMatches (sc_guildId c) guildId groupSpace then False
         else if \<not> scopeIdMatches (sc_teamId c) teamId groupSpace then False
         else (case normalizeRouteBindingRoles (sc_roles c) of
                 None \<Rightarrow> True
               | Some roles \<Rightarrow> hasAnyRouteBindingRole roles (rs_memberRoleIds s)))"

section \<open>Normalized bindings\<close>

record route_peer =
  rp_kind :: chat_type
  rp_id :: string

datatype peer_constraint = NoPeer | InvalidPeer | WildcardKind chat_type | ValidPeer chat_type string

record normalized_match =
  nm_accountPattern :: string
  nm_peer :: peer_constraint
  nm_guildId :: "string option"
  nm_teamId :: "string option"
  nm_roles :: "string list option"

record evaluated_binding =
  ev_binding :: agent_binding
  ev_match :: normalized_match
  ev_order :: nat

definition normalizePeerConstraint :: "(string option \<times> route_id) option \<Rightarrow> peer_constraint" where
  "normalizePeerConstraint peer =
     (case peer of
        None \<Rightarrow> NoPeer
      | Some (k, i) \<Rightarrow>
          (let ident = normalizeRouteBindingId i in
           case normalizeChatType k of
             None \<Rightarrow> InvalidPeer
           | Some kind \<Rightarrow>
               if ident = [] then InvalidPeer
               else if ident = ''*'' then WildcardKind kind
               else ValidPeer kind ident))"

definition normalizeBindingMatch :: "binding_match \<Rightarrow> normalized_match" where
  "normalizeBindingMatch m =
     \<lparr>nm_accountPattern = js_trim (or_default (bm_accountId m) []),
      nm_peer = normalizePeerConstraint (bm_peer m),
      nm_guildId = nonempty (normalizeRouteBindingId (bm_guildId m)),
      nm_teamId = nonempty (normalizeRouteBindingId (bm_teamId m)),
      nm_roles = normalizeRouteBindingRoles (bm_roles m)\<rparr>"

definition resolveAccountPatternKey :: "string \<Rightarrow> string" where
  "resolveAccountPatternKey p =
     (if js_trim p = [] then DEFAULT_ACCOUNT_ID else normalizeAccountId (Some p))"

definition matchesBindingScope ::
  "normalized_match \<Rightarrow> route_peer option \<Rightarrow> string \<Rightarrow> string \<Rightarrow> string list \<Rightarrow> bool" where
  "matchesBindingScope m peer guildId teamId memberRoleIds =
     (let rest = routeBindingScopeMatches
                   \<lparr>sc_guildId = nm_guildId m, sc_teamId = nm_teamId m, sc_roles = nm_roles m\<rparr>
                   \<lparr>rs_guildId = IdString guildId, rs_teamId = IdString teamId,
                    rs_groupSpace = IdAbsent, rs_memberRoleIds = Some memberRoleIds\<rparr>
      in case nm_peer m of
           InvalidPeer \<Rightarrow> False
         | ValidPeer k i \<Rightarrow>
             (case peer of
                None \<Rightarrow> False
              | Some p \<Rightarrow> peerKindMatches k (rp_kind p) \<and> rp_id p = i \<and> rest)
         | WildcardKind k \<Rightarrow>
             (case peer of None \<Rightarrow> False | Some p \<Rightarrow> peerKindMatches k (rp_kind p) \<and> rest)
         | NoPeer \<Rightarrow> rest)"

section \<open>The indexes\<close>

record channel_bindings =
  cb_byAccount :: "(string, evaluated_binding list) js_map"
  cb_byAnyAccount :: "evaluated_binding list"

text \<open>\<^verbatim>\<open>pushToIndexMap\<close>: append to the list under a key; an absent or empty key is skipped.\<close>

definition push_key :: "string \<Rightarrow> 'a \<Rightarrow> (string, 'a list) js_map \<Rightarrow> (string, 'a list) js_map" where
  "push_key k x m = js_set k (or_default (js_get m k) [] @ [x]) m"

definition pushToIndexMap ::
  "string option \<Rightarrow> 'a \<Rightarrow> (string, 'a list) js_map \<Rightarrow> (string, 'a list) js_map" where
  "pushToIndexMap key x m =
     (case key of None \<Rightarrow> m | Some k \<Rightarrow> if k = [] then m else push_key k x m)"

definition add_evaluated :: "evaluated_binding \<Rightarrow> channel_bindings \<Rightarrow> channel_bindings" where
  "add_evaluated e bucket =
     (if nm_accountPattern (ev_match e) = ''*''
      then bucket\<lparr>cb_byAnyAccount := cb_byAnyAccount bucket @ [e]\<rparr>
      else bucket\<lparr>cb_byAccount :=
             push_key (resolveAccountPatternKey (nm_accountPattern (ev_match e))) e
               (cb_byAccount bucket)\<rparr>)"

definition empty_bucket :: channel_bindings where
  "empty_bucket = \<lparr>cb_byAccount = [], cb_byAnyAccount = []\<rparr>"

fun build_by_channel ::
  "agent_binding list \<Rightarrow> nat \<Rightarrow> (string, channel_bindings) js_map
     \<Rightarrow> (string, channel_bindings) js_map" where
  "build_by_channel [] order m = m"
| "build_by_channel (b # bs) order m =
     (let channel = normalizeLowercaseStringOrEmpty (bm_channel (b_match b)) in
      if channel = [] then build_by_channel bs order m
      else (let e = \<lparr>ev_binding = b, ev_match = normalizeBindingMatch (b_match b), ev_order = order\<rparr>;
                bucket = or_default (js_get m channel) empty_bucket
            in build_by_channel bs (Suc order) (js_set channel (add_evaluated e bucket) m)))"

definition buildEvaluatedBindingsByChannel :: "route_config \<Rightarrow> (string, channel_bindings) js_map" where
  "buildEvaluatedBindingsByChannel cfg = build_by_channel (listBindings cfg) 0 []"

fun mergeEvaluatedBindingsInSourceOrder ::
  "evaluated_binding list \<Rightarrow> evaluated_binding list \<Rightarrow> evaluated_binding list" where
  "mergeEvaluatedBindingsInSourceOrder [] ys = ys"
| "mergeEvaluatedBindingsInSourceOrder xs [] = xs"
| "mergeEvaluatedBindingsInSourceOrder (x # xs) (y # ys) =
     (if ev_order x \<le> ev_order y then x # mergeEvaluatedBindingsInSourceOrder xs (y # ys)
      else y # mergeEvaluatedBindingsInSourceOrder (x # xs) ys)"

definition getEvaluatedBindingsForChannelAccount ::
  "route_config \<Rightarrow> string \<Rightarrow> string \<Rightarrow> evaluated_binding list" where
  "getEvaluatedBindingsForChannelAccount cfg channel accountId =
     (case js_get (buildEvaluatedBindingsByChannel cfg) channel of
        None \<Rightarrow> mergeEvaluatedBindingsInSourceOrder [] []
      | Some b \<Rightarrow>
          mergeEvaluatedBindingsInSourceOrder (or_default (js_get (cb_byAccount b) accountId) [])
            (cb_byAnyAccount b))"

definition peerLookupKeys :: "chat_type \<Rightarrow> string \<Rightarrow> string list" where
  "peerLookupKeys kind ident =
     (case kind of
        Group \<Rightarrow> [''group:'' @ ident, ''channel:'' @ ident]
      | Channel \<Rightarrow> [''channel:'' @ ident, ''group:'' @ ident]
      | Direct \<Rightarrow> [''direct:'' @ ident])"

record bindings_index =
  bi_byPeer :: "(string, evaluated_binding list) js_map"
  bi_byPeerWildcard :: "evaluated_binding list"
  bi_byGuildWithRoles :: "(string, evaluated_binding list) js_map"
  bi_byGuild :: "(string, evaluated_binding list) js_map"
  bi_byTeam :: "(string, evaluated_binding list) js_map"
  bi_byAccount :: "evaluated_binding list"
  bi_byChannel :: "evaluated_binding list"

definition empty_index :: bindings_index where
  "empty_index = \<lparr>bi_byPeer = [], bi_byPeerWildcard = [], bi_byGuildWithRoles = [], bi_byGuild = [],
                  bi_byTeam = [], bi_byAccount = [], bi_byChannel = []\<rparr>"

definition index_one :: "evaluated_binding \<Rightarrow> bindings_index \<Rightarrow> bindings_index" where
  "index_one e ix =
     (let m = ev_match e in
      case nm_peer m of
        ValidPeer k i \<Rightarrow>
          ix\<lparr>bi_byPeer := fold (\<lambda>key. pushToIndexMap (Some key) e) (peerLookupKeys k i) (bi_byPeer ix)\<rparr>
      | WildcardKind k \<Rightarrow> ix\<lparr>bi_byPeerWildcard := bi_byPeerWildcard ix @ [e]\<rparr>
      | _ \<Rightarrow>
          if nm_guildId m \<noteq> None \<and> nm_roles m \<noteq> None
          then ix\<lparr>bi_byGuildWithRoles := pushToIndexMap (nm_guildId m) e (bi_byGuildWithRoles ix)\<rparr>
          else if nm_guildId m \<noteq> None
          then ix\<lparr>bi_byGuild := pushToIndexMap (nm_guildId m) e (bi_byGuild ix)\<rparr>
          else if nm_teamId m \<noteq> None
          then ix\<lparr>bi_byTeam := pushToIndexMap (nm_teamId m) e (bi_byTeam ix)\<rparr>
          else if nm_accountPattern m \<noteq> ''*''
          then ix\<lparr>bi_byAccount := bi_byAccount ix @ [e]\<rparr>
          else ix\<lparr>bi_byChannel := bi_byChannel ix @ [e]\<rparr>)"

definition buildEvaluatedBindingsIndex :: "evaluated_binding list \<Rightarrow> bindings_index" where
  "buildEvaluatedBindingsIndex bs = fold index_one bs empty_index"

definition collectPeerIndexedBindings :: "bindings_index \<Rightarrow> route_peer option \<Rightarrow> evaluated_binding list" where
  "collectPeerIndexedBindings ix peer =
     (case peer of
        None \<Rightarrow> []
      | Some p \<Rightarrow>
          fold (\<lambda>key out. fold js_set_add (or_default (js_get (bi_byPeer ix) key) []) out)
            (peerLookupKeys (rp_kind p) (rp_id p)) [])"

section \<open>Resolution\<close>

datatype matched_by = ByPeer | ByPeerParent | ByPeerWildcard | ByGuildRoles | ByGuild | ByTeam
  | ByAccount | ByChannel | ByDefault

datatype last_route_policy = PolicyMain | PolicySession

record route_input =
  in_channel :: string
  in_accountId :: "string option"
  in_peer :: "(chat_type \<times> route_id) option"
  in_parentPeer :: "(chat_type \<times> route_id) option"
  in_guildId :: route_id
  in_teamId :: route_id
  in_memberRoleIds :: "string list option"

record resolved_route =
  rr_agentId :: string
  rr_channel :: string
  rr_accountId :: string
  rr_sessionKey :: string
  rr_mainSessionKey :: string
  rr_lastRoutePolicy :: last_route_policy
  rr_matchedBy :: matched_by

definition deriveLastRoutePolicy :: "string \<Rightarrow> string \<Rightarrow> last_route_policy" where
  "deriveLastRoutePolicy sessionKey mainSessionKey =
     (if sessionKey = mainSessionKey then PolicyMain else PolicySession)"

definition resolveInboundLastRouteSessionKey :: "last_route_policy \<Rightarrow> string \<Rightarrow> string \<Rightarrow> string" where
  "resolveInboundLastRouteSessionKey policy mainSessionKey sessionKey =
     (if policy = PolicyMain then mainSessionKey else sessionKey)"

definition buildAgentSessionKey ::
  "string \<Rightarrow> string \<Rightarrow> string option \<Rightarrow> route_peer option \<Rightarrow> dm_scope option
     \<Rightarrow> (string \<times> string list) list option \<Rightarrow> string" where
  "buildAgentSessionKey agentId channel accountId peer dmScope identityLinks =
     buildAgentPeerSessionKey
       \<lparr>pk_agentId = agentId, pk_mainKey = Some DEFAULT_MAIN_KEY,
        pk_channel = or_string (normalizeLowercaseStringOrEmpty (Some channel)) ''unknown'',
        pk_accountId = accountId,
        pk_peerKind = Some (case peer of None \<Rightarrow> Direct | Some p \<Rightarrow> rp_kind p),
        pk_peerId = map_option (\<lambda>p. or_string (normalizeRouteBindingId (IdString (rp_id p)))
                                      ''unknown'') peer,
        pk_identityLinks = identityLinks, pk_dmScope = dmScope\<rparr>"

definition normalize_peer :: "(chat_type \<times> route_id) option \<Rightarrow> route_peer option" where
  "normalize_peer v =
     map_option (\<lambda>(k, i). \<lparr>rp_kind = or_default (normalizeChatType (Some (chat_type_name k))) k,
                         rp_id = normalizeRouteBindingId i\<rparr>) v"

definition choose_route ::
  "route_config \<Rightarrow> string \<Rightarrow> string \<Rightarrow> route_peer option \<Rightarrow> string \<Rightarrow> matched_by \<Rightarrow> dm_scope option
     \<Rightarrow> resolved_route" where
  "choose_route cfg channel accountId peer agentId matchedBy sessionOverride =
     (let resolved = pickFirstExistingAgentId cfg agentId;
          dmScope = or_default sessionOverride (or_default (cfg_dmScope cfg) DmMain);
          sessionKey = buildAgentSessionKey resolved channel (Some accountId) peer (Some dmScope)
                         (cfg_identityLinks cfg);
          mainSessionKey = normalizeLowercaseStringOrEmpty
                             (Some (buildAgentMainSessionKey resolved (Some DEFAULT_MAIN_KEY)))
      in \<lparr>rr_agentId = resolved, rr_channel = channel, rr_accountId = accountId,
          rr_sessionKey = sessionKey, rr_mainSessionKey = mainSessionKey,
          rr_lastRoutePolicy = deriveLastRoutePolicy sessionKey mainSessionKey,
          rr_matchedBy = matchedBy\<rparr>)"

record route_tier =
  rt_matchedBy :: matched_by
  rt_enabled :: bool
  rt_scopePeer :: "route_peer option"
  rt_candidates :: "evaluated_binding list"
  rt_predicate :: "evaluated_binding \<Rightarrow> bool"

definition is_valid_peer :: "evaluated_binding \<Rightarrow> bool" where
  "is_valid_peer e = (case nm_peer (ev_match e) of ValidPeer _ _ \<Rightarrow> True | _ \<Rightarrow> False)"

definition is_wildcard_peer :: "evaluated_binding \<Rightarrow> bool" where
  "is_wildcard_peer e = (case nm_peer (ev_match e) of WildcardKind _ \<Rightarrow> True | _ \<Rightarrow> False)"

definition hasGuildConstraint :: "evaluated_binding \<Rightarrow> bool" where
  "hasGuildConstraint e \<longleftrightarrow> nm_guildId (ev_match e) \<noteq> None"

definition hasTeamConstraint :: "evaluated_binding \<Rightarrow> bool" where
  "hasTeamConstraint e \<longleftrightarrow> nm_teamId (ev_match e) \<noteq> None"

definition hasRolesConstraint :: "evaluated_binding \<Rightarrow> bool" where
  "hasRolesConstraint e \<longleftrightarrow> nm_roles (ev_match e) \<noteq> None"

definition is_any_account :: "evaluated_binding \<Rightarrow> bool" where
  "is_any_account e \<longleftrightarrow> nm_accountPattern (ev_match e) = ''*''"

definition get_list :: "(string, 'a list) js_map \<Rightarrow> string \<Rightarrow> 'a list" where
  "get_list m k = (if k = [] then [] else or_default (js_get m k) [])"

text \<open>The tiers of a request, over whatever candidate lists the lookup supplies.\<close>

definition route_tiers ::
  "(matched_by \<Rightarrow> evaluated_binding list) \<Rightarrow> route_peer option \<Rightarrow> route_peer option \<Rightarrow> string \<Rightarrow> string
     \<Rightarrow> string list \<Rightarrow> route_tier list" where
  "route_tiers candidates peer parentPeer guildId teamId roles =
     (let parent = (case parentPeer of None \<Rightarrow> None | Some p \<Rightarrow> if rp_id p = [] then None else Some p);
          tier = (\<lambda>by en sp pr. \<lparr>rt_matchedBy = by, rt_enabled = en, rt_scopePeer = sp,
                               rt_candidates = candidates by, rt_predicate = pr\<rparr>)
      in [tier ByPeer (peer \<noteq> None) peer is_valid_peer,
          tier ByPeerParent (parent \<noteq> None) parent is_valid_peer,
          tier ByPeerWildcard (peer \<noteq> None) peer is_wildcard_peer,
          tier ByGuildRoles (guildId \<noteq> [] \<and> roles \<noteq> []) peer
            (\<lambda>e. hasGuildConstraint e \<and> hasRolesConstraint e),
          tier ByGuild (guildId \<noteq> []) peer (\<lambda>e. hasGuildConstraint e \<and> \<not> hasRolesConstraint e),
          tier ByTeam (teamId \<noteq> []) peer hasTeamConstraint,
          tier ByAccount True peer (\<lambda>e. \<not> is_any_account e),
          tier ByChannel True peer is_any_account])"

definition indexed_candidates ::
  "bindings_index \<Rightarrow> route_peer option \<Rightarrow> route_peer option \<Rightarrow> string \<Rightarrow> string
     \<Rightarrow> matched_by \<Rightarrow> evaluated_binding list" where
  "indexed_candidates ix peer parentPeer guildId teamId by =
     (case by of
        ByPeer \<Rightarrow> collectPeerIndexedBindings ix peer
      | ByPeerParent \<Rightarrow> collectPeerIndexedBindings ix parentPeer
      | ByPeerWildcard \<Rightarrow> bi_byPeerWildcard ix
      | ByGuildRoles \<Rightarrow> get_list (bi_byGuildWithRoles ix) guildId
      | ByGuild \<Rightarrow> get_list (bi_byGuild ix) guildId
      | ByTeam \<Rightarrow> get_list (bi_byTeam ix) teamId
      | ByAccount \<Rightarrow> bi_byAccount ix
      | ByChannel \<Rightarrow> bi_byChannel ix
      | ByDefault \<Rightarrow> [])"

text \<open>The loop over the tiers: the first candidate of the first enabled tier that matches.\<close>

fun first_match ::
  "route_tier list \<Rightarrow> string \<Rightarrow> string \<Rightarrow> string list \<Rightarrow> (matched_by \<times> evaluated_binding) option" where
  "first_match [] guildId teamId roles = None"
| "first_match (t # ts) guildId teamId roles =
     (if \<not> rt_enabled t then first_match ts guildId teamId roles
      else (case List.find (\<lambda>e. rt_predicate t e \<and>
                     matchesBindingScope (ev_match e) (rt_scopePeer t) guildId teamId roles)
                   (rt_candidates t) of
              Some e \<Rightarrow> Some (rt_matchedBy t, e)
            | None \<Rightarrow> first_match ts guildId teamId roles))"

definition finish_route ::
  "route_config \<Rightarrow> string \<Rightarrow> string \<Rightarrow> route_peer option \<Rightarrow> (matched_by \<times> evaluated_binding) option
     \<Rightarrow> resolved_route" where
  "finish_route cfg channel accountId peer m =
     (case m of
        Some (by, e) \<Rightarrow>
          choose_route cfg channel accountId peer (b_agentId (ev_binding e)) by (b_dmScope (ev_binding e))
      | None \<Rightarrow> choose_route cfg channel accountId peer (resolveDefaultAgentId cfg) ByDefault None)"

definition resolveAgentRoute :: "route_config \<Rightarrow> route_input \<Rightarrow> resolved_route" where
  "resolveAgentRoute cfg inp =
     (let channel = normalizeLowercaseStringOrEmpty (Some (in_channel inp));
          accountId = normalizeAccountId (in_accountId inp);
          peer = normalize_peer (in_peer inp);
          guildId = normalizeRouteBindingId (in_guildId inp);
          teamId = normalizeRouteBindingId (in_teamId inp);
          roles = or_default (in_memberRoleIds inp) [];
          parentPeer = normalize_peer (in_parentPeer inp);
          bindings = getEvaluatedBindingsForChannelAccount cfg channel accountId;
          ix = buildEvaluatedBindingsIndex bindings;
          tiers = route_tiers (indexed_candidates ix peer parentPeer guildId teamId)
                    peer parentPeer guildId teamId roles
      in finish_route cfg channel accountId peer (first_match tiers guildId teamId roles))"

section \<open>The route cache\<close>

definition formatRouteCachePeer :: "route_peer option \<Rightarrow> string" where
  "formatRouteCachePeer peer =
     (case peer of
        None \<Rightarrow> ''-''
      | Some p \<Rightarrow> if rp_id p = [] then ''-'' else chat_type_name (rp_kind p) @ '':'' @ rp_id p)"

text \<open>String comparison by code units.\<close>

fun str_le :: "string \<Rightarrow> string \<Rightarrow> bool" where
  "str_le [] t = True"
| "str_le (c # s) [] = False"
| "str_le (c # s) (d # t) =
     (if c = d then str_le s t else (of_char c :: nat) < of_char d)"

fun insert_str :: "string \<Rightarrow> string list \<Rightarrow> string list" where
  "insert_str x [] = [x]"
| "insert_str x (y # ys) = (if str_le x y then x # y # ys else y # insert_str x ys)"

definition sorted_strs :: "string list \<Rightarrow> string list" where
  "sorted_strs xs = foldr insert_str xs []"

definition formatRoleIdsCacheKey :: "string list \<Rightarrow> string" where
  "formatRoleIdsCacheKey roleIds =
     (case roleIds of
        [] \<Rightarrow> ''-''
      | [r] \<Rightarrow> r
      | [a, b] \<Rightarrow> if str_le a b then a @ '','' @ b else b @ '','' @ a
      | _ \<Rightarrow> js_join '','' (sorted_strs roleIds))"

fun dm_scope_name :: "dm_scope \<Rightarrow> string" where
  "dm_scope_name DmMain = ''main''"
| "dm_scope_name PerPeer = ''per-peer''"
| "dm_scope_name PerChannelPeer = ''per-channel-peer''"
| "dm_scope_name PerAccountChannelPeer = ''per-account-channel-peer''"

definition buildResolvedRouteCacheKey :: "route_config \<Rightarrow> route_input \<Rightarrow> string" where
  "buildResolvedRouteCacheKey cfg inp =
     (let tab = [char_of (9 :: nat)]
      in js_join tab
        [normalizeLowercaseStringOrEmpty (Some (in_channel inp)),
         normalizeAccountId (in_accountId inp),
         formatRouteCachePeer (normalize_peer (in_peer inp)),
         formatRouteCachePeer (normalize_peer (in_parentPeer inp)),
         or_string (normalizeRouteBindingId (in_guildId inp)) ''-'',
         or_string (normalizeRouteBindingId (in_teamId inp)) ''-'',
         formatRoleIdsCacheKey (or_default (in_memberRoleIds inp) []),
         dm_scope_name (or_default (cfg_dmScope cfg) DmMain)])"

definition evict_routes :: "string \<Rightarrow> resolved_route \<Rightarrow> (string, resolved_route) js_map
     \<Rightarrow> (string, resolved_route) js_map" where
  "evict_routes key r c = (if length c > 4000 then [(key, r)] else c)"

text \<open>
  A call with the cache of the configuration; the cache is bypassed when identity links are
  configured.
\<close>

definition resolveAgentRoute_cached ::
  "route_config \<Rightarrow> route_input \<Rightarrow> (string, resolved_route) js_map
     \<Rightarrow> resolved_route \<times> (string, resolved_route) js_map" where
  "resolveAgentRoute_cached cfg inp c =
     (if cfg_identityLinks cfg \<noteq> None then (resolveAgentRoute cfg inp, c)
      else (let key = buildResolvedRouteCacheKey cfg inp in
            case js_get c key of
              Some r \<Rightarrow> (r, c)
            | None \<Rightarrow>
                (let r = resolveAgentRoute cfg inp in (r, evict_routes key r (js_set key r c)))))"

section \<open>Bound accounts\<close>

record normalized_binding =
  nb_agentId :: string
  nb_accountId :: string
  nb_channelId :: string

text \<open>\<open>chat_channel\<close> is \<^verbatim>\<open>normalizeChatChannelId\<close>, which reads the bundled channel registry.\<close>

definition normalizeRouteBindingChannelId ::
  "(string option \<Rightarrow> string option) \<Rightarrow> string option \<Rightarrow> string option" where
  "normalizeRouteBindingChannelId chat_channel raw =
     (case chat_channel raw of
        Some c \<Rightarrow> if c \<noteq> [] then Some c else nonempty (normalizeLowercaseStringOrEmpty raw)
      | None \<Rightarrow> nonempty (normalizeLowercaseStringOrEmpty raw))"

definition resolveNormalizedRouteBindingMatch ::
  "(string option \<Rightarrow> string option) \<Rightarrow> agent_binding \<Rightarrow> normalized_binding option" where
  "resolveNormalizedRouteBindingMatch chat_channel b =
     (case normalizeRouteBindingChannelId chat_channel (bm_channel (b_match b)) of
        None \<Rightarrow> None
      | Some channelId \<Rightarrow>
          (let accountId = js_trim (or_default (bm_accountId (b_match b)) []) in
           if accountId = [] \<or> accountId = ''*'' then None
           else Some \<lparr>nb_agentId = normalizeAgentId (Some (b_agentId b)),
                      nb_accountId = normalizeAccountId (Some accountId),
                      nb_channelId = channelId\<rparr>))"

definition resolveDefaultAgentBoundAccountId ::
  "(string option \<Rightarrow> string option) \<Rightarrow> route_config \<Rightarrow> string \<Rightarrow> string option" where
  "resolveDefaultAgentBoundAccountId chat_channel cfg channelId =
     (case normalizeRouteBindingChannelId chat_channel (Some channelId) of
        None \<Rightarrow> None
      | Some c \<Rightarrow>
          (let defaultAgentId = normalizeAgentId (Some (resolveDefaultAgentId cfg)) in
           map_option nb_accountId
             (List.find (\<lambda>r. nb_channelId r = c \<and> nb_agentId r = defaultAgentId)
                (List.map_filter (resolveNormalizedRouteBindingMatch chat_channel)
                   (listBindings cfg)))))"

definition add_account_binding ::
  "normalized_binding \<Rightarrow> (string, (string, string list) js_map) js_map
     \<Rightarrow> (string, (string, string list) js_map) js_map" where
  "add_account_binding r m =
     (let byAgent = or_default (js_get m (nb_channelId r)) [];
          accounts = js_set_add (nb_accountId r) (or_default (js_get byAgent (nb_agentId r)) [])
      in js_set (nb_channelId r) (js_set (nb_agentId r) accounts byAgent) m)"

definition buildChannelAccountBindings ::
  "(string option \<Rightarrow> string option) \<Rightarrow> route_config
     \<Rightarrow> (string, (string, string list) js_map) js_map" where
  "buildChannelAccountBindings chat_channel cfg =
     fold add_account_binding
       (List.map_filter (resolveNormalizedRouteBindingMatch chat_channel) (listBindings cfg)) []"

definition resolvePreferredAccountId :: "string \<Rightarrow> string list \<Rightarrow> string" where
  "resolvePreferredAccountId defaultAccountId boundAccounts =
     (case boundAccounts of [] \<Rightarrow> defaultAccountId | a # _ \<Rightarrow> a)"

text \<open>
  Account lookup: an exact key wins, else the first key that normalizes alike; an empty matching key
  is falsy in the code and answers nothing.
\<close>

definition lookup_normalized :: "(string \<Rightarrow> string) \<Rightarrow> (string, 'a) js_map option \<Rightarrow> string \<Rightarrow> 'a option" where
  "lookup_normalized key_of accounts accountId =
     (case accounts of
        None \<Rightarrow> None
      | Some m \<Rightarrow>
          (case js_get m accountId of
             Some v \<Rightarrow> Some v
           | None \<Rightarrow>
               (case List.find (\<lambda>k. key_of k = key_of accountId) (js_keys m) of
                  None \<Rightarrow> None
                | Some k \<Rightarrow> if k = [] then None else js_get m k)))"

definition resolveAccountEntry :: "(string, 'a) js_map option \<Rightarrow> string \<Rightarrow> 'a option" where
  "resolveAccountEntry accounts accountId =
     lookup_normalized (\<lambda>k. normalizeLowercaseStringOrEmpty (Some k)) accounts accountId"

definition resolveNormalizedAccountEntry ::
  "(string, 'a) js_map option \<Rightarrow> string \<Rightarrow> (string \<Rightarrow> string) \<Rightarrow> 'a option" where
  "resolveNormalizedAccountEntry accounts accountId normalizeAccount =
     lookup_normalized normalizeAccount accounts accountId"

end
