(* ===== verification/RouteProps.thy ===== *)
theory RouteProps
  imports RouteResolve SessionKeyProps
begin

text \<open>
  The routing indexes are a pure optimisation: the indexed lookup finds the binding a scan of the
  configured bindings finds.  Facts about the merge, the indexes and the tiers, and the properties
  of routes and of their cache.
\<close>

section \<open>The specification: a scan of the bindings in source order\<close>

fun evaluate_bindings :: "agent_binding list \<Rightarrow> nat \<Rightarrow> evaluated_binding list" where
  "evaluate_bindings [] n = []"
| "evaluate_bindings (b # bs) n =
     (if normalizeLowercaseStringOrEmpty (bm_channel (b_match b)) = [] then evaluate_bindings bs n
      else \<lparr>ev_binding = b, ev_match = normalizeBindingMatch (b_match b), ev_order = n\<rparr>
             # evaluate_bindings bs (Suc n))"

definition binding_channel :: "evaluated_binding \<Rightarrow> string" where
  "binding_channel e = normalizeLowercaseStringOrEmpty (bm_channel (b_match (ev_binding e)))"

definition account_key :: "evaluated_binding \<Rightarrow> string" where
  "account_key e = resolveAccountPatternKey (nm_accountPattern (ev_match e))"

definition applicable_bindings :: "route_config \<Rightarrow> string \<Rightarrow> string \<Rightarrow> evaluated_binding list" where
  "applicable_bindings cfg channel accountId =
     filter (\<lambda>e. binding_channel e = channel \<and> (is_any_account e \<or> account_key e = accountId))
       (evaluate_bindings (listBindings cfg) 0)"

definition scanned_route :: "route_config \<Rightarrow> route_input \<Rightarrow> resolved_route" where
  "scanned_route cfg inp =
     (let channel = normalizeLowercaseStringOrEmpty (Some (in_channel inp));
          accountId = normalizeAccountId (in_accountId inp);
          peer = normalize_peer (in_peer inp);
          guildId = normalizeRouteBindingId (in_guildId inp);
          teamId = normalizeRouteBindingId (in_teamId inp);
          roles = or_default (in_memberRoleIds inp) [];
          tiers = route_tiers (\<lambda>by. applicable_bindings cfg channel accountId)
                    peer (normalize_peer (in_parentPeer inp)) guildId teamId roles
      in finish_route cfg channel accountId peer (first_match tiers guildId teamId roles))"

section \<open>The per-account lists\<close>

definition bucket_of :: "(string, channel_bindings) js_map \<Rightarrow> string \<Rightarrow> channel_bindings" where
  "bucket_of m ch = or_default (js_get m ch) empty_bucket"

lemma get_push_key: "or_default (js_get (push_key k x m) k') [] =
    or_default (js_get m k') [] @ (if k' = k then [x] else [])"
  by (simp add: push_key_def)

lemma bucket_add:
  "cb_byAnyAccount (add_evaluated e b) = cb_byAnyAccount b @ (if is_any_account e then [e] else [])"
  "or_default (js_get (cb_byAccount (add_evaluated e b)) a) [] =
     or_default (js_get (cb_byAccount b) a) []
       @ (if \<not> is_any_account e \<and> account_key e = a then [e] else [])"
  by (simp_all add: add_evaluated_def is_any_account_def account_key_def get_push_key)

lemma build_spec:
  "cb_byAnyAccount (bucket_of (build_by_channel bs n m) ch) =
     cb_byAnyAccount (bucket_of m ch)
       @ filter (\<lambda>e. binding_channel e = ch \<and> is_any_account e) (evaluate_bindings bs n)"
  "or_default (js_get (cb_byAccount (bucket_of (build_by_channel bs n m) ch)) a) [] =
     or_default (js_get (cb_byAccount (bucket_of m ch)) a) []
       @ filter (\<lambda>e. binding_channel e = ch \<and> \<not> is_any_account e \<and> account_key e = a)
           (evaluate_bindings bs n)"
proof (induction bs n m rule: build_by_channel.induct)
  case (2 b bs order m)
  let ?ch = "normalizeLowercaseStringOrEmpty (bm_channel (b_match b))"
  let ?e = "\<lparr>ev_binding = b, ev_match = normalizeBindingMatch (b_match b), ev_order = order\<rparr>"
  {
    case 1
    show ?case
    proof (cases "?ch = []")
      case True
      with "2.IH"(1) show ?thesis by simp
    next
      case False
      have "bucket_of (js_set ?ch (add_evaluated ?e (bucket_of m ?ch)) m) ch =
          (if ch = ?ch then add_evaluated ?e (bucket_of m ch) else bucket_of m ch)"
        by (simp add: bucket_of_def)
      with "2.IH"(3) [OF refl False refl refl] False show ?thesis
        by (auto simp: bucket_of_def [symmetric] bucket_add binding_channel_def Let_def)
    qed
  next
    case 2
    show ?case
    proof (cases "?ch = []")
      case True
      with "2.IH"(2) show ?thesis by simp
    next
      case False
      have "bucket_of (js_set ?ch (add_evaluated ?e (bucket_of m ?ch)) m) ch =
          (if ch = ?ch then add_evaluated ?e (bucket_of m ch) else bucket_of m ch)"
        by (simp add: bucket_of_def)
      with "2.IH"(4) [OF refl False refl refl] False show ?thesis
        by (auto simp: bucket_of_def [symmetric] bucket_add binding_channel_def Let_def)
    qed
  }
qed simp_all

definition in_order :: "evaluated_binding list \<Rightarrow> bool" where
  "in_order es \<longleftrightarrow> sorted_wrt (\<lambda>a b. ev_order a < ev_order b) es"

lemma evaluate_in_order: "in_order (evaluate_bindings bs n) \<and> (\<forall>e \<in> set (evaluate_bindings bs n). n \<le> ev_order e)"
proof (induction bs arbitrary: n)
  case (Cons b bs)
  from Cons [of "Suc n"] Cons [of n] show ?case by (auto simp: in_order_def Suc_le_eq less_imp_le)
qed (simp add: in_order_def)

lemma merge_Nil [simp]: "mergeEvaluatedBindingsInSourceOrder xs [] = xs"
  by (cases xs) simp_all

lemma merge_filters:
  assumes "in_order es" and "\<forall>e. \<not> (P e \<and> Q e)"
  shows "mergeEvaluatedBindingsInSourceOrder (filter P es) (filter Q es) = filter (\<lambda>e. P e \<or> Q e) es"
  using assms(1)
proof (induction es)
  case (Cons e es)
  then have IH: "mergeEvaluatedBindingsInSourceOrder (filter P es) (filter Q es)
      = filter (\<lambda>e. P e \<or> Q e) es" and lt: "\<forall>x \<in> set es. ev_order e < ev_order x"
    by (simp_all add: in_order_def)
  have P: "mergeEvaluatedBindingsInSourceOrder (e # filter P es) ys =
      e # mergeEvaluatedBindingsInSourceOrder (filter P es) ys" if "ys = filter Q es" for ys
  proof (cases ys)
    case (Cons y ys')
    then have "y \<in> set (filter Q es)" using that by simp
    then have "y \<in> set es" by simp
    with lt Cons show ?thesis by fastforce
  qed simp
  have Q: "mergeEvaluatedBindingsInSourceOrder xs (e # filter Q es) =
      e # mergeEvaluatedBindingsInSourceOrder xs (filter Q es)" if "xs = filter P es" for xs
  proof (cases xs)
    case (Cons x xs')
    then have "x \<in> set (filter P es)" using that by simp
    then have "x \<in> set es" by simp
    with lt Cons show ?thesis by fastforce
  qed simp
  show ?case using IH P Q assms(2) by auto
qed simp

text \<open>The two buckets of a channel merge back into source order.\<close>

lemma bindings_for_account:
  "getEvaluatedBindingsForChannelAccount cfg ch a = applicable_bindings cfg ch a"
proof -
  let ?m = "buildEvaluatedBindingsByChannel cfg"
  let ?es = "evaluate_bindings (listBindings cfg) 0"
  have "getEvaluatedBindingsForChannelAccount cfg ch a =
      mergeEvaluatedBindingsInSourceOrder (or_default (js_get (cb_byAccount (bucket_of ?m ch)) a) [])
        (cb_byAnyAccount (bucket_of ?m ch))"
    by (simp add: getEvaluatedBindingsForChannelAccount_def bucket_of_def empty_bucket_def
        split: option.splits)
  also have "\<dots> = mergeEvaluatedBindingsInSourceOrder
      (filter (\<lambda>e. binding_channel e = ch \<and> \<not> is_any_account e \<and> account_key e = a) ?es)
      (filter (\<lambda>e. binding_channel e = ch \<and> is_any_account e) ?es)"
    using build_spec [of "listBindings cfg" 0 "[]" ch]
    by (simp add: buildEvaluatedBindingsByChannel_def) (simp add: bucket_of_def empty_bucket_def)
  also have "\<dots> = filter (\<lambda>e. binding_channel e = ch \<and> \<not> is_any_account e \<and> account_key e = a \<or>
      binding_channel e = ch \<and> is_any_account e) ?es"
    using evaluate_in_order by (intro merge_filters) auto
  also have "\<dots> = applicable_bindings cfg ch a"
    unfolding applicable_bindings_def by (rule filter_cong) auto
  finally show ?thesis .
qed

section \<open>The indexes\<close>

definition plain_peer :: "evaluated_binding \<Rightarrow> bool" where
  "plain_peer e \<longleftrightarrow> \<not> is_valid_peer e \<and> \<not> is_wildcard_peer e"

definition peer_keys :: "evaluated_binding \<Rightarrow> string list" where
  "peer_keys e = (case nm_peer (ev_match e) of ValidPeer k i \<Rightarrow> peerLookupKeys k i | _ \<Rightarrow> [])"

lemma get_push_map: "get_list (pushToIndexMap (Some g) x m) k =
    get_list m k @ (if k = g \<and> g \<noteq> [] then [x] else [])"
  by (auto simp: get_list_def pushToIndexMap_def get_push_key)

lemma get_push_peer:
  "distinct keys \<Longrightarrow> [] \<notin> set keys \<Longrightarrow>
     or_default (js_get (fold (\<lambda>key. pushToIndexMap (Some key) e) keys m) k) [] =
     or_default (js_get m k) [] @ (if k \<in> set keys then [e] else [])"
  by (induction keys arbitrary: m) (auto simp: pushToIndexMap_def get_push_key)

lemma lookup_keys_distinct: "distinct (peerLookupKeys k i)" "[] \<notin> set (peerLookupKeys k i)"
  by (cases k; simp add: peerLookupKeys_def)+

lemma index_snoc: "buildEvaluatedBindingsIndex (bs @ [e]) = index_one e (buildEvaluatedBindingsIndex bs)"
  by (simp add: buildEvaluatedBindingsIndex_def)

lemma index_peer:
  "or_default (js_get (bi_byPeer (buildEvaluatedBindingsIndex bs)) k) [] =
     filter (\<lambda>e. k \<in> set (peer_keys e)) bs"
proof (induction bs rule: rev_induct)
  case (snoc e bs)
  then show ?case
    by (cases "nm_peer (ev_match e)")
       (simp_all add: index_snoc index_one_def peer_keys_def get_push_peer lookup_keys_distinct Let_def)
qed (simp add: buildEvaluatedBindingsIndex_def empty_index_def)

lemma index_lists:
  "bi_byPeerWildcard (buildEvaluatedBindingsIndex bs) = filter is_wildcard_peer bs"
  "bi_byAccount (buildEvaluatedBindingsIndex bs) =
     filter (\<lambda>e. plain_peer e \<and> \<not> hasGuildConstraint e \<and> \<not> hasTeamConstraint e \<and> \<not> is_any_account e) bs"
  "bi_byChannel (buildEvaluatedBindingsIndex bs) =
     filter (\<lambda>e. plain_peer e \<and> \<not> hasGuildConstraint e \<and> \<not> hasTeamConstraint e \<and> is_any_account e) bs"
proof (induction bs rule: rev_induct)
  case (snoc e bs)
  {
    case 1
    with snoc show ?case
      by (cases "nm_peer (ev_match e)") (simp_all add: index_snoc index_one_def is_wildcard_peer_def Let_def)
  next
    case 2
    with snoc show ?case
      by (cases "nm_peer (ev_match e)")
         (auto simp: index_snoc index_one_def is_wildcard_peer_def is_valid_peer_def plain_peer_def
           hasGuildConstraint_def hasTeamConstraint_def is_any_account_def Let_def)
  next
    case 3
    with snoc show ?case
      by (cases "nm_peer (ev_match e)")
         (auto simp: index_snoc index_one_def is_wildcard_peer_def is_valid_peer_def plain_peer_def
           hasGuildConstraint_def hasTeamConstraint_def is_any_account_def Let_def)
  }
qed (simp_all add: buildEvaluatedBindingsIndex_def empty_index_def)

lemma index_maps:
  assumes "k \<noteq> []"
  shows "get_list (bi_byGuildWithRoles (buildEvaluatedBindingsIndex bs)) k =
      filter (\<lambda>e. plain_peer e \<and> nm_guildId (ev_match e) = Some k \<and> hasRolesConstraint e) bs"
    and "get_list (bi_byGuild (buildEvaluatedBindingsIndex bs)) k =
      filter (\<lambda>e. plain_peer e \<and> nm_guildId (ev_match e) = Some k \<and> \<not> hasRolesConstraint e) bs"
    and "get_list (bi_byTeam (buildEvaluatedBindingsIndex bs)) k =
      filter (\<lambda>e. plain_peer e \<and> \<not> hasGuildConstraint e \<and> nm_teamId (ev_match e) = Some k) bs"
proof (induction bs rule: rev_induct)
  case (snoc e bs)
  note defs = index_snoc index_one_def is_wildcard_peer_def is_valid_peer_def plain_peer_def
    hasGuildConstraint_def hasRolesConstraint_def get_push_map Let_def
  {
    case 1
    with snoc assms show ?case by (cases "nm_peer (ev_match e)") (auto simp: defs)
  next
    case 2
    with snoc assms show ?case by (cases "nm_peer (ev_match e)") (auto simp: defs)
  next
    case 3
    with snoc assms show ?case by (cases "nm_peer (ev_match e)") (auto simp: defs)
  }
qed (simp_all add: buildEvaluatedBindingsIndex_def empty_index_def get_list_def)

lemma fold_add_known: "set xs \<subseteq> set ys \<Longrightarrow> fold js_set_add xs ys = ys"
  by (induction xs) (simp_all add: js_set_add_def)

lemma fold_add_new: "distinct (ys @ xs) \<Longrightarrow> fold js_set_add xs ys = ys @ xs"
  by (induction xs arbitrary: ys) (simp_all add: js_set_add_def)

definition matches_peer :: "route_peer \<Rightarrow> evaluated_binding \<Rightarrow> bool" where
  "matches_peer p e = (case nm_peer (ev_match e) of
     ValidPeer k i \<Rightarrow> peerKindMatches k (rp_kind p) \<and> i = rp_id p | _ \<Rightarrow> False)"

lemma peer_keys_iff: "k \<in> set (peerLookupKeys (rp_kind p) (rp_id p)) \<Longrightarrow>
    k \<in> set (peer_keys e) \<longleftrightarrow> matches_peer p e"
  by (cases "nm_peer (ev_match e)"; cases "rp_kind p")
     (auto simp: peer_keys_def matches_peer_def peerLookupKeys_def peerKindMatches_def
       split: chat_type.splits)

lemma in_order_distinct: "in_order es \<Longrightarrow> distinct es"
  by (induction es) (auto simp: in_order_def)

lemma collect_spec:
  assumes "in_order bs"
  shows "collectPeerIndexedBindings (buildEvaluatedBindingsIndex bs) (Some p) = filter (matches_peer p) bs"
proof -
  have entry: "or_default (js_get (bi_byPeer (buildEvaluatedBindingsIndex bs)) k) [] =
      filter (matches_peer p) bs" if "k \<in> set (peerLookupKeys (rp_kind p) (rp_id p))" for k
    unfolding index_peer by (rule filter_cong) (simp_all add: peer_keys_iff [OF that])
  have "distinct (filter (matches_peer p) bs)" using in_order_distinct [OF assms] by simp
  then have new: "fold js_set_add (filter (matches_peer p) bs) [] = filter (matches_peer p) bs"
    using fold_add_new [of "[]"] by simp
  have again: "fold js_set_add (filter (matches_peer p) bs) (filter (matches_peer p) bs)
      = filter (matches_peer p) bs" by (rule fold_add_known) simp
  show ?thesis
    unfolding collectPeerIndexedBindings_def option.case
    using entry new again by (cases "rp_kind p") (simp_all add: peerLookupKeys_def)
qed

section \<open>Tiers\<close>

definition tier_hits :: "string \<Rightarrow> string \<Rightarrow> string list \<Rightarrow> route_tier \<Rightarrow> evaluated_binding \<Rightarrow> bool" where
  "tier_hits g t roles tr e \<longleftrightarrow> rt_enabled tr \<and> rt_predicate tr e \<and>
     matchesBindingScope (ev_match e) (rt_scopePeer tr) g t roles"

lemma first_match_find:
  "first_match (tr # ts) g t roles =
     (case List.find (tier_hits g t roles tr) (rt_candidates tr) of
        Some e \<Rightarrow> Some (rt_matchedBy tr, e) | None \<Rightarrow> first_match ts g t roles)"
proof (cases "rt_enabled tr")
  case True
  then have "tier_hits g t roles tr = (\<lambda>e. rt_predicate tr e \<and>
      matchesBindingScope (ev_match e) (rt_scopePeer tr) g t roles)"
    by (auto simp: tier_hits_def)
  with True show ?thesis by simp
next
  case False
  then have "List.find (tier_hits g t roles tr) xs = None" for xs
    by (simp add: find_None_all tier_hits_def)
  with False show ?thesis by simp
qed

text \<open>
  Narrowing the candidates of each tier by a filter changes nothing, if a binding a tier would hit
  outside its filter is hit by an earlier tier.
\<close>

fun covered ::
  "(route_tier \<Rightarrow> evaluated_binding \<Rightarrow> bool) \<Rightarrow> (matched_by \<Rightarrow> evaluated_binding \<Rightarrow> bool)
     \<Rightarrow> evaluated_binding list \<Rightarrow> route_tier list \<Rightarrow> route_tier list \<Rightarrow> bool" where
  "covered hit C bs pre [] = True"
| "covered hit C bs pre (tr # ts) =
     ((\<forall>e \<in> set bs. hit tr e \<longrightarrow> C (rt_matchedBy tr) e \<or> (\<exists>x \<in> set pre. hit x e)) \<and>
      covered hit C bs (tr # pre) ts)"

lemma first_match_filter:
  assumes "\<forall>tr \<in> set pre. \<forall>e \<in> set bs. \<not> tier_hits g t roles tr e"
    and "covered (tier_hits g t roles) C bs pre ts"
  shows "first_match (map (\<lambda>tr. tr\<lparr>rt_candidates := filter (C (rt_matchedBy tr)) bs\<rparr>) ts) g t roles
       = first_match (map (\<lambda>tr. tr\<lparr>rt_candidates := bs\<rparr>) ts) g t roles"
  using assms
proof (induction ts arbitrary: pre)
  case (Cons tr ts)
  have hits: "tier_hits g t roles (tr\<lparr>rt_candidates := x\<rparr>) = tier_hits g t roles tr" for x
    by (rule ext) (simp add: tier_hits_def)
  have C: "tier_hits g t roles tr e \<Longrightarrow> C (rt_matchedBy tr) e" if "e \<in> set bs" for e
    using Cons.prems that by auto
  then have find: "List.find (tier_hits g t roles tr) (filter (C (rt_matchedBy tr)) bs)
      = List.find (tier_hits g t roles tr) bs"
    unfolding find_filter by (intro find_cong_set) auto
  show ?case
  proof (cases "List.find (tier_hits g t roles tr) bs")
    case None
    then have "\<forall>x \<in> set (tr # pre). \<forall>e \<in> set bs. \<not> tier_hits g t roles x e"
      using Cons.prems(1) by (auto simp: find_None_all)
    moreover have "covered (tier_hits g t roles) C bs (tr # pre) ts" using Cons.prems(2) by simp
    ultimately have "first_match (map (\<lambda>tr. tr\<lparr>rt_candidates := filter (C (rt_matchedBy tr)) bs\<rparr>) ts) g t roles
       = first_match (map (\<lambda>tr. tr\<lparr>rt_candidates := bs\<rparr>) ts) g t roles" by (rule Cons.IH)
    with None find hits show ?thesis by (simp add: first_match_find del: first_match.simps)
  next
    case (Some e)
    with find hits show ?thesis by (simp add: first_match_find del: first_match.simps)
  qed
qed simp

text \<open>What a match of the scope says of a binding.\<close>

definition normal_binding :: "evaluated_binding \<Rightarrow> bool" where
  "normal_binding e \<longleftrightarrow> ev_match e = normalizeBindingMatch (b_match (ev_binding e))"

lemma normal_fields:
  assumes "normal_binding e"
  shows "nm_guildId (ev_match e) \<noteq> Some []" and "nm_teamId (ev_match e) \<noteq> Some []"
    and "nm_roles (ev_match e) \<noteq> Some []"
  using assms
  by (auto simp: normal_binding_def normalizeBindingMatch_def nonempty_def
      normalizeRouteBindingRoles_def split: option.splits list.splits)

lemma scope_hits:
  assumes "matchesBindingScope (ev_match e) sp g t roles" and "normal_binding e"
    and "js_trim g = g" and "js_trim t = t"
  shows "nm_guildId (ev_match e) = Some x \<Longrightarrow> x = g \<and> g \<noteq> []"
    and "nm_teamId (ev_match e) = Some y \<Longrightarrow> y = t \<and> t \<noteq> []"
    and "hasRolesConstraint e \<Longrightarrow> roles \<noteq> []"
    and "is_valid_peer e \<Longrightarrow> \<exists>p. sp = Some p \<and> matches_peer p e"
    and "is_wildcard_peer e \<Longrightarrow> sp \<noteq> None"
proof -
  note n = normal_fields [OF assms(2)]
  have rest: "routeBindingScopeMatches
      \<lparr>sc_guildId = nm_guildId (ev_match e), sc_teamId = nm_teamId (ev_match e),
       sc_roles = nm_roles (ev_match e)\<rparr>
      \<lparr>rs_guildId = IdString g, rs_teamId = IdString t, rs_groupSpace = IdAbsent,
       rs_memberRoleIds = Some roles\<rparr>"
    using assms(1) by (auto simp: matchesBindingScope_def Let_def split: peer_constraint.splits option.splits)
  show "nm_guildId (ev_match e) = Some x \<Longrightarrow> x = g \<and> g \<noteq> []"
    using rest n(1) assms(3) by (auto simp: routeBindingScopeMatches_def normalizeRouteBindingId_def
        scopeIdMatches_def Let_def split: if_splits)
  show "nm_teamId (ev_match e) = Some y \<Longrightarrow> y = t \<and> t \<noteq> []"
    using rest n(2) assms(4) by (auto simp: routeBindingScopeMatches_def normalizeRouteBindingId_def
        scopeIdMatches_def Let_def split: if_splits)
  show "hasRolesConstraint e \<Longrightarrow> roles \<noteq> []"
    using rest n(3) by (auto simp: routeBindingScopeMatches_def hasRolesConstraint_def
        normalizeRouteBindingRoles_def hasAnyRouteBindingRole_def Let_def list_ex_iff
        split: if_splits option.splits list.splits)
  show "is_valid_peer e \<Longrightarrow> \<exists>p. sp = Some p \<and> matches_peer p e"
    using assms(1) by (auto simp: matchesBindingScope_def is_valid_peer_def matches_peer_def
        split: peer_constraint.splits option.splits)
  show "is_wildcard_peer e \<Longrightarrow> sp \<noteq> None"
    using assms(1) by (auto simp: matchesBindingScope_def is_wildcard_peer_def
        split: peer_constraint.splits option.splits)
qed

text \<open>The filters the indexes apply to each tier.\<close>

definition tier_filter :: "route_peer option \<Rightarrow> route_peer option \<Rightarrow> string \<Rightarrow> string
    \<Rightarrow> matched_by \<Rightarrow> evaluated_binding \<Rightarrow> bool" where
  "tier_filter peer parentPeer g t by e =
     (case by of
        ByPeer \<Rightarrow> (case peer of None \<Rightarrow> False | Some p \<Rightarrow> matches_peer p e)
      | ByPeerParent \<Rightarrow> (case parentPeer of None \<Rightarrow> False | Some p \<Rightarrow> matches_peer p e)
      | ByPeerWildcard \<Rightarrow> is_wildcard_peer e
      | ByGuildRoles \<Rightarrow> g \<noteq> [] \<and> plain_peer e \<and> nm_guildId (ev_match e) = Some g \<and> hasRolesConstraint e
      | ByGuild \<Rightarrow> g \<noteq> [] \<and> plain_peer e \<and> nm_guildId (ev_match e) = Some g \<and> \<not> hasRolesConstraint e
      | ByTeam \<Rightarrow> t \<noteq> [] \<and> plain_peer e \<and> \<not> hasGuildConstraint e \<and> nm_teamId (ev_match e) = Some t
      | ByAccount \<Rightarrow> plain_peer e \<and> \<not> hasGuildConstraint e \<and> \<not> hasTeamConstraint e \<and> \<not> is_any_account e
      | ByChannel \<Rightarrow> plain_peer e \<and> \<not> hasGuildConstraint e \<and> \<not> hasTeamConstraint e \<and> is_any_account e
      | ByDefault \<Rightarrow> False)"

lemma indexed_candidates_filter:
  assumes "in_order bs"
  shows "indexed_candidates (buildEvaluatedBindingsIndex bs) peer parentPeer g t by
     = filter (tier_filter peer parentPeer g t by) bs"
proof -
  have none: "collectPeerIndexedBindings (buildEvaluatedBindingsIndex bs) None = []"
    by (simp add: collectPeerIndexedBindings_def)
  have peer: "collectPeerIndexedBindings (buildEvaluatedBindingsIndex bs) q =
      filter (\<lambda>e. case q of None \<Rightarrow> False | Some p \<Rightarrow> matches_peer p e) bs" for q
    by (cases q) (simp_all add: none collect_spec [OF assms])
  have maps: "get_list m k = []" if "k = []" for m :: "(string, evaluated_binding list) js_map" and k
    using that by (simp add: get_list_def)
  show ?thesis
    unfolding indexed_candidates_def tier_filter_def
    by (cases "by"; cases "g = []"; cases "t = []")
       (simp_all add: peer index_lists index_maps maps)
qed

lemma tiers_covered:
  assumes "\<forall>e \<in> set bs. normal_binding e" and "js_trim g = g" and "js_trim t = t"
  shows "covered (tier_hits g t roles) (tier_filter peer pp g t) bs []
           (route_tiers c peer pp g t roles)"
proof -
  define parent where
    "parent = (case pp of None \<Rightarrow> None | Some p \<Rightarrow> if rp_id p = [] then None else Some p)"
  define scope :: "route_peer option \<Rightarrow> evaluated_binding \<Rightarrow> bool"
    where "scope sp e = matchesBindingScope (ev_match e) sp g t roles" for sp e
  have s: "nm_guildId (ev_match e) = Some x \<Longrightarrow> x = g \<and> g \<noteq> []"
    "nm_teamId (ev_match e) = Some y \<Longrightarrow> y = t \<and> t \<noteq> []"
    "hasRolesConstraint e \<Longrightarrow> roles \<noteq> []"
    "is_valid_peer e \<Longrightarrow> \<exists>p. sp = Some p \<and> matches_peer p e"
    "is_wildcard_peer e \<Longrightarrow> sp \<noteq> None"
    if "scope sp e" "e \<in> set bs" for e sp x y
    using scope_hits [OF that(1) [unfolded scope_def]] assms that(2) by blast+
  have parent: "parent = Some p \<Longrightarrow> pp = Some p" for p
    by (auto simp: parent_def split: option.splits if_splits)
  have plain: "plain_peer e \<or> peer \<noteq> None \<and> is_valid_peer e \<and> scope peer e \<or>
      peer \<noteq> None \<and> is_wildcard_peer e \<and> scope peer e" if "scope peer e" "e \<in> set bs" for e
    using s(4,5) [OF that] that(1) by (auto simp: plain_peer_def)
  have guild: "hasGuildConstraint e \<Longrightarrow> nm_guildId (ev_match e) = Some g \<and> g \<noteq> []"
    "hasTeamConstraint e \<Longrightarrow> nm_teamId (ev_match e) = Some t \<and> t \<noteq> []"
    if "scope peer e" "e \<in> set bs" for e
    using s(1,2) [OF that] by (auto simp: hasGuildConstraint_def hasTeamConstraint_def)
  have hit: "tier_hits g t roles
      \<lparr>rt_matchedBy = mb, rt_enabled = en, rt_scopePeer = sp, rt_candidates = cs, rt_predicate = pr\<rparr> e
      \<longleftrightarrow> en \<and> pr e \<and> scope sp e" for mb en sp cs pr e
    by (simp add: tier_hits_def scope_def)
  have facts: "(is_valid_peer e \<longrightarrow> peer \<noteq> None \<and> (\<exists>p. peer = Some p \<and> matches_peer p e)) \<and>
      (is_wildcard_peer e \<longrightarrow> peer \<noteq> None) \<and>
      (hasGuildConstraint e \<longrightarrow> nm_guildId (ev_match e) = Some g \<and> g \<noteq> []) \<and>
      (hasTeamConstraint e \<longrightarrow> nm_teamId (ev_match e) = Some t \<and> t \<noteq> []) \<and>
      (hasRolesConstraint e \<longrightarrow> roles \<noteq> [])" if "scope peer e" "e \<in> set bs" for e
    using s(3-5) [OF that] guild [OF that] by blast
  have parent_facts: "is_valid_peer e \<longrightarrow> (\<exists>p. pp = Some p \<and> matches_peer p e)"
    if "scope parent e" "e \<in> set bs" for e
    using s(4) [OF that] parent by blast
  show ?thesis
    unfolding route_tiers_def Let_def covered.simps parent_def [symmetric] hit
  proof (intro conjI ballI impI TrueI, goal_cases)
    case (2 e)
    then show ?case using parent_facts [of e] by (auto simp: tier_filter_def)
  next
    case (1 e)
    from 1(2) have "scope peer e" by simp
    from facts [OF this 1(1)] 1(2) show ?case
      by (auto simp: hit tier_filter_def plain_peer_def)
  next
    case (3 e)
    from 3(2) have "scope peer e" by simp
    from facts [OF this 3(1)] 3(2) show ?case
      by (cases "is_valid_peer e"; cases "is_wildcard_peer e"; cases "hasGuildConstraint e";
          cases "hasTeamConstraint e"; cases "hasRolesConstraint e")
         (simp_all add: hit tier_filter_def plain_peer_def)
  next
    case (4 e)
    from 4(2) have "scope peer e" by simp
    from facts [OF this 4(1)] 4(2) show ?case
      by (cases "is_valid_peer e"; cases "is_wildcard_peer e"; cases "hasGuildConstraint e";
          cases "hasTeamConstraint e"; cases "hasRolesConstraint e")
         (simp_all add: hit tier_filter_def plain_peer_def)
  next
    case (5 e)
    from 5(2) have "scope peer e" by simp
    from facts [OF this 5(1)] 5(2) show ?case
      by (cases "is_valid_peer e"; cases "is_wildcard_peer e"; cases "hasGuildConstraint e";
          cases "hasTeamConstraint e"; cases "hasRolesConstraint e")
         (simp_all add: hit tier_filter_def plain_peer_def)
  next
    case (6 e)
    from 6(2) have "scope peer e" by simp
    from facts [OF this 6(1)] 6(2) show ?case
      by (cases "is_valid_peer e"; cases "is_wildcard_peer e"; cases "hasGuildConstraint e";
          cases "hasTeamConstraint e"; cases "hasRolesConstraint e")
         (simp_all add: hit tier_filter_def plain_peer_def)
  next
    case (7 e)
    from 7(2) have "scope peer e" by simp
    from facts [OF this 7(1)] 7(2) show ?case
      by (cases "is_valid_peer e"; cases "is_wildcard_peer e"; cases "hasGuildConstraint e";
          cases "hasTeamConstraint e"; cases "hasRolesConstraint e")
         (simp_all add: hit tier_filter_def plain_peer_def)
  next
    case (8 e)
    from 8(2) have "scope peer e" by simp
    from facts [OF this 8(1)] 8(2) show ?case
      by (cases "is_valid_peer e"; cases "is_wildcard_peer e"; cases "hasGuildConstraint e";
          cases "hasTeamConstraint e"; cases "hasRolesConstraint e")
         (simp_all add: hit tier_filter_def plain_peer_def)
  qed
qed

section \<open>The properties of routes\<close>

lemma evaluate_normal: "\<forall>e \<in> set (evaluate_bindings bs n). normal_binding e"
  by (induction bs arbitrary: n) (simp_all add: normal_binding_def)

lemma applicable_facts:
  "in_order (applicable_bindings cfg ch a)" "\<forall>e \<in> set (applicable_bindings cfg ch a). normal_binding e"
  using evaluate_in_order [of "listBindings cfg" 0] evaluate_normal [of "listBindings cfg" 0]
  by (auto simp: applicable_bindings_def in_order_def sorted_wrt_filter)

lemma binding_id_trimmed: "js_trim (normalizeRouteBindingId v) = normalizeRouteBindingId v"
  by (cases v) (simp_all add: normalizeRouteBindingId_def)

lemma route_tiers_candidates:
  "route_tiers c peer pp g t roles =
     map (\<lambda>tr. tr\<lparr>rt_candidates := c (rt_matchedBy tr)\<rparr>) (route_tiers (\<lambda>_. []) peer pp g t roles)"
  by (simp add: route_tiers_def Let_def)

lemma first_match_indexed:
  assumes "in_order bs" and "\<forall>e \<in> set bs. normal_binding e" and "js_trim g = g" and "js_trim t = t"
  shows "first_match (route_tiers (indexed_candidates (buildEvaluatedBindingsIndex bs) peer pp g t)
            peer pp g t roles) g t roles
       = first_match (route_tiers (\<lambda>_. bs) peer pp g t roles) g t roles"
proof -
  have ix: "indexed_candidates (buildEvaluatedBindingsIndex bs) peer pp g t =
      (\<lambda>by. filter (tier_filter peer pp g t by) bs)"
    by (rule ext) (rule indexed_candidates_filter [OF assms(1)])
  show ?thesis
    unfolding ix route_tiers_candidates [of "\<lambda>by. filter (tier_filter peer pp g t by) bs"]
      route_tiers_candidates [of "\<lambda>_. bs"]
    by (rule first_match_filter [where pre = "[]"]) (simp, rule tiers_covered [OF assms(2-4)])
qed

lemma resolve_is_scan: "resolveAgentRoute cfg inp = scanned_route cfg inp"
  unfolding resolveAgentRoute_def scanned_route_def Let_def bindings_for_account
  by (subst first_match_indexed [OF applicable_facts binding_id_trimmed binding_id_trimmed]) (rule refl)

text \<open>
  C8. The indexes are a pure optimisation: for every configuration and every request, the route found
  through the per-channel, per-account, per-peer, per-guild and per-team indexes is the route a scan of
  all configured bindings in source order finds, tier by tier, with no index at all.
\<close>
theorem indexed_route_is_scan:
  "resolveAgentRoute cfg inp = scanned_route cfg inp"
  by (rule resolve_is_scan)

definition self_keyed :: "(string, string) js_map \<Rightarrow> bool" where
  "self_keyed m \<longleftrightarrow> (\<forall>e \<in> set m. snd e = fst e)"

lemma self_keyed_set: "self_keyed m \<Longrightarrow> self_keyed (js_set k k m)"
  unfolding self_keyed_def by (rule ballI, drule subsetD [OF set_js_set_subset]) auto

lemma agents_by_id_self: "self_keyed (agents_by_normalized_id cfg)"
proof -
  have "self_keyed (fold (\<lambda>a m. let rawId = js_trim (or_default (ae_id a) []) in
       if rawId = [] then m
       else js_set (normalizeAgentId (Some rawId)) (sanitizeAgentId (Some rawId)) m) agents m)"
    if "self_keyed m" for agents m
    using that by (induction agents arbitrary: m) (simp_all add: Let_def sanitizeAgentId_def self_keyed_set)
  from this [of "[]" "cfg_agents cfg"] show ?thesis
    by (simp add: agents_by_normalized_id_def) (simp add: self_keyed_def)
qed

lemma agents_by_id_keys: "js_get (agents_by_normalized_id cfg) k = Some v \<Longrightarrow> v = k"
  using agents_by_id_self [of cfg] by (auto simp: self_keyed_def dest!: map_of_SomeD)

lemma choose_route_fields [simp]:
  "rr_agentId (choose_route cfg ch a p i by d) = pickFirstExistingAgentId cfg i"
  "rr_matchedBy (choose_route cfg ch a p i by d) = by"
  by (simp_all add: choose_route_def Let_def)

lemma picked_agent:
  assumes "agents_by_normalized_id cfg \<noteq> []"
  shows "pickFirstExistingAgentId cfg i \<in> set (js_keys (agents_by_normalized_id cfg)) \<or>
         pickFirstExistingAgentId cfg i = normalizeAgentId (Some (resolveDefaultAgentId cfg))"
proof (cases "js_get (agents_by_normalized_id cfg) (normalizeAgentId (Some (js_trim i)))")
  case None
  with assms show ?thesis by (simp add: pickFirstExistingAgentId_def sanitizeAgentId_def Let_def)
next
  case (Some v)
  then have "v \<in> set (js_keys (agents_by_normalized_id cfg))"
    using agents_by_id_keys [OF Some] js_get_None_iff [of "agents_by_normalized_id cfg" v] by auto
  with Some assms show ?thesis
    by (simp add: pickFirstExistingAgentId_def sanitizeAgentId_def Let_def)
qed

text \<open>
  A route never leads to an unknown agent: when agents are configured, whatever agent id a
  binding names, the route's agent is one of the configured agents or the default agent, and the
  route's session key belongs to that agent.
\<close>
theorem route_agent_is_configured:
  assumes "agents_by_normalized_id cfg \<noteq> []"
  shows "(rr_agentId (resolveAgentRoute cfg inp) \<in> set (js_keys (agents_by_normalized_id cfg)) \<or>
      rr_agentId (resolveAgentRoute cfg inp) = normalizeAgentId (Some (resolveDefaultAgentId cfg))) \<and>
    (\<exists>rest. rr_sessionKey (resolveAgentRoute cfg inp) =
       ''agent:'' @ normalizeAgentId (Some (rr_agentId (resolveAgentRoute cfg inp))) @ '':'' @ rest)"
proof -
  have "\<exists>i by d. finish_route cfg ch a p m = choose_route cfg ch a p i by d" for ch a p m
    unfolding finish_route_def by (cases m) (fastforce split: prod.split)+
  then have "\<exists>ch a p i by d. resolveAgentRoute cfg inp = choose_route cfg ch a p i by d"
    unfolding resolveAgentRoute_def Let_def by metis
  then obtain ch a p i "by" d where r: "resolveAgentRoute cfg inp = choose_route cfg ch a p i by d"
    by blast
  have "\<exists>rest. rr_sessionKey (choose_route cfg ch a p i by d) =
      ''agent:'' @ normalizeAgentId (Some (pickFirstExistingAgentId cfg i)) @ '':'' @ rest"
  proof -
    have key: "\<exists>ps. rr_sessionKey (choose_route cfg ch a p i by d) = buildAgentPeerSessionKey ps \<and>
        pk_agentId ps = pickFirstExistingAgentId cfg i"
      unfolding choose_route_def buildAgentSessionKey_def Let_def
      by (intro exI conjI) (simp_all only: resolved_route.simps, rule peer_key_params.select_convs)
    then show ?thesis using peer_key_head by metis
  qed
  with picked_agent [OF assms, of i] show ?thesis unfolding r by simp
qed

text \<open>
  The most specific binding wins: if any applicable binding names the request's peer and its scope
  matches, the route comes from a peer binding, and from the first such binding in source order.
\<close>
theorem peer_binding_wins:
  assumes "normalize_peer (in_peer inp) = Some p"
    and "applicable_bindings cfg (normalizeLowercaseStringOrEmpty (Some (in_channel inp)))
           (normalizeAccountId (in_accountId inp)) = xs @ e # ys"
    and "\<And>x. x \<in> set xs \<Longrightarrow> \<not> is_valid_peer x"
    and "is_valid_peer e"
    and "matchesBindingScope (ev_match e) (Some p) (normalizeRouteBindingId (in_guildId inp))
           (normalizeRouteBindingId (in_teamId inp)) (or_default (in_memberRoleIds inp) [])"
  shows "rr_matchedBy (resolveAgentRoute cfg inp) = ByPeer \<and>
    rr_agentId (resolveAgentRoute cfg inp) = pickFirstExistingAgentId cfg (b_agentId (ev_binding e))"
proof -
  let ?g = "normalizeRouteBindingId (in_guildId inp)" and ?t = "normalizeRouteBindingId (in_teamId inp)"
  let ?roles = "or_default (in_memberRoleIds inp) []"
  have "List.find (\<lambda>e. is_valid_peer e \<and> matchesBindingScope (ev_match e) (Some p) ?g ?t ?roles)
      (xs @ e # ys) = Some e"
    using assms(3-5) by (induction xs) auto
  then have "first_match (route_tiers (\<lambda>by. xs @ e # ys) (Some p) (normalize_peer (in_parentPeer inp))
      ?g ?t ?roles) ?g ?t ?roles = Some (ByPeer, e)"
    by (simp add: route_tiers_def Let_def)
  then show ?thesis
    using resolve_is_scan [of cfg inp] assms(1,2)
    by (simp add: scanned_route_def finish_route_def Let_def)
qed

definition sample_binding :: "string \<Rightarrow> (string option \<times> route_id) option \<Rightarrow> agent_binding" where
  "sample_binding agent peer =
     \<lparr>b_type = RouteBinding, b_agentId = agent,
      b_match = \<lparr>bm_channel = Some ''discord'', bm_accountId = Some ''*'', bm_peer = peer,
                 bm_guildId = IdAbsent, bm_teamId = IdAbsent, bm_roles = None\<rparr>,
      b_dmScope = None\<rparr>"

definition sample_config :: route_config where
  "sample_config =
     \<lparr>cfg_agents = [\<lparr>ae_id = Some ''Main'', ae_default = True\<rparr>, \<lparr>ae_id = Some ''ops'', ae_default = False\<rparr>],
      cfg_bindings = [sample_binding ''main'' None,
                      sample_binding ''ops'' (Some (Some ''group'', IdString ''42''))],
      cfg_dmScope = None, cfg_identityLinks = None\<rparr>"

definition sample_input :: route_input where
  "sample_input =
     \<lparr>in_channel = ''Discord'', in_accountId = None, in_peer = Some (Channel, IdString ''42''),
      in_parentPeer = None, in_guildId = IdAbsent, in_teamId = IdAbsent, in_memberRoleIds = None\<rparr>"

lemma peer_binding_wins_witness:
  "rr_matchedBy (resolveAgentRoute sample_config sample_input) = ByPeer"
proof -
  have p: "normalize_peer (in_peer sample_input) = Some \<lparr>rp_kind = Channel, rp_id = ''42''\<rparr>"
    by code_simp
  let ?bs = "applicable_bindings sample_config (normalizeLowercaseStringOrEmpty (Some (in_channel sample_input)))
      (normalizeAccountId (in_accountId sample_input))"
  have bs: "?bs = [hd ?bs] @ hd (tl ?bs) # []" by code_simp
  have head: "\<not> is_valid_peer (hd ?bs)" by code_simp
  have valid: "is_valid_peer (hd (tl ?bs))" by code_simp
  have scope: "matchesBindingScope (ev_match (hd (tl ?bs))) (Some \<lparr>rp_kind = Channel, rp_id = ''42''\<rparr>)
      (normalizeRouteBindingId (in_guildId sample_input))
      (normalizeRouteBindingId (in_teamId sample_input)) (or_default (in_memberRoleIds sample_input) [])"
    by code_simp
  have "\<not> is_valid_peer x" if "x \<in> set [hd ?bs]" for x using that head by simp
  from peer_binding_wins [OF p bs this valid scope] show ?thesis by simp
qed

definition bare_config :: route_config where
  "bare_config = \<lparr>cfg_agents = [], cfg_bindings = [], cfg_dmScope = None, cfg_identityLinks = None\<rparr>"

lemma route_agent_is_configured_witness:
  "rr_agentId (resolveAgentRoute sample_config sample_input)
     \<in> set (js_keys (agents_by_normalized_id sample_config)) \<or>
   rr_agentId (resolveAgentRoute sample_config sample_input)
     = normalizeAgentId (Some (resolveDefaultAgentId sample_config))"
proof -
  have "agents_by_normalized_id sample_config \<noteq> []"
    by (simp add: agents_by_normalized_id_def sample_config_def Let_def js_trim_trimmed trimmed_def
        is_js_space_def)
  then show ?thesis using route_agent_is_configured by blast
qed

text \<open>
  The key of the route cache confuses two requests the resolver tells apart: a peer whose id is
  empty and no peer at all have the same key, but the first is routed to the session of an unknown
  group and the second to the agent's main session, so the answer depends on which came first.
\<close>
theorem route_cache_key_collision:
  "buildResolvedRouteCacheKey bare_config (sample_input\<lparr>in_peer := Some (Group, IdString '' '')\<rparr>)
     = buildResolvedRouteCacheKey bare_config (sample_input\<lparr>in_peer := None\<rparr>) \<and>
   rr_lastRoutePolicy (resolveAgentRoute bare_config
     (sample_input\<lparr>in_peer := Some (Group, IdString '' '')\<rparr>)) = PolicySession \<and>
   rr_lastRoutePolicy (resolveAgentRoute bare_config (sample_input\<lparr>in_peer := None\<rparr>)) = PolicyMain"
proof -
  have peers: "normalize_peer (Some (Group, IdString '' '')) = Some \<lparr>rp_kind = Group, rp_id = []\<rparr>"
    "normalize_peer None = None" by code_simp+
  have key: "formatRouteCachePeer (Some \<lparr>rp_kind = Group, rp_id = []\<rparr>) = ''-''"
    "formatRouteCachePeer None = ''-''" by code_simp+
  have "buildResolvedRouteCacheKey bare_config (sample_input\<lparr>in_peer := Some (Group, IdString '' '')\<rparr>)
     = buildResolvedRouteCacheKey bare_config (sample_input\<lparr>in_peer := None\<rparr>)"
    by (simp add: buildResolvedRouteCacheKey_def peers key)
  moreover have "rr_lastRoutePolicy (resolveAgentRoute bare_config
     (sample_input\<lparr>in_peer := Some (Group, IdString '' '')\<rparr>)) = PolicySession" by code_simp
  moreover have "rr_lastRoutePolicy (resolveAgentRoute bare_config (sample_input\<lparr>in_peer := None\<rparr>))
     = PolicyMain" by code_simp
  ultimately show ?thesis by blast
qed

end
