(* ===== verification/TaskFlowStore.thy ===== *)
theory TaskFlowStore
  imports SessionKey
begin

text \<open>
  The persistent side of the task-flow registry: \<^verbatim>\<open>tasks/task-flow-registry.types.ts\<close>,
  \<^verbatim>\<open>tasks/task-flow-registry.store.sqlite.ts\<close> and the delivery-context normalization its rows go
  through.  A row of \<^verbatim>\<open>flow_runs\<close> is a record with one field per column; a JSON text column holds
  the document the text denotes.  Times and revisions are whole numbers of milliseconds and counts.
  The channel registry that \<^verbatim>\<open>normalizeMessageChannel\<close> consults belongs to the plugins and is a
  parameter, \<^verbatim>\<open>norm_channel\<close>.
\<close>

section \<open>JSON documents\<close>

datatype json_value =
    JNull
  | JBool bool
  | JNumber js_number
  | JString string
  | JArray "json_value list"
  | JObject "(string \<times> json_value) list"

text \<open>A text column: the document it holds, or a text that is blank or not JSON.\<close>

datatype json_text = JsonDoc json_value | NotJson

text \<open>\<^verbatim>\<open>JSON.stringify\<close> writes a number that is not finite as \<^verbatim>\<open>null\<close>.\<close>

primrec json_stringify :: "json_value \<Rightarrow> json_value" where
  "json_stringify JNull = JNull"
| "json_stringify (JBool b) = JBool b"
| "json_stringify (JNumber n) = (if is_finite_num n then JNumber n else JNull)"
| "json_stringify (JString s) = JString s"
| "json_stringify (JArray xs) = JArray (map json_stringify xs)"
| "json_stringify (JObject kvs) = JObject (map (map_prod id json_stringify) kvs)"

definition serializeJson :: "json_value option \<Rightarrow> json_text option" where
  "serializeJson v = map_option (\<lambda>x. JsonDoc (json_stringify x)) v"

definition parseJsonValue :: "json_text option \<Rightarrow> json_value option" where
  "parseJsonValue raw = (case raw of Some (JsonDoc v) \<Rightarrow> Some v | _ \<Rightarrow> None)"

lemma json_stringify_idem [simp]: "json_stringify (json_stringify v) = json_stringify v"
  by (induction v) auto

lemma parse_serialize [simp]: "parseJsonValue (serializeJson v) = map_option json_stringify v"
  by (cases v) (simp_all add: serializeJson_def parseJsonValue_def)

section \<open>Delivery contexts\<close>

record delivery_intent =
  intent_id :: string
  intent_kind :: string
  intent_queuePolicy :: "string option"

datatype thread_id = ThreadStr string | ThreadNum js_number

record delivery_context =
  dc_channel :: "string option"
  dc_to :: "string option"
  dc_accountId :: "string option"
  dc_threadId :: "thread_id option"
  dc_intent :: "delivery_intent option"

definition normalizeOptionalThreadValue :: "thread_id option \<Rightarrow> thread_id option" where
  "normalizeOptionalThreadValue v =
     (case v of
        Some (ThreadNum (Num q)) \<Rightarrow> Some (ThreadNum (Num (of_int (js_trunc q))))
      | Some (ThreadNum _) \<Rightarrow> None
      | Some (ThreadStr s) \<Rightarrow> map_option ThreadStr (normalizeOptionalString (Some s))
      | None \<Rightarrow> None)"

text \<open>\<^verbatim>\<open>normalizeChannelRouteRef\<close>, as far as a route target sets its fields.\<close>

definition normalizeChannelRouteRef :: "delivery_context \<Rightarrow> delivery_context option" where
  "normalizeChannelRouteRef c =
     (let channel = normalizeLowercaseStringOrEmpty (dc_channel c);
          account = (case dc_accountId c of None \<Rightarrow> None | Some a \<Rightarrow> normalizeOptionalAccountId (Some a));
          target = normalizeOptionalString (dc_to c);
          thread = normalizeOptionalThreadValue (dc_threadId c)
      in if channel = [] \<and> target = None \<and> account = None \<and> thread = None then None
         else Some \<lparr>dc_channel = (if channel = [] then None else Some channel), dc_to = target,
                    dc_accountId = account, dc_threadId = thread, dc_intent = None\<rparr>)"

definition normalizeDeliveryContext ::
  "(string \<Rightarrow> string option) \<Rightarrow> delivery_context \<Rightarrow> delivery_context option" where
  "normalizeDeliveryContext norm_channel c =
     (case normalizeChannelRouteRef
             (c\<lparr>dc_channel := (case dc_channel c of
                                None \<Rightarrow> None
                              | Some raw \<Rightarrow> Some (or_default (norm_channel raw) (js_trim raw)))\<rparr>) of
        None \<Rightarrow> None
      | Some route \<Rightarrow>
          Some \<lparr>dc_channel = dc_channel route, dc_to = dc_to route,
                dc_accountId = normalizeOptionalAccountId (dc_accountId route),
                dc_threadId = dc_threadId route, dc_intent = None\<rparr>)"

text \<open>What \<^verbatim>\<open>JSON.stringify\<close> makes of a context: an absent field is left out.\<close>

fun thread_json :: "thread_id \<Rightarrow> json_value" where
  "thread_json (ThreadStr s) = JString s"
| "thread_json (ThreadNum n) = JNumber n"

definition intent_json :: "delivery_intent \<Rightarrow> json_value" where
  "intent_json i =
     JObject ([(''id'', JString (intent_id i)), (''kind'', JString (intent_kind i))]
       @ (case intent_queuePolicy i of None \<Rightarrow> [] | Some p \<Rightarrow> [(''queuePolicy'', JString p)]))"

definition opt_member :: "string \<Rightarrow> ('a \<Rightarrow> json_value) \<Rightarrow> 'a option \<Rightarrow> (string \<times> json_value) list" where
  "opt_member k f v = (case v of None \<Rightarrow> [] | Some x \<Rightarrow> [(k, f x)])"

definition delivery_context_json :: "delivery_context \<Rightarrow> json_value" where
  "delivery_context_json c =
     JObject (opt_member ''channel'' JString (dc_channel c) @ opt_member ''to'' JString (dc_to c)
       @ opt_member ''accountId'' JString (dc_accountId c)
       @ opt_member ''threadId'' thread_json (dc_threadId c)
       @ opt_member ''deliveryIntent'' intent_json (dc_intent c))"

definition json_string :: "json_value option \<Rightarrow> string option" where
  "json_string v = (case v of Some (JString s) \<Rightarrow> Some s | _ \<Rightarrow> None)"

definition json_thread :: "json_value option \<Rightarrow> thread_id option" where
  "json_thread v =
     (case v of Some (JString s) \<Rightarrow> Some (ThreadStr s) | Some (JNumber n) \<Rightarrow> Some (ThreadNum n) | _ \<Rightarrow> None)"

definition parseDeliveryContextJson ::
  "(string \<Rightarrow> string option) \<Rightarrow> json_text option \<Rightarrow> delivery_context option" where
  "parseDeliveryContextJson norm_channel raw =
     (case parseJsonValue raw of
        Some (JObject kvs) \<Rightarrow>
          normalizeDeliveryContext norm_channel
            \<lparr>dc_channel = json_string (js_get kvs ''channel''), dc_to = json_string (js_get kvs ''to''),
             dc_accountId = json_string (js_get kvs ''accountId''),
             dc_threadId = json_thread (js_get kvs ''threadId''), dc_intent = None\<rparr>
      | _ \<Rightarrow> None)"

section \<open>Flow records\<close>

datatype sync_mode = TaskMirrored | Managed

datatype flow_status =
  FsQueued | FsRunning | FsWaiting | FsBlocked | FsSucceeded | FsFailed | FsCancelled | FsLost

datatype notify_policy = DoneOnly | StateChanges | Silent

datatype flow_error =
    OwnerKeyRequired
  | ControllerIdRequired
  | InvalidPersisted string string
  | StoreUnavailable

record flow =
  flowId :: string
  syncMode :: sync_mode
  ownerKey :: string
  requesterOrigin :: "delivery_context option"
  controllerId :: "string option"
  revision :: int
  status :: flow_status
  notifyPolicy :: notify_policy
  goal :: string
  currentStep :: "string option"
  blockedTaskId :: "string option"
  blockedSummary :: "string option"
  stateJson :: "json_value option"
  waitJson :: "json_value option"
  cancelRequestedAt :: "int option"
  createdAt :: int
  updatedAt :: int
  endedAt :: "int option"

fun sync_mode_name :: "sync_mode \<Rightarrow> string" where
  "sync_mode_name TaskMirrored = ''task_mirrored''"
| "sync_mode_name Managed = ''managed''"

fun flow_status_name :: "flow_status \<Rightarrow> string" where
  "flow_status_name FsQueued = ''queued''"
| "flow_status_name FsRunning = ''running''"
| "flow_status_name FsWaiting = ''waiting''"
| "flow_status_name FsBlocked = ''blocked''"
| "flow_status_name FsSucceeded = ''succeeded''"
| "flow_status_name FsFailed = ''failed''"
| "flow_status_name FsCancelled = ''cancelled''"
| "flow_status_name FsLost = ''lost''"

fun notify_policy_name :: "notify_policy \<Rightarrow> string" where
  "notify_policy_name DoneOnly = ''done_only''"
| "notify_policy_name StateChanges = ''state_changes''"
| "notify_policy_name Silent = ''silent''"

definition TASK_FLOW_SYNC_MODES :: "sync_mode list" where
  "TASK_FLOW_SYNC_MODES = [TaskMirrored, Managed]"

definition TASK_FLOW_STATUSES :: "flow_status list" where
  "TASK_FLOW_STATUSES =
     [FsQueued, FsRunning, FsWaiting, FsBlocked, FsSucceeded, FsFailed, FsCancelled, FsLost]"

definition TASK_NOTIFY_POLICIES :: "notify_policy list" where
  "TASK_NOTIFY_POLICIES = [DoneOnly, StateChanges, Silent]"

definition parsePersistedFlowValue ::
  "('a \<Rightarrow> string) \<Rightarrow> 'a list \<Rightarrow> string \<Rightarrow> string \<Rightarrow> flow_error + 'a" where
  "parsePersistedFlowValue name values label v =
     (case List.find (\<lambda>x. name x = v) values of Some x \<Rightarrow> Inr x | None \<Rightarrow> Inl (InvalidPersisted label v))"

definition parseOptionalTaskFlowSyncMode :: "string option \<Rightarrow> flow_error + sync_mode option" where
  "parseOptionalTaskFlowSyncMode v =
     (case v of
        None \<Rightarrow> Inr None
      | Some s \<Rightarrow>
          if s = [] then Inr None
          else result_bind (parsePersistedFlowValue sync_mode_name TASK_FLOW_SYNC_MODES ''sync mode'' s)
                 (\<lambda>m. Inr (Some m)))"

definition parseTaskFlowStatus :: "string \<Rightarrow> flow_error + flow_status" where
  "parseTaskFlowStatus v = parsePersistedFlowValue flow_status_name TASK_FLOW_STATUSES ''status'' v"

definition parseTaskNotifyPolicy :: "string \<Rightarrow> flow_error + notify_policy" where
  "parseTaskNotifyPolicy v =
     parsePersistedFlowValue notify_policy_name TASK_NOTIFY_POLICIES ''notify policy'' v"

lemma parse_sync_mode_name [simp]:
  "parseOptionalTaskFlowSyncMode (Some (sync_mode_name m)) = Inr (Some m)"
  by (cases m) (simp_all add: parseOptionalTaskFlowSyncMode_def parsePersistedFlowValue_def
      TASK_FLOW_SYNC_MODES_def)

lemma parse_flow_status_name [simp]: "parseTaskFlowStatus (flow_status_name st) = Inr st"
  by (cases st) (simp_all add: parseTaskFlowStatus_def parsePersistedFlowValue_def
      TASK_FLOW_STATUSES_def)

lemma parse_notify_policy_name [simp]: "parseTaskNotifyPolicy (notify_policy_name p) = Inr p"
  by (cases p) (simp_all add: parseTaskNotifyPolicy_def parsePersistedFlowValue_def
      TASK_NOTIFY_POLICIES_def)

section \<open>Rows\<close>

record flow_row =
  row_flow_id :: string
  row_sync_mode :: "string option"
  row_shape :: "string option"
  row_owner_key :: string
  row_requester_origin_json :: "json_text option"
  row_controller_id :: "string option"
  row_revision :: int
  row_status :: string
  row_notify_policy :: string
  row_goal :: string
  row_current_step :: "string option"
  row_blocked_task_id :: "string option"
  row_blocked_summary :: "string option"
  row_state_json :: "json_text option"
  row_wait_json :: "json_text option"
  row_cancel_requested_at :: "int option"
  row_created_at :: int
  row_updated_at :: int
  row_ended_at :: "int option"

definition rowToSyncMode :: "flow_row \<Rightarrow> flow_error + sync_mode" where
  "rowToSyncMode row =
     result_bind (parseOptionalTaskFlowSyncMode (row_sync_mode row)) (\<lambda>m.
       Inr (case m of
              Some mode \<Rightarrow> mode
            | None \<Rightarrow> if row_shape row = Some ''single_task'' then TaskMirrored else Managed))"

text \<open>A column that is tested for truth: the empty string counts as absent.\<close>

definition truthy_string :: "string option \<Rightarrow> string option" where
  "truthy_string v = (if v = Some [] then None else v)"

definition rowToFlowRecord ::
  "(string \<Rightarrow> string option) \<Rightarrow> flow_row \<Rightarrow> flow_error + flow" where
  "rowToFlowRecord norm_channel row =
     result_bind (rowToSyncMode row) (\<lambda>mode.
     result_bind (parseTaskFlowStatus (row_status row)) (\<lambda>st.
     result_bind (parseTaskNotifyPolicy (row_notify_policy row)) (\<lambda>policy.
       Inr \<lparr>flowId = row_flow_id row, syncMode = mode, ownerKey = row_owner_key row,
            requesterOrigin = parseDeliveryContextJson norm_channel (row_requester_origin_json row),
            controllerId = truthy_string (row_controller_id row), revision = row_revision row,
            status = st, notifyPolicy = policy, goal = row_goal row,
            currentStep = truthy_string (row_current_step row),
            blockedTaskId = truthy_string (row_blocked_task_id row),
            blockedSummary = truthy_string (row_blocked_summary row),
            stateJson = parseJsonValue (row_state_json row),
            waitJson = parseJsonValue (row_wait_json row),
            cancelRequestedAt = row_cancel_requested_at row, createdAt = row_created_at row,
            updatedAt = row_updated_at row, endedAt = row_ended_at row\<rparr>)))"

definition bindFlowRecord :: "flow \<Rightarrow> flow_row" where
  "bindFlowRecord f =
     \<lparr>row_flow_id = flowId f, row_sync_mode = Some (sync_mode_name (syncMode f)), row_shape = None,
      row_owner_key = ownerKey f,
      row_requester_origin_json =
        map_option (\<lambda>c. JsonDoc (json_stringify (delivery_context_json c))) (requesterOrigin f),
      row_controller_id = controllerId f, row_revision = revision f,
      row_status = flow_status_name (status f),
      row_notify_policy = notify_policy_name (notifyPolicy f), row_goal = goal f,
      row_current_step = currentStep f, row_blocked_task_id = blockedTaskId f,
      row_blocked_summary = blockedSummary f, row_state_json = serializeJson (stateJson f),
      row_wait_json = serializeJson (waitJson f), row_cancel_requested_at = cancelRequestedAt f,
      row_created_at = createdAt f, row_updated_at = updatedAt f, row_ended_at = endedAt f\<rparr>"

section \<open>The table\<close>

type_synonym flow_table = "(string, flow_row) js_map"

text \<open>
  \<^verbatim>\<open>INSERT ... ON CONFLICT (flow_id) DO UPDATE\<close>: every column of a present row is overwritten but
  its \<^verbatim>\<open>shape\<close>.
\<close>

definition upsertFlowRow :: "flow_row \<Rightarrow> flow_table \<Rightarrow> flow_table" where
  "upsertFlowRow row rows =
     (case js_get rows (row_flow_id row) of
        None \<Rightarrow> js_set (row_flow_id row) row rows
      | Some old \<Rightarrow> js_set (row_flow_id row) (row\<lparr>row_shape := row_shape old\<rparr>) rows)"

definition pruneFlowsNotInSnapshot :: "string list \<Rightarrow> flow_table \<Rightarrow> flow_table" where
  "pruneFlowsNotInSnapshot ids rows = filter (\<lambda>(k, _). k \<in> set ids) rows"

definition saveTaskFlowRegistryStateToSqlite :: "(string, flow) js_map \<Rightarrow> flow_table \<Rightarrow> flow_table" where
  "saveTaskFlowRegistryStateToSqlite flows rows =
     (if flows = [] then []
      else fold (\<lambda>f. upsertFlowRow (bindFlowRecord f)) (js_values flows)
             (pruneFlowsNotInSnapshot (js_keys flows) rows))"

definition upsertTaskFlowRegistryRecordToSqlite :: "flow \<Rightarrow> flow_table \<Rightarrow> flow_table" where
  "upsertTaskFlowRegistryRecordToSqlite f rows = upsertFlowRow (bindFlowRecord f) rows"

definition deleteTaskFlowRegistryRecordFromSqlite :: "string \<Rightarrow> flow_table \<Rightarrow> flow_table" where
  "deleteTaskFlowRegistryRecordFromSqlite fid rows = js_delete fid rows"

text \<open>\<^verbatim>\<open>ORDER BY created_at ASC, flow_id ASC\<close> with the binary collation.\<close>

definition id_codes :: "string \<Rightarrow> nat list" where
  "id_codes s = map of_char s"

definition selectFlowRows :: "flow_table \<Rightarrow> flow_row list" where
  "selectFlowRows rows = sort_key (\<lambda>r. (row_created_at r, id_codes (row_flow_id r))) (js_values rows)"

definition loadTaskFlowRegistryStateFromSqlite ::
  "(string \<Rightarrow> string option) \<Rightarrow> flow_table \<Rightarrow> flow_error + (string, flow) js_map" where
  "loadTaskFlowRegistryStateFromSqlite norm_channel rows =
     result_bind (traverse (\<lambda>r. result_bind (rowToFlowRecord norm_channel r) (\<lambda>f. Inr (row_flow_id r, f)))
                    (selectFlowRows rows))
       (\<lambda>pairs. Inr (fold (\<lambda>(k, f). js_set k f) pairs []))"

end
