(* ===== verification/TaskFlow.thy ===== *)
theory TaskFlow
  imports TaskFlowStore
begin

text \<open>
  The task-flow registry, \<^verbatim>\<open>tasks/task-flow-registry.ts\<close>, with the owner checks of
  \<^verbatim>\<open>tasks/task-flow-owner-access.ts\<close>.  The module's variables and its configured store are one
  record that every operation takes and returns.  \<^verbatim>\<open>Date.now()\<close>, \<^verbatim>\<open>crypto.randomUUID()\<close> and the
  channel registry are read from an environment; whether the next store operation throws is read
  from the list \<^verbatim>\<open>faults\<close> (an exhausted list means it does not).  The copies \<^verbatim>\<open>cloneFlowRecord\<close> makes
  are the values themselves here, since no value of the model is shared.
\<close>

section \<open>Tasks, parameters and patches\<close>

datatype task_status =
  TsQueued | TsRunning | TsSucceeded | TsFailed | TsTimedOut | TsCancelled | TsLost

datatype terminal_outcome = ToSucceeded | ToBlocked

record task_record =
  taskId :: string
  parentFlowId :: "string option"
  task_ownerKey :: string
  task_status :: task_status
  task_notifyPolicy :: notify_policy
  task_label :: "string option"
  task_text :: string
  task_createdAt :: int
  task_lastEventAt :: "int option"
  task_endedAt :: "int option"
  progressSummary :: "string option"
  terminalSummary :: "string option"
  terminalOutcome :: "terminal_outcome option"

text \<open>A property that may be absent, \<^verbatim>\<open>null\<close> or present.\<close>

datatype 'a js_opt = Undefined | Null | Value 'a

fun nullish :: "'a js_opt \<Rightarrow> 'a option" where
  "nullish Undefined = None"
| "nullish Null = None"
| "nullish (Value x) = Some x"

record flow_patch =
  patch_status :: "flow_status option"
  patch_notifyPolicy :: "notify_policy option"
  patch_goal :: "string option"
  patch_currentStep :: "string js_opt"
  patch_blockedTaskId :: "string js_opt"
  patch_blockedSummary :: "string js_opt"
  patch_controllerId :: "string js_opt"
  patch_stateJson :: "json_value option"
  patch_waitJson :: "json_value option"
  patch_cancelRequestedAt :: "int js_opt"
  patch_updatedAt :: "int option"
  patch_endedAt :: "int js_opt"

definition empty_patch :: flow_patch where
  "empty_patch = \<lparr>patch_status = None, patch_notifyPolicy = None, patch_goal = None,
     patch_currentStep = Undefined, patch_blockedTaskId = Undefined, patch_blockedSummary = Undefined,
     patch_controllerId = Undefined, patch_stateJson = None, patch_waitJson = None,
     patch_cancelRequestedAt = Undefined, patch_updatedAt = None, patch_endedAt = Undefined\<rparr>"

record flow_create =
  new_syncMode :: "sync_mode option"
  new_ownerKey :: string
  new_requesterOrigin :: "delivery_context option"
  new_controllerId :: "string option"
  new_revision :: "int option"
  new_status :: "flow_status option"
  new_notifyPolicy :: "notify_policy option"
  new_goal :: string
  new_currentStep :: "string option"
  new_blockedTaskId :: "string option"
  new_blockedSummary :: "string option"
  new_stateJson :: "json_value option"
  new_waitJson :: "json_value option"
  new_cancelRequestedAt :: "int option"
  new_createdAt :: "int option"
  new_updatedAt :: "int option"
  new_endedAt :: "int option"

datatype update_result =
    Applied flow
  | FlowNotFound
  | RevisionConflict flow
  | PersistFailed flow

datatype sync_result = SyncOk "flow option" | SyncPersistFailed flow

section \<open>State and environment\<close>

datatype registry_event =
    FlowsRestored "(string, flow) js_map"
  | FlowUpserted flow "flow option"
  | FlowDeleted string flow

record flow_store =
  store_rows :: flow_table
  store_upserts :: bool
  store_deletes :: bool

record flow_registry =
  flows :: "(string, flow) js_map"
  restoreAttempted :: bool
  restoreFailure :: "flow_error option"
  store :: flow_store
  faults :: "bool list"
  observed :: "registry_event list"

record flow_env =
  env_now :: int
  env_uuid :: string
  env_channel :: "string \<Rightarrow> string option"

definition emitFlowRegistryObserverEvent :: "registry_event \<Rightarrow> flow_registry \<Rightarrow> flow_registry" where
  "emitFlowRegistryObserverEvent ev s = s\<lparr>observed := observed s @ [ev]\<rparr>"

text \<open>Whether the next store operation throws.\<close>

definition next_fault :: "flow_registry \<Rightarrow> bool \<times> flow_registry" where
  "next_fault s = (case faults s of [] \<Rightarrow> (False, s) | b # bs \<Rightarrow> (b, s\<lparr>faults := bs\<rparr>))"

section \<open>Normalization\<close>

definition assertFlowOwnerKey :: "string \<Rightarrow> flow_error + string" where
  "assertFlowOwnerKey owner =
     (case normalizeOptionalString (Some owner) of None \<Rightarrow> Inl OwnerKeyRequired | Some k \<Rightarrow> Inr k)"

definition assertControllerId :: "string option \<Rightarrow> flow_error + string" where
  "assertControllerId cid =
     (case normalizeOptionalString cid of None \<Rightarrow> Inl ControllerIdRequired | Some c \<Rightarrow> Inr c)"

definition normalizeRestoredFlowRecord :: "flow \<Rightarrow> flow_error + flow" where
  "normalizeRestoredFlowRecord f =
     (let restored_controller =
            (if syncMode f = Managed
             then Some (or_default (normalizeOptionalString (controllerId f)) ''core/legacy-restored'')
             else None)
      in result_bind (assertFlowOwnerKey (ownerKey f)) (\<lambda>owner.
           Inr (f\<lparr>ownerKey := owner,
                  controllerId := (case restored_controller of Some c \<Rightarrow> Some c | None \<Rightarrow> controllerId f),
                  currentStep := normalizeOptionalString (currentStep f),
                  blockedTaskId := normalizeOptionalString (blockedTaskId f),
                  blockedSummary := normalizeOptionalString (blockedSummary f),
                  revision := max 0 (revision f)\<rparr>)))"

definition resolveFlowBlockedSummary :: "task_record \<Rightarrow> string option" where
  "resolveFlowBlockedSummary t =
     (if task_status t \<noteq> TsSucceeded \<or> terminalOutcome t \<noteq> Some ToBlocked then None
      else or_else (normalizeOptionalString (terminalSummary t)) (normalizeOptionalString (progressSummary t)))"

definition deriveTaskFlowStatusFromTask :: "task_record \<Rightarrow> flow_status" where
  "deriveTaskFlowStatusFromTask t =
     (case task_status t of
        TsQueued \<Rightarrow> FsQueued
      | TsRunning \<Rightarrow> FsRunning
      | TsSucceeded \<Rightarrow> if terminalOutcome t = Some ToBlocked then FsBlocked else FsSucceeded
      | TsCancelled \<Rightarrow> FsCancelled
      | TsLost \<Rightarrow> FsLost
      | _ \<Rightarrow> FsFailed)"

definition isTerminalTaskFlowStatus :: "flow_status \<Rightarrow> bool" where
  "isTerminalTaskFlowStatus st \<longleftrightarrow>
     st = FsSucceeded \<or> st = FsBlocked \<or> st = FsFailed \<or> st = FsCancelled \<or> st = FsLost"

definition resolveTaskMirroredFlowTiming ::
  "int \<Rightarrow> int option \<Rightarrow> int option \<Rightarrow> bool \<Rightarrow> int \<times> int option" where
  "resolveTaskMirroredFlowTiming created last_event ended is_terminal =
     (if \<not> is_terminal then (or_default last_event created, None)
      else (let e = or_default (or_else ended last_event) created in (e, Some e)))"

section \<open>Restoring and persisting\<close>

definition restore_flows ::
  "(string, flow) js_map \<Rightarrow> flow_error + (string, flow) js_map" where
  "restore_flows loaded =
     result_bind (traverse (\<lambda>(k, f). result_bind (normalizeRestoredFlowRecord f) (\<lambda>g. Inr (k, g))) loaded)
       (\<lambda>pairs. Inr (fold (\<lambda>(k, g). js_set k g) pairs []))"

definition ensureFlowRegistryReady :: "flow_env \<Rightarrow> flow_registry \<Rightarrow> flow_registry" where
  "ensureFlowRegistryReady env s =
     (if restoreAttempted s then s
      else (case next_fault (s\<lparr>restoreAttempted := True\<rparr>) of (failed, s1) \<Rightarrow>
        (case (if failed then Inl StoreUnavailable
               else result_bind (loadTaskFlowRegistryStateFromSqlite (env_channel env) (store_rows (store s1)))
                      restore_flows) of
           Inl e \<Rightarrow> s1\<lparr>flows := [], restoreFailure := Some e\<rparr>
         | Inr fl \<Rightarrow> emitFlowRegistryObserverEvent (FlowsRestored fl)
                       (s1\<lparr>flows := fl, restoreFailure := None\<rparr>))))"

definition getTaskFlowRegistryRestoreFailure :: "flow_env \<Rightarrow> flow_registry \<Rightarrow> flow_error option" where
  "getTaskFlowRegistryRestoreFailure env s = restoreFailure (ensureFlowRegistryReady env s)"

definition createFlowSnapshotWith ::
  "flow option \<Rightarrow> string option \<Rightarrow> (string, flow) js_map \<Rightarrow> (string, flow) js_map" where
  "createFlowSnapshotWith next_flow deleted fl =
     (let kept = (case deleted of None \<Rightarrow> fl | Some fid \<Rightarrow> if fid = [] then fl else js_delete fid fl)
      in (case next_flow of None \<Rightarrow> kept | Some f \<Rightarrow> js_set (flowId f) f kept))"

definition persistFlowUpsert :: "flow \<Rightarrow> (string, flow) js_map \<Rightarrow> flow_store \<Rightarrow> flow_store" where
  "persistFlowUpsert f fl st =
     (if store_upserts st
      then st\<lparr>store_rows := upsertTaskFlowRegistryRecordToSqlite f (store_rows st)\<rparr>
      else st\<lparr>store_rows := saveTaskFlowRegistryStateToSqlite (createFlowSnapshotWith (Some f) None fl)
                (store_rows st)\<rparr>)"

definition tryPersistFlowUpsert :: "flow \<Rightarrow> flow_registry \<Rightarrow> bool \<times> flow_registry" where
  "tryPersistFlowUpsert f s =
     (case next_fault s of (failed, s1) \<Rightarrow>
        if failed then (False, s1) else (True, s1\<lparr>store := persistFlowUpsert f (flows s1) (store s1)\<rparr>))"

definition persistFlowDelete :: "string \<Rightarrow> (string, flow) js_map \<Rightarrow> flow_store \<Rightarrow> flow_store" where
  "persistFlowDelete fid fl st =
     (if store_deletes st
      then st\<lparr>store_rows := deleteTaskFlowRegistryRecordFromSqlite fid (store_rows st)\<rparr>
      else st\<lparr>store_rows := saveTaskFlowRegistryStateToSqlite (createFlowSnapshotWith None (Some fid) fl)
                (store_rows st)\<rparr>)"

definition tryPersistFlowDelete :: "string \<Rightarrow> flow_registry \<Rightarrow> bool \<times> flow_registry" where
  "tryPersistFlowDelete fid s =
     (case next_fault s of (failed, s1) \<Rightarrow>
        if failed then (False, s1) else (True, s1\<lparr>store := persistFlowDelete fid (flows s1) (store s1)\<rparr>))"

definition writeFlowRecord ::
  "flow \<Rightarrow> flow option \<Rightarrow> flow_registry \<Rightarrow> flow option \<times> flow_registry" where
  "writeFlowRecord f previous s =
     (case tryPersistFlowUpsert f s of (ok, s1) \<Rightarrow>
        if \<not> ok then (None, s1)
        else (Some f, emitFlowRegistryObserverEvent (FlowUpserted f previous)
                        (s1\<lparr>flows := js_set (flowId f) f (flows s1)\<rparr>)))"

section \<open>Creating flows\<close>

definition buildFlowRecord :: "flow_env \<Rightarrow> flow_create \<Rightarrow> flow_error + flow" where
  "buildFlowRecord env p =
     (let now = or_default (new_createdAt p) (env_now env);
          mode = or_default (new_syncMode p) Managed
      in result_bind (if mode = Managed
                      then result_bind (assertControllerId (new_controllerId p)) (\<lambda>c. Inr (Some c))
                      else Inr None) (\<lambda>controller.
         result_bind (assertFlowOwnerKey (new_ownerKey p)) (\<lambda>owner.
           Inr \<lparr>flowId = env_uuid env, syncMode = mode, ownerKey = owner,
                requesterOrigin = new_requesterOrigin p, controllerId = controller,
                revision = max 0 (or_default (new_revision p) 0),
                status = or_default (new_status p) FsQueued,
                notifyPolicy = or_default (new_notifyPolicy p) DoneOnly, goal = new_goal p,
                currentStep = normalizeOptionalString (new_currentStep p),
                blockedTaskId = normalizeOptionalString (new_blockedTaskId p),
                blockedSummary = normalizeOptionalString (new_blockedSummary p),
                stateJson = new_stateJson p, waitJson = new_waitJson p,
                cancelRequestedAt = new_cancelRequestedAt p, createdAt = now,
                updatedAt = or_default (new_updatedAt p) now, endedAt = new_endedAt p\<rparr>)))"

definition createFlowRecord ::
  "flow_env \<Rightarrow> flow_create \<Rightarrow> flow_registry \<Rightarrow> (flow_error + flow option) \<times> flow_registry" where
  "createFlowRecord env p s =
     (let s1 = ensureFlowRegistryReady env s
      in (case buildFlowRecord env p of
            Inl e \<Rightarrow> (Inl e, s1)
          | Inr f \<Rightarrow> (case writeFlowRecord f None s1 of (r, s2) \<Rightarrow> (Inr r, s2))))"

definition createManagedTaskFlow ::
  "flow_env \<Rightarrow> flow_create \<Rightarrow> flow_registry \<Rightarrow> (flow_error + flow option) \<times> flow_registry" where
  "createManagedTaskFlow env p s =
     (case assertControllerId (new_controllerId p) of
        Inl e \<Rightarrow> (Inl e, s)
      | Inr c \<Rightarrow> createFlowRecord env (p\<lparr>new_syncMode := Some Managed, new_controllerId := Some c\<rparr>) s)"

text \<open>The title of a mirrored flow, shared by its creation and its updates.\<close>

definition mirrored_goal :: "task_record \<Rightarrow> string" where
  "mirrored_goal t =
     (case normalizeOptionalString (task_label t) of
        Some l \<Rightarrow> l
      | None \<Rightarrow> (let w = js_trim (task_text t) in if w = [] then ''Background task'' else w))"

definition createTaskFlowForTask ::
  "flow_env \<Rightarrow> task_record \<Rightarrow> delivery_context option \<Rightarrow> flow_registry
     \<Rightarrow> (flow_error + flow option) \<times> flow_registry" where
  "createTaskFlowForTask env t origin s =
     (let st = deriveTaskFlowStatusFromTask t
      in (case resolveTaskMirroredFlowTiming (task_createdAt t) (task_lastEventAt t) (task_endedAt t)
                 (isTerminalTaskFlowStatus st) of (updated, ended) \<Rightarrow>
           createFlowRecord env
             \<lparr>new_syncMode = Some TaskMirrored, new_ownerKey = task_ownerKey t,
              new_requesterOrigin = origin, new_controllerId = None, new_revision = None,
              new_status = Some st, new_notifyPolicy = Some (task_notifyPolicy t),
              new_goal = mirrored_goal t, new_currentStep = None,
              new_blockedTaskId = (if st = FsBlocked then normalizeOptionalString (Some (taskId t)) else None),
              new_blockedSummary = resolveFlowBlockedSummary t, new_stateJson = None,
              new_waitJson = None, new_cancelRequestedAt = None,
              new_createdAt = Some (task_createdAt t), new_updatedAt = Some updated,
              new_endedAt = ended\<rparr> s))"

section \<open>Updating flows\<close>

definition patched_string :: "string js_opt \<Rightarrow> string option \<Rightarrow> string option" where
  "patched_string p old = (if p = Undefined then old else normalizeOptionalString (nullish p))"

definition patched_time :: "int js_opt \<Rightarrow> int option \<Rightarrow> int option" where
  "patched_time p old = (if p = Undefined then old else nullish p)"

definition applyFlowPatch :: "flow_env \<Rightarrow> flow \<Rightarrow> flow_patch \<Rightarrow> flow_error + flow" where
  "applyFlowPatch env f p =
     (let controller = patched_string (patch_controllerId p) (controllerId f)
      in result_bind (if syncMode f = Managed
                      then result_bind (assertControllerId controller) (\<lambda>_. Inr ())
                      else Inr ()) (\<lambda>_.
           Inr (f\<lparr>status := or_default (patch_status p) (status f),
                  notifyPolicy := or_default (patch_notifyPolicy p) (notifyPolicy f),
                  goal := or_default (truthy_string (patch_goal p)) (goal f),
                  controllerId := controller,
                  currentStep := patched_string (patch_currentStep p) (currentStep f),
                  blockedTaskId := patched_string (patch_blockedTaskId p) (blockedTaskId f),
                  blockedSummary := patched_string (patch_blockedSummary p) (blockedSummary f),
                  stateJson := or_else (patch_stateJson p) (stateJson f),
                  waitJson := or_else (patch_waitJson p) (waitJson f),
                  cancelRequestedAt := patched_time (patch_cancelRequestedAt p) (cancelRequestedAt f),
                  revision := revision f + 1,
                  updatedAt := or_default (patch_updatedAt p) (env_now env),
                  endedAt := patched_time (patch_endedAt p) (endedAt f)\<rparr>)))"

definition updateFlowRecordByIdUnchecked ::
  "flow_env \<Rightarrow> string \<Rightarrow> flow_patch \<Rightarrow> flow_registry \<Rightarrow> (flow_error + flow option) \<times> flow_registry" where
  "updateFlowRecordByIdUnchecked env fid p s =
     (let s1 = ensureFlowRegistryReady env s
      in (case js_get (flows s1) fid of
            None \<Rightarrow> (Inr None, s1)
          | Some current \<Rightarrow>
              (case applyFlowPatch env current p of
                 Inl e \<Rightarrow> (Inl e, s1)
               | Inr f \<Rightarrow> (case writeFlowRecord f (Some current) s1 of (r, s2) \<Rightarrow> (Inr r, s2)))))"

definition updateFlowRecordByIdExpectedRevision ::
  "flow_env \<Rightarrow> string \<Rightarrow> int \<Rightarrow> flow_patch \<Rightarrow> flow_registry
     \<Rightarrow> (flow_error + update_result) \<times> flow_registry" where
  "updateFlowRecordByIdExpectedRevision env fid expected p s =
     (let s1 = ensureFlowRegistryReady env s
      in (case js_get (flows s1) fid of
            None \<Rightarrow> (Inr FlowNotFound, s1)
          | Some current \<Rightarrow>
              if revision current \<noteq> expected then (Inr (RevisionConflict current), s1)
              else (case applyFlowPatch env current p of
                      Inl e \<Rightarrow> (Inl e, s1)
                    | Inr f \<Rightarrow>
                        (case writeFlowRecord f (Some current) s1 of
                           (None, s2) \<Rightarrow> (Inr (PersistFailed current), s2)
                         | (Some g, s2) \<Rightarrow> (Inr (Applied g), s2)))))"

text \<open>The optional fields of the parameter objects of the five lifecycle calls below.\<close>

record flow_change =
  ch_status :: "flow_status option"
  ch_currentStep :: "string js_opt"
  ch_stateJson :: "json_value option"
  ch_waitJson :: "json_value option"
  ch_blockedTaskId :: "string js_opt"
  ch_blockedSummary :: "string js_opt"
  ch_cancelRequestedAt :: "int option"
  ch_updatedAt :: "int option"
  ch_endedAt :: "int option"

definition setFlowWaiting ::
  "flow_env \<Rightarrow> string \<Rightarrow> int \<Rightarrow> flow_change \<Rightarrow> flow_registry
     \<Rightarrow> (flow_error + update_result) \<times> flow_registry" where
  "setFlowWaiting env fid expected c s =
     updateFlowRecordByIdExpectedRevision env fid expected
       (empty_patch\<lparr>patch_status :=
            Some (if normalizeOptionalString (nullish (ch_blockedTaskId c)) \<noteq> None
                     \<or> normalizeOptionalString (nullish (ch_blockedSummary c)) \<noteq> None
                  then FsBlocked else FsWaiting),
          patch_currentStep := ch_currentStep c, patch_stateJson := ch_stateJson c,
          patch_waitJson := ch_waitJson c, patch_blockedTaskId := ch_blockedTaskId c,
          patch_blockedSummary := ch_blockedSummary c, patch_endedAt := Null,
          patch_updatedAt := ch_updatedAt c\<rparr>) s"

definition resumeFlow ::
  "flow_env \<Rightarrow> string \<Rightarrow> int \<Rightarrow> flow_change \<Rightarrow> flow_registry
     \<Rightarrow> (flow_error + update_result) \<times> flow_registry" where
  "resumeFlow env fid expected c s =
     updateFlowRecordByIdExpectedRevision env fid expected
       (empty_patch\<lparr>patch_status := Some (or_default (ch_status c) FsQueued),
          patch_currentStep := ch_currentStep c, patch_stateJson := ch_stateJson c,
          patch_waitJson := Some JNull, patch_blockedTaskId := Null, patch_blockedSummary := Null,
          patch_endedAt := Null, patch_updatedAt := ch_updatedAt c\<rparr>) s"

definition finishFlow ::
  "flow_env \<Rightarrow> string \<Rightarrow> int \<Rightarrow> flow_change \<Rightarrow> flow_registry
     \<Rightarrow> (flow_error + update_result) \<times> flow_registry" where
  "finishFlow env fid expected c s =
     (let ended = or_default (or_else (ch_endedAt c) (ch_updatedAt c)) (env_now env)
      in updateFlowRecordByIdExpectedRevision env fid expected
           (empty_patch\<lparr>patch_status := Some FsSucceeded,
              patch_currentStep := ch_currentStep c, patch_stateJson := ch_stateJson c,
              patch_waitJson := Some JNull, patch_blockedTaskId := Null, patch_blockedSummary := Null,
              patch_endedAt := Value ended,
              patch_updatedAt := Some (or_default (ch_updatedAt c) ended)\<rparr>) s)"

definition failFlow ::
  "flow_env \<Rightarrow> string \<Rightarrow> int \<Rightarrow> flow_change \<Rightarrow> flow_registry
     \<Rightarrow> (flow_error + update_result) \<times> flow_registry" where
  "failFlow env fid expected c s =
     (let ended = or_default (or_else (ch_endedAt c) (ch_updatedAt c)) (env_now env)
      in updateFlowRecordByIdExpectedRevision env fid expected
           (empty_patch\<lparr>patch_status := Some FsFailed,
              patch_currentStep := ch_currentStep c, patch_stateJson := ch_stateJson c,
              patch_waitJson := Some JNull, patch_blockedTaskId := ch_blockedTaskId c,
              patch_blockedSummary := ch_blockedSummary c, patch_endedAt := Value ended,
              patch_updatedAt := Some (or_default (ch_updatedAt c) ended)\<rparr>) s)"

definition requestFlowCancel ::
  "flow_env \<Rightarrow> string \<Rightarrow> int \<Rightarrow> flow_change \<Rightarrow> flow_registry
     \<Rightarrow> (flow_error + update_result) \<times> flow_registry" where
  "requestFlowCancel env fid expected c s =
     updateFlowRecordByIdExpectedRevision env fid expected
       (empty_patch\<lparr>patch_cancelRequestedAt :=
            Value (or_default (or_else (ch_cancelRequestedAt c) (ch_updatedAt c)) (env_now env)),
          patch_updatedAt := ch_updatedAt c\<rparr>) s"

section \<open>Lookups\<close>

definition getTaskFlowById :: "flow_env \<Rightarrow> string \<Rightarrow> flow_registry \<Rightarrow> flow option \<times> flow_registry" where
  "getTaskFlowById env fid s =
     (let s1 = ensureFlowRegistryReady env s in (js_get (flows s1) fid, s1))"

definition newest_first :: "flow \<Rightarrow> flow \<Rightarrow> int" where
  "newest_first left right = createdAt right - createdAt left"

definition listTaskFlowsForOwnerKey ::
  "flow_env \<Rightarrow> string \<Rightarrow> flow_registry \<Rightarrow> flow list \<times> flow_registry" where
  "listTaskFlowsForOwnerKey env owner s =
     (let s1 = ensureFlowRegistryReady env s; wanted = js_trim owner
      in if wanted = [] then ([], s1)
         else (js_to_sorted newest_first
                 (filter (\<lambda>f. js_trim (ownerKey f) = wanted) (js_values (flows s1))), s1))"

definition findLatestTaskFlowForOwnerKey ::
  "flow_env \<Rightarrow> string \<Rightarrow> flow_registry \<Rightarrow> flow option \<times> flow_registry" where
  "findLatestTaskFlowForOwnerKey env owner s =
     (case listTaskFlowsForOwnerKey env owner s of
        ([], s1) \<Rightarrow> (None, s1) | (f # _, s1) \<Rightarrow> (Some f, s1))"

definition resolveTaskFlowForLookupToken ::
  "flow_env \<Rightarrow> string \<Rightarrow> flow_registry \<Rightarrow> flow option \<times> flow_registry" where
  "resolveTaskFlowForLookupToken env token s =
     (let wanted = js_trim token
      in if wanted = [] then (None, s)
         else (case getTaskFlowById env wanted s of
                 (Some f, s1) \<Rightarrow> (Some f, s1)
               | (None, s1) \<Rightarrow> findLatestTaskFlowForOwnerKey env wanted s1))"

definition listTaskFlowRecords :: "flow_env \<Rightarrow> flow_registry \<Rightarrow> flow list \<times> flow_registry" where
  "listTaskFlowRecords env s =
     (let s1 = ensureFlowRegistryReady env s
      in (js_to_sorted newest_first (js_values (flows s1)), s1))"

definition deleteTaskFlowRecordById ::
  "flow_env \<Rightarrow> string \<Rightarrow> flow_registry \<Rightarrow> bool \<times> flow_registry" where
  "deleteTaskFlowRecordById env fid s =
     (let s1 = ensureFlowRegistryReady env s
      in (case js_get (flows s1) fid of
            None \<Rightarrow> (False, s1)
          | Some current \<Rightarrow>
              (case tryPersistFlowDelete fid s1 of (ok, s2) \<Rightarrow>
                 if \<not> ok then (False, s2)
                 else (True, emitFlowRegistryObserverEvent (FlowDeleted fid current)
                               (s2\<lparr>flows := js_delete fid (flows s2)\<rparr>)))))"

section \<open>Mirroring a task\<close>

definition sync_patch :: "task_record \<Rightarrow> flow \<Rightarrow> flow_patch" where
  "sync_patch t f =
     (let st = deriveTaskFlowStatusFromTask t; terminal = isTerminalTaskFlowStatus st
      in (case resolveTaskMirroredFlowTiming (createdAt f) (task_lastEventAt t) (task_endedAt t) terminal of
            (updated, ended) \<Rightarrow>
              empty_patch\<lparr>patch_status := Some st, patch_notifyPolicy := Some (task_notifyPolicy t),
                patch_goal := Some (mirrored_goal t),
                patch_blockedTaskId :=
                  (if st = FsBlocked \<and> js_trim (taskId t) \<noteq> [] then Value (js_trim (taskId t)) else Null),
                patch_blockedSummary :=
                  (if st = FsBlocked
                   then (case resolveFlowBlockedSummary t of Some b \<Rightarrow> Value b | None \<Rightarrow> Null) else Null),
                patch_waitJson := Some JNull, patch_updatedAt := Some updated,
                patch_endedAt := (if terminal then Value (or_default ended updated) else Null)\<rparr>))"

definition syncFlowFromTaskResult ::
  "flow_env \<Rightarrow> task_record \<Rightarrow> flow_registry \<Rightarrow> (flow_error + sync_result) \<times> flow_registry" where
  "syncFlowFromTaskResult env t s =
     (let fid = js_trim (or_default (parentFlowId t) [])
      in if fid = [] then (Inr (SyncOk None), s)
         else (case getTaskFlowById env fid s of
                 (None, s1) \<Rightarrow> (Inr (SyncOk None), s1)
               | (Some f, s1) \<Rightarrow>
                   if syncMode f \<noteq> TaskMirrored then (Inr (SyncOk (Some f)), s1)
                   else (case updateFlowRecordByIdUnchecked env fid (sync_patch t f) s1 of
                           (Inl e, s2) \<Rightarrow> (Inl e, s2)
                         | (Inr None, s2) \<Rightarrow> (Inr (SyncPersistFailed f), s2)
                         | (Inr (Some g), s2) \<Rightarrow> (Inr (SyncOk (Some g)), s2))))"

definition syncFlowFromTask ::
  "flow_env \<Rightarrow> task_record \<Rightarrow> flow_registry \<Rightarrow> (flow_error + flow option) \<times> flow_registry" where
  "syncFlowFromTask env t s =
     (case syncFlowFromTaskResult env t s of
        (Inl e, s1) \<Rightarrow> (Inl e, s1)
      | (Inr (SyncOk f), s1) \<Rightarrow> (Inr f, s1)
      | (Inr (SyncPersistFailed _), s1) \<Rightarrow> (Inr None, s1))"

section \<open>Access by owner\<close>

definition getTaskFlowByIdForOwner ::
  "flow_env \<Rightarrow> string \<Rightarrow> string \<Rightarrow> flow_registry \<Rightarrow> flow option \<times> flow_registry" where
  "getTaskFlowByIdForOwner env fid caller s =
     (case getTaskFlowById env fid s of
        (Some f, s1) \<Rightarrow>
          (if normalizeOptionalString (Some (ownerKey f)) = normalizeOptionalString (Some caller)
           then Some f else None, s1)
      | (None, s1) \<Rightarrow> (None, s1))"

definition listTaskFlowsForOwner ::
  "flow_env \<Rightarrow> string \<Rightarrow> flow_registry \<Rightarrow> flow list \<times> flow_registry" where
  "listTaskFlowsForOwner env caller s =
     (case normalizeOptionalString (Some caller) of
        Some k \<Rightarrow> listTaskFlowsForOwnerKey env k s | None \<Rightarrow> ([], s))"

definition findLatestTaskFlowForOwner ::
  "flow_env \<Rightarrow> string \<Rightarrow> flow_registry \<Rightarrow> flow option \<times> flow_registry" where
  "findLatestTaskFlowForOwner env caller s =
     (case normalizeOptionalString (Some caller) of
        Some k \<Rightarrow> findLatestTaskFlowForOwnerKey env k s | None \<Rightarrow> (None, s))"

definition resolveTaskFlowForLookupTokenForOwner ::
  "flow_env \<Rightarrow> string \<Rightarrow> string \<Rightarrow> flow_registry \<Rightarrow> flow option \<times> flow_registry" where
  "resolveTaskFlowForLookupTokenForOwner env token caller s =
     (case getTaskFlowByIdForOwner env token caller s of
        (Some f, s1) \<Rightarrow> (Some f, s1)
      | (None, s1) \<Rightarrow>
          (let wanted = normalizeOptionalString (Some token);
               owner = normalizeOptionalString (Some caller)
           in (case owner of
                 Some k \<Rightarrow> if wanted = None \<or> wanted \<noteq> owner then (None, s1)
                           else findLatestTaskFlowForOwner env k s1
               | None \<Rightarrow> (None, s1))))"

section \<open>A restart of the process\<close>

text \<open>The module's variables start afresh; the store keeps its rows.\<close>

definition restart_registry :: "flow_registry \<Rightarrow> flow_registry" where
  "restart_registry s =
     s\<lparr>flows := [], restoreAttempted := False, restoreFailure := None, observed := []\<rparr>"

end
