(* ===== verification/TaskFlowMaint.thy ===== *)
theory TaskFlowMaint
  imports TaskFlow
begin

text \<open>
  The periodic maintenance of the registry, \<^verbatim>\<open>tasks/task-flow-registry.maintenance.ts\<close>, and its
  audit, \<^verbatim>\<open>tasks/task-flow-registry.audit.ts\<close>.  The tasks linked to a flow come from the task
  registry; they are a parameter, \<^verbatim>\<open>linked\<close>.  A finding carries its code; the text of its detail is
  left out.
\<close>

section \<open>Maintenance\<close>

definition TASK_FLOW_RETENTION_MS :: int where
  "TASK_FLOW_RETENTION_MS = 7 * 24 * 60 * 60000"

definition isTerminalFlow :: "flow \<Rightarrow> bool" where
  "isTerminalFlow f \<longleftrightarrow>
     status f = FsSucceeded \<or> status f = FsBlocked \<or> status f = FsFailed \<or> status f = FsCancelled
     \<or> status f = FsLost"

definition is_active_task :: "task_record \<Rightarrow> bool" where
  "is_active_task t \<longleftrightarrow> task_status t = TsQueued \<or> task_status t = TsRunning"

definition hasActiveLinkedTasks :: "(string \<Rightarrow> task_record list) \<Rightarrow> string \<Rightarrow> bool" where
  "hasActiveLinkedTasks linked fid \<longleftrightarrow> list_ex is_active_task (linked fid)"

definition resolveTerminalAt :: "flow \<Rightarrow> int" where
  "resolveTerminalAt f = or_default (endedAt f) (updatedAt f)"

definition shouldPruneFlow :: "(string \<Rightarrow> task_record list) \<Rightarrow> int \<Rightarrow> flow \<Rightarrow> bool" where
  "shouldPruneFlow linked now f \<longleftrightarrow>
     isTerminalFlow f \<and> \<not> hasActiveLinkedTasks linked (flowId f)
     \<and> now - resolveTerminalAt f \<ge> TASK_FLOW_RETENTION_MS"

definition shouldFinalizeCancelledFlow :: "(string \<Rightarrow> task_record list) \<Rightarrow> flow \<Rightarrow> bool" where
  "shouldFinalizeCancelledFlow linked f \<longleftrightarrow>
     syncMode f = Managed \<and> cancelRequestedAt f \<noteq> None \<and> \<not> isTerminalFlow f
     \<and> \<not> hasActiveLinkedTasks linked (flowId f)"

definition cancelled_patch :: "flow \<Rightarrow> int \<Rightarrow> flow_patch" where
  "cancelled_patch f now =
     (let ended = max (max now (updatedAt f)) (or_default (cancelRequestedAt f) now)
      in empty_patch\<lparr>patch_status := Some FsCancelled, patch_blockedTaskId := Null,
           patch_blockedSummary := Null, patch_waitJson := Some JNull,
           patch_endedAt := Value ended, patch_updatedAt := Some ended\<rparr>)"

text \<open>The loops make at most two attempts; the number left is the recursion's argument.\<close>

fun finalize_attempts ::
  "nat \<Rightarrow> flow_env \<Rightarrow> (string \<Rightarrow> task_record list) \<Rightarrow> int \<Rightarrow> flow \<Rightarrow> flow_registry
     \<Rightarrow> (flow_error + bool) \<times> flow_registry" where
  "finalize_attempts 0 env linked now f s = (Inr False, s)"
| "finalize_attempts (Suc n) env linked now f s =
     (case updateFlowRecordByIdExpectedRevision env (flowId f) (revision f) (cancelled_patch f now) s of
        (Inl e, s1) \<Rightarrow> (Inl e, s1)
      | (Inr (Applied _), s1) \<Rightarrow> (Inr True, s1)
      | (Inr FlowNotFound, s1) \<Rightarrow> (Inr False, s1)
      | (Inr (RevisionConflict g), s1) \<Rightarrow>
          if shouldFinalizeCancelledFlow linked g then finalize_attempts n env linked now g s1
          else (Inr False, s1)
      | (Inr (PersistFailed g), s1) \<Rightarrow>
          if shouldFinalizeCancelledFlow linked g then finalize_attempts n env linked now g s1
          else (Inr False, s1))"

definition finalizeCancelledFlow ::
  "flow_env \<Rightarrow> (string \<Rightarrow> task_record list) \<Rightarrow> int \<Rightarrow> flow \<Rightarrow> flow_registry
     \<Rightarrow> (flow_error + bool) \<times> flow_registry" where
  "finalizeCancelledFlow env linked now f s = finalize_attempts 2 env linked now f s"

definition shouldRepairTerminalMirroredFlowTimestamp :: "flow \<Rightarrow> bool" where
  "shouldRepairTerminalMirroredFlowTimestamp f \<longleftrightarrow>
     syncMode f = TaskMirrored \<and> isTerminalFlow f
     \<and> (case endedAt f of None \<Rightarrow> False | Some e \<Rightarrow> createdAt f \<le> e \<and> e < updatedAt f)"

fun repair_attempts ::
  "nat \<Rightarrow> flow_env \<Rightarrow> flow \<Rightarrow> flow_registry \<Rightarrow> (flow_error + bool) \<times> flow_registry" where
  "repair_attempts 0 env f s = (Inr False, s)"
| "repair_attempts (Suc n) env f s =
     (if \<not> shouldRepairTerminalMirroredFlowTimestamp f then (Inr False, s)
      else (case updateFlowRecordByIdExpectedRevision env (flowId f) (revision f)
                   (empty_patch\<lparr>patch_updatedAt := endedAt f\<rparr>) s of
              (Inl e, s1) \<Rightarrow> (Inl e, s1)
            | (Inr (Applied _), s1) \<Rightarrow> (Inr True, s1)
            | (Inr FlowNotFound, s1) \<Rightarrow> (Inr False, s1)
            | (Inr (RevisionConflict g), s1) \<Rightarrow> repair_attempts n env g s1
            | (Inr (PersistFailed g), s1) \<Rightarrow> repair_attempts n env g s1))"

definition repairTerminalMirroredFlowTimestamp ::
  "flow_env \<Rightarrow> flow \<Rightarrow> flow_registry \<Rightarrow> (flow_error + bool) \<times> flow_registry" where
  "repairTerminalMirroredFlowTimestamp env f s = repair_attempts 2 env f s"

record maintenance_summary =
  reconciled :: nat
  pruned :: nat

text \<open>The preview counts; the run acts.\<close>

definition preview_one ::
  "(string \<Rightarrow> task_record list) \<Rightarrow> int \<Rightarrow> flow \<Rightarrow> maintenance_summary \<Rightarrow> maintenance_summary" where
  "preview_one linked now f m =
     (if shouldRepairTerminalMirroredFlowTimestamp f then m\<lparr>reconciled := reconciled m + 1\<rparr>
      else if shouldFinalizeCancelledFlow linked f then m\<lparr>reconciled := reconciled m + 1\<rparr>
      else if shouldPruneFlow linked now f then m\<lparr>pruned := pruned m + 1\<rparr> else m)"

definition previewTaskFlowRegistryMaintenance ::
  "flow_env \<Rightarrow> (string \<Rightarrow> task_record list) \<Rightarrow> flow_registry \<Rightarrow> maintenance_summary \<times> flow_registry" where
  "previewTaskFlowRegistryMaintenance env linked s =
     (case listTaskFlowRecords env s of (fs, s1) \<Rightarrow>
        (fold (preview_one linked (env_now env)) fs \<lparr>reconciled = 0, pruned = 0\<rparr>, s1))"

definition count_if :: "bool \<Rightarrow> nat" where
  "count_if b = (if b then 1 else 0)"

definition maintain_one ::
  "flow_env \<Rightarrow> (string \<Rightarrow> task_record list) \<Rightarrow> int \<Rightarrow> flow \<Rightarrow> maintenance_summary \<Rightarrow> flow_registry
     \<Rightarrow> (flow_error + maintenance_summary) \<times> flow_registry" where
  "maintain_one env linked now f m s =
     (case getTaskFlowById env (flowId f) s of
        (None, s1) \<Rightarrow> (Inr m, s1)
      | (Some current, s1) \<Rightarrow>
          if shouldRepairTerminalMirroredFlowTimestamp current then
            (case repairTerminalMirroredFlowTimestamp env current s1 of
               (Inl e, s2) \<Rightarrow> (Inl e, s2)
             | (Inr did, s2) \<Rightarrow> (Inr (m\<lparr>reconciled := reconciled m + count_if did\<rparr>), s2))
          else if shouldFinalizeCancelledFlow linked current then
            (case finalizeCancelledFlow env linked now current s1 of
               (Inl e, s2) \<Rightarrow> (Inl e, s2)
             | (Inr did, s2) \<Rightarrow> (Inr (m\<lparr>reconciled := reconciled m + count_if did\<rparr>), s2))
          else if shouldPruneFlow linked now current then
            (case deleteTaskFlowRecordById env (flowId current) s1 of
               (did, s2) \<Rightarrow> (Inr (m\<lparr>pruned := pruned m + count_if did\<rparr>), s2))
          else (Inr m, s1))"

fun maintain_all ::
  "flow_env \<Rightarrow> (string \<Rightarrow> task_record list) \<Rightarrow> int \<Rightarrow> flow list \<Rightarrow> maintenance_summary \<Rightarrow> flow_registry
     \<Rightarrow> (flow_error + maintenance_summary) \<times> flow_registry" where
  "maintain_all env linked now [] m s = (Inr m, s)"
| "maintain_all env linked now (f # fs) m s =
     (case maintain_one env linked now f m s of
        (Inl e, s1) \<Rightarrow> (Inl e, s1)
      | (Inr m1, s1) \<Rightarrow> maintain_all env linked now fs m1 s1)"

definition runTaskFlowRegistryMaintenance ::
  "flow_env \<Rightarrow> (string \<Rightarrow> task_record list) \<Rightarrow> flow_registry
     \<Rightarrow> (flow_error + maintenance_summary) \<times> flow_registry" where
  "runTaskFlowRegistryMaintenance env linked s =
     (case listTaskFlowRecords env s of (fs, s1) \<Rightarrow>
        maintain_all env linked (env_now env) fs \<lparr>reconciled = 0, pruned = 0\<rparr> s1)"

section \<open>Audit\<close>

datatype audit_severity = Warn | Error

datatype audit_code =
    RestoreFailed
  | StaleRunning
  | StaleWaiting
  | StaleBlocked
  | CancelStuck
  | MissingLinkedTasks
  | BlockedTaskMissing
  | InconsistentTimestamps

record audit_finding =
  severity :: audit_severity
  code :: audit_code
  ageMs :: "int option"
  found_flow :: "flow option"

record audit_options =
  opt_now :: "int option"
  opt_flows :: "flow list option"
  opt_staleRunningMs :: "int option"
  opt_staleWaitingMs :: "int option"
  opt_staleBlockedMs :: "int option"
  opt_cancelStuckMs :: "int option"

definition DEFAULT_STALE_MS :: int where
  "DEFAULT_STALE_MS = 30 * 60000"

definition DEFAULT_CANCEL_STUCK_MS :: int where
  "DEFAULT_CANCEL_STUCK_MS = 5 * 60000"

fun severityRank :: "audit_severity \<Rightarrow> int" where
  "severityRank Error = 0"
| "severityRank Warn = 1"

definition compareFindings :: "audit_finding \<Rightarrow> audit_finding \<Rightarrow> int" where
  "compareFindings left right =
     (let d = severityRank (severity left) - severityRank (severity right);
          left_age = or_default (ageMs left) (- 1); right_age = or_default (ageMs right) (- 1)
      in if d \<noteq> 0 then d
         else if left_age \<noteq> right_age then right_age - left_age
         else or_default (map_option createdAt (found_flow left)) 0
                - or_default (map_option createdAt (found_flow right)) 0)"

definition truthy_trimmed :: "string option \<Rightarrow> bool" where
  "truthy_trimmed v \<longleftrightarrow> (case v of None \<Rightarrow> False | Some t \<Rightarrow> js_trim t \<noteq> [])"

definition hasBlockingMetadata :: "flow \<Rightarrow> bool" where
  "hasBlockingMetadata f \<longleftrightarrow>
     truthy_trimmed (blockedTaskId f) \<or> truthy_trimmed (blockedSummary f)
     \<or> (waitJson f \<noteq> None \<and> waitJson f \<noteq> Some JNull)"

definition flow_finding :: "audit_severity \<Rightarrow> audit_code \<Rightarrow> int option \<Rightarrow> flow \<Rightarrow> audit_finding" where
  "flow_finding sev c age f = \<lparr>severity = sev, code = c, ageMs = age, found_flow = Some f\<rparr>"

definition findTimestampInconsistency :: "flow \<Rightarrow> audit_finding option" where
  "findTimestampInconsistency f =
     (let finding = Some (flow_finding Warn InconsistentTimestamps None f)
      in if updatedAt f < createdAt f then finding
         else (case endedAt f of
                 None \<Rightarrow> None
               | Some e \<Rightarrow> if e \<noteq> 0 \<and> e < createdAt f then finding
                           else if e \<noteq> 0 \<and> e < updatedAt f then finding else None))"

definition stale_limit :: "audit_options \<Rightarrow> flow_status \<Rightarrow> int" where
  "stale_limit opts st =
     (case st of
        FsRunning \<Rightarrow> or_default (opt_staleRunningMs opts) DEFAULT_STALE_MS
      | FsWaiting \<Rightarrow> or_default (opt_staleWaitingMs opts) DEFAULT_STALE_MS
      | _ \<Rightarrow> or_default (opt_staleBlockedMs opts) DEFAULT_STALE_MS)"

definition cancel_unsettled :: "flow_status \<Rightarrow> bool" where
  "cancel_unsettled st \<longleftrightarrow> st \<noteq> FsCancelled \<and> st \<noteq> FsFailed \<and> st \<noteq> FsSucceeded \<and> st \<noteq> FsLost"

definition push_if :: "bool \<Rightarrow> 'a \<Rightarrow> 'a list" where
  "push_if b x = (if b then [x] else [])"

definition audit_flow ::
  "audit_options \<Rightarrow> int \<Rightarrow> (string \<Rightarrow> task_record list) \<Rightarrow> flow \<Rightarrow> audit_finding list" where
  "audit_flow opts now linked f =
     (let age = max 0 (now - updatedAt f);
          tasks = linked (flowId f);
          active = filter is_active_task tasks
      in push_if (status f = FsRunning \<and> age \<ge> stale_limit opts FsRunning)
              (flow_finding Error StaleRunning (Some age) f)
       @ push_if (status f = FsWaiting \<and> age \<ge> stale_limit opts FsWaiting)
              (flow_finding Warn StaleWaiting (Some age) f)
       @ push_if (status f = FsBlocked \<and> age \<ge> stale_limit opts FsBlocked)
              (flow_finding Warn StaleBlocked (Some age) f)
       @ (case cancelRequestedAt f of
            None \<Rightarrow> []
          | Some c \<Rightarrow>
              push_if (cancel_unsettled (status f) \<and> active = []
                    \<and> now - c \<ge> or_default (opt_cancelStuckMs opts) DEFAULT_CANCEL_STUCK_MS)
                   (flow_finding Warn CancelStuck (Some (max 0 (now - c))) f))
       @ push_if (syncMode f = Managed
               \<and> (status f = FsRunning \<or> status f = FsWaiting \<or> status f = FsBlocked)
               \<and> age \<ge> stale_limit opts (status f) \<and> tasks = [] \<and> \<not> hasBlockingMetadata f)
              (flow_finding (if status f = FsRunning then Error else Warn) MissingLinkedTasks (Some age) f)
       @ (case blockedTaskId f of
            None \<Rightarrow> []
          | Some b \<Rightarrow>
              push_if (js_trim b \<noteq> [] \<and> \<not> list_ex (\<lambda>t. taskId t = js_trim b) tasks)
                   (flow_finding Warn BlockedTaskMissing (Some age) f))
       @ (case findTimestampInconsistency f of None \<Rightarrow> [] | Some i \<Rightarrow> [i]))"

definition listTaskFlowAuditFindings ::
  "flow_env \<Rightarrow> (string \<Rightarrow> task_record list) \<Rightarrow> audit_options \<Rightarrow> flow_registry
     \<Rightarrow> audit_finding list \<times> flow_registry" where
  "listTaskFlowAuditFindings env linked opts s =
     (case (case opt_flows opts of Some fs \<Rightarrow> (fs, s) | None \<Rightarrow> listTaskFlowRecords env s) of
        (fs, s1) \<Rightarrow>
          (let now = or_default (opt_now opts) (env_now env);
               s2 = ensureFlowRegistryReady env s1
           in (js_to_sorted compareFindings
                 (push_if (restoreFailure s2 \<noteq> None)
                       \<lparr>severity = Error, code = RestoreFailed, ageMs = None, found_flow = None\<rparr>
                  @ concat (map (audit_flow opts now linked) fs)), s2)))"

record audit_summary =
  total :: nat
  warnings :: nat
  errors :: nat
  byCode :: "audit_code \<Rightarrow> nat"

definition createEmptyTaskFlowAuditSummary :: audit_summary where
  "createEmptyTaskFlowAuditSummary = \<lparr>total = 0, warnings = 0, errors = 0, byCode = (\<lambda>_. 0)\<rparr>"

definition count_finding :: "audit_finding \<Rightarrow> audit_summary \<Rightarrow> audit_summary" where
  "count_finding f m =
     (let m1 = m\<lparr>total := total m + 1, byCode := (byCode m)(code f := byCode m (code f) + 1)\<rparr>
      in if severity f = Error then m1\<lparr>errors := errors m1 + 1\<rparr>
         else m1\<lparr>warnings := warnings m1 + 1\<rparr>)"

definition summarizeTaskFlowAuditFindings :: "audit_finding list \<Rightarrow> audit_summary" where
  "summarizeTaskFlowAuditFindings fs = fold count_finding fs createEmptyTaskFlowAuditSummary"

definition getInspectableTaskFlowAuditSummary ::
  "flow_env \<Rightarrow> (string \<Rightarrow> task_record list) \<Rightarrow> audit_options \<Rightarrow> flow_registry
     \<Rightarrow> audit_summary \<times> flow_registry" where
  "getInspectableTaskFlowAuditSummary env linked opts s =
     (case listTaskFlowAuditFindings env linked opts s of (fs, s1) \<Rightarrow>
        (summarizeTaskFlowAuditFindings fs, s1))"

end
