(* ===== verification/TaskFlowInv.thy ===== *)
theory TaskFlowInv
  imports TaskFlowMaint
begin

text \<open>
  The invariant of the task-flow registry.  A flow in memory is normalized (\<^verbatim>\<open>wf_flow\<close>); the store
  holds its encoding, which decodes to its durable part: everything but the delivery origin, whose
  normalization depends on the channels installed when it is read.  The store's operations are an
  interpretation of \<^verbatim>\<open>durable_store\<close>, for both kinds of store the registry can be configured with.
\<close>

section \<open>What survives in a row\<close>

definition wf_flow :: "flow \<Rightarrow> bool" where
  "wf_flow f \<longleftrightarrow>
     normalizeOptionalString (Some (ownerKey f)) = Some (ownerKey f)
     \<and> (if syncMode f = Managed
        then controllerId f \<noteq> None \<and> normalizeOptionalString (controllerId f) = controllerId f
        else controllerId f \<noteq> Some [])
     \<and> normalizeOptionalString (currentStep f) = currentStep f
     \<and> normalizeOptionalString (blockedTaskId f) = blockedTaskId f
     \<and> normalizeOptionalString (blockedSummary f) = blockedSummary f
     \<and> 0 \<le> revision f \<and> flowId f \<noteq> []"

definition stored_form :: "flow \<Rightarrow> flow" where
  "stored_form f =
     f\<lparr>stateJson := map_option json_stringify (stateJson f),
       waitJson := map_option json_stringify (waitJson f)\<rparr>"

definition durable :: "flow \<Rightarrow> flow" where
  "durable f = (stored_form f)\<lparr>requesterOrigin := None\<rparr>"

definition decode_row :: "(string \<Rightarrow> string option) \<Rightarrow> flow_row \<Rightarrow> flow_error + flow" where
  "decode_row nc row = result_bind (rowToFlowRecord nc row) normalizeRestoredFlowRecord"

definition readable_row :: "flow_row \<Rightarrow> bool" where
  "readable_row row \<longleftrightarrow> row_flow_id row \<noteq> [] \<and> (case decode_row (\<lambda>_. None) row of Inl _ \<Rightarrow> False | Inr _ \<Rightarrow> True)"

lemma normalized_string: "normalizeOptionalString v = v \<Longrightarrow> v \<noteq> Some [] \<and> truthy_string v = v"
  by (cases v) (auto simp: normalizeOptionalString_Some truthy_string_def)

lemma durable_idem [simp]: "durable (durable f) = durable f"
  by (simp add: durable_def stored_form_def option.map_comp o_def)

lemma durable_fields [simp]:
  "flowId (durable f) = flowId f" "revision (durable f) = revision f" "status (durable f) = status f"
  "ownerKey (durable f) = ownerKey f" "syncMode (durable f) = syncMode f"
  by (simp_all add: durable_def stored_form_def)

text \<open>The context written to a row and read back is the normalized context.\<close>

lemma origin_json_roundtrip:
  "parseDeliveryContextJson nc (Some (JsonDoc (json_stringify (delivery_context_json c))))
     = normalizeDeliveryContext nc c"
proof -
  have thread: "normalizeOptionalThreadValue (json_thread (map_option (\<lambda>t. json_stringify (thread_json t)) t))
      = normalizeOptionalThreadValue t" for t :: "thread_id option"
  proof (cases t)
    case (Some x)
    then show ?thesis
      by (cases x rule: thread_json.cases)
        (auto simp: json_thread_def normalizeOptionalThreadValue_def is_finite_num_def
          split: js_number.splits)
  qed (simp add: json_thread_def)
  define kvs where "kvs = map (map_prod id json_stringify)
      (opt_member ''channel'' JString (dc_channel c) @ opt_member ''to'' JString (dc_to c)
       @ opt_member ''accountId'' JString (dc_accountId c)
       @ opt_member ''threadId'' thread_json (dc_threadId c)
       @ opt_member ''deliveryIntent'' intent_json (dc_intent c))"
  have doc: "json_stringify (delivery_context_json c) = JObject kvs"
    by (simp add: delivery_context_json_def kvs_def)
  have get: "js_get kvs ''channel'' = map_option JString (dc_channel c)"
    "js_get kvs ''to'' = map_option JString (dc_to c)"
    "js_get kvs ''accountId'' = map_option JString (dc_accountId c)"
    "js_get kvs ''threadId'' = map_option (\<lambda>t. json_stringify (thread_json t)) (dc_threadId c)"
    by (cases "dc_channel c"; cases "dc_to c"; cases "dc_accountId c"; cases "dc_threadId c";
        cases "dc_intent c"; simp add: kvs_def opt_member_def)+
  have str: "json_string (map_option JString v) = v" for v
    by (cases v) (simp_all add: json_string_def)
  show ?thesis
    by (simp add: parseDeliveryContextJson_def parseJsonValue_def doc get str
        normalizeDeliveryContext_def normalizeChannelRouteRef_def thread)
qed

text \<open>A row written for a flow decodes, whatever the \<^verbatim>\<open>shape\<close> of the row it replaced.\<close>

definition restored_form :: "(string \<Rightarrow> string option) \<Rightarrow> flow \<Rightarrow> flow" where
  "restored_form nc f =
     (stored_form f)\<lparr>requesterOrigin := Option.bind (requesterOrigin f) (normalizeDeliveryContext nc)\<rparr>"

lemma row_to_flow_of_bind:
  assumes "wf_flow f"
  shows "rowToFlowRecord nc ((bindFlowRecord f)\<lparr>row_shape := sh\<rparr>) = Inr (restored_form nc f)"
proof -
  have "parseDeliveryContextJson nc (map_option (\<lambda>c. JsonDoc (json_stringify (delivery_context_json c)))
      (requesterOrigin f)) = Option.bind (requesterOrigin f) (normalizeDeliveryContext nc)"
    by (cases "requesterOrigin f")
      (simp_all add: origin_json_roundtrip, simp add: parseDeliveryContextJson_def parseJsonValue_def)
  moreover have "truthy_string (controllerId f) = controllerId f"
    using assms by (auto simp: wf_flow_def truthy_string_def dest: normalized_string split: if_splits)
  moreover have "truthy_string (currentStep f) = currentStep f"
    "truthy_string (blockedTaskId f) = blockedTaskId f"
    "truthy_string (blockedSummary f) = blockedSummary f"
    using assms by (simp_all add: wf_flow_def normalized_string)
  ultimately show ?thesis
    by (simp add: rowToFlowRecord_def bindFlowRecord_def rowToSyncMode_def restored_form_def
        stored_form_def)
qed

lemma normalize_wf:
  assumes "wf_flow f"
  shows "normalizeRestoredFlowRecord (restored_form nc f) = Inr (restored_form nc f)"
proof -
  have "assertFlowOwnerKey (ownerKey f) = Inr (ownerKey f)"
    using assms by (simp add: wf_flow_def assertFlowOwnerKey_def)
  with assms show ?thesis
    by (cases "controllerId f")
      (auto simp: normalizeRestoredFlowRecord_def restored_form_def stored_form_def wf_flow_def)
qed

lemma decode_bind:
  "wf_flow f \<Longrightarrow> decode_row nc ((bindFlowRecord f)\<lparr>row_shape := sh\<rparr>) = Inr (restored_form nc f)"
  by (simp add: decode_row_def row_to_flow_of_bind normalize_wf)

lemma legacy_controller_trimmed [simp]: "js_trim ''core/legacy-restored'' = ''core/legacy-restored''"
  by (rule js_trim_trimmed) (simp add: trimmed_def is_js_space_def)

lemma normalize_restored_wf: 
  "normalizeRestoredFlowRecord f = Inr g \<Longrightarrow> controllerId f \<noteq> Some [] \<Longrightarrow> flowId f \<noteq> [] \<Longrightarrow> wf_flow g"
  by (auto simp: normalizeRestoredFlowRecord_def wf_flow_def assertFlowOwnerKey_def Let_def
      result_bind_Inr or_default_def normalizeOptionalString_Some split: option.splits if_splits)

lemma row_to_flow_fields:
  "rowToFlowRecord nc row = Inr f \<Longrightarrow> controllerId f \<noteq> Some [] \<and> flowId f = row_flow_id row"
  by (auto simp: rowToFlowRecord_def result_bind_Inr truthy_string_def split: if_splits)

lemma decode_wf: "decode_row nc row = Inr f \<Longrightarrow> row_flow_id row \<noteq> [] \<Longrightarrow> wf_flow f"
  unfolding decode_row_def result_bind_Inr by (metis normalize_restored_wf row_to_flow_fields)


section \<open>The table as a durable store\<close>

definition stored_row :: "flow_row \<Rightarrow> flow option" where
  "stored_row row = (case decode_row (\<lambda>_. None) row of Inl _ \<Rightarrow> None | Inr f \<Rightarrow> Some (durable f))"

definition stored :: "flow_table \<Rightarrow> string \<Rightarrow> flow option" where
  "stored rows k = Option.bind (js_get rows k) stored_row"

definition table_ok :: "flow_table \<Rightarrow> bool" where
  "table_ok rows \<longleftrightarrow> keyed_by row_flow_id rows \<and> (\<forall>row \<in> set (js_values rows). readable_row row)"

lemma stored_bind [simp]: "wf_flow f \<Longrightarrow> stored_row ((bindFlowRecord f)\<lparr>row_shape := sh\<rparr>) = Some (durable f)"
  by (simp add: stored_row_def decode_bind restored_form_def durable_def stored_form_def
      option.map_comp o_def)

lemma readable_bind [simp]: "wf_flow f \<Longrightarrow> readable_row ((bindFlowRecord f)\<lparr>row_shape := sh\<rparr>)"
  by (simp add: readable_row_def decode_bind) (simp add: wf_flow_def bindFlowRecord_def)

lemma bind_shape: "bindFlowRecord f = (bindFlowRecord f)\<lparr>row_shape := None\<rparr>"
  by (simp add: bindFlowRecord_def)

lemma row_flow_id_bind [simp]: "row_flow_id (bindFlowRecord f) = flowId f"
  by (simp add: bindFlowRecord_def)

lemma upsert_flow_row:
  "\<exists>sh. upsertFlowRow (bindFlowRecord f) rows = js_set (flowId f) ((bindFlowRecord f)\<lparr>row_shape := sh\<rparr>) rows"
  by (cases "js_get rows (flowId f)") (auto simp: upsertFlowRow_def intro: exI [of _ None] simp flip: bind_shape)

lemma stored_upsert:
  "wf_flow f \<Longrightarrow> stored (upsertFlowRow (bindFlowRecord f) rows) k
     = (if k = flowId f then Some (durable f) else stored rows k)"
  using upsert_flow_row [of f rows] by (auto simp: stored_def)

lemma stored_upserts:
  "keyed_by flowId m \<Longrightarrow> \<forall>f \<in> set (js_values m). wf_flow f
     \<Longrightarrow> stored (fold (\<lambda>f. upsertFlowRow (bindFlowRecord f)) (js_values m) rows) k
       = or_else (map_option durable (js_get m k)) (stored rows k)"
proof (induction m arbitrary: rows)
  case (Cons p m)
  obtain k' f where p: "p = (k', f)" by fastforce
  with Cons.prems have "keyed_by flowId m" "flowId f = k'" "wf_flow f" "js_get m k' = None"
    by (auto simp: keyed_by_def js_get_None_iff)
  with Cons p show ?case
    by (auto simp: stored_upsert)
qed simp

lemma js_get_filter_keys: "js_get (filter (\<lambda>(k', _). k' \<in> A) rows) k = (if k \<in> A then js_get rows k else None)"
  by (induction rows) auto

lemma stored_prune: "stored (pruneFlowsNotInSnapshot ids rows) k = (if k \<in> set ids then stored rows k else None)"
  by (simp add: stored_def pruneFlowsNotInSnapshot_def js_get_filter_keys)

lemma stored_Nil [simp]: "stored [] k = None"
  by (simp add: stored_def)

lemma stored_delete: "stored (js_delete k rows) k' = (if k' = k then None else stored rows k')"
  by (simp add: stored_def)

lemma stored_replace:
  assumes "keyed_by flowId m" and "\<forall>f \<in> set (js_values m). wf_flow f"
  shows "stored (saveTaskFlowRegistryStateToSqlite m rows) k = map_option durable (js_get m k)"
proof (cases "js_get m k")
  case None
  then have "k \<notin> set (js_keys m)" by (simp only: js_get_None_iff not_False_eq_True)
  with None stored_upserts [OF assms] show ?thesis
    by (simp add: saveTaskFlowRegistryStateToSqlite_def stored_prune)
next
  case (Some f)
  with stored_upserts [OF assms] show ?thesis
    by (auto simp: saveTaskFlowRegistryStateToSqlite_def)
qed

interpretation flow_rows: durable_store stored upsertTaskFlowRegistryRecordToSqlite
  deleteTaskFlowRegistryRecordFromSqlite saveTaskFlowRegistryStateToSqlite flowId durable wf_flow
  by unfold_locales
    (simp_all only: upsertTaskFlowRegistryRecordToSqlite_def stored_upsert stored_replace
      deleteTaskFlowRegistryRecordFromSqlite_def stored_delete if_True if_False refl)

text \<open>The table stays readable.\<close>

lemma table_ok_set:
  "table_ok rows \<Longrightarrow> readable_row row \<Longrightarrow> row_flow_id row = k \<Longrightarrow> table_ok (js_set k row rows)"
  using js_values_set_subset [of k row rows] unfolding table_ok_def by (blast intro: keyed_by_set)

lemma table_ok_upsert: "table_ok rows \<Longrightarrow> wf_flow f \<Longrightarrow> table_ok (upsertFlowRow (bindFlowRecord f) rows)"
  using upsert_flow_row [of f rows] by (auto intro!: table_ok_set)

lemma table_ok_delete: "table_ok rows \<Longrightarrow> table_ok (js_delete k rows)"
  using set_js_delete_subset [of k rows] unfolding table_ok_def
  by (auto intro: keyed_by_delete)

lemma table_ok_replace:
  assumes "table_ok rows" and "\<forall>f \<in> set (js_values m). wf_flow f"
  shows "table_ok (saveTaskFlowRegistryStateToSqlite m rows)"
proof -
  have "table_ok (pruneFlowsNotInSnapshot ids rows)" for ids
    using assms(1) by (auto simp: table_ok_def keyed_by_def pruneFlowsNotInSnapshot_def
        intro!: distinct_map_filter)
  moreover have "table_ok rs \<Longrightarrow> \<forall>f \<in> set fs. wf_flow f
      \<Longrightarrow> table_ok (fold (\<lambda>f. upsertFlowRow (bindFlowRecord f)) fs rs)" for rs fs
    by (induction fs arbitrary: rs) (auto simp: table_ok_upsert)
  ultimately show ?thesis
    using assms(2) by (auto simp: saveTaskFlowRegistryStateToSqlite_def) (simp add: table_ok_def)
qed

section \<open>Loading the table\<close>

lemma row_to_flow_channels:
  "rowToFlowRecord nc' row = map_sum id
     (\<lambda>g. g\<lparr>requesterOrigin := parseDeliveryContextJson nc' (row_requester_origin_json row)\<rparr>)
     (rowToFlowRecord nc row)"
  by (cases "rowToSyncMode row"; cases "parseTaskFlowStatus (row_status row)";
      cases "parseTaskNotifyPolicy (row_notify_policy row)") (simp_all add: rowToFlowRecord_def)

lemma normalize_origin:
  "normalizeRestoredFlowRecord (g\<lparr>requesterOrigin := org\<rparr>)
     = map_sum id (\<lambda>f. f\<lparr>requesterOrigin := org\<rparr>) (normalizeRestoredFlowRecord g)"
  by (cases "assertFlowOwnerKey (ownerKey g)")
    (simp_all add: normalizeRestoredFlowRecord_def split: option.split)

lemma decode_durable:
  assumes "decode_row nc row = Inr f"
  shows "\<exists>g. decode_row nc' row = Inr g \<and> durable g = durable f"
proof -
  from assms obtain r where r: "rowToFlowRecord nc row = Inr r" "normalizeRestoredFlowRecord r = Inr f"
    by (auto simp: decode_row_def result_bind_Inr)
  let ?org = "parseDeliveryContextJson nc' (row_requester_origin_json row)"
  have "rowToFlowRecord nc' row = Inr (r\<lparr>requesterOrigin := ?org\<rparr>)"
    using r(1) by (simp add: row_to_flow_channels [of nc' row nc])
  with r(2) have "decode_row nc' row = Inr (f\<lparr>requesterOrigin := ?org\<rparr>)"
    by (simp add: decode_row_def normalize_origin)
  then show ?thesis by (simp add: durable_def stored_form_def)
qed

lemma decode_flowId: "decode_row nc row = Inr f \<Longrightarrow> flowId f = row_flow_id row"
  by (auto simp: decode_row_def rowToFlowRecord_def result_bind_Inr normalizeRestoredFlowRecord_def
      Let_def)

lemma readable_decodes:
  "readable_row row \<Longrightarrow>
     \<exists>g f. rowToFlowRecord nc row = Inr g \<and> normalizeRestoredFlowRecord g = Inr f
       \<and> wf_flow f \<and> flowId f = row_flow_id row \<and> Some (durable f) = stored_row row"
proof -
  assume "readable_row row"
  then obtain f0 where f0: "decode_row (\<lambda>_. None) row = Inr f0" "row_flow_id row \<noteq> []"
    by (auto simp: readable_row_def split: sum.splits)
  from decode_durable [OF f0(1), of nc] obtain f where f: "decode_row nc row = Inr f" "durable f = durable f0"
    by blast
  from f(1) obtain g where "rowToFlowRecord nc row = Inr g" "normalizeRestoredFlowRecord g = Inr f"
    by (auto simp: decode_row_def result_bind_Inr)
  with f f0 decode_wf [OF f(1) f0(2)] decode_flowId [OF f(1)] show ?thesis
    by (auto simp: stored_row_def)
qed

lemma load_table:
  assumes "table_ok rows"
  shows "\<exists>fl. result_bind (loadTaskFlowRegistryStateFromSqlite nc rows) restore_flows = Inr fl
           \<and> keyed_by flowId fl \<and> (\<forall>f \<in> set (js_values fl). wf_flow f)
           \<and> (\<forall>k. map_option durable (js_get fl k) = stored rows k)
           \<and> (\<forall>k f. js_get fl k = Some f \<longrightarrow> (\<exists>row. js_get rows k = Some row \<and> decode_row nc row = Inr f))"
proof -
  let ?sel = "selectFlowRows rows"
  let ?raw = "\<lambda>r. projr (rowToFlowRecord nc r)"
  let ?dec = "\<lambda>r. projr (decode_row nc r)"
  let ?pairs = "map (\<lambda>r. (row_flow_id r, ?raw r)) ?sel"
  let ?out = "map (\<lambda>r. (row_flow_id r, ?dec r)) ?sel"
  have mset: "mset ?sel = mset (js_values rows)" by (simp add: selectFlowRows_def)
  have keys: "map row_flow_id (js_values rows) = js_keys rows"
    using assms by (auto simp: table_ok_def keyed_by_def)
  then have "mset (map row_flow_id ?sel) = mset (js_keys rows)"
    using mset by (metis mset_map)
  then have dist: "distinct (map row_flow_id ?sel)"
    using assms mset_eq_imp_distinct_iff unfolding table_ok_def keyed_by_def by blast
  have dec: "rowToFlowRecord nc r = Inr (?raw r) \<and> normalizeRestoredFlowRecord (?raw r) = Inr (?dec r)
      \<and> wf_flow (?dec r) \<and> flowId (?dec r) = row_flow_id r \<and> stored_row r = Some (durable (?dec r))"
    if "r \<in> set ?sel" for r
  proof -
    from that mset have "r \<in> set (js_values rows)" by (metis set_mset_mset)
    then have "readable_row r" using assms by (auto simp: table_ok_def)
    from readable_decodes [OF this, of nc] show ?thesis by (auto simp: decode_row_def)
  qed
  have loaded: "loadTaskFlowRegistryStateFromSqlite nc rows = Inr ?pairs"
  proof -
    have "traverse (\<lambda>r. result_bind (rowToFlowRecord nc r) (\<lambda>f. Inr (row_flow_id r, f))) ?sel = Inr ?pairs"
      using dec by (intro traverse_all) (metis result_bind.simps(2))
    then show ?thesis
      using dist by (simp add: loadTaskFlowRegistryStateFromSqlite_def fold_js_set o_def)
  qed
  have restored: "restore_flows ?pairs = Inr ?out"
  proof -
    have "traverse (\<lambda>(k, f). result_bind (normalizeRestoredFlowRecord f) (\<lambda>g. Inr (k, g))) ?pairs
        = Inr (map (\<lambda>(k, f). (k, projr (normalizeRestoredFlowRecord f))) ?pairs)"
      using dec by (intro traverse_all) auto
    moreover have "map (\<lambda>(k, f). (k, projr (normalizeRestoredFlowRecord f))) ?pairs = ?out"
      using dec by auto
    ultimately show ?thesis using dist by (simp add: restore_flows_def fold_js_set o_def)
  qed
  have get: "js_get ?out k = map_option ?dec (js_get rows k) \<and> (\<forall>r. js_get rows k = Some r \<longrightarrow> r \<in> set ?sel)" for k
  proof -
    have "js_get (map (\<lambda>r. (row_flow_id r, ?dec r)) rs) k
        = map_option ?dec (js_get (map (\<lambda>r. (row_flow_id r, r)) rs) k)" for rs
      by (induction rs) auto
    then have "js_get ?out k = map_option ?dec (js_get (map (\<lambda>r. (row_flow_id r, r)) ?sel) k)" .
    moreover have "js_get (map (\<lambda>r. (row_flow_id r, r)) ?sel) = js_get rows"
    proof (rule map_of_permuted)
      have "map (\<lambda>r. (row_flow_id r, r)) (js_values rows) = rows"
        using assms by (induction rows) (auto simp: table_ok_def keyed_by_def)
      then show "mset (map (\<lambda>r. (row_flow_id r, r)) ?sel) = mset rows" by (metis mset mset_map)
    qed (use dist in \<open>simp add: o_def\<close>)
    moreover have "r \<in> set ?sel" if "js_get rows k = Some r" for r
      using that mset by (metis js_get_in_values set_mset_mset)
    ultimately show ?thesis by simp
  qed
  have "map_option durable (js_get ?out k) = stored rows k" for k
    using get [of k] dec by (cases "js_get rows k") (auto simp: stored_def)
  moreover have "\<exists>row. js_get rows k = Some row \<and> decode_row nc row = Inr f" if "js_get ?out k = Some f" for k f
  proof -
    have "map_option ?dec (js_get rows k) = Some f" using conjunct1 [OF get [of k]] that by (simp only:)
    then obtain r where r: "js_get rows k = Some r" "f = ?dec r" by (cases "js_get rows k") auto
    with get [of k] have "r \<in> set ?sel" by blast
    with dec have d: "rowToFlowRecord nc r = Inr (?raw r)" "normalizeRestoredFlowRecord (?raw r) = Inr (?dec r)" by blast+
    have "decode_row nc r = result_bind (Inr (?raw r)) normalizeRestoredFlowRecord" unfolding decode_row_def using d(1) by metis
    with d(2) have "decode_row nc r = Inr (?dec r)" by (simp only: result_bind.simps)
    with r show ?thesis by blast
  qed
  moreover have "keyed_by flowId ?out" using dist dec by (auto simp: keyed_by_def o_def)
  moreover have "\<forall>f \<in> set (js_values ?out). wf_flow f" using dec by auto
  moreover have "result_bind (loadTaskFlowRegistryStateFromSqlite nc rows) restore_flows = Inr ?out"
    by (simp only: loaded restored result_bind.simps)
  ultimately show ?thesis by blast
qed

section \<open>The invariant\<close>

definition replay_event :: "registry_event \<Rightarrow> (string, flow) js_map \<Rightarrow> (string, flow) js_map" where
  "replay_event ev fl =
     (case ev of
        FlowsRestored fl' \<Rightarrow> fl'
      | FlowUpserted f _ \<Rightarrow> js_set (flowId f) f fl
      | FlowDeleted fid _ \<Rightarrow> js_delete fid fl)"

definition synced :: "bool \<Rightarrow> flow_table \<Rightarrow> (string, flow) js_map \<Rightarrow> bool" where
  "synced all rows fl \<longleftrightarrow>
     (\<forall>k f. js_get fl k = Some f \<longrightarrow> stored rows k = Some (durable f))
     \<and> (all \<longrightarrow> (\<forall>k. stored rows k = map_option durable (js_get fl k)))"

lemma synced_all: "\<forall>k. map_option durable (js_get fl k) = stored rows k \<Longrightarrow> synced b rows fl"
  by (simp add: synced_def) (metis option.simps(9))

lemma synced_save:
  "synced b rows fl \<Longrightarrow> wf_flow f
     \<Longrightarrow> synced b (upsertTaskFlowRegistryRecordToSqlite f rows) (js_set (flowId f) f fl)"
  by (simp add: synced_def flow_rows.read_save)

lemma synced_remove:
  "synced b rows fl \<Longrightarrow> synced b (deleteTaskFlowRegistryRecordFromSqlite fid rows) (js_delete fid fl)"
  by (simp add: synced_def flow_rows.read_remove)

lemma synced_replace:
  "keyed_by flowId fl \<Longrightarrow> \<forall>f \<in> set (js_values fl). wf_flow f
     \<Longrightarrow> synced b (saveTaskFlowRegistryStateToSqlite fl rows) fl"
  by (rule synced_all) (simp only: flow_rows.read_replace simp_thms)

abbreviation in_sync :: "flow_registry \<Rightarrow> bool" where
  "in_sync s \<equiv> synced (restoreFailure s = None) (store_rows (store s)) (flows s)"

definition registry_inv :: "flow_registry \<Rightarrow> bool" where
  "registry_inv s \<longleftrightarrow>
     table_ok (store_rows (store s)) \<and> keyed_by flowId (flows s)
     \<and> (\<forall>f \<in> set (js_values (flows s)). wf_flow f)
     \<and> (if restoreAttempted s then in_sync s else flows s = [] \<and> restoreFailure s = None)
     \<and> fold replay_event (observed s) [] = flows s"

lemma registry_invD:
  assumes "registry_inv s"
  shows "table_ok (store_rows (store s))" "keyed_by flowId (flows s)"
    "\<forall>f \<in> set (js_values (flows s)). wf_flow f"
    "restoreAttempted s \<Longrightarrow> in_sync s" "fold replay_event (observed s) [] = flows s"
  using assms by (simp_all add: registry_inv_def)

lemma registry_inv_get:
  "registry_inv s \<Longrightarrow> js_get (flows s) fid = Some f \<Longrightarrow> wf_flow f \<and> flowId f = fid"
  using js_get_in_values keyed_by_get registry_invD(2,3) by metis

lemma next_fault_fields:
  assumes "next_fault s = (b, s1)"
  shows "flows s1 = flows s" "store s1 = store s" "restoreAttempted s1 = restoreAttempted s"
    "restoreFailure s1 = restoreFailure s" "observed s1 = observed s"
  using assms by (auto simp: next_fault_def split: list.splits)

lemma next_fault_inv: "next_fault s = (b, s1) \<Longrightarrow> registry_inv s \<Longrightarrow> registry_inv s1"
  by (auto simp: registry_inv_def synced_def next_fault_fields)

lemma ready_attempted [simp]: "restoreAttempted (ensureFlowRegistryReady env s)"
  by (auto simp: ensureFlowRegistryReady_def emitFlowRegistryObserverEvent_def next_fault_def
      split: list.splits sum.splits)

lemma ready_id [simp]: "restoreAttempted s \<Longrightarrow> ensureFlowRegistryReady env s = s"
  by (simp add: ensureFlowRegistryReady_def)

lemma ready_store [simp]: "store (ensureFlowRegistryReady env s) = store s"
  by (auto simp: ensureFlowRegistryReady_def emitFlowRegistryObserverEvent_def next_fault_def
      split: list.splits sum.splits)

lemma ready_loads:
  assumes "registry_inv s" and "\<not> restoreAttempted s" and "next_fault (s\<lparr>restoreAttempted := True\<rparr>) = (False, s1)"
  shows "\<exists>fl. ensureFlowRegistryReady env s =
      emitFlowRegistryObserverEvent (FlowsRestored fl) (s1\<lparr>flows := fl, restoreFailure := None\<rparr>)
    \<and> keyed_by flowId fl \<and> (\<forall>f \<in> set (js_values fl). wf_flow f)
    \<and> (\<forall>k. map_option durable (js_get fl k) = stored (store_rows (store s)) k)
    \<and> (\<forall>k f. js_get fl k = Some f
        \<longrightarrow> (\<exists>row. js_get (store_rows (store s)) k = Some row \<and> decode_row (env_channel env) row = Inr f))"
proof -
  have "store s1 = store s" using next_fault_fields(2) [OF assms(3)] by simp
  with load_table [OF registry_invD(1) [OF assms(1)], of "env_channel env"] assms(2,3)
  show ?thesis by (auto simp: ensureFlowRegistryReady_def)
qed

lemma ready_inv: "registry_inv s \<Longrightarrow> registry_inv (ensureFlowRegistryReady env s)"
proof (cases "restoreAttempted s")
  case False
  assume inv: "registry_inv s"
  obtain b s1 where nf: "next_fault (s\<lparr>restoreAttempted := True\<rparr>) = (b, s1)" by fastforce
  note fields = next_fault_fields [OF nf]
  show ?thesis
  proof (cases b)
    case True
    with False nf fields inv show ?thesis
      by (auto simp: ensureFlowRegistryReady_def registry_inv_def synced_def)
  next
    case b: False
    with nf have "next_fault (s\<lparr>restoreAttempted := True\<rparr>) = (False, s1)" by simp
    from ready_loads [OF inv False this, of env] obtain fl where fl:
      "ensureFlowRegistryReady env s =
        emitFlowRegistryObserverEvent (FlowsRestored fl) (s1\<lparr>flows := fl, restoreFailure := None\<rparr>)"
      "keyed_by flowId fl" "\<forall>f \<in> set (js_values fl). wf_flow f"
      "\<forall>k. map_option durable (js_get fl k) = stored (store_rows (store s)) k" by blast
    with fields inv synced_all [OF fl(4)] show ?thesis
      by (simp add: emitFlowRegistryObserverEvent_def registry_inv_def replay_event_def)
  qed
qed simp

lemma persist_upsert_inv:
  assumes "registry_inv s" and "restoreAttempted s" and "wf_flow f"
  shows "registry_inv (emitFlowRegistryObserverEvent (FlowUpserted f prev)
           (s\<lparr>store := persistFlowUpsert f (flows s) (store s), flows := js_set (flowId f) f (flows s)\<rparr>))"
proof -
  let ?fl = "js_set (flowId f) f (flows s)" and ?rows = "store_rows (store s)"
  note inv = registry_invD [OF assms(1)]
  have fl: "keyed_by flowId ?fl" "\<forall>g \<in> set (js_values ?fl). wf_flow g"
    using keyed_by_set [OF inv(2), of f "flowId f"] ball_values_set [OF inv(3) assms(3), of "flowId f"]
    by simp_all
  have snapshot: "createFlowSnapshotWith (Some f) None (flows s) = ?fl"
    by (simp add: createFlowSnapshotWith_def)
  have "table_ok (store_rows (persistFlowUpsert f (flows s) (store s)))"
    using table_ok_replace [OF inv(1) fl(2)] table_ok_upsert [OF inv(1) assms(3)]
    by (simp add: persistFlowUpsert_def snapshot upsertTaskFlowRegistryRecordToSqlite_def)
  moreover have "synced (restoreFailure s = None) (store_rows (persistFlowUpsert f (flows s) (store s))) ?fl"
    using synced_save [OF inv(4) [OF assms(2)] assms(3)] synced_replace [OF fl]
    by (simp add: persistFlowUpsert_def snapshot)
  ultimately show ?thesis
    using fl inv(5) assms(2)
    by (simp add: registry_inv_def emitFlowRegistryObserverEvent_def replay_event_def)
qed

lemma persist_delete_inv:
  assumes "registry_inv s" and "restoreAttempted s" and "fid \<noteq> []"
  shows "registry_inv (emitFlowRegistryObserverEvent (FlowDeleted fid prev)
           (s\<lparr>store := persistFlowDelete fid (flows s) (store s), flows := js_delete fid (flows s)\<rparr>))"
proof -
  let ?fl = "js_delete fid (flows s)"
  note inv = registry_invD [OF assms(1)]
  have fl: "keyed_by flowId ?fl" "\<forall>g \<in> set (js_values ?fl). wf_flow g"
    using keyed_by_delete [OF inv(2)] ball_values_delete [OF inv(3)] by simp_all
  have snapshot: "createFlowSnapshotWith None (Some fid) (flows s) = ?fl"
    using assms(3) by (simp add: createFlowSnapshotWith_def)
  have "table_ok (store_rows (persistFlowDelete fid (flows s) (store s)))"
    using table_ok_replace [OF inv(1) fl(2)] table_ok_delete [OF inv(1)]
    by (simp add: persistFlowDelete_def snapshot deleteTaskFlowRegistryRecordFromSqlite_def)
  moreover have "synced (restoreFailure s = None) (store_rows (persistFlowDelete fid (flows s) (store s))) ?fl"
    using synced_remove [OF inv(4) [OF assms(2)], of fid] synced_replace [OF fl]
    by (simp add: persistFlowDelete_def snapshot)
  ultimately show ?thesis
    using fl inv(5) assms(2)
    by (simp add: registry_inv_def emitFlowRegistryObserverEvent_def replay_event_def)
qed

section \<open>Each operation keeps the invariant\<close>

lemma write_fields:
  "restoreAttempted (snd (writeFlowRecord f prev s)) = restoreAttempted s"
  "restoreFailure (snd (writeFlowRecord f prev s)) = restoreFailure s"
  by (auto simp: writeFlowRecord_def tryPersistFlowUpsert_def emitFlowRegistryObserverEvent_def
      next_fault_fields split: prod.splits)

lemma write_cases:
  assumes "next_fault s = (b, s1)"
  shows "writeFlowRecord f prev s =
    (if b then (None, s1)
     else (Some f, emitFlowRegistryObserverEvent (FlowUpserted f prev)
       (s1\<lparr>store := persistFlowUpsert f (flows s1) (store s1), flows := js_set (flowId f) f (flows s1)\<rparr>)))"
  using assms by (simp add: writeFlowRecord_def tryPersistFlowUpsert_def)

lemma write_inv:
  assumes "registry_inv s" and "restoreAttempted s" and "wf_flow f"
  shows "registry_inv (snd (writeFlowRecord f prev s))"
proof -
  obtain b s1 where nf: "next_fault s = (b, s1)" by fastforce
  with assms next_fault_inv [OF nf] next_fault_fields [OF nf] persist_upsert_inv [of s1 f prev]
  show ?thesis by (simp add: write_cases)
qed

lemma delete_cases:
  assumes "restoreAttempted s" and "next_fault s = (b, s1)"
  shows "deleteTaskFlowRecordById env fid s =
    (case js_get (flows s) fid of
       None \<Rightarrow> (False, s)
     | Some f \<Rightarrow>
         if b then (False, s1)
         else (True, emitFlowRegistryObserverEvent (FlowDeleted fid f)
                (s1\<lparr>store := persistFlowDelete fid (flows s1) (store s1), flows := js_delete fid (flows s1)\<rparr>)))"
  using assms by (simp add: deleteTaskFlowRecordById_def tryPersistFlowDelete_def split: option.split)

lemma normalized_result: "normalizeOptionalString v = Some t \<Longrightarrow> normalizeOptionalString (Some t) = Some t"
  by (metis normalizeOptionalString_idem)

lemma normalized_owner: "assertFlowOwnerKey k = Inr owner \<Longrightarrow> normalizeOptionalString (Some owner) = Some owner"
  by (auto simp: assertFlowOwnerKey_def split: option.splits dest: normalized_result)

lemma normalized_controller: "assertControllerId c = Inr c' \<Longrightarrow> normalizeOptionalString (Some c') = Some c'"
  by (auto simp: assertControllerId_def split: option.splits dest: normalized_result)

lemma built_wf:
  assumes "buildFlowRecord env p = Inr f" and "env_uuid env \<noteq> []"
  shows "wf_flow f \<and> flowId f = env_uuid env"
proof -
  from assms(1) obtain controller owner where
    c: "(if or_default (new_syncMode p) Managed = Managed
         then result_bind (assertControllerId (new_controllerId p)) (\<lambda>c. Inr (Some c)) else Inr None) = Inr controller"
    and o: "assertFlowOwnerKey (new_ownerKey p) = Inr owner"
    by (auto simp: buildFlowRecord_def Let_def result_bind_Inr)
  have "if or_default (new_syncMode p) Managed = Managed
        then controller \<noteq> None \<and> normalizeOptionalString controller = controller else controller \<noteq> Some []"
    using c by (auto simp: result_bind_Inr dest: normalized_controller split: if_splits)
  with assms(2) c o normalized_owner [OF o] show ?thesis
    using assms(1) by (auto simp: buildFlowRecord_def Let_def wf_flow_def)
qed

lemma patched_string_normal:
  "normalizeOptionalString old = old \<Longrightarrow> normalizeOptionalString (patched_string p old) = patched_string p old"
  by (simp add: patched_string_def)

lemma patched_string_nonempty: "old \<noteq> Some [] \<Longrightarrow> patched_string p old \<noteq> Some []"
  by (cases p) (simp_all add: patched_string_def normalizeOptionalString_Some)

lemma patched_wf:
  assumes "applyFlowPatch env f p = Inr g" and "wf_flow f"
  shows "wf_flow g \<and> flowId g = flowId f \<and> revision g = revision f + 1 \<and> syncMode g = syncMode f"
proof -
  let ?c = "patched_string (patch_controllerId p) (controllerId f)"
  have ok: "if syncMode f = Managed then ?c \<noteq> None \<and> normalizeOptionalString ?c = ?c else ?c \<noteq> Some []"
  proof (cases "syncMode f = Managed")
    case True
    with assms(1) obtain c where "assertControllerId ?c = Inr c"
      by (auto simp: applyFlowPatch_def Let_def result_bind_Inr)
    then have "?c \<noteq> None" by (auto simp: assertControllerId_def normalizeOptionalString_Some split: option.splits)
    with True assms(2) patched_string_normal [of "controllerId f" "patch_controllerId p"] show ?thesis
      by (simp add: wf_flow_def)
  qed (use assms(2) patched_string_nonempty in \<open>simp add: wf_flow_def\<close>)
  from assms(1) have g: "flowId g = flowId f \<and> revision g = revision f + 1 \<and> syncMode g = syncMode f
      \<and> ownerKey g = ownerKey f \<and> controllerId g = ?c
      \<and> currentStep g = patched_string (patch_currentStep p) (currentStep f)
      \<and> blockedTaskId g = patched_string (patch_blockedTaskId p) (blockedTaskId f)
      \<and> blockedSummary g = patched_string (patch_blockedSummary p) (blockedSummary f)"
    by (auto simp: applyFlowPatch_def Let_def result_bind_Inr)
  with ok assms(2) show ?thesis by (simp add: wf_flow_def patched_string_normal)
qed

end
