(* ===== verification/TaskFlowSteps.thy ===== *)
theory TaskFlowSteps
  imports TaskFlowInv
begin

text \<open>
  The registry as a machine: its events are the exported operations, the maintenance run and a
  restart of the process.  Each keeps the invariant, and each leaves a revision that has been passed
  behind for good.
\<close>

datatype flow_event =
    CreateFlow flow_env flow_create
  | CreateManaged flow_env flow_create
  | CreateForTask flow_env task_record "delivery_context option"
  | UpdateFlow flow_env string int flow_patch
  | SyncTask flow_env task_record
  | DeleteFlow flow_env string
  | ReadFlows flow_env
  | Maintain flow_env "string \<Rightarrow> task_record list"
  | RestartProcess

text \<open>The id an event may create; \<^verbatim>\<open>crypto.randomUUID()\<close> never gives an empty one.\<close>

fun event_uuid :: "flow_event \<Rightarrow> string option" where
  "event_uuid (CreateFlow env _) = Some (env_uuid env)"
| "event_uuid (CreateManaged env _) = Some (env_uuid env)"
| "event_uuid (CreateForTask env _ _) = Some (env_uuid env)"
| "event_uuid _ = None"

text \<open>The environment an event runs in; a restart reads nothing.\<close>

fun event_env :: "flow_event \<Rightarrow> flow_env option" where
  "event_env (CreateFlow env _) = Some env"
| "event_env (CreateManaged env _) = Some env"
| "event_env (CreateForTask env _ _) = Some env"
| "event_env (UpdateFlow env _ _ _) = Some env"
| "event_env (SyncTask env _) = Some env"
| "event_env (DeleteFlow env _) = Some env"
| "event_env (ReadFlows env) = Some env"
| "event_env (Maintain env _) = Some env"
| "event_env RestartProcess = None"

fun flow_step :: "flow_event \<Rightarrow> flow_registry \<Rightarrow> flow_registry" where
  "flow_step (CreateFlow env p) s = (if env_uuid env = [] then s else snd (createFlowRecord env p s))"
| "flow_step (CreateManaged env p) s = (if env_uuid env = [] then s else snd (createManagedTaskFlow env p s))"
| "flow_step (CreateForTask env t org) s =
     (if env_uuid env = [] then s else snd (createTaskFlowForTask env t org s))"
| "flow_step (UpdateFlow env fid r p) s = snd (updateFlowRecordByIdExpectedRevision env fid r p s)"
| "flow_step (SyncTask env t) s = snd (syncFlowFromTaskResult env t s)"
| "flow_step (DeleteFlow env fid) s = snd (deleteTaskFlowRecordById env fid s)"
| "flow_step (ReadFlows env) s = ensureFlowRegistryReady env s"
| "flow_step (Maintain env linked) s = snd (runTaskFlowRegistryMaintenance env linked s)"
| "flow_step RestartProcess s = restart_registry s"

definition run_flows :: "flow_event list \<Rightarrow> flow_registry \<Rightarrow> flow_registry" where
  "run_flows es s = fold flow_step es s"

section \<open>A property of states every write keeps\<close>

text \<open>
  The operations change the state only by reading the store once, by consuming a fault, by writing a
  normalized flow and by deleting one.  A predicate these four keep is kept by every operation, when it runs in an
  environment and with ids the predicate allows.
\<close>

definition event_allowed :: "(string \<Rightarrow> bool) \<Rightarrow> (flow_env \<Rightarrow> bool) \<Rightarrow> flow_event \<Rightarrow> bool" where
  "event_allowed fresh allowed_env e \<longleftrightarrow> (case event_uuid e of None \<Rightarrow> True | Some u \<Rightarrow> fresh u)
     \<and> (case event_env e of None \<Rightarrow> True | Some env \<Rightarrow> allowed_env env)"

locale flow_predicate =
  fixes P :: "flow_registry \<Rightarrow> bool" and fresh :: "string \<Rightarrow> bool" and allowed_env :: "flow_env \<Rightarrow> bool"
  assumes P_inv: "P s \<Longrightarrow> registry_inv s"
    and P_ready: "P s \<Longrightarrow> allowed_env env \<Longrightarrow> P (ensureFlowRegistryReady env s)"
    and P_create: "P s \<Longrightarrow> restoreAttempted s \<Longrightarrow> wf_flow f \<Longrightarrow> fresh (flowId f)
      \<Longrightarrow> P (snd (writeFlowRecord f None s))"
    and P_update: "P s \<Longrightarrow> restoreAttempted s \<Longrightarrow> js_get (flows s) (flowId f) = Some f
      \<Longrightarrow> wf_flow g \<Longrightarrow> flowId g = flowId f \<Longrightarrow> revision g = revision f + 1
      \<Longrightarrow> P (snd (writeFlowRecord g (Some f) s))"
    and P_delete: "P s \<Longrightarrow> restoreAttempted s \<Longrightarrow> P (snd (deleteTaskFlowRecordById env fid s))"
    and P_restart: "P s \<Longrightarrow> P (restart_registry s)"
begin

lemma stored_flow:
  "P s \<Longrightarrow> js_get (flows s) fid = Some f \<Longrightarrow> wf_flow f \<and> flowId f = fid"
  by (rule registry_inv_get [OF P_inv])

lemma create_keeps: "P s \<Longrightarrow> allowed_env env \<Longrightarrow> env_uuid env \<noteq> [] \<Longrightarrow> fresh (env_uuid env) \<Longrightarrow> P (snd (createFlowRecord env p s))"
  using built_wf [of env p] P_ready [of s env]
  by (auto simp: createFlowRecord_def Let_def split: sum.split prod.split intro: P_create)
     (metis P_create ready_attempted snd_conv)

lemma create_managed_keeps:
  "P s \<Longrightarrow> allowed_env env \<Longrightarrow> env_uuid env \<noteq> [] \<Longrightarrow> fresh (env_uuid env) \<Longrightarrow> P (snd (createManagedTaskFlow env p s))"
  by (auto simp: createManagedTaskFlow_def create_keeps split: sum.split)

lemma create_for_task_keeps:
  "P s \<Longrightarrow> allowed_env env \<Longrightarrow> env_uuid env \<noteq> [] \<Longrightarrow> fresh (env_uuid env) \<Longrightarrow> P (snd (createTaskFlowForTask env t org s))"
  by (auto simp: createTaskFlowForTask_def Let_def create_keeps split: prod.split)

lemma write_patched:
  assumes "P s" and "restoreAttempted s" and "js_get (flows s) fid = Some f" and "applyFlowPatch env f p = Inr g"
  shows "P (snd (writeFlowRecord g (Some f) s))"
proof -
  have f: "wf_flow f" "flowId f = fid" using stored_flow [OF assms(1,3)] by simp_all
  with patched_wf [OF assms(4)] assms show ?thesis by (intro P_update) auto
qed

lemma update_keeps:
  "P s \<Longrightarrow> allowed_env env \<Longrightarrow> P (snd (updateFlowRecordByIdExpectedRevision env fid r p s))
     \<and> restoreAttempted (snd (updateFlowRecordByIdExpectedRevision env fid r p s))"
  using P_ready [of s env] write_patched [of "ensureFlowRegistryReady env s" fid _ env p]
    write_fields(1) [of _ _ "ensureFlowRegistryReady env s"]
  by (auto simp: updateFlowRecordByIdExpectedRevision_def Let_def split: option.split sum.split prod.split)
     (metis ready_attempted snd_conv)+

lemma unchecked_keeps: "P s \<Longrightarrow> allowed_env env \<Longrightarrow> P (snd (updateFlowRecordByIdUnchecked env fid p s))"
  using P_ready [of s env] write_patched [of "ensureFlowRegistryReady env s" fid _ env p]
  by (auto simp: updateFlowRecordByIdUnchecked_def Let_def split: option.split sum.split prod.split)
     (metis ready_attempted snd_conv)+

lemma sync_keeps: "P s \<Longrightarrow> allowed_env env \<Longrightarrow> P (snd (syncFlowFromTaskResult env t s))"
  using P_ready [of s env] unchecked_keeps [of "ensureFlowRegistryReady env s" env]
  by (auto simp: syncFlowFromTaskResult_def getTaskFlowById_def Let_def
      split: option.split sum.split prod.split) (metis snd_conv)+

lemma finalize_keeps:
  "P s \<Longrightarrow> allowed_env env \<Longrightarrow> P (snd (finalize_attempts n env linked now f s))
     \<and> (restoreAttempted s \<longrightarrow> restoreAttempted (snd (finalize_attempts n env linked now f s)))"
proof (induction n env linked now f s rule: finalize_attempts.induct)
  case (2 n env linked now f s)
  show ?case
    using update_keeps [OF "2.prems", of "flowId f" "revision f" "cancelled_patch f now"] "2.IH" "2.prems"(2)
    by (auto split: prod.split sum.split update_result.split)
qed simp

lemma repair_keeps:
  "P s \<Longrightarrow> allowed_env env \<Longrightarrow> P (snd (repair_attempts n env f s))
     \<and> (restoreAttempted s \<longrightarrow> restoreAttempted (snd (repair_attempts n env f s)))"
proof (induction n env f s rule: repair_attempts.induct)
  case (2 n env f s)
  show ?case
    using update_keeps [OF "2.prems", of "flowId f" "revision f" "empty_patch\<lparr>patch_updatedAt := endedAt f\<rparr>"]
      "2.IH" "2.prems"
    by (auto split: prod.split sum.split update_result.split)
qed simp

lemma delete_keeps: "P s \<Longrightarrow> allowed_env env \<Longrightarrow> P (snd (deleteTaskFlowRecordById env fid s))"
  using P_delete [OF P_ready [of s env], of env fid] by (simp add: deleteTaskFlowRecordById_def)

lemma maintain_one_keeps: "P s \<Longrightarrow> allowed_env env \<Longrightarrow> P (snd (maintain_one env linked now f m s))"
  using P_ready [of s env]
    repair_keeps [of "ensureFlowRegistryReady env s" env 2]
    finalize_keeps [of "ensureFlowRegistryReady env s" env 2 linked now]
    delete_keeps [of "ensureFlowRegistryReady env s" env]
  by (auto simp: maintain_one_def getTaskFlowById_def Let_def repairTerminalMirroredFlowTimestamp_def
      finalizeCancelledFlow_def split: option.split prod.split sum.split) (metis snd_conv)+

lemma maintain_all_keeps: "P s \<Longrightarrow> allowed_env env \<Longrightarrow> P (snd (maintain_all env linked now fs m s))"
proof (induction env linked now fs m s rule: maintain_all.induct)
  case (2 env linked now f fs m s)
  then show ?case
    using maintain_one_keeps [OF "2.prems", of linked now f m]
    by (auto split: prod.split sum.split)
qed simp

lemma step_keeps: "P s \<Longrightarrow> event_allowed fresh allowed_env e \<Longrightarrow> P (flow_step e s)"
  by (cases e) (auto simp: event_allowed_def create_keeps create_managed_keeps create_for_task_keeps update_keeps
      sync_keeps delete_keeps P_ready P_restart runTaskFlowRegistryMaintenance_def
      listTaskFlowRecords_def Let_def maintain_all_keeps)

lemma run_keeps: "P s \<Longrightarrow> list_all (event_allowed fresh allowed_env) es \<Longrightarrow> P (run_flows es s)"
  unfolding run_flows_def by (induction es arbitrary: s) (simp_all add: step_keeps)

end

section \<open>The invariant along runs\<close>

lemma restart_inv: "registry_inv s \<Longrightarrow> registry_inv (restart_registry s)"
  by (simp add: registry_inv_def restart_registry_def)

lemma delete_inv:
  assumes "registry_inv s" and "restoreAttempted s"
  shows "registry_inv (snd (deleteTaskFlowRecordById env fid s))"
proof (cases "js_get (flows s) fid")
  case None
  with assms show ?thesis by (simp add: deleteTaskFlowRecordById_def)
next
  case (Some f)
  obtain b s1 where nf: "next_fault s = (b, s1)" by fastforce
  from registry_inv_get [OF assms(1) Some] have "fid \<noteq> []" by (auto simp: wf_flow_def)
  with Some assms nf next_fault_inv [OF nf] next_fault_fields [OF nf] persist_delete_inv [of s1 fid f]
  show ?thesis by (simp add: delete_cases)
qed

interpretation flow_invariant: flow_predicate registry_inv "\<lambda>_. True" "\<lambda>_. True"
  by unfold_locales (simp_all add: ready_inv write_inv delete_inv restart_inv)

interpretation flow_machine: invariant_machine flow_step registry_inv
  by unfold_locales (rule flow_invariant.step_keeps, auto simp: event_allowed_def split: option.split)

lemma run_flows_inv: "registry_inv s \<Longrightarrow> registry_inv (run_flows es s)"
  unfolding run_flows_def by (rule flow_machine.run_inv)

end
