(* ===== verification/TaskFlowProps.thy ===== *)
theory TaskFlowProps
  imports TaskFlowSteps
begin

text \<open>
  What the task-flow registry guarantees: a restart loses nothing that was written, concurrent
  writers cannot overwrite each other, observers can rebuild the registry, mirrored flows follow
  their tasks, maintenance does what its preview says, and a caller sees only its own flows.
\<close>

section \<open>Starting points\<close>

definition fresh_registry :: "flow_store \<Rightarrow> bool list \<Rightarrow> flow_registry" where
  "fresh_registry st fs =
     \<lparr>flows = [], restoreAttempted = False, restoreFailure = None, store = st, faults = fs, observed = []\<rparr>"

lemma fresh_inv: "table_ok (store_rows st) \<Longrightarrow> registry_inv (fresh_registry st fs)"
  by (simp add: registry_inv_def fresh_registry_def)

lemma reachable_inv: "table_ok (store_rows st) \<Longrightarrow> registry_inv (run_flows es (fresh_registry st fs))"
  by (rule run_flows_inv) (rule fresh_inv)

definition empty_store :: flow_store where
  "empty_store = \<lparr>store_rows = [], store_upserts = True, store_deletes = True\<rparr>"

lemma table_ok_empty [simp]: "table_ok (store_rows empty_store)"
  by (simp add: empty_store_def table_ok_def)

definition sample_env :: "int \<Rightarrow> string \<Rightarrow> flow_env" where
  "sample_env now uuid = \<lparr>env_now = now, env_uuid = uuid, env_channel = (\<lambda>_. None)\<rparr>"

definition sample_create :: flow_create where
  "sample_create = \<lparr>new_syncMode = Some Managed, new_ownerKey = ''o'', new_requesterOrigin = None,
     new_controllerId = Some ''c'', new_revision = None, new_status = None, new_notifyPolicy = None,
     new_goal = ''g'', new_currentStep = None, new_blockedTaskId = None, new_blockedSummary = None,
     new_stateJson = None, new_waitJson = None, new_cancelRequestedAt = None, new_createdAt = None,
     new_updatedAt = None, new_endedAt = None\<rparr>"

definition sample_registry :: flow_registry where
  "sample_registry = run_flows [CreateFlow (sample_env 5 ''f'') sample_create] (fresh_registry empty_store [])"

definition sample_flow :: flow where
  "sample_flow = \<lparr>flowId = ''f'', syncMode = Managed, ownerKey = ''o'', requesterOrigin = None,
     controllerId = Some ''c'', revision = 0, status = FsQueued, notifyPolicy = DoneOnly, goal = ''g'',
     currentStep = None, blockedTaskId = None, blockedSummary = None, stateJson = None, waitJson = None,
     cancelRequestedAt = None, createdAt = 5, updatedAt = 5, endedAt = None\<rparr>"

lemmas flow_eval =
  run_flows_def createFlowRecord_def buildFlowRecord_def ensureFlowRegistryReady_def next_fault_def
  loadTaskFlowRegistryStateFromSqlite_def selectFlowRows_def restore_flows_def
  emitFlowRegistryObserverEvent_def writeFlowRecord_def tryPersistFlowUpsert_def persistFlowUpsert_def
  upsertTaskFlowRegistryRecordToSqlite_def upsertFlowRow_def assertControllerId_def
  assertFlowOwnerKey_def fresh_registry_def empty_store_def sample_env_def sample_create_def

lemma normalize_letters [simp]:
  "normalizeOptionalString (Some ''o'') = Some ''o''" "normalizeOptionalString (Some ''c'') = Some ''c''"
  "normalizeOptionalString None = None"
  by code_simp+

lemma sample_registry_fields:
  "flows sample_registry = [(''f'', sample_flow)]" "restoreAttempted sample_registry"
  "restoreFailure sample_registry = None" "faults sample_registry = []"
  by (simp_all add: sample_registry_def flow_eval sample_flow_def Let_def)

section \<open>Durability\<close>

text \<open>
  A row written for a normalized flow reads back as that flow: every field returns, JSON documents as
  \<^verbatim>\<open>JSON.stringify\<close> leaves them and the delivery origin normalized, whatever channels are installed
  when the row is read.
\<close>

theorem flow_row_roundtrip:
  assumes "wf_flow f"
  shows "result_bind (rowToFlowRecord nc (bindFlowRecord f)) normalizeRestoredFlowRecord
       = Inr (f\<lparr>requesterOrigin := Option.bind (requesterOrigin f) (normalizeDeliveryContext nc),
                stateJson := map_option json_stringify (stateJson f),
                waitJson := map_option json_stringify (waitJson f)\<rparr>)"
  using decode_bind [OF assms, of nc None] unfolding bind_shape [symmetric]
  by (simp add: decode_row_def restored_form_def stored_form_def)

theorem flow_row_roundtrip_witness:
  "result_bind (rowToFlowRecord (\<lambda>_. None) (bindFlowRecord sample_flow)) normalizeRestoredFlowRecord
     = Inr sample_flow"
  by (subst flow_row_roundtrip) (simp_all add: wf_flow_def sample_flow_def)

subsection \<open>Where a delivery origin comes from\<close>

text \<open>
  The origin of a flow is the one it was written with or, in a flow that was read from its row, that origin as the channels
  of the time of reading normalized it.  A row read with other channels gives the same origin normalized by these.
\<close>

definition origin_from :: "(string \<Rightarrow> string option) set \<Rightarrow> delivery_context option \<Rightarrow> delivery_context option \<Rightarrow> bool" where
  "origin_from C written m \<longleftrightarrow> m = written \<or> (\<exists>nc \<in> C. m = Option.bind written (normalizeDeliveryContext nc))"

definition row_origin :: "flow_row \<Rightarrow> delivery_context option" where
  "row_origin row =
     (case parseJsonValue (row_requester_origin_json row) of
        Some (JObject kvs) \<Rightarrow>
          Some \<lparr>dc_channel = json_string (js_get kvs ''channel''), dc_to = json_string (js_get kvs ''to''),
                dc_accountId = json_string (js_get kvs ''accountId''), dc_threadId = json_thread (js_get kvs ''threadId''),
                dc_intent = None\<rparr>
      | _ \<Rightarrow> None)"

definition row_gives :: "(string \<Rightarrow> string option) set \<Rightarrow> flow_row \<Rightarrow> delivery_context option \<Rightarrow> bool" where
  "row_gives C row m \<longleftrightarrow> (\<exists>written. origin_from C written m
     \<and> (\<forall>nc. parseDeliveryContextJson nc (row_requester_origin_json row) = Option.bind written (normalizeDeliveryContext nc)))"

lemma parse_row_origin:
  "parseDeliveryContextJson nc (row_requester_origin_json row) = Option.bind (row_origin row) (normalizeDeliveryContext nc)"
  by (simp add: parseDeliveryContextJson_def row_origin_def split: option.split json_value.split)

lemma decoded_origin: "decode_row nc row = Inr f \<Longrightarrow> requesterOrigin f = parseDeliveryContextJson nc (row_requester_origin_json row)"
  by (auto simp: decode_row_def rowToFlowRecord_def normalizeRestoredFlowRecord_def result_bind_Inr Let_def)

lemma read_gives: "decode_row nc row = Inr f \<Longrightarrow> nc \<in> C \<Longrightarrow> row_gives C row (requesterOrigin f)"
  unfolding row_gives_def origin_from_def
  by (intro exI [of _ "row_origin row"]) (auto simp: decoded_origin parse_row_origin)

lemma written_gives: "row_gives C ((bindFlowRecord f)\<lparr>row_shape := sh\<rparr>) (requesterOrigin f)"
proof -
  have "parseDeliveryContextJson nc (row_requester_origin_json ((bindFlowRecord f)\<lparr>row_shape := sh\<rparr>))
      = Option.bind (requesterOrigin f) (normalizeDeliveryContext nc)" for nc
    by (cases "requesterOrigin f")
      (simp_all add: bindFlowRecord_def origin_json_roundtrip, simp add: parseDeliveryContextJson_def parseJsonValue_def)
  then show ?thesis unfolding row_gives_def origin_from_def by blast
qed

definition origins_kept :: "(string \<Rightarrow> string option) set \<Rightarrow> flow_registry \<Rightarrow> bool" where
  "origins_kept C s \<longleftrightarrow> registry_inv s
     \<and> (\<forall>k f. js_get (flows s) k = Some f
          \<longrightarrow> (\<exists>row. js_get (store_rows (store s)) k = Some row \<and> row_gives C row (requesterOrigin f)))"

text \<open>Writing a snapshot gives every flow its own row.\<close>

lemma snapshot_rows:
  "keyed_by flowId m \<Longrightarrow> js_get m k = Some f
     \<Longrightarrow> \<exists>sh. js_get (fold (\<lambda>f. upsertFlowRow (bindFlowRecord f)) (js_values m) rows) k = Some ((bindFlowRecord f)\<lparr>row_shape := sh\<rparr>)"
proof (induction m arbitrary: rows)
  case (Cons p m)
  obtain k' g where p: "p = (k', g)" by fastforce
  with Cons.prems have m: "keyed_by flowId m" "flowId g = k'" "js_get m k' = None"
    by (auto simp: keyed_by_def js_get_None_iff)
  show ?case
  proof (cases "k = k'")
    case False
    with Cons.prems p Cons.IH [OF m(1), of "upsertFlowRow (bindFlowRecord g) rows"] show ?thesis by simp
  next
    case True
    have "js_get (fold (\<lambda>f. upsertFlowRow (bindFlowRecord f)) (js_values m') rs) k = js_get rs k"
      if "keyed_by flowId m'" "js_get m' k = None" for m' rs
      using that
    proof (induction m' arbitrary: rs)
      case (Cons q m')
      obtain k2 h where q: "q = (k2, h)" by fastforce
      obtain sh where "upsertFlowRow (bindFlowRecord h) rs = js_set (flowId h) ((bindFlowRecord h)\<lparr>row_shape := sh\<rparr>) rs"
        using upsert_flow_row by blast
      with Cons q show ?case by (auto simp: keyed_by_def split: if_splits)
    qed simp
    from this [OF m(1)] m(2,3) True p Cons.prems(2) upsert_flow_row [of g rows] show ?thesis by auto
  qed
qed simp

lemma saved_rows:
  "keyed_by flowId m \<Longrightarrow> js_get m k = Some f
     \<Longrightarrow> \<exists>sh. js_get (saveTaskFlowRegistryStateToSqlite m rows) k = Some ((bindFlowRecord f)\<lparr>row_shape := sh\<rparr>)"
  using snapshot_rows by (auto simp: saveTaskFlowRegistryStateToSqlite_def)

lemma saved_gives:
  "keyed_by flowId m \<Longrightarrow> js_get m k = Some f
     \<Longrightarrow> \<exists>row. js_get (saveTaskFlowRegistryStateToSqlite m rows) k = Some row \<and> row_gives C row (requesterOrigin f)"
  using saved_rows [of m k f rows] written_gives by metis

lemma origins_write:
  assumes "origins_kept C s" and "restoreAttempted s" and "wf_flow g"
  shows "origins_kept C (snd (writeFlowRecord g prev s))"
proof -
  obtain b s1 where nf: "next_fault s = (b, s1)" by fastforce
  have inv: "registry_inv s" using assms(1) by (simp add: origins_kept_def)
  have inv': "registry_inv (snd (writeFlowRecord g prev s))" using write_inv [OF inv assms(2,3)] .
  have keyed: "keyed_by flowId (js_set (flowId g) g (flows s))" using keyed_by_set [OF registry_invD(2) [OF inv]] by simp
  obtain sh where sh: "upsertFlowRow (bindFlowRecord g) (store_rows (store s))
      = js_set (flowId g) ((bindFlowRecord g)\<lparr>row_shape := sh\<rparr>) (store_rows (store s))"
    using upsert_flow_row by blast
  have "\<exists>row. js_get (store_rows (persistFlowUpsert g (flows s) (store s))) k = Some row \<and> row_gives C row (requesterOrigin f)"
    if "js_get (js_set (flowId g) g (flows s)) k = Some f" for k f
  proof (cases "store_upserts (store s)")
    case True
    with that assms(1) written_gives [of C sh g] show ?thesis
      by (auto simp: persistFlowUpsert_def upsertTaskFlowRegistryRecordToSqlite_def sh origins_kept_def split: if_splits)
  next
    case False
    with saved_gives [OF keyed that] show ?thesis by (simp add: persistFlowUpsert_def createFlowSnapshotWith_def)
  qed
  with assms(1) inv' next_fault_fields [OF nf] show ?thesis
    by (simp add: origins_kept_def write_cases [OF nf] emitFlowRegistryObserverEvent_def)
qed

lemma origins_delete:
  assumes "origins_kept C s" and "restoreAttempted s"
  shows "origins_kept C (snd (deleteTaskFlowRecordById env fid s))"
proof (cases "js_get (flows s) fid")
  case None
  with assms show ?thesis by (simp add: deleteTaskFlowRecordById_def)
next
  case (Some g)
  obtain b s1 where nf: "next_fault s = (b, s1)" by fastforce
  have inv: "registry_inv s" using assms(1) by (simp add: origins_kept_def)
  have inv': "registry_inv (snd (deleteTaskFlowRecordById env fid s))" by (rule delete_inv [OF inv assms(2)])
  from Some registry_inv_get [OF inv] have fid: "fid \<noteq> []" by (auto simp: wf_flow_def)
  have keyed: "keyed_by flowId (js_delete fid (flows s))" by (rule keyed_by_delete [OF registry_invD(2) [OF inv]])
  have "\<exists>row. js_get (store_rows (persistFlowDelete fid (flows s) (store s))) k = Some row \<and> row_gives C row (requesterOrigin f)"
    if "js_get (js_delete fid (flows s)) k = Some f" for k f
  proof (cases "store_deletes (store s)")
    case True
    with that assms(1) show ?thesis
      by (auto simp: persistFlowDelete_def deleteTaskFlowRegistryRecordFromSqlite_def origins_kept_def split: if_splits)
  next
    case False
    with fid saved_gives [OF keyed that] show ?thesis by (simp add: persistFlowDelete_def createFlowSnapshotWith_def)
  qed
  with assms(1) inv' next_fault_fields [OF nf] Some show ?thesis
    by (simp add: origins_kept_def delete_cases [OF assms(2) nf] emitFlowRegistryObserverEvent_def)
qed

lemma origins_ready:
  assumes "origins_kept C s" and "env_channel env \<in> C"
  shows "origins_kept C (ensureFlowRegistryReady env s)"
proof (cases "restoreAttempted s")
  case False
  have inv: "registry_inv s" using assms(1) by (simp add: origins_kept_def)
  then have none: "flows s = []" using False by (simp add: registry_inv_def)
  obtain b s1 where nf: "next_fault (s\<lparr>restoreAttempted := True\<rparr>) = (b, s1)" by fastforce
  note inv' = ready_inv [OF inv, of env]
  show ?thesis
  proof (cases b)
    case True
    with False nf none inv' next_fault_fields [OF nf] show ?thesis
      by (simp add: origins_kept_def ensureFlowRegistryReady_def)
  next
    case b: False
    with nf have "next_fault (s\<lparr>restoreAttempted := True\<rparr>) = (False, s1)" by simp
    from ready_loads [OF inv False this, of env] obtain fl where fl: "flows (ensureFlowRegistryReady env s) = fl"
      "\<forall>k f. js_get fl k = Some f
        \<longrightarrow> (\<exists>row. js_get (store_rows (store s)) k = Some row \<and> decode_row (env_channel env) row = Inr f)"
      by (auto simp: emitFlowRegistryObserverEvent_def)
    with inv' read_gives [OF _ assms(2)] show ?thesis unfolding origins_kept_def ready_store by metis
  qed
qed (use assms in simp)

interpretation origins: flow_predicate "origins_kept C" "\<lambda>_. True" "\<lambda>env. env_channel env \<in> C" for C
proof (unfold_locales, goal_cases)
  case (1 s) then show ?case by (simp add: origins_kept_def)
next
  case (2 s env) then show ?case by (intro origins_ready)
next
  case (3 s f) then show ?case by (intro origins_write)
next
  case (4 s f g) then show ?case by (intro origins_write)
next
  case (5 s env fid') then show ?case by (intro origins_delete)
next
  case (6 s)
  then show ?case by (simp add: origins_kept_def restart_inv) (simp add: restart_registry_def)
qed

text \<open>The channel registries a history ran with.\<close>

definition channels_of :: "flow_event list \<Rightarrow> (string \<Rightarrow> string option) set" where
  "channels_of es = {env_channel env | env. Some env \<in> event_env ` set es}"

lemma run_origins: "table_ok (store_rows st) \<Longrightarrow> origins_kept (channels_of es) (run_flows es (fresh_registry st fs))"
proof (rule origins.run_keeps)
  show "table_ok (store_rows st) \<Longrightarrow> origins_kept (channels_of es) (fresh_registry st fs)"
    by (simp add: origins_kept_def fresh_inv) (simp add: fresh_registry_def)
  show "list_all (event_allowed (\<lambda>_. True) (\<lambda>env. env_channel env \<in> channels_of es)) es"
    by (force simp: list_all_iff event_allowed_def channels_of_def split: option.split)
qed

text \<open>What a restart with the channels \<open>nc\<close> makes of a flow, when the process ran with the channels \<open>C\<close> before.\<close>

definition survives_as :: "(string \<Rightarrow> string option) set \<Rightarrow> (string \<Rightarrow> string option) \<Rightarrow> flow \<Rightarrow> flow \<Rightarrow> bool" where
  "survives_as C nc f g \<longleftrightarrow> durable g = durable f
     \<and> (\<exists>written. origin_from C written (requesterOrigin f)
          \<and> requesterOrigin g = Option.bind written (normalizeDeliveryContext nc))"

text \<open>
  C22. A restart loses nothing: after any sequence of operations, maintenance runs, store failures and
  earlier restarts, from any readable table and with either kind of store, a process that restarts
  and can read its store has the same flows as the process that stopped.  Every field but the delivery origin is the
  same, JSON documents as \<^verbatim>\<open>JSON.stringify\<close> leaves them; the delivery origin is the one the flow was written with,
  normalized by the channels installed at the restart, where the stopped process had it as it was written or as
  normalized by channels it ran with.
\<close>

theorem restart_preserves_flows:
  assumes "table_ok (store_rows st)" and "s = run_flows es (fresh_registry st fs)"
    and "restoreAttempted s" and "restoreFailure s = None" and "faults s = []"
    and "s' = ensureFlowRegistryReady env (restart_registry s)"
  shows "restoreFailure s' = None
    \<and> rel_option (survives_as (channels_of es) (env_channel env)) (js_get (flows s) fid) (js_get (flows s') fid)"
proof -
  have inv: "registry_inv s" using reachable_inv [OF assms(1)] assms(2) by simp
  have org: "origins_kept (channels_of es) s" using run_origins [OF assms(1)] assms(2) by simp
  let ?r = "restart_registry s"
  have nf: "next_fault (?r\<lparr>restoreAttempted := True\<rparr>) = (False, ?r\<lparr>restoreAttempted := True\<rparr>)"
    and fields: "\<not> restoreAttempted ?r" "store ?r = store s"
    using assms(5) by (simp_all add: next_fault_def restart_registry_def)
  from ready_loads [OF restart_inv [OF inv] fields(1) nf, of env] obtain fl where
    s': "s' = emitFlowRegistryObserverEvent (FlowsRestored fl)
       (?r\<lparr>restoreAttempted := True, flows := fl, restoreFailure := None\<rparr>)"
    and fl: "\<forall>k. map_option durable (js_get fl k) = stored (store_rows (store s)) k"
      "\<forall>k f. js_get fl k = Some f
        \<longrightarrow> (\<exists>row. js_get (store_rows (store s)) k = Some row \<and> decode_row (env_channel env) row = Inr f)"
    using assms(6) fields(2) by auto
  have same: "map_option durable (js_get fl fid) = map_option durable (js_get (flows s) fid)"
    using registry_invD(4) [OF inv assms(3)] assms(4) fl(1) by (simp add: synced_def)
  have "survives_as (channels_of es) (env_channel env) f g" if f: "js_get (flows s) fid = Some f" and g: "js_get fl fid = Some g" for f g
  proof -
    obtain row where row: "js_get (store_rows (store s)) fid = Some row" "decode_row (env_channel env) row = Inr g"
      using fl(2) g by blast
    then have "row_gives (channels_of es) row (requesterOrigin f)" using org f unfolding origins_kept_def by (metis option.inject)
    with same f g decoded_origin [OF row(2)] show ?thesis by (auto simp: survives_as_def row_gives_def)
  qed
  with same have "rel_option (survives_as (channels_of es) (env_channel env)) (js_get (flows s) fid) (js_get fl fid)"
    by (cases "js_get (flows s) fid"; cases "js_get fl fid") simp_all
  then show ?thesis by (simp add: s' emitFlowRegistryObserverEvent_def)
qed

theorem restart_preserves_flows_witness:
  "rel_option (survives_as {\<lambda>_. None} (\<lambda>_. None)) (Some sample_flow)
     (js_get (flows (ensureFlowRegistryReady (sample_env 9 []) (restart_registry sample_registry))) ''f'')"
proof -
  have "channels_of [CreateFlow (sample_env 5 ''f'') sample_create] = {\<lambda>_. None}"
    by (auto simp: channels_of_def sample_env_def)
  then show ?thesis
    using restart_preserves_flows [OF table_ok_empty sample_registry_def sample_registry_fields(2-4) refl,
        of "sample_env 9 []" "''f''"]
    by (simp add: sample_registry_fields sample_env_def)
qed

text \<open>
  Observers see everything: in every reachable state, replaying the events emitted since the process
  started gives exactly the flows the registry holds, in the same order.
\<close>

theorem observers_can_rebuild:
  assumes "table_ok (store_rows st)"
  shows "fold replay_event (observed (run_flows es (fresh_registry st fs))) []
       = flows (run_flows es (fresh_registry st fs))"
  by (rule registry_invD(5)) (rule reachable_inv [OF assms])

theorem observers_can_rebuild_witness:
  "fold replay_event (observed sample_registry) [] = [(''f'', sample_flow)]"
  using observers_can_rebuild [OF table_ok_empty,
      of "[CreateFlow (sample_env 5 ''f'') sample_create]" "[]"]
  by (simp add: sample_registry_fields flip: sample_registry_def)

section \<open>Optimistic concurrency\<close>

text \<open>The revision \<^verbatim>\<open>r\<close> of a flow has been passed: neither memory nor the store can offer it again.\<close>

definition passed :: "string \<Rightarrow> int \<Rightarrow> flow_registry \<Rightarrow> bool" where
  "passed fid r s \<longleftrightarrow> registry_inv s
     \<and> (\<forall>f. js_get (flows s) fid = Some f \<longrightarrow> r < revision f)
     \<and> (\<forall>f. stored (store_rows (store s)) fid = Some f \<longrightarrow> r < revision f)"

lemma stored_persist_upsert:
  assumes "registry_inv s" and "wf_flow f"
  shows "stored (store_rows (persistFlowUpsert f (flows s) (store s))) k
    = (if k = flowId f then Some (durable f)
       else if store_upserts (store s) then stored (store_rows (store s)) k
       else map_option durable (js_get (flows s) k))"
proof -
  have "keyed_by flowId (js_set (flowId f) f (flows s))"
    "\<forall>g \<in> set (js_values (js_set (flowId f) f (flows s))). wf_flow g"
    using keyed_by_set [OF registry_invD(2) [OF assms(1)], of f "flowId f"]
      ball_values_set [OF registry_invD(3) [OF assms(1)] assms(2), of "flowId f"] by simp_all
  with assms(2) show ?thesis
    by (simp add: persistFlowUpsert_def createFlowSnapshotWith_def flow_rows.read_save flow_rows.read_replace)
qed

lemma stored_persist_delete:
  assumes "registry_inv s" and "fid \<noteq> []"
  shows "stored (store_rows (persistFlowDelete fid (flows s) (store s))) k
    = (if k = fid then None
       else if store_deletes (store s) then stored (store_rows (store s)) k
       else map_option durable (js_get (flows s) k))"
proof -
  have "keyed_by flowId (js_delete fid (flows s))" "\<forall>g \<in> set (js_values (js_delete fid (flows s))). wf_flow g"
    using keyed_by_delete [OF registry_invD(2) [OF assms(1)]]
      ball_values_delete [OF registry_invD(3) [OF assms(1)]] by simp_all
  with assms(2) show ?thesis
    by (simp add: persistFlowDelete_def createFlowSnapshotWith_def flow_rows.read_remove flow_rows.read_replace)
qed

lemma passed_write:
  assumes "passed fid r s" and "restoreAttempted s" and "wf_flow g"
    and "flowId g = fid \<Longrightarrow> r < revision g"
  shows "passed fid r (snd (writeFlowRecord g prev s))"
proof -
  obtain b s1 where nf: "next_fault s = (b, s1)" by fastforce
  have inv: "registry_inv s" using assms(1) by (simp add: passed_def)
  have inv1: "registry_inv s1" by (rule next_fault_inv [OF nf inv])
  have "registry_inv (snd (writeFlowRecord g prev s))" using write_inv [OF inv assms(2,3)] .
  with assms(1,4) nf next_fault_fields [OF nf] stored_persist_upsert [OF inv1 assms(3), of fid] show ?thesis
    by (auto simp: passed_def write_cases emitFlowRegistryObserverEvent_def split: if_splits)
qed

lemma passed_delete:
  assumes "passed fid r s" and "restoreAttempted s"
  shows "passed fid r (snd (deleteTaskFlowRecordById env fid' s))"
proof -
  obtain b s1 where nf: "next_fault s = (b, s1)" by fastforce
  have inv: "registry_inv s" using assms(1) by (simp add: passed_def)
  have inv1: "registry_inv s1" by (rule next_fault_inv [OF nf inv])
  have inv': "registry_inv (snd (deleteTaskFlowRecordById env fid' s))" by (rule delete_inv [OF inv assms(2)])
  show ?thesis
  proof (cases "js_get (flows s) fid'")
    case None
    with assms show ?thesis by (simp add: delete_cases [OF assms(2) nf])
  next
    case (Some f)
    with registry_inv_get [OF inv] have "fid' \<noteq> []" by (auto simp: wf_flow_def)
    from stored_persist_delete [OF inv1 this, of fid] assms(1) inv' Some next_fault_fields [OF nf]
    show ?thesis
      by (auto simp: passed_def delete_cases [OF assms(2) nf] emitFlowRegistryObserverEvent_def split: if_splits)
  qed
qed

lemma passed_ready: "passed fid r s \<Longrightarrow> passed fid r (ensureFlowRegistryReady env s)"
proof (cases "restoreAttempted s")
  case False
  assume p: "passed fid r s"
  then have inv: "registry_inv s" by (simp add: passed_def)
  obtain b s1 where nf: "next_fault (s\<lparr>restoreAttempted := True\<rparr>) = (b, s1)" by fastforce
  show ?thesis
  proof (cases b)
    case True
    with False nf p ready_inv [OF inv, of env] next_fault_fields [OF nf] show ?thesis
      by (simp add: passed_def ensureFlowRegistryReady_def)
  next
    case b: False
    with nf have "next_fault (s\<lparr>restoreAttempted := True\<rparr>) = (False, s1)" by simp
    from ready_loads [OF inv False this, of env] obtain fl where
      fl: "flows (ensureFlowRegistryReady env s) = fl"
        "\<forall>k. map_option durable (js_get fl k) = stored (store_rows (store s)) k"
      by (auto simp: emitFlowRegistryObserverEvent_def)
    have "r < revision f" if "js_get fl fid = Some f" for f
    proof -
      from fl(2) that have "stored (store_rows (store s)) fid = Some (durable f)" by (metis option.simps(9))
      with p show ?thesis by (auto simp: passed_def)
    qed
    with fl(1) p ready_inv [OF inv, of env] show ?thesis by (simp add: passed_def)
  qed
qed simp

interpretation passed_revision: flow_predicate "passed fid r" "\<lambda>u. u \<noteq> fid" "\<lambda>_. True" for fid r
proof (unfold_locales, goal_cases)
  case (1 s) then show ?case by (simp add: passed_def)
next
  case (2 s env) then show ?case by (simp only: passed_ready)
next
  case (3 s f) then show ?case by (intro passed_write) auto
next
  case (4 s f g)
  then show ?case by (intro passed_write) (auto simp: passed_def)
next
  case (5 s env fid') then show ?case by (intro passed_delete)
next
  case (6 s)
  then show ?case by (simp add: passed_def restart_inv) (simp add: restart_registry_def)
qed

text \<open>One update, branch by branch, on a registry that has been restored.\<close>

lemma update_branches:
  assumes "registry_inv s" and "restoreAttempted s" and "next_fault s = (b, s1)"
  shows "updateFlowRecordByIdExpectedRevision env fid r p s =
    (case js_get (flows s) fid of
       None \<Rightarrow> (Inr FlowNotFound, s)
     | Some f \<Rightarrow>
         if revision f \<noteq> r then (Inr (RevisionConflict f), s)
         else (case applyFlowPatch env f p of
                 Inl e \<Rightarrow> (Inl e, s)
               | Inr g \<Rightarrow>
                   if b then (Inr (PersistFailed f), s1)
                   else (Inr (Applied g), emitFlowRegistryObserverEvent (FlowUpserted g (Some f))
                          (s1\<lparr>store := persistFlowUpsert g (flows s1) (store s1),
                             flows := js_set (flowId g) g (flows s1)\<rparr>))))"
  using assms
  by (auto simp: updateFlowRecordByIdExpectedRevision_def Let_def write_cases
      split: option.split sum.split)

lemma ready_updates:
  "updateFlowRecordByIdExpectedRevision env fid r p s
     = updateFlowRecordByIdExpectedRevision env fid r p (ensureFlowRegistryReady env s)"
  by (simp add: updateFlowRecordByIdExpectedRevision_def)

lemma applied_passes:
  assumes "registry_inv s" and "updateFlowRecordByIdExpectedRevision env fid r p s = (Inr (Applied g), s1)"
  shows "passed fid r s1"
proof -
  let ?s = "ensureFlowRegistryReady env s"
  have inv: "registry_inv ?s" by (rule ready_inv [OF assms(1)])
  obtain b s2 where nf: "next_fault ?s = (b, s2)" by fastforce
  have inv2: "registry_inv s2" by (rule next_fault_inv [OF nf inv])
  note upd = update_branches [OF inv ready_attempted nf, of env fid r p]
  from assms(2) upd obtain f where f: "js_get (flows ?s) fid = Some f" "revision f = r"
    "applyFlowPatch env f p = Inr g" and
    s1: "s1 = emitFlowRegistryObserverEvent (FlowUpserted g (Some f))
           (s2\<lparr>store := persistFlowUpsert g (flows s2) (store s2), flows := js_set (flowId g) g (flows s2)\<rparr>)"
    by (auto simp: ready_updates [of env fid r p s] split: option.splits sum.splits if_splits)
  have wf: "wf_flow f" "flowId f = fid" using registry_inv_get [OF inv f(1)] by simp_all
  have g: "wf_flow g" "flowId g = fid" "revision g = r + 1" using patched_wf [OF f(3) wf(1)] wf(2) f(2) by simp_all
  have "registry_inv s1"
    using flow_invariant.update_keeps [OF assms(1), of env fid r p] assms(2) by simp
  with g stored_persist_upsert [OF inv2 g(1), of fid] show ?thesis
    by (simp add: passed_def s1 emitFlowRegistryObserverEvent_def)
qed

lemma passed_conflicts:
  "passed fid r s \<Longrightarrow> fst (updateFlowRecordByIdExpectedRevision env fid r p s) \<noteq> Inr (Applied h)"
  using passed_ready [of fid r s env]
  by (auto simp: updateFlowRecordByIdExpectedRevision_def Let_def passed_def split: option.split)

text \<open>
  C23. No update is lost: once a writer's update at revision \<^verbatim>\<open>r\<close> of a flow has been applied, no later
  update that expects revision \<^verbatim>\<open>r\<close> of that flow is ever applied, whatever happens in between:
  other updates, task mirroring, maintenance, deletions, store failures and restarts of the process.
\<close>

theorem no_lost_update:
  assumes "table_ok (store_rows st)"
    and "updateFlowRecordByIdExpectedRevision env fid r p (run_flows es (fresh_registry st fs)) = (Inr (Applied g), s)"
    and "list_all (\<lambda>e. event_uuid e \<noteq> Some fid) es'"
  shows "fst (updateFlowRecordByIdExpectedRevision env' fid r p' (run_flows es' s)) \<noteq> Inr (Applied h)"
proof -
  have "passed fid r s" by (rule applied_passes [OF reachable_inv [OF assms(1)] assms(2)])
  moreover have "list_all (event_allowed (\<lambda>u. u \<noteq> fid) (\<lambda>_. True)) es'"
    using assms(3) by (rule list.pred_mono_strong) (auto simp: event_allowed_def split: option.split)
  ultimately have "passed fid r (run_flows es' s)" by (rule passed_revision.run_keeps)
  then show ?thesis by (rule passed_conflicts)
qed

definition sample_cancel :: flow_patch where
  "sample_cancel = empty_patch\<lparr>patch_cancelRequestedAt := Value 7\<rparr>"

lemma sample_update:
  "updateFlowRecordByIdExpectedRevision (sample_env 6 []) ''f'' 0 sample_cancel sample_registry
     = (Inr (Applied (sample_flow\<lparr>cancelRequestedAt := Some 7, revision := 1, updatedAt := 6\<rparr>)),
        snd (updateFlowRecordByIdExpectedRevision (sample_env 6 []) ''f'' 0 sample_cancel sample_registry))"
  by (simp add: updateFlowRecordByIdExpectedRevision_def Let_def sample_registry_fields applyFlowPatch_def
      writeFlowRecord_def tryPersistFlowUpsert_def next_fault_def sample_cancel_def empty_patch_def
      patched_string_def patched_time_def assertControllerId_def sample_flow_def truthy_string_def sample_env_def)

theorem no_lost_update_witness:
  "fst (updateFlowRecordByIdExpectedRevision (sample_env 8 []) ''f'' 0 sample_cancel
      (run_flows [RestartProcess, ReadFlows (sample_env 7 [])]
        (snd (updateFlowRecordByIdExpectedRevision (sample_env 6 []) ''f'' 0 sample_cancel sample_registry))))
    \<noteq> Inr (Applied sample_flow)"
  unfolding sample_registry_def
  by (rule no_lost_update [OF table_ok_empty sample_update [unfolded sample_registry_def]]) simp

section \<open>Outcomes of an update\<close>

text \<open>
  Each outcome of a guarded update says exactly what happened: a missing flow, a revision
  conflict and a refused patch leave the registry as it was; a store failure leaves the flows and
  the store as they were; and an applied update returns the flow that is now in memory under the
  next revision and whose durable part is in the store, with no other flow in memory touched.
\<close>

theorem update_outcomes:
  assumes "table_ok (store_rows st)" and "s = run_flows es (fresh_registry st fs)" and "restoreAttempted s"
  shows "case updateFlowRecordByIdExpectedRevision env fid r p s of
      (Inr FlowNotFound, s') \<Rightarrow> js_get (flows s) fid = None \<and> s' = s
    | (Inr (RevisionConflict f), s') \<Rightarrow> js_get (flows s) fid = Some f \<and> revision f \<noteq> r \<and> s' = s
    | (Inl e, s') \<Rightarrow> e = ControllerIdRequired \<and> s' = s
    | (Inr (PersistFailed f), s') \<Rightarrow>
        js_get (flows s) fid = Some f \<and> flows s' = flows s \<and> store s' = store s
    | (Inr (Applied g), s') \<Rightarrow>
        revision g = r + 1 \<and> flowId g = fid \<and> js_get (flows s') fid = Some g
        \<and> stored (store_rows (store s')) fid = Some (durable g)
        \<and> (\<forall>k. k \<noteq> fid \<longrightarrow> js_get (flows s') k = js_get (flows s) k)"
proof -
  have inv: "registry_inv s" using reachable_inv [OF assms(1)] assms(2) by simp
  obtain b s1 where nf: "next_fault s = (b, s1)" by fastforce
  note upd = update_branches [OF inv assms(3) nf, of env fid r p]
  show ?thesis
  proof (cases "js_get (flows s) fid")
    case None
    then show ?thesis by (simp add: upd)
  next
    case (Some f)
    then have f: "wf_flow f" "flowId f = fid" using registry_inv_get [OF inv] by blast+
    show ?thesis
    proof (cases "applyFlowPatch env f p")
      case (Inl e)
      then have "e = ControllerIdRequired"
        by (auto simp: applyFlowPatch_def Let_def assertControllerId_def split: if_splits option.splits)
      with Some Inl show ?thesis by (simp add: upd)
    next
      case (Inr g)
      note patched_wf [OF Inr f(1)]
      with Some f Inr next_fault_fields [OF nf]
        stored_persist_upsert [OF next_fault_inv [OF nf inv], of g fid] show ?thesis
        by (simp add: upd emitFlowRegistryObserverEvent_def)
    qed
  qed
qed

theorem update_outcomes_witness:
  "case updateFlowRecordByIdExpectedRevision (sample_env 6 []) ''f'' 3 sample_cancel sample_registry of
      (Inr (RevisionConflict f), s') \<Rightarrow> js_get (flows sample_registry) ''f'' = Some f \<and> revision f \<noteq> 3 \<and> s' = sample_registry
    | _ \<Rightarrow> False"
  using update_outcomes [OF table_ok_empty sample_registry_def sample_registry_fields(2),
      where env = "sample_env 6 []" and fid = "''f''" and r = 3 and p = sample_cancel]
  by (simp add: updateFlowRecordByIdExpectedRevision_def sample_registry_fields sample_flow_def)

section \<open>Mirrored flows\<close>

lemma terminal_timing:
  "resolveTaskMirroredFlowTiming c l e t = (u, en) \<Longrightarrow> (if t then en = Some u else en = None)"
  by (auto simp: resolveTaskMirroredFlowTiming_def Let_def split: if_splits)

lemma patched_fields:
  assumes "applyFlowPatch env f p = Inr g"
  shows "status g = or_default (patch_status p) (status f)"
    "notifyPolicy g = or_default (patch_notifyPolicy p) (notifyPolicy f)"
    "blockedTaskId g = patched_string (patch_blockedTaskId p) (blockedTaskId f)"
    "blockedSummary g = patched_string (patch_blockedSummary p) (blockedSummary f)"
    "updatedAt g = or_default (patch_updatedAt p) (env_now env)"
    "endedAt g = patched_time (patch_endedAt p) (endedAt f)"
  using assms by (auto simp: applyFlowPatch_def Let_def result_bind_Inr)

lemma sync_applied:
  assumes "applyFlowPatch env f (sync_patch t f) = Inr g"
  shows "status g = deriveTaskFlowStatusFromTask t
    \<and> (endedAt g \<noteq> None) = isTerminalTaskFlowStatus (status g)
    \<and> (endedAt g \<noteq> None \<longrightarrow> endedAt g = Some (updatedAt g))
    \<and> (status g \<noteq> FsBlocked \<longrightarrow> blockedTaskId g = None \<and> blockedSummary g = None)
    \<and> notifyPolicy g = task_notifyPolicy t"
proof -
  obtain u en where t: "resolveTaskMirroredFlowTiming (createdAt f) (task_lastEventAt t) (task_endedAt t)
      (isTerminalTaskFlowStatus (deriveTaskFlowStatusFromTask t)) = (u, en)" by fastforce
  let ?st = "deriveTaskFlowStatusFromTask t"
  have p: "patch_status (sync_patch t f) = Some ?st"
    "patch_notifyPolicy (sync_patch t f) = Some (task_notifyPolicy t)"
    "patch_updatedAt (sync_patch t f) = Some u"
    "patch_endedAt (sync_patch t f) = (if isTerminalTaskFlowStatus ?st then Value u else Null)"
    "?st \<noteq> FsBlocked \<Longrightarrow> patch_blockedTaskId (sync_patch t f) = Null \<and> patch_blockedSummary (sync_patch t f) = Null"
    using terminal_timing [OF t] by (auto simp: sync_patch_def Let_def t)
  then show ?thesis
    by (auto simp: patched_fields [OF assms] p(1-4) patched_time_def patched_string_def)
qed

text \<open>
  A mirrored flow follows its task: a successful synchronization leaves the parent flow with the
  status derived from the task, with an end time exactly when that status is terminal (and then equal
  to its last update), with blocking details only while it is blocked, and with the task's
  notification policy.  A managed flow is returned unchanged and nothing is written.
\<close>

theorem mirrored_flow_follows_task:
  assumes "registry_inv s" and "restoreAttempted s"
    and "syncFlowFromTaskResult env t s = (Inr (SyncOk (Some g)), s')"
  shows "if syncMode g = TaskMirrored
     then status g = deriveTaskFlowStatusFromTask t
       \<and> (endedAt g \<noteq> None) = isTerminalTaskFlowStatus (status g)
       \<and> (endedAt g \<noteq> None \<longrightarrow> endedAt g = Some (updatedAt g))
       \<and> (status g \<noteq> FsBlocked \<longrightarrow> blockedTaskId g = None \<and> blockedSummary g = None)
       \<and> notifyPolicy g = task_notifyPolicy t
       \<and> js_get (flows s') (js_trim (or_default (parentFlowId t) [])) = Some g
     else s' = s"
proof -
  let ?fid = "js_trim (or_default (parentFlowId t) [])"
  obtain f where f: "js_get (flows s) ?fid = Some f" and fid: "?fid \<noteq> []"
    using assms(2,3) by (auto simp: syncFlowFromTaskResult_def getTaskFlowById_def Let_def
        split: if_splits option.splits)
  show ?thesis
  proof (cases "syncMode f = TaskMirrored")
    case False
    with f fid assms(2,3) show ?thesis
      by (simp add: syncFlowFromTaskResult_def getTaskFlowById_def Let_def)
  next
    case True
    obtain b s1 where nf: "next_fault s = (b, s1)" by fastforce
    from True f fid assms(2,3) have patched: "applyFlowPatch env f (sync_patch t f) = Inr g" "\<not> b"
      and s': "flows s' = js_set (flowId g) g (flows s1)"
      by (auto simp: syncFlowFromTaskResult_def getTaskFlowById_def updateFlowRecordByIdUnchecked_def
          Let_def write_cases [OF nf] emitFlowRegistryObserverEvent_def split: sum.splits if_splits)
    have "wf_flow f" "flowId f = ?fid" using registry_inv_get [OF assms(1) f] by simp_all
    with patched_wf [OF patched(1)] True sync_applied [OF patched(1)] s' show ?thesis by simp
  qed
qed

definition sample_task :: task_record where
  "sample_task = \<lparr>taskId = ''t'', parentFlowId = Some ''m'', task_ownerKey = ''o'',
     task_status = TsTimedOut, task_notifyPolicy = Silent, task_label = None, task_text = ''x'',
     task_createdAt = 1, task_lastEventAt = Some 4, task_endedAt = None, progressSummary = None,
     terminalSummary = None, terminalOutcome = None\<rparr>"

definition mirrored_flow :: flow where
  "mirrored_flow = sample_flow\<lparr>flowId := ''m'', syncMode := TaskMirrored, controllerId := None\<rparr>"

definition mirrored_registry :: flow_registry where
  "mirrored_registry = snd (writeFlowRecord mirrored_flow None
     (ensureFlowRegistryReady (sample_env 1 []) (fresh_registry empty_store [])))"

lemma mirrored_registry_fields:
  "registry_inv mirrored_registry" "restoreAttempted mirrored_registry"
  "flows mirrored_registry = [(''m'', mirrored_flow)]" "faults mirrored_registry = []"
proof -
  show "registry_inv mirrored_registry"
    unfolding mirrored_registry_def
    by (intro write_inv ready_inv fresh_inv) (simp_all add: wf_flow_def mirrored_flow_def sample_flow_def)
qed (simp_all add: mirrored_registry_def flow_eval mirrored_flow_def sample_flow_def)

lemma trim_letters [simp]: "js_trim ''m'' = ''m''" "js_trim ''x'' = ''x''" "js_trim ''f'' = ''f''" "js_trim ''o'' = ''o''"
  by code_simp+

definition synced_flow :: flow where
  "synced_flow = mirrored_flow\<lparr>status := FsFailed, notifyPolicy := Silent, goal := ''x'',
     waitJson := Some JNull, revision := 1, updatedAt := 4, endedAt := Some 4\<rparr>"

lemma sample_sync:
  "syncFlowFromTaskResult (sample_env 9 []) sample_task mirrored_registry
    = (Inr (SyncOk (Some synced_flow)),
       snd (syncFlowFromTaskResult (sample_env 9 []) sample_task mirrored_registry))"
  by (simp add: syncFlowFromTaskResult_def getTaskFlowById_def updateFlowRecordByIdUnchecked_def Let_def
      mirrored_registry_fields sample_task_def writeFlowRecord_def tryPersistFlowUpsert_def next_fault_def
      mirrored_flow_def sample_flow_def applyFlowPatch_def sync_patch_def deriveTaskFlowStatusFromTask_def
      isTerminalTaskFlowStatus_def resolveTaskMirroredFlowTiming_def empty_patch_def patched_string_def
      patched_time_def mirrored_goal_def truthy_string_def synced_flow_def sample_env_def)

theorem mirrored_flow_follows_task_witness:
  "status synced_flow = deriveTaskFlowStatusFromTask sample_task \<and> endedAt synced_flow = Some (updatedAt synced_flow)"
  using mirrored_flow_follows_task [OF mirrored_registry_fields(1,2) sample_sync]
  by (simp add: synced_flow_def mirrored_flow_def isTerminalTaskFlowStatus_def)

section \<open>Access by owner\<close>

lemma listed_for_owner:
  "listTaskFlowsForOwnerKey env k s = (f # fs, s') \<Longrightarrow>
     js_trim (ownerKey f) = js_trim k \<and> f \<in> set (js_values (flows (ensureFlowRegistryReady env s)))"
proof -
  assume "listTaskFlowsForOwnerKey env k s = (f # fs, s')"
  then have "f # fs = js_to_sorted newest_first
      (filter (\<lambda>f. js_trim (ownerKey f) = js_trim k) (js_values (flows (ensureFlowRegistryReady env s))))"
    by (auto simp: listTaskFlowsForOwnerKey_def Let_def split: if_splits)
  then have "f \<in> set (js_to_sorted newest_first
      (filter (\<lambda>f. js_trim (ownerKey f) = js_trim k) (js_values (flows (ensureFlowRegistryReady env s)))))"
    by (metis list.set_intros(1))
  then show ?thesis by simp
qed

lemma owner_trimmed: "wf_flow f \<Longrightarrow> js_trim (ownerKey f) = ownerKey f \<and> ownerKey f \<noteq> []"
  by (simp add: wf_flow_def normalizeOptionalString_Some)

text \<open>
  A caller only ever resolves its own flows: whatever token it presents, the flow the owner-checked
  lookup returns is one of the registry's flows and its owner is the caller's trimmed key, so a blank
  caller resolves nothing.
\<close>

theorem owner_lookup_is_isolated:
  assumes "registry_inv s" and "restoreAttempted s"
    and "resolveTaskFlowForLookupTokenForOwner env token caller s = (Some f, s')"
  shows "ownerKey f = js_trim caller \<and> ownerKey f \<noteq> [] \<and> f \<in> set (js_values (flows s)) \<and> s' = s"
proof (cases "\<exists>g. js_get (flows s) token = Some g
    \<and> normalizeOptionalString (Some (ownerKey g)) = normalizeOptionalString (Some caller)")
  case True
  then obtain g where g: "js_get (flows s) token = Some g"
    "normalizeOptionalString (Some (ownerKey g)) = normalizeOptionalString (Some caller)" by blast
  with assms(2,3) have "g = f" "s' = s"
    by (auto simp: resolveTaskFlowForLookupTokenForOwner_def getTaskFlowByIdForOwner_def getTaskFlowById_def)
  moreover have "wf_flow g" using registry_inv_get [OF assms(1) g(1)] by simp
  ultimately show ?thesis
    using g js_get_in_values [OF g(1)] owner_trimmed [of g]
    by (auto simp: wf_flow_def) (metis normalizeOptionalString_Some option.inject)
next
  case False
  with assms(2) have "getTaskFlowByIdForOwner env token caller s = (None, s)"
    by (auto simp: getTaskFlowByIdForOwner_def getTaskFlowById_def split: option.splits)
  with assms(2,3) obtain k where "normalizeOptionalString (Some caller) = Some k"
    and "findLatestTaskFlowForOwner env k s = (Some f, s')"
    by (auto simp: resolveTaskFlowForLookupTokenForOwner_def Let_def split: option.splits if_splits)
  then obtain fs k' where k: "k = js_trim caller" "k' = js_trim k"
    and listed: "listTaskFlowsForOwnerKey env k' s = (f # fs, s')"
    by (auto simp: findLatestTaskFlowForOwner_def findLatestTaskFlowForOwnerKey_def
        normalizeOptionalString_Some split: option.splits prod.splits list.splits)
  from listed assms(2) have "s' = s" by (auto simp: listTaskFlowsForOwnerKey_def Let_def split: if_splits)
  moreover from listed_for_owner [OF listed] assms(2) k
  have f: "js_trim (ownerKey f) = js_trim caller" "f \<in> set (js_values (flows s))" by simp_all
  moreover from f(2) have "wf_flow f" using registry_invD(3) [OF assms(1)] by blast
  ultimately show ?thesis using owner_trimmed by metis
qed

lemma sample_registry_inv: "registry_inv sample_registry"
  unfolding sample_registry_def by (rule reachable_inv) simp

lemma sample_lookup:
  "resolveTaskFlowForLookupTokenForOwner (sample_env 9 []) '' o '' ''o'' sample_registry
     = (Some sample_flow, sample_registry)"
proof -
  have "normalizeOptionalString (Some '' o '') = Some ''o''" by code_simp
  then show ?thesis
    by (simp add: resolveTaskFlowForLookupTokenForOwner_def getTaskFlowByIdForOwner_def getTaskFlowById_def
        findLatestTaskFlowForOwner_def findLatestTaskFlowForOwnerKey_def listTaskFlowsForOwnerKey_def
        sample_registry_fields Let_def js_to_sorted_def sample_flow_def)
qed

theorem owner_lookup_is_isolated_witness:
  "ownerKey sample_flow = js_trim ''o'' \<and> sample_flow \<in> set (js_values (flows sample_registry))"
  using owner_lookup_is_isolated [OF sample_registry_inv sample_registry_fields(2) sample_lookup] by simp

section \<open>Failed restores\<close>

definition bad_row :: "string \<Rightarrow> flow_row" where
  "bad_row fid = (bindFlowRecord (sample_flow\<lparr>flowId := fid\<rparr>))\<lparr>row_status := ''done''\<rparr>"

definition damaged_store :: "bool \<Rightarrow> flow_store" where
  "damaged_store incremental =
     \<lparr>store_rows = [(''a'', bindFlowRecord (sample_flow\<lparr>flowId := ''a''\<rparr>)), (''b'', bad_row ''b'')],
      store_upserts = incremental, store_deletes = incremental\<rparr>"

lemma traverse_fails: "x \<in> set xs \<Longrightarrow> f x = Inl e \<Longrightarrow> \<exists>e'. traverse f xs = Inl e'"
proof (induction xs)
  case (Cons y ys)
  then show ?case by (cases "f y"; cases "traverse f ys") auto
qed simp

text \<open>
  A restore is all or nothing: one row the registry cannot decode makes the whole restore fail; no
  flow is served, the failure is reported, and the table is left as it was.
\<close>

theorem restore_is_all_or_nothing:
  assumes "\<not> restoreAttempted s" and "row \<in> set (js_values (store_rows (store s)))"
    and "rowToFlowRecord (env_channel env) row = Inl e"
  shows "flows (ensureFlowRegistryReady env s) = []
    \<and> getTaskFlowRegistryRestoreFailure env s \<noteq> None
    \<and> store (ensureFlowRegistryReady env s) = store s"
proof -
  obtain b s1 where nf: "next_fault (s\<lparr>restoreAttempted := True\<rparr>) = (b, s1)" by fastforce
  have "row \<in> set (selectFlowRows (store_rows (store s)))"
    using assms(2) by (simp add: selectFlowRows_def)
  from traverse_fails [OF this, of "\<lambda>r. result_bind (rowToFlowRecord (env_channel env) r) (\<lambda>f. Inr (row_flow_id r, f))" e]
  obtain e' where "loadTaskFlowRegistryStateFromSqlite (env_channel env) (store_rows (store s)) = Inl e'"
    using assms(3) by (auto simp: loadTaskFlowRegistryStateFromSqlite_def)
  with assms(1) nf next_fault_fields [OF nf] show ?thesis
    by (simp add: getTaskFlowRegistryRestoreFailure_def ensureFlowRegistryReady_def)
qed

lemma bad_row_fails: "rowToFlowRecord nc (bad_row fid) = Inl (InvalidPersisted ''status'' ''done'')"
  using parse_sync_mode_name [of Managed]
  by (simp add: bad_row_def rowToFlowRecord_def rowToSyncMode_def bindFlowRecord_def sample_flow_def
      parseTaskFlowStatus_def parsePersistedFlowValue_def TASK_FLOW_STATUSES_def)

theorem restore_is_all_or_nothing_witness:
  "flows (ensureFlowRegistryReady (sample_env 1 []) (fresh_registry (damaged_store True) [])) = []
    \<and> getTaskFlowRegistryRestoreFailure (sample_env 1 []) (fresh_registry (damaged_store True) []) \<noteq> None"
  using restore_is_all_or_nothing [where s = "fresh_registry (damaged_store True) []" and
      row = "bad_row ''b''" and env = "sample_env 1 []", OF _ _ bad_row_fails]
  by (simp add: fresh_registry_def damaged_store_def)

lemma damaged_ready:
  "ensureFlowRegistryReady (sample_env 1 u) (fresh_registry (damaged_store False) [])
     = (fresh_registry (damaged_store False) [])\<lparr>restoreAttempted := True,
         restoreFailure := Some (InvalidPersisted ''status'' ''done'')\<rparr>"
proof -
  have a: "rowToFlowRecord nc (bindFlowRecord (sample_flow\<lparr>flowId := fid\<rparr>)) = Inr (sample_flow\<lparr>flowId := fid\<rparr>)"
    if "fid \<noteq> []" for nc fid
    using row_to_flow_of_bind [of "sample_flow\<lparr>flowId := fid\<rparr>" nc None] that
    unfolding bind_shape [symmetric]
    by (simp add: wf_flow_def sample_flow_def restored_form_def stored_form_def)
  show ?thesis
    by (simp add: ensureFlowRegistryReady_def fresh_registry_def next_fault_def sample_env_def
        loadTaskFlowRegistryStateFromSqlite_def damaged_store_def selectFlowRows_def bad_row_fails a
        insort_key.simps)
qed

text \<open>
  With a store that only takes whole snapshots, a failed restore is not contained: the registry then
  holds no flow, and the next flow that is created replaces the table by itself, so the row that was
  readable is deleted together with the one that was not.
\<close>

theorem failed_restore_erases_snapshot_store:
  "map fst (store_rows (store (run_flows [ReadFlows (sample_env 1 []), CreateFlow (sample_env 5 ''f'') sample_create]
      (fresh_registry (damaged_store False) [])))) = [''f'']"
proof -
  have "run_flows [ReadFlows (sample_env 1 []), CreateFlow (sample_env 5 ''f'') sample_create]
      (fresh_registry (damaged_store False) [])
    = flow_step (CreateFlow (sample_env 5 ''f'') sample_create)
        ((fresh_registry (damaged_store False) [])\<lparr>restoreAttempted := True,
         restoreFailure := Some (InvalidPersisted ''status'' ''done'')\<rparr>)"
    by (simp add: run_flows_def damaged_ready)
  then show ?thesis
    by (simp add: flow_eval Let_def damaged_store_def saveTaskFlowRegistryStateToSqlite_def
        createFlowSnapshotWith_def pruneFlowsNotInSnapshot_def upsertFlowRow_def bindFlowRecord_def)
qed

section \<open>Maintenance\<close>

text \<open>What one maintenance step makes of a flow; \<^const>\<open>None\<close> is its removal.\<close>

definition upkeep :: "flow_env \<Rightarrow> (string \<Rightarrow> task_record list) \<Rightarrow> int \<Rightarrow> flow \<Rightarrow> flow option" where
  "upkeep env linked now f =
     (if shouldRepairTerminalMirroredFlowTimestamp f
      then Some (projr (applyFlowPatch env f (empty_patch\<lparr>patch_updatedAt := endedAt f\<rparr>)))
      else if shouldFinalizeCancelledFlow linked f
      then Some (projr (applyFlowPatch env f (cancelled_patch f now)))
      else if shouldPruneFlow linked now f then None else Some f)"

definition settled :: "(string \<Rightarrow> task_record list) \<Rightarrow> flow \<Rightarrow> bool" where
  "settled linked f \<longleftrightarrow> \<not> shouldRepairTerminalMirroredFlowTimestamp f \<and> \<not> shouldFinalizeCancelledFlow linked f"

definition quiet :: "flow_registry \<Rightarrow> bool" where
  "quiet s \<longleftrightarrow> registry_inv s \<and> restoreAttempted s \<and> faults s = []"

lemma quiet_write:
  assumes "quiet s" and "wf_flow g"
  shows "\<exists>s'. writeFlowRecord g prev s = (Some g, s') \<and> quiet s' \<and> flows s' = js_set (flowId g) g (flows s)"
  using assms write_inv [of s g prev]
  by (auto simp: quiet_def writeFlowRecord_def tryPersistFlowUpsert_def next_fault_def
      emitFlowRegistryObserverEvent_def)

lemma quiet_update:
  assumes "quiet s" and "js_get (flows s) (flowId f) = Some f" and "applyFlowPatch env f p = Inr g"
  shows "\<exists>s'. updateFlowRecordByIdExpectedRevision env (flowId f) (revision f) p s = (Inr (Applied g), s')
    \<and> quiet s' \<and> flows s' = js_set (flowId f) g (flows s)"
proof -
  have "wf_flow f" using assms(1,2) registry_inv_get by (auto simp: quiet_def)
  with patched_wf [OF assms(3)] have "wf_flow g" "flowId g = flowId f" by simp_all
  with quiet_write [OF assms(1), of g "Some f"] assms show ?thesis
    by (auto simp: updateFlowRecordByIdExpectedRevision_def quiet_def)
qed

lemma quiet_delete:
  assumes "quiet s" and "js_get (flows s) fid = Some f"
  shows "\<exists>s'. deleteTaskFlowRecordById env fid s = (True, s') \<and> quiet s' \<and> flows s' = js_delete fid (flows s)"
  using assms delete_inv [of s env fid]
  by (auto simp: quiet_def deleteTaskFlowRecordById_def tryPersistFlowDelete_def next_fault_def
      emitFlowRegistryObserverEvent_def)

lemma patch_mirrored: "syncMode f = TaskMirrored \<Longrightarrow> \<exists>g. applyFlowPatch env f p = Inr g"
  by (simp add: applyFlowPatch_def Let_def)

lemma patch_keeps_controller:
  assumes "wf_flow f" and "patch_controllerId p = Undefined"
  shows "\<exists>g. applyFlowPatch env f p = Inr g"
proof (cases "syncMode f = Managed")
  case True
  with assms(1) obtain c where "controllerId f = Some c" "normalizeOptionalString (Some c) = Some c"
    by (auto simp: wf_flow_def)
  with True assms(2) show ?thesis
    by (simp add: applyFlowPatch_def Let_def patched_string_def assertControllerId_def)
qed (simp add: applyFlowPatch_def Let_def)

lemma repaired_settled:
  assumes "shouldRepairTerminalMirroredFlowTimestamp f" and "wf_flow f"
    and "applyFlowPatch env f (empty_patch\<lparr>patch_updatedAt := endedAt f\<rparr>) = Inr g"
  shows "settled linked g"
proof -
  obtain e where "endedAt f = Some e" "syncMode f = TaskMirrored"
    using assms(1) by (auto simp: shouldRepairTerminalMirroredFlowTimestamp_def split: option.splits)
  with patched_fields [OF assms(3)] patched_wf [OF assms(3,2)] show ?thesis
    by (simp add: settled_def shouldRepairTerminalMirroredFlowTimestamp_def shouldFinalizeCancelledFlow_def
        patched_time_def empty_patch_def)
qed

lemma finalized_settled:
  assumes "shouldFinalizeCancelledFlow linked f" and "wf_flow f"
    and "applyFlowPatch env f (cancelled_patch f now) = Inr g"
  shows "settled linked g"
  using assms(1) patched_fields(1) [OF assms(3)] patched_wf [OF assms(3,2)]
  by (simp add: settled_def shouldRepairTerminalMirroredFlowTimestamp_def shouldFinalizeCancelledFlow_def
      cancelled_patch_def Let_def isTerminalFlow_def)

lemma maintain_one_effect:
  assumes "quiet s" and "js_get (flows s) (flowId f) = Some f"
  shows "\<exists>s'. maintain_one env linked now f m s = (Inr (preview_one linked now f m), s') \<and> quiet s'
    \<and> js_get (flows s') = (js_get (flows s))(flowId f := upkeep env linked now f)
    \<and> (\<forall>g. upkeep env linked now f = Some g \<longrightarrow> settled linked g)"
proof -
  have ready: "ensureFlowRegistryReady env s = s" using assms(1) by (simp add: quiet_def)
  have wf: "wf_flow f" using assms registry_inv_get by (auto simp: quiet_def)
  consider "shouldRepairTerminalMirroredFlowTimestamp f"
    | "\<not> shouldRepairTerminalMirroredFlowTimestamp f" "shouldFinalizeCancelledFlow linked f"
    | "settled linked f" "shouldPruneFlow linked now f"
    | "settled linked f" "\<not> shouldPruneFlow linked now f" by (auto simp: settled_def)
  then show ?thesis
  proof cases
    case 1
    then obtain g where g: "applyFlowPatch env f (empty_patch\<lparr>patch_updatedAt := endedAt f\<rparr>) = Inr g"
      using patch_keeps_controller [OF wf, of "empty_patch\<lparr>patch_updatedAt := endedAt f\<rparr>" env]
      by (auto simp: empty_patch_def)
    with 1 quiet_update [OF assms g] repaired_settled [OF 1 wf g] assms(2) ready show ?thesis
      by (auto simp: maintain_one_def getTaskFlowById_def repairTerminalMirroredFlowTimestamp_def
          numeral_2_eq_2 preview_one_def count_if_def upkeep_def update_conv')
  next
    case 2
    then obtain g where g: "applyFlowPatch env f (cancelled_patch f now) = Inr g"
      using patch_keeps_controller [OF wf, of "cancelled_patch f now" env]
      by (auto simp: cancelled_patch_def empty_patch_def Let_def)
    with 2 quiet_update [OF assms g] finalized_settled [OF 2(2) wf g] assms(2) ready show ?thesis
      by (auto simp: maintain_one_def getTaskFlowById_def finalizeCancelledFlow_def
          numeral_2_eq_2 preview_one_def count_if_def upkeep_def update_conv')
  next
    case 3
    with quiet_delete [OF assms, of env] assms(2) ready show ?thesis
      by (auto simp: settled_def maintain_one_def getTaskFlowById_def preview_one_def count_if_def upkeep_def
          delete_conv')
  next
    case 4
    with assms ready show ?thesis
      by (auto simp: settled_def maintain_one_def getTaskFlowById_def preview_one_def upkeep_def)
  qed
qed

lemma maintain_all_effect:
  "quiet s \<Longrightarrow> distinct (map flowId fs) \<Longrightarrow> \<forall>f \<in> set fs. js_get (flows s) (flowId f) = Some f \<Longrightarrow>
   \<exists>s'. maintain_all env linked now fs m s = (Inr (fold (preview_one linked now) fs m), s') \<and> quiet s'
     \<and> (\<forall>f \<in> set fs. js_get (flows s') (flowId f) = upkeep env linked now f
          \<and> (\<forall>g. upkeep env linked now f = Some g \<longrightarrow> settled linked g))
     \<and> (\<forall>k. k \<notin> flowId ` set fs \<longrightarrow> js_get (flows s') k = js_get (flows s) k)"
proof (induction fs arbitrary: m s)
  case (Cons f fs)
  from Cons.prems maintain_one_effect [of s f env linked now m] obtain s1 where
    s1: "maintain_one env linked now f m s = (Inr (preview_one linked now f m), s1)" "quiet s1"
      "js_get (flows s1) = (js_get (flows s))(flowId f := upkeep env linked now f)"
      "\<forall>g. upkeep env linked now f = Some g \<longrightarrow> settled linked g" by auto
  have "\<forall>g \<in> set fs. js_get (flows s1) (flowId g) = Some g"
    using Cons.prems s1(3) by (auto simp: image_iff)
  with Cons.IH [of s1 "preview_one linked now f m"] Cons.prems s1 show ?case by auto
qed simp

text \<open>
  Maintenance does what its preview announces: on a registry whose store accepts writes, the run
  reconciles and prunes exactly as many flows as the preview counted, afterwards no flow is left with
  a stale mirrored time or an unfinished cancellation, and every expired flow that needed no repair
  is gone.
\<close>

theorem maintenance_does_what_it_previews:
  assumes "registry_inv s" and "restoreAttempted s" and "faults s = []"
    and "runTaskFlowRegistryMaintenance env linked s = (res, s')"
  shows "res = Inr (fst (previewTaskFlowRegistryMaintenance env linked s))
    \<and> list_all (\<lambda>f. \<not> shouldRepairTerminalMirroredFlowTimestamp f \<and> \<not> shouldFinalizeCancelledFlow linked f)
        (js_values (flows s'))
    \<and> list_all (\<lambda>f. shouldPruneFlow linked (env_now env) f \<and> \<not> shouldRepairTerminalMirroredFlowTimestamp f
         \<longrightarrow> js_get (flows s') (flowId f) = None) (js_values (flows s))"
proof -
  let ?fs = "js_to_sorted newest_first (js_values (flows s))" and ?now = "env_now env"
  have q: "quiet s" using assms(1-3) by (simp add: quiet_def)
  have keyed: "keyed_by flowId (flows s)" by (rule registry_invD(2) [OF assms(1)])
  have get: "js_get (flows s) (flowId f) = Some f" if "f \<in> set (js_values (flows s))" for f
    using keyed that by (auto simp: keyed_by_def intro: map_of_is_SomeI)
  have "map flowId (js_values (flows s)) = js_keys (flows s)" using keyed by (auto simp: keyed_by_def)
  moreover have "mset (map flowId ?fs) = mset (map flowId (js_values (flows s)))"
    by (simp only: mset_map mset_js_to_sorted)
  ultimately have dist: "distinct (map flowId ?fs)"
    using keyed mset_eq_imp_distinct_iff unfolding keyed_by_def by metis
  have mem: "\<forall>f \<in> set ?fs. js_get (flows s) (flowId f) = Some f" using get by simp
  from maintain_all_effect [OF q dist mem, of env linked ?now "\<lparr>reconciled = 0, pruned = 0\<rparr>"] assms(2,4)
  have res: "res = Inr (fold (preview_one linked ?now) ?fs \<lparr>reconciled = 0, pruned = 0\<rparr>)" and q': "quiet s'"
    and eff: "\<forall>f \<in> set (js_values (flows s)). js_get (flows s') (flowId f) = upkeep env linked ?now f
          \<and> (\<forall>g. upkeep env linked ?now f = Some g \<longrightarrow> settled linked g)"
    and same: "\<forall>k. k \<notin> flowId ` set (js_values (flows s)) \<longrightarrow> js_get (flows s') k = js_get (flows s) k"
    by (auto simp: runTaskFlowRegistryMaintenance_def listTaskFlowRecords_def)
  have "settled linked g" if "g \<in> set (js_values (flows s'))" for g
  proof -
    have "keyed_by flowId (flows s')" using q' by (simp add: quiet_def registry_invD(2))
    with that have g: "js_get (flows s') (flowId g) = Some g" by (auto simp: keyed_by_def intro: map_of_is_SomeI)
    have "flowId g \<in> flowId ` set (js_values (flows s))"
    proof (rule ccontr)
      assume not: "flowId g \<notin> flowId ` set (js_values (flows s))"
      with same g have "js_get (flows s) (flowId g) = Some g" by simp
      from js_get_in_values [OF this] not show False by blast
    qed
    then obtain f where "f \<in> set (js_values (flows s))" "flowId f = flowId g" by force
    with eff g show ?thesis by metis
  qed
  then have "list_all (settled linked) (js_values (flows s'))" by (simp add: list_all_iff)
  moreover have "js_get (flows s') (flowId f) = None"
    if "f \<in> set (js_values (flows s))" "shouldPruneFlow linked ?now f" "\<not> shouldRepairTerminalMirroredFlowTimestamp f" for f
    using eff that by (auto simp: upkeep_def shouldPruneFlow_def shouldFinalizeCancelledFlow_def)
  ultimately show ?thesis
    using res assms(2)
    by (auto simp: previewTaskFlowRegistryMaintenance_def listTaskFlowRecords_def settled_def list_all_iff)
qed

definition cancelling_registry :: flow_registry where
  "cancelling_registry =
     snd (updateFlowRecordByIdExpectedRevision (sample_env 6 []) ''f'' 0 sample_cancel sample_registry)"

lemma cancelling_registry_fields:
  "registry_inv cancelling_registry" "restoreAttempted cancelling_registry" "faults cancelling_registry = []"
  "js_values (flows cancelling_registry)
     = [sample_flow\<lparr>cancelRequestedAt := Some 7, revision := 1, updatedAt := 6\<rparr>]"
proof -
  show "registry_inv cancelling_registry" "restoreAttempted cancelling_registry"
    using flow_invariant.update_keeps [OF sample_registry_inv] by (simp_all add: cancelling_registry_def)
  show "faults cancelling_registry = []" "js_values (flows cancelling_registry)
      = [sample_flow\<lparr>cancelRequestedAt := Some 7, revision := 1, updatedAt := 6\<rparr>]"
    by (simp_all add: cancelling_registry_def updateFlowRecordByIdExpectedRevision_def Let_def
        sample_registry_fields applyFlowPatch_def writeFlowRecord_def tryPersistFlowUpsert_def
        next_fault_def sample_cancel_def empty_patch_def patched_string_def patched_time_def
        assertControllerId_def sample_flow_def truthy_string_def sample_env_def
        emitFlowRegistryObserverEvent_def)
qed

theorem maintenance_does_what_it_previews_witness:
  "fst (runTaskFlowRegistryMaintenance (sample_env 9 []) (\<lambda>_. []) cancelling_registry)
     = Inr \<lparr>reconciled = 1, pruned = 0\<rparr>"
  using maintenance_does_what_it_previews [OF cancelling_registry_fields(1-3),
      of "sample_env 9 []" "\<lambda>_. []"]
  by (cases "runTaskFlowRegistryMaintenance (sample_env 9 []) (\<lambda>_. []) cancelling_registry")
    (simp add: previewTaskFlowRegistryMaintenance_def listTaskFlowRecords_def cancelling_registry_fields
      js_to_sorted_def preview_one_def sample_flow_def shouldRepairTerminalMirroredFlowTimestamp_def
      shouldFinalizeCancelledFlow_def hasActiveLinkedTasks_def isTerminalFlow_def)

section \<open>Audit\<close>

interpretation flow_age: comparator newest_first
  by unfold_locales (auto simp: newest_first_def)

interpretation finding_order: comparator compareFindings
  by unfold_locales (auto simp: compareFindings_def Let_def split: if_splits)

lemma summary_counts:
  "total (fold count_finding fs m) = total m + length fs
   \<and> errors (fold count_finding fs m) = errors m + length (filter (\<lambda>f. severity f = Error) fs)
   \<and> warnings (fold count_finding fs m) = warnings m + length (filter (\<lambda>f. severity f = Warn) fs)
   \<and> byCode (fold count_finding fs m) c = byCode m c + length (filter (\<lambda>f. code f = c) fs)"
proof (induction fs arbitrary: m)
  case (Cons f fs)
  then show ?case by (cases "severity f") (simp_all add: count_finding_def Let_def)
qed simp

lemma severities: "length (filter (\<lambda>f. severity f = Error) fs) + length (filter (\<lambda>f. severity f = Warn) fs) = length fs"
proof (induction fs)
  case (Cons f fs)
  then show ?case by (cases "severity f") simp_all
qed simp

text \<open>
  The audit lists its findings in one order, errors before warnings and the oldest first, and its
  summary counts each finding once: the total is the number of findings, errors and warnings add up
  to it, and each code is counted as often as it occurs.
\<close>

theorem audit_is_ordered_and_counted:
  "let fs = fst (listTaskFlowAuditFindings env linked opts s); m = summarizeTaskFlowAuditFindings fs
   in sorted_wrt (\<lambda>x y. compareFindings x y \<le> 0) fs
      \<and> sorted (map (\<lambda>f. severityRank (severity f)) fs)
      \<and> total m = length fs \<and> errors m + warnings m = total m
      \<and> byCode m c = length (filter (\<lambda>f. code f = c) fs)"
proof -
  let ?fs = "fst (listTaskFlowAuditFindings env linked opts s)"
  have sorted: "sorted_wrt (\<lambda>x y. compareFindings x y \<le> 0) ?fs"
    by (auto simp: listTaskFlowAuditFindings_def Let_def split: prod.split
        intro: finding_order.sorted_js_to_sorted)
  have "sorted_wrt (\<lambda>x y. severityRank (severity x) \<le> severityRank (severity y)) ?fs"
    using sorted by (rule sorted_wrt_mono_rel [rotated]) (auto simp: compareFindings_def Let_def split: if_splits)
  then have "sorted (map (\<lambda>f. severityRank (severity f)) ?fs)" by (simp add: sorted_map)
  with sorted show ?thesis
    by (simp add: summarizeTaskFlowAuditFindings_def createEmptyTaskFlowAuditSummary_def summary_counts
        severities Let_def)
qed

text \<open>
  The audit and the maintenance disagree on blocked flows: a managed flow that is blocked when its
  cancellation is requested is reported as a stuck, still nonterminal cancellation, but maintenance
  counts a blocked flow as terminal and never finalizes it, whatever the time and the linked tasks.
\<close>

theorem blocked_cancellation_is_never_finalized:
  assumes "status f = FsBlocked" and "syncMode f = Managed" and "cancelRequestedAt f = Some c"
    and "\<not> hasActiveLinkedTasks linked (flowId f)" and "DEFAULT_CANCEL_STUCK_MS \<le> now - c"
    and "opt_cancelStuckMs opts = None"
  shows "list_ex (\<lambda>i. code i = CancelStuck) (audit_flow opts now linked f)
    \<and> \<not> shouldFinalizeCancelledFlow linked f
    \<and> (upkeep env linked now f = Some f \<or> upkeep env linked now f = None)"
proof -
  have "filter is_active_task (linked (flowId f)) = []"
    using assms(4) by (simp add: hasActiveLinkedTasks_def list_ex_iff filter_empty_conv)
  moreover have "\<not> shouldFinalizeCancelledFlow linked f"
    using assms(1) by (simp add: shouldFinalizeCancelledFlow_def isTerminalFlow_def)
  moreover have "\<not> shouldRepairTerminalMirroredFlowTimestamp f"
    using assms(2) by (simp add: shouldRepairTerminalMirroredFlowTimestamp_def)
  ultimately show ?thesis
    using assms by (simp add: audit_flow_def Let_def push_if_def cancel_unsettled_def flow_finding_def upkeep_def)
qed

definition default_audit :: audit_options where
  "default_audit = \<lparr>opt_now = None, opt_flows = None, opt_staleRunningMs = None, opt_staleWaitingMs = None,
     opt_staleBlockedMs = None, opt_cancelStuckMs = None\<rparr>"

theorem blocked_cancellation_is_never_finalized_witness:
  "list_ex (\<lambda>i. code i = CancelStuck) (audit_flow default_audit 1000000 (\<lambda>_. [])
      (sample_flow\<lparr>status := FsBlocked, cancelRequestedAt := Some 7\<rparr>))"
  using blocked_cancellation_is_never_finalized
    [of "sample_flow\<lparr>status := FsBlocked, cancelRequestedAt := Some 7\<rparr>" 7 "\<lambda>_. []" 1000000 default_audit]
  by (simp add: sample_flow_def hasActiveLinkedTasks_def DEFAULT_CANCEL_STUCK_MS_def default_audit_def)

end
