(* ===== verification/ExecApproval.thy ===== *)
theory ExecApproval
  imports NumberCoercion
begin

text \<open>
  The approval manager of the gateway, \<^verbatim>\<open>gateway/exec-approval-manager.ts\<close>: operators decide on
  commands an agent wants to run.  A promise is the number of the entry that owns it; settling it and
  granting a one-time approval are outputs of the state.  Timers are the list of armed timers; their delays are not
  kept, so that any armed timer may fire next, which covers every delay.  The payload of a request, with the caller metadata the gateway attaches
  to a record, is the type parameter \<^verbatim>\<open>'p\<close>.
\<close>

datatype approval_decision = AllowOnce | AllowAlways | Deny

datatype approval_error = ExpiryUnavailable | AlreadyResolved string

record 'p approval_record =
  approval_id :: string
  request :: 'p
  createdAtMs :: int
  expiresAtMs :: js_number
  resolvedAtMs :: "int option"
  decision :: "approval_decision option"
  consumedDecision :: "approval_decision option"
  resolvedBy :: "string option"

record 'p pending_entry =
  entry_promise :: nat
  entry_record :: "'p approval_record"

datatype approval_timer = ExpireTimer nat string | CleanupTimer nat string

record 'p approvals =
  pending :: "(string, 'p pending_entry) js_map"
  timers :: "approval_timer list"
  next_promise :: nat
  settled :: "(nat \<times> approval_decision option) list"
  granted :: "nat list"

definition no_approvals :: "'p approvals" where
  "no_approvals = \<lparr>pending = [], timers = [], next_promise = 0, settled = [], granted = []\<rparr>"

definition resolveApprovalTimeoutMs :: "js_number \<Rightarrow> js_number" where
  "resolveApprovalTimeoutMs timeoutMs = resolveTimerTimeoutMs (VNum timeoutMs) (Num 1) (Num 1)"

definition create ::
  "int \<Rightarrow> string \<Rightarrow> 'p \<Rightarrow> js_number \<Rightarrow> string option \<Rightarrow> approval_error + 'p approval_record" where
  "create now uuid req timeoutMs aid =
     (case resolveExpiresAtMsFromDurationMs now (VNum (resolveApprovalTimeoutMs timeoutMs))
             (no_expiry_opts\<lparr>opt_nowMs := Some (Num (of_int now))\<rparr>) of
        None \<Rightarrow> Inl ExpiryUnavailable
      | Some expires \<Rightarrow>
          Inr \<lparr>approval_id = (let t = js_trim (or_default aid []) in if t = [] then uuid else t),
               request = req, createdAtMs = now, expiresAtMs = expires, resolvedAtMs = None,
               decision = None, consumedDecision = None, resolvedBy = None\<rparr>)"

definition register :: "'p approval_record \<Rightarrow> 'p approvals \<Rightarrow> (approval_error + nat) \<times> 'p approvals" where
  "register r s =
     (case js_get (pending s) (approval_id r) of
        Some e \<Rightarrow>
          if resolvedAtMs (entry_record e) = None then (Inr (entry_promise e), s)
          else (Inl (AlreadyResolved (approval_id r)), s)
      | None \<Rightarrow>
          (let p = next_promise s
           in (Inr p, s\<lparr>timers := timers s @ [ExpireTimer p (approval_id r)],
                        pending := js_set (approval_id r) \<lparr>entry_promise = p, entry_record = r\<rparr> (pending s),
                        next_promise := Suc p\<rparr>)))"

definition waitForDecision :: "'p approval_record \<Rightarrow> 'p approvals \<Rightarrow> (approval_error + nat) \<times> 'p approvals" where
  "waitForDecision r s = register r s"

text \<open>What resolving and expiring share: stop the timer, stamp the record, settle, arm the cleanup.\<close>

definition conclude ::
  "int \<Rightarrow> string \<Rightarrow> approval_decision option \<Rightarrow> string option \<Rightarrow> 'p approvals \<Rightarrow> bool \<times> 'p approvals" where
  "conclude now aid d by_whom s =
     (case js_get (pending s) aid of
        None \<Rightarrow> (False, s)
      | Some e \<Rightarrow>
          if resolvedAtMs (entry_record e) \<noteq> None then (False, s)
          else
            (let r = (entry_record e)\<lparr>resolvedAtMs := Some now, decision := d, resolvedBy := by_whom\<rparr>;
                 p = entry_promise e
             in (True, s\<lparr>timers := filter (\<lambda>t. t \<noteq> ExpireTimer p (approval_id r)) (timers s) @ [CleanupTimer p aid],
                         pending := js_set aid (e\<lparr>entry_record := r\<rparr>) (pending s),
                         settled := settled s @ [(p, d)]\<rparr>)))"

definition resolve ::
  "int \<Rightarrow> string \<Rightarrow> approval_decision \<Rightarrow> string option \<Rightarrow> 'p approvals \<Rightarrow> bool \<times> 'p approvals" where
  "resolve now aid d by_whom s = conclude now aid (Some d) by_whom s"

definition expire :: "int \<Rightarrow> string \<Rightarrow> string option \<Rightarrow> 'p approvals \<Rightarrow> bool \<times> 'p approvals" where
  "expire now aid by_whom s = conclude now aid None by_whom s"

text \<open>The cleanup deletes the entry only if it is still the one it was armed for.\<close>

definition cleanup_entry :: "nat \<Rightarrow> string \<Rightarrow> 'p approvals \<Rightarrow> 'p approvals" where
  "cleanup_entry p aid s =
     (case js_get (pending s) aid of
        None \<Rightarrow> s
      | Some e \<Rightarrow> if entry_promise e = p then s\<lparr>pending := js_delete aid (pending s)\<rparr> else s)"

definition fire_timer :: "int \<Rightarrow> nat \<Rightarrow> 'p approvals \<Rightarrow> 'p approvals" where
  "fire_timer now i s =
     (if i < length (timers s)
      then (let s1 = s\<lparr>timers := take i (timers s) @ drop (Suc i) (timers s)\<rparr>
            in (case timers s ! i of
                  ExpireTimer p aid \<Rightarrow> snd (expire now aid None s1)
                | CleanupTimer p aid \<Rightarrow> cleanup_entry p aid s1))
      else s)"

definition getSnapshot :: "string \<Rightarrow> 'p approvals \<Rightarrow> 'p approval_record option" where
  "getSnapshot aid s = map_option entry_record (js_get (pending s) aid)"

definition listPendingRecords :: "'p approvals \<Rightarrow> 'p approval_record list" where
  "listPendingRecords s =
     filter (\<lambda>r. resolvedAtMs r = None) (map entry_record (js_values (pending s)))"

definition consumeAllowOnce :: "string \<Rightarrow> 'p approvals \<Rightarrow> bool \<times> 'p approvals" where
  "consumeAllowOnce aid s =
     (case js_get (pending s) aid of
        None \<Rightarrow> (False, s)
      | Some e \<Rightarrow>
          if decision (entry_record e) \<noteq> Some AllowOnce then (False, s)
          else
            (True, s\<lparr>pending := js_set aid
                         (e\<lparr>entry_record := (entry_record e)\<lparr>consumedDecision := decision (entry_record e),
                                                          decision := None\<rparr>\<rparr>) (pending s),
                     granted := granted s @ [entry_promise e]\<rparr>))"

definition awaitDecision :: "string \<Rightarrow> 'p approvals \<Rightarrow> nat option" where
  "awaitDecision aid s = map_option entry_promise (js_get (pending s) aid)"

datatype approval_lookup = LookupExact string | LookupPrefix string | LookupAmbiguous "string list" | LookupNone

definition lookup_visible :: "bool \<Rightarrow> ('p approval_record \<Rightarrow> bool) \<Rightarrow> 'p pending_entry \<Rightarrow> bool" where
  "lookup_visible includeResolved ok e \<longleftrightarrow>
     (includeResolved \<or> resolvedAtMs (entry_record e) = None) \<and> ok (entry_record e)"

definition lookup_matches ::
  "bool \<Rightarrow> ('p approval_record \<Rightarrow> bool) \<Rightarrow> string \<Rightarrow> (string, 'p pending_entry) js_map \<Rightarrow> string list" where
  "lookup_matches includeResolved ok lowerPrefix m =
     map fst (filter (\<lambda>(k, e). lookup_visible includeResolved ok e
                        \<and> starts_with (normalizeLowercaseStringOrEmpty (Some k)) lowerPrefix) m)"

definition lookupApprovalId ::
  "bool \<Rightarrow> ('p approval_record \<Rightarrow> bool) \<Rightarrow> string \<Rightarrow> 'p approvals \<Rightarrow> approval_lookup" where
  "lookupApprovalId includeResolved ok inp s =
     (let normalized = js_trim inp
      in if normalized = [] then LookupNone
         else (case js_get (pending s) normalized of
                 Some e \<Rightarrow> if lookup_visible includeResolved ok e then LookupExact normalized else LookupNone
               | None \<Rightarrow>
                   (case lookup_matches includeResolved ok
                           (normalizeLowercaseStringOrEmpty (Some normalized)) (pending s) of
                      [] \<Rightarrow> LookupNone
                    | [k] \<Rightarrow> LookupPrefix k
                    | ks \<Rightarrow> LookupAmbiguous ks)))"

definition lookupPendingId :: "string \<Rightarrow> 'p approvals \<Rightarrow> approval_lookup" where
  "lookupPendingId inp s = lookupApprovalId False (\<lambda>_. True) inp s"

section \<open>The machine\<close>

datatype 'p approval_event =
    Submit int string 'p js_number "string option"
  | Resolve int string approval_decision "string option"
  | Expire int string "string option"
  | Consume string
  | FireTimer int nat

text \<open>Callers create a record and register it; a refused creation registers nothing.\<close>

fun approval_step :: "'p approval_event \<Rightarrow> 'p approvals \<Rightarrow> 'p approvals" where
  "approval_step (Submit now uuid req timeoutMs aid) s =
     (case create now uuid req timeoutMs aid of Inl _ \<Rightarrow> s | Inr r \<Rightarrow> snd (register r s))"
| "approval_step (Resolve now aid d w) s = snd (resolve now aid d w s)"
| "approval_step (Expire now aid w) s = snd (expire now aid w s)"
| "approval_step (Consume aid) s = snd (consumeAllowOnce aid s)"
| "approval_step (FireTimer now i) s = fire_timer now i s"

definition run_approvals :: "'p approval_event list \<Rightarrow> 'p approvals" where
  "run_approvals es = fold approval_step es no_approvals"

end
