(* ===== verification/ExecApprovalProps.thy ===== *)
theory ExecApprovalProps
  imports ExecApproval
begin

text \<open>
  The guarantees of the approval manager: each promise is settled exactly once or still has its timer,
  a one-time approval is granted once, a decision is final, and an abbreviated id is accepted only
  when it is unambiguous.
\<close>

section \<open>The invariant\<close>

definition unresolved :: "'p pending_entry \<Rightarrow> bool" where
  "unresolved e \<longleftrightarrow> resolvedAtMs (entry_record e) = None"

definition entry_ok ::
  "approval_timer set \<Rightarrow> (nat \<times> approval_decision option) list \<Rightarrow> nat list \<Rightarrow> string \<Rightarrow> 'p pending_entry \<Rightarrow> bool" where
  "entry_ok armed out used k e \<longleftrightarrow>
     approval_id (entry_record e) = k
     \<and> (if unresolved e
        then ExpireTimer (entry_promise e) k \<in> armed \<and> entry_promise e \<notin> fst ` set out
             \<and> entry_promise e \<notin> set used \<and> decision (entry_record e) = None
        else CleanupTimer (entry_promise e) k \<in> armed
             \<and> (if entry_promise e \<in> set used
                then decision (entry_record e) = None
                else (entry_promise e, decision (entry_record e)) \<in> set out))"

definition approval_inv :: "approval_timer set \<Rightarrow> 'p approvals \<Rightarrow> bool" where
  "approval_inv X s \<longleftrightarrow>
     distinct (js_keys (pending s)) \<and> distinct (timers s) \<and> distinct (map fst (settled s)) \<and> distinct (granted s)
     \<and> (\<forall>k e. js_get (pending s) k = Some e \<longrightarrow>
          entry_promise e < next_promise s \<and> entry_ok (X \<union> set (timers s)) (settled s) (granted s) k e)
     \<and> (\<forall>k e k' e'. js_get (pending s) k = Some e \<longrightarrow> js_get (pending s) k' = Some e'
          \<longrightarrow> entry_promise e = entry_promise e' \<longrightarrow> k = k')
     \<and> (\<forall>p k. ExpireTimer p k \<in> X \<union> set (timers s) \<longrightarrow>
          (\<exists>e. js_get (pending s) k = Some e \<and> entry_promise e = p \<and> unresolved e))
     \<and> (\<forall>p k. CleanupTimer p k \<in> X \<union> set (timers s) \<longrightarrow> p \<in> fst ` set (settled s))
     \<and> (\<forall>p \<in> fst ` set (settled s). p < next_promise s)
     \<and> (\<forall>p \<in> set (granted s). (p, Some AllowOnce) \<in> set (settled s))
     \<and> (\<forall>p < next_promise s. p \<in> fst ` set (settled s)
          \<or> (\<exists>k e. js_get (pending s) k = Some e \<and> entry_promise e = p \<and> unresolved e))"

lemma approval_invD:
  assumes "approval_inv X s"
  shows "distinct (js_keys (pending s))" "distinct (timers s)" "distinct (map fst (settled s))"
    "distinct (granted s)"
    "\<And>k e. js_get (pending s) k = Some e \<Longrightarrow> entry_promise e < next_promise s"
    "\<And>k e. js_get (pending s) k = Some e \<Longrightarrow> entry_ok (X \<union> set (timers s)) (settled s) (granted s) k e"
    "\<And>k e k' e'. js_get (pending s) k = Some e \<Longrightarrow> js_get (pending s) k' = Some e'
       \<Longrightarrow> entry_promise e = entry_promise e' \<Longrightarrow> k = k'"
    "\<And>p k. ExpireTimer p k \<in> X \<union> set (timers s) \<Longrightarrow>
       \<exists>e. js_get (pending s) k = Some e \<and> entry_promise e = p \<and> unresolved e"
    "\<And>p k. CleanupTimer p k \<in> X \<union> set (timers s) \<Longrightarrow> p \<in> fst ` set (settled s)"
    "\<And>p. p \<in> fst ` set (settled s) \<Longrightarrow> p < next_promise s"
    "\<And>p. p \<in> set (granted s) \<Longrightarrow> (p, Some AllowOnce) \<in> set (settled s)"
    "\<And>p. p < next_promise s \<Longrightarrow> p \<in> fst ` set (settled s)
       \<or> (\<exists>k e. js_get (pending s) k = Some e \<and> entry_promise e = p \<and> unresolved e)"
  using assms unfolding approval_inv_def by metis+

lemma approval_invI:
  assumes "distinct (js_keys (pending s))" "distinct (timers s)" "distinct (map fst (settled s))"
    "distinct (granted s)"
    "\<And>k e. js_get (pending s) k = Some e \<Longrightarrow> entry_promise e < next_promise s"
    "\<And>k e. js_get (pending s) k = Some e \<Longrightarrow> entry_ok (X \<union> set (timers s)) (settled s) (granted s) k e"
    "\<And>k e k' e'. js_get (pending s) k = Some e \<Longrightarrow> js_get (pending s) k' = Some e'
       \<Longrightarrow> entry_promise e = entry_promise e' \<Longrightarrow> k = k'"
    "\<And>p k. ExpireTimer p k \<in> X \<union> set (timers s) \<Longrightarrow>
       \<exists>e. js_get (pending s) k = Some e \<and> entry_promise e = p \<and> unresolved e"
    "\<And>p k. CleanupTimer p k \<in> X \<union> set (timers s) \<Longrightarrow> p \<in> fst ` set (settled s)"
    "\<And>p. p \<in> fst ` set (settled s) \<Longrightarrow> p < next_promise s"
    "\<And>p. p \<in> set (granted s) \<Longrightarrow> (p, Some AllowOnce) \<in> set (settled s)"
    "\<And>p. p < next_promise s \<Longrightarrow> p \<notin> fst ` set (settled s)
       \<Longrightarrow> \<exists>k e. js_get (pending s) k = Some e \<and> entry_promise e = p \<and> unresolved e"
  shows "approval_inv X s"
  using assms unfolding approval_inv_def by blast

lemma no_approvals_inv: "approval_inv {} no_approvals"
  by (simp add: approval_inv_def no_approvals_def)

lemma granted_settled: "approval_inv X s \<Longrightarrow> p \<in> set (granted s) \<Longrightarrow> p \<in> fst ` set (settled s)"
  using approval_invD(11) by force

lemma register_inv:
  assumes inv: "approval_inv {} s" and fresh: "resolvedAtMs r = None" "decision r = None"
  shows "approval_inv {} (snd (register r s))"
proof (cases "js_get (pending s) (approval_id r)")
  case (Some e)
  with inv show ?thesis by (simp add: register_def)
next
  case None
  note D = approval_invD [OF inv]
  let ?p = "next_promise s" and ?k = "approval_id r"
  let ?e = "\<lparr>entry_promise = ?p, entry_record = r\<rparr>" and ?s = "snd (register r s)"
  have s': "timers ?s = timers s @ [ExpireTimer ?p ?k]" "pending ?s = js_set ?k ?e (pending s)"
    "next_promise ?s = Suc ?p" "settled ?s = settled s" "granted ?s = granted s"
    using None by (simp_all add: register_def Let_def)
  have new: "?p \<notin> fst ` set (settled s)" "?p \<notin> set (granted s)"
    using D(10) granted_settled [OF inv] by blast+
  have un: "unresolved ?e" using fresh by (simp add: unresolved_def)
  have lt: "entry_promise e \<noteq> ?p" if "js_get (pending s) k = Some e" for k e
    using D(5) [OF that] by simp
  show ?thesis
  proof (rule approval_invI; unfold s')
    show "distinct (timers s @ [ExpireTimer ?p ?k])" using D(2,8) None by fastforce
  next
    fix k e assume "js_get (js_set ?k ?e (pending s)) k = Some e"
    then show "entry_promise e < Suc ?p" using D(5) less_SucI by (fastforce split: if_splits)
  next
    fix k e assume k: "js_get (js_set ?k ?e (pending s)) k = Some e"
    show "entry_ok ({} \<union> set (timers s @ [ExpireTimer ?p ?k])) (settled s) (granted s) k e"
    proof (cases "k = ?k")
      case True
      with k have "e = ?e" by simp
      with True fresh new un show ?thesis by (simp add: entry_ok_def)
    next
      case False
      with k D(6) [of k e] show ?thesis by (auto simp: entry_ok_def split: if_splits)
    qed
  next
    fix k e k' e' assume "js_get (js_set ?k ?e (pending s)) k = Some e"
      "js_get (js_set ?k ?e (pending s)) k' = Some e'" "entry_promise e = entry_promise e'"
    then show "k = k'" using D(7) [of k e k' e'] lt [of k e] lt [of k' e'] by (auto split: if_splits)
  next
    fix p k assume "ExpireTimer p k \<in> {} \<union> set (timers s @ [ExpireTimer ?p ?k])"
    then show "\<exists>e. js_get (js_set ?k ?e (pending s)) k = Some e \<and> entry_promise e = p \<and> unresolved e"
      using D(8) [of p k] None un by auto
  next
    fix p assume p: "p < Suc ?p" "p \<notin> fst ` set (settled s)"
    show "\<exists>k e. js_get (js_set ?k ?e (pending s)) k = Some e \<and> entry_promise e = p \<and> unresolved e"
    proof (cases "p = ?p")
      case True
      with un show ?thesis by (intro exI [of _ ?k] exI [of _ ?e]) simp
    next
      case False
      with p D(12) [of p] None show ?thesis by (auto simp: less_Suc_eq) (metis option.distinct(1))
    qed
  next
    show "distinct (js_keys (js_set ?k ?e (pending s)))" by (rule distinct_js_set [OF D(1)])
  next
    fix p k assume "CleanupTimer p k \<in> {} \<union> set (timers s @ [ExpireTimer ?p ?k])"
    then show "p \<in> fst ` set (settled s)" using D(9) [of p k] by simp
  next
    fix p assume "p \<in> fst ` set (settled s)"
    then show "p < Suc ?p" using D(10) less_SucI by blast
  qed (rule D; assumption)+
qed

text \<open>Settling an entry, also on behalf of a timer that has just left the list.\<close>

lemma conclude_inv:
  assumes inv: "approval_inv X s" and X: "X = {} \<or> (\<exists>p. X = {ExpireTimer p aid})"
  shows "approval_inv {} (snd (conclude now aid d w s))"
proof (cases "\<exists>e. js_get (pending s) aid = Some e \<and> unresolved e")
  case False
  note D = approval_invD [OF inv]
  have "X = {}"
  proof (rule ccontr)
    assume "X \<noteq> {}"
    with X obtain p where "ExpireTimer p aid \<in> X" by auto
    with D(8) [of p aid] False show False by blast
  qed
  with False inv show ?thesis
    by (auto simp: conclude_def unresolved_def split: option.split)
next
  case True
  then obtain e where e: "js_get (pending s) aid = Some e" "unresolved e" by blast
  note D = approval_invD [OF inv]
  let ?p = "entry_promise e"
  let ?r = "(entry_record e)\<lparr>resolvedAtMs := Some now, decision := d, resolvedBy := w\<rparr>"
  let ?e = "e\<lparr>entry_record := ?r\<rparr>" and ?s = "snd (conclude now aid d w s)"
  let ?ts = "filter (\<lambda>t. t \<noteq> ExpireTimer ?p aid) (timers s) @ [CleanupTimer ?p aid]"
  have idr: "approval_id (entry_record e) = aid" using D(6) [OF e(1)] by (simp add: entry_ok_def)
  have s': "timers ?s = ?ts" "pending ?s = js_set aid ?e (pending s)" "next_promise ?s = next_promise s"
    "settled ?s = settled s @ [(?p, d)]" "granted ?s = granted s"
    using e idr by (simp_all add: conclude_def unresolved_def Let_def)
  have fresh: "?p \<notin> fst ` set (settled s)" "?p \<notin> set (granted s)"
    using D(6) [OF e(1)] e(2) by (simp_all add: entry_ok_def)
  have res: "\<not> unresolved ?e" by (simp add: unresolved_def)
  have Xp: "X \<subseteq> {ExpireTimer ?p aid}" using X D(8) [of _ aid] e by fastforce
  have other: "k \<noteq> aid" if "js_get (pending s) k = Some e'" "entry_promise e' \<noteq> ?p" for k e'
    using that e(1) by auto
  show ?thesis
  proof (rule approval_invI; unfold s')
    show "distinct ?ts" using D(2) D(9) [of ?p aid] fresh(1) by auto
  next
    show "distinct (map fst (settled s @ [(?p, d)]))" using D(3) fresh(1) by auto
  next
    fix k e' assume k: "js_get (js_set aid ?e (pending s)) k = Some e'"
    show "entry_promise e' < next_promise s" using k D(5) [OF e(1)] D(5) [of k e'] by (auto split: if_splits)
    show "entry_ok ({} \<union> set ?ts) (settled s @ [(?p, d)]) (granted s) k e'"
    proof (cases "k = aid")
      case True
      with k have "e' = ?e" by simp
      with True res idr fresh(2) show ?thesis by (simp add: entry_ok_def)
    next
      case False
      with k have k': "js_get (pending s) k = Some e'" by simp
      with False D(7) [OF k' e(1)] have "entry_promise e' \<noteq> ?p" by blast
      with False D(6) [OF k'] Xp show ?thesis by (auto simp: entry_ok_def split: if_splits)
    qed
  next
    fix k e1 k' e2 assume "js_get (js_set aid ?e (pending s)) k = Some e1"
      "js_get (js_set aid ?e (pending s)) k' = Some e2" "entry_promise e1 = entry_promise e2"
    moreover have "\<exists>x'. js_get (pending s) y = Some x' \<and> entry_promise x' = entry_promise x"
      if "js_get (js_set aid ?e (pending s)) y = Some x" for y x
      using that e(1) by (cases "y = aid") auto
    ultimately show "k = k'" using D(7) by metis
  next
    fix p k assume t: "ExpireTimer p k \<in> {} \<union> set ?ts"
    then have "ExpireTimer p k \<noteq> ExpireTimer ?p aid" "ExpireTimer p k \<in> X \<union> set (timers s)" by auto
    moreover from this(2) obtain e' where "js_get (pending s) k = Some e'" "entry_promise e' = p" "unresolved e'"
      using D(8) by blast
    ultimately show "\<exists>e. js_get (js_set aid ?e (pending s)) k = Some e \<and> entry_promise e = p \<and> unresolved e"
      using e(1) by auto
  next
    fix p k assume "CleanupTimer p k \<in> {} \<union> set ?ts"
    then show "p \<in> fst ` set (settled s @ [(?p, d)])" using D(9) [of p k] by auto
  next
    fix p assume "p \<in> fst ` set (settled s @ [(?p, d)])"
    then show "p < next_promise s" using D(10) D(5) [OF e(1)] by auto
  next
    fix p assume p: "p < next_promise s" "p \<notin> fst ` set (settled s @ [(?p, d)])"
    then have "p \<notin> fst ` set (settled s)" "p \<noteq> ?p" by auto
    with D(12) [OF p(1)] obtain k e' where "js_get (pending s) k = Some e'" "entry_promise e' = p" "unresolved e'" by blast
    with \<open>p \<noteq> ?p\<close> other [of k e'] show "\<exists>k e. js_get (js_set aid ?e (pending s)) k = Some e \<and> entry_promise e = p \<and> unresolved e"
      by (intro exI [of _ k] exI [of _ e']) auto
  next
    show "distinct (js_keys (js_set aid ?e (pending s)))" by (rule distinct_js_set [OF D(1)])
  next
    fix p assume "p \<in> set (granted s)"
    then show "(p, Some AllowOnce) \<in> set (settled s @ [(?p, d)])" using D(11) by simp
  qed (rule D)
qed

lemma consume_inv:
  assumes inv: "approval_inv {} s"
  shows "approval_inv {} (snd (consumeAllowOnce aid s))"
proof (cases "\<exists>e. js_get (pending s) aid = Some e \<and> decision (entry_record e) = Some AllowOnce")
  case False
  with inv show ?thesis by (auto simp: consumeAllowOnce_def split: option.split)
next
  case True
  then obtain e where e: "js_get (pending s) aid = Some e" "decision (entry_record e) = Some AllowOnce" by blast
  note D = approval_invD [OF inv]
  let ?p = "entry_promise e"
  let ?r = "(entry_record e)\<lparr>consumedDecision := decision (entry_record e), decision := None\<rparr>"
  let ?e = "e\<lparr>entry_record := ?r\<rparr>" and ?s = "snd (consumeAllowOnce aid s)"
  have s': "timers ?s = timers s" "pending ?s = js_set aid ?e (pending s)" "next_promise ?s = next_promise s"
    "settled ?s = settled s" "granted ?s = granted s @ [?p]"
    using e by (simp_all add: consumeAllowOnce_def)
  have old: "\<not> unresolved e" "?p \<notin> set (granted s)" "(?p, Some AllowOnce) \<in> set (settled s)"
    "CleanupTimer ?p aid \<in> set (timers s)" "approval_id (entry_record e) = aid"
    using D(6) [OF e(1)] e(2) by (auto simp: entry_ok_def split: if_splits)
  have un: "unresolved ?e = unresolved e" by (simp add: unresolved_def)
  have keep: "\<exists>x'. js_get (pending s) y = Some x' \<and> entry_promise x' = entry_promise x \<and> unresolved x' = unresolved x"
    if "js_get (js_set aid ?e (pending s)) y = Some x" for y x
    using that e(1) un by (cases "y = aid") auto
  have forth: "\<exists>x. js_get (js_set aid ?e (pending s)) y = Some x \<and> entry_promise x = p \<and> unresolved x"
    if "js_get (pending s) y = Some x'" "entry_promise x' = p" "unresolved x'" for y x' p
    using that e(1) old(1) by (cases "y = aid") auto
  show ?thesis
  proof (rule approval_invI; unfold s')
    show "distinct (js_keys (js_set aid ?e (pending s)))" by (rule distinct_js_set [OF D(1)])
  next
    show "distinct (granted s @ [?p])" using D(4) old(2) by simp
  next
    fix k e' assume k: "js_get (js_set aid ?e (pending s)) k = Some e'"
    with keep D(5) show "entry_promise e' < next_promise s" by metis
    show "entry_ok ({} \<union> set (timers s)) (settled s) (granted s @ [?p]) k e'"
    proof (cases "k = aid")
      case True
      with k have "e' = ?e" by simp
      with True old un show ?thesis by (simp add: entry_ok_def)
    next
      case False
      with k have k': "js_get (pending s) k = Some e'" by simp
      with False D(7) [OF k' e(1)] have "entry_promise e' \<noteq> ?p" by blast
      with D(6) [OF k'] show ?thesis by (simp add: entry_ok_def)
    qed
  next
    fix k e1 k' e2 assume "js_get (js_set aid ?e (pending s)) k = Some e1"
      "js_get (js_set aid ?e (pending s)) k' = Some e2" "entry_promise e1 = entry_promise e2"
    with keep D(7) show "k = k'" by metis
  next
    fix p k assume "ExpireTimer p k \<in> {} \<union> set (timers s)"
    with D(8) [of p k] forth show "\<exists>e. js_get (js_set aid ?e (pending s)) k = Some e \<and> entry_promise e = p \<and> unresolved e"
      by blast
  next
    fix p assume "p \<in> set (granted s @ [?p])"
    then show "(p, Some AllowOnce) \<in> set (settled s)" using D(11) old(3) by auto
  next
    fix p assume "p < next_promise s" "p \<notin> fst ` set (settled s)"
    with D(12) forth show "\<exists>k e. js_get (js_set aid ?e (pending s)) k = Some e \<and> entry_promise e = p \<and> unresolved e"
      by blast
  qed (rule D; assumption)+
qed

lemma cleanup_inv:
  assumes inv: "approval_inv {CleanupTimer p aid} s" and gone: "CleanupTimer p aid \<notin> set (timers s)"
  shows "approval_inv {} (cleanup_entry p aid s)"
proof -
  note D = approval_invD [OF inv]
  have p: "p \<in> fst ` set (settled s)" using D(9) [of p aid] by simp
  show ?thesis
  proof (cases "\<exists>e. js_get (pending s) aid = Some e \<and> entry_promise e = p")
    case True
    then obtain e where e: "js_get (pending s) aid = Some e" "entry_promise e = p" by blast
    have res: "\<not> unresolved e" using D(6) [OF e(1)] p e(2) by (auto simp: entry_ok_def split: if_splits)
    let ?s = "cleanup_entry p aid s"
    have s': "timers ?s = timers s" "pending ?s = js_delete aid (pending s)" "next_promise ?s = next_promise s"
      "settled ?s = settled s" "granted ?s = granted s"
      using e by (simp_all add: cleanup_entry_def)
    show ?thesis
    proof (rule approval_invI; unfold s')
      show "distinct (js_keys (js_delete aid (pending s)))" by (rule distinct_js_delete [OF D(1)])
    next
      fix k e' assume "js_get (js_delete aid (pending s)) k = Some e'"
      then have k: "k \<noteq> aid" "js_get (pending s) k = Some e'" by (auto split: if_splits)
      show "entry_promise e' < next_promise s" by (rule D(5) [OF k(2)])
      from k D(6) [OF k(2)] show "entry_ok ({} \<union> set (timers s)) (settled s) (granted s) k e'"
        by (auto simp: entry_ok_def split: if_splits)
    next
      fix k e1 k' e2 assume "js_get (js_delete aid (pending s)) k = Some e1"
        "js_get (js_delete aid (pending s)) k' = Some e2" "entry_promise e1 = entry_promise e2"
      then show "k = k'" using D(7) [of k e1 k' e2] by (auto split: if_splits)
    next
      fix q k assume "ExpireTimer q k \<in> {} \<union> set (timers s)"
      with D(8) [of q k] res e(1)
      show "\<exists>e. js_get (js_delete aid (pending s)) k = Some e \<and> entry_promise e = q \<and> unresolved e" by auto
    next
      fix q k assume "CleanupTimer q k \<in> {} \<union> set (timers s)"
      then show "q \<in> fst ` set (settled s)" using D(9) [of q k] by simp
    next
      fix q assume "q < next_promise s" "q \<notin> fst ` set (settled s)"
      with D(12) [of q] obtain k e' where "js_get (pending s) k = Some e'" "entry_promise e' = q" "unresolved e'"
        by blast
      moreover from this res e(1) have "k \<noteq> aid" by auto
      ultimately show "\<exists>k e. js_get (js_delete aid (pending s)) k = Some e \<and> entry_promise e = q \<and> unresolved e"
        by (intro exI [of _ k] exI [of _ e']) simp
    qed (rule D; assumption)+
  next
    case False
    then have same: "cleanup_entry p aid s = s" by (auto simp: cleanup_entry_def split: option.split)
    show ?thesis
      unfolding same
    proof (rule approval_invI)
      fix k e assume k: "js_get (pending s) k = Some e"
      have "CleanupTimer (entry_promise e) k \<noteq> CleanupTimer p aid" using k False by auto
      with D(6) [OF k] show "entry_ok ({} \<union> set (timers s)) (settled s) (granted s) k e"
        by (auto simp: entry_ok_def split: if_splits)
    next
      fix q k assume "ExpireTimer q k \<in> {} \<union> set (timers s)"
      then show "\<exists>e. js_get (pending s) k = Some e \<and> entry_promise e = q \<and> unresolved e" using D(8) [of q k] by simp
    next
      fix q k assume "CleanupTimer q k \<in> {} \<union> set (timers s)"
      then show "q \<in> fst ` set (settled s)" using D(9) [of q k] by simp
    next
      fix q assume "q < next_promise s" "q \<notin> fst ` set (settled s)"
      then show "\<exists>k e. js_get (pending s) k = Some e \<and> entry_promise e = q \<and> unresolved e" using D(12) [of q] by blast
    qed (rule D; assumption)+
  qed
qed

lemma drop_timer_inv:
  assumes inv: "approval_inv {} s" and i: "i < length (timers s)"
  shows "approval_inv {timers s ! i} (s\<lparr>timers := take i (timers s) @ drop (Suc i) (timers s)\<rparr>)"
    and "timers s ! i \<notin> set (take i (timers s) @ drop (Suc i) (timers s))"
proof -
  note D = approval_invD [OF inv]
  have split: "timers s = take i (timers s) @ timers s ! i # drop (Suc i) (timers s)"
    by (rule id_take_nth_drop [OF i])
  then have set: "{timers s ! i} \<union> set (take i (timers s) @ drop (Suc i) (timers s)) = {} \<union> set (timers s)"
    by (metis Un_empty_left Un_insert_right insert_is_Un list.simps(15) set_append)
  have dist: "distinct (take i (timers s) @ timers s ! i # drop (Suc i) (timers s))" using D(2) split by simp
  then show "timers s ! i \<notin> set (take i (timers s) @ drop (Suc i) (timers s))" by auto
  let ?s = "s\<lparr>timers := take i (timers s) @ drop (Suc i) (timers s)\<rparr>"
  have s': "timers ?s = take i (timers s) @ drop (Suc i) (timers s)" "pending ?s = pending s"
    "next_promise ?s = next_promise s" "settled ?s = settled s" "granted ?s = granted s" by simp_all
  show "approval_inv {timers s ! i} ?s"
  proof (rule approval_invI; unfold s' set)
    show "distinct (take i (timers s) @ drop (Suc i) (timers s))" using dist by auto
  next
    fix q assume "q < next_promise s" "q \<notin> fst ` set (settled s)"
    then show "\<exists>k e. js_get (pending s) k = Some e \<and> entry_promise e = q \<and> unresolved e" using D(12) [of q] by blast
  qed (rule D; assumption)+
qed

lemma fire_timer_inv: "approval_inv {} s \<Longrightarrow> approval_inv {} (fire_timer now i s)"
proof (cases "i < length (timers s)")
  case True
  assume inv: "approval_inv {} s"
  note dropped = drop_timer_inv [OF inv True]
  show ?thesis
  proof (cases "timers s ! i")
    case (ExpireTimer p aid)
    with dropped True show ?thesis
      by (auto simp: fire_timer_def Let_def expire_def intro: conclude_inv)
  next
    case (CleanupTimer p aid)
    with dropped True show ?thesis
      by (auto simp: fire_timer_def Let_def intro!: cleanup_inv)
  qed
qed (simp add: fire_timer_def)

lemma created_fields: "create now uuid req t aid = Inr r \<Longrightarrow> resolvedAtMs r = None \<and> decision r = None"
  by (auto simp: create_def split: option.splits)

interpretation approval_machine: invariant_machine approval_step "approval_inv {}"
proof
  fix s :: "'a approvals" and e
  assume inv: "approval_inv {} s"
  show "approval_inv {} (approval_step e s)"
  proof (cases e)
    case (Submit now uuid req t aid)
    with inv show ?thesis
      by (auto simp: created_fields intro!: register_inv split: sum.split)
  qed (use inv in \<open>simp_all add: resolve_def expire_def conclude_inv consume_inv fire_timer_inv\<close>)
qed

lemma run_approvals_inv: "approval_inv {} (run_approvals es)"
  unfolding run_approvals_def by (rule approval_machine.run_inv [OF no_approvals_inv])

section \<open>Histories only grow\<close>

definition approval_guar :: "'p approvals \<Rightarrow> 'p approvals \<Rightarrow> bool" where
  "approval_guar s s' \<longleftrightarrow> prefix (settled s) (settled s') \<and> prefix (granted s) (granted s')
     \<and> next_promise s \<le> next_promise s'"

lemma conclude_guar: "approval_guar s (snd (conclude now aid d w s))"
  by (auto simp: approval_guar_def conclude_def Let_def split: option.split)

lemma cleanup_guar: "approval_guar s (cleanup_entry p aid s)"
  by (simp add: approval_guar_def cleanup_entry_def split: option.split)

lemma guar_drop_timer: "approval_guar (s\<lparr>timers := ts\<rparr>) s' = approval_guar s s'"
  by (simp add: approval_guar_def)

lemma fire_timer_guar: "approval_guar s (fire_timer now i s)"
proof (cases "i < length (timers s)")
  case True
  let ?s = "s\<lparr>timers := take i (timers s) @ drop (Suc i) (timers s)\<rparr>"
  show ?thesis
  proof (cases "timers s ! i")
    case (ExpireTimer p aid)
    with True conclude_guar [of ?s now aid None None] show ?thesis
      by (simp add: fire_timer_def Let_def expire_def guar_drop_timer)
  next
    case (CleanupTimer p aid)
    with True cleanup_guar [of ?s p aid] show ?thesis by (simp add: fire_timer_def Let_def guar_drop_timer)
  qed
qed (simp add: fire_timer_def approval_guar_def)

interpretation approval_history: guaranteed_machine approval_step "approval_inv {}" approval_guar
proof
  fix s :: "'a approvals" and e
  show "approval_guar s (approval_step e s)"
  proof (cases e)
    case (Submit now uuid req t aid)
    then show ?thesis
      by (auto simp: approval_guar_def register_def Let_def split: sum.split option.split)
  next
    case (Consume aid)
    then show ?thesis by (auto simp: approval_guar_def consumeAllowOnce_def split: option.split)
  qed (simp_all add: resolve_def expire_def conclude_guar fire_timer_guar)
qed (auto simp: approval_guar_def)

lemma run_approvals_append: "run_approvals (es @ es') = fold approval_step es' (run_approvals es)"
  by (simp add: run_approvals_def)

lemmas reachable_approvals = run_approvals_inv [THEN approval_invD(1)] run_approvals_inv [THEN approval_invD(3)]
  run_approvals_inv [THEN approval_invD(4)] run_approvals_inv [THEN approval_invD(11)]

lemma run_from_reachable: "approval_inv {} (fold approval_step es (run_approvals es'))"
  by (rule approval_machine.run_inv [OF run_approvals_inv])

section \<open>Firing the timers in order\<close>

definition is_expire :: "approval_timer \<Rightarrow> bool" where
  "is_expire t = (case t of ExpireTimer _ _ \<Rightarrow> True | CleanupTimer _ _ \<Rightarrow> False)"

lemma is_expire_simps [simp]: "is_expire (ExpireTimer p k)" "\<not> is_expire (CleanupTimer p k)"
  by (simp_all add: is_expire_def)

lemma fire_head:
  assumes inv: "approval_inv {} s" and ts: "timers s = t # ts"
  shows "\<exists>cs. timers (fire_timer now 0 s) = ts @ cs \<and> list_all (\<lambda>c. \<not> is_expire c) cs
           \<and> (is_expire t \<or> cs = []) \<and> next_promise (fire_timer now 0 s) = next_promise s"
proof (cases t)
  case (ExpireTimer p aid)
  note D = approval_invD [OF inv]
  obtain e where e: "js_get (pending s) aid = Some e" "entry_promise e = p" "unresolved e"
    using D(8) [of p aid] ts ExpireTimer by auto
  have idr: "approval_id (entry_record e) = aid" using D(6) [OF e(1)] by (simp add: entry_ok_def)
  have "filter (\<lambda>u. u \<noteq> ExpireTimer p aid) ts = ts"
    using D(2) ts ExpireTimer by (auto simp: filter_id_conv)
  with e idr ts ExpireTimer show ?thesis
    by (simp add: fire_timer_def expire_def conclude_def Let_def unresolved_def)
next
  case (CleanupTimer p aid)
  with ts show ?thesis by (simp add: fire_timer_def cleanup_entry_def Let_def split: option.split)
qed

lemma fire_heads:
  assumes "approval_inv {} s" and "timers s = ts @ rest" and "list_all (\<lambda>c. \<not> is_expire c) rest"
  shows "\<exists>cs. timers (fold approval_step (replicate (length ts) (FireTimer now 0)) s) = rest @ cs
           \<and> list_all (\<lambda>c. \<not> is_expire c) cs
           \<and> (list_all (\<lambda>c. \<not> is_expire c) ts \<longrightarrow> cs = [])
           \<and> next_promise (fold approval_step (replicate (length ts) (FireTimer now 0)) s) = next_promise s"
  using assms
proof (induction ts arbitrary: s rest)
  case (Cons t ts)
  let ?s = "fire_timer now 0 s"
  obtain cs where cs: "timers ?s = (ts @ rest) @ cs" "list_all (\<lambda>c. \<not> is_expire c) cs"
    "is_expire t \<or> cs = []" "next_promise ?s = next_promise s"
    using fire_head [OF Cons.prems(1), of t "ts @ rest" now] Cons.prems(2) by auto
  have "timers ?s = ts @ (rest @ cs)" "list_all (\<lambda>c. \<not> is_expire c) (rest @ cs)"
    using cs Cons.prems(3) by auto
  from Cons.IH [OF fire_timer_inv [OF Cons.prems(1)] this] cs show ?case by auto
qed simp

lemma all_settled:
  assumes inv: "approval_inv {} s" and "list_all (\<lambda>c. \<not> is_expire c) (timers s)"
  shows "fst ` set (settled s) = {..<next_promise s}"
proof -
  note D = approval_invD [OF inv]
  have "\<not> unresolved e" if "js_get (pending s) k = Some e" for k e
    using D(6) [OF that] assms(2) by (force simp: entry_ok_def list_all_iff split: if_splits)
  with D(10,12) show ?thesis by fastforce
qed

lemma no_timer_no_entry:
  assumes inv: "approval_inv {} s" and "timers s = []"
  shows "pending s = []"
proof (rule ccontr)
  assume "pending s \<noteq> []"
  then have "js_get (pending s) (fst (hd (pending s))) = Some (snd (hd (pending s)))"
    by (cases "pending s") auto
  from approval_invD(6) [OF inv this] assms(2) show False by (simp add: entry_ok_def split: if_splits)
qed

lemma create_at_1000:
  "create 1000 uuid req (Num 60000) aid =
     Inr \<lparr>approval_id = (let t = js_trim (or_default aid []) in if t = [] then uuid else t),
          request = req, createdAtMs = 1000, expiresAtMs = Num 61000, resolvedAtMs = None,
          decision = None, consumedDecision = None, resolvedBy = None\<rparr>"
proof -
  have t: "resolveApprovalTimeoutMs (Num 60000) = Num 60000"
    by (simp add: resolveApprovalTimeoutMs_def resolveTimerTimeoutMs_def asFiniteNumber_def
        MAX_TIMER_TIMEOUT_MS_def Let_def)
  have "js_of_exact 61000 = Num 61000" by (rule js_of_exact_small) simp
  then show ?thesis
    by (simp add: t create_def resolveExpiresAtMsFromDurationMs_def no_expiry_opts_def asPositiveSafeInteger_def
        MAX_SAFE_INTEGER_def asDateTimestampMs_def asFiniteNumberInRange_def MAX_DATE_TIMESTAMP_MS_def
        js_sub_def date_valid_Num)
qed

text \<open>A store with one waiting request, used by the examples.\<close>

lemma one_submitted:
  "run_approvals [Submit 1000 u req (Num 60000) (Some ''Ab1'')] =
     \<lparr>pending = [(''Ab1'', \<lparr>entry_promise = 0, entry_record =
          \<lparr>approval_id = ''Ab1'', request = req, createdAtMs = 1000, expiresAtMs = Num 61000,
           resolvedAtMs = None, decision = None, consumedDecision = None, resolvedBy = None\<rparr>\<rparr>)],
      timers = [ExpireTimer 0 ''Ab1''], next_promise = 1, settled = [], granted = []\<rparr>"
proof -
  have "js_trim ''Ab1'' = ''Ab1''" by code_simp
  then show ?thesis by (simp add: run_approvals_def create_at_1000 no_approvals_def register_def Let_def)
qed

section \<open>The properties\<close>

definition waiting :: "'p approvals \<Rightarrow> nat \<Rightarrow> bool" where
  "waiting s p = list_ex (\<lambda>(k, e). entry_promise e = p \<and> resolvedAtMs (entry_record e) = None
                             \<and> ExpireTimer p k \<in> set (timers s)) (pending s)"

lemma waiting_iff:
  assumes inv: "approval_inv {} s"
  shows "waiting s p \<longleftrightarrow> (\<exists>k e. js_get (pending s) k = Some e \<and> entry_promise e = p \<and> unresolved e)"
proof -
  note D = approval_invD [OF inv]
  have "(k, e) \<in> set (pending s) \<longleftrightarrow> js_get (pending s) k = Some e" for k e
    using map_of_eq_Some_iff [OF D(1)] by simp
  with D(6) show ?thesis
    by (fastforce simp: waiting_def list_ex_iff entry_ok_def unresolved_def split: if_splits)
qed

text \<open>C28.  Whatever requests, decisions, expiries, consumptions and timers come in whatever order, every
  promise the manager ever handed out is in exactly one of two states: settled, and then settled once,
  or waiting, and then its unresolved entry is in the store under an armed expiry timer.  No caller is
  left with a promise nothing will settle.\<close>

theorem approval_promises_settle_once:
  "distinct (map fst (settled (run_approvals es)))
     \<and> (\<forall>p. (p < next_promise (run_approvals es))
            = (p \<in> fst ` set (settled (run_approvals es)) \<or> waiting (run_approvals es) p))
     \<and> (\<forall>p. \<not> (p \<in> fst ` set (settled (run_approvals es)) \<and> waiting (run_approvals es) p))"
proof -
  let ?s = "run_approvals es"
  note D = approval_invD [OF run_approvals_inv [of es]]
  note w = waiting_iff [OF run_approvals_inv [of es]]
  have excl: "\<not> (p \<in> fst ` set (settled ?s) \<and> waiting ?s p)" for p
    using D(6) by (force simp: w entry_ok_def)
  have "(p < next_promise ?s) = (p \<in> fst ` set (settled ?s) \<or> waiting ?s p)" for p
    unfolding w
  proof
    assume "p \<in> fst ` set (settled ?s) \<or> (\<exists>k e. js_get (pending ?s) k = Some e \<and> entry_promise e = p \<and> unresolved e)"
    with D(5,10) show "p < next_promise ?s" by blast
  qed (rule D(12))
  with D(3) excl show ?thesis by (intro conjI allI)
qed

text \<open>Left to its timers the manager drains.  Firing the armed timers in order settles every promise,
  and firing the cleanup timers this leaves empties the store: no entry outlives its timers.\<close>

theorem approvals_drain:
  "fst ` set (settled (run_approvals (es @ replicate (length (timers (run_approvals es))) (FireTimer now 0))))
       = {..<next_promise (run_approvals es)}
   \<and> (let es' = es @ replicate (length (timers (run_approvals es))) (FireTimer now 0)
      in pending (run_approvals (es' @ replicate (length (timers (run_approvals es'))) (FireTimer later 0))) = [])"
proof -
  let ?s = "run_approvals es"
  define es' where "es' = es @ replicate (length (timers ?s)) (FireTimer now 0)"
  let ?s' = "run_approvals es'"
  let ?s'' = "run_approvals (es' @ replicate (length (timers ?s')) (FireTimer later 0))"
  have s': "list_all (\<lambda>c. \<not> is_expire c) (timers ?s')" "next_promise ?s' = next_promise ?s"
    using fire_heads [OF run_approvals_inv, of es "timers ?s" "[]" now]
    by (auto simp: es'_def run_approvals_append)
  have "timers ?s'' = []"
    using fire_heads [OF run_approvals_inv, of es' "timers ?s'" "[]" later] s'(1)
    by (auto simp: run_approvals_append)
  then have "pending ?s'' = []" by (rule no_timer_no_entry [OF run_approvals_inv])
  moreover have "fst ` set (settled ?s') = {..<next_promise ?s}"
    using all_settled [OF run_approvals_inv s'(1)] s'(2) by simp
  ultimately show ?thesis by (simp add: es'_def Let_def)
qed

text \<open>C29.  A one-time approval authorizes one run.  In any history, no promise is granted a second time,
  and every grant belongs to a promise that was settled with allow-once: an allow-always or deny
  decision, an expiry and an undecided request never let \<^verbatim>\<open>consumeAllowOnce\<close> succeed.\<close>

theorem one_time_approvals_are_used_once:
  "distinct (granted (run_approvals es))
   \<and> (\<lambda>p. (p, Some AllowOnce)) ` set (granted (run_approvals es)) \<subseteq> set (settled (run_approvals es))"
  using reachable_approvals(3) [of es] reachable_approvals(4) by blast

text \<open>C40.  The first decision is final.  Once \<^verbatim>\<open>resolve\<close> decides a waiting request, the promise of that
  request carries this decision and no other, whatever later decides, expires, consumes, re-registers
  the same id or fires.\<close>

theorem first_decision_wins:
  assumes "js_get (pending (run_approvals es)) aid = Some e" and "resolvedAtMs (entry_record e) = None"
  shows "(entry_promise e, d') \<in> set (settled (run_approvals (es @ Resolve now aid d w # later)))
           \<longleftrightarrow> d' = Some d"
proof -
  let ?s = "run_approvals es"
  let ?s1 = "snd (resolve now aid d w ?s)" and ?s2 = "run_approvals (es @ Resolve now aid d w # later)"
  have s1: "approval_inv {} ?s1" using conclude_inv [OF run_approvals_inv] by (simp add: resolve_def)
  have s2: "?s2 = fold approval_step later ?s1" by (simp add: run_approvals_append)
  have "(entry_promise e, Some d) \<in> set (settled ?s1)"
    using assms by (simp add: resolve_def conclude_def Let_def)
  moreover have "prefix (settled ?s1) (settled ?s2)"
    using approval_history.run_guar [OF s1, of later] s2 by (simp add: approval_guar_def)
  ultimately have "(entry_promise e, Some d) \<in> set (settled ?s2)" by (auto simp: prefix_def)
  with reachable_approvals(2) [of "es @ Resolve now aid d w # later"] show ?thesis
    by (auto dest: eq_key_imp_eq_value)
qed

lemma first_decision_wins_witness:
  "(0, Some AllowOnce) \<in> set (settled (run_approvals
      ([Submit 1000 ''u'' () (Num 60000) (Some ''Ab1'')] @ Resolve 2000 ''Ab1'' Deny None
         # [Resolve 3000 ''Ab1'' AllowOnce None, Consume ''Ab1'', FireTimer 4000 0])))
     = False"
  using first_decision_wins [where es = "[Submit 1000 ''u'' () (Num 60000) (Some ''Ab1'')]" and aid = "''Ab1''"
      and d' = "Some AllowOnce"
      and e = "\<lparr>entry_promise = 0, entry_record = \<lparr>approval_id = ''Ab1'', request = (), createdAtMs = 1000,
        expiresAtMs = Num 61000, resolvedAtMs = None, decision = None, consumedDecision = None, resolvedBy = None\<rparr>\<rparr>"
      and now = 2000 and d = Deny and w = None
      and later = "[Resolve 3000 ''Ab1'' AllowOnce None, Consume ''Ab1'', FireTimer 4000 0]"]
  by (simp add: one_submitted)

text \<open>An abbreviated approval id never picks between two requests.  When the lookup accepts an id as a
  prefix, there is no request under the full text typed, and the answer is the only visible request
  whose id starts, ignoring case, with it.\<close>

theorem abbreviated_id_is_unambiguous:
  assumes "lookupApprovalId includeResolved ok inp (run_approvals es) = LookupPrefix k"
  shows "{k'. \<exists>e. js_get (pending (run_approvals es)) k' = Some e \<and> lookup_visible includeResolved ok e
              \<and> starts_with (normalizeLowercaseStringOrEmpty (Some k'))
                  (normalizeLowercaseStringOrEmpty (Some (js_trim inp)))} = {k}
         \<and> js_get (pending (run_approvals es)) (js_trim inp) = None"
proof -
  let ?m = "pending (run_approvals es)"
  let ?pre = "normalizeLowercaseStringOrEmpty (Some (js_trim inp))"
  have one: "lookup_matches includeResolved ok ?pre ?m = [k]" "js_get ?m (js_trim inp) = None"
    using assms by (auto simp: lookupApprovalId_def Let_def split: if_splits option.splits list.splits)
  have mem: "(k', e) \<in> set ?m \<longleftrightarrow> js_get ?m k' = Some e" for k' e
    using map_of_eq_Some_iff [OF reachable_approvals(1) [of es]] by simp
  have "{k'. \<exists>e. js_get ?m k' = Some e \<and> lookup_visible includeResolved ok e
              \<and> starts_with (normalizeLowercaseStringOrEmpty (Some k')) ?pre}
          = set (lookup_matches includeResolved ok ?pre ?m)"
    by (force simp: lookup_matches_def mem [symmetric])
  with one show ?thesis by simp
qed

lemma abbreviated_id_is_unambiguous_witness:
  "{k'. \<exists>e. js_get (pending (run_approvals [Submit 1000 ''u'' () (Num 60000) (Some ''Ab1'')])) k' = Some e
        \<and> lookup_visible False (\<lambda>_. True) e
        \<and> starts_with (normalizeLowercaseStringOrEmpty (Some k'))
            (normalizeLowercaseStringOrEmpty (Some (js_trim ''aB'')))} = {''Ab1''}
   \<and> js_get (pending (run_approvals [Submit 1000 ''u'' () (Num 60000) (Some ''Ab1'')])) (js_trim ''aB'') = None"
proof (rule abbreviated_id_is_unambiguous)
  have "js_trim ''aB'' = ''aB''" "normalizeLowercaseStringOrEmpty (Some ''aB'') = ''ab''"
    "normalizeLowercaseStringOrEmpty (Some ''Ab1'') = ''ab1''" by code_simp+
  then show "lookupApprovalId False (\<lambda>_. True) ''aB''
      (run_approvals [Submit 1000 ''u'' () (Num 60000) (Some ''Ab1'')]) = LookupPrefix ''Ab1''"
    by (simp add: one_submitted lookupApprovalId_def lookup_matches_def lookup_visible_def Let_def starts_with_def)
qed

end
