(* ===== verification/EnvSubst.thy ===== *)
theory EnvSubst
  imports NumberCoercion
begin

text \<open>
  Environment references in configuration values, \<^verbatim>\<open>config/env-substitution.ts\<close>, and the references to
  secrets of \<^verbatim>\<open>config/types.secrets.ts\<close>.  The index the code moves through a string is the suffix still
  to read.
\<close>

section \<open>Tokens\<close>

definition is_upper :: "char \<Rightarrow> bool" where
  "is_upper c \<longleftrightarrow> (let n = (of_char c :: nat) in 65 \<le> n \<and> n \<le> 90)"

definition is_name_char :: "char \<Rightarrow> bool" where
  "is_name_char c \<longleftrightarrow> is_upper c \<or> c = CHR ''_'' \<or> (let n = (of_char c :: nat) in 48 \<le> n \<and> n \<le> 57)"

definition env_var_name :: "string \<Rightarrow> bool" where
  "env_var_name s \<longleftrightarrow> s \<noteq> [] \<and> (is_upper (hd s) \<or> hd s = CHR ''_'') \<and> list_all is_name_char (tl s)"

text \<open>The text up to the next closing brace when that is a variable name, and what follows the brace.\<close>

definition braced_name :: "string \<Rightarrow> (string \<times> string) option" where
  "braced_name s =
     (let name = takeWhile (\<lambda>c. c \<noteq> CHR ''}'') s
      in if length name < length s \<and> env_var_name name then Some (name, drop (Suc (length name)) s) else None)"

datatype env_token = Escaped string string | Substitution string string

definition parseEnvTokenAt :: "string \<Rightarrow> env_token option" where
  "parseEnvTokenAt s =
     (if starts_with s ''$${'' \<and> braced_name (drop 3 s) \<noteq> None
      then map_option (\<lambda>(name, rest). Escaped name rest) (braced_name (drop 3 s))
      else if starts_with s ''${'' then map_option (\<lambda>(name, rest). Substitution name rest) (braced_name (drop 2 s))
      else None)"

lemma braced_name_shorter: "braced_name s = Some (name, rest) \<Longrightarrow> length rest < length s"
  by (auto simp: braced_name_def Let_def split: if_splits)

lemma token_shorter:
  "parseEnvTokenAt s = Some (Escaped name rest) \<Longrightarrow> length rest < length s"
  "parseEnvTokenAt s = Some (Substitution name rest) \<Longrightarrow> length rest < length s"
  by (auto simp: parseEnvTokenAt_def dest!: braced_name_shorter split: if_splits)

section \<open>Substitution\<close>

datatype env_error = MissingEnvVar string string

record env_warning =
  warn_varName :: string
  warn_configPath :: string

definition prepend :: "string \<Rightarrow> env_error + (string \<times> env_warning list) \<Rightarrow> env_error + (string \<times> env_warning list)" where
  "prepend chunk r = result_bind r (\<lambda>(s, ws). Inr (chunk @ s, ws))"

definition warn :: "env_warning \<Rightarrow> env_error + (string \<times> env_warning list) \<Rightarrow> env_error + (string \<times> env_warning list)" where
  "warn w r = result_bind r (\<lambda>(s, ws). Inr (s, w # ws))"

function substitute_from ::
  "(string \<Rightarrow> string option) \<Rightarrow> bool \<Rightarrow> string \<Rightarrow> string \<Rightarrow> env_error + (string \<times> env_warning list)" where
  "substitute_from env onMissing path s =
     (case s of
        [] \<Rightarrow> Inr ([], [])
      | c # cs \<Rightarrow>
          if c \<noteq> CHR ''$'' then prepend [c] (substitute_from env onMissing path cs)
          else
            (case parseEnvTokenAt s of
               Some (Escaped name rest) \<Rightarrow> prepend (''${'' @ name @ ''}'') (substitute_from env onMissing path rest)
             | Some (Substitution name rest) \<Rightarrow>
                 (case env name of
                    Some (v # vs) \<Rightarrow> prepend (v # vs) (substitute_from env onMissing path rest)
                  | _ \<Rightarrow>
                      if onMissing
                      then warn \<lparr>warn_varName = name, warn_configPath = path\<rparr>
                             (prepend (''${'' @ name @ ''}'') (substitute_from env onMissing path rest))
                      else Inl (MissingEnvVar name path))
             | None \<Rightarrow> prepend [c] (substitute_from env onMissing path cs)))"
  by pat_completeness auto
termination
  by (relation "measure (\<lambda>(_, _, _, s). length s)") (auto dest: token_shorter)

declare substitute_from.simps [simp del]

definition substituteString ::
  "(string \<Rightarrow> string option) \<Rightarrow> bool \<Rightarrow> string \<Rightarrow> string \<Rightarrow> env_error + (string \<times> env_warning list)" where
  "substituteString env onMissing path value =
     (if CHR ''$'' \<notin> set value then Inr (value, []) else substitute_from env onMissing path value)"

function reference_from :: "string \<Rightarrow> bool" where
  "reference_from s =
     (case s of
        [] \<Rightarrow> False
      | c # cs \<Rightarrow>
          if c \<noteq> CHR ''$'' then reference_from cs
          else
            (case parseEnvTokenAt s of
               Some (Escaped name rest) \<Rightarrow> reference_from rest
             | Some (Substitution name rest) \<Rightarrow> True
             | None \<Rightarrow> reference_from cs))"
  by pat_completeness auto
termination
  by (relation "measure length") (auto dest: token_shorter)

declare reference_from.simps [simp del]

definition containsEnvVarReference :: "string \<Rightarrow> bool" where
  "containsEnvVarReference value \<longleftrightarrow> CHR ''$'' \<in> set value \<and> reference_from value"

section \<open>Configuration values\<close>

text \<open>A primitive or an object that is not plain passes through.\<close>

datatype cfg_value = CStr string | CArr "cfg_value list" | CObj "(string \<times> cfg_value) list" | COther js_value

definition index_path :: "string \<Rightarrow> nat \<Rightarrow> string" where
  "index_path path index = path @ ''['' @ show_nat index @ '']''"

definition child_path :: "string \<Rightarrow> string \<Rightarrow> string" where
  "child_path path key = (if path = [] then key else path @ ''.'' @ key)"

text \<open>
  Assigning to the key \<^verbatim>\<open>__proto__\<close> sets a prototype and adds no entry, so such an entry is not in the
  result; its value is substituted first and may still fail.
\<close>

fun substituteAny ::
  "(string \<Rightarrow> string option) \<Rightarrow> bool \<Rightarrow> string \<Rightarrow> cfg_value \<Rightarrow> env_error + (cfg_value \<times> env_warning list)"
  and substitute_items ::
  "(string \<Rightarrow> string option) \<Rightarrow> bool \<Rightarrow> string \<Rightarrow> nat \<Rightarrow> cfg_value list \<Rightarrow> env_error + (cfg_value list \<times> env_warning list)"
  and substitute_fields ::
  "(string \<Rightarrow> string option) \<Rightarrow> bool \<Rightarrow> string \<Rightarrow> (string \<times> cfg_value) list
     \<Rightarrow> env_error + ((string \<times> cfg_value) list \<times> env_warning list)"
where
  "substituteAny env om path (CStr s) = result_bind (substituteString env om path s) (\<lambda>(t, ws). Inr (CStr t, ws))"
| "substituteAny env om path (CArr vs) = result_bind (substitute_items env om path 0 vs) (\<lambda>(us, ws). Inr (CArr us, ws))"
| "substituteAny env om path (CObj fs) = result_bind (substitute_fields env om path fs) (\<lambda>(gs, ws). Inr (CObj gs, ws))"
| "substituteAny env om path (COther v) = Inr (COther v, [])"
| "substitute_items env om path i [] = Inr ([], [])"
| "substitute_items env om path i (v # vs) =
     result_bind (substituteAny env om (index_path path i) v) (\<lambda>(u, ws).
       result_bind (substitute_items env om path (Suc i) vs) (\<lambda>(us, ws'). Inr (u # us, ws @ ws')))"
| "substitute_fields env om path [] = Inr ([], [])"
| "substitute_fields env om path ((key, v) # fs) =
     result_bind (substituteAny env om (child_path path key) v) (\<lambda>(u, ws).
       result_bind (substitute_fields env om path fs) (\<lambda>(gs, ws').
         Inr (if key = ''__proto__'' then gs else (key, u) # gs, ws @ ws')))"

definition resolveConfigEnvVars ::
  "(string \<Rightarrow> string option) \<Rightarrow> bool \<Rightarrow> cfg_value \<Rightarrow> env_error + (cfg_value \<times> env_warning list)" where
  "resolveConfigEnvVars env onMissing v = substituteAny env onMissing [] v"

section \<open>References to secrets\<close>

datatype secret_source = EnvSource | FileSource | ExecSource

record secret_ref =
  ref_source :: secret_source
  ref_provider :: string
  ref_id :: string

text \<open>
  An untyped configuration input: a string, an object described by the three members a reference has
  (absent or not a string is \<^const>\<open>None\<close>) and the number of its other keys, or anything else.
\<close>

record secret_object =
  so_source :: "string option"
  so_provider :: "string option"
  so_id :: "string option"
  so_other_keys :: nat

datatype secret_input = SecretText string | SecretObject secret_object | SecretOther

record secret_defaults =
  default_env :: "string option"
  default_file :: "string option"
  default_exec :: "string option"

definition DEFAULT_SECRET_PROVIDER_ALIAS :: string where
  "DEFAULT_SECRET_PROVIDER_ALIAS = ''default''"

definition secret_source_of :: "string option \<Rightarrow> secret_source option" where
  "secret_source_of s =
     (if s = Some ''env'' then Some EnvSource else if s = Some ''file'' then Some FileSource
      else if s = Some ''exec'' then Some ExecSource else None)"

definition nonblank :: "string option \<Rightarrow> bool" where
  "nonblank s = (case s of None \<Rightarrow> False | Some t \<Rightarrow> js_trim t \<noteq> [])"

definition isSecretRef :: "secret_object \<Rightarrow> bool" where
  "isSecretRef v \<longleftrightarrow>
     secret_source_of (so_source v) \<noteq> None \<and> nonblank (so_provider v) \<and> nonblank (so_id v) \<and> so_other_keys v = 0"

definition isLegacySecretRefWithoutProvider :: "secret_object \<Rightarrow> bool" where
  "isLegacySecretRefWithoutProvider v \<longleftrightarrow>
     secret_source_of (so_source v) \<noteq> None \<and> nonblank (so_id v) \<and> so_provider v = None"

text \<open>\<^verbatim>\<open>/^[A-Z][A-Z0-9_]{0,127}$/\<close>.\<close>

definition ENV_SECRET_REF_ID_RE :: "string \<Rightarrow> bool" where
  "ENV_SECRET_REF_ID_RE s \<longleftrightarrow> s \<noteq> [] \<and> is_upper (hd s) \<and> list_all is_name_char (tl s) \<and> length s \<le> 128"

definition env_provider :: "string option \<Rightarrow> string" where
  "env_provider p =
     (let t = js_trim (or_default p DEFAULT_SECRET_PROVIDER_ALIAS)
      in if t = [] then DEFAULT_SECRET_PROVIDER_ALIAS else t)"

definition parseEnvTemplateSecretRef :: "string \<Rightarrow> string option \<Rightarrow> secret_ref option" where
  "parseEnvTemplateSecretRef v provider =
     (let t = js_trim v;
          template = (if starts_with t ''${'' \<and> t \<noteq> [] \<and> last t = CHR ''}'' then Some (butlast (drop 2 t)) else None);
          shorthand = (if starts_with t ''$'' then Some (drop 1 t) else None);
          m = (case template of
                 Some n \<Rightarrow> if ENV_SECRET_REF_ID_RE n then Some n
                           else (case shorthand of Some n' \<Rightarrow> if ENV_SECRET_REF_ID_RE n' then Some n' else None | None \<Rightarrow> None)
               | None \<Rightarrow> (case shorthand of Some n' \<Rightarrow> if ENV_SECRET_REF_ID_RE n' then Some n' else None | None \<Rightarrow> None))
      in map_option (\<lambda>n. \<lparr>ref_source = EnvSource, ref_provider = env_provider provider, ref_id = n\<rparr>) m)"

definition parseLegacySecretRefEnvMarker :: "string \<Rightarrow> string option \<Rightarrow> secret_ref option" where
  "parseLegacySecretRefEnvMarker v provider =
     (let t = js_trim v;
          rest = (if starts_with t ''secretref-env:'' then Some (drop 14 t)
                  else if starts_with t ''__env__:'' then Some (drop 8 t) else None)
      in case rest of
           None \<Rightarrow> None
         | Some n \<Rightarrow>
             if ENV_SECRET_REF_ID_RE n
             then Some \<lparr>ref_source = EnvSource, ref_provider = env_provider provider, ref_id = n\<rparr> else None)"

definition default_provider :: "secret_defaults \<Rightarrow> secret_source \<Rightarrow> string" where
  "default_provider d src =
     or_default (case src of EnvSource \<Rightarrow> default_env d | FileSource \<Rightarrow> default_file d | ExecSource \<Rightarrow> default_exec d)
       DEFAULT_SECRET_PROVIDER_ALIAS"

definition coerceSecretRef :: "secret_defaults \<Rightarrow> secret_input \<Rightarrow> secret_ref option" where
  "coerceSecretRef d v =
     (case v of
        SecretObject ob \<Rightarrow>
          (case secret_source_of (so_source ob) of
             None \<Rightarrow> None
           | Some src \<Rightarrow>
               if isSecretRef ob
               then Some \<lparr>ref_source = src, ref_provider = or_default (so_provider ob) [], ref_id = or_default (so_id ob) []\<rparr>
               else if isLegacySecretRefWithoutProvider ob
               then Some \<lparr>ref_source = src, ref_provider = default_provider d src, ref_id = or_default (so_id ob) []\<rparr>
               else None)
      | SecretText s \<Rightarrow>
          (case parseLegacySecretRefEnvMarker s (default_env d) of
             Some r \<Rightarrow> Some r
           | None \<Rightarrow> parseEnvTemplateSecretRef s (default_env d))
      | SecretOther \<Rightarrow> None)"

definition normalizeSecretInputString :: "secret_input \<Rightarrow> string option" where
  "normalizeSecretInputString v = (case v of SecretText s \<Rightarrow> normalizeOptionalString (Some s) | _ \<Rightarrow> None)"

definition hasConfiguredSecretInput :: "secret_defaults \<Rightarrow> secret_input \<Rightarrow> bool" where
  "hasConfiguredSecretInput d v \<longleftrightarrow> normalizeSecretInputString v \<noteq> None \<or> coerceSecretRef d v \<noteq> None"

definition resolveSecretInputRef :: "secret_defaults \<Rightarrow> secret_input \<Rightarrow> secret_input \<Rightarrow> secret_ref option" where
  "resolveSecretInputRef d v refValue =
     (case coerceSecretRef d refValue of Some r \<Rightarrow> Some r | None \<Rightarrow> coerceSecretRef d v)"

end
