(* ===== verification/EnvSubstProps.thy ===== *)
theory EnvSubstProps
  imports EnvSubst
begin

text \<open>
  The reference test agrees with the substitution: a value holds a reference exactly when substituting
  it depends on the environment.
\<close>

lemmas from_simps = substitute_from.simps [of env om path "[]"] substitute_from.simps [of env om path "c # cs"] for env om path c cs
lemmas reference_simps = reference_from.simps [of "[]"] reference_from.simps [of "c # cs"] for c cs

lemma prepend_simps [simp]:
  "prepend c (Inl e) = Inl e" "prepend c (Inr (s, ws)) = Inr (c @ s, ws)"
  "prepend c r = Inl e \<longleftrightarrow> r = Inl e"
  by (cases r; auto simp: prepend_def)+

text \<open>With nothing in the environment the first reference is an error, and without one there is none.\<close>

lemma empty_env_from:
  "reference_from s \<longleftrightarrow> (\<exists>e. substitute_from (\<lambda>_. None) False path s = Inl e)"
proof (induction s rule: reference_from.induct)
  case (1 s)
  show ?case
  proof (cases s)
    case Nil
    then show ?thesis by (simp add: from_simps reference_simps)
  next
    case (Cons c cs)
    with 1 show ?thesis
      by (auto simp: from_simps reference_simps split: option.split env_token.split)
  qed
qed

lemma no_reference_from: "\<not> reference_from s \<Longrightarrow> substitute_from env om path s = substitute_from env' om' path' s"
proof (induction s rule: reference_from.induct)
  case (1 s)
  show ?case
  proof (cases s)
    case Nil
    then show ?thesis by (simp add: from_simps)
  next
    case (Cons c cs)
    show ?thesis
    proof (cases "c = CHR ''$''")
      case False
      with 1(1) [OF Cons] 1(4) Cons show ?thesis by (simp add: from_simps reference_simps)
    next
      case dollar: True
      show ?thesis
      proof (cases "parseEnvTokenAt s")
        case None
        with 1(1-3) [OF Cons] 1(4) Cons dollar show ?thesis by (simp add: from_simps reference_simps)
      next
        case (Some t)
        with 1(1-3) [OF Cons] 1(4) Cons dollar show ?thesis
          by (cases t) (simp_all add: from_simps reference_simps)
      qed
    qed
  qed
qed

text \<open>The reference test is exact.  A string contains an environment reference if and only if reading
  the configuration with an empty environment fails on it; and a string without one is read the same
  in every environment, in both modes, so skipping it is safe.\<close>

theorem env_reference_test_is_exact:
  "containsEnvVarReference v = (\<exists>e. substituteString (\<lambda>_. None) False path v = Inl e)
   \<and> (containsEnvVarReference v \<or> substituteString env om path v = substituteString env' om' path' v)"
proof (cases "CHR ''$'' \<in> set v")
  case True
  with no_reference_from [of v env om path env' om' path'] show ?thesis
    by (auto simp: containsEnvVarReference_def substituteString_def empty_env_from [of v path])
qed (simp add: containsEnvVarReference_def substituteString_def)

end
