(* ===== verification/IpPolicy.thy ===== *)
theory IpPolicy
  imports NumberCoercion "HOL-Library.Word"
begin

text \<open>
  \<^verbatim>\<open>packages/net-policy/src/ip.ts\<close>: what the gateway decides about IP literals.  The address library
  the file imports is the parameter \<^verbatim>\<open>ipaddr\<close>, a record of the functions the file calls; \<^verbatim>\<open>'a\<close> is its
  type of parsed addresses.  A library call that may throw answers an option.
\<close>

unbundle bit_operations_syntax

record 'a ipaddr =
  v4_isValid :: "string \<Rightarrow> bool"
  v4_isValidFourPartDecimal :: "string \<Rightarrow> bool"
  v4_parse :: "string \<Rightarrow> 'a"
  v6_isValid :: "string \<Rightarrow> bool"
  v6_parse :: "string \<Rightarrow> 'a"
  any_isValid :: "string \<Rightarrow> bool"
  any_parse :: "string \<Rightarrow> 'a"
  is_v6 :: "'a \<Rightarrow> bool"
  isIPv4MappedAddress :: "'a \<Rightarrow> bool"
  toIPv4Address :: "'a \<Rightarrow> 'a"
  addr_string :: "'a \<Rightarrow> string"
  addr_range :: "'a \<Rightarrow> string"
  addr_parts :: "'a \<Rightarrow> 16 word list"
  parseCIDR :: "string \<Rightarrow> ('a \<times> nat) option"
  match_prefix :: "'a \<Rightarrow> 'a \<times> nat \<Rightarrow> bool option"

definition BLOCKED_IPV4_SPECIAL_USE_RANGES :: "string set" where
  "BLOCKED_IPV4_SPECIAL_USE_RANGES =
     {''unspecified'', ''broadcast'', ''multicast'', ''linkLocal'', ''loopback'', ''carrierGradeNat'',
      ''private'', ''reserved''}"

definition PRIVATE_OR_LOOPBACK_IPV4_RANGES :: "string set" where
  "PRIVATE_OR_LOOPBACK_IPV4_RANGES = {''loopback'', ''private'', ''linkLocal'', ''carrierGradeNat''}"

definition BLOCKED_IPV6_SPECIAL_USE_RANGES :: "string set" where
  "BLOCKED_IPV6_SPECIAL_USE_RANGES =
     {''unspecified'', ''loopback'', ''linkLocal'', ''uniqueLocal'', ''multicast'', ''reserved'',
      ''benchmarking'', ''discard'', ''orchid2''}"

definition CLOUD_METADATA_IP_ADDRESSES :: "string set" where
  "CLOUD_METADATA_IP_ADDRESSES = {''100.100.100.200'', ''fd00:ec2::254''}"

definition RFC2544_BENCHMARK_PREFIX :: "'a ipaddr \<Rightarrow> 'a \<times> nat" where
  "RFC2544_BENCHMARK_PREFIX lib = (v4_parse lib ''198.18.0.0'', 15)"

section \<open>Parsing\<close>

definition ends_with :: "string \<Rightarrow> string \<Rightarrow> bool" where
  "ends_with s p \<longleftrightarrow> starts_with (rev s) (rev p)"

text \<open>The slice from 1 to -1 of a string of at least one character, empty for one character.\<close>

definition stripIpv6Brackets :: "string \<Rightarrow> string" where
  "stripIpv6Brackets v = (if starts_with v ''['' \<and> ends_with v '']'' then butlast (tl v) else v)"

definition is_hex_digit :: "char \<Rightarrow> bool" where
  "is_hex_digit c \<longleftrightarrow> is_digit c \<or> (let n = (of_char (js_lower_char c) :: nat) in 97 \<le> n \<and> n \<le> 102)"

definition isNumericIpv4LiteralPart :: "string \<Rightarrow> bool" where
  "isNumericIpv4LiteralPart v \<longleftrightarrow>
     v \<noteq> [] \<and> list_all is_digit v
     \<or> (case v of z # x # ds \<Rightarrow> z = CHR ''0'' \<and> js_lower_char x = CHR ''x'' \<and> ds \<noteq> [] \<and> list_all is_hex_digit ds
        | _ \<Rightarrow> False)"

text \<open>\<^verbatim>\<open>Number.prototype.toString(16)\<close>.\<close>

definition hex_digit :: "nat \<Rightarrow> char" where
  "hex_digit d = (if d < 10 then char_of (48 + d) else char_of (87 + d))"

fun show_hex :: "nat \<Rightarrow> string" where
  "show_hex n = (if n < 16 then [hex_digit n] else show_hex (n div 16) @ [hex_digit (n mod 16)])"

declare show_hex.simps [simp del]

text \<open>
  The expression splits the text at its last colon and the rest at an optional zone.  Its middle group
  is what \<^verbatim>\<open>isValidFourPartDecimal\<close> then accepts: four decimal parts separated by dots.
\<close>

definition zone_ok :: "string \<Rightarrow> bool" where
  "zone_ok z \<longleftrightarrow> z = [] \<or>
     (hd z = CHR ''%'' \<and> tl z \<noteq> [] \<and>
      list_all (\<lambda>c. is_digit c \<or> (let n = (of_char (js_lower_char c) :: nat) in 97 \<le> n \<and> n \<le> 122)) (tl z))"

definition no_line_break :: "string \<Rightarrow> bool" where
  "no_line_break s \<longleftrightarrow> list_all (\<lambda>c. (of_char c :: nat) \<noteq> 10 \<and> (of_char c :: nat) \<noteq> 13) s"

definition parseIpv6WithEmbeddedIpv4 :: "'a ipaddr \<Rightarrow> string \<Rightarrow> 'a option" where
  "parseIpv6WithEmbeddedIpv4 lib raw =
     (if CHR '':'' \<notin> set raw \<or> CHR ''.'' \<notin> set raw then None
      else
        (let rest = rev (takeWhile (\<lambda>c. c \<noteq> CHR '':'') (rev raw));
             prefix = take (length raw - length rest) raw;
             embedded = takeWhile (\<lambda>c. c \<noteq> CHR ''%'') rest;
             zone = dropWhile (\<lambda>c. c \<noteq> CHR ''%'') rest
         in if \<not> no_line_break prefix \<or> \<not> zone_ok zone \<or> \<not> v4_isValidFourPartDecimal lib embedded then None
            else
              (let octets = map digits_value (js_split (CHR ''.'') embedded);
                   high = show_hex (push_bit 8 (octets ! 0) OR octets ! 1);
                   low = show_hex (push_bit 8 (octets ! 2) OR octets ! 3);
                   normalizedIpv6 = prefix @ high @ '':'' @ low @ zone
               in if v6_isValid lib normalizedIpv6 then Some (v6_parse lib normalizedIpv6) else None)))"

definition normalizeIpv4MappedAddress :: "'a ipaddr \<Rightarrow> 'a \<Rightarrow> 'a" where
  "normalizeIpv4MappedAddress lib a =
     (if \<not> is_v6 lib a then a else if \<not> isIPv4MappedAddress lib a then a else toIPv4Address lib a)"

definition normalizeIpParseInput :: "string option \<Rightarrow> string option" where
  "normalizeIpParseInput raw = map_option stripIpv6Brackets (normalizeOptionalString raw)"

definition parseCanonicalIpAddress :: "'a ipaddr \<Rightarrow> string option \<Rightarrow> 'a option" where
  "parseCanonicalIpAddress lib raw =
     (case normalizeIpParseInput raw of
        None \<Rightarrow> None
      | Some n \<Rightarrow>
          if n = [] then None
          else if v4_isValid lib n then
            (if \<not> v4_isValidFourPartDecimal lib n then None else Some (v4_parse lib n))
          else if v6_isValid lib n then Some (v6_parse lib n)
          else parseIpv6WithEmbeddedIpv4 lib n)"

definition parseLooseIpAddress :: "'a ipaddr \<Rightarrow> string option \<Rightarrow> 'a option" where
  "parseLooseIpAddress lib raw =
     (case normalizeIpParseInput raw of
        None \<Rightarrow> None
      | Some n \<Rightarrow>
          if n = [] then None
          else if any_isValid lib n then Some (any_parse lib n)
          else parseIpv6WithEmbeddedIpv4 lib n)"

definition normalizeIpAddress :: "'a ipaddr \<Rightarrow> string option \<Rightarrow> string option" where
  "normalizeIpAddress lib raw =
     map_option (\<lambda>a. normalizeLowercaseStringOrEmpty (Some (addr_string lib (normalizeIpv4MappedAddress lib a))))
       (parseCanonicalIpAddress lib raw)"

definition isCanonicalDottedDecimalIPv4 :: "'a ipaddr \<Rightarrow> string option \<Rightarrow> bool" where
  "isCanonicalDottedDecimalIPv4 lib raw =
     (case normalizeOptionalString raw of
        None \<Rightarrow> False
      | Some t \<Rightarrow> (let n = stripIpv6Brackets t in n \<noteq> [] \<and> v4_isValidFourPartDecimal lib n))"

definition isLegacyIpv4Literal :: "'a ipaddr \<Rightarrow> string option \<Rightarrow> bool" where
  "isLegacyIpv4Literal lib raw =
     (case normalizeOptionalString raw of
        None \<Rightarrow> False
      | Some t \<Rightarrow>
          (let n = stripIpv6Brackets t
           in if n = [] \<or> CHR '':'' \<in> set n then False
              else if isCanonicalDottedDecimalIPv4 lib (Some n) then False
              else
                (let parts = js_split (CHR ''.'') n
                 in if length parts > 4 then False
                    else if list_ex (\<lambda>p. p = []) parts then False
                    else list_all isNumericIpv4LiteralPart parts)))"

section \<open>Classification\<close>

definition isLoopbackIpAddress :: "'a ipaddr \<Rightarrow> string option \<Rightarrow> bool" where
  "isLoopbackIpAddress lib raw =
     (case parseCanonicalIpAddress lib raw of
        None \<Rightarrow> False
      | Some a \<Rightarrow> addr_range lib (normalizeIpv4MappedAddress lib a) = ''loopback'')"

definition octet_string :: "16 word \<Rightarrow> string" where
  "octet_string w = show_nat (unat w)"

definition decodeIpv4FromHextets :: "'a ipaddr \<Rightarrow> 16 word \<Rightarrow> 16 word \<Rightarrow> 'a" where
  "decodeIpv4FromHextets lib high low =
     v4_parse lib (js_join ''.'' (map octet_string
       [drop_bit 8 high AND 0xff, high AND 0xff, drop_bit 8 low AND 0xff, low AND 0xff]))"

text \<open>The rules in the order of \<^verbatim>\<open>EMBEDDED_IPV4_SENTINEL_RULES\<close>: a test and the two hextets.\<close>

definition EMBEDDED_IPV4_SENTINEL_RULES ::
  "((16 word list \<Rightarrow> bool) \<times> (16 word list \<Rightarrow> 16 word \<times> 16 word)) list" where
  "EMBEDDED_IPV4_SENTINEL_RULES =
     [(\<lambda>p. p ! 0 = 0 \<and> p ! 1 = 0 \<and> p ! 2 = 0 \<and> p ! 3 = 0 \<and> p ! 4 = 0 \<and> p ! 5 = 0,
       \<lambda>p. (p ! 6, p ! 7)),
      (\<lambda>p. p ! 0 = 0x0064 \<and> p ! 1 = 0xff9b \<and> p ! 2 = 0x0001 \<and> p ! 3 = 0 \<and> p ! 4 = 0 \<and> p ! 5 = 0,
       \<lambda>p. (p ! 6, p ! 7)),
      (\<lambda>p. p ! 0 = 0x2002, \<lambda>p. (p ! 1, p ! 2)),
      (\<lambda>p. p ! 0 = 0x2001 \<and> p ! 1 = 0x0000, \<lambda>p. (p ! 6 XOR 0xffff, p ! 7 XOR 0xffff)),
      (\<lambda>p. p ! 4 AND 0xfcff = 0 \<and> p ! 5 = 0x5efe, \<lambda>p. (p ! 6, p ! 7))]"

definition extractEmbeddedIpv4FromIpv6 :: "'a ipaddr \<Rightarrow> 'a \<Rightarrow> 'a option" where
  "extractEmbeddedIpv4FromIpv6 lib a =
     (let p = addr_parts lib a
      in if isIPv4MappedAddress lib a then Some (toIPv4Address lib a)
         else if addr_range lib a = ''rfc6145'' then Some (decodeIpv4FromHextets lib (p ! 6) (p ! 7))
         else if addr_range lib a = ''rfc6052'' then Some (decodeIpv4FromHextets lib (p ! 6) (p ! 7))
         else (case List.find (\<lambda>rule. fst rule p) EMBEDDED_IPV4_SENTINEL_RULES of
                 None \<Rightarrow> None
               | Some rule \<Rightarrow> Some (decodeIpv4FromHextets lib (fst (snd rule p)) (snd (snd rule p)))))"

definition isLinkLocalIpAddress :: "'a ipaddr \<Rightarrow> string option \<Rightarrow> bool" where
  "isLinkLocalIpAddress lib raw =
     (case parseLooseIpAddress lib raw of
        None \<Rightarrow> False
      | Some parsed \<Rightarrow>
          (let n = normalizeIpv4MappedAddress lib parsed
           in if \<not> is_v6 lib n then addr_range lib n = ''linkLocal''
              else if map_option (addr_range lib) (extractEmbeddedIpv4FromIpv6 lib n) = Some ''linkLocal'' then True
              else addr_range lib n = ''linkLocal''))"

definition isCloudMetadataIpAddress :: "'a ipaddr \<Rightarrow> string option \<Rightarrow> bool" where
  "isCloudMetadataIpAddress lib raw =
     (case parseLooseIpAddress lib raw of
        None \<Rightarrow> False
      | Some parsed \<Rightarrow>
          (let n = normalizeIpv4MappedAddress lib parsed
           in (is_v6 lib n \<and>
               (case extractEmbeddedIpv4FromIpv6 lib n of
                  None \<Rightarrow> False
                | Some e \<Rightarrow> addr_string lib e \<in> CLOUD_METADATA_IP_ADDRESSES))
              \<or> addr_string lib n \<in> CLOUD_METADATA_IP_ADDRESSES))"

definition isBlockedSpecialUseIpv6Address :: "'a ipaddr \<Rightarrow> 'a \<Rightarrow> bool \<Rightarrow> bool" where
  "isBlockedSpecialUseIpv6Address lib a allowUniqueLocalRange =
     (if addr_range lib a = ''uniqueLocal'' \<and> allowUniqueLocalRange then False
      else if addr_range lib a \<in> BLOCKED_IPV6_SPECIAL_USE_RANGES then True
      else addr_parts lib a ! 0 AND 0xffc0 = 0xfec0)"

text \<open>A prefix match of two IPv4 addresses does not throw.\<close>

definition isBlockedSpecialUseIpv4Address :: "'a ipaddr \<Rightarrow> 'a \<Rightarrow> bool \<Rightarrow> bool" where
  "isBlockedSpecialUseIpv4Address lib a allowRfc2544BenchmarkRange =
     (let inRange = match_prefix lib a (RFC2544_BENCHMARK_PREFIX lib) = Some True
      in if inRange \<and> allowRfc2544BenchmarkRange then False
         else addr_range lib a \<in> BLOCKED_IPV4_SPECIAL_USE_RANGES \<or> inRange)"

definition isPrivateOrLoopbackIpAddress :: "'a ipaddr \<Rightarrow> string option \<Rightarrow> bool" where
  "isPrivateOrLoopbackIpAddress lib raw =
     (case parseCanonicalIpAddress lib raw of
        None \<Rightarrow> False
      | Some a \<Rightarrow>
          (let n = normalizeIpv4MappedAddress lib a
           in if \<not> is_v6 lib n then addr_range lib n \<in> PRIVATE_OR_LOOPBACK_IPV4_RANGES
              else isBlockedSpecialUseIpv6Address lib n False))"

definition isRfc1918Ipv4Address :: "'a ipaddr \<Rightarrow> string option \<Rightarrow> bool" where
  "isRfc1918Ipv4Address lib raw =
     (case parseCanonicalIpAddress lib raw of
        None \<Rightarrow> False
      | Some a \<Rightarrow> \<not> is_v6 lib a \<and> addr_range lib a = ''private'')"

definition isCarrierGradeNatIpv4Address :: "'a ipaddr \<Rightarrow> string option \<Rightarrow> bool" where
  "isCarrierGradeNatIpv4Address lib raw =
     (case parseCanonicalIpAddress lib raw of
        None \<Rightarrow> False
      | Some a \<Rightarrow> \<not> is_v6 lib a \<and> addr_range lib a = ''carrierGradeNat'')"

definition isIpInCidr :: "'a ipaddr \<Rightarrow> string \<Rightarrow> string \<Rightarrow> bool" where
  "isIpInCidr lib ip cidr =
     (case parseCanonicalIpAddress lib (Some ip) of
        None \<Rightarrow> False
      | Some parsed \<Rightarrow>
          (let candidate = js_trim cidr;
               comparableIp = normalizeIpv4MappedAddress lib parsed
           in if candidate = [] then False
              else if CHR ''/'' \<notin> set candidate then
                (case parseCanonicalIpAddress lib (Some candidate) of
                   None \<Rightarrow> False
                 | Some exact \<Rightarrow>
                     (let comparableExact = normalizeIpv4MappedAddress lib exact
                      in is_v6 lib comparableIp = is_v6 lib comparableExact
                         \<and> addr_string lib comparableIp = addr_string lib comparableExact))
              else
                (case parseCIDR lib candidate of
                   None \<Rightarrow> False
                 | Some (baseAddress, prefixLength) \<Rightarrow>
                     (let comparableBase = normalizeIpv4MappedAddress lib baseAddress
                      in if is_v6 lib comparableIp \<noteq> is_v6 lib comparableBase then False
                         else match_prefix lib comparableIp (comparableBase, prefixLength) = Some True))))"

section \<open>Embedded addresses\<close>

lemma octet_of_hextet:
  fixes a b :: nat
  assumes "a < 256" and "b < 256"
  shows "unat (drop_bit 8 (of_nat (256 * a + b) :: 16 word) AND 0xff) = a"
    and "unat ((of_nat (256 * a + b) :: 16 word) AND 0xff) = b"
proof -
  have lt: "256 * a + b < 65536" using assms by simp
  have mask: "(0xff :: 16 word) = mask 8" by (simp add: mask_eq_exp_minus_1)
  have u: "unat (of_nat (256 * a + b) :: 16 word) = 256 * a + b"
    unfolding unat_of_nat using lt by simp
  show "unat (drop_bit 8 (of_nat (256 * a + b) :: 16 word) AND 0xff) = a"
    unfolding mask take_bit_eq_mask [symmetric] unsigned_take_bit_eq unat_drop_bit_eq u
    using assms by (simp add: take_bit_eq_mod drop_bit_eq_div)
  show "unat ((of_nat (256 * a + b) :: 16 word) AND 0xff) = b"
    unfolding mask take_bit_eq_mask [symmetric] unsigned_take_bit_eq u
    using assms by (simp add: take_bit_eq_mod)
qed

text \<open>The four octets packed into two hextets come out again.\<close>

lemma decode_hextets:
  assumes "a < 256" "b < 256" "c < 256" "d < 256"
  shows "decodeIpv4FromHextets lib (of_nat (256 * a + b)) (of_nat (256 * c + d))
           = v4_parse lib (js_join ''.'' (map show_nat [a, b, c, d]))"
  using assms by (simp add: decodeIpv4FromHextets_def octet_string_def octet_of_hextet del: of_nat_add of_nat_mult)

end
