(* ===== verification/GatewayNet.thy ===== *)
theory GatewayNet
  imports IpPolicy
begin

text \<open>
  Where a request comes from: \<^verbatim>\<open>gateway/net.ts\<close> and the browser-origin rules of
  \<^verbatim>\<open>gateway/origin-check.ts\<close>.  The environment holds the address library, Node's \<^verbatim>\<open>net.isIP\<close>, the
  addresses of the machine's interfaces (absent when the system refuses to list them) and the
  platform's URL parser.  A request is its peer address and its headers, keyed by lower-case name.
\<close>

record parsed_url =
  url_protocol :: string
  url_origin :: string
  url_host :: string
  url_hostname :: string

record 'a net_env =
  ip_lib :: "'a ipaddr"
  isIP :: "string \<Rightarrow> nat"
  interfaces :: "(string \<times> string list option) list option"
  parse_url :: "string \<Rightarrow> parsed_url option"

datatype header_value = OneValue string | ManyValues "string list"

record http_request =
  remoteAddress :: "string option"
  headers :: "(string, header_value) js_map"

section \<open>Addresses\<close>

definition isLoopbackAddress :: "'a net_env \<Rightarrow> string option \<Rightarrow> bool" where
  "isLoopbackAddress env ip = isLoopbackIpAddress (ip_lib env) ip"

definition isPrivateOrLoopbackAddress :: "'a net_env \<Rightarrow> string option \<Rightarrow> bool" where
  "isPrivateOrLoopbackAddress env ip = isPrivateOrLoopbackIpAddress (ip_lib env) ip"

definition normalizeIp :: "'a net_env \<Rightarrow> string option \<Rightarrow> string option" where
  "normalizeIp env ip = normalizeIpAddress (ip_lib env) ip"

definition resolveLocalInterfaceAddressMatch :: "'a net_env \<Rightarrow> string option \<Rightarrow> bool option" where
  "resolveLocalInterfaceAddressMatch env ip =
     (case normalizeIp env ip of
        None \<Rightarrow> Some False
      | Some normalized \<Rightarrow>
          if normalized = [] then Some False
          else (case interfaces env of
                  None \<Rightarrow> None
                | Some snapshot \<Rightarrow>
                    Some (list_ex (\<lambda>(_, entries).
                      list_ex (\<lambda>a. normalizeIp env (Some a) = Some normalized) (or_default entries [])) snapshot)))"

definition isLocalInterfaceAddress :: "'a net_env \<Rightarrow> string option \<Rightarrow> bool" where
  "isLocalInterfaceAddress env ip \<longleftrightarrow> resolveLocalInterfaceAddressMatch env ip = Some True"

definition stripOptionalPort :: "'a net_env \<Rightarrow> string \<Rightarrow> string" where
  "stripOptionalPort env ip =
     (if starts_with ip ''['' \<and> CHR '']'' \<in> set ip then takeWhile (\<lambda>c. c \<noteq> CHR '']'') (tl ip)
      else if isIP env ip \<noteq> 0 then ip
      else if CHR ''.'' \<in> set ip \<and> length (filter (\<lambda>c. c = CHR '':'') ip) = 1 then
        (let candidate = takeWhile (\<lambda>c. c \<noteq> CHR '':'') ip
         in if isIP env candidate = 4 then candidate else ip)
      else ip)"

definition parseIpLiteral :: "'a net_env \<Rightarrow> string option \<Rightarrow> string option" where
  "parseIpLiteral env raw =
     (case raw of
        None \<Rightarrow> None
      | Some r \<Rightarrow>
          if js_trim r = [] then None
          else (case normalizeIp env (Some (stripOptionalPort env (js_trim r))) of
                  None \<Rightarrow> None
                | Some normalized \<Rightarrow> if normalized = [] \<or> isIP env normalized = 0 then None else Some normalized))"

definition parseRealIp :: "'a net_env \<Rightarrow> string option \<Rightarrow> string option" where
  "parseRealIp env realIp = parseIpLiteral env realIp"

definition isTrustedProxyAddress :: "'a net_env \<Rightarrow> string option \<Rightarrow> string list option \<Rightarrow> bool" where
  "isTrustedProxyAddress env ip trustedProxies =
     (case (normalizeIp env ip, trustedProxies) of
        (Some normalized, Some proxies) \<Rightarrow>
          normalized \<noteq> [] \<and>
          list_ex (\<lambda>proxy. js_trim proxy \<noteq> [] \<and> isIpInCidr (ip_lib env) normalized (js_trim proxy)) proxies
      | _ \<Rightarrow> False)"

text \<open>The walk from the right: the first hop that is neither loopback nor a trusted proxy.\<close>

definition forwarded_chain :: "'a net_env \<Rightarrow> string option \<Rightarrow> string list" where
  "forwarded_chain env forwardedFor =
     (case forwardedFor of None \<Rightarrow> []
      | Some s \<Rightarrow> concat (map (\<lambda>entry. case parseIpLiteral env (Some entry) of None \<Rightarrow> [] | Some n \<Rightarrow> [n])
                      (js_split (CHR '','') s)))"

definition resolveForwardedClientIp ::
  "'a net_env \<Rightarrow> string option \<Rightarrow> string list option \<Rightarrow> string option" where
  "resolveForwardedClientIp env forwardedFor trustedProxies =
     (if trustedProxies = None \<or> trustedProxies = Some [] then None
      else List.find (\<lambda>hop. \<not> isLoopbackAddress env (Some hop) \<and> \<not> isTrustedProxyAddress env (Some hop) trustedProxies)
             (rev (forwarded_chain env forwardedFor)))"

record client_ip_params =
  remoteAddr :: "string option"
  forwardedFor :: "string option"
  realIp :: "string option"
  trustedProxies :: "string list option"
  allowRealIpFallback :: bool

definition resolveClientIp :: "'a net_env \<Rightarrow> client_ip_params \<Rightarrow> string option" where
  "resolveClientIp env p =
     (case normalizeIp env (remoteAddr p) of
        None \<Rightarrow> None
      | Some remote \<Rightarrow>
          if remote = [] then None
          else if \<not> isTrustedProxyAddress env (Some remote) (trustedProxies p) then Some remote
          else
            (case resolveForwardedClientIp env (forwardedFor p) (trustedProxies p) of
               Some ip \<Rightarrow> Some ip
             | None \<Rightarrow> if allowRealIpFallback p then parseRealIp env (realIp p) else None))"

fun headerValue :: "header_value option \<Rightarrow> string option" where
  "headerValue (Some (ManyValues vs)) = (case vs of [] \<Rightarrow> None | v # _ \<Rightarrow> Some v)"
| "headerValue (Some (OneValue v)) = Some v"
| "headerValue None = None"

definition resolveRequestClientIp ::
  "'a net_env \<Rightarrow> http_request option \<Rightarrow> string list option \<Rightarrow> bool \<Rightarrow> string option" where
  "resolveRequestClientIp env req proxies allowRealIp =
     (case req of
        None \<Rightarrow> None
      | Some r \<Rightarrow> resolveClientIp env
          \<lparr>remoteAddr = Some (or_default (remoteAddress r) []),
           forwardedFor = headerValue (js_get (headers r) ''x-forwarded-for''),
           realIp = headerValue (js_get (headers r) ''x-real-ip''),
           trustedProxies = proxies, allowRealIpFallback = allowRealIp\<rparr>)"

section \<open>Hosts\<close>

definition normalizeHostHeader :: "string option \<Rightarrow> string" where
  "normalizeHostHeader hostHeader = normalizeLowercaseStringOrEmpty hostHeader"

definition resolveHostName :: "'a net_env \<Rightarrow> string option \<Rightarrow> string" where
  "resolveHostName env hostHeader =
     (let host = normalizeHostHeader hostHeader
      in if host = [] then []
         else if starts_with host ''['' \<and> CHR '']'' \<in> set host then takeWhile (\<lambda>c. c \<noteq> CHR '']'') (tl host)
         else if isIP env host = 6 then host
         else takeWhile (\<lambda>c. c \<noteq> CHR '':'') host)"

definition strip_trailing_dots :: "string \<Rightarrow> string" where
  "strip_trailing_dots s = rev (dropWhile (\<lambda>c. c = CHR ''.'') (rev s))"

record host_parts =
  isLocalhost :: bool
  unbracketedHost :: string

definition parseHostForAddressChecks :: "string \<Rightarrow> host_parts option" where
  "parseHostForAddressChecks host =
     (if host = [] then None
      else
        (let normalizedHost = normalizeLowercaseStringOrEmpty (Some host);
             canonicalHost = strip_trailing_dots normalizedHost
         in if canonicalHost = ''localhost'' then Some \<lparr>isLocalhost = True, unbracketedHost = canonicalHost\<rparr>
            else Some \<lparr>isLocalhost = False, unbracketedHost = stripIpv6Brackets normalizedHost\<rparr>))"

definition isLoopbackHost :: "'a net_env \<Rightarrow> string \<Rightarrow> bool" where
  "isLoopbackHost env host =
     (case parseHostForAddressChecks host of
        None \<Rightarrow> False
      | Some p \<Rightarrow> if isLocalhost p then True else isLoopbackAddress env (Some (unbracketedHost p)))"

definition isLocalishHost :: "'a net_env \<Rightarrow> string option \<Rightarrow> bool" where
  "isLocalishHost env hostHeader =
     (let host = resolveHostName env hostHeader
      in if host = [] then False else isLoopbackHost env host \<or> ends_with host ''.ts.net'')"

definition isPrivateOrLoopbackHost :: "'a net_env \<Rightarrow> string \<Rightarrow> bool" where
  "isPrivateOrLoopbackHost env host =
     (case parseHostForAddressChecks host of
        None \<Rightarrow> False
      | Some p \<Rightarrow>
          if isLocalhost p then True
          else
            (case normalizeIp env (Some (unbracketedHost p)) of
               None \<Rightarrow> False
             | Some n \<Rightarrow>
                 if n = [] \<or> \<not> isPrivateOrLoopbackAddress env (Some n) then False
                 else if isIP env n = 6 \<and> (starts_with n ''ff'' \<or> n = ''::'') then False
                 else True))"

definition isTrustedPlaintextWebSocketHost :: "'a net_env \<Rightarrow> string \<Rightarrow> bool" where
  "isTrustedPlaintextWebSocketHost env hostname =
     (if isPrivateOrLoopbackHost env hostname then True
      else (let n = strip_trailing_dots (normalizeLowercaseStringOrEmpty (Some hostname))
            in ends_with n ''.local'' \<or> ends_with n ''.ts.net''))"

definition isSecureWebSocketUrl :: "'a net_env \<Rightarrow> string \<Rightarrow> bool \<Rightarrow> bool" where
  "isSecureWebSocketUrl env url allowPrivateWs =
     (case parse_url env url of
        None \<Rightarrow> False
      | Some parsed \<Rightarrow>
          (let protocol = (if url_protocol parsed = ''https:'' then ''wss:''
                           else if url_protocol parsed = ''http:'' then ''ws:'' else url_protocol parsed);
               hostname = url_hostname parsed
           in if protocol = ''wss:'' then True
              else if protocol \<noteq> ''ws:'' then False
              else if isLoopbackHost env hostname then True
              else if isTrustedPlaintextWebSocketHost env hostname then True
              else if allowPrivateWs then
                (if isPrivateOrLoopbackHost env hostname then True
                 else isIP env (stripIpv6Brackets hostname) = 0)
              else False))"

section \<open>Bind addresses\<close>

text \<open>
  \<^verbatim>\<open>canBind\<close> is the answer of the trial bind, \<^verbatim>\<open>tailnet\<close> the machine's tailnet address and \<^verbatim>\<open>container\<close>
  the container detection.
\<close>

datatype bind_mode = BindLoopback | BindLan | BindTailnet | BindAuto | BindCustom

definition resolveGatewayBindHost ::
  "'a net_env \<Rightarrow> (string \<Rightarrow> bool) \<Rightarrow> string option \<Rightarrow> bool \<Rightarrow> bind_mode option \<Rightarrow> string option \<Rightarrow> string" where
  "resolveGatewayBindHost env canBind tailnet container bind customHost =
     (case or_default bind BindLoopback of
        BindLoopback \<Rightarrow> if canBind ''127.0.0.1'' then ''127.0.0.1'' else ''0.0.0.0''
      | BindTailnet \<Rightarrow>
          (case tailnet of
             Some ip \<Rightarrow> if ip \<noteq> [] \<and> canBind ip then ip
                        else if canBind ''127.0.0.1'' then ''127.0.0.1'' else ''0.0.0.0''
           | None \<Rightarrow> if canBind ''127.0.0.1'' then ''127.0.0.1'' else ''0.0.0.0'')
      | BindLan \<Rightarrow> ''0.0.0.0''
      | BindCustom \<Rightarrow>
          (let host = js_trim (or_default customHost [])
           in if host = [] then ''0.0.0.0''
              else if isCanonicalDottedDecimalIPv4 (ip_lib env) (Some host) \<and> canBind host then host
              else ''0.0.0.0'')
      | BindAuto \<Rightarrow>
          if container then ''0.0.0.0''
          else if canBind ''127.0.0.1'' then ''127.0.0.1'' else ''0.0.0.0'')"

definition defaultGatewayBindMode :: "bool \<Rightarrow> string option \<Rightarrow> bind_mode" where
  "defaultGatewayBindMode container tailscaleMode =
     (if (case tailscaleMode of None \<Rightarrow> False | Some m \<Rightarrow> m \<noteq> [] \<and> m \<noteq> ''off'') then BindLoopback
      else if container then BindAuto else BindLoopback)"

definition resolveGatewayListenHosts :: "bool \<Rightarrow> (string \<Rightarrow> bool) \<Rightarrow> string \<Rightarrow> string list" where
  "resolveGatewayListenHosts windows canBind bindHost =
     (if bindHost \<noteq> ''127.0.0.1'' then [bindHost]
      else if windows then [bindHost]
      else if canBind ''::1'' then [bindHost, ''::1''] else [bindHost])"

section \<open>Browser origins\<close>

datatype origin_match = Allowlist | HostHeaderFallback | PrivateSameOrigin | LocalLoopback

datatype origin_result = OriginOk origin_match | OriginRefused string

record parsed_origin =
  po_origin :: string
  po_host :: string
  po_hostname :: string

definition parseOrigin :: "'a net_env \<Rightarrow> string option \<Rightarrow> parsed_origin option" where
  "parseOrigin env originRaw =
     (let trimmed = js_trim (or_default originRaw [])
      in if trimmed = [] \<or> trimmed = ''null'' then None
         else map_option (\<lambda>u. \<lparr>po_origin = normalizeLowercaseStringOrEmpty (Some (url_origin u)),
                               po_host = normalizeLowercaseStringOrEmpty (Some (url_host u)),
                               po_hostname = normalizeLowercaseStringOrEmpty (Some (url_hostname u))\<rparr>)
                (parse_url env trimmed))"

definition isTrustedSameOriginHost :: "'a net_env \<Rightarrow> string \<Rightarrow> bool option \<Rightarrow> bool" where
  "isTrustedSameOriginHost env hostHeader isLocalClient =
     (let hostname = resolveHostName env (Some hostHeader)
      in if hostname = [] then False
         else if isLoopbackHost env hostname then isLocalClient \<noteq> Some False
         else if isIP env hostname \<noteq> 0 then isPrivateOrLoopbackIpAddress (ip_lib env) (Some hostname)
         else ends_with hostname ''.local'' \<or> ends_with hostname ''.ts.net'')"

record origin_params =
  op_requestHost :: "string option"
  op_origin :: "string option"
  op_allowedOrigins :: "string list option"
  op_hostFallback :: bool
  op_isLocalClient :: "bool option"

definition checkBrowserOrigin :: "'a net_env \<Rightarrow> origin_params \<Rightarrow> origin_result" where
  "checkBrowserOrigin env p =
     (case parseOrigin env (op_origin p) of
        None \<Rightarrow> OriginRefused ''origin missing or invalid''
      | Some po \<Rightarrow>
          (let allowlist = List.map_filter (\<lambda>v. normalizeOptionalLowercaseString (Some v)) (or_default (op_allowedOrigins p) []);
               requestHost = normalizeHostHeader (op_requestHost p)
           in if ''*'' \<in> set allowlist \<or> po_origin po \<in> set allowlist then OriginOk Allowlist
              else if op_hostFallback p \<and> requestHost \<noteq> [] \<and> po_host po = requestHost then OriginOk HostHeaderFallback
              else if requestHost \<noteq> [] \<and> po_host po = requestHost
                      \<and> isTrustedSameOriginHost env requestHost (op_isLocalClient p) then OriginOk PrivateSameOrigin
              else if op_isLocalClient p = Some True \<and> isLoopbackHost env (po_hostname po) then OriginOk LocalLoopback
              else OriginRefused ''origin not allowed''))"

section \<open>The forwarded chain\<close>

lemma forwarded_chain_append:
  "forwarded_chain env (Some (s @ '','' @ t)) = forwarded_chain env (Some s) @ forwarded_chain env (Some t)"
proof -
  have "js_split (CHR '','') (s @ '','' @ t) = js_split (CHR '','') s @ js_split (CHR '','') t"
  proof (induction s)
    case (Cons x xs)
    show ?case
    proof (cases "js_split (CHR '','') xs")
      case Nil
      then show ?thesis using js_split_nonempty by metis
    next
      case (Cons w ws)
      with Cons.IH show ?thesis by simp
    qed
  qed simp
  then show ?thesis by (simp add: forwarded_chain_def)
qed

lemma find_append_Some: "List.find P xs = Some x \<Longrightarrow> List.find P (xs @ ys) = Some x"
  by (induction xs) auto

text \<open>What a client puts in front of the hops its proxies append does not matter.\<close>

lemma forwarded_ip_prefix:
  assumes "resolveForwardedClientIp env (Some hops) proxies = Some ip"
  shows "resolveForwardedClientIp env (Some (forged @ '','' @ hops)) proxies = Some ip"
  using assms by (auto simp: resolveForwardedClientIp_def forwarded_chain_append find_append_Some simp del: append_Cons append_Nil
      split: if_splits)

lemma forwarded_ip_untrusted:
  assumes "resolveForwardedClientIp env hops proxies = Some ip"
  shows "\<not> isLoopbackAddress env (Some ip) \<and> \<not> isTrustedProxyAddress env (Some ip) proxies"
  using assms by (auto simp: resolveForwardedClientIp_def find_Some_iff split: if_splits)

section \<open>An example environment\<close>

text \<open>Dotted addresses stand for themselves, and those starting with 127 are loopback addresses.\<close>

definition sample_ipaddr :: "string ipaddr" where
  "sample_ipaddr =
     \<lparr>v4_isValid = (\<lambda>s. length (js_split (CHR ''.'') s) = 4),
      v4_isValidFourPartDecimal = (\<lambda>s. length (js_split (CHR ''.'') s) = 4), v4_parse = (\<lambda>s. s),
      v6_isValid = (\<lambda>_. False), v6_parse = (\<lambda>s. s), any_isValid = (\<lambda>s. length (js_split (CHR ''.'') s) = 4),
      any_parse = (\<lambda>s. s), is_v6 = (\<lambda>_. False), isIPv4MappedAddress = (\<lambda>_. False), toIPv4Address = (\<lambda>s. s),
      addr_string = (\<lambda>s. s),
      addr_range = (\<lambda>s. if starts_with s ''127.'' then ''loopback'' else ''unicast''),
      addr_parts = (\<lambda>_. []), parseCIDR = (\<lambda>_. None), match_prefix = (\<lambda>_ _. None)\<rparr>"

definition sample_net :: "string net_env" where
  "sample_net =
     \<lparr>ip_lib = sample_ipaddr, isIP = (\<lambda>s. if length (js_split (CHR ''.'') s) = 4 then 4 else 0),
      interfaces = Some [(''eth0'', Some [''10.0.0.5''])], parse_url = (\<lambda>_. None)\<rparr>"

end
