(* ===== verification/AuthRateLimit.thy ===== *)
theory AuthRateLimit
  imports GatewayNet
begin

text \<open>
  The limiter of failed authentications, \<^verbatim>\<open>gateway/auth-rate-limit.ts\<close>.  The state of a limiter is the
  map of its closure; the resolved configuration and the clock are arguments.  \<^verbatim>\<open>maxAttempts\<close> is used
  as it is configured, so it may be any number.
\<close>

definition AUTH_RATE_LIMIT_SCOPE_DEFAULT :: string where
  "AUTH_RATE_LIMIT_SCOPE_DEFAULT = ''default''"

definition AUTH_RATE_LIMIT_SCOPE_SHARED_SECRET :: string where
  "AUTH_RATE_LIMIT_SCOPE_SHARED_SECRET = ''shared-secret''"

definition BROWSER_ORIGIN_RATE_LIMIT_KEY_PREFIX :: string where
  "BROWSER_ORIGIN_RATE_LIMIT_KEY_PREFIX = ''browser-origin:''"

record rate_limit_config =
  cfg_maxAttempts :: "js_number option"
  cfg_windowMs :: "js_number option"
  cfg_lockoutMs :: "js_number option"
  cfg_exemptLoopback :: "bool option"
  cfg_pruneIntervalMs :: "js_number option"

record limiter_settings =
  maxAttempts :: js_number
  windowMs :: int
  lockoutMs :: int
  exemptLoopback :: bool
  pruneIntervalMs :: int

record rate_limit_entry =
  attempts :: "int list"
  lockedUntil :: "int option"

type_synonym limiter = "(string, rate_limit_entry) js_map"

record rate_check =
  allowed :: bool
  remaining :: js_number
  retryAfterMs :: int

definition opt_number :: "js_number option \<Rightarrow> js_value" where
  "opt_number n = (case n of None \<Rightarrow> VUndefined | Some v \<Rightarrow> VNum v)"

definition resolvePruneIntervalMs :: "js_number option \<Rightarrow> js_number" where
  "resolvePruneIntervalMs v =
     (case v of
        None \<Rightarrow> Num 60000
      | Some n \<Rightarrow> if is_finite_num n \<and> js_le n (Num 0) then Num 0
                  else resolveTimerTimeoutMs (VNum n) (Num 60000) (Num 1))"

definition createAuthRateLimiter :: "rate_limit_config \<Rightarrow> limiter_settings" where
  "createAuthRateLimiter c =
     \<lparr>maxAttempts = or_default (cfg_maxAttempts c) (Num 10),
      windowMs = whole_ms (resolveTimerTimeoutMs (opt_number (cfg_windowMs c)) (Num 60000) (Num 0)),
      lockoutMs = whole_ms (resolveTimerTimeoutMs (opt_number (cfg_lockoutMs c)) (Num 300000) (Num 0)),
      exemptLoopback = or_default (cfg_exemptLoopback c) True,
      pruneIntervalMs = whole_ms (resolvePruneIntervalMs (cfg_pruneIntervalMs c))\<rparr>"

definition normalizeRateLimitClientIp :: "'a net_env \<Rightarrow> string option \<Rightarrow> string" where
  "normalizeRateLimitClientIp env ip =
     (if (case ip of None \<Rightarrow> False | Some s \<Rightarrow> starts_with s BROWSER_ORIGIN_RATE_LIMIT_KEY_PREFIX)
      then or_default ip []
      else or_default (resolveClientIp env \<lparr>remoteAddr = ip, forwardedFor = None, realIp = None,
                         trustedProxies = None, allowRealIpFallback = False\<rparr>) ''unknown'')"

definition normalizeScope :: "string option \<Rightarrow> string" where
  "normalizeScope scope =
     (let t = js_trim (or_default scope AUTH_RATE_LIMIT_SCOPE_DEFAULT)
      in if t = [] then AUTH_RATE_LIMIT_SCOPE_DEFAULT else t)"

definition resolveKey :: "'a net_env \<Rightarrow> string option \<Rightarrow> string option \<Rightarrow> string" where
  "resolveKey env ip scope = normalizeScope scope @ '':'' @ normalizeRateLimitClientIp env ip"

definition isExempt :: "'a net_env \<Rightarrow> limiter_settings \<Rightarrow> string \<Rightarrow> bool" where
  "isExempt env cfg ip \<longleftrightarrow> exemptLoopback cfg \<and> isLoopbackAddress env (Some ip)"

definition slideWindow :: "limiter_settings \<Rightarrow> int \<Rightarrow> rate_limit_entry \<Rightarrow> rate_limit_entry" where
  "slideWindow cfg now e = e\<lparr>attempts := filter (\<lambda>ts. ts > now - windowMs cfg) (attempts e)\<rparr>"

text \<open>\<^verbatim>\<open>entry.lockedUntil && now < entry.lockedUntil\<close>, and the same with \<^verbatim>\<open>>=\<close>.\<close>

definition still_locked :: "int \<Rightarrow> rate_limit_entry \<Rightarrow> bool" where
  "still_locked now e = (case lockedUntil e of None \<Rightarrow> False | Some t \<Rightarrow> t \<noteq> 0 \<and> now < t)"

definition lock_expired :: "int \<Rightarrow> rate_limit_entry \<Rightarrow> bool" where
  "lock_expired now e = (case lockedUntil e of None \<Rightarrow> False | Some t \<Rightarrow> t \<noteq> 0 \<and> now \<ge> t)"

definition attempts_left :: "limiter_settings \<Rightarrow> nat \<Rightarrow> js_number" where
  "attempts_left cfg used = js_max (Num 0) (js_sub (maxAttempts cfg) (Num (of_nat used)))"

definition check ::
  "'a net_env \<Rightarrow> limiter_settings \<Rightarrow> int \<Rightarrow> string option \<Rightarrow> string option \<Rightarrow> limiter \<Rightarrow> rate_check \<times> limiter" where
  "check env cfg now ip scope m =
     (let key = resolveKey env ip scope
      in if isExempt env cfg (normalizeRateLimitClientIp env ip)
         then (\<lparr>allowed = True, remaining = maxAttempts cfg, retryAfterMs = 0\<rparr>, m)
         else
           (case js_get m key of
              None \<Rightarrow> (\<lparr>allowed = True, remaining = maxAttempts cfg, retryAfterMs = 0\<rparr>, m)
            | Some e \<Rightarrow>
                if still_locked now e
                then (\<lparr>allowed = False, remaining = Num 0, retryAfterMs = or_default (lockedUntil e) 0 - now\<rparr>, m)
                else
                  (let e1 = (if lock_expired now e then e\<lparr>lockedUntil := None, attempts := []\<rparr> else e);
                       e2 = slideWindow cfg now e1;
                       left = attempts_left cfg (length (attempts e2))
                   in (\<lparr>allowed = js_less (Num 0) left, remaining = left, retryAfterMs = 0\<rparr>, js_set key e2 m))))"

definition recordFailure ::
  "'a net_env \<Rightarrow> limiter_settings \<Rightarrow> int \<Rightarrow> string option \<Rightarrow> string option \<Rightarrow> limiter \<Rightarrow> limiter" where
  "recordFailure env cfg now ip scope m =
     (let key = resolveKey env ip scope
      in if isExempt env cfg (normalizeRateLimitClientIp env ip) then m
         else
           (let e = or_default (js_get m key) \<lparr>attempts = [], lockedUntil = None\<rparr>;
                m1 = (if js_get m key = None then js_set key e m else m)
            in if still_locked now e then m1
               else
                 (let e1 = slideWindow cfg now e;
                      e2 = e1\<lparr>attempts := attempts e1 @ [now]\<rparr>;
                      e3 = (if js_le (maxAttempts cfg) (Num (of_nat (length (attempts e2))))
                            then e2\<lparr>lockedUntil := Some (now + lockoutMs cfg)\<rparr> else e2)
                  in js_set key e3 m1)))"

definition reset_key :: "'a net_env \<Rightarrow> string option \<Rightarrow> string option \<Rightarrow> limiter \<Rightarrow> limiter" where
  "reset_key env ip scope m = js_delete (resolveKey env ip scope) m"

definition prune :: "limiter_settings \<Rightarrow> int \<Rightarrow> limiter \<Rightarrow> limiter" where
  "prune cfg now m =
     concat (map (\<lambda>(k, e).
       if still_locked now e then [(k, e)]
       else (let e1 = slideWindow cfg now e in if attempts e1 = [] then [] else [(k, e1)])) m)"

definition limiter_size :: "limiter \<Rightarrow> nat" where
  "limiter_size m = length m"

definition dispose :: "limiter \<Rightarrow> limiter" where
  "dispose m = []"

section \<open>Attempts\<close>

text \<open>
  How the gateway uses a limiter: check first, and when the attempt is allowed record the outcome of
  the comparison; a missing credential is not recorded.  A login by other means, such as a device token, resets the key.
\<close>

datatype credential = Missing | Wrong | Correct

datatype limiter_event =
    Attempt int "string option" "string option" credential
  | ResetKey int "string option" "string option"
  | PruneTick int

fun event_time :: "limiter_event \<Rightarrow> int" where
  "event_time (Attempt now _ _ _) = now"
| "event_time (ResetKey now _ _) = now"
| "event_time (PruneTick now) = now"

definition attempt ::
  "'a net_env \<Rightarrow> limiter_settings \<Rightarrow> int \<Rightarrow> string option \<Rightarrow> string option \<Rightarrow> credential \<Rightarrow> limiter
     \<Rightarrow> rate_check \<times> limiter" where
  "attempt env cfg now ip scope c m =
     (case check env cfg now ip scope m of
        (r, m1) \<Rightarrow>
          if \<not> allowed r then (r, m1)
          else (case c of
                  Missing \<Rightarrow> (r, m1)
                | Wrong \<Rightarrow> (r, recordFailure env cfg now ip scope m1)
                | Correct \<Rightarrow> (r, reset_key env ip scope m1)))"

fun limiter_step :: "'a net_env \<Rightarrow> limiter_settings \<Rightarrow> limiter_event \<Rightarrow> limiter \<Rightarrow> rate_check option \<times> limiter" where
  "limiter_step env cfg (Attempt now ip scope c) m =
     (case attempt env cfg now ip scope c m of (r, m1) \<Rightarrow> (Some r, m1))"
| "limiter_step env cfg (ResetKey now ip scope) m = (None, reset_key env ip scope m)"
| "limiter_step env cfg (PruneTick now) m = (None, prune cfg now m)"

fun run_limiter ::
  "'a net_env \<Rightarrow> limiter_settings \<Rightarrow> limiter_event list \<Rightarrow> limiter \<Rightarrow> rate_check option list \<times> limiter" where
  "run_limiter env cfg [] m = ([], m)"
| "run_limiter env cfg (ev # evs) m =
     (case limiter_step env cfg ev m of
        (r, m1) \<Rightarrow> (case run_limiter env cfg evs m1 of (rs, m2) \<Rightarrow> (r # rs, m2)))"

end
