(* ===== verification/GatewayAuth.thy ===== *)
theory GatewayAuth
  imports AuthRateLimit EnvSubst
begin

text \<open>
  Who may connect to the gateway: the resolution of the configured credentials
  (\<^verbatim>\<open>gateway/auth-resolve.ts\<close>, with what it uses of \<^verbatim>\<open>gateway/credentials.ts\<close> and
  \<^verbatim>\<open>gateway/credential-planner.ts\<close>), the comparison of secrets (\<^verbatim>\<open>security/secret-equal.ts\<close>) and the
  authorization of a connection (\<^verbatim>\<open>gateway/auth.ts\<close>).  The answer of the tailnet's identity service is
  the parameter \<^verbatim>\<open>whois\<close>; one attempt reads the clock once.
\<close>

section \<open>Secrets\<close>

text \<open>The UTF-8 bytes of a Latin-1 string.\<close>

definition utf8_char :: "char \<Rightarrow> nat list" where
  "utf8_char c = (let n = (of_char c :: nat) in if n < 128 then [n] else [192 + n div 64, 128 + n mod 64])"

definition utf8_bytes :: "string \<Rightarrow> nat list" where
  "utf8_bytes s = concat (map utf8_char s)"

definition padSecretBytes :: "nat list \<Rightarrow> nat \<Rightarrow> nat list" where
  "padSecretBytes bytes n = (if length bytes = n then bytes else take n bytes @ replicate (n - length bytes) 0)"

definition safeEqualSecret :: "string option \<Rightarrow> string option \<Rightarrow> bool" where
  "safeEqualSecret provided expected =
     (case (provided, expected) of
        (Some p, Some e) \<Rightarrow>
          (let providedBytes = utf8_bytes p;
               expectedBytes = utf8_bytes e;
               byteLength = max (length providedBytes) (length expectedBytes)
           in if byteLength = 0 then True
              else padSecretBytes providedBytes byteLength = padSecretBytes expectedBytes byteLength
                   \<and> length providedBytes = length expectedBytes)
      | _ \<Rightarrow> False)"

section \<open>Configured credentials\<close>

datatype auth_mode = ModeNone | ModeToken | ModePassword | ModeTrustedProxy

datatype auth_mode_source = FromOverride | FromConfig | FromPassword | FromToken | FromDefault

record trusted_proxy_config =
  userHeader :: string
  requiredHeaders :: "string list option"
  allowUsers :: "string list option"
  allowLoopback :: "bool option"

record gateway_auth_config =
  conf_mode :: "auth_mode option"
  conf_token :: "secret_input option"
  conf_password :: "secret_input option"
  conf_allowTailscale :: "bool option"
  conf_trustedProxy :: "trusted_proxy_config option"

record resolved_auth =
  mode :: auth_mode
  modeSource :: auth_mode_source
  token :: "string option"
  password :: "string option"
  allowTailscale :: bool
  trustedProxy :: "trusted_proxy_config option"

record gateway_process_env =
  env_OPENCLAW_GATEWAY_TOKEN :: "string option"
  env_OPENCLAW_GATEWAY_PASSWORD :: "string option"

definition firstDefined :: "string option list \<Rightarrow> string option" where
  "firstDefined vs = (case List.find (\<lambda>v. case v of None \<Rightarrow> False | Some s \<Rightarrow> s \<noteq> []) vs of None \<Rightarrow> None | Some v \<Rightarrow> v)"

definition trimCredentialToUndefined :: "secret_input option \<Rightarrow> string option" where
  "trimCredentialToUndefined v =
     (case v of
        Some (SecretText s) \<Rightarrow>
          (case normalizeOptionalString (Some s) of
             Some t \<Rightarrow> if containsEnvVarReference t then None else Some t
           | None \<Rightarrow> None)
      | _ \<Rightarrow> None)"

datatype precedence = EnvFirst | ConfigFirst

definition resolveGatewayCredentialsFromValues ::
  "secret_input option \<Rightarrow> secret_input option \<Rightarrow> gateway_process_env \<Rightarrow> precedence \<Rightarrow> precedence
     \<Rightarrow> string option \<times> string option" where
  "resolveGatewayCredentialsFromValues configToken configPassword penv tokenPrecedence passwordPrecedence =
     (let envToken = normalizeOptionalString (env_OPENCLAW_GATEWAY_TOKEN penv);
          envPassword = normalizeOptionalString (env_OPENCLAW_GATEWAY_PASSWORD penv);
          cToken = trimCredentialToUndefined configToken;
          cPassword = trimCredentialToUndefined configPassword
      in (firstDefined (if tokenPrecedence = ConfigFirst then [cToken, envToken] else [envToken, cToken]),
          firstDefined (if passwordPrecedence = ConfigFirst then [cPassword, envPassword] else [envPassword, cPassword])))"

text \<open>
  A present field of the override replaces the configured one.  The limiter settings of the same object
  are read by the server that creates the limiter, not here, and are left out of the record.
\<close>

definition overlay_auth :: "gateway_auth_config \<Rightarrow> gateway_auth_config option \<Rightarrow> gateway_auth_config" where
  "overlay_auth base override =
     (case override of
        None \<Rightarrow> base
      | Some ov \<Rightarrow>
          \<lparr>conf_mode = or_else (conf_mode ov) (conf_mode base), conf_token = or_else (conf_token ov) (conf_token base),
           conf_password = or_else (conf_password ov) (conf_password base),
           conf_allowTailscale = or_else (conf_allowTailscale ov) (conf_allowTailscale base),
           conf_trustedProxy = or_else (conf_trustedProxy ov) (conf_trustedProxy base)\<rparr>)"

definition no_secret_defaults :: secret_defaults where
  "no_secret_defaults = \<lparr>default_env = None, default_file = None, default_exec = None\<rparr>"

definition plain_input :: "secret_input option \<Rightarrow> secret_input option" where
  "plain_input v =
     (case v of None \<Rightarrow> None
      | Some x \<Rightarrow> if resolveSecretInputRef no_secret_defaults x SecretOther \<noteq> None then None else Some x)"

definition resolveGatewayAuth ::
  "gateway_auth_config \<Rightarrow> gateway_auth_config option \<Rightarrow> gateway_process_env \<Rightarrow> string option \<Rightarrow> resolved_auth" where
  "resolveGatewayAuth base override penv tailscaleMode =
     (let conf = overlay_auth base override;
          creds = resolveGatewayCredentialsFromValues (plain_input (conf_token conf)) (plain_input (conf_password conf))
                    penv ConfigFirst ConfigFirst;
          tok = fst creds;
          pass = snd creds;
          m = (case Option.bind override conf_mode of
                 Some md \<Rightarrow> (md, FromOverride)
               | None \<Rightarrow>
                   (case conf_mode conf of
                      Some md \<Rightarrow> (md, FromConfig)
                    | None \<Rightarrow> if pass \<noteq> None then (ModePassword, FromPassword)
                              else if tok \<noteq> None then (ModeToken, FromToken)
                              else (ModeToken, FromDefault)))
      in \<lparr>mode = fst m, modeSource = snd m, token = tok, password = pass,
          allowTailscale = or_default (conf_allowTailscale conf)
            (tailscaleMode = Some ''serve'' \<and> fst m \<noteq> ModePassword \<and> fst m \<noteq> ModeTrustedProxy),
          trustedProxy = conf_trustedProxy conf\<rparr>)"

definition resolveEffectiveSharedGatewayAuth ::
  "gateway_auth_config \<Rightarrow> gateway_auth_config option \<Rightarrow> gateway_process_env \<Rightarrow> string option
     \<Rightarrow> (auth_mode \<times> string option) option" where
  "resolveEffectiveSharedGatewayAuth base override penv tailscaleMode =
     (let r = resolveGatewayAuth base override penv tailscaleMode
      in if mode r = ModeToken then Some (ModeToken, token r)
         else if mode r = ModePassword then Some (ModePassword, password r)
         else None)"

definition present :: "string option \<Rightarrow> bool" where
  "present v = (case v of None \<Rightarrow> False | Some s \<Rightarrow> s \<noteq> [])"

datatype auth_config_error = NoToken | PasswordIsReference | NoPassword | NoTrustedProxy | NoUserHeader | TokenWithTrustedProxy

definition assertGatewayAuthConfigured :: "resolved_auth \<Rightarrow> secret_input option \<Rightarrow> auth_config_error + unit" where
  "assertGatewayAuthConfigured auth rawPassword =
     (if mode auth = ModeToken \<and> \<not> present (token auth) then
        (if allowTailscale auth then Inr () else Inl NoToken)
      else if mode auth = ModePassword \<and> \<not> present (password auth) then
        (case rawPassword of
           None \<Rightarrow> Inl NoPassword
         | Some (SecretText _) \<Rightarrow> Inl NoPassword
         | Some _ \<Rightarrow> Inl PasswordIsReference)
      else if mode auth = ModeTrustedProxy then
        (case trustedProxy auth of
           None \<Rightarrow> Inl NoTrustedProxy
         | Some tp \<Rightarrow> if js_trim (userHeader tp) = [] then Inl NoUserHeader
                       else if present (token auth) then Inl TokenWithTrustedProxy else Inr ())
      else Inr ())"

section \<open>The request\<close>

datatype auth_method = ByNone | ByToken | ByPassword | ByTailscale | ByTrustedProxy

record gateway_auth_result =
  ok :: bool
  auth_via :: "auth_method option"
  auth_user :: "string option"
  reason :: "string option"
  rateLimited :: bool
  retryAfter :: "int option"

datatype auth_surface = HttpSurface | WsControlUiSurface

record connect_auth =
  ca_token :: "string option"
  ca_password :: "string option"

record browser_origin_policy =
  bp_requestHost :: "string option"
  bp_origin :: "string option"
  bp_allowedOrigins :: "string list option"
  bp_hostFallback :: bool

record connect_params =
  cp_auth :: resolved_auth
  connectAuth :: "connect_auth option"
  cp_req :: "http_request option"
  cp_trustedProxies :: "string list option"
  cp_authSurface :: "auth_surface option"
  rateLimiter :: "limiter_settings option"
  clientIp :: "string option"
  rateLimitScope :: "string option"
  cp_allowRealIpFallback :: bool
  browserOriginPolicy :: "browser_origin_policy option"

record whois_identity =
  whois_login :: string
  whois_name :: "string option"

record tailscale_user =
  ts_login :: string
  ts_name :: string

definition truthy_header :: "header_value option \<Rightarrow> bool" where
  "truthy_header v = (case v of None \<Rightarrow> False | Some (OneValue s) \<Rightarrow> s \<noteq> [] | Some (ManyValues _) \<Rightarrow> True)"

definition hasForwardedRequestHeaders :: "http_request option \<Rightarrow> bool" where
  "hasForwardedRequestHeaders req =
     (case req of
        None \<Rightarrow> False
      | Some r \<Rightarrow>
          truthy_header (js_get (headers r) ''forwarded'') \<or> truthy_header (js_get (headers r) ''x-real-ip'')
          \<or> list_ex (\<lambda>h. starts_with (normalizeLowercaseStringOrEmpty (Some h)) ''x-forwarded-'') (js_keys (headers r)))"

definition isLocalDirectRequest :: "'a net_env \<Rightarrow> http_request option \<Rightarrow> bool" where
  "isLocalDirectRequest env req =
     (case req of
        None \<Rightarrow> False
      | Some r \<Rightarrow> if \<not> hasForwardedRequestHeaders req then isLoopbackAddress env (remoteAddress r) else False)"

record auth_context =
  ctx_surface :: auth_surface
  ctx_ip :: "string option"
  ctx_scope :: string
  localDirect :: bool

definition resolveGatewayAuthRequestContext :: "'a net_env \<Rightarrow> connect_params \<Rightarrow> auth_context" where
  "resolveGatewayAuthRequestContext env p =
     \<lparr>ctx_surface = or_default (cp_authSurface p) HttpSurface,
      ctx_ip = or_else (clientIp p)
        (or_else (resolveRequestClientIp env (cp_req p) (cp_trustedProxies p) (cp_allowRealIpFallback p))
          (Option.bind (cp_req p) remoteAddress)),
      ctx_scope = or_default (rateLimitScope p) AUTH_RATE_LIMIT_SCOPE_SHARED_SECRET,
      localDirect = isLocalDirectRequest env (cp_req p)\<rparr>"

definition hasExplicitSharedSecretAuth :: "connect_auth option \<Rightarrow> bool" where
  "hasExplicitSharedSecretAuth c \<longleftrightarrow>
     normalizeOptionalString (Option.bind c ca_token) \<noteq> None \<or> normalizeOptionalString (Option.bind c ca_password) \<noteq> None"

definition normalizeLogin :: "string \<Rightarrow> string" where
  "normalizeLogin login = normalizeLowercaseStringOrEmpty (Some login)"

section \<open>Tailnet identity\<close>

definition resolveTailscaleClientIp :: "'a net_env \<Rightarrow> http_request option \<Rightarrow> string option" where
  "resolveTailscaleClientIp env req =
     (case req of
        None \<Rightarrow> None
      | Some r \<Rightarrow> resolveClientIp env
          \<lparr>remoteAddr = Some (or_default (remoteAddress r) []),
           forwardedFor = headerValue (js_get (headers r) ''x-forwarded-for''), realIp = None,
           trustedProxies = Some [''127.0.0.1'', ''::1''], allowRealIpFallback = False\<rparr>)"

definition header_string :: "header_value option \<Rightarrow> string option" where
  "header_string v = (case v of Some (OneValue s) \<Rightarrow> normalizeOptionalString (Some s) | _ \<Rightarrow> None)"

definition getTailscaleUser :: "http_request option \<Rightarrow> tailscale_user option" where
  "getTailscaleUser req =
     (case req of
        None \<Rightarrow> None
      | Some r \<Rightarrow>
          (case header_string (js_get (headers r) ''tailscale-user-login'') of
             None \<Rightarrow> None
           | Some login \<Rightarrow>
               Some \<lparr>ts_login = login,
                     ts_name = or_default (header_string (js_get (headers r) ''tailscale-user-name'')) login\<rparr>))"

definition hasTailscaleProxyHeaders :: "http_request option \<Rightarrow> bool" where
  "hasTailscaleProxyHeaders req =
     (case req of
        None \<Rightarrow> False
      | Some r \<Rightarrow> truthy_header (js_get (headers r) ''x-forwarded-for'')
                 \<and> truthy_header (js_get (headers r) ''x-forwarded-proto'')
                 \<and> truthy_header (js_get (headers r) ''x-forwarded-host''))"

definition isTailscaleProxyRequest :: "'a net_env \<Rightarrow> http_request option \<Rightarrow> bool" where
  "isTailscaleProxyRequest env req =
     (case req of
        None \<Rightarrow> False
      | Some r \<Rightarrow> isLoopbackAddress env (remoteAddress r) \<and> hasTailscaleProxyHeaders req)"

definition resolveVerifiedTailscaleUser ::
  "'a net_env \<Rightarrow> (string \<Rightarrow> whois_identity option) \<Rightarrow> http_request option \<Rightarrow> string + tailscale_user" where
  "resolveVerifiedTailscaleUser env whois req =
     (case getTailscaleUser req of
        None \<Rightarrow> Inl ''tailscale_user_missing''
      | Some tu \<Rightarrow>
          if \<not> isTailscaleProxyRequest env req then Inl ''tailscale_proxy_missing''
          else
            (case resolveTailscaleClientIp env req of
               None \<Rightarrow> Inl ''tailscale_whois_failed''
             | Some ip \<Rightarrow>
                 if ip = [] then Inl ''tailscale_whois_failed''
                 else
                   (case whois ip of
                      None \<Rightarrow> Inl ''tailscale_whois_failed''
                    | Some w \<Rightarrow>
                        if whois_login w = [] then Inl ''tailscale_whois_failed''
                        else if normalizeLogin (whois_login w) \<noteq> normalizeLogin (ts_login tu)
                        then Inl ''tailscale_user_mismatch''
                        else Inr \<lparr>ts_login = whois_login w, ts_name = or_default (whois_name w) (ts_name tu)\<rparr>)))"

section \<open>Trusted proxies\<close>

definition blank_header :: "string option \<Rightarrow> bool" where
  "blank_header v = (case v of None \<Rightarrow> True | Some s \<Rightarrow> js_trim s = [])"

definition request_header :: "http_request \<Rightarrow> string \<Rightarrow> string option" where
  "request_header r name = headerValue (js_get (headers r) (normalizeLowercaseStringOrEmpty (Some name)))"

definition authorizeTrustedProxy ::
  "'a net_env \<Rightarrow> http_request option \<Rightarrow> string list option \<Rightarrow> trusted_proxy_config \<Rightarrow> string + string" where
  "authorizeTrustedProxy env req proxies cfg =
     (case req of
        None \<Rightarrow> Inl ''trusted_proxy_no_request''
      | Some r \<Rightarrow>
          (let remote = remoteAddress r;
               remoteIsLoopback = isLoopbackAddress env remote;
               localMatch = resolveLocalInterfaceAddressMatch env remote
           in if \<not> present remote \<or> \<not> isTrustedProxyAddress env remote proxies
              then Inl ''trusted_proxy_untrusted_source''
              else if remoteIsLoopback \<and> allowLoopback cfg \<noteq> Some True then Inl ''trusted_proxy_loopback_source''
              else if \<not> remoteIsLoopback \<and> localMatch = None
              then Inl ''trusted_proxy_local_interface_check_failed''
              else if \<not> remoteIsLoopback \<and> localMatch = Some True then Inl ''trusted_proxy_local_interface_source''
              else
                (case List.find (\<lambda>h. blank_header (request_header r h)) (or_default (requiredHeaders cfg) []) of
                   Some h \<Rightarrow> Inl (''trusted_proxy_missing_header_'' @ h)
                 | None \<Rightarrow>
                     if blank_header (request_header r (userHeader cfg)) then Inl ''trusted_proxy_user_missing''
                     else
                       (let user = js_trim (or_default (request_header r (userHeader cfg)) []);
                            allow = or_default (allowUsers cfg) []
                        in if allow \<noteq> [] \<and> user \<notin> set allow then Inl ''trusted_proxy_user_not_allowed''
                           else Inr user))))"

definition shouldAllowTailscaleHeaderAuth :: "auth_surface \<Rightarrow> bool" where
  "shouldAllowTailscaleHeaderAuth s \<longleftrightarrow> s = WsControlUiSurface"

text \<open>\<^const>\<open>None\<close> when the origin is acceptable, else the reason.\<close>

definition authorizeTrustedProxyBrowserOrigin ::
  "'a net_env \<Rightarrow> auth_surface \<Rightarrow> browser_origin_policy option \<Rightarrow> string option" where
  "authorizeTrustedProxyBrowserOrigin env surface policy =
     (if surface \<noteq> HttpSurface then None
      else
        (case Option.bind policy bp_origin of
           None \<Rightarrow> None
         | Some raw \<Rightarrow>
             if js_trim raw = [] then None
             else
               (case checkBrowserOrigin env
                       \<lparr>op_requestHost = Option.bind policy bp_requestHost, op_origin = Some (js_trim raw),
                        op_allowedOrigins = Option.bind policy bp_allowedOrigins,
                        op_hostFallback = (case policy of None \<Rightarrow> False | Some b \<Rightarrow> bp_hostFallback b),
                        op_isLocalClient = Some False\<rparr> of
                  OriginOk _ \<Rightarrow> None
                | OriginRefused _ \<Rightarrow> Some ''trusted_proxy_origin_not_allowed'')))"

section \<open>Authorization\<close>

definition refused :: "string \<Rightarrow> gateway_auth_result" where
  "refused r = \<lparr>ok = False, auth_via = None, auth_user = None, reason = Some r, rateLimited = False, retryAfter = None\<rparr>"

definition granted_by :: "auth_method \<Rightarrow> string option \<Rightarrow> gateway_auth_result" where
  "granted_by m user = \<lparr>ok = True, auth_via = Some m, auth_user = user, reason = None, rateLimited = False, retryAfter = None\<rparr>"

definition charge ::
  "'a net_env \<Rightarrow> limiter_settings option \<Rightarrow> int \<Rightarrow> string option \<Rightarrow> string \<Rightarrow> limiter \<Rightarrow> limiter" where
  "charge env rl now ip scope m =
     (case rl of None \<Rightarrow> m | Some cfg \<Rightarrow> recordFailure env cfg now ip (Some scope) m)"

definition forgive :: "'a net_env \<Rightarrow> limiter_settings option \<Rightarrow> string option \<Rightarrow> string \<Rightarrow> limiter \<Rightarrow> limiter" where
  "forgive env rl ip scope m = (case rl of None \<Rightarrow> m | Some cfg \<Rightarrow> reset_key env ip (Some scope) m)"

definition authorizeTokenAuth ::
  "'a net_env \<Rightarrow> limiter_settings option \<Rightarrow> int \<Rightarrow> string option \<Rightarrow> string \<Rightarrow> string option \<Rightarrow> string option \<Rightarrow> limiter
     \<Rightarrow> gateway_auth_result \<times> limiter" where
  "authorizeTokenAuth env rl now ip scope authToken connectToken m =
     (if \<not> present authToken then (refused ''token_missing_config'', m)
      else if \<not> present connectToken then (refused ''token_missing'', m)
      else if \<not> safeEqualSecret connectToken authToken then (refused ''token_mismatch'', charge env rl now ip scope m)
      else (granted_by ByToken None, forgive env rl ip scope m))"

definition authorizePasswordAuth ::
  "'a net_env \<Rightarrow> limiter_settings option \<Rightarrow> int \<Rightarrow> string option \<Rightarrow> string \<Rightarrow> string option \<Rightarrow> string option \<Rightarrow> limiter
     \<Rightarrow> gateway_auth_result \<times> limiter" where
  "authorizePasswordAuth env rl now ip scope authPassword connectPassword m =
     (if \<not> present authPassword then (refused ''password_missing_config'', m)
      else if \<not> present connectPassword then (refused ''password_missing'', m)
      else if \<not> safeEqualSecret connectPassword authPassword
      then (refused ''password_mismatch'', charge env rl now ip scope m)
      else (granted_by ByPassword None, forgive env rl ip scope m))"

definition rejectIfRateLimited ::
  "'a net_env \<Rightarrow> limiter_settings option \<Rightarrow> int \<Rightarrow> string option \<Rightarrow> string \<Rightarrow> limiter
     \<Rightarrow> gateway_auth_result option \<times> limiter" where
  "rejectIfRateLimited env rl now ip scope m =
     (case rl of
        None \<Rightarrow> (None, m)
      | Some cfg \<Rightarrow>
          (case check env cfg now ip (Some scope) m of
             (r, m1) \<Rightarrow>
               if allowed r then (None, m1)
               else (Some ((refused ''rate_limited'')\<lparr>rateLimited := True, retryAfter := Some (retryAfterMs r)\<rparr>), m1)))"

definition tailscale_eligible :: "'a net_env \<Rightarrow> connect_params \<Rightarrow> bool" where
  "tailscale_eligible env p \<longleftrightarrow>
     (let ctx = resolveGatewayAuthRequestContext env p
      in shouldAllowTailscaleHeaderAuth (ctx_surface ctx) \<and> allowTailscale (cp_auth p) \<and> \<not> localDirect ctx
         \<and> \<not> hasExplicitSharedSecretAuth (connectAuth p))"

definition authorizeSharedSecret ::
  "'a net_env \<Rightarrow> int \<Rightarrow> connect_params \<Rightarrow> limiter \<Rightarrow> gateway_auth_result \<times> limiter" where
  "authorizeSharedSecret env now p m =
     (let auth = cp_auth p;
          ctx = resolveGatewayAuthRequestContext env p
      in if mode auth = ModeToken then
           authorizeTokenAuth env (rateLimiter p) now (ctx_ip ctx) (ctx_scope ctx) (token auth)
             (Option.bind (connectAuth p) ca_token) m
         else if mode auth = ModePassword then
           authorizePasswordAuth env (rateLimiter p) now (ctx_ip ctx) (ctx_scope ctx) (password auth)
             (Option.bind (connectAuth p) ca_password) m
         else (refused ''unauthorized'', charge env (rateLimiter p) now (ctx_ip ctx) (ctx_scope ctx) m))"

definition authorizeProxyMode ::
  "'a net_env \<Rightarrow> int \<Rightarrow> connect_params \<Rightarrow> limiter \<Rightarrow> gateway_auth_result \<times> limiter" where
  "authorizeProxyMode env now p m =
     (let auth = cp_auth p;
          ctx = resolveGatewayAuthRequestContext env p;
          proxies = cp_trustedProxies p
      in case trustedProxy auth of
           None \<Rightarrow> (refused ''trusted_proxy_config_missing'', m)
         | Some tp \<Rightarrow>
             if proxies = None \<or> proxies = Some [] then (refused ''trusted_proxy_no_proxies_configured'', m)
             else
               (case authorizeTrustedProxy env (cp_req p) proxies tp of
                  Inr user \<Rightarrow>
                    (case authorizeTrustedProxyBrowserOrigin env (ctx_surface ctx) (browserOriginPolicy p) of
                       Some r \<Rightarrow> (refused r, m)
                     | None \<Rightarrow> (granted_by ByTrustedProxy (Some user), m))
                | Inl r \<Rightarrow>
                    if localDirect ctx \<and> present (password auth) \<and> present (Option.bind (connectAuth p) ca_password)
                    then
                      (case rejectIfRateLimited env (rateLimiter p) now (ctx_ip ctx) (ctx_scope ctx) m of
                         (Some res, m1) \<Rightarrow> (res, m1)
                       | (None, m1) \<Rightarrow>
                           authorizePasswordAuth env (rateLimiter p) now (ctx_ip ctx) (ctx_scope ctx) (password auth)
                             (Option.bind (connectAuth p) ca_password) m1)
                    else (refused r, m)))"

definition authorizeGatewayConnectCore ::
  "'a net_env \<Rightarrow> (string \<Rightarrow> whois_identity option) \<Rightarrow> int \<Rightarrow> connect_params \<Rightarrow> limiter \<Rightarrow> gateway_auth_result \<times> limiter" where
  "authorizeGatewayConnectCore env whois now p m =
     (let auth = cp_auth p;
          ctx = resolveGatewayAuthRequestContext env p
      in if mode auth = ModeTrustedProxy then authorizeProxyMode env now p m
         else if mode auth = ModeNone then (granted_by ByNone None, m)
         else
           (case rejectIfRateLimited env (rateLimiter p) now (ctx_ip ctx) (ctx_scope ctx) m of
              (Some res, m1) \<Rightarrow> (res, m1)
            | (None, m1) \<Rightarrow>
                (case (if tailscale_eligible env p then resolveVerifiedTailscaleUser env whois (cp_req p) else Inl []) of
                   Inr tu \<Rightarrow> (granted_by ByTailscale (Some (ts_login tu)), forgive env (rateLimiter p) (ctx_ip ctx) (ctx_scope ctx) m1)
                 | Inl _ \<Rightarrow> authorizeSharedSecret env now p m1)))"

definition authorizeHttpGatewayConnect ::
  "'a net_env \<Rightarrow> (string \<Rightarrow> whois_identity option) \<Rightarrow> int \<Rightarrow> connect_params \<Rightarrow> limiter \<Rightarrow> gateway_auth_result \<times> limiter" where
  "authorizeHttpGatewayConnect env whois now p m =
     authorizeGatewayConnectCore env whois now (p\<lparr>cp_authSurface := Some HttpSurface\<rparr>) m"

definition authorizeWsControlUiGatewayConnect ::
  "'a net_env \<Rightarrow> (string \<Rightarrow> whois_identity option) \<Rightarrow> int \<Rightarrow> connect_params \<Rightarrow> limiter \<Rightarrow> gateway_auth_result \<times> limiter" where
  "authorizeWsControlUiGatewayConnect env whois now p m =
     authorizeGatewayConnectCore env whois now (p\<lparr>cp_authSurface := Some WsControlUiSurface\<rparr>) m"

end
