(* ===== verification/AuthRateLimitProps.thy ===== *)
theory AuthRateLimitProps
  imports AuthRateLimit
begin

text \<open>
  The guarantees of the limiter.  Its abstract specification keeps, per key, the log of every wrong
  credential and the time a lockout ends; the code keeps a window of that log and drops entries in the
  background, and answers the same.  The events are attempts, prunings and resets of a key; the end of the theory
  covers every exported call and says which of them can lift a lockout.
\<close>

section \<open>Settings\<close>

lemma resolved_ms: "0 \<le> whole_ms (resolveTimerTimeoutMs v (Num f) (Num m))"
  using timer_int_bounds(1) by (simp add: resolveTimer_int whole_ms_def)

lemma created_settings [simp]:
  "0 \<le> windowMs (createAuthRateLimiter c)" "0 \<le> lockoutMs (createAuthRateLimiter c)"
  using resolved_ms by (simp_all add: createAuthRateLimiter_def)

text \<open>A limit a configuration can sensibly have: positive and a safe integer.\<close>

definition positive_limit :: "limiter_settings \<Rightarrow> nat \<Rightarrow> bool" where
  "positive_limit cfg n \<longleftrightarrow> maxAttempts cfg = Num (of_nat n) \<and> 0 < n \<and> int n \<le> MAX_SAFE_INTEGER"

lemma left_value:
  assumes "positive_limit cfg n"
  shows "attempts_left cfg used = Num (of_nat (n - used))"
proof -
  have "(of_nat n :: rat) \<le> of_int MAX_SAFE_INTEGER"
    using assms unfolding positive_limit_def by (metis of_int_le_iff of_int_of_nat_eq)
  then have le: "(of_nat n :: rat) \<le> 9007199254740991" by (simp add: MAX_SAFE_INTEGER_def)
  have "(of_nat n :: rat) - of_nat used \<le> of_nat n" by simp
  with le have "(of_nat n :: rat) - of_nat used < 2 ^ 1024 - 2 ^ 970" by simp
  then have exact: "js_of_exact (of_nat n - of_nat used) = (if of_nat n - of_nat used \<le> - (2 ^ 1024 - 2 ^ 970 :: rat)
      then NInf else Num (of_nat n - of_nat used))"
    by (simp add: js_of_exact_def)
  have "(0 :: rat) < 2 ^ 1024 - 2 ^ 970" by simp
  moreover have "used \<le> n \<Longrightarrow> (0 :: rat) \<le> of_nat n - of_nat used" by simp
  ultimately have pos: "used \<le> n \<Longrightarrow> \<not> of_nat n - of_nat used \<le> - (2 ^ 1024 - 2 ^ 970 :: rat)" by linarith
  have sub: "attempts_left cfg used = js_max (Num 0) (js_of_exact (of_nat n - of_nat used))"
    using assms by (simp add: attempts_left_def js_sub_def positive_limit_def)
  show ?thesis
  proof (cases "used \<le> n")
    case True
    then have "js_of_exact (of_nat n - of_nat used) = Num (of_nat (n - used))"
      unfolding exact using pos by (simp only: if_False of_nat_diff)
    then show ?thesis by (simp add: sub)
  next
    case False
    then have "(of_nat n - of_nat used :: rat) \<le> 0" by simp
    then have "js_max (Num 0) (js_of_exact (of_nat n - of_nat used)) = Num 0"
      unfolding exact by (simp split: if_split del: power_numeral)
    with False show ?thesis by (simp add: sub)
  qed
qed

section \<open>The specification\<close>

record spec_key =
  log :: "int list"
  lock :: "int option"

definition fresh_key :: spec_key where
  "fresh_key = \<lparr>log = [], lock = None\<rparr>"

definition recent :: "limiter_settings \<Rightarrow> int \<Rightarrow> int list \<Rightarrow> int list" where
  "recent cfg now ts = filter (\<lambda>t. t > now - windowMs cfg) ts"

definition spec_open ::
  "limiter_settings \<Rightarrow> int \<Rightarrow> credential \<Rightarrow> int list \<Rightarrow> rate_check \<times> spec_key" where
  "spec_open cfg now c ts =
     (let left = attempts_left cfg (length (recent cfg now ts));
          r = \<lparr>allowed = js_less (Num 0) left, remaining = left, retryAfterMs = 0\<rparr>
      in if \<not> allowed r then (r, \<lparr>log = ts, lock = None\<rparr>)
         else (case c of
                 Missing \<Rightarrow> (r, \<lparr>log = ts, lock = None\<rparr>)
               | Correct \<Rightarrow> (r, fresh_key)
               | Wrong \<Rightarrow> (r, \<lparr>log = ts @ [now],
                     lock = (if js_le (maxAttempts cfg) (Num (of_nat (Suc (length (recent cfg now ts)))))
                             then Some (now + lockoutMs cfg) else None)\<rparr>)))"

definition spec_attempt ::
  "limiter_settings \<Rightarrow> int \<Rightarrow> credential \<Rightarrow> spec_key \<Rightarrow> rate_check \<times> spec_key" where
  "spec_attempt cfg now c k =
     (case lock k of
        Some t \<Rightarrow>
          if now < t then (\<lparr>allowed = False, remaining = Num 0, retryAfterMs = t - now\<rparr>, k)
          else spec_open cfg now c []
      | None \<Rightarrow> spec_open cfg now c (log k))"

fun spec_step ::
  "'a net_env \<Rightarrow> limiter_settings \<Rightarrow> limiter_event \<Rightarrow> (string \<Rightarrow> spec_key)
     \<Rightarrow> rate_check option \<times> (string \<Rightarrow> spec_key)" where
  "spec_step env cfg (Attempt now ip scope c) f =
     (if isExempt env cfg (normalizeRateLimitClientIp env ip)
      then (Some \<lparr>allowed = True, remaining = maxAttempts cfg, retryAfterMs = 0\<rparr>,
            if c = Correct then f(resolveKey env ip scope := fresh_key) else f)
      else (case spec_attempt cfg now c (f (resolveKey env ip scope)) of
              (r, k) \<Rightarrow> (Some r, f(resolveKey env ip scope := k))))"
| "spec_step env cfg (ResetKey now ip scope) f = (None, f(resolveKey env ip scope := fresh_key))"
| "spec_step env cfg (PruneTick now) f = (None, f)"

fun run_spec ::
  "'a net_env \<Rightarrow> limiter_settings \<Rightarrow> limiter_event list \<Rightarrow> (string \<Rightarrow> spec_key)
     \<Rightarrow> rate_check option list \<times> (string \<Rightarrow> spec_key)" where
  "run_spec env cfg [] f = ([], f)"
| "run_spec env cfg (ev # evs) f =
     (case spec_step env cfg ev f of
        (r, f1) \<Rightarrow> (case run_spec env cfg evs f1 of (rs, f2) \<Rightarrow> (r # rs, f2)))"

section \<open>The simulation\<close>

definition sim_key :: "limiter_settings \<Rightarrow> int \<Rightarrow> rate_limit_entry option \<Rightarrow> spec_key \<Rightarrow> bool" where
  "sim_key cfg now e k \<longleftrightarrow>
     (case lock k of None \<Rightarrow> True | Some t \<Rightarrow> 0 < t) \<and>
     (case e of
        None \<Rightarrow> (case lock k of Some t \<Rightarrow> t \<le> now | None \<Rightarrow> recent cfg now (log k) = [])
      | Some x \<Rightarrow> lockedUntil x = lock k \<and> recent cfg now (attempts x) = recent cfg now (log k))"

definition sim :: "limiter_settings \<Rightarrow> int \<Rightarrow> limiter \<Rightarrow> (string \<Rightarrow> spec_key) \<Rightarrow> bool" where
  "sim cfg now m f \<longleftrightarrow> distinct (js_keys m) \<and> (\<forall>k. sim_key cfg now (js_get m k) (f k))"

lemma recent_later: "now \<le> later \<Longrightarrow> recent cfg later (recent cfg now ts) = recent cfg later ts"
  by (auto simp: recent_def intro: filter_cong)

lemma recent_simps [simp]:
  "recent cfg now (recent cfg now ts) = recent cfg now ts"
  "recent cfg now (ts @ us) = recent cfg now ts @ recent cfg now us"
  "recent cfg now [] = []"
  by (simp_all add: recent_def)

lemma sim_key_later:
  assumes "sim_key cfg now e k" and le: "now \<le> later"
  shows "sim_key cfg later e k"
proof -
  have eq: "recent cfg later ts = recent cfg later us" if "recent cfg now ts = recent cfg now us" for ts us
    using that recent_later [OF le, of cfg ts] recent_later [OF le, of cfg us] by simp
  show ?thesis
  proof (cases e)
    case None
    with assms eq [of "log k" "[]"] show ?thesis by (cases "lock k") (simp_all add: sim_key_def)
  next
    case (Some x)
    with assms(1) eq [of "attempts x" "log k"] show ?thesis by (simp add: sim_key_def)
  qed
qed

lemma sim_later: "sim cfg now m f \<Longrightarrow> now \<le> later \<Longrightarrow> sim cfg later m f"
  unfolding sim_def by (blast intro: sim_key_later)

lemma slide_recent: "attempts (slideWindow cfg now e) = recent cfg now (attempts e)"
  "lockedUntil (slideWindow cfg now e) = lockedUntil e"
  by (simp_all add: slideWindow_def recent_def)

definition open_log :: "spec_key \<Rightarrow> int list" where
  "open_log k = (if lock k = None then log k else [])"

lemma spec_attempt_open:
  "\<not> (\<exists>t. lock k = Some t \<and> now < t) \<Longrightarrow> spec_attempt cfg now c k = spec_open cfg now c (open_log k)"
  by (auto simp: spec_attempt_def open_log_def split: option.split)

text \<open>What a check leaves of an entry that is not locked: the recent part of the log.\<close>

definition open_entry :: "limiter_settings \<Rightarrow> int \<Rightarrow> rate_limit_entry option \<Rightarrow> int list \<Rightarrow> bool" where
  "open_entry cfg now e ts \<longleftrightarrow>
     (case e of None \<Rightarrow> recent cfg now ts = []
      | Some x \<Rightarrow> lockedUntil x = None \<and> attempts x = recent cfg now ts)"

definition spec_answer :: "limiter_settings \<Rightarrow> int \<Rightarrow> int list \<Rightarrow> rate_check" where
  "spec_answer cfg now ts =
     (let left = attempts_left cfg (length (recent cfg now ts))
      in \<lparr>allowed = js_less (Num 0) left, remaining = left, retryAfterMs = 0\<rparr>)"

lemma check_locked:
  assumes "\<not> isExempt env cfg (normalizeRateLimitClientIp env ip)"
    and "js_get m (resolveKey env ip scope) = Some e" and "lockedUntil e = Some t" and "0 < t" and "now < t"
  shows "check env cfg now ip scope m = (\<lparr>allowed = False, remaining = Num 0, retryAfterMs = t - now\<rparr>, m)"
  using assms by (simp add: check_def Let_def still_locked_def)

lemma check_open:
  assumes ex: "\<not> isExempt env cfg (normalizeRateLimitClientIp env ip)" and lim: "positive_limit cfg n"
    and sim: "sim_key cfg now (js_get m (resolveKey env ip scope)) k"
    and un: "\<not> (\<exists>t. lock k = Some t \<and> now < t)"
  shows "\<exists>m1. check env cfg now ip scope m = (spec_answer cfg now (open_log k), m1)
           \<and> open_entry cfg now (js_get m1 (resolveKey env ip scope)) (open_log k)
           \<and> (m1 = m \<or> (\<exists>e. m1 = js_set (resolveKey env ip scope) e m))"
proof (cases "js_get m (resolveKey env ip scope)")
  case None
  then have "recent cfg now (open_log k) = []"
    using sim un by (auto simp: sim_key_def open_log_def split: option.splits)
  with None ex lim left_value [OF lim, of 0] show ?thesis
    by (auto simp: check_def spec_answer_def open_entry_def positive_limit_def)
next
  case (Some e)
  let ?e1 = "if lock_expired now e then e\<lparr>lockedUntil := None, attempts := []\<rparr> else e"
  have "\<not> still_locked now e" using Some sim un by (auto simp: sim_key_def still_locked_def split: option.splits)
  moreover have "lockedUntil ?e1 = None \<and> recent cfg now (attempts ?e1) = recent cfg now (open_log k)"
    using Some sim un by (cases "lock k") (auto simp: sim_key_def lock_expired_def open_log_def)
  ultimately show ?thesis
    using Some ex by (auto simp: check_def Let_def spec_answer_def open_entry_def slide_recent)
qed

lemma record_open:
  assumes "\<not> isExempt env cfg (normalizeRateLimitClientIp env ip)"
    and "open_entry cfg now (js_get m (resolveKey env ip scope)) ts" and "0 \<le> windowMs cfg"
  shows "\<exists>e. js_get (recordFailure env cfg now ip scope m) (resolveKey env ip scope) = Some e
           \<and> attempts e = recent cfg now ts @ [now]
           \<and> lockedUntil e = (if js_le (maxAttempts cfg) (Num (of_nat (Suc (length (recent cfg now ts)))))
                              then Some (now + lockoutMs cfg) else None)"
  using assms
  by (cases "js_get m (resolveKey env ip scope)")
    (auto simp: recordFailure_def Let_def open_entry_def still_locked_def slide_recent slideWindow_def recent_def)

lemma record_others:
  "k \<noteq> resolveKey env ip scope \<Longrightarrow> js_get (recordFailure env cfg now ip scope m) k = js_get m k"
  "distinct (js_keys m) \<Longrightarrow> distinct (js_keys (recordFailure env cfg now ip scope m))"
  by (simp_all add: recordFailure_def Let_def)

lemma check_others:
  "k \<noteq> resolveKey env ip scope \<Longrightarrow> js_get (snd (check env cfg now ip scope m)) k = js_get m k"
  "distinct (js_keys m) \<Longrightarrow> distinct (js_keys (snd (check env cfg now ip scope m)))"
  by (simp_all add: check_def Let_def split: option.split)

lemma attempt_others:
  "k \<noteq> resolveKey env ip scope \<Longrightarrow> js_get (snd (attempt env cfg now ip scope c m)) k = js_get m k"
  "distinct (js_keys m) \<Longrightarrow> distinct (js_keys (snd (attempt env cfg now ip scope c m)))"
  by (auto simp: attempt_def reset_key_def case_prod_unfold check_others record_others split: credential.split)


lemma attempt_sim:
  assumes ex: "\<not> isExempt env cfg (normalizeRateLimitClientIp env ip)" and lim: "positive_limit cfg n"
    and w: "0 \<le> windowMs cfg" "0 \<le> lockoutMs cfg" "0 < now"
    and sim: "sim_key cfg now (js_get m (resolveKey env ip scope)) k"
  shows "\<exists>m1 k1. attempt env cfg now ip scope c m = (fst (spec_attempt cfg now c k), m1)
           \<and> snd (spec_attempt cfg now c k) = k1
           \<and> sim_key cfg now (js_get m1 (resolveKey env ip scope)) k1"
proof (cases "\<exists>t. lock k = Some t \<and> now < t")
  case True
  then obtain t where t: "lock k = Some t" "now < t" by blast
  with sim w(3) obtain e where "js_get m (resolveKey env ip scope) = Some e" "lockedUntil e = Some t"
    by (auto simp: sim_key_def split: option.splits)
  from check_locked [OF ex this] t w(3) sim show ?thesis
    by (simp add: attempt_def spec_attempt_def)
next
  case False
  let ?key = "resolveKey env ip scope"
  obtain m1 where m1: "check env cfg now ip scope m = (spec_answer cfg now (open_log k), m1)"
    "open_entry cfg now (js_get m1 ?key) (open_log k)"
    using check_open [OF ex lim sim False] by blast
  have s: "spec_attempt cfg now c' k = spec_open cfg now c' (open_log k)" for c' by (rule spec_attempt_open [OF False])
  have idle: "sim_key cfg now (js_get m1 ?key) \<lparr>log = open_log k, lock = None\<rparr>"
    using m1(2) by (auto simp: open_entry_def sim_key_def split: option.splits)
  show ?thesis
  proof (cases "allowed (spec_answer cfg now (open_log k))")
    case False
    with m1(1) idle show ?thesis
      by (simp add: attempt_def s spec_open_def spec_answer_def Let_def)
  next
    case ok: True
    show ?thesis
    proof (cases c)
      case Missing
      with ok m1(1) idle show ?thesis
        by (simp add: attempt_def s spec_open_def spec_answer_def Let_def)
    next
      case Correct
      with ok m1(1) show ?thesis
        by (simp add: attempt_def s spec_open_def spec_answer_def Let_def reset_key_def sim_key_def fresh_key_def)
    next
      case Wrong
      have "(recent cfg now [now] = [now]) = (windowMs cfg > 0)" by (simp add: recent_def)
      with Wrong ok m1 record_open [OF ex m1(2) w(1)] w(2,3) show ?thesis
        by (auto simp: attempt_def s spec_open_def spec_answer_def Let_def sim_key_def)
    qed
  qed
qed

lemma map_of_concat_single:
  assumes "distinct (js_keys m)"
  shows "js_get (concat (map (\<lambda>(k, e). case g k e of None \<Rightarrow> [] | Some e' \<Rightarrow> [(k, e')]) m)) k
           = Option.bind (js_get m k) (g k)"
  using assms
proof (induction m)
  case (Cons p m)
  obtain k' e where p: "p = (k', e)" by (cases p)
  show ?case
  proof (cases "g k' e")
    case None
    have "k = k' \<Longrightarrow> js_get m k = None" using Cons.prems p by (simp add: js_get_None_iff)
    with None Cons p show ?thesis by auto
  next
    case (Some e')
    with Cons p show ?thesis by simp
  qed
qed simp

definition pruned_entry :: "limiter_settings \<Rightarrow> int \<Rightarrow> rate_limit_entry \<Rightarrow> rate_limit_entry option" where
  "pruned_entry cfg now e =
     (if still_locked now e then Some e
      else if attempts (slideWindow cfg now e) = [] then None else Some (slideWindow cfg now e))"

lemma prune_eq:
  "prune cfg now m = concat (map (\<lambda>(k, e). case pruned_entry cfg now e of None \<Rightarrow> [] | Some e' \<Rightarrow> [(k, e')]) m)"
  unfolding prune_def by (intro arg_cong [where f = concat] map_cong) (auto simp: pruned_entry_def Let_def)

lemma prune_get: "distinct (js_keys m) \<Longrightarrow> js_get (prune cfg now m) k = Option.bind (js_get m k) (pruned_entry cfg now)"
  unfolding prune_eq by (rule map_of_concat_single [of m "\<lambda>_. pruned_entry cfg now"])

lemma prune_keys: "distinct (js_keys m) \<Longrightarrow> distinct (js_keys (prune cfg now m)) \<and> set (js_keys (prune cfg now m)) \<subseteq> set (js_keys m)"
proof (induction m)
  case (Cons p m)
  obtain k e where p: "p = (k, e)" by (cases p)
  have "prune cfg now (p # m) = (case pruned_entry cfg now e of None \<Rightarrow> [] | Some e' \<Rightarrow> [(k, e')]) @ prune cfg now m"
    by (simp add: prune_eq p)
  with Cons p show ?case by (auto split: option.split)
qed (simp add: prune_def)

lemma prune_sim_key:
  assumes "sim_key cfg now e k"
  shows "sim_key cfg now (Option.bind e (pruned_entry cfg now)) k"
proof (cases e)
  case (Some x)
  show ?thesis
  proof (cases "still_locked now x")
    case True
    with Some assms show ?thesis by (simp add: pruned_entry_def)
  next
    case False
    with Some assms show ?thesis
      by (cases "lock k") (auto simp: pruned_entry_def sim_key_def slide_recent still_locked_def)
  qed
qed (use assms in simp)

lemma step_sim:
  assumes sim: "sim cfg now m f" and lim: "positive_limit cfg n" and w: "0 \<le> windowMs cfg" "0 \<le> lockoutMs cfg"
    and t: "0 < event_time ev" "event_time ev = now"
  shows "fst (limiter_step env cfg ev m) = fst (spec_step env cfg ev f)
           \<and> sim cfg now (snd (limiter_step env cfg ev m)) (snd (spec_step env cfg ev f))"
proof (cases ev)
  case (PruneTick u)
  with sim t show ?thesis using prune_keys [of m cfg now]
    by (auto simp: sim_def prune_get prune_sim_key)
next
  case (ResetKey u ip scope)
  with sim show ?thesis by (auto simp: reset_key_def sim_def sim_key_def fresh_key_def)
next
  case (Attempt u ip scope c)
  with t have u: "u = now" "0 < now" by simp_all
  show ?thesis
  proof (cases "isExempt env cfg (normalizeRateLimitClientIp env ip)")
    case True
    then have chk: "check env cfg now ip scope m = (\<lparr>allowed = True, remaining = maxAttempts cfg, retryAfterMs = 0\<rparr>, m)"
      by (simp add: check_def Let_def)
    have "recordFailure env cfg now ip scope m = m" using True by (simp add: recordFailure_def Let_def)
    with True Attempt u sim chk show ?thesis
       by (cases c) (auto simp: attempt_def reset_key_def sim_def sim_key_def fresh_key_def)
  next
    case False
    let ?key = "resolveKey env ip scope"
    from sim have "sim_key cfg now (js_get m ?key) (f ?key)" by (simp add: sim_def)
    from attempt_sim [OF False lim w u(2) this, of c] obtain m1 where
      m1: "attempt env cfg now ip scope c m = (fst (spec_attempt cfg now c (f ?key)), m1)"
      "sim_key cfg now (js_get m1 ?key) (snd (spec_attempt cfg now c (f ?key)))" by blast
    have others: "k \<noteq> ?key \<Longrightarrow> js_get m1 k = js_get m k" "distinct (js_keys m1)" for k
      using attempt_others(1) [of k env ip scope cfg now c m] attempt_others(2) [of m env cfg now ip scope c] m1(1) sim
      by (simp_all add: sim_def)
    have "sim cfg now m1 (f(?key := snd (spec_attempt cfg now c (f ?key))))"
      using sim others m1(2) by (simp add: sim_def)
    with False Attempt u m1(1) show ?thesis by (simp add: case_prod_unfold)
  qed
qed

lemma run_sim:
  assumes lim: "positive_limit cfg n" and w: "0 \<le> windowMs cfg" "0 \<le> lockoutMs cfg"
  shows "sim cfg now m f \<Longrightarrow> sorted (now # map event_time evs) \<Longrightarrow> 0 < now
           \<Longrightarrow> fst (run_limiter env cfg evs m) = fst (run_spec env cfg evs f)"
proof (induction evs arbitrary: now m f)
  case (Cons ev evs)
  let ?t = "event_time ev"
  have t: "now \<le> ?t" "0 < ?t" "sorted (?t # map event_time evs)" using Cons.prems by auto
  have "sim cfg ?t m f" by (rule sim_later [OF Cons.prems(1) t(1)])
  from step_sim [OF this lim w t(2) refl] have
    step: "fst (limiter_step env cfg ev m) = fst (spec_step env cfg ev f)"
    "sim cfg ?t (snd (limiter_step env cfg ev m)) (snd (spec_step env cfg ev f))" by auto
  from Cons.IH [OF step(2) t(3,2)] step(1) show ?case by (simp add: case_prod_unfold)
qed simp

section \<open>The log bounds the guesses\<close>

text \<open>No attempt on the key is exempt from limiting; none of them presents the right credential, and nobody resets the key.\<close>

definition limited_key :: "'a net_env \<Rightarrow> limiter_settings \<Rightarrow> string \<Rightarrow> limiter_event \<Rightarrow> bool" where
  "limited_key env cfg key ev =
     (case ev of
        Attempt _ ip scope _ \<Rightarrow>
          \<not> (resolveKey env ip scope = key \<and> isExempt env cfg (normalizeRateLimitClientIp env ip))
      | _ \<Rightarrow> True)"

definition unsuccessful :: "'a net_env \<Rightarrow> string \<Rightarrow> limiter_event \<Rightarrow> bool" where
  "unsuccessful env key ev =
     (case ev of
        Attempt _ ip scope c \<Rightarrow> \<not> (resolveKey env ip scope = key \<and> c = Correct)
      | ResetKey _ ip scope \<Rightarrow> resolveKey env ip scope \<noteq> key
      | PruneTick _ \<Rightarrow> True)"

text \<open>The times of the wrong credentials for a key that were compared, from the events and their answers.\<close>

fun guesses :: "'a net_env \<Rightarrow> string \<Rightarrow> limiter_event list \<Rightarrow> rate_check option list \<Rightarrow> int list" where
  "guesses env key (Attempt now ip scope Wrong # evs) (Some r # rs) =
     (if resolveKey env ip scope = key \<and> allowed r then [now] else []) @ guesses env key evs rs"
| "guesses env key (_ # evs) (_ # rs) = guesses env key evs rs"
| "guesses env key _ _ = []"

definition in_span :: "int \<Rightarrow> int \<Rightarrow> int list \<Rightarrow> int list" where
  "in_span a b ts = filter (\<lambda>t. a < t \<and> t \<le> b) ts"

text \<open>What the specification knows of all the guesses made so far.\<close>

definition guess_inv :: "limiter_settings \<Rightarrow> nat \<Rightarrow> int \<Rightarrow> int list \<Rightarrow> spec_key \<Rightarrow> bool" where
  "guess_inv cfg n now gs k \<longleftrightarrow>
     (\<forall>g \<in> set gs. g \<le> now)
     \<and> (case lock k of None \<Rightarrow> recent cfg now gs = recent cfg now (log k)
        | Some t \<Rightarrow> \<forall>g \<in> set gs. g + lockoutMs cfg \<le> t)
     \<and> (\<forall>a. length (in_span a (a + windowMs cfg) gs) \<le> n)"

lemma guess_inv_later:
  assumes "guess_inv cfg n now gs k" and le: "now \<le> later"
  shows "guess_inv cfg n later gs k"
proof -
  have "recent cfg now gs = recent cfg now (log k) \<Longrightarrow> recent cfg later gs = recent cfg later (log k)"
    using recent_later [OF le, of cfg gs] recent_later [OF le, of cfg "log k"] by simp
  with assms show ?thesis by (fastforce simp: guess_inv_def split: option.splits)
qed

lemma guess_inv_attempt:
  assumes inv: "guess_inv cfg n now gs k" and lim: "positive_limit cfg n"
    and w: "0 \<le> windowMs cfg" "windowMs cfg \<le> lockoutMs cfg" and c: "c \<noteq> Correct"
  shows "guess_inv cfg n now
           (gs @ (if c = Wrong \<and> allowed (fst (spec_attempt cfg now c k)) then [now] else []))
           (snd (spec_attempt cfg now c k))"
proof (cases "\<exists>t. lock k = Some t \<and> now < t")
  case True
  with inv show ?thesis by (auto simp: spec_attempt_def)
next
  case False
  have s: "spec_attempt cfg now c k = spec_open cfg now c (open_log k)" by (rule spec_attempt_open [OF False])
  have rec: "recent cfg now gs = recent cfg now (open_log k)"
  proof (cases "lock k")
    case (Some t)
    with False inv w have "\<forall>g \<in> set gs. g \<le> now - windowMs cfg" by (force simp: guess_inv_def)
    then have "recent cfg now gs = []" by (fastforce simp: recent_def filter_empty_conv)
    with Some show ?thesis by (simp add: open_log_def)
  qed (use inv in \<open>simp add: guess_inv_def open_log_def\<close>)
  let ?used = "length (recent cfg now (open_log k))"
  have ok: "allowed (fst (spec_open cfg now c (open_log k))) \<longleftrightarrow> ?used < n"
    by (simp add: spec_open_def Let_def left_value [OF lim] split: credential.split)
  show ?thesis
  proof (cases "c = Wrong \<and> ?used < n")
    case False
    with ok have "snd (spec_open cfg now c (open_log k)) = \<lparr>log = open_log k, lock = None\<rparr>"
      using c by (cases c) (auto simp: spec_open_def Let_def left_value [OF lim])
    with False ok inv rec s show ?thesis by (auto simp: guess_inv_def)
  next
    case True
    have span: "length (in_span a (a + windowMs cfg) (gs @ [now])) \<le> n" for a
    proof (cases "a < now \<and> now \<le> a + windowMs cfg")
      case True
      then have "in_span a (a + windowMs cfg) gs = in_span a (a + windowMs cfg) (recent cfg now gs)"
        by (auto simp: in_span_def recent_def intro: filter_cong)
      then have "length (in_span a (a + windowMs cfg) gs) \<le> length (recent cfg now gs)"
        by (simp add: in_span_def)
      with \<open>c = Wrong \<and> ?used < n\<close> rec show ?thesis by (simp add: in_span_def)
    qed (use inv in \<open>auto simp: guess_inv_def in_span_def\<close>)
    have s1: "snd (spec_open cfg now c (open_log k)) = \<lparr>log = open_log k @ [now],
        lock = (if js_le (maxAttempts cfg) (Num (of_nat (Suc ?used))) then Some (now + lockoutMs cfg) else None)\<rparr>"
      using True by (simp add: spec_open_def Let_def left_value [OF lim])
    have le: "\<forall>g \<in> set gs. g \<le> now" using inv by (simp add: guess_inv_def)
    from True ok le span rec show ?thesis
      unfolding s s1 by (simp add: guess_inv_def)
  qed
qed

lemma run_guess_inv:
  assumes lim: "positive_limit cfg n" and w: "0 \<le> windowMs cfg" "windowMs cfg \<le> lockoutMs cfg"
  shows "guess_inv cfg n now gs (f key) \<Longrightarrow> sorted (now # map event_time evs)
           \<Longrightarrow> list_all (limited_key env cfg key) evs \<Longrightarrow> list_all (unsuccessful env key) evs
           \<Longrightarrow> length (in_span a (a + windowMs cfg) (gs @ guesses env key evs (fst (run_spec env cfg evs f)))) \<le> n"
proof (induction evs arbitrary: now gs f)
  case Nil
  then show ?case by (simp add: guess_inv_def)
next
  case (Cons ev evs)
  let ?t = "event_time ev"
  have t: "sorted (?t # map event_time evs)" and inv: "guess_inv cfg n ?t gs (f key)"
    using Cons.prems(1,2) by (auto intro: guess_inv_later)
  have rest: "list_all (limited_key env cfg key) evs" "list_all (unsuccessful env key) evs"
    using Cons.prems(3,4) by simp_all
  show ?case
  proof (cases ev)
    case (PruneTick u)
    with Cons.IH [where f = f, OF inv t rest] show ?thesis by (simp add: case_prod_unfold)
  next
    case (ResetKey u ip scope)
    with Cons.prems(4) inv have "guess_inv cfg n ?t gs (snd (spec_step env cfg ev f) key)" by (auto simp: unsuccessful_def)
    from Cons.IH [where f = "snd (spec_step env cfg ev f)", OF this t rest] ResetKey show ?thesis
      by (simp add: case_prod_unfold fun_upd_def)
  next
    case (Attempt u ip scope c)
    show ?thesis
    proof (cases "resolveKey env ip scope = key")
      case False
      then have "snd (spec_step env cfg ev f) key = f key" using Attempt by (simp add: case_prod_unfold)
      with inv have "guess_inv cfg n ?t gs (snd (spec_step env cfg ev f) key)" by simp
      from Cons.IH [where f = "snd (spec_step env cfg ev f)", OF this t rest] False Attempt show ?thesis
        by (cases c) (auto simp: case_prod_unfold fun_upd_def)
    next
      case True
      have c: "c \<noteq> Correct" "\<not> isExempt env cfg (normalizeRateLimitClientIp env ip)"
        using Cons.prems(3,4) Attempt True by (simp_all add: limited_key_def unsuccessful_def)
      let ?r = "spec_attempt cfg u c (f key)"
      have u: "event_time ev = u" and step: "snd (spec_step env cfg ev f) key = snd ?r"
        using Attempt True c(2) by (simp_all add: case_prod_unfold)
      have inv': "guess_inv cfg n ?t (gs @ (if c = Wrong \<and> allowed (fst ?r) then [u] else []))
          (snd (spec_step env cfg ev f) key)"
        using inv unfolding u step by (rule guess_inv_attempt [OF _ lim w c(1)])
      from Cons.IH [where f = "snd (spec_step env cfg ev f)", OF inv' t rest] Attempt True c show ?thesis
        by (cases c) (auto simp: case_prod_unfold fun_upd_def)
    qed
  qed
qed

section \<open>A lockout\<close>

text \<open>The calls of the interface a limiter exports, each with the time it comes at; a key is given by address and scope.\<close>

datatype limiter_call =
    CallCheck int "string option" "string option"
  | CallFailure int "string option" "string option"
  | CallReset int "string option" "string option"
  | CallPrune int
  | CallDispose int

fun call_time :: "limiter_call \<Rightarrow> int" where
  "call_time (CallCheck now _ _) = now"
| "call_time (CallFailure now _ _) = now"
| "call_time (CallReset now _ _) = now"
| "call_time (CallPrune now) = now"
| "call_time (CallDispose now) = now"

fun call_step :: "'a net_env \<Rightarrow> limiter_settings \<Rightarrow> limiter_call \<Rightarrow> limiter \<Rightarrow> limiter" where
  "call_step env cfg (CallCheck now ip scope) m = snd (check env cfg now ip scope m)"
| "call_step env cfg (CallFailure now ip scope) m = recordFailure env cfg now ip scope m"
| "call_step env cfg (CallReset now ip scope) m = reset_key env ip scope m"
| "call_step env cfg (CallPrune now) m = prune cfg now m"
| "call_step env cfg (CallDispose now) m = dispose m"

text \<open>The calls that lift a lockout before its end: a reset of the key, and disposing of the limiter.\<close>

fun lifts_lockout :: "'a net_env \<Rightarrow> string \<Rightarrow> limiter_call \<Rightarrow> bool" where
  "lifts_lockout env key (CallReset _ ip scope) = (resolveKey env ip scope = key)"
| "lifts_lockout env key (CallDispose _) = True"
| "lifts_lockout env key _ = False"

definition locked_at :: "string \<Rightarrow> int \<Rightarrow> limiter \<Rightarrow> bool" where
  "locked_at key t m \<longleftrightarrow> distinct (js_keys m) \<and> (\<exists>e. js_get m key = Some e \<and> lockedUntil e = Some t)"

lemma locked_check:
  assumes "locked_at (resolveKey env ip scope) t m" and "0 < t" and "now < t"
    and "\<not> isExempt env cfg (normalizeRateLimitClientIp env ip)"
  shows "check env cfg now ip scope m = (\<lparr>allowed = False, remaining = Num 0, retryAfterMs = t - now\<rparr>, m)"
  using assms check_locked by (force simp: locked_at_def)

lemma locked_failure:
  assumes "locked_at (resolveKey env ip scope) t m" and "0 < t" and "now < t"
  shows "recordFailure env cfg now ip scope m = m"
  using assms by (auto simp: locked_at_def recordFailure_def still_locked_def Let_def)

lemma failure_others: "k \<noteq> resolveKey env ip scope \<Longrightarrow> locked_at k t m \<Longrightarrow> locked_at k t (recordFailure env cfg now ip scope m)"
  using record_others(1) [of k env ip scope cfg now m] record_others(2) [of m env cfg now ip scope]
  unfolding locked_at_def by metis

lemma checked_others: "k \<noteq> resolveKey env ip scope \<Longrightarrow> locked_at k t m \<Longrightarrow> locked_at k t (snd (check env cfg now ip scope m))"
  using check_others(1) [of k env ip scope cfg now m] check_others(2) [of m env cfg now ip scope]
  unfolding locked_at_def by metis

lemma locked_call:
  assumes locked: "locked_at key t m" "0 < t" and c: "call_time c < t" "\<not> lifts_lockout env key c"
  shows "locked_at key t (call_step env cfg c m)"
proof (cases c)
  case (CallCheck now ip scope)
  show ?thesis
  proof (cases "key = resolveKey env ip scope")
    case True
    with locked_check [of env ip scope t m now cfg] locked c CallCheck show ?thesis
      by (cases "isExempt env cfg (normalizeRateLimitClientIp env ip)") (simp_all add: check_def Let_def)
  qed (use locked CallCheck checked_others in simp)
next
  case (CallFailure now ip scope)
  with locked c failure_others [of key env ip scope t m cfg now] locked_failure [of env ip scope t m now cfg]
  show ?thesis by (cases "key = resolveKey env ip scope") simp_all
next
  case (CallReset now ip scope)
  with locked c show ?thesis by (auto simp: locked_at_def reset_key_def)
next
  case (CallPrune now)
  obtain e where e: "js_get m key = Some e" "lockedUntil e = Some t" and d: "distinct (js_keys m)"
    using locked by (auto simp: locked_at_def)
  have "pruned_entry cfg now e = Some e" using e locked c CallPrune by (simp add: pruned_entry_def still_locked_def)
  with CallPrune e prune_keys [OF d] show ?thesis by (simp add: prune_get [OF d] locked_at_def)
qed (use c in simp)

lemma locked_calls:
  "locked_at key t m \<Longrightarrow> 0 < t \<Longrightarrow> list_all (\<lambda>c. call_time c < t \<and> \<not> lifts_lockout env key c) cs
    \<Longrightarrow> locked_at key t (fold (call_step env cfg) cs m)"
  by (induction cs arbitrary: m) (simp_all add: locked_call)

section \<open>An example\<close>

definition sample_limiter_config :: rate_limit_config where
  "sample_limiter_config =
     \<lparr>cfg_maxAttempts = Some (Num 2), cfg_windowMs = None, cfg_lockoutMs = None,
      cfg_exemptLoopback = None, cfg_pruneIntervalMs = None\<rparr>"

lemma sample_settings:
  "createAuthRateLimiter sample_limiter_config =
     \<lparr>maxAttempts = Num 2, windowMs = 60000, lockoutMs = 300000, exemptLoopback = True, pruneIntervalMs = 60000\<rparr>"
  by code_simp

lemma sample_limit: "positive_limit (createAuthRateLimiter sample_limiter_config) 2"
  by (simp add: sample_settings positive_limit_def MAX_SAFE_INTEGER_def)

lemma sample_key:
  "resolveKey sample_net (Some ''10.0.0.9'') None = ''default:10.0.0.9''"
  "\<not> isExempt sample_net (createAuthRateLimiter sample_limiter_config) (normalizeRateLimitClientIp sample_net (Some ''10.0.0.9''))"
  by code_simp+

definition sample_guess :: "int \<Rightarrow> credential \<Rightarrow> limiter_event" where
  "sample_guess now c = Attempt now (Some ''10.0.0.9'') None c"

lemma sample_guess_simps [simp]:
  "event_time (sample_guess now c) = now"
  "limited_key sample_net (createAuthRateLimiter sample_limiter_config) key (sample_guess now c)"
  "unsuccessful sample_net key (sample_guess now Wrong)"
  "limited_key sample_net (createAuthRateLimiter sample_limiter_config) key (PruneTick now)"
  "windowMs (createAuthRateLimiter sample_limiter_config) = 60000"
  "lockoutMs (createAuthRateLimiter sample_limiter_config) = 300000"
  using sample_key(2) by (simp_all add: sample_guess_def limited_key_def unsuccessful_def sample_settings [symmetric])
    (simp_all add: sample_settings)

section \<open>The properties\<close>

text \<open>C10.  The limiter refines its specification.  Whatever attempts on whatever keys and resets of keys come, with the clock
  not going back, and whenever the background prune runs, every answer is the one computed from the
  full log of wrong credentials of that key and its lockout: sliding and pruning forget nothing an
  answer depends on.\<close>

theorem limiter_refines_sliding_log:
  assumes "positive_limit (createAuthRateLimiter cfg) n"
    and "sorted (map event_time evs)" and "list_all (\<lambda>ev. 0 < event_time ev) evs"
  shows "fst (run_limiter env (createAuthRateLimiter cfg) evs [])
           = fst (run_spec env (createAuthRateLimiter cfg) evs (\<lambda>_. fresh_key))"
proof (cases evs)
  case (Cons ev rest)
  have "sim (createAuthRateLimiter cfg) (event_time ev) [] (\<lambda>_. fresh_key)"
    by (simp add: sim_def sim_key_def fresh_key_def)
  then show ?thesis
    using run_sim [OF assms(1) created_settings, where env = env and now = "event_time ev" and m = "[]" and f = "\<lambda>_. fresh_key" and evs = evs] assms(2,3) Cons by simp
qed simp

lemma limiter_refines_sliding_log_witness:
  "fst (run_limiter sample_net (createAuthRateLimiter sample_limiter_config)
          [sample_guess 1000 Wrong, PruneTick 70000, sample_guess 70000 Wrong] [])
     = fst (run_spec sample_net (createAuthRateLimiter sample_limiter_config)
          [sample_guess 1000 Wrong, PruneTick 70000, sample_guess 70000 Wrong] (\<lambda>_. fresh_key))"
  by (rule limiter_refines_sliding_log [OF sample_limit]) simp_all

text \<open>C11.  Guessing is bounded.  When the number of attempts is positive and the lockout is configured at least as long as the
  window, the clock does not go back, and no attempt on the key is exempt, presents the right credential or comes with a
  reset of the key, then no interval as long as the window sees more than \<^verbatim>\<open>maxAttempts\<close> wrong credentials of that key
  compared, however the attempts are interleaved with attempts on other keys, resets of other keys and pruning.\<close>

theorem guesses_per_window_are_bounded:
  assumes "positive_limit (createAuthRateLimiter cfg) n"
    and "windowMs (createAuthRateLimiter cfg) \<le> lockoutMs (createAuthRateLimiter cfg)"
    and "sorted (map event_time evs)" and "list_all (\<lambda>ev. 0 < event_time ev) evs"
    and "list_all (limited_key env (createAuthRateLimiter cfg) key) evs" and "list_all (unsuccessful env key) evs"
  shows "length (in_span a (a + windowMs (createAuthRateLimiter cfg))
           (guesses env key evs (fst (run_limiter env (createAuthRateLimiter cfg) evs [])))) \<le> n"
proof (cases evs)
  case (Cons ev rest)
  let ?cfg = "createAuthRateLimiter cfg"
  have "sim ?cfg (event_time ev) [] (\<lambda>_. fresh_key)"
    by (simp add: sim_def sim_key_def fresh_key_def)
  then have same: "fst (run_limiter env ?cfg evs []) = fst (run_spec env ?cfg evs (\<lambda>_. fresh_key))"
    using run_sim [OF assms(1) created_settings, where env = env and now = "event_time ev" and m = "[]" and f = "\<lambda>_. fresh_key" and evs = evs] assms(3,4) Cons by simp
  have "guess_inv ?cfg n (event_time ev) [] fresh_key"
    by (simp add: guess_inv_def fresh_key_def in_span_def)
  have sorted: "sorted (event_time ev # map event_time evs)" using assms(3) Cons by simp
  from run_guess_inv [where f = "\<lambda>_. fresh_key", OF assms(1) created_settings(1) assms(2) \<open>guess_inv _ _ _ _ _\<close> sorted assms(5,6)]
  show ?thesis by (simp add: same)
qed (simp add: in_span_def)

lemma guesses_per_window_are_bounded_witness:
  "length (in_span 0 (0 + windowMs (createAuthRateLimiter sample_limiter_config))
     (guesses sample_net ''default:10.0.0.9'' [sample_guess 1000 Wrong, sample_guess 2000 Wrong, sample_guess 3000 Wrong]
       (fst (run_limiter sample_net (createAuthRateLimiter sample_limiter_config)
          [sample_guess 1000 Wrong, sample_guess 2000 Wrong, sample_guess 3000 Wrong] [])))) \<le> 2"
  by (rule guesses_per_window_are_bounded [OF sample_limit]) simp_all

text \<open>C30.  A lockout holds until it ends, unless it is lifted by a reset.  Once a wrong credential locked a key, whatever calls
  of the limiter's interface follow before the end of the lockout, on this or other keys and at any times, except a reset of
  this key or disposing of the limiter: every check of the key is refused and says exactly when to come back, an attempt is
  refused even with the right credential, and a further failure changes nothing, so the lockout is neither shortened nor
  extended.  A reset of the key lifts it: the next check allows as many attempts as are configured.\<close>

theorem lockout_is_absolute:
  assumes "js_get (recordFailure env cfg at_ms ip scope m) (resolveKey env ip scope) = Some e" and "lockedUntil e = Some t"
    and "distinct (js_keys m)" and "0 < t" and "\<not> isExempt env cfg (normalizeRateLimitClientIp env ip)"
    and "list_all (\<lambda>c. call_time c < t \<and> \<not> lifts_lockout env (resolveKey env ip scope) c) cs" and "now < t"
  shows "check env cfg now ip scope (fold (call_step env cfg) cs (recordFailure env cfg at_ms ip scope m))
           = (\<lparr>allowed = False, remaining = Num 0, retryAfterMs = t - now\<rparr>,
              fold (call_step env cfg) cs (recordFailure env cfg at_ms ip scope m))
    \<and> fst (attempt env cfg now ip scope c (fold (call_step env cfg) cs (recordFailure env cfg at_ms ip scope m)))
           = \<lparr>allowed = False, remaining = Num 0, retryAfterMs = t - now\<rparr>
    \<and> recordFailure env cfg now ip scope (fold (call_step env cfg) cs (recordFailure env cfg at_ms ip scope m))
           = fold (call_step env cfg) cs (recordFailure env cfg at_ms ip scope m)
    \<and> fst (check env cfg now ip scope (reset_key env ip scope
             (fold (call_step env cfg) cs (recordFailure env cfg at_ms ip scope m))))
           = \<lparr>allowed = True, remaining = maxAttempts cfg, retryAfterMs = 0\<rparr>"
proof -
  let ?m = "fold (call_step env cfg) cs (recordFailure env cfg at_ms ip scope m)"
  have "locked_at (resolveKey env ip scope) t (recordFailure env cfg at_ms ip scope m)"
    using assms(1-3) record_others(2) by (simp add: locked_at_def)
  from locked_calls [OF this assms(4,6)] have locked: "locked_at (resolveKey env ip scope) t ?m" .
  note refused = locked_check [OF locked assms(4,7,5)]
  have "fst (check env cfg now ip scope (reset_key env ip scope ?m))
      = \<lparr>allowed = True, remaining = maxAttempts cfg, retryAfterMs = 0\<rparr>"
    by (simp add: check_def reset_key_def Let_def)
  with refused locked_failure [OF locked assms(4,7)] show ?thesis by (simp add: attempt_def)
qed

lemma lockout_is_absolute_witness:
  "let cfg = createAuthRateLimiter sample_limiter_config;
       m = fold (call_step sample_net cfg)
             [CallFailure 2500 (Some ''10.0.0.9'') None, CallReset 2600 (Some ''10.0.0.8'') None, CallPrune 3500]
             (recordFailure sample_net cfg 2000 (Some ''10.0.0.9'') None
                [(''default:10.0.0.9'', \<lparr>attempts = [1000], lockedUntil = None\<rparr>)])
   in check sample_net cfg 4000 (Some ''10.0.0.9'') None m
           = (\<lparr>allowed = False, remaining = Num 0, retryAfterMs = 302000 - 4000\<rparr>, m)
    \<and> fst (attempt sample_net cfg 4000 (Some ''10.0.0.9'') None Correct m)
           = \<lparr>allowed = False, remaining = Num 0, retryAfterMs = 302000 - 4000\<rparr>
    \<and> recordFailure sample_net cfg 4000 (Some ''10.0.0.9'') None m = m
    \<and> fst (check sample_net cfg 4000 (Some ''10.0.0.9'') None (reset_key sample_net (Some ''10.0.0.9'') None m))
           = \<lparr>allowed = True, remaining = maxAttempts cfg, retryAfterMs = 0\<rparr>"
  unfolding Let_def
proof (rule lockout_is_absolute [where e = "\<lparr>attempts = [1000, 2000], lockedUntil = Some 302000\<rparr>"])
  show "js_get (recordFailure sample_net (createAuthRateLimiter sample_limiter_config) 2000 (Some ''10.0.0.9'') None
                [(''default:10.0.0.9'', \<lparr>attempts = [1000], lockedUntil = None\<rparr>)]) (resolveKey sample_net (Some ''10.0.0.9'') None)
      = Some \<lparr>attempts = [1000, 2000], lockedUntil = Some 302000\<rparr>" by code_simp
  show "list_all (\<lambda>c. call_time c < 302000 \<and> \<not> lifts_lockout sample_net (resolveKey sample_net (Some ''10.0.0.9'') None) c)
     [CallFailure 2500 (Some ''10.0.0.9'') None, CallReset 2600 (Some ''10.0.0.8'') None, CallPrune 3500]" by code_simp
qed (use sample_key(2) in simp_all)

text \<open>A failure recorded after the lockout ended, with no check in between, does not count: the next check takes the lockout for
  ended and forgets all attempts with it, unless a prune deleted the entry first.  The gateway checks before it records, which
  is how the specification above takes its attempts.\<close>

definition after_lockout :: "(string \<times> rate_limit_entry) list" where
  "after_lockout = [(''default:10.0.0.9'', \<lparr>attempts = [1000, 2000], lockedUntil = Some 302000\<rparr>)]"

lemma failure_after_lockout_is_forgotten:
  "fst (check sample_net (createAuthRateLimiter sample_limiter_config) 400001 (Some ''10.0.0.9'') None
      (recordFailure sample_net (createAuthRateLimiter sample_limiter_config) 400000 (Some ''10.0.0.9'') None after_lockout))
     = \<lparr>allowed = True, remaining = Num 2, retryAfterMs = 0\<rparr>
   \<and> fst (check sample_net (createAuthRateLimiter sample_limiter_config) 400001 (Some ''10.0.0.9'') None
      (recordFailure sample_net (createAuthRateLimiter sample_limiter_config) 400000 (Some ''10.0.0.9'') None
        (prune (createAuthRateLimiter sample_limiter_config) 390000 after_lockout)))
     = \<lparr>allowed = True, remaining = Num 1, retryAfterMs = 0\<rparr>"
  using sample_key left_value [OF sample_limit, of 0] left_value [OF sample_limit, of 1]
  by (simp add: after_lockout_def check_def recordFailure_def prune_def slideWindow_def still_locked_def lock_expired_def
      sample_settings Let_def)

end
