(* ===== verification/GatewayAuthProps.thy ===== *)
theory GatewayAuthProps
  imports GatewayAuth AuthRateLimitProps
begin

text \<open>
  The guarantees of the gateway's front door: secrets are compared exactly, access is granted only on
  one of five grounds, a login is one attempt of the limiter, and a client cannot choose the address
  it is limited by.
\<close>

section \<open>Comparing secrets\<close>

lemma utf8_char_nonempty [simp]: "utf8_char c \<noteq> []"
  by (simp add: utf8_char_def Let_def)

lemma utf8_prefix: "utf8_char c @ xs = utf8_char d @ ys \<Longrightarrow> c = d \<and> xs = ys"
proof -
  assume eq: "utf8_char c @ xs = utf8_char d @ ys"
  let ?m = "of_char c :: nat" and ?n = "of_char d :: nat"
  have m: "?m < 256" "?n < 256" by simp_all
  have "?m = ?n \<and> xs = ys"
  proof (cases "?m < 128"; cases "?n < 128")
    assume "\<not> ?m < 128" "\<not> ?n < 128"
    with eq have "?m div 64 = ?n div 64" "?m mod 64 = ?n mod 64" "xs = ys"
      by (auto simp: utf8_char_def Let_def)
    then show ?thesis by (metis div_mult_mod_eq)
  qed (use eq m in \<open>auto simp: utf8_char_def Let_def\<close>)
  then show ?thesis by simp
qed

lemma utf8_bytes_inj: "utf8_bytes s = utf8_bytes t \<longleftrightarrow> s = t"
proof
  assume "utf8_bytes s = utf8_bytes t"
  then show "s = t"
  proof (induction s arbitrary: t)
    case Nil
    then show ?case by (cases t) (simp_all add: utf8_bytes_def)
  next
    case (Cons c s)
    then obtain d t' where t: "t = d # t'" by (cases t) (simp_all add: utf8_bytes_def)
    with Cons.prems have "utf8_char c @ utf8_bytes s = utf8_char d @ utf8_bytes t'" by (simp add: utf8_bytes_def)
    from utf8_prefix [OF this] Cons.IH t show ?case by simp
  qed
qed simp

lemma safeEqual_iff: "safeEqualSecret (Some p) (Some e) \<longleftrightarrow> p = e"
proof (cases "length (utf8_bytes p) = length (utf8_bytes e)")
  case True
  have "utf8_bytes q = [] \<longleftrightarrow> q = []" for q by (cases q) (simp_all add: utf8_bytes_def)
  with True utf8_bytes_inj [of p e] show ?thesis
    by (cases "utf8_bytes p = []") (simp_all add: safeEqualSecret_def padSecretBytes_def)
next
  case False
  then have "max (length (utf8_bytes p)) (length (utf8_bytes e)) \<noteq> 0" by linarith
  with False show ?thesis by (auto simp: safeEqualSecret_def Let_def)
qed

section \<open>Grounds for access\<close>

text \<open>What each method of a granted connection stands for.\<close>

definition earned ::
  "'a net_env \<Rightarrow> (string \<Rightarrow> whois_identity option) \<Rightarrow> connect_params \<Rightarrow> auth_method \<Rightarrow> string option \<Rightarrow> bool" where
  "earned env whois p via user =
     (let auth = cp_auth p
      in case via of
           ByNone \<Rightarrow> mode auth = ModeNone
         | ByToken \<Rightarrow>
             mode auth = ModeToken
             \<and> (\<exists>t. t \<noteq> [] \<and> token auth = Some t \<and> Option.bind (connectAuth p) ca_token = Some t)
         | ByPassword \<Rightarrow>
             (mode auth = ModePassword \<or> mode auth = ModeTrustedProxy \<and> isLocalDirectRequest env (cp_req p))
             \<and> (\<exists>t. t \<noteq> [] \<and> password auth = Some t \<and> Option.bind (connectAuth p) ca_password = Some t)
         | ByTailscale \<Rightarrow>
             cp_authSurface p = Some WsControlUiSurface \<and> allowTailscale auth
             \<and> mode auth \<in> {ModeToken, ModePassword}
             \<and> (\<exists>r ip w tu. cp_req p = Some r \<and> isLoopbackAddress env (remoteAddress r)
                  \<and> hasTailscaleProxyHeaders (Some r) \<and> resolveTailscaleClientIp env (Some r) = Some ip
                  \<and> whois ip = Some w \<and> getTailscaleUser (Some r) = Some tu
                  \<and> normalizeLogin (whois_login w) = normalizeLogin (ts_login tu) \<and> user = Some (whois_login w))
         | ByTrustedProxy \<Rightarrow>
             mode auth = ModeTrustedProxy
             \<and> (\<exists>r tp u. cp_req p = Some r \<and> trustedProxy auth = Some tp \<and> user = Some u
                  \<and> isTrustedProxyAddress env (remoteAddress r) (cp_trustedProxies p)
                  \<and> (if isLoopbackAddress env (remoteAddress r) then allowLoopback tp = Some True
                     else \<not> isLocalInterfaceAddress env (remoteAddress r))
                  \<and> list_all (\<lambda>h. \<not> blank_header (request_header r h)) (or_default (requiredHeaders tp) [])
                  \<and> u \<noteq> [] \<and> map_option js_trim (request_header r (userHeader tp)) = Some u
                  \<and> u \<in> (if or_default (allowUsers tp) [] = [] then UNIV else set (or_default (allowUsers tp) []))))"

lemma token_ok:
  assumes "authorizeTokenAuth env rl now ip scope a c m = (r, m')" and "ok r"
  shows "auth_via r = Some ByToken \<and> auth_user r = None \<and> (\<exists>t. t \<noteq> [] \<and> a = Some t \<and> c = Some t)"
  using assms
  by (auto simp: authorizeTokenAuth_def refused_def granted_by_def present_def safeEqual_iff
      split: if_splits option.splits)

lemma password_ok:
  assumes "authorizePasswordAuth env rl now ip scope a c m = (r, m')" and "ok r"
  shows "auth_via r = Some ByPassword \<and> auth_user r = None \<and> (\<exists>t. t \<noteq> [] \<and> a = Some t \<and> c = Some t)"
  using assms
  by (auto simp: authorizePasswordAuth_def refused_def granted_by_def present_def safeEqual_iff
      split: if_splits option.splits)

lemma rejected_not_ok: "rejectIfRateLimited env rl now ip scope m = (Some r, m') \<Longrightarrow> \<not> ok r"
  by (auto simp: rejectIfRateLimited_def refused_def split: option.splits if_splits prod.splits)

lemma refused_not_ok [simp]: "\<not> ok (refused r)" "ok (granted_by via u)"
  "auth_via (granted_by via u) = Some via" "auth_user (granted_by via u) = u"
  by (simp_all add: refused_def granted_by_def)

lemma find_None_list_all: "List.find P xs = None \<longleftrightarrow> list_all (\<lambda>x. \<not> P x) xs"
  by (induction xs) auto

lemma trusted_proxy_user:
  assumes "authorizeTrustedProxy env req proxies tp = Inr u"
  shows "\<exists>r. req = Some r \<and> isTrustedProxyAddress env (remoteAddress r) proxies
           \<and> (if isLoopbackAddress env (remoteAddress r) then allowLoopback tp = Some True
              else \<not> isLocalInterfaceAddress env (remoteAddress r))
           \<and> list_all (\<lambda>h. \<not> blank_header (request_header r h)) (or_default (requiredHeaders tp) [])
           \<and> u \<noteq> [] \<and> map_option js_trim (request_header r (userHeader tp)) = Some u
           \<and> u \<in> (if or_default (allowUsers tp) [] = [] then UNIV else set (or_default (allowUsers tp) []))"
proof (cases req)
  case (Some r)
  let ?h = "request_header r (userHeader tp)"
  from assms Some have "List.find (\<lambda>h. blank_header (request_header r h)) (or_default (requiredHeaders tp) []) = None"
    "\<not> blank_header ?h" "u = js_trim (or_default ?h [])"
    "isTrustedProxyAddress env (remoteAddress r) proxies"
    "or_default (allowUsers tp) [] \<noteq> [] \<longrightarrow> u \<in> set (or_default (allowUsers tp) [])"
    "if isLoopbackAddress env (remoteAddress r) then allowLoopback tp = Some True
     else \<not> isLocalInterfaceAddress env (remoteAddress r)"
    by (auto simp: authorizeTrustedProxy_def Let_def isLocalInterfaceAddress_def split: if_splits option.splits)
  moreover from this(2,3) have "u \<noteq> []" "map_option js_trim ?h = Some u"
    by (auto simp: blank_header_def split: option.splits)
  ultimately show ?thesis using Some by (auto simp: find_None_list_all)
qed (use assms in \<open>simp add: authorizeTrustedProxy_def\<close>)

lemma tailscale_user_verified:
  assumes "resolveVerifiedTailscaleUser env whois req = Inr tu'"
  shows "\<exists>r ip w tu. req = Some r \<and> isLoopbackAddress env (remoteAddress r) \<and> hasTailscaleProxyHeaders (Some r)
           \<and> resolveTailscaleClientIp env (Some r) = Some ip \<and> whois ip = Some w \<and> getTailscaleUser (Some r) = Some tu
           \<and> normalizeLogin (whois_login w) = normalizeLogin (ts_login tu) \<and> ts_login tu' = whois_login w"
  using assms
  by (cases req) (auto simp: resolveVerifiedTailscaleUser_def getTailscaleUser_def isTailscaleProxyRequest_def
      split: option.splits if_splits)

lemma proxy_mode_earned:
  assumes "authorizeProxyMode env now p m = (r, m')" and "ok r" and "mode (cp_auth p) = ModeTrustedProxy"
  shows "\<exists>via. auth_via r = Some via \<and> earned env whois p via (auth_user r)"
proof -
  let ?auth = "cp_auth p" and ?ctx = "resolveGatewayAuthRequestContext env p"
  obtain tp where tp: "trustedProxy ?auth = Some tp" "\<not> (cp_trustedProxies p = None \<or> cp_trustedProxies p = Some [])"
    using assms(1,2) by (auto simp: authorizeProxyMode_def Let_def split: option.splits if_splits)
  show ?thesis
  proof (cases "authorizeTrustedProxy env (cp_req p) (cp_trustedProxies p) tp")
    case (Inr u)
    with assms(1,2) tp have "r = granted_by ByTrustedProxy (Some u)"
      by (auto simp: authorizeProxyMode_def Let_def split: option.splits if_splits)
    with trusted_proxy_user [OF Inr] tp(1) assms(3) show ?thesis by (auto simp: earned_def Let_def)
  next
    case (Inl e)
    with assms(1,2) tp obtain m1 where "localDirect ?ctx"
      "authorizePasswordAuth env (rateLimiter p) now (ctx_ip ?ctx) (ctx_scope ?ctx) (password ?auth)
         (Option.bind (connectAuth p) ca_password) m1 = (r, m')"
      by (auto simp: authorizeProxyMode_def Let_def dest: rejected_not_ok split: option.splits if_splits prod.splits)
    with password_ok [OF this(2) assms(2)] assms(3) show ?thesis
      by (auto simp: earned_def Let_def resolveGatewayAuthRequestContext_def)
  qed
qed

lemma shared_secret_earned:
  assumes "authorizeSharedSecret env now p m = (r, m')" and "ok r"
  shows "\<exists>via. auth_via r = Some via \<and> earned env whois p via (auth_user r)"
  using assms token_ok [of env _ now _ _ _ _ m r m'] password_ok [of env _ now _ _ _ _ m r m']
  by (cases "mode (cp_auth p)") (fastforce simp: authorizeSharedSecret_def Let_def earned_def)+

lemma eligible_facts:
  "tailscale_eligible env p \<Longrightarrow> cp_authSurface p = Some WsControlUiSurface \<and> allowTailscale (cp_auth p)"
  by (cases "cp_authSurface p")
    (auto simp: tailscale_eligible_def Let_def shouldAllowTailscaleHeaderAuth_def resolveGatewayAuthRequestContext_def)

section \<open>Logins and the limiter\<close>

text \<open>The secret a mode expects and the one the client presents.\<close>

definition expected_secret :: "connect_params \<Rightarrow> string option" where
  "expected_secret p = (if mode (cp_auth p) = ModeToken then token (cp_auth p) else password (cp_auth p))"

definition presented_secret :: "connect_params \<Rightarrow> string option" where
  "presented_secret p =
     Option.bind (connectAuth p) (if mode (cp_auth p) = ModeToken then ca_token else ca_password)"

definition credential_of :: "connect_params \<Rightarrow> credential" where
  "credential_of p =
     (if \<not> present (presented_secret p) then Missing
      else if presented_secret p = expected_secret p then Correct else Wrong)"

lemma shared_secret_login:
  assumes "mode (cp_auth p) = ModeToken \<or> mode (cp_auth p) = ModePassword" and "present (expected_secret p)"
    and "rateLimiter p = Some cfg"
  shows "ok (fst (authorizeSharedSecret env now p m)) = (credential_of p = Correct)
    \<and> \<not> rateLimited (fst (authorizeSharedSecret env now p m))
    \<and> snd (authorizeSharedSecret env now p m) =
        (let ctx = resolveGatewayAuthRequestContext env p
         in case credential_of p of
              Missing \<Rightarrow> m
            | Wrong \<Rightarrow> recordFailure env cfg now (ctx_ip ctx) (Some (ctx_scope ctx)) m
            | Correct \<Rightarrow> reset_key env (ctx_ip ctx) (Some (ctx_scope ctx)) m)"
proof -
  obtain t where t: "expected_secret p = Some t" "t \<noteq> []"
    using assms(2) by (auto simp: present_def split: option.splits)
  show ?thesis
  proof (cases "presented_secret p")
    case None
    with t assms show ?thesis
      by (auto simp: authorizeSharedSecret_def authorizeTokenAuth_def authorizePasswordAuth_def expected_secret_def
          presented_secret_def credential_of_def present_def refused_def Let_def)
  next
    case (Some c)
    with t assms show ?thesis
      by (auto simp: authorizeSharedSecret_def authorizeTokenAuth_def authorizePasswordAuth_def expected_secret_def
          presented_secret_def credential_of_def present_def refused_def granted_by_def charge_def forgive_def
          safeEqual_iff Let_def)
  qed
qed

section \<open>An example\<close>

definition sample_login :: "string \<Rightarrow> connect_params" where
  "sample_login tok =
     \<lparr>cp_auth = \<lparr>mode = ModeToken, modeSource = FromConfig, token = Some ''right'', password = None,
                 allowTailscale = False, trustedProxy = None\<rparr>,
      connectAuth = Some \<lparr>ca_token = Some tok, ca_password = None\<rparr>,
      cp_req = Some \<lparr>remoteAddress = Some ''10.0.0.9'', headers = []\<rparr>, cp_trustedProxies = None,
      cp_authSurface = None, rateLimiter = Some (createAuthRateLimiter sample_limiter_config), clientIp = None,
      rateLimitScope = None, cp_allowRealIpFallback = False, browserOriginPolicy = None\<rparr>"

lemma sample_login_facts:
  "mode (cp_auth (sample_login tok)) = ModeToken" "expected_secret (sample_login tok) = Some ''right''"
  "rateLimiter (sample_login tok) = Some (createAuthRateLimiter sample_limiter_config)"
  "\<not> tailscale_eligible env (sample_login tok)"
  by (simp_all add: sample_login_def expected_secret_def tailscale_eligible_def Let_def)

section \<open>The properties\<close>

text \<open>Secrets are compared exactly: the padded constant-time comparison of the UTF-8 bytes accepts a
  presented secret if and only if it is the expected string, and never when either is absent.\<close>

theorem secret_comparison_is_equality:
  "safeEqualSecret provided expected = (provided \<noteq> None \<and> provided = expected)"
  using safeEqual_iff by (cases provided; cases expected) (simp_all add: safeEqualSecret_def)

text \<open>C9.  Access is earned.  Whatever the request claims, a connection is granted on one of five grounds:
  authentication is switched off; the token or the password configured for the mode was presented; the
  tailnet's identity service confirmed the login the local proxy forwards; or the request came from a
  trusted proxy that is not this machine, with the required headers and an allowed user.\<close>

theorem access_is_earned:
  assumes "authorizeGatewayConnectCore env whois now p m = (r, m')" and "ok r"
  shows "\<exists>via. auth_via r = Some via \<and> earned env whois p via (auth_user r)"
proof (cases "mode (cp_auth p) = ModeTrustedProxy \<or> mode (cp_auth p) = ModeNone")
  case True
  then show ?thesis
  proof
    assume "mode (cp_auth p) = ModeTrustedProxy"
    with assms proxy_mode_earned show ?thesis by (simp add: authorizeGatewayConnectCore_def Let_def)
  next
    assume "mode (cp_auth p) = ModeNone"
    with assms(1) show ?thesis by (auto simp: authorizeGatewayConnectCore_def Let_def earned_def)
  qed
next
  case False
  let ?ctx = "resolveGatewayAuthRequestContext env p"
  let ?ts = "if tailscale_eligible env p then resolveVerifiedTailscaleUser env whois (cp_req p) else Inl []"
  obtain m1 where m1: "rejectIfRateLimited env (rateLimiter p) now (ctx_ip ?ctx) (ctx_scope ?ctx) m = (None, m1)"
    using assms False
    by (cases "rejectIfRateLimited env (rateLimiter p) now (ctx_ip ?ctx) (ctx_scope ?ctx) m")
      (auto simp: authorizeGatewayConnectCore_def Let_def dest: rejected_not_ok split: option.splits)
  show ?thesis
  proof (cases ?ts)
    case (Inl e)
    with assms False m1 shared_secret_earned show ?thesis by (simp add: authorizeGatewayConnectCore_def Let_def)
  next
    case (Inr tu)
    then have el: "tailscale_eligible env p" and v: "resolveVerifiedTailscaleUser env whois (cp_req p) = Inr tu"
      by (auto split: if_splits)
    have r: "r = granted_by ByTailscale (Some (ts_login tu))"
      using assms(1) False m1 Inr by (auto simp: authorizeGatewayConnectCore_def Let_def)
    have "mode (cp_auth p) \<in> {ModeToken, ModePassword}" using False by (cases "mode (cp_auth p)") auto
    with r tailscale_user_verified [OF v] eligible_facts [OF el] show ?thesis
      by (auto simp: earned_def Let_def)
  qed
qed

lemma access_is_earned_witness:
  "\<exists>via. auth_via (granted_by ByToken None) = Some via
     \<and> earned sample_net (\<lambda>_. None) (sample_login ''right'') via (auth_user (granted_by ByToken None))"
proof (rule access_is_earned)
  have "credential_of (sample_login ''right'') = Correct"
    by (simp add: credential_of_def sample_login_facts) (simp add: presented_secret_def sample_login_def present_def)
  then show "authorizeGatewayConnectCore sample_net (\<lambda>_. None) 1000 (sample_login ''right'') [] = (granted_by ByToken None, [])"
    by (simp add: authorizeGatewayConnectCore_def rejectIfRateLimited_def check_def Let_def sample_login_facts)
      (simp add: authorizeSharedSecret_def authorizeTokenAuth_def sample_login_def present_def safeEqual_iff
        forgive_def reset_key_def Let_def)
qed simp

text \<open>A login is one attempt of the limiter.  In token and password mode, with a limiter and without a
  tailnet login, the connection is granted exactly when the limiter allows the attempt and the secret is
  the expected one, and the limiter then is in the state its own protocol gives: wrong secrets are
  charged, right ones clear the key, missing ones are free.  The limiter's guarantees are therefore
  guarantees of the gateway.\<close>

theorem login_is_one_attempt:
  assumes "mode (cp_auth p) = ModeToken \<or> mode (cp_auth p) = ModePassword" and "present (expected_secret p)"
    and "rateLimiter p = Some cfg" and "\<not> tailscale_eligible env p"
  shows "let ctx = resolveGatewayAuthRequestContext env p;
             answer = attempt env cfg now (ctx_ip ctx) (Some (ctx_scope ctx)) (credential_of p) m;
             res = authorizeGatewayConnectCore env whois now p m
         in ok (fst res) = (allowed (fst answer) \<and> credential_of p = Correct)
            \<and> rateLimited (fst res) = (\<not> allowed (fst answer)) \<and> snd res = snd answer"
proof -
  let ?ctx = "resolveGatewayAuthRequestContext env p"
  obtain r m1 where chk: "check env cfg now (ctx_ip ?ctx) (Some (ctx_scope ?ctx)) m = (r, m1)" by fastforce
  have core: "authorizeGatewayConnectCore env whois now p m =
    (if allowed r then authorizeSharedSecret env now p m1
     else ((refused ''rate_limited'')\<lparr>rateLimited := True, retryAfter := Some (retryAfterMs r)\<rparr>, m1))"
    using assms chk by (auto simp: authorizeGatewayConnectCore_def rejectIfRateLimited_def Let_def)
  show ?thesis
    using shared_secret_login [OF assms(1-3), of env now m1]
    by (cases "credential_of p") (auto simp: core chk attempt_def Let_def refused_def)
qed

lemma login_is_one_attempt_witness:
  "let p = sample_login ''wrong''; cfg = createAuthRateLimiter sample_limiter_config;
       ctx = resolveGatewayAuthRequestContext sample_net p;
       answer = attempt sample_net cfg 1000 (ctx_ip ctx) (Some (ctx_scope ctx)) (credential_of p) [];
       res = authorizeGatewayConnectCore sample_net (\<lambda>_. None) 1000 p []
   in ok (fst res) = (allowed (fst answer) \<and> credential_of p = Correct)
      \<and> rateLimited (fst res) = (\<not> allowed (fst answer)) \<and> snd res = snd answer"
  using login_is_one_attempt [of "sample_login ''wrong''" "createAuthRateLimiter sample_limiter_config" sample_net
      1000 "[]" "\<lambda>_. None"]
  by (simp add: sample_login_facts present_def)

text \<open>A client does not choose its address.  When the peer is not a trusted proxy, no forwarding header
  has any influence on the address it is known and limited by; and when it is one, whatever hops the
  client forged in front of those the proxies recorded do not change the address found.\<close>

theorem client_address_is_not_chosen_by_the_client:
  "(isTrustedProxyAddress env (normalizeIp env (remoteAddr p)) (trustedProxies p)
     \<or> resolveClientIp env (p\<lparr>forwardedFor := hops, realIp := claimed\<rparr>) = resolveClientIp env p)
   \<and> (resolveForwardedClientIp env (Some hops') proxies = None
      \<or> resolveForwardedClientIp env (Some (forged @ '','' @ hops')) proxies
          = resolveForwardedClientIp env (Some hops') proxies)"
proof
  show "isTrustedProxyAddress env (normalizeIp env (remoteAddr p)) (trustedProxies p)
     \<or> resolveClientIp env (p\<lparr>forwardedFor := hops, realIp := claimed\<rparr>) = resolveClientIp env p"
    by (auto simp: resolveClientIp_def split: option.split)
  show "resolveForwardedClientIp env (Some hops') proxies = None
      \<or> resolveForwardedClientIp env (Some (forged @ '','' @ hops')) proxies
          = resolveForwardedClientIp env (Some hops') proxies"
    using forwarded_ip_prefix [of env hops' proxies _ forged]
    by (cases "resolveForwardedClientIp env (Some hops') proxies") auto
qed

end
