(* ===== verification/AttemptSerial.thy ===== *)
theory AttemptSerial
  imports GatewayAuth
begin

text \<open>
  Concurrent authentication attempts, \<^verbatim>\<open>gateway/rate-limit-attempt-serialization.ts\<close>: an attempt that has
  to wait for the tailnet's identity service runs only after the attempts before it on the same key.
  An attempt is a number; its tail promise is settled when it is finished.  Beginning, starting (the
  turn after the previous tail settled) and finishing are separate events, so attempts interleave freely.
\<close>

datatype attempt_phase = Waiting | Running | Finished

record serial_attempt =
  at_key :: string
  at_previous :: "nat option"
  at_phase :: attempt_phase

record serial_state =
  pendingAttempts :: "(string, nat) js_map"
  begun :: "serial_attempt list"

definition no_attempts :: serial_state where
  "no_attempts = \<lparr>pendingAttempts = [], begun = []\<rparr>"

definition buildSerializationKey :: "'a net_env \<Rightarrow> string option \<Rightarrow> string option \<Rightarrow> string" where
  "buildSerializationKey env ip scope = normalizeScope scope @ '':'' @ normalizeRateLimitClientIp env ip"

text \<open>The connections \<^verbatim>\<open>authorizeGatewayConnect\<close> serializes.\<close>

definition needs_serialization :: "'a net_env \<Rightarrow> connect_params \<Rightarrow> bool" where
  "needs_serialization env p \<longleftrightarrow>
     (let ctx = resolveGatewayAuthRequestContext env p
      in rateLimiter p \<noteq> None \<and> shouldAllowTailscaleHeaderAuth (ctx_surface ctx)
         \<and> allowTailscale (cp_auth p) \<and> \<not> localDirect ctx)"

definition begin_attempt :: "string \<Rightarrow> serial_state \<Rightarrow> serial_state" where
  "begin_attempt key s =
     s\<lparr>begun := begun s @ [\<lparr>at_key = key, at_previous = js_get (pendingAttempts s) key, at_phase = Waiting\<rparr>],
       pendingAttempts := js_set key (length (begun s)) (pendingAttempts s)\<rparr>"

definition has_phase :: "serial_state \<Rightarrow> nat \<Rightarrow> attempt_phase \<Rightarrow> bool" where
  "has_phase s i ph \<longleftrightarrow> i < length (begun s) \<and> at_phase (begun s ! i) = ph"

definition may_start :: "serial_state \<Rightarrow> nat \<Rightarrow> bool" where
  "may_start s i \<longleftrightarrow> has_phase s i Waiting
     \<and> (case at_previous (begun s ! i) of None \<Rightarrow> True | Some j \<Rightarrow> has_phase s j Finished)"

definition start_attempt :: "nat \<Rightarrow> serial_state \<Rightarrow> serial_state" where
  "start_attempt i s =
     (if may_start s i then s\<lparr>begun := (begun s)[i := (begun s ! i)\<lparr>at_phase := Running\<rparr>]\<rparr> else s)"

definition finish_attempt :: "nat \<Rightarrow> serial_state \<Rightarrow> serial_state" where
  "finish_attempt i s =
     (if has_phase s i Running
      then s\<lparr>begun := (begun s)[i := (begun s ! i)\<lparr>at_phase := Finished\<rparr>],
             pendingAttempts :=
               (if js_get (pendingAttempts s) (at_key (begun s ! i)) = Some i
                then js_delete (at_key (begun s ! i)) (pendingAttempts s) else pendingAttempts s)\<rparr>
      else s)"

datatype serial_event = BeginAttempt string | StartAttempt nat | FinishAttempt nat

fun serial_step :: "serial_event \<Rightarrow> serial_state \<Rightarrow> serial_state" where
  "serial_step (BeginAttempt key) s = begin_attempt key s"
| "serial_step (StartAttempt i) s = start_attempt i s"
| "serial_step (FinishAttempt i) s = finish_attempt i s"

definition run_attempts :: "serial_event list \<Rightarrow> serial_state" where
  "run_attempts es = fold serial_step es no_attempts"

section \<open>The invariant\<close>

definition unfinished :: "serial_state \<Rightarrow> nat \<Rightarrow> string \<Rightarrow> bool" where
  "unfinished s i key \<longleftrightarrow> i < length (begun s) \<and> at_key (begun s ! i) = key \<and> at_phase (begun s ! i) \<noteq> Finished"

definition serial_inv :: "serial_state \<Rightarrow> bool" where
  "serial_inv s \<longleftrightarrow>
     distinct (js_keys (pendingAttempts s))
     \<and> (\<forall>key j. js_get (pendingAttempts s) key = Some j \<longrightarrow> unfinished s j key)
     \<and> (\<forall>key i. unfinished s i key \<longrightarrow> (\<exists>j \<ge> i. js_get (pendingAttempts s) key = Some j))
     \<and> (\<forall>i j. i < length (begun s) \<longrightarrow> at_previous (begun s ! i) = Some j
          \<longrightarrow> j < i \<and> at_key (begun s ! j) = at_key (begun s ! i))
     \<and> (\<forall>i k key. i < length (begun s) \<longrightarrow> at_key (begun s ! i) = key \<longrightarrow> k < i \<longrightarrow> unfinished s k key
          \<longrightarrow> (\<exists>j \<ge> k. at_previous (begun s ! i) = Some j))
     \<and> (\<forall>i k key. i < length (begun s) \<longrightarrow> at_key (begun s ! i) = key \<longrightarrow> at_phase (begun s ! i) \<noteq> Waiting
          \<longrightarrow> k < i \<longrightarrow> \<not> unfinished s k key)"

lemma serial_invD:
  assumes "serial_inv s"
  shows "distinct (js_keys (pendingAttempts s))"
    "\<And>key j. js_get (pendingAttempts s) key = Some j \<Longrightarrow> unfinished s j key"
    "\<And>key i. unfinished s i key \<Longrightarrow> \<exists>j \<ge> i. js_get (pendingAttempts s) key = Some j"
    "\<And>i j. i < length (begun s) \<Longrightarrow> at_previous (begun s ! i) = Some j
       \<Longrightarrow> j < i \<and> at_key (begun s ! j) = at_key (begun s ! i)"
    "\<And>i k key. i < length (begun s) \<Longrightarrow> at_key (begun s ! i) = key \<Longrightarrow> k < i \<Longrightarrow> unfinished s k key
       \<Longrightarrow> \<exists>j \<ge> k. at_previous (begun s ! i) = Some j"
    "\<And>i k key. i < length (begun s) \<Longrightarrow> at_key (begun s ! i) = key \<Longrightarrow> at_phase (begun s ! i) \<noteq> Waiting
       \<Longrightarrow> k < i \<Longrightarrow> \<not> unfinished s k key"
  using assms unfolding serial_inv_def by blast+

lemma serial_invI:
  assumes "distinct (js_keys (pendingAttempts s))"
    "\<And>key j. js_get (pendingAttempts s) key = Some j \<Longrightarrow> unfinished s j key"
    "\<And>key i. unfinished s i key \<Longrightarrow> \<exists>j \<ge> i. js_get (pendingAttempts s) key = Some j"
    "\<And>i j. i < length (begun s) \<Longrightarrow> at_previous (begun s ! i) = Some j
       \<Longrightarrow> j < i \<and> at_key (begun s ! j) = at_key (begun s ! i)"
    "\<And>i k key. i < length (begun s) \<Longrightarrow> at_key (begun s ! i) = key \<Longrightarrow> k < i \<Longrightarrow> unfinished s k key
       \<Longrightarrow> \<exists>j \<ge> k. at_previous (begun s ! i) = Some j"
    "\<And>i k key. i < length (begun s) \<Longrightarrow> at_key (begun s ! i) = key \<Longrightarrow> at_phase (begun s ! i) \<noteq> Waiting
       \<Longrightarrow> k < i \<Longrightarrow> \<not> unfinished s k key"
  shows "serial_inv s"
  using assms unfolding serial_inv_def by blast

lemma begin_attempt_inv:
  assumes inv: "serial_inv s"
  shows "serial_inv (begin_attempt key s)"
proof -
  note D = serial_invD [OF inv]
  let ?s = "begin_attempt key s" and ?n = "length (begun s)"
  have fields: "begun ?s = begun s @ [\<lparr>at_key = key, at_previous = js_get (pendingAttempts s) key, at_phase = Waiting\<rparr>]"
    "pendingAttempts ?s = js_set key ?n (pendingAttempts s)"
    by (simp_all add: begin_attempt_def)
  have un: "unfinished ?s i k \<longleftrightarrow> unfinished s i k \<or> (i = ?n \<and> k = key)" for i k
    by (auto simp: unfinished_def fields nth_append)
  have lt: "unfinished s i k \<Longrightarrow> i < ?n" for i k by (simp add: unfinished_def)
  show ?thesis
  proof (rule serial_invI)
    show "distinct (js_keys (pendingAttempts ?s))" using D(1) by (simp add: fields)
  next
    fix k j assume "js_get (pendingAttempts ?s) k = Some j"
    then show "unfinished ?s j k" using D(2) by (auto simp: fields un split: if_splits)
  next
    fix k i assume "unfinished ?s i k"
    then show "\<exists>j \<ge> i. js_get (pendingAttempts ?s) k = Some j"
      using D(3) lt by (auto simp: fields un intro: less_imp_le)
  next
    fix i j assume "i < length (begun ?s)" "at_previous (begun ?s ! i) = Some j"
    then show "j < i \<and> at_key (begun ?s ! j) = at_key (begun ?s ! i)"
      using D(4) [of i j] D(2) [of key j] by (auto simp: fields nth_append unfinished_def split: if_splits)
  next
    fix i k k' assume "i < length (begun ?s)" "at_key (begun ?s ! i) = k'" "k < i" "unfinished ?s k k'"
    then show "\<exists>j \<ge> k. at_previous (begun ?s ! i) = Some j"
      using D(3) [of k k'] D(5) [of i k' k] by (auto simp: fields un nth_append split: if_splits)
  next
    fix i k k' assume "i < length (begun ?s)" "at_key (begun ?s ! i) = k'" "at_phase (begun ?s ! i) \<noteq> Waiting" "k < i"
    then show "\<not> unfinished ?s k k'"
      using D(6) [of i k' k] by (auto simp: fields un nth_append split: if_splits)
  qed
qed

lemma start_attempt_inv:
  assumes inv: "serial_inv s"
  shows "serial_inv (start_attempt n s)"
proof (cases "may_start s n")
  case True
  note D = serial_invD [OF inv]
  let ?s = "start_attempt n s"
  have n: "n < length (begun s)" "at_phase (begun s ! n) = Waiting" using True by (simp_all add: may_start_def has_phase_def)
  have fields: "begun ?s = (begun s)[n := (begun s ! n)\<lparr>at_phase := Running\<rparr>]" "pendingAttempts ?s = pendingAttempts s"
    using True by (simp_all add: start_attempt_def)
  have same: "length (begun ?s) = length (begun s)" "at_key (begun ?s ! i) = at_key (begun s ! i)"
    "at_previous (begun ?s ! i) = at_previous (begun s ! i)" for i
    using n by (cases "i = n"; simp add: fields)+
  have un: "unfinished ?s i k = unfinished s i k" for i k
    using n by (cases "i = n") (auto simp: unfinished_def same fields nth_list_update)
  have first: "\<not> unfinished s k (at_key (begun s ! n))" if "k < n" for k
  proof
    assume k: "unfinished s k (at_key (begun s ! n))"
    from D(5) [OF n(1) refl that this] obtain j where j: "k \<le> j" "at_previous (begun s ! n) = Some j" by blast
    with True have fin: "j < length (begun s)" "at_phase (begun s ! j) = Finished"
      by (simp_all add: may_start_def has_phase_def)
    have key: "at_key (begun s ! j) = at_key (begun s ! n)" using D(4) [OF n(1) j(2)] by simp
    show False
    proof (cases "k = j")
      case True
      with k fin show False by (simp add: unfinished_def)
    next
      case False
      with j(1) D(6) [OF fin(1) key _, of k] fin(2) k show False by simp
    qed
  qed
  show ?thesis
  proof (rule serial_invI; unfold un same fields(2))
    fix i k k' assume "i < length (begun s)" "at_key (begun s ! i) = k'" "at_phase (begun ?s ! i) \<noteq> Waiting" "k < i"
    then show "\<not> unfinished s k k'" using D(6) [of i k' k] first by (cases "i = n") (auto simp: fields)
  qed (rule D; assumption)+
qed (use inv in \<open>simp add: start_attempt_def\<close>)

lemma finish_attempt_inv:
  assumes inv: "serial_inv s"
  shows "serial_inv (finish_attempt n s)"
proof (cases "has_phase s n Running")
  case True
  note D = serial_invD [OF inv]
  let ?s = "finish_attempt n s" and ?key = "at_key (begun s ! n)"
  have n: "n < length (begun s)" "at_phase (begun s ! n) = Running" using True by (simp_all add: has_phase_def)
  have fields: "begun ?s = (begun s)[n := (begun s ! n)\<lparr>at_phase := Finished\<rparr>]"
    "pendingAttempts ?s = (if js_get (pendingAttempts s) ?key = Some n then js_delete ?key (pendingAttempts s) else pendingAttempts s)"
    using True by (simp_all add: finish_attempt_def)
  have same: "length (begun ?s) = length (begun s)" "at_key (begun ?s ! i) = at_key (begun s ! i)"
    "at_previous (begun ?s ! i) = at_previous (begun s ! i)" for i
    using n by (cases "i = n"; simp add: fields)+
  have un: "unfinished ?s i k \<longleftrightarrow> unfinished s i k \<and> i \<noteq> n" for i k
    using n by (cases "i = n") (auto simp: unfinished_def same fields nth_list_update)
  have first: "\<not> unfinished s k ?key" if "k < n" for k
    using D(6) [OF n(1) refl _ that] n(2) by simp
  have get: "js_get (pendingAttempts ?s) k = (if js_get (pendingAttempts s) k = Some n \<and> k = ?key then None
      else js_get (pendingAttempts s) k)" for k
    by (simp add: fields)
  show ?thesis
  proof (rule serial_invI; (unfold same)?)
    show "distinct (js_keys (pendingAttempts ?s))" using D(1) by (simp add: fields)
  next
    fix k j assume "js_get (pendingAttempts ?s) k = Some j"
    then have j: "js_get (pendingAttempts s) k = Some j" "j \<noteq> n \<or> k \<noteq> ?key" by (auto simp: get split: if_splits)
    have "j \<noteq> n" using j D(2) [OF j(1)] by (auto simp: unfinished_def)
    with D(2) [OF j(1)] show "unfinished ?s j k" by (simp add: un)
  next
    fix k i assume "unfinished ?s i k"
    then have i: "unfinished s i k" "i \<noteq> n" by (simp_all add: un)
    from D(3) [OF i(1)] obtain j where j: "i \<le> j" "js_get (pendingAttempts s) k = Some j" by blast
    have "\<not> (j = n \<and> k = ?key)" using first [of i] i j by auto
    with j show "\<exists>j \<ge> i. js_get (pendingAttempts ?s) k = Some j" by (auto simp: get)
  next
    fix i k k' assume "i < length (begun s)" "at_key (begun s ! i) = k'" "k < i" "unfinished ?s k k'"
    then show "\<exists>j \<ge> k. at_previous (begun s ! i) = Some j" using D(5) [of i k' k] by (simp add: un)
  next
    fix i k k' assume "i < length (begun s)" "at_key (begun s ! i) = k'" "at_phase (begun ?s ! i) \<noteq> Waiting" "k < i"
    then show "\<not> unfinished ?s k k'"
      using D(6) [of i k' k] n first by (cases "i = n") (auto simp: fields un)
  qed (rule D; assumption)+
qed (use inv in \<open>simp add: finish_attempt_def\<close>)

interpretation serial_machine: invariant_machine serial_step serial_inv
proof
  fix s e assume "serial_inv s"
  then show "serial_inv (serial_step e s)" by (cases e) (simp_all add: begin_attempt_inv start_attempt_inv finish_attempt_inv)
qed

lemma run_attempts_inv: "serial_inv (run_attempts es)"
  unfolding run_attempts_def
  by (rule serial_machine.run_inv) (simp add: serial_inv_def no_attempts_def unfinished_def)

lemma all_finished_iff: "pendingAttempts (run_attempts es) = [] \<longleftrightarrow> list_all (\<lambda>a. at_phase a = Finished) (begun (run_attempts es))"
proof -
  let ?s = "run_attempts es"
  note D = serial_invD [OF run_attempts_inv [of es]]
  have "(\<exists>i key. unfinished ?s i key) \<longleftrightarrow> pendingAttempts ?s \<noteq> []"
  proof
    assume "pendingAttempts ?s \<noteq> []"
    then have "js_get (pendingAttempts ?s) (fst (hd (pendingAttempts ?s))) = Some (snd (hd (pendingAttempts ?s)))"
      by (cases "pendingAttempts ?s") auto
    with D(2) show "\<exists>i key. unfinished ?s i key" by blast
  qed (use D(3) in fastforce)
  moreover have "(\<exists>i key. unfinished ?s i key) \<longleftrightarrow> \<not> list_all (\<lambda>a. at_phase a = Finished) (begun ?s)"
    by (auto simp: unfinished_def list_all_length)
  ultimately show ?thesis by blast
qed

section \<open>The properties\<close>

text \<open>C38.  Attempts on one key run one at a time and in order: whatever the interleaving, once an attempt has
  started, every earlier attempt on the same key is finished.  So between the check of a limiter and
  the record of the outcome no other serialized attempt on that key gets in.\<close>

theorem attempts_are_serialized:
  assumes "has_phase (run_attempts es) i ph" and "ph \<noteq> Waiting" and "j < i"
    and "at_key (begun (run_attempts es) ! j) = at_key (begun (run_attempts es) ! i)"
  shows "has_phase (run_attempts es) j Finished"
proof -
  have "\<not> unfinished (run_attempts es) j (at_key (begun (run_attempts es) ! i))"
    using serial_invD(6) [OF run_attempts_inv, of i es] assms(1-3) by (simp add: has_phase_def)
  with assms show ?thesis by (simp add: unfinished_def has_phase_def)
qed

lemma attempts_are_serialized_witness:
  "has_phase (run_attempts [BeginAttempt ''k'', BeginAttempt ''k'', StartAttempt 0, StartAttempt 1,
      FinishAttempt 0, StartAttempt 1]) 0 Finished"
  by (rule attempts_are_serialized [where i = 1 and ph = Running])
    (simp_all add: run_attempts_def no_attempts_def begin_attempt_def start_attempt_def finish_attempt_def
      may_start_def has_phase_def)

text \<open>Serialization never blocks and never leaks.  While some attempt on a key is unfinished, one of
  them is running or can start at once; and the table of pending attempts is empty exactly when every
  attempt is finished.\<close>

theorem serialization_makes_progress:
  assumes "unfinished (run_attempts es) i key"
  shows "(\<exists>j. at_key (begun (run_attempts es) ! j) = key
            \<and> (may_start (run_attempts es) j \<or> has_phase (run_attempts es) j Running))
         \<and> (pendingAttempts (run_attempts es) = []) = list_all (\<lambda>a. at_phase a = Finished) (begun (run_attempts es))"
proof
  let ?s = "run_attempts es"
  note D = serial_invD [OF run_attempts_inv [of es]]
  define j where "j = (LEAST j. unfinished ?s j key)"
  have j: "unfinished ?s j key" unfolding j_def using assms by (rule LeastI)
  have least: "\<not> unfinished ?s k key" if "k < j" for k using not_less_Least that unfolding j_def by blast
  have "may_start ?s j \<or> has_phase ?s j Running"
  proof (cases "at_phase (begun ?s ! j)")
    case Waiting
    have "has_phase ?s k Finished" if "at_previous (begun ?s ! j) = Some k" for k
      using D(4) [of j k] that j least [of k] by (auto simp: unfinished_def has_phase_def)
    with Waiting j show ?thesis by (auto simp: may_start_def has_phase_def unfinished_def split: option.split)
  qed (use j in \<open>auto simp: has_phase_def unfinished_def\<close>)
  with j show "\<exists>j. at_key (begun ?s ! j) = key \<and> (may_start ?s j \<or> has_phase ?s j Running)"
    by (auto simp: unfinished_def)
  show "(pendingAttempts ?s = []) = list_all (\<lambda>a. at_phase a = Finished) (begun ?s)" by (rule all_finished_iff)
qed

lemma serialization_makes_progress_witness:
  "(\<exists>j. at_key (begun (run_attempts [BeginAttempt ''k'', StartAttempt 0, BeginAttempt ''k'']) ! j) = ''k''
      \<and> (may_start (run_attempts [BeginAttempt ''k'', StartAttempt 0, BeginAttempt ''k'']) j
          \<or> has_phase (run_attempts [BeginAttempt ''k'', StartAttempt 0, BeginAttempt ''k'']) j Running))
   \<and> (pendingAttempts (run_attempts [BeginAttempt ''k'', StartAttempt 0, BeginAttempt ''k'']) = [])
      = list_all (\<lambda>a. at_phase a = Finished) (begun (run_attempts [BeginAttempt ''k'', StartAttempt 0, BeginAttempt ''k'']))"
  by (rule serialization_makes_progress [where i = 1])
    (simp add: run_attempts_def no_attempts_def begin_attempt_def start_attempt_def may_start_def has_phase_def unfinished_def)

end
