(* ===== verification/HeartbeatWake.thy ===== *)
theory HeartbeatWake
  imports NumberCoercion
begin

text \<open>
  The scheduler of heartbeat wakes, \<^verbatim>\<open>infra/heartbeat-wake.ts\<close>: requests are coalesced per target, a
  timer hands the pending batch to the registered handler, and busy or failed wakes are retried after a
  cooldown.  The handler is asynchronous: a batch run is in flight from the call of the handler to its
  answer, and any event may come in between.  A handler is a number; its calls are outputs of the state.
\<close>

datatype heartbeat_result = Ran | SkippedRun string | FailedRun string | Thrown

definition RETRYABLE_BUSY_SKIP_REASONS :: "string set" where
  "RETRYABLE_BUSY_SKIP_REASONS = {''requests-in-flight'', ''cron-in-progress'', ''lanes-busy''}"

definition isRetryableHeartbeatBusySkipReason :: "string \<Rightarrow> bool" where
  "isRetryableHeartbeatBusySkipReason r \<longleftrightarrow> r \<in> RETRYABLE_BUSY_SKIP_REASONS"

datatype wake_intent = Scheduled | Event | Immediate | Manual

datatype wake_source =
    SrcInterval | SrcManual | SrcExecEvent | SrcNotificationsEvent | SrcCron | SrcHook | SrcBackgroundTask
  | SrcBackgroundTaskBlocked | SrcAcpSpawn | SrcCliWatchdog | SrcRestartSentinel | SrcRetry | SrcOther

record wake_override =
  ov_target :: "string option"
  ov_to :: "string option"
  ov_accountId :: "string option"

record wake_request =
  rq_source :: wake_source
  rq_intent :: wake_intent
  rq_reason :: "string option"
  rq_agentId :: "string option"
  rq_sessionKey :: "string option"
  rq_heartbeat :: "wake_override option"

record pending_wake =
  wk_source :: wake_source
  wk_intent :: wake_intent
  wk_reason :: string
  wk_priority :: nat
  wk_requestedAt :: int
  wk_agentId :: "string option"
  wk_sessionKey :: "string option"
  wk_heartbeat :: "wake_override option"

datatype timer_kind = NormalTimer | RetryTimer

record wake_timer =
  timerDueAt :: int
  timerKind :: timer_kind
  timerDelay :: int

text \<open>A batch in flight: the handler it uses, the delay of its timer, the whole batch and the part not answered.\<close>

record wake_run =
  run_number :: nat
  run_handler :: nat
  run_delay :: int
  run_batch :: "pending_wake list"
  run_open :: "pending_wake list"

record wake_state =
  heartbeatsEnabled :: bool
  handler :: "nat option"
  handlerGeneration :: nat
  pendingWakes :: "(string, pending_wake) js_map"
  scheduled :: bool
  running :: bool
  timer :: "wake_timer option"
  in_flight :: "wake_run list"
  next_run :: nat
  calls :: "(nat \<times> wake_request) list"

definition initial_wakes :: wake_state where
  "initial_wakes = \<lparr>heartbeatsEnabled = True, handler = None, handlerGeneration = 0, pendingWakes = [], scheduled = False, running = False,
     timer = None, in_flight = [], next_run = 0, calls = []\<rparr>"

definition DEFAULT_COALESCE_MS :: int where "DEFAULT_COALESCE_MS = 250"
definition DEFAULT_RETRY_MS :: int where "DEFAULT_RETRY_MS = 1000"

section \<open>The pending table\<close>

definition resolveWakePriority :: "wake_source \<Rightarrow> wake_intent \<Rightarrow> string \<Rightarrow> nat" where
  "resolveWakePriority src intent r =
     (if intent = Manual \<or> intent = Immediate then 3
      else if src = SrcRetry \<or> r = ''retry'' then 0
      else if intent = Scheduled \<or> src = SrcInterval \<or> r = ''interval'' then 1
      else 2)"

definition normalizeHeartbeatWakeReason :: "string option \<Rightarrow> string" where
  "normalizeHeartbeatWakeReason r = or_default (normalizeOptionalString r) ''requested''"

definition normalizeWakeTarget :: "string option \<Rightarrow> string option" where
  "normalizeWakeTarget v =
     (let trimmed = or_default (normalizeOptionalString v) [] in if trimmed = [] then None else Some trimmed)"

definition getWakeTargetKey :: "string option \<Rightarrow> string option \<Rightarrow> string" where
  "getWakeTargetKey agentId sessionKey =
     or_default (normalizeWakeTarget agentId) [] @ ''::'' @ or_default (normalizeWakeTarget sessionKey) []"

definition queuePendingWakeReason :: "int \<Rightarrow> wake_request \<Rightarrow> wake_state \<Rightarrow> wake_state" where
  "queuePendingWakeReason now q s =
     (let normalizedReason = normalizeHeartbeatWakeReason (rq_reason q);
          agent = normalizeWakeTarget (rq_agentId q);
          session = normalizeWakeTarget (rq_sessionKey q);
          key = getWakeTargetKey agent session;
          new = \<lparr>wk_source = rq_source q, wk_intent = rq_intent q, wk_reason = normalizedReason,
                 wk_priority = resolveWakePriority (rq_source q) (rq_intent q) normalizedReason,
                 wk_requestedAt = now, wk_agentId = agent, wk_sessionKey = session, wk_heartbeat = rq_heartbeat q\<rparr>
      in case js_get (pendingWakes s) key of
           None \<Rightarrow> s\<lparr>pendingWakes := js_set key new (pendingWakes s)\<rparr>
         | Some previous \<Rightarrow>
             (let merged = new\<lparr>wk_heartbeat := or_else (wk_heartbeat new) (wk_heartbeat previous)\<rparr>
              in if wk_priority new > wk_priority previous then s\<lparr>pendingWakes := js_set key merged (pendingWakes s)\<rparr>
                 else if wk_priority new = wk_priority previous \<and> wk_requestedAt new \<ge> wk_requestedAt previous
                 then s\<lparr>pendingWakes := js_set key merged (pendingWakes s)\<rparr>
                 else s))"

section \<open>The timer\<close>

definition schedule :: "int \<Rightarrow> js_number \<Rightarrow> timer_kind \<Rightarrow> wake_state \<Rightarrow> wake_state" where
  "schedule now coalesceMs kind s =
     (let delay = whole_ms (resolveTimerTimeoutMs (VNum coalesceMs) (Num (of_int DEFAULT_COALESCE_MS)) (Num 0));
          dueAt = now + delay;
          armed = s\<lparr>timer := Some \<lparr>timerDueAt = dueAt, timerKind = kind, timerDelay = delay\<rparr>\<rparr>
      in case timer s of
           None \<Rightarrow> armed
         | Some t \<Rightarrow> if timerKind t = RetryTimer then s else if timerDueAt t \<le> dueAt then s else armed)"

definition requestHeartbeat :: "int \<Rightarrow> js_number option \<Rightarrow> wake_request \<Rightarrow> wake_state \<Rightarrow> wake_state" where
  "requestHeartbeat now coalesceMs q s =
     schedule now (or_default coalesceMs (Num (of_int DEFAULT_COALESCE_MS))) NormalTimer (queuePendingWakeReason now q s)"

definition wake_opts :: "pending_wake \<Rightarrow> wake_request" where
  "wake_opts w = \<lparr>rq_source = wk_source w, rq_intent = wk_intent w, rq_reason = Some (wk_reason w),
     rq_agentId = wk_agentId w, rq_sessionKey = wk_sessionKey w, rq_heartbeat = wk_heartbeat w\<rparr>"

text \<open>The \<^verbatim>\<open>finally\<close> of a batch, which also takes the run out of flight.\<close>

definition finish_run :: "int \<Rightarrow> wake_run \<Rightarrow> wake_state \<Rightarrow> wake_state" where
  "finish_run now r s =
     (let s1 = s\<lparr>running := False, in_flight := filter (\<lambda>r'. run_number r' \<noteq> run_number r) (in_flight s)\<rparr>
      in if pendingWakes s1 \<noteq> [] \<or> scheduled s1 then schedule now (Num (of_int (run_delay r))) NormalTimer s1 else s1)"

definition call_next :: "int \<Rightarrow> wake_run \<Rightarrow> wake_state \<Rightarrow> wake_state" where
  "call_next now r s =
     (case run_open r of
        [] \<Rightarrow> finish_run now r s
      | w # _ \<Rightarrow>
          s\<lparr>calls := calls s @ [(run_handler r, wake_opts w)],
            in_flight := filter (\<lambda>r'. run_number r' \<noteq> run_number r) (in_flight s) @ [r]\<rparr>)"

definition timer_fires :: "int \<Rightarrow> wake_state \<Rightarrow> wake_state" where
  "timer_fires now s =
     (case timer s of
        None \<Rightarrow> s
      | Some t \<Rightarrow>
          if now < timerDueAt t then s
          else
            (let s1 = s\<lparr>timer := None, scheduled := False\<rparr>
             in case handler s1 of
                  None \<Rightarrow> s1
                | Some active \<Rightarrow>
                    if running s1 then schedule now (Num (of_int (timerDelay t))) (timerKind t) (s1\<lparr>scheduled := True\<rparr>)
                    else
                      (let batch = js_values (pendingWakes s1);
                           r = \<lparr>run_number = next_run s1, run_handler = active, run_delay = timerDelay t,
                                run_batch = batch, run_open = batch\<rparr>
                       in call_next now r (s1\<lparr>pendingWakes := [], running := True, next_run := Suc (next_run s1)\<rparr>))))"

text \<open>The handler's answer for the first open wake of a run.\<close>

definition answer :: "int \<Rightarrow> nat \<Rightarrow> heartbeat_result \<Rightarrow> wake_state \<Rightarrow> wake_state" where
  "answer now n res s =
     (case List.find (\<lambda>r. run_number r = n) (in_flight s) of
        None \<Rightarrow> s
      | Some r \<Rightarrow>
          (case run_open r of
             [] \<Rightarrow> s
           | w # rest \<Rightarrow>
               if res = Thrown then
                 finish_run now r
                   (schedule now (Num (of_int DEFAULT_RETRY_MS)) RetryTimer
                     (fold (\<lambda>w. queuePendingWakeReason now (wake_opts w)) (run_batch r) s))
               else
                 (let busy = (case res of SkippedRun why \<Rightarrow> isRetryableHeartbeatBusySkipReason why | _ \<Rightarrow> False);
                      s1 = (if busy
                            then schedule now (Num (of_int DEFAULT_RETRY_MS)) RetryTimer
                                   (queuePendingWakeReason now (wake_opts w) s)
                            else s)
                  in call_next now (r\<lparr>run_open := rest\<rparr>) s1)))"

section \<open>Handlers\<close>

definition setHeartbeatWakeHandler :: "int \<Rightarrow> nat option \<Rightarrow> wake_state \<Rightarrow> nat \<times> wake_state" where
  "setHeartbeatWakeHandler now h s =
     (let generation = Suc (handlerGeneration s);
          s1 = s\<lparr>handlerGeneration := generation, handler := h\<rparr>;
          s2 = (if h \<noteq> None then s1\<lparr>timer := None, running := False, scheduled := False\<rparr> else s1);
          s3 = (if h \<noteq> None \<and> pendingWakes s2 \<noteq> []
                then schedule now (Num (of_int DEFAULT_COALESCE_MS)) NormalTimer s2 else s2)
      in (generation, s3))"

text \<open>The disposer of the registration that got \<^verbatim>\<open>generation\<close> for the handler \<^verbatim>\<open>h\<close>.\<close>

definition dispose_handler :: "nat \<Rightarrow> nat option \<Rightarrow> wake_state \<Rightarrow> wake_state" where
  "dispose_handler generation h s =
     (if handlerGeneration s \<noteq> generation then s
      else if handler s \<noteq> h then s
      else s\<lparr>handlerGeneration := Suc (handlerGeneration s), handler := None\<rparr>)"

definition hasHeartbeatWakeHandler :: "wake_state \<Rightarrow> bool" where
  "hasHeartbeatWakeHandler s \<longleftrightarrow> handler s \<noteq> None"

definition hasPendingHeartbeatWake :: "wake_state \<Rightarrow> bool" where
  "hasPendingHeartbeatWake s \<longleftrightarrow> pendingWakes s \<noteq> [] \<or> timer s \<noteq> None \<or> scheduled s"

definition resetHeartbeatWakeStateForTests :: "wake_state \<Rightarrow> wake_state" where
  "resetHeartbeatWakeStateForTests s =
     s\<lparr>timer := None, pendingWakes := [], scheduled := False, running := False,
       handlerGeneration := Suc (handlerGeneration s), handler := None\<rparr>"

definition setHeartbeatsEnabled :: "bool \<Rightarrow> wake_state \<Rightarrow> wake_state" where
  "setHeartbeatsEnabled enabled s = s\<lparr>heartbeatsEnabled := enabled\<rparr>"

definition areHeartbeatsEnabled :: "wake_state \<Rightarrow> bool" where
  "areHeartbeatsEnabled s = heartbeatsEnabled s"

section \<open>The machine\<close>

datatype wake_event =
    Request int "js_number option" wake_request
  | TimerDue int
  | Answer int nat heartbeat_result
  | SetHandler int "nat option"
  | DisposeHandler nat "nat option"
  | SetEnabled bool

fun wake_step :: "wake_event \<Rightarrow> wake_state \<Rightarrow> wake_state" where
  "wake_step (Request now c q) s = requestHeartbeat now c q s"
| "wake_step (TimerDue now) s = timer_fires now s"
| "wake_step (Answer now n res) s = answer now n res s"
| "wake_step (SetHandler now h) s = snd (setHeartbeatWakeHandler now h s)"
| "wake_step (DisposeHandler g h) s = dispose_handler g h s"
| "wake_step (SetEnabled b) s = setHeartbeatsEnabled b s"

definition run_wakes :: "wake_event list \<Rightarrow> wake_state" where
  "run_wakes es = fold wake_step es initial_wakes"

end
