(* ===== verification/HeartbeatWakeProps.thy ===== *)
theory HeartbeatWakeProps
  imports HeartbeatWake
begin

text \<open>
  What the wake scheduler promises: no pending wake is stranded, every requested target is handed to the
  handler, by a call that follows the request, until it answers for good, and a retry cooldown is not cut short by new requests.
\<close>

section \<open>Keys\<close>

definition wake_key :: "pending_wake \<Rightarrow> string" where
  "wake_key w = getWakeTargetKey (wk_agentId w) (wk_sessionKey w)"

definition request_key :: "wake_request \<Rightarrow> string" where
  "request_key q = getWakeTargetKey (rq_agentId q) (rq_sessionKey q)"

lemma target_idem [simp]: "normalizeWakeTarget (normalizeWakeTarget v) = normalizeWakeTarget v"
  by (auto simp: normalizeWakeTarget_def string_coerce_defs Let_def split: option.splits)

lemma target_key_idem [simp]: "getWakeTargetKey (normalizeWakeTarget a) (normalizeWakeTarget b) = getWakeTargetKey a b"
  by (simp add: getWakeTargetKey_def)

lemma request_key_opts [simp]: "request_key (wake_opts w) = wake_key w"
  by (simp add: request_key_def wake_opts_def wake_key_def)

text \<open>Queueing touches one entry: the request's own key, which is present afterwards.\<close>

lemma queue_frame:
  "timer (queuePendingWakeReason now q s) = timer s" "handler (queuePendingWakeReason now q s) = handler s"
  "running (queuePendingWakeReason now q s) = running s" "in_flight (queuePendingWakeReason now q s) = in_flight s"
  "next_run (queuePendingWakeReason now q s) = next_run s" "scheduled (queuePendingWakeReason now q s) = scheduled s"
  "calls (queuePendingWakeReason now q s) = calls s"
  by (simp_all add: queuePendingWakeReason_def Let_def split: option.split)

definition new_wake :: "int \<Rightarrow> wake_request \<Rightarrow> wake_override option \<Rightarrow> pending_wake" where
  "new_wake now q hb =
     \<lparr>wk_source = rq_source q, wk_intent = rq_intent q, wk_reason = normalizeHeartbeatWakeReason (rq_reason q),
      wk_priority = resolveWakePriority (rq_source q) (rq_intent q) (normalizeHeartbeatWakeReason (rq_reason q)),
      wk_requestedAt = now, wk_agentId = normalizeWakeTarget (rq_agentId q),
      wk_sessionKey = normalizeWakeTarget (rq_sessionKey q), wk_heartbeat = hb\<rparr>"

lemma new_wake_key [simp]: "wake_key (new_wake now q hb) = request_key q"
  by (simp add: new_wake_def wake_key_def request_key_def)

lemma queue_eq:
  "queuePendingWakeReason now q s =
     (case js_get (pendingWakes s) (request_key q) of
        None \<Rightarrow> s\<lparr>pendingWakes := js_set (request_key q) (new_wake now q (rq_heartbeat q)) (pendingWakes s)\<rparr>
      | Some previous \<Rightarrow>
          (let new = new_wake now q (or_else (rq_heartbeat q) (wk_heartbeat previous))
           in if wk_priority new > wk_priority previous
                 \<or> wk_priority new = wk_priority previous \<and> wk_requestedAt previous \<le> now
              then s\<lparr>pendingWakes := js_set (request_key q) new (pendingWakes s)\<rparr> else s))"
  by (simp add: queuePendingWakeReason_def new_wake_def request_key_def Let_def split: option.split)

lemma queue_pending:
  "(pendingWakes (queuePendingWakeReason now q s) = pendingWakes s \<and> js_get (pendingWakes s) (request_key q) \<noteq> None)
   \<or> (\<exists>w. wake_key w = request_key q
        \<and> pendingWakes (queuePendingWakeReason now q s) = js_set (request_key q) w (pendingWakes s))"
proof (cases "js_get (pendingWakes s) (request_key q)")
  case None
  then show ?thesis by (intro disjI2 exI [of _ "new_wake now q (rq_heartbeat q)"]) (simp add: queue_eq)
next
  case (Some previous)
  let ?new = "new_wake now q (or_else (rq_heartbeat q) (wk_heartbeat previous))"
  show ?thesis
  proof (cases "pendingWakes (queuePendingWakeReason now q s) = pendingWakes s")
    case False
    with Some have "pendingWakes (queuePendingWakeReason now q s) = js_set (request_key q) ?new (pendingWakes s)"
      by (simp add: queue_eq Let_def split: if_splits)
    then show ?thesis by (intro disjI2 exI [of _ ?new]) simp
  qed (use Some in simp)
qed

lemma queue_keys:
  "fst ` set (pendingWakes (queuePendingWakeReason now q s)) = insert (request_key q) (fst ` set (pendingWakes s))"
  using queue_pending [of now q s]
proof (elim disjE exE conjE)
  assume same: "pendingWakes (queuePendingWakeReason now q s) = pendingWakes s"
    and "js_get (pendingWakes s) (request_key q) \<noteq> None"
  then have "request_key q \<in> fst ` set (pendingWakes s)" by (simp add: js_get_None_iff del: map_of_eq_None_iff)
  then show ?thesis by (simp add: same insert_absorb)
next
  fix w assume w: "pendingWakes (queuePendingWakeReason now q s) = js_set (request_key q) w (pendingWakes s)"
  show ?thesis unfolding w using js_keys_set [of "request_key q" w "pendingWakes s"] by simp
qed

lemma queue_keyed:
  assumes "keyed_by wake_key (pendingWakes s)"
  shows "keyed_by wake_key (pendingWakes (queuePendingWakeReason now q s))"
  using queue_pending [of now q s] assms by (auto intro: keyed_by_set)

lemma schedule_frame:
  "handler (schedule now c k s) = handler s" "running (schedule now c k s) = running s"
  "in_flight (schedule now c k s) = in_flight s" "next_run (schedule now c k s) = next_run s"
  "pendingWakes (schedule now c k s) = pendingWakes s" "scheduled (schedule now c k s) = scheduled s"
  "calls (schedule now c k s) = calls s" "\<exists>t. timer (schedule now c k s) = Some t"
  by (simp_all add: schedule_def Let_def split: option.split)

section \<open>The invariant\<close>

definition wake_inv :: "wake_state \<Rightarrow> bool" where
  "wake_inv s \<longleftrightarrow>
     keyed_by wake_key (pendingWakes s)
     \<and> distinct (map run_number (in_flight s)) \<and> (\<forall>r \<in> set (in_flight s). run_number r < next_run s \<and> run_open r \<noteq> [])
     \<and> (\<forall>r \<in> set (in_flight s). set (run_open r) \<subseteq> set (run_batch r))
     \<and> (running s \<longrightarrow> in_flight s \<noteq> [])
     \<and> (pendingWakes s \<noteq> [] \<longrightarrow> handler s \<noteq> None \<longrightarrow> timer s \<noteq> None)"

lemma initial_wake_inv: "wake_inv initial_wakes"
  by (simp add: wake_inv_def initial_wakes_def)

lemma fold_queue_frame:
  "timer (fold (\<lambda>w. queuePendingWakeReason now (wake_opts w)) ws s) = timer s"
  "handler (fold (\<lambda>w. queuePendingWakeReason now (wake_opts w)) ws s) = handler s"
  "running (fold (\<lambda>w. queuePendingWakeReason now (wake_opts w)) ws s) = running s"
  "in_flight (fold (\<lambda>w. queuePendingWakeReason now (wake_opts w)) ws s) = in_flight s"
  "next_run (fold (\<lambda>w. queuePendingWakeReason now (wake_opts w)) ws s) = next_run s"
  "fst ` set (pendingWakes (fold (\<lambda>w. queuePendingWakeReason now (wake_opts w)) ws s))
     = wake_key ` set ws \<union> fst ` set (pendingWakes s)"
  by (induction ws arbitrary: s) (auto simp: queue_frame queue_keys)

lemma fold_queue_keyed:
  "keyed_by wake_key (pendingWakes s)
   \<Longrightarrow> keyed_by wake_key (pendingWakes (fold (\<lambda>w. queuePendingWakeReason now (wake_opts w)) ws s))"
  by (induction ws arbitrary: s) (simp_all add: queue_keyed)

text \<open>What holds while a run is being advanced: the invariant but for the armed timer.\<close>

definition table_inv :: "wake_state \<Rightarrow> bool" where
  "table_inv s \<longleftrightarrow>
     keyed_by wake_key (pendingWakes s)
     \<and> distinct (map run_number (in_flight s)) \<and> (\<forall>r \<in> set (in_flight s). run_number r < next_run s \<and> run_open r \<noteq> [])
     \<and> (\<forall>r \<in> set (in_flight s). set (run_open r) \<subseteq> set (run_batch r))"

lemma wake_inv_iff:
  "wake_inv s \<longleftrightarrow> table_inv s \<and> (running s \<longrightarrow> in_flight s \<noteq> [])
     \<and> (pendingWakes s \<noteq> [] \<longrightarrow> handler s \<noteq> None \<longrightarrow> timer s \<noteq> None)"
  by (auto simp: wake_inv_def table_inv_def)

lemma table_schedule [simp]: "table_inv (schedule now c k s) = table_inv s"
  by (simp add: table_inv_def schedule_frame)

lemma finish_run_inv: "table_inv s \<Longrightarrow> wake_inv (finish_run now r s)"
  by (auto simp: finish_run_def Let_def wake_inv_iff schedule_frame)
    (auto simp: table_inv_def distinct_map_filter)

lemma call_next_inv:
  assumes inv: "table_inv s" and run: "run_number r < next_run s" "set (run_open r) \<subseteq> set (run_batch r)"
    and live: "pendingWakes s \<noteq> [] \<Longrightarrow> handler s \<noteq> None \<Longrightarrow> timer s \<noteq> None"
  shows "wake_inv (call_next now r s)"
proof (cases "run_open r")
  case Nil
  then show ?thesis by (simp add: call_next_def finish_run_inv [OF inv])
next
  case (Cons w ws)
  let ?s = "s\<lparr>calls := calls s @ [(run_handler r, wake_opts w)],
      in_flight := filter (\<lambda>r'. run_number r' \<noteq> run_number r) (in_flight s) @ [r]\<rparr>"
  have "table_inv ?s" using inv run Cons by (auto simp: table_inv_def distinct_map_filter)
  with Cons live show ?thesis by (auto simp: call_next_def wake_inv_iff)
qed


lemma table_invI:
  "keyed_by wake_key (pendingWakes s') \<Longrightarrow> in_flight s' = in_flight s \<Longrightarrow> next_run s' = next_run s \<Longrightarrow> table_inv s
   \<Longrightarrow> table_inv s'"
  by (simp add: table_inv_def)

lemma table_keyed: "table_inv s \<Longrightarrow> keyed_by wake_key (pendingWakes s)"
  by (simp add: table_inv_def)

lemma wake_table: "wake_inv s \<Longrightarrow> table_inv s"
  by (simp add: wake_inv_iff)

lemma table_queue: "table_inv s \<Longrightarrow> table_inv (queuePendingWakeReason now q s)"
  by (rule table_invI [of _ s]) (simp_all add: queue_frame queue_keyed table_keyed)

lemma table_fold_queue:
  "table_inv s \<Longrightarrow> table_inv (fold (\<lambda>w. queuePendingWakeReason now (wake_opts w)) ws s)"
  by (induction ws arbitrary: s) (simp_all add: table_queue)

text \<open>With a timer armed, only the running flag has to be accounted for.\<close>

lemma wake_armedI: "table_inv s \<Longrightarrow> (running s \<Longrightarrow> in_flight s \<noteq> []) \<Longrightarrow> timer s = Some t \<Longrightarrow> wake_inv s"
  by (simp add: wake_inv_iff)

lemma wake_schedule:
  assumes "table_inv s" "running s \<Longrightarrow> in_flight s \<noteq> []"
  shows "wake_inv (schedule now c k s)"
proof -
  obtain t where "timer (schedule now c k s) = Some t" using schedule_frame(8) [of now c k s] by blast
  with assms show ?thesis by (intro wake_armedI [of _ t]) (simp_all add: schedule_frame)
qed

lemma request_inv: "wake_inv s \<Longrightarrow> wake_inv (requestHeartbeat now c q s)"
  unfolding requestHeartbeat_def
  by (rule wake_schedule) (simp_all add: table_queue wake_table queue_frame, simp add: wake_inv_iff)

lemma timer_inv:
  assumes inv: "wake_inv s"
  shows "wake_inv (timer_fires now s)"
proof (cases "timer s")
  case None
  with inv show ?thesis by (simp add: timer_fires_def)
next
  case (Some t)
  note table = wake_table [OF inv]
  consider "now < timerDueAt t" | "\<not> now < timerDueAt t" "handler s = None"
    | h where "\<not> now < timerDueAt t" "handler s = Some h" "running s"
    | h where "\<not> now < timerDueAt t" "handler s = Some h" "\<not> running s" by fastforce
  then show ?thesis
  proof cases
    case 1 with Some inv show ?thesis by (simp add: timer_fires_def)
  next
    case 2 with Some inv show ?thesis by (simp add: timer_fires_def wake_inv_def)
  next
    case 3
    then have "timer_fires now s
      = schedule now (Num (of_int (timerDelay t))) (timerKind t) (s\<lparr>timer := None, scheduled := True\<rparr>)"
      using Some by (simp add: timer_fires_def Let_def)
    moreover have "table_inv (s\<lparr>timer := None, scheduled := True\<rparr>)" using table by (simp add: table_inv_def)
    moreover have "in_flight s \<noteq> []" using inv 3 by (simp add: wake_inv_iff)
    ultimately show ?thesis by (simp add: wake_schedule)
  next
    case 4
    show ?thesis unfolding timer_fires_def using 4 Some table
      by (auto simp: Let_def table_inv_def less_Suc_eq intro!: call_next_inv)
  qed
qed

lemma find_run:
  "List.find (\<lambda>r. run_number r = n) rs = Some r \<Longrightarrow> r \<in> set rs \<and> run_number r = n"
  by (auto simp: find_Some_iff)

lemma answer_inv:
  assumes inv: "wake_inv s"
  shows "wake_inv (answer now n res s)"
proof (cases "List.find (\<lambda>r. run_number r = n) (in_flight s)")
  case None
  with inv show ?thesis by (simp add: answer_def)
next
  case (Some r)
  note r = find_run [OF Some] and table = wake_table [OF inv]
  have "run_open r \<noteq> []" using table r by (auto simp: table_inv_def)
  then obtain w rest where wr: "run_open r = w # rest" by (cases "run_open r") auto
  show ?thesis
  proof (cases "res = Thrown")
    case True
    with Some wr show ?thesis
      by (simp add: answer_def Let_def finish_run_inv table_fold_queue table)
  next
    case False
    define s1 where "s1 = (if (case res of SkippedRun why \<Rightarrow> isRetryableHeartbeatBusySkipReason why | _ \<Rightarrow> False)
      then schedule now (Num (of_int DEFAULT_RETRY_MS)) RetryTimer (queuePendingWakeReason now (wake_opts w) s) else s)"
    have eq: "answer now n res s = call_next now (r\<lparr>run_open := rest\<rparr>) s1"
      using Some wr False by (simp add: answer_def s1_def Let_def)
    have "wake_inv (schedule now (Num (of_int DEFAULT_RETRY_MS)) RetryTimer (queuePendingWakeReason now (wake_opts w) s))"
      using inv by (intro wake_schedule) (simp_all add: table_queue table queue_frame, simp add: wake_inv_iff)
    with inv have s1: "wake_inv s1" by (simp add: s1_def)
    have next_eq: "next_run s1 = next_run s" by (simp add: s1_def schedule_frame queue_frame)
    have live: "pendingWakes s1 \<noteq> [] \<Longrightarrow> handler s1 \<noteq> None \<Longrightarrow> timer s1 \<noteq> None"
      using s1 unfolding wake_inv_iff by blast
    have "run_number r < next_run s" "set rest \<subseteq> set (run_batch r)"
      using table r wr unfolding table_inv_def by fastforce+
    then show ?thesis unfolding eq
      using live by (intro call_next_inv wake_table [OF s1]) (simp_all add: next_eq)
  qed
qed

lemma set_handler_inv:
  assumes "wake_inv s"
  shows "wake_inv (snd (setHeartbeatWakeHandler now h s))"
proof (cases h)
  case None
  with assms show ?thesis by (simp add: setHeartbeatWakeHandler_def Let_def wake_inv_def)
next
  case (Some a)
  let ?s = "s\<lparr>handlerGeneration := Suc (handlerGeneration s), handler := h, timer := None, running := False,
    scheduled := False\<rparr>"
  have t: "table_inv ?s" using wake_table [OF assms] by (simp add: table_inv_def)
  have "wake_inv ?s" if "pendingWakes s = []" using t that by (simp add: wake_inv_iff)
  moreover have "wake_inv (schedule now (Num (of_int DEFAULT_COALESCE_MS)) NormalTimer ?s)"
    using t by (intro wake_schedule) simp_all
  ultimately show ?thesis using Some by (simp add: setHeartbeatWakeHandler_def Let_def)
qed

lemma dispose_inv: "wake_inv s \<Longrightarrow> wake_inv (dispose_handler g h s)"
  by (simp add: dispose_handler_def wake_inv_def)

lemma enabled_inv: "wake_inv s \<Longrightarrow> wake_inv (setHeartbeatsEnabled b s)"
  by (simp add: setHeartbeatsEnabled_def wake_inv_def)

lemma wake_step_inv: "wake_inv s \<Longrightarrow> wake_inv (wake_step e s)"
  by (cases e) (simp_all add: request_inv timer_inv answer_inv set_handler_inv dispose_inv enabled_inv)

interpretation wakes: invariant_machine wake_step wake_inv
  by unfold_locales (rule wake_step_inv)

lemma run_wakes_inv: "wake_inv (run_wakes es)"
  unfolding run_wakes_def by (rule wakes.run_inv [OF initial_wake_inv])

lemma run_wakes_snoc: "run_wakes (es @ [e]) = wake_step e (run_wakes es)"
  by (simp add: run_wakes_def)

lemma run_wakes_append: "run_wakes (es @ es') = fold wake_step es' (run_wakes es)"
  by (simp add: run_wakes_def)


section \<open>Delivery\<close>

definition request_priority :: "wake_request \<Rightarrow> nat" where
  "request_priority q = resolveWakePriority (rq_source q) (rq_intent q) (normalizeHeartbeatWakeReason (rq_reason q))"

text \<open>A wake for the target \<open>k\<close> that is at least as urgent as \<open>p\<close>, and such a wake among the pending ones.\<close>

definition serves_wake :: "string \<Rightarrow> nat \<Rightarrow> pending_wake \<Rightarrow> bool" where
  "serves_wake k p w \<longleftrightarrow> wake_key w = k \<and> p \<le> wk_priority w"

definition pends :: "string \<Rightarrow> nat \<Rightarrow> wake_state \<Rightarrow> bool" where
  "pends k p s \<longleftrightarrow> (case js_get (pendingWakes s) k of None \<Rightarrow> False | Some w \<Rightarrow> p \<le> wk_priority w)"

text \<open>A target is owed an answer, for a request as urgent as \<open>p\<close> made when \<open>m\<close> runs had been started, while a wake for it that
  is as urgent is pending or in the unanswered part of a run that was started later.\<close>

definition owed :: "string \<Rightarrow> nat \<Rightarrow> nat \<Rightarrow> wake_state \<Rightarrow> bool" where
  "owed k p m s \<longleftrightarrow>
     pends k p s \<or> (\<exists>r \<in> set (in_flight s). m \<le> run_number r \<and> list_ex (serves_wake k p) (run_open r))"

definition final_answer :: "heartbeat_result \<Rightarrow> bool" where
  "final_answer res \<longleftrightarrow>
     (case res of Thrown \<Rightarrow> False | SkippedRun why \<Rightarrow> \<not> isRetryableHeartbeatBusySkipReason why | _ \<Rightarrow> True)"

lemma new_wake_priority [simp]: "wk_priority (new_wake now q hb) = request_priority q"
  by (simp add: new_wake_def request_priority_def)

lemma pends_queue [simp]:
  "pends k p (queuePendingWakeReason now q s) \<longleftrightarrow> pends k p s \<or> k = request_key q \<and> p \<le> request_priority q"
  by (auto simp: pends_def queue_eq Let_def split: option.split)

lemma pends_schedule [simp]: "pends k p (schedule now c kind s) = pends k p s"
  by (simp add: pends_def schedule_frame)

lemma owed_schedule [simp]: "owed k p m (schedule now c kind s) = owed k p m s"
  by (simp add: owed_def schedule_frame)

lemma owed_queue [simp]:
  "owed k p m (queuePendingWakeReason now q s) \<longleftrightarrow> owed k p m s \<or> k = request_key q \<and> p \<le> request_priority q"
  by (auto simp: owed_def queue_frame)

lemma owed_request [simp]:
  "owed k p m (requestHeartbeat now c q s) \<longleftrightarrow> owed k p m s \<or> k = request_key q \<and> p \<le> request_priority q"
  by (simp add: requestHeartbeat_def)

text \<open>A wake that is queued again keeps its urgency.\<close>

definition rated :: "pending_wake \<Rightarrow> bool" where
  "rated w \<longleftrightarrow> request_priority (wake_opts w) = wk_priority w"

definition rated_inv :: "wake_state \<Rightarrow> bool" where
  "rated_inv s \<longleftrightarrow> (\<forall>w \<in> set (js_values (pendingWakes s)). rated w) \<and> (\<forall>r \<in> set (in_flight s). list_all rated (run_batch r))"

lemma js_trim_requested: "js_trim ''requested'' = ''requested''"
  by code_simp

lemma reason_idem [simp]: "normalizeHeartbeatWakeReason (Some (normalizeHeartbeatWakeReason r)) = normalizeHeartbeatWakeReason r"
  by (cases r) (auto simp: normalizeHeartbeatWakeReason_def string_coerce_defs js_trim_requested Let_def)

lemma new_wake_rated [simp]: "rated (new_wake now q hb)"
  by (simp add: rated_def request_priority_def wake_opts_def new_wake_def)

lemma rated_schedule [simp]: "rated_inv (schedule now c k s) = rated_inv s"
  by (simp add: rated_inv_def schedule_frame)

lemma rated_queue: "rated_inv s \<Longrightarrow> rated_inv (queuePendingWakeReason now q s)"
  unfolding rated_inv_def queue_frame
  by (auto simp: queue_eq Let_def split: option.split dest!: subsetD [OF set_js_set_subset])

lemma rated_fold_queue: "rated_inv s \<Longrightarrow> rated_inv (fold (\<lambda>w. queuePendingWakeReason now (wake_opts w)) ws s)"
  by (induction ws arbitrary: s) (simp_all add: rated_queue)

lemma rated_finish: "rated_inv s \<Longrightarrow> rated_inv (finish_run now r s)"
  by (simp add: finish_run_def Let_def) (simp add: rated_inv_def)

lemma rated_call_next: "rated_inv s \<Longrightarrow> list_all rated (run_batch r) \<Longrightarrow> rated_inv (call_next now r s)"
  by (auto simp: call_next_def rated_finish split: list.split) (auto simp: rated_inv_def)

lemma rated_same: "rated_inv s \<Longrightarrow> pendingWakes s' = pendingWakes s \<Longrightarrow> in_flight s' = in_flight s \<Longrightarrow> rated_inv s'"
  by (simp add: rated_inv_def)

lemma rated_batch: "rated_inv s \<Longrightarrow> r \<in> set (in_flight s) \<Longrightarrow> list_all rated (run_batch r)"
  by (simp add: rated_inv_def)

lemma rated_timer: "rated_inv s \<Longrightarrow> rated_inv (timer_fires now s)"
  by (auto simp: timer_fires_def Let_def split: option.split intro!: rated_call_next)
    (auto simp: rated_inv_def list_all_iff)

lemma rated_answer: "rated_inv s \<Longrightarrow> rated_inv (answer now n res s)"
  by (auto simp: answer_def Let_def rated_fold_queue rated_queue dest: find_run rated_batch
      split: option.split list.split intro!: rated_call_next rated_finish)

lemma rated_step: "rated_inv s \<Longrightarrow> rated_inv (wake_step e s)"
proof (cases e)
  case (SetHandler now h)
  then show "rated_inv s \<Longrightarrow> ?thesis" by (simp add: setHeartbeatWakeHandler_def Let_def) (simp add: rated_inv_def)
qed (simp_all add: requestHeartbeat_def rated_queue rated_timer rated_answer dispose_handler_def setHeartbeatsEnabled_def,
    simp_all add: rated_inv_def)

interpretation rating: invariant_machine wake_step rated_inv
  by unfold_locales (rule rated_step)

lemma run_wakes_rated: "rated_inv (run_wakes es)"
  unfolding run_wakes_def by (rule rating.run_inv) (simp add: rated_inv_def initial_wakes_def)

lemma pends_fold_queue:
  "list_all rated ws \<Longrightarrow> pends k p (fold (\<lambda>w. queuePendingWakeReason now (wake_opts w)) ws s)
     \<longleftrightarrow> pends k p s \<or> list_ex (serves_wake k p) ws"
  by (induction ws arbitrary: s) (auto simp: rated_def serves_wake_def)

text \<open>What is owed outside the run \<^verbatim>\<open>n\<close>.\<close>

definition owed_elsewhere :: "string \<Rightarrow> nat \<Rightarrow> nat \<Rightarrow> nat \<Rightarrow> wake_state \<Rightarrow> bool" where
  "owed_elsewhere k p m n s \<longleftrightarrow>
     pends k p s \<or> (\<exists>r \<in> set (in_flight s). run_number r \<noteq> n \<and> m \<le> run_number r \<and> list_ex (serves_wake k p) (run_open r))"

lemma elsewhere_schedule [simp]: "owed_elsewhere k p m n (schedule now c kind s) = owed_elsewhere k p m n s"
  by (simp add: owed_elsewhere_def schedule_frame)

lemma elsewhere_queue [simp]:
  "owed_elsewhere k p m n (queuePendingWakeReason now q s)
     \<longleftrightarrow> owed_elsewhere k p m n s \<or> k = request_key q \<and> p \<le> request_priority q"
  by (auto simp: owed_elsewhere_def queue_frame)

lemma elsewhere_fold_queue:
  "list_all rated ws \<Longrightarrow> owed_elsewhere k p m n (fold (\<lambda>w. queuePendingWakeReason now (wake_opts w)) ws s)
     \<longleftrightarrow> owed_elsewhere k p m n s \<or> list_ex (serves_wake k p) ws"
  by (auto simp: owed_elsewhere_def pends_fold_queue fold_queue_frame)

lemma owed_finish [simp]: "owed k p m (finish_run now r s) \<longleftrightarrow> owed_elsewhere k p m (run_number r) s"
  by (simp add: finish_run_def Let_def) (auto simp: owed_def owed_elsewhere_def pends_def)

lemma owed_call_next [simp]:
  "owed k p m (call_next now r s)
     \<longleftrightarrow> m \<le> run_number r \<and> list_ex (serves_wake k p) (run_open r) \<or> owed_elsewhere k p m (run_number r) s"
proof (cases "run_open r")
  case Nil
  then show ?thesis by (simp add: call_next_def)
next
  case (Cons w ws)
  then show ?thesis unfolding owed_def owed_elsewhere_def pends_def by (auto simp: call_next_def)
qed

lemma owed_split:
  assumes "table_inv s" "r \<in> set (in_flight s)"
  shows "owed k p m s
     \<longleftrightarrow> m \<le> run_number r \<and> list_ex (serves_wake k p) (run_open r) \<or> owed_elsewhere k p m (run_number r) s"
proof -
  have "r' = r" if "r' \<in> set (in_flight s)" "run_number r' = run_number r" for r'
    using that assms by (auto simp: table_inv_def distinct_map inj_on_def)
  with assms(2) show ?thesis unfolding owed_def owed_elsewhere_def by blast
qed

lemma pends_served:
  assumes "keyed_by wake_key (pendingWakes s)" and "pends k p s"
  shows "list_ex (serves_wake k p) (js_values (pendingWakes s))"
proof -
  obtain w where w: "js_get (pendingWakes s) k = Some w" "p \<le> wk_priority w"
    using assms(2) by (auto simp: pends_def split: option.splits)
  with keyed_by_get [OF assms(1)] js_get_in_values show ?thesis by (fastforce simp: list_ex_iff serves_wake_def)
qed

lemma timer_owed:
  assumes inv: "wake_inv s" and owed: "owed k p m s" and m: "m \<le> next_run s"
  shows "owed k p m (timer_fires now s)"
proof (cases "timer s")
  case None
  with owed show ?thesis by (simp add: timer_fires_def)
next
  case (Some t)
  have fresh: "run_number r \<noteq> next_run s" if "r \<in> set (in_flight s)" for r
    using wake_table [OF inv] that by (auto simp: table_inv_def)
  consider "now < timerDueAt t" | "\<not> now < timerDueAt t" "handler s = None"
    | h where "\<not> now < timerDueAt t" "handler s = Some h" "running s"
    | h where "\<not> now < timerDueAt t" "handler s = Some h" "\<not> running s" by fastforce
  then show ?thesis
  proof cases
    case 4
    have "list_ex (serves_wake k p) (js_values (pendingWakes s))
      \<or> (\<exists>r \<in> set (in_flight s). run_number r \<noteq> next_run s \<and> m \<le> run_number r \<and> list_ex (serves_wake k p) (run_open r))"
      using owed fresh pends_served [OF table_keyed [OF wake_table [OF inv]]] unfolding owed_def by blast
    with 4 Some m show ?thesis by (auto simp: timer_fires_def Let_def owed_elsewhere_def)
  qed (use owed Some in \<open>simp_all add: timer_fires_def Let_def, simp_all add: owed_def pends_def\<close>)
qed

text \<open>The wake a run is waiting to hear about.\<close>

definition asked :: "string \<Rightarrow> nat \<Rightarrow> nat \<Rightarrow> wake_run \<Rightarrow> bool" where
  "asked k p m r \<longleftrightarrow> m \<le> run_number r \<and> serves_wake k p (hd (run_open r))"

lemma answer_owed:
  assumes inv: "wake_inv s" "rated_inv s" and owed: "owed k p m s"
    and not_final: "\<And>r. r \<in> set (in_flight s) \<Longrightarrow> run_number r = n \<Longrightarrow> asked k p m r \<Longrightarrow> \<not> final_answer res"
  shows "owed k p m (answer now n res s)"
proof (cases "List.find (\<lambda>r. run_number r = n) (in_flight s)")
  case None
  with owed show ?thesis by (simp add: answer_def)
next
  case (Some r)
  note r = find_run [OF Some] and table = wake_table [OF inv(1)]
  have "run_open r \<noteq> []" using table r by (auto simp: table_inv_def)
  then obtain w rest where wr: "run_open r = w # rest" by (cases "run_open r") auto
  have others: "m \<le> run_number r \<and> list_ex (serves_wake k p) (run_open r) \<or> owed_elsewhere k p m (run_number r) s"
    using owed_split [OF table] owed r by blast
  have sub: "set (run_open r) \<subseteq> set (run_batch r)" using table r by (auto simp: table_inv_def)
  have batch: "list_all rated (run_batch r)" using rated_batch inv(2) r by blast
  show ?thesis
  proof (cases "res = Thrown")
    case True
    have "list_ex (serves_wake k p) (run_batch r) \<or> owed_elsewhere k p m (run_number r) s"
      using others sub unfolding list_ex_iff by blast
    with True Some wr show ?thesis by (simp add: answer_def Let_def elsewhere_fold_queue [OF batch]) blast
  next
    case False
    have "m \<le> run_number r \<and> serves_wake k p w \<or> m \<le> run_number r \<and> list_ex (serves_wake k p) rest
        \<or> owed_elsewhere k p m (run_number r) s"
      using others wr by auto
    moreover have "\<not> final_answer res" if "m \<le> run_number r \<and> serves_wake k p w"
      using not_final [of r] r wr that by (simp add: asked_def)
    moreover have "rated w" using batch sub wr by (auto simp: list_all_iff)
    ultimately show ?thesis
      using False Some wr
      by (cases res) (auto simp: answer_def Let_def final_answer_def serves_wake_def rated_def)
  qed
qed

lemma run_count_grows: "next_run s \<le> next_run (wake_step e s)"
proof (cases e)
  case (Answer now n res)
  have "next_run (call_next now r s) = next_run s" for r s
    by (simp add: call_next_def finish_run_def Let_def schedule_frame split: list.split)
  with Answer show ?thesis
    by (simp add: answer_def finish_run_def Let_def schedule_frame queue_frame fold_queue_frame split: option.split list.split)
next
  case (TimerDue now)
  have "next_run (call_next now r s) = next_run s" for r s
    by (simp add: call_next_def finish_run_def Let_def schedule_frame split: list.split)
  with TimerDue show ?thesis by (simp add: timer_fires_def Let_def schedule_frame split: option.split)
qed (simp_all add: requestHeartbeat_def setHeartbeatWakeHandler_def dispose_handler_def setHeartbeatsEnabled_def Let_def
    schedule_frame queue_frame)

text \<open>A target stays owed through every event but the final answer of the handler for it.\<close>

lemma step_owed:
  assumes "wake_inv s" "rated_inv s" "m \<le> next_run s" "owed k p m s" "\<not> owed k p m (wake_step e s)"
  shows "\<exists>now n res. e = Answer now n res \<and> final_answer res
    \<and> (\<exists>r \<in> set (in_flight s). run_number r = n \<and> asked k p m r)"
proof (cases e)
  case (Answer now n res)
  with assms answer_owed [of s k p m n res now] show ?thesis by auto
next
  case (SetHandler now h)
  with assms show ?thesis
    by (auto simp: setHeartbeatWakeHandler_def Let_def split: if_splits) (auto simp: owed_def pends_def)
next
  case (DisposeHandler g h)
  with assms show ?thesis by (auto simp: dispose_handler_def split: if_splits) (auto simp: owed_def pends_def)
next
  case (SetEnabled b)
  with assms show ?thesis by (simp add: setHeartbeatsEnabled_def owed_def pends_def)
qed (use assms timer_owed in auto)

text \<open>Every wake at the head of a run was handed to the handler, and those of the runs started after the first \<open>m\<close> were handed
  after the first \<open>c\<close> calls.\<close>

definition handed_inv :: "nat \<Rightarrow> nat \<Rightarrow> wake_state \<Rightarrow> bool" where
  "handed_inv m c s \<longleftrightarrow> c \<le> length (calls s)
     \<and> (\<forall>r \<in> set (in_flight s). m \<le> run_number r \<longrightarrow> (run_handler r, wake_opts (hd (run_open r))) \<in> set (drop c (calls s)))"

lemma handed_schedule [simp]: "handed_inv m c (schedule now d k s) = handed_inv m c s"
  by (simp add: handed_inv_def schedule_frame)

lemma handed_queue [simp]: "handed_inv m c (queuePendingWakeReason now q s) = handed_inv m c s"
  by (simp add: handed_inv_def queue_frame)

lemma handed_fold_queue [simp]:
  "handed_inv m c (fold (\<lambda>w. queuePendingWakeReason now (wake_opts w)) ws s) = handed_inv m c s"
  by (induction ws arbitrary: s) simp_all

lemma handed_finish: "handed_inv m c s \<Longrightarrow> handed_inv m c (finish_run now r s)"
  by (simp add: finish_run_def Let_def) (simp add: handed_inv_def)

lemma handed_call_next: "handed_inv m c s \<Longrightarrow> handed_inv m c (call_next now r s)"
  by (auto simp: call_next_def handed_finish split: list.split) (auto simp: handed_inv_def)

lemma handed_step: "handed_inv m c s \<Longrightarrow> handed_inv m c (wake_step e s)"
proof (cases e)
  case (Request now d q)
  then show "handed_inv m c s \<Longrightarrow> ?thesis" by (simp add: requestHeartbeat_def)
next
  case (TimerDue now)
  then show "handed_inv m c s \<Longrightarrow> ?thesis"
    by (auto simp: timer_fires_def Let_def split: option.split intro!: handed_call_next) (auto simp: handed_inv_def)
next
  case (Answer now n res)
  then show "handed_inv m c s \<Longrightarrow> ?thesis"
    by (auto simp: answer_def Let_def split: option.split list.split intro!: handed_call_next handed_finish)
next
  case (SetHandler now h)
  then show "handed_inv m c s \<Longrightarrow> ?thesis" by (simp add: setHeartbeatWakeHandler_def Let_def) (simp add: handed_inv_def)
next
  case (DisposeHandler g h)
  then show "handed_inv m c s \<Longrightarrow> ?thesis" by (simp add: dispose_handler_def handed_inv_def)
next
  case (SetEnabled b)
  then show "handed_inv m c s \<Longrightarrow> ?thesis" by (simp add: setHeartbeatsEnabled_def handed_inv_def)
qed

interpretation handed: invariant_machine wake_step "handed_inv m c" for m c
  by unfold_locales (rule handed_step)

text \<open>From any moment on, the runs that are started later hand over their wakes later.\<close>

lemma handed_since:
  "handed_inv (next_run (run_wakes es)) (length (calls (run_wakes es))) (run_wakes (es @ es'))"
proof -
  have "handed_inv (next_run (run_wakes es)) (length (calls (run_wakes es))) (run_wakes es)"
    using wake_table [OF run_wakes_inv [of es]] by (fastforce simp: handed_inv_def table_inv_def)
  then show ?thesis unfolding run_wakes_append by (rule handed.run_inv)
qed


section \<open>Properties\<close>

text \<open>C37. No pending wake is stranded: whatever requests, timers, answers (failures included), registrations
  and disposals came in whatever order, while a handler is registered a pending wake has a timer armed, also during
  a batch; and the running flag, which makes a due timer wait, is only up while a batch really is in flight.\<close>

theorem no_wake_is_stranded:
  assumes "pendingWakes (run_wakes es) \<noteq> []" "hasHeartbeatWakeHandler (run_wakes es)"
  shows "(\<exists>t. timer (run_wakes es) = Some t) \<and> (running (run_wakes es) \<longrightarrow> in_flight (run_wakes es) \<noteq> [])"
  using run_wakes_inv [of es] assms unfolding wake_inv_iff hasHeartbeatWakeHandler_def by blast

lemma owed_discharged:
  assumes "m \<le> next_run (run_wakes es)" "owed k p m (run_wakes es)" "\<not> owed k p m (run_wakes (es @ es'))"
  shows "\<exists>a now n res b. es' = a @ Answer now n res # b \<and> final_answer res
    \<and> (\<exists>r \<in> set (in_flight (run_wakes (es @ a))). run_number r = n \<and> asked k p m r)"
  using assms
proof (induction es' arbitrary: es)
  case Nil
  then show ?case by simp
next
  case (Cons e es')
  show ?case
  proof (cases "owed k p m (run_wakes (es @ [e]))")
    case True
    moreover have "\<not> owed k p m (run_wakes ((es @ [e]) @ es'))" using Cons.prems(3) by simp
    moreover have "m \<le> next_run (run_wakes (es @ [e]))"
      using Cons.prems(1) run_count_grows [of "run_wakes es" e] by (simp add: run_wakes_snoc)
    ultimately obtain a now n res b where
      "es' = a @ Answer now n res # b" "final_answer res"
      "\<exists>r \<in> set (in_flight (run_wakes ((es @ [e]) @ a))). run_number r = n \<and> asked k p m r"
      using Cons.IH [of "es @ [e]"] by blast
    then show ?thesis by (intro exI [of _ "e # a"] exI [of _ now] exI [of _ n] exI [of _ res] exI [of _ b]) simp
  next
    case False
    then have "\<not> owed k p m (wake_step e (run_wakes es))" by (simp add: run_wakes_snoc)
    from step_owed [OF run_wakes_inv run_wakes_rated Cons.prems(1,2) this] obtain now n res where
      "e = Answer now n res" "final_answer res"
      "\<exists>r \<in> set (in_flight (run_wakes es)). run_number r = n \<and> asked k p m r"
      by blast
    then show ?thesis by (intro exI [of _ "[]"] exI [of _ now] exI [of _ n] exI [of _ res] exI [of _ es']) simp
  qed
qed

text \<open>C36. At-least-once delivery: once a target was requested, the scheduler keeps owing it to that request (a wake of the
  target, at least as urgent as the request, is pending or in the unanswered part of a batch that was started after the
  request) through answers of earlier batches, busy skips, thrown handlers, replaced and disposed handlers and failed
  batches.  If it is no longer owed, then a batch that was started after the request called its handler, after the request,
  with a wake of that target at least as urgent as the request, and the handler answered this very call with neither an
  exception nor a retryable busy skip.\<close>

theorem requested_wake_reaches_handler:
  assumes "\<not> owed (request_key q) (request_priority q) (next_run (run_wakes es)) (run_wakes (es @ Request now c q # es'))"
  shows "\<exists>a t n res b r w. es' = a @ Answer t n res # b \<and> final_answer res
    \<and> r \<in> set (in_flight (run_wakes (es @ Request now c q # a))) \<and> run_number r = n \<and> next_run (run_wakes es) \<le> n
    \<and> w = hd (run_open r) \<and> wake_key w = request_key q \<and> request_priority q \<le> wk_priority w
    \<and> (run_handler r, wake_opts w)
        \<in> set (drop (length (calls (run_wakes es))) (calls (run_wakes (es @ Request now c q # a))))"
proof -
  let ?m = "next_run (run_wakes es)" and ?k = "request_key q" and ?p = "request_priority q"
  let ?es = "es @ [Request now c q]"
  have "?m \<le> next_run (run_wakes ?es)" "owed ?k ?p ?m (run_wakes ?es)"
    using run_count_grows [of "run_wakes es"] by (simp_all only: run_wakes_snoc) simp
  from owed_discharged [OF this, of es'] assms obtain a t n res b r where
    found: "es' = a @ Answer t n res # b" "final_answer res" "r \<in> set (in_flight (run_wakes (?es @ a)))" "run_number r = n"
    "asked ?k ?p ?m r"
    by auto
  moreover have "(run_handler r, wake_opts (hd (run_open r)))
      \<in> set (drop (length (calls (run_wakes es))) (calls (run_wakes (?es @ a))))"
    using handed_since [of es "Request now c q # a"] found(3,5) by (simp add: handed_inv_def asked_def)
  ultimately show ?thesis
    by (intro exI [of _ a] exI [of _ t] exI [of _ n] exI [of _ res] exI [of _ b] exI [of _ r] exI [of _ "hd (run_open r)"])
      (simp add: asked_def serves_wake_def)
qed

text \<open>A retry timer is replaced by nothing but its own firing or a new registration.\<close>

lemma schedule_keeps_retry: "timer s = Some t \<Longrightarrow> timerKind t = RetryTimer \<Longrightarrow> schedule now c k s = s"
  by (simp add: schedule_def Let_def)

definition keeps_cooldown :: "int \<Rightarrow> wake_event \<Rightarrow> bool" where
  "keeps_cooldown due e \<longleftrightarrow> (case e of TimerDue now \<Rightarrow> now < due | SetHandler _ h \<Rightarrow> h = None | _ \<Rightarrow> True)"

lemma fold_queue_timer:
  "timer (fold (\<lambda>w. queuePendingWakeReason now (wake_opts w)) ws s) = timer s" by (rule fold_queue_frame)

lemma finish_keeps_retry:
  assumes "timer s = Some t" "timerKind t = RetryTimer"
  shows "timer (finish_run now r s) = Some t" "next_run (finish_run now r s) = next_run s"
  using assms by (simp_all add: finish_run_def Let_def schedule_keeps_retry)

lemma call_keeps_retry:
  assumes "timer s = Some t" "timerKind t = RetryTimer"
  shows "timer (call_next now r s) = Some t" "next_run (call_next now r s) = next_run s"
  using assms by (simp_all add: call_next_def finish_keeps_retry split: list.split)

lemma step_keeps_retry:
  assumes t: "timer s = Some t" "timerKind t = RetryTimer" and e: "keeps_cooldown (timerDueAt t) e"
  shows "timer (wake_step e s) = Some t \<and> next_run (wake_step e s) = next_run s"
proof (cases e)
  case (Request now c q)
  with t show ?thesis by (simp add: requestHeartbeat_def schedule_keeps_retry queue_frame)
next
  case (TimerDue now)
  with t e show ?thesis by (simp add: timer_fires_def keeps_cooldown_def)
next
  case (Answer now n res)
  with t show ?thesis
    by (auto simp: answer_def Let_def schedule_keeps_retry queue_frame fold_queue_frame finish_keeps_retry
        call_keeps_retry split: option.split list.split)
next
  case (SetHandler now h)
  with t e show ?thesis by (simp add: setHeartbeatWakeHandler_def keeps_cooldown_def Let_def)
next
  case (DisposeHandler g h)
  with t show ?thesis by (simp add: dispose_handler_def)
next
  case (SetEnabled b)
  with t show ?thesis by (simp add: setHeartbeatsEnabled_def)
qed

text \<open>The retry cooldown is a hard minimum: after a busy or failed wake has armed the retry timer, no request
  (an immediate one with a zero coalescing delay included), no answer and no disposal moves it or starts another
  batch before it is due; only the registration of a new handler ends it early.\<close>

theorem retry_cooldown_is_kept:
  assumes "timer (run_wakes es) = Some t" "timerKind t = RetryTimer" "list_all (keeps_cooldown (timerDueAt t)) es'"
  shows "timer (run_wakes (es @ es')) = Some t \<and> next_run (run_wakes (es @ es')) = next_run (run_wakes es)"
  using assms(3)
proof (induction es' rule: rev_induct)
  case Nil
  then show ?case using assms(1) by simp
next
  case (snoc e es')
  then have "timer (run_wakes (es @ es')) = Some t" by simp
  from step_keeps_retry [OF this assms(2), of e] snoc show ?case
    by (simp add: run_wakes_snoc [of "es @ es'", simplified])
qed

definition sample_wake :: wake_request where
  "sample_wake = \<lparr>rq_source = SrcCron, rq_intent = Event, rq_reason = Some ''tick'', rq_agentId = Some ''main'',
     rq_sessionKey = None, rq_heartbeat = None\<rparr>"


definition busy_wake :: "wake_event list" where
  "busy_wake = [SetHandler 0 (Some 7), Request 0 None sample_wake, TimerDue 250, Request 260 None sample_wake]"

lemma busy_wake_state:
  "pendingWakes (run_wakes busy_wake) \<noteq> []" "hasHeartbeatWakeHandler (run_wakes busy_wake)" "running (run_wakes busy_wake)"
  by code_simp+

theorem no_wake_is_stranded_witness:
  "(\<exists>t. timer (run_wakes busy_wake) = Some t) \<and> in_flight (run_wakes busy_wake) \<noteq> []"
  using no_wake_is_stranded [OF busy_wake_state(1,2)] busy_wake_state(3) by blast

text \<open>The witness requests a target whose earlier wake is with the handler at that moment.\<close>

theorem requested_wake_reaches_handler_witness:
  "\<exists>a t n res b r w. [Answer 255 0 Ran, TimerDue 505, Answer 506 1 Ran] = a @ Answer t n res # b \<and> final_answer res
    \<and> r \<in> set (in_flight (run_wakes ([SetHandler 0 (Some 7), Request 0 None sample_wake, TimerDue 250]
          @ Request 251 None sample_wake # a))) \<and> run_number r = n
    \<and> next_run (run_wakes [SetHandler 0 (Some 7), Request 0 None sample_wake, TimerDue 250]) \<le> n
    \<and> w = hd (run_open r) \<and> wake_key w = request_key sample_wake \<and> request_priority sample_wake \<le> wk_priority w
    \<and> (run_handler r, wake_opts w)
        \<in> set (drop (length (calls (run_wakes [SetHandler 0 (Some 7), Request 0 None sample_wake, TimerDue 250])))
             (calls (run_wakes ([SetHandler 0 (Some 7), Request 0 None sample_wake, TimerDue 250]
                @ Request 251 None sample_wake # a))))"
  by (rule requested_wake_reaches_handler) code_simp

definition failed_wake :: "wake_event list" where
  "failed_wake = [SetHandler 0 (Some 7), Request 0 None sample_wake, TimerDue 250, Answer 251 0 Thrown]"

lemma failed_wake_timer:
  "timer (run_wakes failed_wake) = Some \<lparr>timerDueAt = 1251, timerKind = RetryTimer, timerDelay = 1000\<rparr>"
  by code_simp

theorem retry_cooldown_is_kept_witness:
  "timer (run_wakes (failed_wake @ [Request 300 (Some (Num 0)) sample_wake, TimerDue 1250]))
     = Some \<lparr>timerDueAt = 1251, timerKind = RetryTimer, timerDelay = 1000\<rparr>
   \<and> next_run (run_wakes (failed_wake @ [Request 300 (Some (Num 0)) sample_wake, TimerDue 1250]))
     = next_run (run_wakes failed_wake)"
  by (rule retry_cooldown_is_kept [OF failed_wake_timer]) (simp_all add: keeps_cooldown_def)

text \<open>
  The running flag is global to the module while a batch belongs to a handler: a batch of a replaced handler that
  ends clears the flag of the batch of its successor, and the next timer starts a second batch of the same handler
  beside the first.
\<close>

definition overlapping_wakes :: "wake_event list" where
  "overlapping_wakes =
     [SetHandler 0 (Some 1), Request 0 None sample_wake, TimerDue 250,
      SetHandler 300 (Some 2), Request 300 None sample_wake, TimerDue 550,
      Answer 560 0 Ran, Request 570 None sample_wake, TimerDue 820]"

lemma stale_run_lets_batches_overlap:
  "map (\<lambda>r. (run_number r, run_handler r)) (in_flight (run_wakes overlapping_wakes)) = [(1, 2), (2, 2)]"
  by code_simp

end
