(* ===== verification/JsonText.thy ===== *)
theory JsonText
  imports JsRuntime
begin

text \<open>
  \<^verbatim>\<open>JSON.stringify\<close> on the tuples of strings and booleans the program builds its keys from, and that such a
  text determines its tuple: a key built this way cannot collide, whatever separators its parts contain.
\<close>

definition hex_digit_char :: "nat \<Rightarrow> char" where
  "hex_digit_char n = (if n < 10 then char_of (48 + n) else char_of (87 + n))"

text \<open>The escapes of ECMA-262, \<^verbatim>\<open>QuoteJSONString\<close>, on Latin-1.\<close>

definition json_escape :: "char \<Rightarrow> string" where
  "json_escape c =
     (let n = of_char c :: nat in
      if n = 0x22 then [CHR 0x5C, CHR 0x22]
      else if n = 0x5C then [CHR 0x5C, CHR 0x5C]
      else if n = 0x08 then [CHR 0x5C, CHR ''b'']
      else if n = 0x0C then [CHR 0x5C, CHR ''f'']
      else if n = 0x0A then [CHR 0x5C, CHR ''n'']
      else if n = 0x0D then [CHR 0x5C, CHR ''r'']
      else if n = 0x09 then [CHR 0x5C, CHR ''t'']
      else if n < 0x20 then [CHR 0x5C, CHR ''u'', CHR ''0'', CHR ''0'', hex_digit_char (n div 16), hex_digit_char (n mod 16)]
      else [c])"

definition json_quote :: "string \<Rightarrow> string" where
  "json_quote s = CHR 0x22 # concat (map json_escape s) @ [CHR 0x22]"

datatype json_item = PStr string | PBool bool

fun item_text :: "json_item \<Rightarrow> string" where
  "item_text (PStr s) = json_quote s"
| "item_text (PBool b) = (if b then ''true'' else ''false'')"

definition json_tuple :: "json_item list \<Rightarrow> string" where
  "json_tuple ps = ''['' @ js_join '','' (map item_text ps) @ '']''"

section \<open>A key determines its tuple\<close>

definition hex_value :: "char \<Rightarrow> nat" where
  "hex_value c = (let n = of_char c in if n < 58 then n - 48 else n - 87)"

definition unescape :: "string \<Rightarrow> char \<times> string" where
  "unescape s =
     (if hd s \<noteq> CHR 0x5C then (hd s, tl s)
      else
        (let e = s ! 1 in
         if e = CHR ''u'' then (char_of (16 * hex_value (s ! 4) + hex_value (s ! 5)), drop 6 s)
         else (if e = CHR ''b'' then CHR 0x08 else if e = CHR ''f'' then CHR 0x0C else if e = CHR ''n'' then CHR 0x0A
               else if e = CHR ''r'' then CHR 0x0D else if e = CHR ''t'' then CHR 0x09 else e, drop 2 s)))"

lemma hex_value_digit: "n < 16 \<Longrightarrow> hex_value (hex_digit_char n) = n"
  by (auto simp: hex_value_def hex_digit_char_def Let_def)

lemma unescape_short:
  "unescape (CHR 0x5C # CHR 0x22 # x) = (CHR 0x22, x)" "unescape (CHR 0x5C # CHR 0x5C # x) = (CHR 0x5C, x)"
  "unescape (CHR 0x5C # CHR ''b'' # x) = (CHR 0x08, x)" "unescape (CHR 0x5C # CHR ''f'' # x) = (CHR 0x0C, x)"
  "unescape (CHR 0x5C # CHR ''n'' # x) = (CHR 0x0A, x)" "unescape (CHR 0x5C # CHR ''r'' # x) = (CHR 0x0D, x)"
  "unescape (CHR 0x5C # CHR ''t'' # x) = (CHR 0x09, x)"
  "unescape (CHR 0x5C # CHR ''u'' # CHR ''0'' # CHR ''0'' # a # b # x) = (char_of (16 * hex_value a + hex_value b), x)"
  "c \<noteq> CHR 0x5C \<Longrightarrow> unescape (c # x) = (c, x)"
  by (simp_all add: unescape_def Let_def)

lemma unescape_escape: "unescape (json_escape c @ x) = (c, x)"
proof -
  define n :: nat where "n = of_char c"
  have c: "c = d" if "n = of_char d" for d using that unfolding n_def by simp
  consider "n = 0x22" | "n = 0x5C" | "n = 0x08" | "n = 0x0C" | "n = 0x0A" | "n = 0x0D" | "n = 0x09"
    | "n < 0x20" "n \<notin> {0x08, 0x0C, 0x0A, 0x0D, 0x09}" | "n \<ge> 0x20" "n \<noteq> 0x22" "n \<noteq> 0x5C"
    by fastforce
  then show ?thesis
  proof cases
    case 8
    then have "json_escape c
      = [CHR 0x5C, CHR ''u'', CHR ''0'', CHR ''0'', hex_digit_char (n div 16), hex_digit_char (n mod 16)]"
      by (simp add: json_escape_def Let_def n_def)
    with 8 show ?thesis by (simp add: unescape_short hex_value_digit) (simp add: n_def)
  next
    case 9
    then have "json_escape c = [c]" by (simp add: json_escape_def Let_def n_def)
    moreover have "c \<noteq> CHR 0x5C" using 9 by (auto simp: n_def)
    ultimately show ?thesis by (simp add: unescape_short)
  qed (use c [of "CHR 0x22"] c [of "CHR 0x5C"] c [of "CHR 0x08"] c [of "CHR 0x0C"] c [of "CHR 0x0A"]
      c [of "CHR 0x0D"] c [of "CHR 0x09"] in \<open>simp_all add: json_escape_def Let_def unescape_short\<close>)
qed

lemma escape_split: "json_escape c @ x = json_escape d @ y \<Longrightarrow> c = d \<and> x = y"
  by (metis unescape_escape prod.inject)

lemma escape_not_quote: "json_escape c @ x \<noteq> CHR 0x22 # y"
  by (auto simp: json_escape_def Let_def split: if_splits)

lemma quote_split:
  "concat (map json_escape s) @ CHR 0x22 # x = concat (map json_escape t) @ CHR 0x22 # y \<Longrightarrow> s = t \<and> x = y"
proof (induction s arbitrary: t)
  case Nil
  then show ?case using escape_not_quote by (cases t) (auto dest: sym)
next
  case (Cons c s)
  then obtain d t' where t: "t = d # t'"
    using escape_not_quote [of c "concat (map json_escape s) @ CHR 0x22 # x" y] by (cases t) auto
  from Cons.prems have "c = d \<and> concat (map json_escape s) @ CHR 0x22 # x = concat (map json_escape t') @ CHR 0x22 # y"
    unfolding t by (intro escape_split) simp
  with Cons.IH t show ?case by blast
qed

lemma json_quote_inj [simp]: "json_quote s = json_quote t \<longleftrightarrow> s = t"
  using quote_split [of s "[]" t "[]"] by (auto simp: json_quote_def)

fun same_shape :: "json_item \<Rightarrow> json_item \<Rightarrow> bool" where
  "same_shape (PStr _) (PStr _) = True"
| "same_shape (PBool _) (PBool _) = True"
| "same_shape _ _ = False"

lemma item_split: "same_shape p q \<Longrightarrow> item_text p @ x = item_text q @ y \<Longrightarrow> p = q \<and> x = y"
  by (cases p; cases q) (auto simp: json_quote_def split: if_splits dest: quote_split)

lemma items_split:
  "list_all2 same_shape ps qs \<Longrightarrow> js_join '','' (map item_text ps) @ x = js_join '','' (map item_text qs) @ y
     \<Longrightarrow> ps = qs \<and> x = y"
proof (induction ps qs rule: list_all2_induct)
  case Nil
  then show ?case by simp
next
  case (Cons p ps q qs)
  show ?case
  proof (cases ps)
    case Nil
    with Cons show ?thesis by (auto dest: item_split)
  next
    case Cons': (Cons p' ps')
    with \<open>list_all2 same_shape ps qs\<close> obtain q' qs' where qs: "qs = q' # qs'" by (auto simp: list_all2_Cons1)
    from Cons.prems have
      "item_text p @ '','' @ js_join '','' (map item_text ps) @ x = item_text q @ '','' @ js_join '','' (map item_text qs) @ y"
      by (simp add: Cons' qs)
    from item_split [OF Cons.hyps(1) this] Cons.IH show ?thesis by simp
  qed
qed

lemma json_tuple_inj: "list_all2 same_shape ps qs \<Longrightarrow> json_tuple ps = json_tuple qs \<longleftrightarrow> ps = qs"
  using items_split [of ps qs "'']''" "'']''"] by (auto simp: json_tuple_def)

end
