(* ===== verification/ChannelRoute.thy ===== *)
theory ChannelRoute
  imports TaskFlowStore NumberCoercion JsonText
begin

text \<open>
  Channel routes, \<^verbatim>\<open>plugin-sdk/channel-route.ts\<close>: the normalized form of where a message came from or goes
  to, its comparison, and the keys built from it.  A loose input is its strings, \<^verbatim>\<open>None\<close> where it holds no
  string; a thread id may be a number.
\<close>

datatype route_chat_type = RouteDirect | RouteGroup | RouteChannel
datatype route_thread_kind = TopicThread | PlainThread | ReplyThread
datatype route_thread_source = FromExplicit | FromTarget | FromSession | FromTurn

record route_target =
  tgt_to :: string
  tgt_rawTo :: "string option"
  tgt_chatType :: "route_chat_type option"

record route_thread =
  thr_id :: thread_id
  thr_kind :: "route_thread_kind option"
  thr_source :: "route_thread_source option"

record channel_route =
  ro_channel :: "string option"
  ro_accountId :: "string option"
  ro_target :: "route_target option"
  ro_thread :: "route_thread option"

record route_input =
  in_channel :: "string option"
  in_accountId :: "string option"
  in_to :: "string option"
  in_rawTo :: "string option"
  in_chatType :: "route_chat_type option"
  in_threadId :: "thread_id option"
  in_threadKind :: "route_thread_kind option"
  in_threadSource :: "route_thread_source option"

datatype route_key_input = KeyRef channel_route | KeyTarget route_input

section \<open>Normalization\<close>

definition normalizeRouteThreadId :: "thread_id option \<Rightarrow> thread_id option" where
  "normalizeRouteThreadId v = normalizeOptionalThreadValue v"

text \<open>\<^verbatim>\<open>String(id)\<close>: a normalized numeric id is a whole number.\<close>

fun thread_string :: "thread_id \<Rightarrow> string" where
  "thread_string (ThreadStr s) = s"
| "thread_string (ThreadNum (Num q)) = show_int (js_trunc q)"
| "thread_string (ThreadNum PInf) = ''Infinity''"
| "thread_string (ThreadNum NInf) = ''-Infinity''"
| "thread_string (ThreadNum NaN) = ''NaN''"

definition stringifyRouteThreadId :: "thread_id option \<Rightarrow> string option" where
  "stringifyRouteThreadId v = map_option thread_string (normalizeRouteThreadId v)"

definition normalizeRouteRef :: "route_input \<Rightarrow> channel_route option" where
  "normalizeRouteRef input =
     (let channel = normalizeLowercaseStringOrEmpty (in_channel input);
          account = (case in_accountId input of None \<Rightarrow> None | Some a \<Rightarrow> normalizeOptionalAccountId (Some a));
          to = normalizeOptionalString (in_to input);
          rawTo = normalizeOptionalString (in_rawTo input);
          threadId = normalizeRouteThreadId (in_threadId input)
      in if channel = [] \<and> to = None \<and> account = None \<and> threadId = None then None
         else Some
           \<lparr>ro_channel = (if channel = [] then None else Some channel),
            ro_accountId = account,
            ro_target = map_option (\<lambda>t. \<lparr>tgt_to = t, tgt_rawTo = (if rawTo = Some t then None else rawTo),
                                            tgt_chatType = in_chatType input\<rparr>) to,
            ro_thread = map_option (\<lambda>i. \<lparr>thr_id = i, thr_kind = in_threadKind input,
                                            thr_source = in_threadSource input\<rparr>) threadId\<rparr>)"

definition channelRouteTarget :: "channel_route option \<Rightarrow> string option" where
  "channelRouteTarget route = Option.bind route (\<lambda>r. map_option tgt_to (ro_target r))"

definition channelRouteThreadId :: "channel_route option \<Rightarrow> thread_id option" where
  "channelRouteThreadId route = Option.bind route (\<lambda>r. map_option thr_id (ro_thread r))"

text \<open>A target-only input has neither a thread kind nor a thread source.\<close>

definition normalizeChannelRouteTarget :: "route_input option \<Rightarrow> channel_route option" where
  "normalizeChannelRouteTarget input = Option.bind input normalizeRouteRef"

definition no_route_input :: route_input where
  "no_route_input = \<lparr>in_channel = None, in_accountId = None, in_to = None, in_rawTo = None, in_chatType = None,
     in_threadId = None, in_threadKind = None, in_threadSource = None\<rparr>"

record explicit_target =
  ex_to :: string
  ex_threadId :: "thread_id option"
  ex_chatType :: "route_chat_type option"

record parsed_target =
  pt_channel :: string
  pt_rawTo :: string
  pt_to :: string
  pt_threadId :: "thread_id option"
  pt_chatType :: "route_chat_type option"

text \<open>The parser belongs to the channel's plugin and is a parameter.\<close>

definition resolveChannelRouteTargetWithParser ::
  "(string \<Rightarrow> string \<Rightarrow> explicit_target option) \<Rightarrow> string \<Rightarrow> string option \<Rightarrow> thread_id option \<Rightarrow> parsed_target option" where
  "resolveChannelRouteTargetWithParser parse raw_channel rawTarget fallback =
     (let channel = normalizeLowercaseStringOrEmpty (Some raw_channel) in
      case normalizeOptionalString rawTarget of
        None \<Rightarrow> None
      | Some rawTo \<Rightarrow>
          if channel = [] then None
          else
            (let parsed = parse channel rawTo;
                 fallbackThreadId = normalizeOptionalThreadValue fallback
             in Some \<lparr>pt_channel = channel, pt_rawTo = rawTo,
                      pt_to = (case parsed of None \<Rightarrow> rawTo | Some p \<Rightarrow> ex_to p),
                      pt_threadId = normalizeOptionalThreadValue (or_else (Option.bind parsed ex_threadId) fallbackThreadId),
                      pt_chatType = Option.bind parsed ex_chatType\<rparr>))"

section \<open>Keys and comparison\<close>

definition channelRouteDedupeKey :: "route_input option \<Rightarrow> string" where
  "channelRouteDedupeKey input =
     (let route = normalizeChannelRouteTarget input in
      json_tuple [PStr (or_default (Option.bind route ro_channel) []),
                  PStr (or_default (channelRouteTarget route) []),
                  PStr (or_default (Option.bind route ro_accountId) []),
                  PStr (or_default (stringifyRouteThreadId (channelRouteThreadId route)) [])])"

definition threadIdsEqual :: "thread_id option \<Rightarrow> thread_id option \<Rightarrow> bool" where
  "threadIdsEqual l r \<longleftrightarrow> stringifyRouteThreadId l = stringifyRouteThreadId r"

text \<open>An account id is absent or not empty.\<close>

definition accountsCompatible :: "string option \<Rightarrow> string option \<Rightarrow> bool" where
  "accountsCompatible l r \<longleftrightarrow> or_default l [] = [] \<or> or_default r [] = [] \<or> l = r"

definition accountsEqual :: "string option \<Rightarrow> string option \<Rightarrow> bool" where
  "accountsEqual l r \<longleftrightarrow> or_default l [] = or_default r []"

definition channelRoutesMatchExact :: "channel_route option \<Rightarrow> channel_route option \<Rightarrow> bool" where
  "channelRoutesMatchExact left right =
     (case (left, right) of
        (Some l, Some r) \<Rightarrow>
          ro_channel l = ro_channel r
          \<and> map_option tgt_to (ro_target l) = map_option tgt_to (ro_target r)
          \<and> accountsEqual (ro_accountId l) (ro_accountId r)
          \<and> threadIdsEqual (map_option thr_id (ro_thread l)) (map_option thr_id (ro_thread r))
      | _ \<Rightarrow> False)"

definition channelRoutesShareConversation :: "channel_route option \<Rightarrow> channel_route option \<Rightarrow> bool" where
  "channelRoutesShareConversation left right =
     (case (left, right) of
        (Some l, Some r) \<Rightarrow>
          if ro_channel l \<noteq> ro_channel r
             \<or> map_option tgt_to (ro_target l) \<noteq> map_option tgt_to (ro_target r)
             \<or> \<not> accountsCompatible (ro_accountId l) (ro_accountId r)
          then False
          else if ro_thread l = None \<or> ro_thread r = None then True
          else threadIdsEqual (map_option thr_id (ro_thread l)) (map_option thr_id (ro_thread r))
      | _ \<Rightarrow> False)"

definition channelRouteTargetsMatchExact :: "route_input option \<Rightarrow> route_input option \<Rightarrow> bool" where
  "channelRouteTargetsMatchExact l r =
     channelRoutesMatchExact (normalizeChannelRouteTarget l) (normalizeChannelRouteTarget r)"

definition channelRouteTargetsShareConversation :: "route_input option \<Rightarrow> route_input option \<Rightarrow> bool" where
  "channelRouteTargetsShareConversation l r =
     channelRoutesShareConversation (normalizeChannelRouteTarget l) (normalizeChannelRouteTarget r)"

definition normalizeChannelRouteKeyInput :: "route_key_input option \<Rightarrow> channel_route option" where
  "normalizeChannelRouteKeyInput route =
     (case route of
        None \<Rightarrow> None
      | Some (KeyTarget i) \<Rightarrow> normalizeChannelRouteTarget (Some i)
      | Some (KeyRef r) \<Rightarrow>
          if ro_target r \<noteq> None \<or> ro_thread r \<noteq> None
          then normalizeRouteRef
                 (no_route_input\<lparr>in_channel := ro_channel r, in_to := map_option tgt_to (ro_target r),
                    in_accountId := ro_accountId r, in_threadId := map_option thr_id (ro_thread r)\<rparr>)
          else normalizeChannelRouteTarget
                 (Some (no_route_input\<lparr>in_channel := ro_channel r, in_accountId := ro_accountId r\<rparr>)))"

definition channelRouteCompactKey :: "route_key_input option \<Rightarrow> string option" where
  "channelRouteCompactKey route =
     (case normalizeChannelRouteKeyInput route of
        None \<Rightarrow> None
      | Some n \<Rightarrow>
          (case (ro_channel n, ro_target n) of
             (Some channel, Some target) \<Rightarrow>
               Some (js_join ''|'' [channel, tgt_to target, or_default (ro_accountId n) [],
                       or_default (stringifyRouteThreadId (map_option thr_id (ro_thread n))) []])
           | _ \<Rightarrow> None))"

end
