(* ===== verification/ChannelRouteProps.thy ===== *)
theory ChannelRouteProps
  imports ChannelRoute
begin

text \<open>
  The key a route is deduplicated by is exact: it is shared by two inputs exactly when their routes match.
  The compact key, joined with bars, is not.
\<close>

lemma nonempty_string [simp]: "normalizeOptionalString v \<noteq> Some []"
  by (simp add: string_coerce_defs Let_def split: option.split)

lemma nonempty_account [simp]: "normalizeOptionalAccountId v \<noteq> Some []"
  by (auto simp: normalizeOptionalAccountId_def normalizeCanonicalAccountId_def Let_def split: option.splits if_splits)

lemma show_int_not_Nil [simp]: "show_int n \<noteq> []"
  using show_nat_spec by (simp add: show_int_def)

lemma thread_norm_not_Nil: "normalizeRouteThreadId v = Some i \<Longrightarrow> thread_string i \<noteq> []"
  by (auto simp: normalizeRouteThreadId_def normalizeOptionalThreadValue_def
      split: option.splits thread_id.splits js_number.splits)

lemma nonempty_thread [simp]: "stringifyRouteThreadId v \<noteq> Some []"
  using thread_norm_not_Nil by (auto simp: stringifyRouteThreadId_def)

lemma thread_norm_idem [simp]: "normalizeRouteThreadId (normalizeRouteThreadId v) = normalizeRouteThreadId v"
  by (auto simp: normalizeRouteThreadId_def normalizeOptionalThreadValue_def js_trunc_def string_coerce_defs Let_def
      split: option.splits thread_id.splits js_number.splits)

text \<open>A part that is absent or not empty is determined by its text with the default.\<close>

lemma or_default_part: "x \<noteq> Some [] \<Longrightarrow> y \<noteq> Some [] \<Longrightarrow> or_default x [] = or_default y [] \<longleftrightarrow> x = y"
  by (cases x; cases y) (auto simp: or_default_def)

text \<open>What a normalized route is made of: no part of it is an empty string.\<close>

lemma normalized_route:
  assumes "normalizeRouteRef i = Some r"
  shows "ro_channel r \<noteq> Some []" "map_option tgt_to (ro_target r) \<noteq> Some []" "ro_accountId r \<noteq> Some []"
  using assms by (auto simp: normalizeRouteRef_def Let_def split: if_splits option.splits)

lemma dedupe_key_parts:
  assumes "normalizeRouteRef i = Some r"
  shows "channelRouteDedupeKey (Some i) = json_tuple
    [PStr (or_default (ro_channel r) []), PStr (or_default (map_option tgt_to (ro_target r)) []),
     PStr (or_default (ro_accountId r) []), PStr (or_default (stringifyRouteThreadId (map_option thr_id (ro_thread r))) [])]"
  using assms
  by (simp add: channelRouteDedupeKey_def normalizeChannelRouteTarget_def channelRouteTarget_def channelRouteThreadId_def)

text \<open>C39. The dedupe key is exact: two inputs that name a route at all have the same key exactly when their routes
  match exactly, whatever separators, quotes or control characters the parts contain, and an input that names no
  route matches nothing.\<close>

theorem dedupe_key_is_exact:
  "channelRouteTargetsMatchExact (Some a) (Some b)
   = (normalizeRouteRef a \<noteq> None \<and> normalizeRouteRef b \<noteq> None
      \<and> channelRouteDedupeKey (Some a) = channelRouteDedupeKey (Some b))"
proof (cases "normalizeRouteRef a = None \<or> normalizeRouteRef b = None")
  case True
  then show ?thesis
    by (auto simp: channelRouteTargetsMatchExact_def channelRoutesMatchExact_def normalizeChannelRouteTarget_def
        split: option.splits)
next
  case False
  then obtain r t where rt: "normalizeRouteRef a = Some r" "normalizeRouteRef b = Some t" by auto
  note parts = normalized_route [OF rt(1)] normalized_route [OF rt(2)]
  have "channelRouteDedupeKey (Some a) = channelRouteDedupeKey (Some b) \<longleftrightarrow>
      ro_channel r = ro_channel t \<and> map_option tgt_to (ro_target r) = map_option tgt_to (ro_target t)
      \<and> or_default (ro_accountId r) [] = or_default (ro_accountId t) []
      \<and> stringifyRouteThreadId (map_option thr_id (ro_thread r)) = stringifyRouteThreadId (map_option thr_id (ro_thread t))"
    using parts by (simp add: dedupe_key_parts rt json_tuple_inj or_default_part)
  with rt show ?thesis
    by (simp add: channelRouteTargetsMatchExact_def channelRoutesMatchExact_def normalizeChannelRouteTarget_def
        accountsEqual_def threadIdsEqual_def)
qed

text \<open>The compact key joins the same parts with bars, and different routes can share it.\<close>

definition bar_route :: "string \<Rightarrow> string option \<Rightarrow> string option \<Rightarrow> route_input" where
  "bar_route to account thread =
     no_route_input\<lparr>in_channel := Some ''slack'', in_to := Some to, in_accountId := account,
       in_threadId := map_option ThreadStr thread\<rparr>"

lemma compact_key_collision:
  "channelRouteCompactKey (Some (KeyTarget (bar_route ''c1|ops'' None (Some ''7''))))
     = channelRouteCompactKey (Some (KeyTarget (bar_route ''c1'' (Some ''ops'') (Some ''|7''))))"
  "\<not> channelRouteTargetsMatchExact (Some (bar_route ''c1|ops'' None (Some ''7''))) (Some (bar_route ''c1'' (Some ''ops'') (Some ''|7'')))"
  by code_simp+

end
