(* ===== verification/QueueHelpers.thy ===== *)
theory QueueHelpers
  imports NumberCoercion
begin

text \<open>
  The shared queue helpers, \<^verbatim>\<open>utils/queue-helpers.ts\<close>: the overflow policy of a capped queue and its
  summary, the debounce check, removal by reference and the prompts.  The helpers work on any record with the
  fields they name, as in the source; the asynchronous helpers are their synchronous parts.
\<close>

datatype drop_policy = DropOld | DropNew | Summarize

record queue_summary =
  dropPolicy :: drop_policy
  droppedCount :: nat
  summaryLines :: "string list"

record 'i capped_queue = queue_summary +
  items :: "'i list"
  cap :: js_number

definition clearQueueSummaryState :: "'z queue_summary_scheme \<Rightarrow> 'z queue_summary_scheme" where
  "clearQueueSummaryState q = q\<lparr>droppedCount := 0, summaryLines := []\<rparr>"

section \<open>Summaries\<close>

text \<open>The ellipsis is outside Latin-1; its place in the Windows code page stands for it.\<close>

definition ELLIPSIS :: string where
  "ELLIPSIS = [CHR 0x85]"

definition elideQueueText :: "string \<Rightarrow> nat \<Rightarrow> string" where
  "elideQueueText text limit =
     (if length text \<le> limit then text else js_trim_end (take (limit - 1) text) @ ELLIPSIS)"

text \<open>\<^verbatim>\<open>text.replace(/\s+/g, " ")\<close>.\<close>

fun collapse_spaces :: "bool \<Rightarrow> string \<Rightarrow> string" where
  "collapse_spaces _ [] = []"
| "collapse_spaces in_run (c # s) =
     (if is_js_space c then (if in_run then collapse_spaces True s else CHR '' '' # collapse_spaces True s)
      else c # collapse_spaces False s)"

definition SUMMARY_LINE_LIMIT :: nat where "SUMMARY_LINE_LIMIT = 160"

definition buildQueueSummaryLine :: "string \<Rightarrow> nat \<Rightarrow> string" where
  "buildQueueSummaryLine text limit = elideQueueText (js_trim (collapse_spaces False text)) limit"

definition NEWLINE :: string where "NEWLINE = [CHR 0x0A]"

definition buildQueueSummaryPrompt ::
  "string \<Rightarrow> string option \<Rightarrow> 'z queue_summary_scheme \<Rightarrow> string option \<times> 'z queue_summary_scheme" where
  "buildQueueSummaryPrompt noun title q =
     (if dropPolicy q \<noteq> Summarize \<or> droppedCount q = 0 then (None, q)
      else
        (let head = or_default title
               (''[Queue overflow] Dropped '' @ show_nat (droppedCount q) @ '' '' @ noun
                @ (if droppedCount q = 1 then '''' else ''s'') @ '' due to cap.'');
             lines = head # (if summaryLines q \<noteq> [] then ''Summary:'' # map (\<lambda>l. ''- '' @ l) (summaryLines q) else [])
         in (Some (js_join NEWLINE lines), clearQueueSummaryState q)))"

definition previewQueueSummaryPrompt :: "string \<Rightarrow> string option \<Rightarrow> 'z queue_summary_scheme \<Rightarrow> string option" where
  "previewQueueSummaryPrompt noun title q = fst (buildQueueSummaryPrompt noun title q)"

definition buildCollectPrompt :: "string \<Rightarrow> 'i list \<Rightarrow> string option \<Rightarrow> ('i \<Rightarrow> nat \<Rightarrow> string) \<Rightarrow> string" where
  "buildCollectPrompt title its summary renderItem =
     js_join (NEWLINE @ NEWLINE)
       ([title] @ (case summary of Some s \<Rightarrow> if s = [] then [] else [s] | None \<Rightarrow> [])
        @ map (\<lambda>(i, item). renderItem item i) (List.enumerate 0 its))"

section \<open>Admission\<close>

definition shouldSkipQueueItem :: "'i \<Rightarrow> 'i list \<Rightarrow> ('i \<Rightarrow> 'i list \<Rightarrow> bool) option \<Rightarrow> bool" where
  "shouldSkipQueueItem item its dedupe = (case dedupe of None \<Rightarrow> False | Some d \<Rightarrow> d item its)"

text \<open>How many items \<^verbatim>\<open>splice(0, length - cap + 1)\<close> removes.\<close>

definition drop_count :: "nat \<Rightarrow> js_number \<Rightarrow> nat" where
  "drop_count len c = (case c of Num q \<Rightarrow> nat (js_trunc (of_nat len - q + 1)) | _ \<Rightarrow> 0)"

text \<open>The lines that stay when all but the last \<^verbatim>\<open>limit\<close> are shifted out.\<close>

definition keep_last :: "js_number \<Rightarrow> string list \<Rightarrow> string list" where
  "keep_last limit ls =
     (case js_max (Num 0) limit of Num q \<Rightarrow> drop (length ls - nat \<lfloor>q\<rfloor>) ls | _ \<Rightarrow> ls)"

text \<open>
  The answer is whether the new item may enter, the items the overflow dropped, which the caller's
  \<^verbatim>\<open>onDrop\<close> is given, and the queue.
\<close>

definition applyQueueDropPolicy ::
  "('i \<Rightarrow> string) \<Rightarrow> js_number option \<Rightarrow> ('i, 'z) capped_queue_scheme \<Rightarrow> bool \<times> 'i list \<times> ('i, 'z) capped_queue_scheme" where
  "applyQueueDropPolicy summarize summaryLimit q =
     (let c = cap q; len = length (items q) in
      if js_le c (Num 0) \<or> js_less (Num (of_nat len)) c then (True, [], q)
      else if dropPolicy q = DropNew then (False, [], q)
      else
        (let n = drop_count len c;
             dropped = take n (items q);
             q1 = q\<lparr>items := drop n (items q)\<rparr>
         in (True, dropped,
             if dropPolicy q = Summarize
             then q1\<lparr>droppedCount := droppedCount q + length dropped,
                     summaryLines := keep_last (or_default summaryLimit c)
                       (summaryLines q @ map (\<lambda>i. buildQueueSummaryLine (summarize i) SUMMARY_LINE_LIMIT) dropped)\<rparr>
             else q1)))"

section \<open>Draining\<close>

text \<open>The check of \<^verbatim>\<open>waitForQueueDebounce\<close>; NaN never becomes ready.\<close>

definition debounce_window :: "js_number \<Rightarrow> js_number" where
  "debounce_window debounceMs = js_max (Num 0) debounceMs"

definition debounce_ready :: "js_number \<Rightarrow> int \<Rightarrow> int \<Rightarrow> bool" where
  "debounce_ready window lastEnqueuedAt now \<longleftrightarrow> js_le window (Num (of_int (now - lastEnqueuedAt)))"

definition removeQueuedItemsByRef :: "'i list \<Rightarrow> 'i list \<Rightarrow> 'i list" where
  "removeQueuedItemsByRef its processed = fold remove1 processed its"

datatype 'i collect_step = Skipped | Empty | Run 'i

text \<open>\<^verbatim>\<open>drainCollectQueueStep\<close> up to the run of the item: the flag it leaves and what is to be run.\<close>

definition drainCollectQueueStep :: "bool \<Rightarrow> bool \<Rightarrow> 'i list \<Rightarrow> bool \<times> 'i collect_step" where
  "drainCollectQueueStep force isCross its =
     (if \<not> force \<and> \<not> isCross then (force, Skipped)
      else (force \<or> isCross, case its of [] \<Rightarrow> Empty | x # _ \<Rightarrow> Run x))"

text \<open>An item's key: cross-channel, no key, or its key.\<close>

datatype cross_key = Cross | NoKey | Key string

fun cross_scan :: "('i \<Rightarrow> cross_key) \<Rightarrow> string list \<Rightarrow> 'i list \<Rightarrow> bool" where
  "cross_scan resolveKey ks [] = (length ks > 1)"
| "cross_scan resolveKey ks (i # is) =
     (case resolveKey i of
        Cross \<Rightarrow> True
      | NoKey \<Rightarrow> cross_scan resolveKey ks is
      | Key k \<Rightarrow> cross_scan resolveKey (if k = [] then ks else js_set_add k ks) is)"

definition hasCrossChannelItems :: "('i \<Rightarrow> cross_key) \<Rightarrow> 'i list \<Rightarrow> bool" where
  "hasCrossChannelItems resolveKey its = cross_scan resolveKey [] its"

section \<open>Lemmas\<close>

text \<open>A cap as the settings leave it: a positive whole number, none (zero) or infinite.\<close>

definition whole_cap :: "js_number \<Rightarrow> bool" where
  "whole_cap c \<longleftrightarrow> c = PInf \<or> (\<exists>n :: nat. c = Num (of_nat n))"

lemma drop_count_whole: "drop_count len (Num (of_nat n)) = Suc len - n"
proof -
  have "js_trunc (of_int k) = k" for k by (simp add: js_trunc_def)
  moreover have "(of_nat len - of_nat n + 1 :: rat) = of_int (int len - int n + 1)" by simp
  ultimately have "js_trunc (of_nat len - of_nat n + 1) = int len - int n + 1" by metis
  then show ?thesis by (simp add: drop_count_def)
qed

lemma drop_policy_cases:
  assumes "whole_cap (cap q)"
  obtains (free) "applyQueueDropPolicy f l q = (True, [], q)"
        "\<And>c. cap q = Num c \<Longrightarrow> 0 < c \<Longrightarrow> of_nat (Suc (length (items q))) \<le> c"
    | (refused) "dropPolicy q = DropNew" "applyQueueDropPolicy f l q = (False, [], q)"
    | (dropped) n where "cap q = Num (of_nat n)" "0 < n" "n \<le> length (items q)" "dropPolicy q \<noteq> DropNew"
        "fst (applyQueueDropPolicy f l q)"
        "fst (snd (applyQueueDropPolicy f l q)) = take (Suc (length (items q)) - n) (items q)"
        "items (snd (snd (applyQueueDropPolicy f l q))) = drop (Suc (length (items q)) - n) (items q)"
proof (cases "js_le (cap q) (Num 0) \<or> js_less (Num (of_nat (length (items q)))) (cap q)")
  case True
  have "of_nat (Suc (length (items q))) \<le> c" if c: "cap q = Num c" "0 < c" for c
  proof -
    from c assms obtain n :: nat where "c = of_nat n" by (auto simp: whole_cap_def)
    moreover from this True c have "length (items q) < n" by auto
    ultimately show ?thesis by (simp only: of_nat_le_iff Suc_le_eq)
  qed
  then show thesis using free True by (simp add: applyQueueDropPolicy_def Let_def)
next
  case False
  with assms obtain n where n: "cap q = Num (of_nat n)" "0 < n" "n \<le> length (items q)"
    by (auto simp: whole_cap_def)
  show thesis
  proof (cases "dropPolicy q = DropNew")
    case True
    then show thesis using refused False by (simp add: applyQueueDropPolicy_def Let_def)
  next
    case new: False
    then show thesis using dropped [OF n new] False
      by (simp add: applyQueueDropPolicy_def Let_def n(1) drop_count_whole)
  qed
qed

end
