(* ===== verification/QueueSettings.thy ===== *)
theory QueueSettings
  imports QueueHelpers
begin

text \<open>
  Settings of the follow-up queues: the aliases of modes and drop policies, \<^verbatim>\<open>queue/normalize.ts\<close>, the
  resolution of the settings of a message, \<^verbatim>\<open>queue/settings.ts\<close> and \<^verbatim>\<open>queue/settings-runtime.ts\<close>, and
  \<^verbatim>\<open>applyQueueRuntimeSettings\<close> of \<^verbatim>\<open>utils/queue-helpers.ts\<close>.
\<close>

datatype queue_mode = Steer | Followup | Collect | Interrupt

record queue_settings =
  set_mode :: queue_mode
  set_debounceMs :: "js_number option"
  set_cap :: "js_number option"
  set_dropPolicy :: "drop_policy option"

definition normalizeQueueMode :: "string option \<Rightarrow> queue_mode option" where
  "normalizeQueueMode raw =
     (case normalizeOptionalLowercaseString raw of
        None \<Rightarrow> None
      | Some cleaned \<Rightarrow>
          if cleaned \<in> {''interrupt'', ''interrupts'', ''abort''} then Some Interrupt
          else if cleaned \<in> {''steer'', ''steering''} then Some Steer
          else if cleaned \<in> {''followup'', ''follow-ups'', ''followups''} then Some Followup
          else if cleaned \<in> {''collect'', ''coalesce''} then Some Collect
          else None)"

definition normalizePersistedQueueMode :: "string option \<Rightarrow> queue_mode option" where
  "normalizePersistedQueueMode raw =
     (case normalizeQueueMode raw of
        Some m \<Rightarrow> Some m
      | None \<Rightarrow>
          (let cleaned = normalizeOptionalLowercaseString raw in
           if cleaned = Some ''queue'' \<or> cleaned = Some ''queued'' then Some Steer
           else if cleaned = Some ''steer+backlog'' \<or> cleaned = Some ''steer-backlog'' \<or> cleaned = Some ''steer_backlog''
           then Some Followup
           else None))"

definition normalizeQueueDropPolicy :: "string option \<Rightarrow> drop_policy option" where
  "normalizeQueueDropPolicy raw =
     (case normalizeOptionalLowercaseString raw of
        None \<Rightarrow> None
      | Some cleaned \<Rightarrow>
          if cleaned \<in> {''old'', ''oldest''} then Some DropOld
          else if cleaned \<in> {''new'', ''newest''} then Some DropNew
          else if cleaned \<in> {''summarize'', ''summary''} then Some Summarize
          else None)"

definition DEFAULT_QUEUE_DEBOUNCE_MS :: int where "DEFAULT_QUEUE_DEBOUNCE_MS = 500"
definition DEFAULT_QUEUE_CAP :: int where "DEFAULT_QUEUE_CAP = 20"
definition DEFAULT_QUEUE_DROP :: drop_policy where "DEFAULT_QUEUE_DROP = Summarize"

text \<open>The \<^verbatim>\<open>messages.queue\<close> section of the configuration and what a session overrides of it.  The code tests at run time
  whether a debounce or a cap is a number, so these are any values here.\<close>

record queue_config =
  qc_mode :: "string option"
  qc_byChannel :: "(string, string) js_map option"
  qc_debounceMs :: js_value
  qc_debounceMsByChannel :: "(string, js_value) js_map option"
  qc_cap :: js_value
  qc_drop :: "string option"

record session_queue =
  se_queueMode :: "string option"
  se_queueDebounceMs :: js_value
  se_queueCap :: js_value
  se_queueDrop :: "drop_policy option"

record settings_params =
  sp_queueCfg :: "queue_config option"
  sp_channel :: "string option"
  sp_session :: "session_queue option"
  sp_inlineMode :: "queue_mode option"
  sp_inlineDebounceMs :: js_value
  sp_inlineCap :: js_value
  sp_inlineDrop :: "drop_policy option"
  sp_pluginDebounceMs :: js_value

definition defaultQueueModeForChannel :: "string option \<Rightarrow> queue_mode" where
  "defaultQueueModeForChannel _ = Steer"

definition finite_nonnegative :: "js_value \<Rightarrow> js_value" where
  "finite_nonnegative v =
     (case v of VNum n \<Rightarrow> if is_finite_num n then VNum (js_max (Num 0) n) else VUndefined | _ \<Rightarrow> VUndefined)"

definition resolveChannelDebounce :: "(string, js_value) js_map option \<Rightarrow> string option \<Rightarrow> js_value" where
  "resolveChannelDebounce byChannel channelKey =
     (case (channelKey, byChannel) of
        (Some k, Some m) \<Rightarrow> if k = [] then VUndefined else finite_nonnegative (or_default (js_get m k) VUndefined)
      | _ \<Rightarrow> VUndefined)"

text \<open>The operator \<^verbatim>\<open>a ?? b\<close> on values, and a field behind \<^verbatim>\<open>?.\<close>.\<close>

definition nullish_else :: "js_value \<Rightarrow> js_value \<Rightarrow> js_value" where
  "nullish_else a b = (if a = VUndefined \<or> a = VNull then b else a)"

definition field_of :: "'a option \<Rightarrow> ('a \<Rightarrow> js_value) \<Rightarrow> js_value" where
  "field_of r f = (case r of None \<Rightarrow> VUndefined | Some x \<Rightarrow> f x)"

definition number_or_none :: "(js_number \<Rightarrow> js_number) \<Rightarrow> js_value \<Rightarrow> js_number option" where
  "number_or_none f v = (case v of VNum n \<Rightarrow> Some (f n) | _ \<Rightarrow> None)"

definition resolveQueueSettings :: "settings_params \<Rightarrow> queue_settings" where
  "resolveQueueSettings p =
     (let channelKey = normalizeOptionalLowercaseString (sp_channel p);
          queueCfg = sp_queueCfg p;
          providerModeRaw =
            (case (channelKey, Option.bind queueCfg qc_byChannel) of
               (Some k, Some m) \<Rightarrow> if k = [] then None else js_get m k
             | _ \<Rightarrow> None);
          mode = or_default
                   (or_else (sp_inlineMode p)
                     (or_else (normalizePersistedQueueMode (Option.bind (sp_session p) se_queueMode))
                       (or_else (normalizeQueueMode providerModeRaw)
                         (normalizeQueueMode (Option.bind queueCfg qc_mode)))))
                   (defaultQueueModeForChannel channelKey);
          debounceRaw =
            nullish_else (sp_inlineDebounceMs p)
              (nullish_else (field_of (sp_session p) se_queueDebounceMs)
                (nullish_else (resolveChannelDebounce (Option.bind queueCfg qc_debounceMsByChannel) channelKey)
                  (nullish_else (sp_pluginDebounceMs p)
                    (nullish_else (field_of queueCfg qc_debounceMs) (VNum (Num (of_int DEFAULT_QUEUE_DEBOUNCE_MS)))))));
          capRaw =
            nullish_else (sp_inlineCap p)
              (nullish_else (field_of (sp_session p) se_queueCap)
                (nullish_else (field_of queueCfg qc_cap) (VNum (Num (of_int DEFAULT_QUEUE_CAP)))));
          dropRaw = or_default
                   (or_else (sp_inlineDrop p)
                     (or_else (Option.bind (sp_session p) se_queueDrop)
                       (normalizeQueueDropPolicy (Option.bind queueCfg qc_drop))))
                   DEFAULT_QUEUE_DROP
      in \<lparr>set_mode = mode, set_debounceMs = number_or_none (js_max (Num 0)) debounceRaw,
          set_cap = number_or_none (\<lambda>c. js_max (Num 1) (js_floor c)) capRaw, set_dropPolicy = Some dropRaw\<rparr>)"

text \<open>The plugin's default comes from the registry of loaded channel plugins, a parameter.\<close>

definition resolvePluginDebounce :: "(string \<Rightarrow> js_value) \<Rightarrow> string option \<Rightarrow> js_value" where
  "resolvePluginDebounce plugin_debounce channelKey =
     (case channelKey of
        None \<Rightarrow> VUndefined | Some k \<Rightarrow> if k = [] then VUndefined else finite_nonnegative (plugin_debounce k))"

definition resolveQueueSettings_runtime :: "(string \<Rightarrow> js_value) \<Rightarrow> settings_params \<Rightarrow> queue_settings" where
  "resolveQueueSettings_runtime plugin_debounce p =
     (let channelKey = normalizeOptionalLowercaseString (sp_channel p)
      in resolveQueueSettings
           (p\<lparr>sp_pluginDebounceMs := nullish_else (sp_pluginDebounceMs p) (resolvePluginDebounce plugin_debounce channelKey)\<rparr>))"

section \<open>Settings of a live queue\<close>

record 'i runtime_queue = "'i capped_queue" +
  mode :: queue_mode
  debounceMs :: js_number

definition applyQueueRuntimeSettings ::
  "queue_settings \<Rightarrow> ('i, 'z) runtime_queue_scheme \<Rightarrow> ('i, 'z) runtime_queue_scheme" where
  "applyQueueRuntimeSettings settings target =
     target\<lparr>mode := set_mode settings,
       debounceMs := (case set_debounceMs settings of Some d \<Rightarrow> js_max (Num 0) d | None \<Rightarrow> debounceMs target),
       cap := (case set_cap settings of
                 Some c \<Rightarrow> if js_less (Num 0) c then js_floor c else cap target
               | None \<Rightarrow> cap target),
       dropPolicy := or_default (set_dropPolicy settings) (dropPolicy target)\<rparr>"

section \<open>Properties\<close>

lemma settings_cap_whole: "whole_cap (cap q) \<Longrightarrow> whole_cap (cap (applyQueueRuntimeSettings s q))"
proof -
  have "whole_cap (js_floor c)" if "js_less (Num 0) c" for c
  proof (cases c)
    case (Num x)
    with that have "of_int \<lfloor>x\<rfloor> = (of_nat (nat \<lfloor>x\<rfloor>) :: rat)" by simp
    with Num show ?thesis by (auto simp: whole_cap_def)
  qed (use that in \<open>auto simp: whole_cap_def\<close>)
  then show "whole_cap (cap q) \<Longrightarrow> ?thesis" by (auto simp: applyQueueRuntimeSettings_def split: option.split)
qed

definition debounce_typed :: "js_number option \<Rightarrow> bool" where
  "debounce_typed d \<longleftrightarrow> (case d of Some (Num q) \<Rightarrow> 0 \<le> q | Some NInf \<Rightarrow> False | _ \<Rightarrow> True)"

definition cap_typed :: "js_number option \<Rightarrow> bool" where
  "cap_typed c \<longleftrightarrow> (case c of Some (Num q) \<Rightarrow> 1 \<le> q \<and> q = of_int \<lfloor>q\<rfloor> | Some NInf \<Rightarrow> False | _ \<Rightarrow> True)"

lemma debounce_typed_max: "debounce_typed (number_or_none (js_max (Num 0)) v)"
proof (cases v)
  case (VNum n)
  then show ?thesis by (cases n) (simp_all add: debounce_typed_def number_or_none_def)
qed (simp_all add: debounce_typed_def number_or_none_def)

lemma cap_typed_max: "cap_typed (number_or_none (\<lambda>c. js_max (Num 1) (js_floor c)) v)"
proof (cases v)
  case (VNum n)
  then show ?thesis by (cases n) (simp_all add: cap_typed_def number_or_none_def)
qed (simp_all add: cap_typed_def number_or_none_def)

text \<open>Whatever the directive, the session, the channel, the plugin and the configuration hold, a debounce that is resolved to a
  finite number is not negative, and a cap that is resolved to a finite number is whole and at least one.\<close>

lemma resolved_settings_are_typed:
  "debounce_typed (set_debounceMs (resolveQueueSettings_runtime plugin_debounce params))
   \<and> cap_typed (set_cap (resolveQueueSettings_runtime plugin_debounce params))"
  by (simp add: resolveQueueSettings_runtime_def resolveQueueSettings_def Let_def debounce_typed_max cap_typed_max)

end
