(* ===== verification/DedupeCache.thy ===== *)
theory DedupeCache
  imports NumberCoercion
begin

text \<open>
  The in-memory duplicate cache, \<^verbatim>\<open>infra/dedupe.ts\<close> with \<^verbatim>\<open>infra/map-size.ts\<close>: keys with the time they were
  last recorded, in order of recency, bounded in age and in number.  A duplicate inside the window is caught as
  long as fewer than \<^verbatim>\<open>maxSize\<close> keys were recorded since, and nothing but a recorded key is reported.
\<close>

definition pruneMapToMaxSize :: "('k, 'v) js_map \<Rightarrow> js_number \<Rightarrow> ('k, 'v) js_map" where
  "pruneMapToMaxSize m maxSize =
     (if maxSize = NaN \<or> maxSize = PInf then m
      else
        (let limit = whole_ms (js_max (Num 0) (js_floor maxSize)) in
         if limit \<le> 0 then [] else drop (length m - nat limit) m))"

record dedupe_cache =
  ttlMs :: int
  maxSize :: int
  recorded :: "(string, int) js_map"

definition createDedupeCache :: "js_number \<Rightarrow> js_number \<Rightarrow> dedupe_cache" where
  "createDedupeCache ttl mx =
     \<lparr>ttlMs = whole_ms (resolveNonNegativeIntegerOption (VNum ttl) (Num 0)),
      maxSize = whole_ms (resolveNonNegativeIntegerOption (VNum mx) (Num 0)), recorded = []\<rparr>"

definition dedupe_touch :: "string \<Rightarrow> int \<Rightarrow> dedupe_cache \<Rightarrow> dedupe_cache" where
  "dedupe_touch key now c = c\<lparr>recorded := js_set key now (js_delete key (recorded c))\<rparr>"

definition dedupe_prune :: "int \<Rightarrow> dedupe_cache \<Rightarrow> dedupe_cache" where
  "dedupe_prune now c =
     (let fresh = (if ttlMs c > 0 then filter (\<lambda>(_, ts). \<not> ts < now - ttlMs c) (recorded c) else recorded c)
      in c\<lparr>recorded := (if maxSize c \<le> 0 then [] else pruneMapToMaxSize fresh (Num (of_int (maxSize c))))\<rparr>)"

definition hasUnexpired :: "string \<Rightarrow> int \<Rightarrow> bool \<Rightarrow> dedupe_cache \<Rightarrow> bool \<times> dedupe_cache" where
  "hasUnexpired key now touchOnRead c =
     (case js_get (recorded c) key of
        None \<Rightarrow> (False, c)
      | Some existing \<Rightarrow>
          if ttlMs c > 0 \<and> now - existing \<ge> ttlMs c then (False, c\<lparr>recorded := js_delete key (recorded c)\<rparr>)
          else (True, if touchOnRead then dedupe_touch key now c else c))"

text \<open>A missing key is the empty string here; both are falsy.\<close>

definition dedupe_check :: "string \<Rightarrow> int \<Rightarrow> dedupe_cache \<Rightarrow> bool \<times> dedupe_cache" where
  "dedupe_check key now c =
     (if key = [] then (False, c)
      else
        (case hasUnexpired key now True c of
           (True, c1) \<Rightarrow> (True, c1)
         | (False, c1) \<Rightarrow> (False, dedupe_prune now (dedupe_touch key now c1))))"

definition dedupe_peek :: "string \<Rightarrow> int \<Rightarrow> dedupe_cache \<Rightarrow> bool \<times> dedupe_cache" where
  "dedupe_peek key now c = (if key = [] then (False, c) else hasUnexpired key now False c)"

definition dedupe_delete :: "string \<Rightarrow> dedupe_cache \<Rightarrow> dedupe_cache" where
  "dedupe_delete key c = (if key = [] then c else c\<lparr>recorded := js_delete key (recorded c)\<rparr>)"

definition dedupe_clear :: "dedupe_cache \<Rightarrow> dedupe_cache" where
  "dedupe_clear c = c\<lparr>recorded := []\<rparr>"

definition dedupe_size :: "dedupe_cache \<Rightarrow> nat" where
  "dedupe_size c = length (recorded c)"

datatype dedupe_event = CheckKey string int | PeekKey string int | DeleteKey string | ClearKeys

fun dedupe_step :: "dedupe_event \<Rightarrow> dedupe_cache \<Rightarrow> dedupe_cache" where
  "dedupe_step (CheckKey k now) c = snd (dedupe_check k now c)"
| "dedupe_step (PeekKey k now) c = snd (dedupe_peek k now c)"
| "dedupe_step (DeleteKey k) c = dedupe_delete k c"
| "dedupe_step ClearKeys c = dedupe_clear c"

section \<open>Lemmas\<close>

lemma prune_to_int: "pruneMapToMaxSize m (Num (of_int n)) = (if n \<le> 0 then [] else drop (length m - nat n) m)"
  by (simp add: pruneMapToMaxSize_def whole_ms_def Let_def)

lemma touch_recorded:
  "recorded (dedupe_touch k now c) = filter (\<lambda>e. fst e \<noteq> k) (recorded c) @ [(k, now)]"
proof -
  have eq: "js_delete k m = filter (\<lambda>e. fst e \<noteq> k) m" for m :: "(string, int) js_map"
    unfolding AList.delete_eq by (rule filter_cong) auto
  then show ?thesis unfolding dedupe_touch_def by (subst js_set_absent) auto
qed

lemma bounds_kept [simp]:
  "ttlMs (dedupe_step e c) = ttlMs c" "maxSize (dedupe_step e c) = maxSize c"
  by (cases e; simp add: dedupe_check_def dedupe_peek_def hasUnexpired_def dedupe_prune_def dedupe_touch_def
      dedupe_delete_def dedupe_clear_def Let_def split: option.split)+

definition dedupe_inv :: "dedupe_cache \<Rightarrow> bool" where
  "dedupe_inv c \<longleftrightarrow> distinct (js_keys (recorded c)) \<and> (int (length (recorded c)) \<le> max 0 (maxSize c))"

lemma filter_keys: "distinct (js_keys m) \<Longrightarrow> distinct (js_keys (filter P m))"
  by (rule distinct_map_filter)

lemma drop_keys: "distinct (js_keys m) \<Longrightarrow> distinct (js_keys (drop n m))"
  by (simp add: drop_map [symmetric])

lemma delete_length: "length (js_delete k m) \<le> length m"
  by (simp add: AList.delete_eq)

lemma touch_inv: "distinct (js_keys (recorded c)) \<Longrightarrow> distinct (js_keys (recorded (dedupe_touch k now c)))"
  by (auto simp: touch_recorded filter_keys)

lemma touch_present: "k \<in> fst ` set (recorded c) \<Longrightarrow> length (recorded (dedupe_touch k now c)) \<le> length (recorded c)"
  using length_filter_less [of _ "recorded c" "\<lambda>e. fst e \<noteq> k"] by (force simp: touch_recorded)

lemma prune_inv: "distinct (js_keys (recorded c)) \<Longrightarrow> dedupe_inv (dedupe_prune now c)"
  by (auto simp: dedupe_inv_def dedupe_prune_def Let_def prune_to_int filter_keys drop_keys)

lemma unexpired_inv:
  assumes "dedupe_inv c"
  shows "dedupe_inv (snd (hasUnexpired k now b c))"
proof (cases "js_get (recorded c) k")
  case (Some ts)
  then have "k \<in> fst ` set (recorded c)" by (force dest: map_of_SomeD)
  with assms Some delete_length [of k "recorded c"] touch_present [of k c now] show ?thesis
    by (auto simp: hasUnexpired_def dedupe_inv_def touch_inv) (simp_all add: dedupe_touch_def)
qed (use assms in \<open>simp add: hasUnexpired_def\<close>)

lemma step_dedupe_inv: "dedupe_inv c \<Longrightarrow> dedupe_inv (dedupe_step e c)"
proof (cases e)
  case (CheckKey k now)
  then show "dedupe_inv c \<Longrightarrow> ?thesis" using unexpired_inv [of c k now True]
    by (auto simp: dedupe_check_def split: prod.split bool.split intro!: prune_inv touch_inv) (simp add: dedupe_inv_def)
next
  case (DeleteKey k)
  then show "dedupe_inv c \<Longrightarrow> ?thesis" using delete_length [of k "recorded c"]
    by (auto simp: dedupe_delete_def dedupe_inv_def)
qed (auto simp: dedupe_peek_def dedupe_clear_def unexpired_inv, simp add: dedupe_inv_def)

interpretation dedupe: invariant_machine dedupe_step dedupe_inv
  by unfold_locales (rule step_dedupe_inv)

lemma created_inv: "dedupe_inv (createDedupeCache ttl mx)"
  by (simp add: dedupe_inv_def createDedupeCache_def)

text \<open>Where a key stands: recorded at or after \<^verbatim>\<open>t0\<close>, with only keys of \<^verbatim>\<open>K\<close> recorded more recently.\<close>

definition kept_in :: "string \<Rightarrow> int \<Rightarrow> string set \<Rightarrow> (string, int) js_map \<Rightarrow> bool" where
  "kept_in k t0 K m \<longleftrightarrow>
     distinct (js_keys m) \<and> (\<exists>xs ts ys. m = xs @ (k, ts) # ys \<and> t0 \<le> ts \<and> fst ` set ys \<subseteq> K)"

lemma kept_filter:
  assumes "kept_in k t0 K m" "\<And>ts. t0 \<le> ts \<Longrightarrow> P (k, ts)"
  shows "kept_in k t0 K (filter P m)"
proof -
  from assms(1) obtain xs ts ys where m: "m = xs @ (k, ts) # ys" "t0 \<le> ts" "fst ` set ys \<subseteq> K" and d: "distinct (js_keys m)"
    by (auto simp: kept_in_def)
  have "filter P m = filter P xs @ (k, ts) # filter P ys" using m assms(2) by simp
  moreover have "fst ` set (filter P ys) \<subseteq> K" using m(3) by auto
  ultimately show ?thesis using m(2) filter_keys [OF d] unfolding kept_in_def by blast
qed

lemma kept_append:
  assumes "kept_in k t0 K m" "k' \<in> K" "k' \<notin> fst ` set m"
  shows "kept_in k t0 K (m @ [(k', now)])"
proof -
  from assms(1) obtain xs ts ys where m: "m = xs @ (k, ts) # ys" "t0 \<le> ts" "fst ` set ys \<subseteq> K" and d: "distinct (js_keys m)"
    by (auto simp: kept_in_def)
  have "m @ [(k', now)] = xs @ (k, ts) # (ys @ [(k', now)])" using m by simp
  moreover have "fst ` set (ys @ [(k', now)]) \<subseteq> K" using m(3) assms(2) by simp
  moreover have "distinct (js_keys (m @ [(k', now)]))" using d assms(3) by auto
  ultimately show ?thesis using m(2) unfolding kept_in_def by blast
qed

lemma kept_drop:
  assumes "kept_in k t0 K m" "finite K" "int (card K) < mx"
  shows "kept_in k t0 K (drop (length m - nat mx) m)"
proof -
  from assms(1) obtain xs ts ys where m: "m = xs @ (k, ts) # ys" "t0 \<le> ts" "fst ` set ys \<subseteq> K" and d: "distinct (js_keys m)"
    by (auto simp: kept_in_def)
  have "length ys = card (fst ` set ys)" using d m(1) distinct_card [of "js_keys ys"] by simp
  also have "\<dots> \<le> card K" using assms(2) m(3) by (rule card_mono)
  finally have "length m - nat mx \<le> length xs" using m(1) assms(3) by simp
  then have "drop (length m - nat mx) m = drop (length m - nat mx) xs @ (k, ts) # ys" using m(1) by simp
  then show ?thesis using m(2,3) drop_keys [OF d] unfolding kept_in_def by metis
qed

lemma kept_get:
  assumes "kept_in k t0 K m"
  shows "\<exists>ts. js_get m k = Some ts \<and> t0 \<le> ts"
proof -
  from assms obtain xs ts ys where m: "m = xs @ (k, ts) # ys" "t0 \<le> ts" and d: "distinct (js_keys m)"
    by (auto simp: kept_in_def)
  have "js_get m k = Some ts" using d m(1) by (intro map_of_is_SomeI) simp_all
  with m(2) show ?thesis by blast
qed

lemma kept_touch_same:
  "distinct (js_keys (recorded c)) \<Longrightarrow> t0 \<le> now \<Longrightarrow> kept_in k t0 K (recorded (dedupe_touch k now c))"
  unfolding kept_in_def using touch_inv [of c k now]
  by (intro conjI exI [of _ "filter (\<lambda>e. fst e \<noteq> k) (recorded c)"] exI [of _ now] exI [of _ "[]"])
    (simp_all add: touch_recorded)

lemma kept_touch_other:
  assumes "kept_in k t0 K (recorded c)" "k' \<in> K" "k' \<noteq> k"
  shows "kept_in k t0 K (recorded (dedupe_touch k' now c))"
  unfolding touch_recorded using assms by (intro kept_append kept_filter) auto

lemma kept_delete: "kept_in k t0 K m \<Longrightarrow> k' \<noteq> k \<Longrightarrow> kept_in k t0 K (js_delete k' m)"
  unfolding AList.delete_eq by (rule kept_filter) auto

lemma kept_prune:
  assumes "kept_in k t0 K (recorded c)" "now < t0 + ttlMs c" "finite K" "int (card K) < maxSize c"
  shows "kept_in k t0 K (recorded (dedupe_prune now c))"
proof -
  let ?m = "if ttlMs c > 0 then filter (\<lambda>(_, ts). \<not> ts < now - ttlMs c) (recorded c) else recorded c"
  have "kept_in k t0 K ?m" using assms(1,2) by (auto intro!: kept_filter)
  from kept_drop [OF this assms(3,4)] assms(4) show ?thesis
    unfolding dedupe_prune_def Let_def prune_to_int by (auto simp: not_le)
qed

text \<open>The events between two requests for \<^verbatim>\<open>k\<close>, inside the window of \<^verbatim>\<open>t0\<close> and touching only keys of \<^verbatim>\<open>K\<close>.\<close>

definition within_window :: "string \<Rightarrow> int \<Rightarrow> int \<Rightarrow> string set \<Rightarrow> dedupe_event \<Rightarrow> bool" where
  "within_window k t0 ttl K e \<longleftrightarrow>
     (case e of CheckKey k' now \<Rightarrow> k' \<in> insert k (insert [] K) \<and> t0 \<le> now \<and> now < t0 + ttl
      | PeekKey k' now \<Rightarrow> t0 \<le> now \<and> now < t0 + ttl
      | DeleteKey k' \<Rightarrow> k' \<noteq> k | ClearKeys \<Rightarrow> False)"

lemma kept_unexpired:
  assumes kept: "kept_in k t0 K (recorded c)" and now: "t0 \<le> now" "now < t0 + ttlMs c" and k': "b \<Longrightarrow> k' \<in> insert k K"
  shows "kept_in k t0 K (recorded (snd (hasUnexpired k' now b c)))" "k' = k \<Longrightarrow> fst (hasUnexpired k' now b c)"
proof -
  have d: "distinct (js_keys (recorded c))" using kept by (simp add: kept_in_def)
  obtain ts where ts: "js_get (recorded c) k = Some ts" "t0 \<le> ts" using kept_get [OF kept] by blast
  show "k' = k \<Longrightarrow> fst (hasUnexpired k' now b c)" using ts now by (simp add: hasUnexpired_def)
  show "kept_in k t0 K (recorded (snd (hasUnexpired k' now b c)))"
  proof (cases "k' = k")
    case True
    then show ?thesis using ts now kept kept_touch_same [OF d now(1)] by (simp add: hasUnexpired_def)
  next
    case False
    then show ?thesis using kept kept_delete [OF kept False] kept_touch_other [OF kept _ False] k'
      by (auto simp: hasUnexpired_def split: option.split)
  qed
qed

lemma unexpired_bounds [simp]:
  "ttlMs (snd (hasUnexpired k now b c)) = ttlMs c" "maxSize (snd (hasUnexpired k now b c)) = maxSize c"
  by (simp_all add: hasUnexpired_def dedupe_touch_def split: option.split)

lemma kept_check:
  assumes kept: "kept_in k t0 K (recorded c)" and now: "t0 \<le> now" "now < t0 + ttlMs c" and k': "k' \<in> insert k K"
    and K: "finite K" "int (card K) < maxSize c"
  shows "kept_in k t0 K (recorded (snd (dedupe_check k' now c)))"
proof (cases "k' = [] \<or> fst (hasUnexpired k' now True c)")
  case True
  with kept kept_unexpired(1) [OF kept now k', of True] show ?thesis
    by (auto simp: dedupe_check_def split: prod.split bool.split)
next
  case False
  let ?c = "snd (hasUnexpired k' now True c)"
  have kept1: "kept_in k t0 K (recorded ?c)" by (rule kept_unexpired(1) [OF kept now k'])
  have "k' \<noteq> k" using False kept_unexpired(2) [OF kept now k'] by blast
  then have "kept_in k t0 K (recorded (dedupe_prune now (dedupe_touch k' now ?c)))"
    using k' now K by (intro kept_prune kept_touch_other kept1) (simp_all add: dedupe_touch_def)
  with False show ?thesis by (auto simp: dedupe_check_def split: prod.split bool.split)
qed

lemma kept_step:
  assumes kept: "kept_in k t0 K (recorded c)" and e: "within_window k t0 (ttlMs c) K e"
    and K: "finite K" "int (card K) < maxSize c"
  shows "kept_in k t0 K (recorded (dedupe_step e c))"
proof (cases e)
  case (CheckKey k' now)
  with e kept_check [OF kept _ _ _ K, of now k'] kept show ?thesis
    by (cases "k' = []") (auto simp: within_window_def dedupe_check_def)
next
  case (PeekKey k' now)
  with e kept kept_unexpired(1) [OF kept, of now False k'] show ?thesis
    by (auto simp: within_window_def dedupe_peek_def)
next
  case (DeleteKey k')
  with e kept kept_delete [OF kept] show ?thesis by (auto simp: within_window_def dedupe_delete_def)
next
  case ClearKeys
  with e show ?thesis by (simp add: within_window_def)
qed

lemma kept_steps:
  "kept_in k t0 K (recorded c) \<Longrightarrow> list_all (within_window k t0 (ttlMs c) K) es \<Longrightarrow> finite K \<Longrightarrow> int (card K) < maxSize c
   \<Longrightarrow> kept_in k t0 K (recorded (fold dedupe_step es c))"
  by (induction es arbitrary: c) (simp_all add: kept_step)

lemma check_records:
  assumes "dedupe_inv c" "k \<noteq> []" "0 < maxSize c" "0 < ttlMs c"
  shows "kept_in k now {} (recorded (snd (dedupe_check k now c)))"
proof (cases "fst (hasUnexpired k now True c)")
  case True
  then have "snd (hasUnexpired k now True c) = dedupe_touch k now c"
    by (auto simp: hasUnexpired_def split: option.splits if_splits)
  with True assms kept_touch_same [of c now now k "{}"] show ?thesis
    by (auto simp: dedupe_check_def dedupe_inv_def split: prod.split bool.split)
next
  case False
  let ?c = "snd (hasUnexpired k now True c)"
  have "distinct (js_keys (recorded ?c))" using unexpired_inv [OF assms(1)] by (simp add: dedupe_inv_def)
  then have "kept_in k now {} (recorded (dedupe_prune now (dedupe_touch k now ?c)))"
    using assms by (intro kept_prune kept_touch_same) (simp_all add: dedupe_touch_def)
  with False assms(2) show ?thesis by (auto simp: dedupe_check_def split: prod.split bool.split)
qed

lemma kept_mono: "kept_in k t0 K m \<Longrightarrow> K \<subseteq> L \<Longrightarrow> kept_in k t0 L m"
  unfolding kept_in_def by blast

section \<open>Properties\<close>

text \<open>A duplicate is caught: once a key was checked, it is reported as a duplicate at every later check inside
  the window, whatever other checks, peeks and deletions of other keys come in between, as long as fewer than
  \<^verbatim>\<open>maxSize\<close> other keys are recorded; and the cache never holds more than \<^verbatim>\<open>maxSize\<close> keys.\<close>

theorem duplicate_is_caught:
  assumes "c = fold dedupe_step es (createDedupeCache ttl mx)" "k \<noteq> []"
    and "list_all (within_window k t0 (ttlMs c) K) es'" "finite K" "int (card K) < maxSize c"
    and "t0 \<le> now" "now < t0 + ttlMs c"
  shows "fst (dedupe_check k now (fold dedupe_step es' (snd (dedupe_check k t0 c))))
    \<and> int (dedupe_size (fold dedupe_step es' (snd (dedupe_check k t0 c)))) \<le> maxSize c"
proof -
  let ?c = "snd (dedupe_check k t0 c)"
  have inv: "dedupe_inv c" unfolding assms(1) by (rule dedupe.run_inv [OF created_inv])
  have same: "ttlMs ?c = ttlMs c" "maxSize ?c = maxSize c" using bounds_kept [of "CheckKey k t0" c] by simp_all
  have same': "ttlMs (fold dedupe_step es' ?c) = ttlMs c" "maxSize (fold dedupe_step es' ?c) = maxSize c"
    by (induction es' rule: rev_induct) (simp_all add: same)
  have pos: "0 < maxSize c" "0 < ttlMs c" using assms by linarith+
  have "kept_in k t0 K (recorded ?c)" by (rule kept_mono [OF check_records [OF inv assms(2) pos]]) simp
  then have kept: "kept_in k t0 K (recorded (fold dedupe_step es' ?c))"
    by (rule kept_steps) (use assms(3-5) in \<open>simp_all only: same\<close>)
  have "fst (dedupe_check k now (fold dedupe_step es' ?c))"
    using kept_unexpired(2) [OF kept, of now True k] assms(2,6,7) same'
    by (auto simp: dedupe_check_def split: prod.split bool.split)
  moreover have "dedupe_inv (fold dedupe_step es' ?c)"
    using dedupe.run_inv [OF step_dedupe_inv [OF inv, of "CheckKey k t0"], of es'] by simp
  ultimately show ?thesis using pos(1) same' by (simp add: dedupe_inv_def dedupe_size_def)
qed

lemma duplicate_is_caught_witness:
  "fst (dedupe_check ''a'' 9 (fold dedupe_step [CheckKey ''b'' 3, PeekKey ''a'' 4] (snd (dedupe_check ''a'' 0 (createDedupeCache (Num 10) (Num 2))))))
   \<and> int (dedupe_size (fold dedupe_step [CheckKey ''b'' 3, PeekKey ''a'' 4] (snd (dedupe_check ''a'' 0 (createDedupeCache (Num 10) (Num 2)))))) \<le> 2"
proof -
  have "maxSize (createDedupeCache (Num 10) (Num 2)) = 2" "ttlMs (createDedupeCache (Num 10) (Num 2)) = 10" by code_simp+
  with duplicate_is_caught [of "createDedupeCache (Num 10) (Num 2)" "[]" "Num 10" "Num 2" "''a''" 0 "{''b''}"
      "[CheckKey ''b'' 3, PeekKey ''a'' 4]" 9]
  show ?thesis by (simp add: within_window_def)
qed

end
