(* ===== verification/FollowupQueue.thy ===== *)
theory FollowupQueue
  imports QueueSettings ChannelRoute DedupeCache
begin

text \<open>
  The follow-up queues of busy sessions: \<^verbatim>\<open>queue/types.ts\<close>, \<^verbatim>\<open>queue/state.ts\<close>, \<^verbatim>\<open>queue/enqueue.ts\<close> and
  \<^verbatim>\<open>queue/drain.ts\<close> under \<^verbatim>\<open>auto-reply/reply\<close>.

  Queues are objects that a registry refers to by session key; a drain keeps its queue even when the registry
  has moved on.  A drain is an asynchronous function: its state is the point where it waits, and an event
  advances it from one \<^verbatim>\<open>await\<close> to the next, so that every other operation may come in between.  A callback is a
  number, its calls are outputs and its answers events.  Run objects (\<^verbatim>\<open>run.run\<close>) are shared and rewritten in
  place, so a follow-up run holds a reference to one.
\<close>

section \<open>Types\<close>

record exec_overrides =
  ex_host :: "string option"
  ex_security :: "string option"
  ex_ask :: "string option"
  ex_node :: "string option"

record bash_elevated =
  el_enabled :: bool
  el_allowed :: bool
  el_defaultLevel :: string

text \<open>The fields of a run object this code reads or writes.\<close>

record agent_run =
  ar_sessionId :: string
  ar_sessionFile :: string
  ar_provider :: string
  ar_model :: string
  ar_hasSessionModelOverride :: "bool option"
  ar_modelOverrideSource :: "string option"
  ar_hasAutoFallbackProvenance :: "bool option"
  ar_authProfileId :: "string option"
  ar_authProfileIdSource :: "string option"
  ar_senderId :: "string option"
  ar_senderName :: "string option"
  ar_senderUsername :: "string option"
  ar_senderE164 :: "string option"
  ar_senderIsOwner :: "bool option"
  ar_execOverrides :: "exec_overrides option"
  ar_bashElevated :: "bash_elevated option"

text \<open>
  \<^verbatim>\<open>fu_ref\<close> is the identity of the object.  An abort signal is the list of the signals it follows: of one
  signal, or of several when \<^verbatim>\<open>AbortSignal.any\<close> made it.
\<close>

record followup_run =
  fu_ref :: nat
  fu_prompt :: string
  fu_eventKind :: "string option"
  fu_audio :: "bool option"
  fu_context :: "string option"
  fu_abort :: "nat list option"
  fu_correlations :: "string list option"
  fu_lifecycle :: "nat option"
  fu_messageId :: "string option"
  fu_summaryLine :: "string option"
  fu_enqueuedAt :: int
  fu_images :: "string list option"
  fu_imageOrder :: "string list option"
  fu_channel :: "string option"
  fu_to :: "string option"
  fu_account :: "string option"
  fu_thread :: "thread_id option"
  fu_run :: nat

datatype dedupe_mode = ByMessageId | ByPrompt | NoDedupe

record followup_queue = "followup_run runtime_queue" +
  is_draining :: bool
  lastEnqueuedAt :: int
  summarySources :: "followup_run list"
  lastRun :: "nat option"

type_synonym summary_snapshot = "nat \<times> string list"

text \<open>Where a drain waits.\<close>

datatype drain_point =
    AtLoop
  | AbortRun bool nat nat followup_run
  | AbortsDropped bool nat
  | Debouncing js_number
  | Debounced
  | CollectSkipped
  | CollectEmpty
  | ItemRunning followup_run
  | SummaryItemRunning followup_run summary_snapshot
  | SummaryItemRan followup_run
  | SummaryRunning summary_snapshot
  | SummaryDone
  | GroupRunning "followup_run list" "followup_run list list" bool summary_snapshot
  | GroupDone "followup_run list" "followup_run list list" bool summary_snapshot
  | Breaking
  | Throwing bool "summary_snapshot option"

record drain =
  dr_queue :: nat
  dr_key :: string
  dr_callback :: nat
  dr_force :: bool
  dr_point :: drain_point

datatype run_result = RunOk | RunDeferred | RunFailed

text \<open>A call names the drain, the callback, the run it passes and the queued runs whose prompts the run carries.\<close>

datatype followup_output =
    Called nat nat followup_run "followup_run list"
  | LifecycleEnqueued nat
  | LifecycleCompleted nat

record followup_state =
  queues :: "nat \<Rightarrow> followup_queue"
  next_queue :: nat
  registry :: "(string, nat) js_map"
  callbacks :: "(string, nat) js_map"
  agent_runs :: "nat \<Rightarrow> agent_run"
  aborted_signals :: "nat list"
  enqueued_lifecycles :: "nat list"
  completed_lifecycles :: "nat list"
  recent_ids :: dedupe_cache
  drains :: "(nat, drain) js_map"
  next_drain :: nat
  outputs :: "followup_output list"

definition isFollowupRunAborted :: "followup_state \<Rightarrow> followup_run \<Rightarrow> bool" where
  "isFollowupRunAborted s run =
     (case fu_abort run of None \<Rightarrow> False | Some signals \<Rightarrow> list_ex (\<lambda>i. i \<in> set (aborted_signals s)) signals)"

definition emit_out :: "followup_output \<Rightarrow> followup_state \<Rightarrow> followup_state" where
  "emit_out out s = s\<lparr>outputs := outputs s @ [out]\<rparr>"

definition markFollowupRunEnqueued :: "followup_run \<Rightarrow> followup_state \<Rightarrow> followup_state" where
  "markFollowupRunEnqueued run s =
     (case fu_lifecycle run of
        None \<Rightarrow> s
      | Some l \<Rightarrow>
          if l \<in> set (enqueued_lifecycles s) then s
          else emit_out (LifecycleEnqueued l) (s\<lparr>enqueued_lifecycles := l # enqueued_lifecycles s\<rparr>))"

definition completeFollowupRunLifecycle :: "followup_run \<Rightarrow> followup_state \<Rightarrow> followup_state" where
  "completeFollowupRunLifecycle run s =
     (case fu_lifecycle run of
        None \<Rightarrow> s
      | Some l \<Rightarrow>
          if l \<in> set (completed_lifecycles s) then s
          else emit_out (LifecycleCompleted l) (s\<lparr>completed_lifecycles := l # completed_lifecycles s\<rparr>))"

definition update_queue :: "nat \<Rightarrow> (followup_queue \<Rightarrow> followup_queue) \<Rightarrow> followup_state \<Rightarrow> followup_state" where
  "update_queue n f s = s\<lparr>queues := (queues s)(n := f (queues s n))\<rparr>"

section \<open>The registry of queues\<close>

definition getExistingFollowupQueue :: "string \<Rightarrow> followup_state \<Rightarrow> nat option" where
  "getExistingFollowupQueue key s = (let cleaned = js_trim key in if cleaned = [] then None else js_get (registry s) cleaned)"

definition created_queue :: "queue_settings \<Rightarrow> followup_queue" where
  "created_queue settings =
     \<lparr>dropPolicy = or_default (set_dropPolicy settings) DEFAULT_QUEUE_DROP, droppedCount = 0, summaryLines = [],
      items = [],
      cap = (case set_cap settings of
               Some c \<Rightarrow> if js_less (Num 0) c then js_floor c else Num (of_int DEFAULT_QUEUE_CAP)
             | None \<Rightarrow> Num (of_int DEFAULT_QUEUE_CAP)),
      mode = set_mode settings,
      debounceMs = (case set_debounceMs settings of Some d \<Rightarrow> js_max (Num 0) d
                    | None \<Rightarrow> Num (of_int DEFAULT_QUEUE_DEBOUNCE_MS)),
      is_draining = False, lastEnqueuedAt = 0, summarySources = [], lastRun = None\<rparr>"

definition getFollowupQueue :: "string \<Rightarrow> queue_settings \<Rightarrow> followup_state \<Rightarrow> nat \<times> followup_state" where
  "getFollowupQueue key settings s =
     (case js_get (registry s) key of
        Some n \<Rightarrow> (n, update_queue n (applyQueueRuntimeSettings settings) s)
      | None \<Rightarrow>
          (let n = next_queue s in
           (n, s\<lparr>queues := (queues s)(n := applyQueueRuntimeSettings settings (created_queue settings)),
                 next_queue := Suc n, registry := js_set key n (registry s)\<rparr>)))"

definition clearFollowupQueue :: "string \<Rightarrow> followup_state \<Rightarrow> nat \<times> followup_state" where
  "clearFollowupQueue key s =
     (let cleaned = js_trim key in
      case getExistingFollowupQueue cleaned s of
        None \<Rightarrow> (0, s)
      | Some n \<Rightarrow>
          (let q = queues s n;
               s1 = fold completeFollowupRunLifecycle (summarySources q) (fold completeFollowupRunLifecycle (items q) s);
               s2 = update_queue n (\<lambda>q. q\<lparr>items := [], droppedCount := 0, summaryLines := [], summarySources := [],
                                          lastRun := None, lastEnqueuedAt := 0\<rparr>) s1
           in (length (items q) + droppedCount q, s2\<lparr>registry := js_delete cleaned (registry s2)\<rparr>)))"

text \<open>An argument that may be absent, given as undefined, or given: \<^verbatim>\<open>Object.hasOwn\<close> tells the first from the second.\<close>

datatype 'a own = NotOwn | Own "'a option"

record refresh_params =
  rf_previousSessionId :: "string option"
  rf_nextSessionId :: "string option"
  rf_nextSessionFile :: "string option"
  rf_nextProvider :: "string option"
  rf_nextModel :: "string option"
  rf_nextModelOverrideSource :: "string own"
  rf_nextAuthProfileId :: "string own"
  rf_nextAuthProfileIdSource :: "string own"

definition truthy :: "string option \<Rightarrow> bool" where
  "truthy v \<longleftrightarrow> or_default v [] \<noteq> []"

definition rewriteRun :: "refresh_params \<Rightarrow> agent_run \<Rightarrow> agent_run" where
  "rewriteRun p run =
     (let shouldRewriteSession = (truthy (rf_previousSessionId p) \<and> truthy (rf_nextSessionId p)
            \<and> rf_previousSessionId p \<noteq> rf_nextSessionId p);
          shouldRewriteModelSelection = (rf_nextProvider p \<noteq> None \<or> rf_nextModel p \<noteq> None
            \<or> rf_nextModelOverrideSource p \<noteq> NotOwn);
          shouldRewriteSelection = (shouldRewriteModelSelection \<or> rf_nextAuthProfileId p \<noteq> NotOwn
            \<or> rf_nextAuthProfileIdSource p \<noteq> NotOwn);
          r1 = (if shouldRewriteSession \<and> Some (ar_sessionId run) = rf_previousSessionId p
                then run\<lparr>ar_sessionId := or_default (rf_nextSessionId p) [],
                         ar_sessionFile := or_default (normalizeOptionalString (rf_nextSessionFile p)) (ar_sessionFile run)\<rparr>
                else run)
      in if \<not> shouldRewriteSelection then r1
         else
           (let r2 = r1\<lparr>ar_provider := or_default (rf_nextProvider p) (ar_provider r1),
                         ar_model := or_default (rf_nextModel p) (ar_model r1)\<rparr>;
                r3 = (if shouldRewriteModelSelection then r2\<lparr>ar_hasAutoFallbackProvenance := None\<rparr> else r2);
                r4 = (case rf_nextModelOverrideSource p of
                        NotOwn \<Rightarrow> r3
                      | Own v \<Rightarrow> r3\<lparr>ar_hasSessionModelOverride := Some (ar_provider r3 \<noteq> [] \<or> ar_model r3 \<noteq> []),
                                     ar_modelOverrideSource := v\<rparr>);
                r5 = (case rf_nextAuthProfileId p of
                        NotOwn \<Rightarrow> r4
                      | Own v \<Rightarrow> r4\<lparr>ar_authProfileId := normalizeOptionalString v\<rparr>)
            in case rf_nextAuthProfileIdSource p of
                 NotOwn \<Rightarrow> r5
               | Own v \<Rightarrow> r5\<lparr>ar_authProfileIdSource := (if truthy (ar_authProfileId r5) then v else None)\<rparr>))"

definition rewrite_ref :: "refresh_params \<Rightarrow> nat \<Rightarrow> (nat \<Rightarrow> agent_run) \<Rightarrow> nat \<Rightarrow> agent_run" where
  "rewrite_ref p r runs = runs(r := rewriteRun p (runs r))"

definition refreshQueuedFollowupSession :: "string \<Rightarrow> refresh_params \<Rightarrow> followup_state \<Rightarrow> followup_state" where
  "refreshQueuedFollowupSession key p s =
     (case getExistingFollowupQueue (js_trim key) s of
        None \<Rightarrow> s
      | Some n \<Rightarrow>
          (let q = queues s n;
               refs = (case lastRun q of None \<Rightarrow> [] | Some r \<Rightarrow> [r]) @ map fu_run (items q)
           in s\<lparr>agent_runs := fold (rewrite_ref p) refs (agent_runs s)\<rparr>))"

section \<open>Callbacks\<close>

definition rememberFollowupDrainCallback :: "string \<Rightarrow> nat \<Rightarrow> followup_state \<Rightarrow> followup_state" where
  "rememberFollowupDrainCallback key cb s = s\<lparr>callbacks := js_set key cb (callbacks s)\<rparr>"

definition clearFollowupDrainCallback :: "string \<Rightarrow> followup_state \<Rightarrow> followup_state" where
  "clearFollowupDrainCallback key s = s\<lparr>callbacks := js_delete key (callbacks s)\<rparr>"

section \<open>What a run is given\<close>

definition blank_run :: "string \<Rightarrow> nat \<Rightarrow> int \<Rightarrow> followup_run" where
  "blank_run prompt run now =
     \<lparr>fu_ref = 0, fu_prompt = prompt, fu_eventKind = None, fu_audio = None, fu_context = None, fu_abort = None,
      fu_correlations = None, fu_lifecycle = None, fu_messageId = None, fu_summaryLine = None, fu_enqueuedAt = now,
      fu_images = None, fu_imageOrder = None, fu_channel = None, fu_to = None, fu_account = None, fu_thread = None,
      fu_run = run\<rparr>"

fun first_of :: "('i \<Rightarrow> 'v option) \<Rightarrow> ('v \<Rightarrow> bool) \<Rightarrow> 'i list \<Rightarrow> 'v option" where
  "first_of f ok [] = None"
| "first_of f ok (i # is) = (case f i of Some v \<Rightarrow> if ok v then Some v else first_of f ok is | None \<Rightarrow> first_of f ok is)"

text \<open>The routing metadata of the runs, over a run that has none.\<close>

definition resolveOriginRoutingMetadata :: "followup_run list \<Rightarrow> followup_run \<Rightarrow> followup_run" where
  "resolveOriginRoutingMetadata its run =
     run\<lparr>fu_channel := first_of fu_channel (\<lambda>v. v \<noteq> []) its, fu_to := first_of fu_to (\<lambda>v. v \<noteq> []) its,
         fu_account := first_of fu_account (\<lambda>v. v \<noteq> []) its,
         fu_thread := first_of fu_thread (\<lambda>v. v \<noteq> ThreadStr []) its\<rparr>"

definition flag :: "bool option \<Rightarrow> bool" where
  "flag b \<longleftrightarrow> b = Some True"

definition resolveFollowupAuthorizationKey :: "agent_run \<Rightarrow> string" where
  "resolveFollowupAuthorizationKey r =
     (let ex = (\<lambda>f. or_default (Option.bind (ar_execOverrides r) f) []) in
      json_tuple
       [PStr (or_default (ar_senderId r) []), PStr (or_default (ar_senderE164 r) []), PBool (flag (ar_senderIsOwner r)),
        PStr (ex ex_host), PStr (ex ex_security), PStr (ex ex_ask), PStr (ex ex_node),
        PBool (flag (map_option el_enabled (ar_bashElevated r))), PBool (flag (map_option el_allowed (ar_bashElevated r))),
        PStr (or_default (map_option el_defaultLevel (ar_bashElevated r)) [])])"

text \<open>The loop of \<^verbatim>\<open>splitCollectItemsByAuthorization\<close>, with the current group and its key.\<close>

fun split_groups :: "('i \<Rightarrow> string) \<Rightarrow> 'i list \<Rightarrow> string \<Rightarrow> 'i list \<Rightarrow> 'i list list" where
  "split_groups key grp k [] = (if grp = [] then [] else [grp])"
| "split_groups key grp k (i # is) =
     (if grp = [] \<or> key i = k then split_groups key (grp @ [i]) (key i) is
      else grp # split_groups key [i] (key i) is)"

definition splitCollectItemsByAuthorization :: "(nat \<Rightarrow> agent_run) \<Rightarrow> followup_run list \<Rightarrow> followup_run list list" where
  "splitCollectItemsByAuthorization runs its =
     (if length its \<le> 1 then (if its = [] then [] else [its])
      else split_groups (\<lambda>i. resolveFollowupAuthorizationKey (runs (fu_run i))) [] [] its)"

definition renderCollectItem :: "(nat \<Rightarrow> agent_run) \<Rightarrow> followup_run \<Rightarrow> nat \<Rightarrow> string" where
  "renderCollectItem runs item idx =
     (let r = runs (fu_run item);
          senderLabel = or_else (ar_senderName r) (or_else (ar_senderUsername r) (or_else (ar_senderId r) (ar_senderE164 r)));
          senderSuffix = (if truthy senderLabel then '' (from '' @ or_default senderLabel [] @ '')'' else [])
      in js_trim (''---'' @ NEWLINE @ ''Queued #'' @ show_nat (idx + 1) @ senderSuffix @ NEWLINE @ fu_prompt item))"

definition collectQueuedImages :: "followup_run list \<Rightarrow> followup_run \<Rightarrow> followup_run" where
  "collectQueuedImages its run =
     (let images = concat (map (\<lambda>i. or_default (fu_images i) []) its);
          imageOrder = concat (map (\<lambda>i. or_default (fu_imageOrder i) []) its)
      in run\<lparr>fu_images := (if images = [] then None else Some images),
             fu_imageOrder := (if imageOrder = [] then None else Some imageOrder)\<rparr>)"

definition hasCurrentTurnRuntimeMetadata :: "followup_run \<Rightarrow> bool" where
  "hasCurrentTurnRuntimeMetadata i \<longleftrightarrow> fu_eventKind i = Some ''room_event'' \<or> flag (fu_audio i) \<or> fu_context i \<noteq> None"

definition hasRuntimeOnlyFollowupMetadata :: "followup_run \<Rightarrow> bool" where
  "hasRuntimeOnlyFollowupMetadata i \<longleftrightarrow>
     hasCurrentTurnRuntimeMetadata i \<or> fu_abort i \<noteq> None \<or> or_default (fu_correlations i) [] \<noteq> [] \<or> fu_lifecycle i \<noteq> None"

definition combineAbortSignals :: "followup_run list \<Rightarrow> nat list option" where
  "combineAbortSignals its =
     (case List.map_filter fu_abort its of [] \<Rightarrow> None | signals \<Rightarrow> Some (concat signals))"

definition collectRuntimeMetadata :: "followup_run list \<Rightarrow> followup_run option \<Rightarrow> followup_run \<Rightarrow> followup_run" where
  "collectRuntimeMetadata its singletonOwner run =
     (let candidates = (case singletonOwner of None \<Rightarrow> its | Some o1 \<Rightarrow> o1 # its);
          currentTurnSource = (case singletonOwner of
              Some o1 \<Rightarrow> if hasCurrentTurnRuntimeMetadata o1 then Some o1 else List.find hasCurrentTurnRuntimeMetadata its
            | None \<Rightarrow> List.find hasCurrentTurnRuntimeMetadata its);
          correlations = concat (map (\<lambda>i. or_default (fu_correlations i) []) its);
          lifecycleSource = (case singletonOwner of Some o1 \<Rightarrow> Some o1 | None \<Rightarrow> List.find (\<lambda>i. fu_lifecycle i \<noteq> None) its)
      in run\<lparr>fu_eventKind := Option.bind currentTurnSource fu_eventKind,
             fu_audio := Option.bind currentTurnSource fu_audio,
             fu_context := Option.bind currentTurnSource fu_context,
             fu_abort := or_else (Option.bind singletonOwner fu_abort) (combineAbortSignals candidates),
             fu_correlations := (if correlations = [] then None else Some correlations),
             fu_lifecycle := or_else (Option.bind singletonOwner fu_lifecycle)
                (if length its = 1 then Option.bind lifecycleSource fu_lifecycle else None)\<rparr>)"

definition collectSummaryRuntimeMetadata :: "followup_run list \<Rightarrow> followup_run \<Rightarrow> followup_run" where
  "collectSummaryRuntimeMetadata its = collectRuntimeMetadata its (if length its = 1 then Some (hd its) else None)"

text \<open>Whether a channel is routable depends on the loaded channel plugins, a parameter.\<close>

definition resolveCrossChannelKey :: "(string option \<Rightarrow> bool) \<Rightarrow> followup_run \<Rightarrow> cross_key" where
  "resolveCrossChannelKey isRoutableChannel i =
     (if \<not> truthy (fu_channel i) \<and> \<not> truthy (fu_to i) \<and> \<not> truthy (fu_account i)
         \<and> (fu_thread i = None \<or> fu_thread i = Some (ThreadStr [])) then NoKey
      else if \<not> isRoutableChannel (fu_channel i) \<or> \<not> truthy (fu_to i) then Cross
      else
        (case channelRouteCompactKey
                (Some (KeyTarget (no_route_input\<lparr>in_channel := fu_channel i, in_to := fu_to i,
                   in_accountId := fu_account i, in_threadId := fu_thread i\<rparr>))) of
           Some k \<Rightarrow> Key k
         | None \<Rightarrow> Cross))"

section \<open>The summary of dropped runs\<close>

definition completeFollowupQueueSummarySources :: "nat \<Rightarrow> followup_state \<Rightarrow> followup_state" where
  "completeFollowupQueueSummarySources n s =
     update_queue n (\<lambda>q. q\<lparr>summarySources := []\<rparr>) (fold completeFollowupRunLifecycle (summarySources (queues s n)) s)"

definition clearFollowupQueueSummaryState :: "nat \<Rightarrow> followup_state \<Rightarrow> followup_state" where
  "clearFollowupQueueSummaryState n s = update_queue n clearQueueSummaryState (completeFollowupQueueSummarySources n s)"

text \<open>\<^verbatim>\<open>previewRestorableQueueSummaryPrompt\<close>: the prompt with the snapshot its restore puts back.\<close>

definition previewRestorable :: "followup_queue \<Rightarrow> (string \<times> summary_snapshot) option" where
  "previewRestorable q =
     (case previewQueueSummaryPrompt ''message'' None q of
        None \<Rightarrow> None
      | Some prompt \<Rightarrow> if prompt = [] then None else Some (prompt, droppedCount q, summaryLines q))"

definition restore_summary :: "summary_snapshot \<Rightarrow> followup_queue \<Rightarrow> followup_queue" where
  "restore_summary snap q =
     (let hasSnapshotPrefix = (droppedCount q \<ge> fst snap \<and> take (length (snd snap)) (summaryLines q) = snd snap)
      in if hasSnapshotPrefix then q
         else q\<lparr>droppedCount := (if droppedCount q \<ge> fst snap then droppedCount q else droppedCount q + fst snap),
                summaryLines := snd snap @ summaryLines q\<rparr>)"

section \<open>The drain\<close>

definition pending_work :: "followup_queue \<Rightarrow> bool" where
  "pending_work q \<longleftrightarrow> items q \<noteq> [] \<or> droppedCount q > 0"

definition wait_at :: "nat \<Rightarrow> drain \<Rightarrow> drain_point \<Rightarrow> followup_state \<Rightarrow> followup_state" where
  "wait_at i d p s = s\<lparr>drains := js_set i (d\<lparr>dr_point := p\<rparr>) (drains s)\<rparr>"

text \<open>The call of the callback and the wait for its answer.\<close>

definition call_and_wait ::
  "nat \<Rightarrow> drain \<Rightarrow> drain_point \<Rightarrow> followup_run \<Rightarrow> followup_run list \<Rightarrow> followup_state \<Rightarrow> followup_state" where
  "call_and_wait i d p run members s = emit_out (Called i (dr_callback d) run members) (wait_at i d p s)"

datatype scan_result = ScanDone | ScanHit nat followup_run | ScanTypeError

text \<open>The downward scan of \<^verbatim>\<open>dropAbortedFollowups\<close> below \<^verbatim>\<open>n\<close>; an index past the end is an undefined item.\<close>

fun scan_aborted :: "(followup_run \<Rightarrow> bool) \<Rightarrow> followup_run list \<Rightarrow> nat \<Rightarrow> scan_result" where
  "scan_aborted aborted its 0 = ScanDone"
| "scan_aborted aborted its (Suc n) =
     (if n \<ge> length its then ScanTypeError
      else if aborted (its ! n) then ScanHit n (its ! n)
      else scan_aborted aborted its n)"

definition dropAbortedFollowups :: "nat \<Rightarrow> drain \<Rightarrow> bool \<Rightarrow> nat \<Rightarrow> nat \<Rightarrow> followup_state \<Rightarrow> followup_state" where
  "dropAbortedFollowups i d afterDebounce n dropped s =
     (case scan_aborted (isFollowupRunAborted s) (items (queues s (dr_queue d))) n of
        ScanDone \<Rightarrow> wait_at i d (AbortsDropped afterDebounce dropped) s
      | ScanHit k x \<Rightarrow> call_and_wait i d (AbortRun afterDebounce k dropped x) x [x] s
      | ScanTypeError \<Rightarrow> wait_at i d (Throwing False None) s)"

text \<open>The head of the loop when there is work: the first scan starts at once.\<close>

definition enter_loop :: "nat \<Rightarrow> drain \<Rightarrow> followup_state \<Rightarrow> followup_state" where
  "enter_loop i d s = dropAbortedFollowups i d False (length (items (queues s (dr_queue d)))) 0 s"

text \<open>The end of a drain with nothing pending: the queue leaves the registry if it is still the registered one.\<close>

definition retire_queue :: "string \<Rightarrow> nat \<Rightarrow> followup_state \<Rightarrow> followup_state" where
  "retire_queue key n s =
     (if js_get (registry s) key = Some n
      then clearFollowupDrainCallback key (s\<lparr>registry := js_delete key (registry s)\<rparr>) else s)"

definition beginQueueDrain :: "string \<Rightarrow> followup_state \<Rightarrow> (nat \<times> followup_state) option" where
  "beginQueueDrain key s =
     (case js_get (registry s) key of
        None \<Rightarrow> None
      | Some n \<Rightarrow> if is_draining (queues s n) then None else Some (n, update_queue n (\<lambda>q. q\<lparr>is_draining := True\<rparr>) s))"

definition scheduleFollowupDrain :: "string \<Rightarrow> nat \<Rightarrow> followup_state \<Rightarrow> followup_state" where
  "scheduleFollowupDrain key runFollowup s =
     (case beginQueueDrain key s of
        None \<Rightarrow> s
      | Some (n, s1) \<Rightarrow>
          (let cb = or_default (js_get (callbacks s1) key) runFollowup;
               s2 = rememberFollowupDrainCallback key cb s1;
               i = next_drain s2;
               d = \<lparr>dr_queue = n, dr_key = key, dr_callback = cb, dr_force = False, dr_point = AtLoop\<rparr>;
               s3 = s2\<lparr>next_drain := Suc i\<rparr>
           in if pending_work (queues s3 n) then enter_loop i d s3
              else retire_queue key n (update_queue n (\<lambda>q. q\<lparr>is_draining := False\<rparr>) s3)))"

definition kickFollowupDrainIfIdle :: "string \<Rightarrow> followup_state \<Rightarrow> followup_state" where
  "kickFollowupDrainIfIdle key s =
     (case js_get (callbacks s) key of None \<Rightarrow> s | Some cb \<Rightarrow> scheduleFollowupDrain key cb s)"

text \<open>The \<^verbatim>\<open>finally\<close> of a drain; pending work starts the next drain whether or not the run was deferred.\<close>

definition finish_drain :: "nat \<Rightarrow> drain \<Rightarrow> followup_state \<Rightarrow> followup_state" where
  "finish_drain i d s =
     (let s1 = update_queue (dr_queue d) (\<lambda>q. q\<lparr>is_draining := False\<rparr>) (s\<lparr>drains := js_delete i (drains s)\<rparr>)
      in if pending_work (queues s1 (dr_queue d)) then scheduleFollowupDrain (dr_key d) (dr_callback d) s1
         else retire_queue (dr_key d) (dr_queue d) s1)"

definition loop_head :: "nat \<Rightarrow> drain \<Rightarrow> followup_state \<Rightarrow> followup_state" where
  "loop_head i d s = (if pending_work (queues s (dr_queue d)) then enter_loop i d s else finish_drain i d s)"

subsection \<open>A pass of the loop\<close>

text \<open>A run with the summary alone.\<close>

definition run_summary_only :: "nat \<Rightarrow> drain \<Rightarrow> int \<Rightarrow> bool \<Rightarrow> followup_state \<Rightarrow> followup_state" where
  "run_summary_only i d now withImages s =
     (let q = queues s (dr_queue d) in
      case (previewRestorable q, lastRun q) of
        (Some (prompt, snap), Some run) \<Rightarrow>
          (let call = collectSummaryRuntimeMetadata [] (blank_run prompt run now)
           in call_and_wait i d (SummaryRunning snap) (if withImages then collectQueuedImages (items q) call else call) [] s)
      | _ \<Rightarrow> finish_drain i d s)"

definition run_group ::
  "nat \<Rightarrow> drain \<Rightarrow> int \<Rightarrow> followup_run list \<Rightarrow> followup_run list list \<Rightarrow> (string \<times> summary_snapshot) option
    \<Rightarrow> summary_snapshot \<Rightarrow> followup_state \<Rightarrow> followup_state" where
  "run_group i d now grp rest pendingSummary snap s =
     (let prompt = buildCollectPrompt ''[Queued messages while agent was busy]'' grp (map_option fst pendingSummary)
                     (renderCollectItem (agent_runs s));
          call = collectQueuedImages grp
                   (collectRuntimeMetadata grp None
                     (resolveOriginRoutingMetadata grp (blank_run prompt (fu_run (last grp)) now)))
      in call_and_wait i d (GroupRunning grp rest (pendingSummary \<noteq> None) snap) call grp s)"

definition run_batch :: "nat \<Rightarrow> drain \<Rightarrow> int \<Rightarrow> followup_state \<Rightarrow> followup_state" where
  "run_batch i d now s =
     (let q = queues s (dr_queue d);
          summary = previewRestorable q
      in case splitCollectItemsByAuthorization (agent_runs s) (items q) of
           [] \<Rightarrow> run_summary_only i d now False s
         | grp # rest \<Rightarrow> run_group i d now grp rest summary (case summary of Some (_, snap) \<Rightarrow> snap | None \<Rightarrow> (0, [])) s)"

definition collect_pass :: "(string option \<Rightarrow> bool) \<Rightarrow> nat \<Rightarrow> drain \<Rightarrow> followup_state \<Rightarrow> followup_state" where
  "collect_pass routable i d s =
     (let its = items (queues s (dr_queue d));
          isCross = (hasCrossChannelItems (resolveCrossChannelKey routable) its \<or> list_ex hasRuntimeOnlyFollowupMetadata its);
          force = (if dr_force d \<and> \<not> isCross \<and> length its > 1 then False else dr_force d)
      in case drainCollectQueueStep force isCross its of
           (force1, Skipped) \<Rightarrow> wait_at i (d\<lparr>dr_force := force1\<rparr>) CollectSkipped s
         | (force1, Empty) \<Rightarrow> wait_at i (d\<lparr>dr_force := force1\<rparr>) CollectEmpty s
         | (force1, Run x) \<Rightarrow> call_and_wait i (d\<lparr>dr_force := force1\<rparr>) (ItemRunning x) x [x] s)"

text \<open>The pass of the other modes: a summary takes the place of the prompt of the first run.\<close>

definition single_pass :: "nat \<Rightarrow> drain \<Rightarrow> int \<Rightarrow> followup_state \<Rightarrow> followup_state" where
  "single_pass i d now s =
     (let q = queues s (dr_queue d) in
      case previewRestorable q of
        Some (prompt, snap) \<Rightarrow>
          (case lastRun q of
             None \<Rightarrow> finish_drain i d s
           | Some run \<Rightarrow>
               (case items q of
                  [] \<Rightarrow> wait_at i d Breaking s
                | x # _ \<Rightarrow>
                    (let call = collectQueuedImages [x] (collectSummaryRuntimeMetadata [x]
                        ((blank_run prompt run now)\<lparr>fu_channel := fu_channel x, fu_to := fu_to x,
                           fu_account := fu_account x, fu_thread := fu_thread x\<rparr>))
                     in call_and_wait i d (SummaryItemRunning x snap) call [] s)))
      | None \<Rightarrow>
          (case items q of
             [] \<Rightarrow> wait_at i d Breaking s
           | x # _ \<Rightarrow> call_and_wait i d (ItemRunning x) x [x] s))"

definition after_aborts :: "(string option \<Rightarrow> bool) \<Rightarrow> nat \<Rightarrow> drain \<Rightarrow> int \<Rightarrow> bool \<Rightarrow> nat \<Rightarrow> followup_state \<Rightarrow> followup_state" where
  "after_aborts routable i d now afterDebounce dropped s0 =
     (let s = (if dropped > 0 \<and> items (queues s0 (dr_queue d)) = [] then clearFollowupQueueSummaryState (dr_queue d) s0 else s0);
          q = queues s (dr_queue d)
      in if \<not> pending_work q then finish_drain i d s
         else if afterDebounce
         then (if mode q = Collect then collect_pass routable i d s else single_pass i d now s)
         else
           (let w = debounce_window (debounceMs q)
            in if js_le w (Num 0) \<or> debounce_ready w (lastEnqueuedAt q) now then wait_at i d Debounced s
               else wait_at i d (Debouncing w) s))"

definition after_group :: "nat \<Rightarrow> drain \<Rightarrow> int \<Rightarrow> followup_run list \<Rightarrow> followup_run list list \<Rightarrow> bool \<Rightarrow> summary_snapshot
    \<Rightarrow> followup_state \<Rightarrow> followup_state" where
  "after_group i d now grp rest hadSummary snap s =
     (let s1 = update_queue (dr_queue d) (\<lambda>q. q\<lparr>items := removeQueuedItemsByRef (items q) grp\<rparr>) s;
          s2 = (if hadSummary then clearFollowupQueueSummaryState (dr_queue d) s1 else s1)
      in case rest of
           [] \<Rightarrow> loop_head i d s2
         | g # gs \<Rightarrow> run_group i d now g gs None snap s2)"

text \<open>From an \<^verbatim>\<open>await\<close> that waits for nothing outside to the next one.\<close>

definition resume_drain :: "(string option \<Rightarrow> bool) \<Rightarrow> nat \<Rightarrow> int \<Rightarrow> followup_state \<Rightarrow> followup_state" where
  "resume_drain routable i now s =
     (case js_get (drains s) i of
        None \<Rightarrow> s
      | Some d \<Rightarrow>
          (case dr_point d of
             AtLoop \<Rightarrow> loop_head i d s
           | AbortsDropped afterDebounce dropped \<Rightarrow> after_aborts routable i d now afterDebounce dropped s
           | Debounced \<Rightarrow> dropAbortedFollowups i d True (length (items (queues s (dr_queue d)))) 0 s
           | CollectSkipped \<Rightarrow> run_batch i d now s
           | CollectEmpty \<Rightarrow> run_summary_only i d now True s
           | SummaryItemRan x \<Rightarrow>
               wait_at i d SummaryDone (update_queue (dr_queue d) (\<lambda>q. q\<lparr>items := removeQueuedItemsByRef (items q) [x]\<rparr>) s)
           | SummaryDone \<Rightarrow> loop_head i d (clearFollowupQueueSummaryState (dr_queue d) s)
           | GroupDone grp rest hadSummary snap \<Rightarrow> after_group i d now grp rest hadSummary snap s
           | Breaking \<Rightarrow> finish_drain i d s
           | Throwing deferred (Some snap) \<Rightarrow>
               wait_at i d (Throwing deferred None)
                 (if deferred then update_queue (dr_queue d) (restore_summary snap) s else s)
           | Throwing deferred None \<Rightarrow>
               finish_drain i d (update_queue (dr_queue d) (\<lambda>q. q\<lparr>lastEnqueuedAt := now\<rparr>) s)
           | _ \<Rightarrow> s))"

text \<open>The check of the debounce timer.\<close>

definition debounce_tick :: "nat \<Rightarrow> int \<Rightarrow> followup_state \<Rightarrow> followup_state" where
  "debounce_tick i now s =
     (case js_get (drains s) i of
        None \<Rightarrow> s
      | Some d \<Rightarrow>
          (case dr_point d of
             Debouncing w \<Rightarrow> if debounce_ready w (lastEnqueuedAt (queues s (dr_queue d))) now then wait_at i d Debounced s else s
           | _ \<Rightarrow> s))"

text \<open>The answer of the callback.\<close>

definition answer_drain :: "nat \<Rightarrow> run_result \<Rightarrow> followup_state \<Rightarrow> followup_state" where
  "answer_drain i res s =
     (case js_get (drains s) i of
        None \<Rightarrow> s
      | Some d \<Rightarrow>
          (let n = dr_queue d; deferred = (res = RunDeferred);
               after_summary = (if deferred then s else completeFollowupQueueSummarySources n s)
           in case dr_point d of
                AbortRun afterDebounce k dropped x \<Rightarrow>
                  if res = RunOk
                  then dropAbortedFollowups i d afterDebounce k (Suc dropped)
                         (update_queue n (\<lambda>q. q\<lparr>items := take k (items q) @ drop (Suc k) (items q)\<rparr>)
                           (completeFollowupRunLifecycle x s))
                  else wait_at i d (Throwing deferred None) s
              | ItemRunning x \<Rightarrow>
                  if res = RunOk
                  then wait_at i d AtLoop (update_queue n (\<lambda>q. q\<lparr>items := removeQueuedItemsByRef (items q) [x]\<rparr>) s)
                  else wait_at i d (Throwing deferred None) s
              | SummaryItemRunning x snap \<Rightarrow>
                  wait_at i d (if res = RunOk then SummaryItemRan x else Throwing deferred (Some snap)) after_summary
              | SummaryRunning snap \<Rightarrow>
                  wait_at i d (if res = RunOk then SummaryDone else Throwing deferred (Some snap)) after_summary
              | GroupRunning grp rest hadSummary snap \<Rightarrow>
                  wait_at i d
                    (if res = RunOk then GroupDone grp rest hadSummary snap
                     else Throwing deferred (if hadSummary then Some snap else None))
                    (if hadSummary then after_summary else s)
              | _ \<Rightarrow> s))"

section \<open>Admission\<close>

definition followup_route :: "followup_run \<Rightarrow> route_input" where
  "followup_route run =
     no_route_input\<lparr>in_channel := fu_channel run, in_to := fu_to run, in_accountId := fu_account run,
       in_threadId := fu_thread run\<rparr>"

definition followupRouteIdentityKey :: "followup_run \<Rightarrow> string" where
  "followupRouteIdentityKey run = channelRouteDedupeKey (Some (followup_route run))"

definition buildRecentMessageIdKey :: "followup_run \<Rightarrow> string \<Rightarrow> string option" where
  "buildRecentMessageIdKey run queueKey =
     (case normalizeOptionalString (fu_messageId run) of
        None \<Rightarrow> None
      | Some messageId \<Rightarrow>
          Some (json_tuple [PStr ''queue'', PStr queueKey, PStr (followupRouteIdentityKey run), PStr messageId]))"

definition isRunAlreadyQueued :: "bool \<Rightarrow> followup_run \<Rightarrow> followup_run list \<Rightarrow> bool" where
  "isRunAlreadyQueued allowPromptFallback run its =
     (let hasSameRouting = (\<lambda>i. followupRouteIdentityKey i = followupRouteIdentityKey run) in
      case normalizeOptionalString (fu_messageId run) of
        Some messageId \<Rightarrow> list_ex (\<lambda>i. normalizeOptionalString (fu_messageId i) = Some messageId \<and> hasSameRouting i) its
      | None \<Rightarrow>
          if \<not> allowPromptFallback then False
          else list_ex (\<lambda>i. fu_prompt i = fu_prompt run \<and> hasSameRouting i) its)"

definition summary_text :: "followup_run \<Rightarrow> string" where
  "summary_text i = (case normalizeOptionalString (fu_summaryLine i) of Some l \<Rightarrow> l | None \<Rightarrow> js_trim (fu_prompt i))"

text \<open>The drop policy with what the owner does to the dropped runs; the answer is whether the run may enter.\<close>

definition admit :: "nat \<Rightarrow> followup_state \<Rightarrow> bool \<times> followup_state" where
  "admit n s =
     (case applyQueueDropPolicy summary_text None (queues s n) of
        (ok, dropped, q) \<Rightarrow>
          (let s1 = update_queue n (\<lambda>_. q) s;
               s2 = (if dropPolicy q = Summarize
                     then update_queue n (\<lambda>q. q\<lparr>summarySources := summarySources q @ dropped\<rparr>) s1
                     else fold completeFollowupRunLifecycle dropped s1);
               overflow = length (summarySources (queues s2 n)) - length (summaryLines (queues s2 n));
               s3 = (if dropPolicy q = Summarize
                     then update_queue n (\<lambda>q. q\<lparr>summarySources := drop overflow (summarySources q)\<rparr>)
                            (fold completeFollowupRunLifecycle (take overflow (summarySources (queues s2 n))) s2)
                     else s2)
           in (ok, s3)))"

definition enqueueFollowupRun ::
  "string \<Rightarrow> followup_run \<Rightarrow> queue_settings \<Rightarrow> dedupe_mode \<Rightarrow> nat option \<Rightarrow> bool \<Rightarrow> int \<Rightarrow> followup_state
    \<Rightarrow> bool \<times> followup_state" where
  "enqueueFollowupRun key run settings dedupeMode runFollowup restartIfIdle now s =
     (if isFollowupRunAborted s run then (False, s)
      else
        (let (n, s1) = getFollowupQueue key settings s;
             recentKey = (if dedupeMode = NoDedupe then None else buildRecentMessageIdKey run key);
             (seen, cache) = (case recentKey of None \<Rightarrow> (False, recent_ids s1) | Some k \<Rightarrow> dedupe_peek k now (recent_ids s1));
             s2 = s1\<lparr>recent_ids := cache\<rparr>;
             dedupe = (if dedupeMode = NoDedupe then None else Some (isRunAlreadyQueued (dedupeMode = ByPrompt)))
         in if seen then (False, s2)
            else if shouldSkipQueueItem run (items (queues s2 n)) dedupe then (False, s2)
            else
              (let s3 = update_queue n (\<lambda>q. q\<lparr>lastEnqueuedAt := now, lastRun := Some (fu_run run)\<rparr>) s2
               in case admit n s3 of
                    (False, s4) \<Rightarrow> (False, s4)
                  | (True, s4) \<Rightarrow>
                      (let s5 = markFollowupRunEnqueued run (update_queue n (\<lambda>q. q\<lparr>items := items q @ [run]\<rparr>) s4);
                           s6 = (case recentKey of None \<Rightarrow> s5
                                 | Some k \<Rightarrow> s5\<lparr>recent_ids := snd (dedupe_check k now (recent_ids s5))\<rparr>);
                           s7 = (case runFollowup of None \<Rightarrow> s6 | Some cb \<Rightarrow> rememberFollowupDrainCallback key cb s6)
                       in (True, if restartIfIdle \<and> \<not> is_draining (queues s7 n) then kickFollowupDrainIfIdle key s7 else s7)))))"

definition getFollowupQueueDepth :: "string \<Rightarrow> followup_state \<Rightarrow> nat" where
  "getFollowupQueueDepth key s = (case getExistingFollowupQueue key s of None \<Rightarrow> 0 | Some n \<Rightarrow> length (items (queues s n)))"

definition resetRecentQueuedMessageIdDedupe :: "followup_state \<Rightarrow> followup_state" where
  "resetRecentQueuedMessageIdDedupe s = s\<lparr>recent_ids := dedupe_clear (recent_ids s)\<rparr>"

section \<open>The machine\<close>

definition RECENT_QUEUE_MESSAGE_IDS :: dedupe_cache where
  "RECENT_QUEUE_MESSAGE_IDS = createDedupeCache (Num (5 * 60 * 1000)) (Num 10000)"

definition initial_followups :: "(nat \<Rightarrow> agent_run) \<Rightarrow> followup_state" where
  "initial_followups runs =
     \<lparr>queues = (\<lambda>_. created_queue \<lparr>set_mode = Steer, set_debounceMs = None, set_cap = None, set_dropPolicy = None\<rparr>),
      next_queue = 0, registry = [], callbacks = [], agent_runs = runs, aborted_signals = [], enqueued_lifecycles = [],
      completed_lifecycles = [], recent_ids = RECENT_QUEUE_MESSAGE_IDS, drains = [], next_drain = 0, outputs = []\<rparr>"

datatype followup_event =
    Enqueue string followup_run queue_settings dedupe_mode "nat option" bool int
  | ScheduleDrain string nat
  | ClearQueue string
  | ForgetCallback string
  | RefreshSession string refresh_params
  | AbortSignal nat
  | ForgetMessageIds
  | Resume nat int
  | Tick nat int
  | Answered nat run_result

fun followup_step :: "(string option \<Rightarrow> bool) \<Rightarrow> followup_event \<Rightarrow> followup_state \<Rightarrow> followup_state" where
  "followup_step routable (Enqueue key run settings dd cb restart now) s =
     snd (enqueueFollowupRun key run settings dd cb restart now s)"
| "followup_step routable (ScheduleDrain key cb) s = scheduleFollowupDrain key cb s"
| "followup_step routable (ClearQueue key) s = snd (clearFollowupQueue key s)"
| "followup_step routable (ForgetCallback key) s = clearFollowupDrainCallback key s"
| "followup_step routable (RefreshSession key p) s = refreshQueuedFollowupSession key p s"
| "followup_step routable (AbortSignal a) s = s\<lparr>aborted_signals := a # aborted_signals s\<rparr>"
| "followup_step routable ForgetMessageIds s = resetRecentQueuedMessageIdDedupe s"
| "followup_step routable (Resume i now) s = resume_drain routable i now s"
| "followup_step routable (Tick i now) s = debounce_tick i now s"
| "followup_step routable (Answered i res) s = answer_drain i res s"

definition run_followups :: "(string option \<Rightarrow> bool) \<Rightarrow> (nat \<Rightarrow> agent_run) \<Rightarrow> followup_event list \<Rightarrow> followup_state" where
  "run_followups routable runs es = fold (followup_step routable) es (initial_followups runs)"

end
