(* ===== verification/FollowupQueueInv.thy ===== *)
theory FollowupQueueInv
  imports FollowupQueue
begin

text \<open>
  The bookkeeping of the follow-up queues: which queue is being drained and by whom, which queue a key means, and
  that pending work of a registered queue never sits idle while a callback for it is known.
\<close>

section \<open>Frames\<close>

lemma complete_frame [simp]:
  "queues (completeFollowupRunLifecycle x s) = queues s" "next_queue (completeFollowupRunLifecycle x s) = next_queue s"
  "registry (completeFollowupRunLifecycle x s) = registry s" "callbacks (completeFollowupRunLifecycle x s) = callbacks s"
  "agent_runs (completeFollowupRunLifecycle x s) = agent_runs s" "drains (completeFollowupRunLifecycle x s) = drains s"
  "aborted_signals (completeFollowupRunLifecycle x s) = aborted_signals s"
  "next_drain (completeFollowupRunLifecycle x s) = next_drain s" "recent_ids (completeFollowupRunLifecycle x s) = recent_ids s"
  by (simp_all add: completeFollowupRunLifecycle_def emit_out_def split: option.split)

lemma fold_complete_frame [simp]:
  "queues (fold completeFollowupRunLifecycle xs s) = queues s" "next_queue (fold completeFollowupRunLifecycle xs s) = next_queue s"
  "registry (fold completeFollowupRunLifecycle xs s) = registry s" "callbacks (fold completeFollowupRunLifecycle xs s) = callbacks s"
  "agent_runs (fold completeFollowupRunLifecycle xs s) = agent_runs s" "drains (fold completeFollowupRunLifecycle xs s) = drains s"
  "aborted_signals (fold completeFollowupRunLifecycle xs s) = aborted_signals s"
  "next_drain (fold completeFollowupRunLifecycle xs s) = next_drain s" "recent_ids (fold completeFollowupRunLifecycle xs s) = recent_ids s"
  by (induction xs arbitrary: s) simp_all

lemma mark_frame [simp]:
  "queues (markFollowupRunEnqueued x s) = queues s" "next_queue (markFollowupRunEnqueued x s) = next_queue s"
  "registry (markFollowupRunEnqueued x s) = registry s" "callbacks (markFollowupRunEnqueued x s) = callbacks s"
  "agent_runs (markFollowupRunEnqueued x s) = agent_runs s" "drains (markFollowupRunEnqueued x s) = drains s"
  "aborted_signals (markFollowupRunEnqueued x s) = aborted_signals s"
  "next_drain (markFollowupRunEnqueued x s) = next_drain s" "recent_ids (markFollowupRunEnqueued x s) = recent_ids s"
  by (simp_all add: markFollowupRunEnqueued_def emit_out_def split: option.split)

lemma update_queue_frame [simp]:
  "queues (update_queue n f s) = (queues s)(n := f (queues s n))" "next_queue (update_queue n f s) = next_queue s"
  "registry (update_queue n f s) = registry s" "callbacks (update_queue n f s) = callbacks s"
  "agent_runs (update_queue n f s) = agent_runs s" "drains (update_queue n f s) = drains s"
  "aborted_signals (update_queue n f s) = aborted_signals s"
  "next_drain (update_queue n f s) = next_drain s" "recent_ids (update_queue n f s) = recent_ids s"
  "outputs (update_queue n f s) = outputs s"
  by (simp_all add: update_queue_def)

fun is_call :: "followup_output \<Rightarrow> bool" where
  "is_call (Called i cb run members) = True"
| "is_call _ = False"

definition calls :: "followup_state \<Rightarrow> followup_output list" where
  "calls s = filter is_call (outputs s)"

lemma calls_frame [simp]:
  "calls (completeFollowupRunLifecycle x s) = calls s" "calls (markFollowupRunEnqueued x s) = calls s"
  "calls (update_queue n f s) = calls s" "calls (s\<lparr>recent_ids := c\<rparr>) = calls s"
  by (simp_all add: calls_def completeFollowupRunLifecycle_def markFollowupRunEnqueued_def emit_out_def split: option.split)

lemma calls_fold [simp]: "calls (fold completeFollowupRunLifecycle xs s) = calls s"
  by (induction xs arbitrary: s) simp_all

text \<open>A change of the contents of one queue and of lifecycles only.\<close>

definition tweak :: "nat \<Rightarrow> followup_state \<Rightarrow> followup_state \<Rightarrow> bool" where
  "tweak n s s' \<longleftrightarrow>
     drains s' = drains s \<and> registry s' = registry s \<and> callbacks s' = callbacks s \<and> next_queue s' = next_queue s
     \<and> next_drain s' = next_drain s \<and> agent_runs s' = agent_runs s \<and> aborted_signals s' = aborted_signals s
     \<and> calls s' = calls s \<and> (\<forall>m. m \<noteq> n \<longrightarrow> queues s' m = queues s m)
     \<and> is_draining (queues s' n) = is_draining (queues s n) \<and> cap (queues s' n) = cap (queues s n)"

lemma tweak_refl [simp]: "tweak n s s"
  by (simp add: tweak_def)

lemma tweak_trans: "tweak n s s1 \<Longrightarrow> tweak n s1 s2 \<Longrightarrow> tweak n s s2"
  by (simp add: tweak_def)

lemma tweak_update:
  "is_draining (f (queues s n)) = is_draining (queues s n) \<Longrightarrow> cap (f (queues s n)) = cap (queues s n)
   \<Longrightarrow> tweak n s (update_queue n f s)"
  by (simp add: tweak_def)

lemma tweak_complete [simp]: "tweak n s (completeFollowupRunLifecycle x s)" "tweak n s (fold completeFollowupRunLifecycle xs s)"
  by (simp_all add: tweak_def)

lemma tweak_sources: "tweak n s (completeFollowupQueueSummarySources n s)"
  unfolding completeFollowupQueueSummarySources_def
  by (rule tweak_trans [OF tweak_complete(2)]) (rule tweak_update, simp_all)

lemma tweak_clear: "tweak n s (clearFollowupQueueSummaryState n s)"
  unfolding clearFollowupQueueSummaryState_def
  by (rule tweak_trans [OF tweak_sources]) (rule tweak_update, simp_all add: clearQueueSummaryState_def)

lemma restore_fields [simp]:
  "is_draining (restore_summary snap q) = is_draining q" "cap (restore_summary snap q) = cap q"
  "items (restore_summary snap q) = items q" "mode (restore_summary snap q) = mode q"
  by (simp_all add: restore_summary_def Let_def)

text \<open>A drain that has come to its next \<^verbatim>\<open>await\<close>.\<close>

definition moves :: "nat \<Rightarrow> drain \<Rightarrow> followup_state \<Rightarrow> followup_state \<Rightarrow> bool" where
  "moves i d s s' \<longleftrightarrow>
     (\<exists>f p. drains s' = js_set i (d\<lparr>dr_force := f, dr_point := p\<rparr>) (drains s))
     \<and> queues s' = queues s \<and> registry s' = registry s \<and> callbacks s' = callbacks s \<and> next_queue s' = next_queue s
     \<and> next_drain s' = next_drain s \<and> agent_runs s' = agent_runs s \<and> aborted_signals s' = aborted_signals s"

lemma drain_same_force: "d\<lparr>dr_point := p\<rparr> = d\<lparr>dr_force := dr_force d, dr_point := p\<rparr>"
  by simp

lemma moves_wait [simp]: "moves i d s (wait_at i d p s)"
  unfolding moves_def wait_at_def by simp (metis drain_same_force)

lemma moves_call [simp]: "moves i d s (call_and_wait i d p run ms s)"
  unfolding moves_def call_and_wait_def wait_at_def emit_out_def by simp (metis drain_same_force)

lemma moves_forced [simp]:
  "moves i d s (wait_at i (d\<lparr>dr_force := f\<rparr>) p s)" "moves i d s (call_and_wait i (d\<lparr>dr_force := f\<rparr>) p run ms s)"
  unfolding moves_def call_and_wait_def wait_at_def emit_out_def by (simp_all, metis+)

lemma moves_scan [simp]: "moves i d s (dropAbortedFollowups i d b n k s)"
  by (simp add: dropAbortedFollowups_def split: scan_result.split)

lemma moves_enter [simp]: "moves i d s (enter_loop i d s)"
  by (simp add: enter_loop_def)

lemma moves_group [simp]: "moves i d s (run_group i d now grp rest ps snap s)"
  by (simp add: run_group_def Let_def)

section \<open>Bookkeeping\<close>

text \<open>Over the drains, the registry, the next numbers and the draining flags.\<close>

definition bookkept :: "(nat \<rightharpoonup> drain) \<Rightarrow> (string \<rightharpoonup> nat) \<Rightarrow> nat \<Rightarrow> nat \<Rightarrow> (nat \<Rightarrow> bool) \<Rightarrow> bool" where
  "bookkept D R nq nd I \<longleftrightarrow>
     (\<forall>i d. D i = Some d \<longrightarrow> i < nd \<and> dr_queue d < nq \<and> I (dr_queue d))
     \<and> (\<forall>i d j e. D i = Some d \<longrightarrow> D j = Some e \<longrightarrow> dr_queue d = dr_queue e \<longrightarrow> i = j)
     \<and> (\<forall>n. I n \<longrightarrow> (\<exists>i d. D i = Some d \<and> dr_queue d = n))
     \<and> (\<forall>k n. R k = Some n \<longrightarrow> n < nq)
     \<and> (\<forall>k k' n. R k = Some n \<longrightarrow> R k' = Some n \<longrightarrow> k = k')
     \<and> (\<forall>k n i d. R k = Some n \<longrightarrow> D i = Some d \<longrightarrow> dr_queue d = n \<longrightarrow> dr_key d = k)"

lemma bookkeptI:
  assumes "\<And>i d. D i = Some d \<Longrightarrow> i < nd \<and> dr_queue d < nq \<and> I (dr_queue d)"
    and "\<And>i d j e. D i = Some d \<Longrightarrow> D j = Some e \<Longrightarrow> dr_queue d = dr_queue e \<Longrightarrow> i = j"
    and "\<And>n. I n \<Longrightarrow> \<exists>i d. D i = Some d \<and> dr_queue d = n"
    and "\<And>k n. R k = Some n \<Longrightarrow> n < nq"
    and "\<And>k k' n. R k = Some n \<Longrightarrow> R k' = Some n \<Longrightarrow> k = k'"
    and "\<And>k n i d. R k = Some n \<Longrightarrow> D i = Some d \<Longrightarrow> dr_queue d = n \<Longrightarrow> dr_key d = k"
  shows "bookkept D R nq nd I"
  using assms unfolding bookkept_def by blast

lemma bookkeptD:
  assumes "bookkept D R nq nd I"
  shows "D i = Some d \<Longrightarrow> i < nd \<and> dr_queue d < nq \<and> I (dr_queue d)"
    "D i = Some d \<Longrightarrow> D j = Some e \<Longrightarrow> dr_queue d = dr_queue e \<Longrightarrow> i = j"
    "I n \<Longrightarrow> \<exists>i d. D i = Some d \<and> dr_queue d = n"
    "R k = Some n \<Longrightarrow> n < nq"
    "R k = Some n \<Longrightarrow> R k' = Some n \<Longrightarrow> k = k'"
    "R k = Some n \<Longrightarrow> D i = Some d \<Longrightarrow> dr_queue d = n \<Longrightarrow> dr_key d = k"
  using assms unfolding bookkept_def by blast+

lemma bookkept_move:
  assumes book: "bookkept D R nq nd I" and d: "D i = Some d" and same: "dr_queue d' = dr_queue d" "dr_key d' = dr_key d"
  shows "bookkept (D(i \<mapsto> d')) R nq nd I"
proof -
  have get: "\<exists>d0. D j = Some d0 \<and> dr_queue d0 = dr_queue e \<and> dr_key d0 = dr_key e" if "(D(i \<mapsto> d')) j = Some e" for j e
    using that d same by (cases "j = i") auto
  show ?thesis
  proof (rule bookkeptI)
    fix j e assume "(D(i \<mapsto> d')) j = Some e"
    from get [OF this] show "j < nd \<and> dr_queue e < nq \<and> I (dr_queue e)" using bookkeptD(1) [OF book] by metis
  next
    fix j e k f assume "(D(i \<mapsto> d')) j = Some e" "(D(i \<mapsto> d')) k = Some f" "dr_queue e = dr_queue f"
    with get [of j e] get [of k f] show "j = k" using bookkeptD(2) [OF book] by metis
  next
    fix n assume "I n"
    from bookkeptD(3) [OF book this] obtain j e where "D j = Some e" "dr_queue e = n" by blast
    with d same show "\<exists>j e. (D(i \<mapsto> d')) j = Some e \<and> dr_queue e = n"
      by (intro exI [of _ j] exI [of _ "if j = i then d' else e"]) auto
  next
    fix k n j e assume "R k = Some n" "(D(i \<mapsto> d')) j = Some e" "dr_queue e = n"
    with get [of j e] show "dr_key e = k" using bookkeptD(6) [OF book] by metis
  qed (rule bookkeptD(4,5) [OF book]; assumption)+
qed

lemma bookkept_begin:
  assumes book: "bookkept D R nq nd I" and n: "R k = Some n" "\<not> I n" "dr_queue d = n" "dr_key d = k"
  shows "bookkept (D(nd \<mapsto> d)) R nq (Suc nd) (I(n := True))"
proof -
  have old: "j < nd" "dr_queue e \<noteq> n" if "D j = Some e" for j e
    using bookkeptD(1) [OF book that] n(2) by blast+
  have get: "j = nd \<and> e = d \<or> D j = Some e \<and> j \<noteq> nd" if "(D(nd \<mapsto> d)) j = Some e" for j e
    using that by (cases "j = nd") auto
  have fresh: "D nd = None" using old(1) [of nd] by (cases "D nd") auto
  show ?thesis
  proof (rule bookkeptI)
    fix j e assume "(D(nd \<mapsto> d)) j = Some e"
    from get [OF this] show "j < Suc nd \<and> dr_queue e < nq \<and> (I(n := True)) (dr_queue e)"
      using bookkeptD(1) [OF book, of j e] bookkeptD(4) [OF book n(1)] n by auto
  next
    fix j e j' e' assume "(D(nd \<mapsto> d)) j = Some e" "(D(nd \<mapsto> d)) j' = Some e'" "dr_queue e = dr_queue e'"
    with get [of j e] get [of j' e'] old(2) [of j e] old(2) [of j' e'] n(3) bookkeptD(2) [OF book, of j e j' e'] show "j = j'" by auto
  next
    fix m assume m: "(I(n := True)) m"
    show "\<exists>j e. (D(nd \<mapsto> d)) j = Some e \<and> dr_queue e = m"
    proof (cases "m = n")
      case False
      with m bookkeptD(3) [OF book, of m] obtain j e where "D j = Some e" "dr_queue e = m" by auto
      with fresh show ?thesis by (intro exI [of _ j] exI [of _ e]) auto
    qed (use n(3) in auto)
  next
    fix k' m j e assume R: "R k' = Some m" and "(D(nd \<mapsto> d)) j = Some e" "dr_queue e = m"
    with get [of j e] bookkeptD(6) [OF book R, of j e] bookkeptD(5) [OF book n(1), of k'] n show "dr_key e = k'" by auto
  qed (rule bookkeptD(4,5) [OF book]; assumption)+
qed

lemma bookkept_end:
  assumes book: "bookkept D R nq nd I" and d: "D i = Some d"
  shows "bookkept (D(i := None)) R nq nd (I(dr_queue d := False))"
proof -
  have get: "D j = Some e \<and> dr_queue e \<noteq> dr_queue d" if "(D(i := None)) j = Some e" for j e
    using that bookkeptD(2) [OF book _ d, of j e] by (auto split: if_splits)
  show ?thesis
  proof (rule bookkeptI)
    fix j e assume "(D(i := None)) j = Some e"
    from get [OF this] show "j < nd \<and> dr_queue e < nq \<and> (I(dr_queue d := False)) (dr_queue e)"
      using bookkeptD(1) [OF book, of j e] by simp
  next
    fix j e j' e' assume "(D(i := None)) j = Some e" "(D(i := None)) j' = Some e'" "dr_queue e = dr_queue e'"
    with get [of j e] get [of j' e'] bookkeptD(2) [OF book, of j e j' e'] show "j = j'" by blast
  next
    fix m assume m: "(I(dr_queue d := False)) m"
    then have "m \<noteq> dr_queue d" "I m" by (auto split: if_splits)
    with bookkeptD(3) [OF book, of m] obtain j e where "D j = Some e" "dr_queue e = m" by blast
    with d \<open>m \<noteq> dr_queue d\<close> show "\<exists>j e. (D(i := None)) j = Some e \<and> dr_queue e = m"
      by (intro exI [of _ j] exI [of _ e]) auto
  next
    fix k m j e assume R: "R k = Some m" and "(D(i := None)) j = Some e" "dr_queue e = m"
    with get [of j e] bookkeptD(6) [OF book R, of j e] show "dr_key e = k" by blast
  qed (rule bookkeptD(4,5) [OF book]; assumption)+
qed

lemma bookkept_unregister:
  assumes book: "bookkept D R nq nd I"
  shows "bookkept D (R(k := None)) nq nd I"
proof (rule bookkeptI)
  show "m < nq" if "(R(k := None)) k' = Some m" for k' m using that bookkeptD(4) [OF book, of k' m] by (auto split: if_splits)
  show "k' = k''" if "(R(k := None)) k' = Some m" "(R(k := None)) k'' = Some m" for k' k'' m
    using that bookkeptD(5) [OF book, of k' m k''] by (auto split: if_splits)
  show "dr_key e = k'" if "(R(k := None)) k' = Some m" "D j = Some e" "dr_queue e = m" for k' m j e
    using that bookkeptD(6) [OF book, of k' m j e] by (auto split: if_splits)
qed (rule bookkeptD(1,2,3) [OF book]; assumption)+

lemma bookkept_Suc: "bookkept D R nq nd I \<Longrightarrow> bookkept D R nq (Suc nd) I"
  unfolding bookkept_def by (simp add: less_Suc_eq)

lemma bookkept_create:
  assumes book: "bookkept D R nq nd I"
  shows "bookkept D (R(k \<mapsto> nq)) (Suc nq) nd I"
proof -
  have reg: "R k' = Some m" "m \<noteq> nq" if "(R(k \<mapsto> nq)) k' = Some m" "k' \<noteq> k" for k' m
    using that bookkeptD(4) [OF book, of k' m] by auto
  show ?thesis
  proof (rule bookkeptI)
    fix i d assume "D i = Some d"
    from bookkeptD(1) [OF book this] show "i < nd \<and> dr_queue d < Suc nq \<and> I (dr_queue d)" by simp
  next
    fix k' m assume "(R(k \<mapsto> nq)) k' = Some m"
    then show "m < Suc nq" using bookkeptD(4) [OF book, of k' m] by (cases "k' = k") auto
  next
    fix k' k'' m assume "(R(k \<mapsto> nq)) k' = Some m" "(R(k \<mapsto> nq)) k'' = Some m"
    then show "k' = k''" using reg [of k' m] reg [of k'' m] bookkeptD(5) [OF book, of k' m k'']
      by (cases "k' = k"; cases "k'' = k") auto
  next
    fix k' m j e assume R: "(R(k \<mapsto> nq)) k' = Some m" and e: "D j = Some e" "dr_queue e = m"
    from bookkeptD(1) [OF book e(1)] e(2) have "m \<noteq> nq" by auto
    with R have "R k' = Some m" by (auto split: if_splits)
    from bookkeptD(6) [OF book this e] show "dr_key e = k'" .
  qed (rule bookkeptD(2,3) [OF book]; assumption)+
qed

lemma bookkept_fresh:
  assumes "bookkept D R nq nd I"
  shows "\<not> I nq"
proof
  assume "I nq"
  from bookkeptD(3) [OF assms this] obtain i d where "D i = Some d" "dr_queue d = nq" by blast
  with bookkeptD(1) [OF assms, of i d] show False by simp
qed

section \<open>The invariant\<close>

definition drain_base :: "followup_state \<Rightarrow> bool" where
  "drain_base s \<longleftrightarrow>
     bookkept (js_get (drains s)) (js_get (registry s)) (next_queue s) (next_drain s) (\<lambda>n. is_draining (queues s n))
     \<and> (\<forall>n. whole_cap (cap (queues s n)))"

text \<open>But for the keys in \<open>K\<close>, pending work of a registered queue that is not drained has no callback to drain it with.\<close>

definition stranded_within :: "string set \<Rightarrow> followup_state \<Rightarrow> bool" where
  "stranded_within K s \<longleftrightarrow>
     (\<forall>k n. js_get (registry s) k = Some n \<longrightarrow> pending_work (queues s n) \<longrightarrow> k \<notin> K \<longrightarrow> is_draining (queues s n)
        \<or> js_get (callbacks s) k = None)"

lemma stranded_mono: "stranded_within K s \<Longrightarrow> K \<subseteq> K' \<Longrightarrow> stranded_within K' s"
  unfolding stranded_within_def by (meson subsetD)

lemma flags_update: "(\<lambda>m. is_draining ((qs(n := q)) m)) = (\<lambda>m. is_draining (qs m))(n := is_draining q)"
  by (rule ext) simp

lemma flags_same: "is_draining q = is_draining (qs n) \<Longrightarrow> (\<lambda>m. is_draining ((qs(n := q)) m)) = (\<lambda>m. is_draining (qs m))"
  by (rule ext) simp

lemma drain_baseI:
  assumes "bookkept D R (next_queue s) (next_drain s) I" "\<And>i. js_get (drains s) i = D i" "\<And>k. js_get (registry s) k = R k"
    "\<And>n. is_draining (queues s n) = I n" "\<And>n. whole_cap (cap (queues s n))"
  shows "drain_base s"
proof -
  have "(\<lambda>n. is_draining (queues s n)) = I" "js_get (drains s) = D" "js_get (registry s) = R" using assms(2-4) by auto
  with assms(1,5) show ?thesis unfolding drain_base_def by metis
qed

lemma drain_baseD:
  assumes "drain_base s"
  shows "bookkept (js_get (drains s)) (js_get (registry s)) (next_queue s) (next_drain s) (\<lambda>n. is_draining (queues s n))"
    "whole_cap (cap (queues s n))"
  using assms by (simp_all add: drain_base_def)

lemma tweak_flags: "tweak n s s' \<Longrightarrow> (\<lambda>m. is_draining (queues s' m)) = (\<lambda>m. is_draining (queues s m))"
  unfolding tweak_def by (rule ext) metis

lemma tweak_base:
  assumes "tweak n s s'"
  shows "drain_base s' = drain_base s"
proof -
  have "cap (queues s' m) = cap (queues s m)" for m using assms unfolding tweak_def by metis
  then show ?thesis using tweak_flags [OF assms] assms unfolding drain_base_def tweak_def by simp
qed

text \<open>A queue that is being drained may change freely.\<close>

lemma tweak_stranded:
  assumes t: "tweak n s s'" and n: "is_draining (queues s n)" and ok: "stranded_within K s"
  shows "stranded_within K s'"
  unfolding stranded_within_def
proof (intro allI impI)
  fix k m assume m: "js_get (registry s') k = Some m" "pending_work (queues s' m)" "k \<notin> K"
  show "is_draining (queues s' m) \<or> js_get (callbacks s') k = None"
  proof (cases "m = n")
    case False
    then have "queues s' m = queues s m" using t by (simp add: tweak_def)
    with m ok t show ?thesis by (simp add: stranded_within_def tweak_def)
  qed (use t n in \<open>simp add: tweak_def\<close>)
qed

lemma moves_base:
  assumes m: "moves i d s s'" and d: "js_get (drains s) i = Some d0" "dr_queue d = dr_queue d0" "dr_key d = dr_key d0"
    and base: "drain_base s"
  shows "drain_base s'"
proof -
  from m obtain f p where eq: "drains s' = js_set i (d\<lparr>dr_force := f, dr_point := p\<rparr>) (drains s)" by (auto simp: moves_def)
  have "bookkept ((js_get (drains s))(i \<mapsto> d\<lparr>dr_force := f, dr_point := p\<rparr>)) (js_get (registry s)) (next_queue s) (next_drain s)
      (\<lambda>n. is_draining (queues s n))"
    using base d by (intro bookkept_move [of _ _ _ _ _ i d0]) (simp_all add: drain_base_def)
  moreover have "js_get (drains s') = (js_get (drains s))(i \<mapsto> d\<lparr>dr_force := f, dr_point := p\<rparr>)"
    unfolding eq by (rule update_conv')
  moreover have "queues s' = queues s" "registry s' = registry s" "next_queue s' = next_queue s" "next_drain s' = next_drain s"
    using m by (simp_all add: moves_def)
  ultimately show ?thesis using base unfolding drain_base_def by simp
qed

lemma moves_stranded: "moves i d s s' \<Longrightarrow> stranded_within K s \<Longrightarrow> stranded_within K s'"
  by (simp add: moves_def stranded_within_def)

subsection \<open>The start and the end of a drain\<close>

lemma schedule_cases:
  obtains (idle) "scheduleFollowupDrain key cb s = s"
      "\<And>n. js_get (registry s) key = Some n \<Longrightarrow> is_draining (queues s n)"
    | (started) n c d where "js_get (registry s) key = Some n" "\<not> is_draining (queues s n)" "pending_work (queues s n)"
        "dr_queue d = n" "dr_key d = key"
        "scheduleFollowupDrain key cb s
           = enter_loop (next_drain s) d (s\<lparr>queues := (queues s)(n := (queues s n)\<lparr>is_draining := True\<rparr>),
               callbacks := js_set key c (callbacks s), next_drain := Suc (next_drain s)\<rparr>)"
    | (retired) n c where "js_get (registry s) key = Some n" "\<not> is_draining (queues s n)" "\<not> pending_work (queues s n)"
        "scheduleFollowupDrain key cb s
           = s\<lparr>queues := (queues s)(n := (queues s n)\<lparr>is_draining := False\<rparr>), next_drain := Suc (next_drain s),
               registry := js_delete key (registry s), callbacks := js_delete key (js_set key c (callbacks s))\<rparr>"
proof (cases "beginQueueDrain key s")
  case None
  then have "\<And>n. js_get (registry s) key = Some n \<Longrightarrow> is_draining (queues s n)"
    by (auto simp: beginQueueDrain_def split: option.splits if_splits)
  with None idle show thesis by (simp add: scheduleFollowupDrain_def)
next
  case (Some r)
  then obtain n where n: "js_get (registry s) key = Some n" "\<not> is_draining (queues s n)"
    "r = (n, update_queue n (\<lambda>q. q\<lparr>is_draining := True\<rparr>) s)"
    by (auto simp: beginQueueDrain_def split: option.splits if_splits)
  let ?c = "or_default (js_get (callbacks s) key) cb"
  have same: "pending_work ((queues s n)\<lparr>is_draining := True\<rparr>) = pending_work (queues s n)" by (simp add: pending_work_def)
  show thesis
  proof (cases "pending_work (queues s n)")
    case True
    with Some n same started [OF n(1,2) True, of "\<lparr>dr_queue = n, dr_key = key, dr_callback = ?c, dr_force = False, dr_point = AtLoop\<rparr>" ?c]
    show thesis by (simp add: scheduleFollowupDrain_def rememberFollowupDrainCallback_def Let_def update_queue_def)
  next
    case False
    with Some n same retired [OF n(1,2) False, of ?c] show thesis
      by (simp add: scheduleFollowupDrain_def rememberFollowupDrainCallback_def Let_def update_queue_def retire_queue_def
          clearFollowupDrainCallback_def)
  qed
qed

lemma schedule_base:
  assumes base: "drain_base s"
  shows "drain_base (scheduleFollowupDrain key cb s)"
proof (cases rule: schedule_cases [of key cb s])
  case (started n c d)
  let ?s = "s\<lparr>queues := (queues s)(n := (queues s n)\<lparr>is_draining := True\<rparr>),
    callbacks := js_set key c (callbacks s), next_drain := Suc (next_drain s)\<rparr>"
  have "moves (next_drain s) d ?s (enter_loop (next_drain s) d ?s)" by simp
  then obtain f p where m: "drains (enter_loop (next_drain s) d ?s) = js_set (next_drain s) (d\<lparr>dr_force := f, dr_point := p\<rparr>) (drains s)"
    "queues (enter_loop (next_drain s) d ?s) = queues ?s" "registry (enter_loop (next_drain s) d ?s) = registry s"
    "next_queue (enter_loop (next_drain s) d ?s) = next_queue s" "next_drain (enter_loop (next_drain s) d ?s) = Suc (next_drain s)"
    by (auto simp: moves_def)
  have "bookkept ((js_get (drains s))(next_drain s \<mapsto> d\<lparr>dr_force := f, dr_point := p\<rparr>)) (js_get (registry s)) (next_queue s)
      (Suc (next_drain s)) ((\<lambda>m. is_draining (queues s m))(n := True))"
    using base started by (intro bookkept_begin) (simp_all add: drain_base_def)
  moreover have "js_get (drains (enter_loop (next_drain s) d ?s))
      = (js_get (drains s))(next_drain s \<mapsto> d\<lparr>dr_force := f, dr_point := p\<rparr>)"
    unfolding m(1) by (rule update_conv')
  moreover have "(\<lambda>m. is_draining (queues (enter_loop (next_drain s) d ?s) m)) = (\<lambda>m. is_draining (queues s m))(n := True)"
    unfolding m(2) by (rule ext) simp
  moreover have "\<forall>m. whole_cap (cap (queues (enter_loop (next_drain s) d ?s) m))"
    unfolding m(2) using base by (simp add: drain_base_def)
  ultimately show ?thesis unfolding started(6) drain_base_def m(3-) by simp
next
  case (retired n c)
  show ?thesis unfolding retired(4)
  proof (rule drain_baseI)
    show "bookkept (js_get (drains s)) ((js_get (registry s))(key := None))
        (next_queue (s\<lparr>queues := (queues s)(n := queues s n\<lparr>is_draining := False\<rparr>), next_drain := Suc (next_drain s),
           registry := js_delete key (registry s), callbacks := js_delete key (js_set key c (callbacks s))\<rparr>))
        (next_drain (s\<lparr>queues := (queues s)(n := queues s n\<lparr>is_draining := False\<rparr>), next_drain := Suc (next_drain s),
           registry := js_delete key (registry s), callbacks := js_delete key (js_set key c (callbacks s))\<rparr>))
        (\<lambda>n. is_draining (queues s n))"
      using bookkept_Suc [OF bookkept_unregister [OF drain_baseD(1) [OF base]]] by simp
  qed (use drain_baseD(2) [OF base] retired(2) in simp_all)
qed (use base in simp)

lemma schedule_stranded:
  assumes ok: "stranded_within (insert key K) s"
  shows "stranded_within K (scheduleFollowupDrain key cb s)"
proof (cases rule: schedule_cases [of key cb s])
  case idle
  then show ?thesis using ok unfolding stranded_within_def by (metis insert_iff)
next
  case (started n c d)
  let ?s = "s\<lparr>queues := (queues s)(n := (queues s n)\<lparr>is_draining := True\<rparr>),
    callbacks := js_set key c (callbacks s), next_drain := Suc (next_drain s)\<rparr>"
  have "is_draining (queues ?s m) \<or> js_get (callbacks ?s) k = None"
    if "js_get (registry ?s) k = Some m" "pending_work (queues ?s m)" "k \<notin> K" for k m
  proof (cases "m = n")
    case False
    then have "k \<noteq> key" using that(1) started(1) by auto
    with False that ok show ?thesis by (simp add: stranded_within_def)
  qed simp
  then have "stranded_within K ?s" unfolding stranded_within_def by blast
  then show ?thesis unfolding started(6) by (rule moves_stranded [OF moves_enter])
next
  case (retired n c)
  have "pending_work ((queues s n)\<lparr>is_draining := False\<rparr>) = pending_work (queues s n)" by (simp add: pending_work_def)
  with ok retired show ?thesis by (auto simp: stranded_within_def)
qed

lemma retire_base: "drain_base s \<Longrightarrow> drain_base (retire_queue key n s)"
proof -
  assume base: "drain_base s"
  show ?thesis
  proof (cases "js_get (registry s) key = Some n")
    case True
    show ?thesis
      by (rule drain_baseI [where R = "(js_get (registry s))(key := None)"
            and D = "js_get (drains s)" and I = "\<lambda>n. is_draining (queues s n)"])
        (use True drain_baseD(2) [OF base] bookkept_unregister [OF drain_baseD(1) [OF base]] in
          \<open>simp_all add: retire_queue_def clearFollowupDrainCallback_def\<close>)
  qed (use base in \<open>simp add: retire_queue_def\<close>)
qed

lemma retire_stranded: "stranded_within K s \<Longrightarrow> stranded_within K (retire_queue key n s)"
  by (auto simp: retire_queue_def clearFollowupDrainCallback_def stranded_within_def)

lemma finish_base:
  assumes base: "drain_base s" and d: "js_get (drains s) i = Some d0" "dr_queue d = dr_queue d0"
  shows "drain_base (finish_drain i d s)"
proof -
  let ?s = "update_queue (dr_queue d) (\<lambda>q. q\<lparr>is_draining := False\<rparr>) (s\<lparr>drains := js_delete i (drains s)\<rparr>)"
  have "drain_base ?s"
    by (rule drain_baseI [where D = "(js_get (drains s))(i := None)" and R = "js_get (registry s)"
          and I = "(\<lambda>n. is_draining (queues s n))(dr_queue d0 := False)"])
      (use d drain_baseD(2) [OF base] bookkept_end [OF drain_baseD(1) [OF base] d(1)] in simp_all)
  then show ?thesis by (simp add: finish_drain_def Let_def schedule_base retire_base)
qed

lemma finish_stranded:
  assumes ok: "stranded_within K s" and base: "drain_base s"
    and d: "js_get (drains s) i = Some d0" "dr_queue d = dr_queue d0" "dr_key d = dr_key d0"
  shows "stranded_within K (finish_drain i d s)"
proof -
  let ?n = "dr_queue d"
  let ?s = "update_queue ?n (\<lambda>q. q\<lparr>is_draining := False\<rparr>) (s\<lparr>drains := js_delete i (drains s)\<rparr>)"
  have same: "pending_work (queues ?s m) = pending_work (queues s m)" for m by (simp add: pending_work_def)
  have key: "k = dr_key d" if "js_get (registry s) k = Some ?n" for k
    using bookkeptD(6) [OF drain_baseD(1) [OF base] that d(1)] d by simp
  show ?thesis
  proof (cases "pending_work (queues ?s ?n)")
    case True
    have "stranded_within (insert (dr_key d) K) ?s"
      unfolding stranded_within_def
    proof (intro allI impI)
      fix k m assume m: "js_get (registry ?s) k = Some m" "pending_work (queues ?s m)" "k \<notin> insert (dr_key d) K"
      then have "m \<noteq> ?n" using key by auto
      with m ok same show "is_draining (queues ?s m) \<or> js_get (callbacks ?s) k = None"
        unfolding stranded_within_def by simp
    qed
    with True show ?thesis by (simp add: finish_drain_def Let_def schedule_stranded)
  next
    case False
    have "stranded_within K ?s"
      unfolding stranded_within_def
    proof (intro allI impI)
      fix k m assume m: "js_get (registry ?s) k = Some m" "pending_work (queues ?s m)" "k \<notin> K"
      with False have "m \<noteq> ?n" by auto
      with m ok same show "is_draining (queues ?s m) \<or> js_get (callbacks ?s) k = None"
        unfolding stranded_within_def by simp
    qed
    with False show ?thesis by (simp add: finish_drain_def Let_def retire_stranded)
  qed
qed

subsection \<open>Advancing a drain\<close>

definition advances :: "nat \<Rightarrow> drain \<Rightarrow> followup_state \<Rightarrow> followup_state \<Rightarrow> bool" where
  "advances i d s s' \<longleftrightarrow> (\<exists>s1. tweak (dr_queue d) s s1 \<and> (moves i d s1 s' \<or> s' = finish_drain i d s1))"

lemma advances_move: "moves i d s1 s' \<Longrightarrow> tweak (dr_queue d) s s1 \<Longrightarrow> advances i d s s'"
  unfolding advances_def by blast

lemma advances_move0 [intro]: "moves i d s s' \<Longrightarrow> advances i d s s'"
  by (rule advances_move [where ?s1.0 = s]) simp_all

lemma advances_finish [intro]: "tweak (dr_queue d) s s1 \<Longrightarrow> advances i d s (finish_drain i d s1)"
  unfolding advances_def by blast

lemma advances_finish0 [intro, simp]: "advances i d s (finish_drain i d s)"
  by (rule advances_finish) simp

lemma advances_tweak: "tweak (dr_queue d) s s1 \<Longrightarrow> advances i d s1 s' \<Longrightarrow> advances i d s s'"
  unfolding advances_def by (blast intro: tweak_trans)

lemma advances_loop [simp]: "advances i d s (loop_head i d s)"
  by (auto simp: loop_head_def)

lemma advances_summary [simp]: "advances i d s (run_summary_only i d now b s)"
  by (auto simp: run_summary_only_def Let_def split: option.split prod.split)

lemma advances_batch [simp]: "advances i d s (run_batch i d now s)"
  by (auto simp: run_batch_def Let_def split: list.split)

lemma advances_collect [simp]: "advances i d s (collect_pass routable i d s)"
  by (auto simp: collect_pass_def Let_def split: prod.split collect_step.split)

lemma advances_single [simp]: "advances i d s (single_pass i d now s)"
  by (auto simp: single_pass_def Let_def split: option.split prod.split list.split)

lemma advances_aborts [simp]: "advances i d s (after_aborts routable i d now b k s)"
proof -
  let ?s = "if k > 0 \<and> items (queues s (dr_queue d)) = [] then clearFollowupQueueSummaryState (dr_queue d) s else s"
  have "tweak (dr_queue d) s ?s" by (simp add: tweak_clear)
  moreover have "advances i d ?s (after_aborts routable i d now b k s)"
    by (auto simp: after_aborts_def Let_def)
  ultimately show ?thesis by (rule advances_tweak)
qed

lemma tweak_items [simp]: "tweak n s (update_queue n (\<lambda>q. q\<lparr>items := f q\<rparr>) s)"
  by (rule tweak_update) simp_all

lemma advances_after_group [simp]: "advances i d s (after_group i d now grp rest b snap s)"
proof -
  let ?s1 = "update_queue (dr_queue d) (\<lambda>q. q\<lparr>items := removeQueuedItemsByRef (items q) grp\<rparr>) s"
  let ?s2 = "if b then clearFollowupQueueSummaryState (dr_queue d) ?s1 else ?s1"
  have "tweak (dr_queue d) s ?s2" using tweak_trans [OF tweak_items tweak_clear] by simp
  moreover have "advances i d ?s2 (after_group i d now grp rest b snap s)"
    unfolding after_group_def Let_def by (cases rest) (auto intro: advances_move0)
  ultimately show ?thesis by (rule advances_tweak)
qed

lemma resume_cases:
  assumes "js_get (drains s) i = Some d"
  shows "resume_drain routable i now s = s \<or> advances i d s (resume_drain routable i now s)"
proof (cases "dr_point d")
  case (SummaryItemRan x)
  with assms show ?thesis by (simp add: resume_drain_def advances_move [OF moves_wait tweak_items])
next
  case SummaryDone
  with assms show ?thesis by (simp add: resume_drain_def advances_tweak [OF tweak_clear])
next
  case (Throwing deferred snap)
  have "tweak (dr_queue d) s (update_queue (dr_queue d) (restore_summary sn) s)" for sn by (rule tweak_update) simp_all
  moreover have "tweak (dr_queue d) s (update_queue (dr_queue d) (\<lambda>q. q\<lparr>lastEnqueuedAt := now\<rparr>) s)" by (rule tweak_update) simp_all
  ultimately show ?thesis using assms Throwing
    by (cases snap; cases deferred)
      (simp_all add: resume_drain_def advances_move [OF moves_wait] advances_finish advances_move0)
qed (use assms in \<open>auto simp: resume_drain_def\<close>)

lemma answer_cases:
  assumes "js_get (drains s) i = Some d"
  shows "answer_drain i res s = s \<or> advances i d s (answer_drain i res s)"
proof -
  let ?s = "if res = RunDeferred then s else completeFollowupQueueSummarySources (dr_queue d) s"
  have t: "tweak (dr_queue d) s ?s" by (simp add: tweak_sources)
  show ?thesis
  proof (cases "dr_point d")
    case (AbortRun b k n x)
    let ?s1 = "update_queue (dr_queue d) (\<lambda>q. q\<lparr>items := take k (items q) @ drop (Suc k) (items q)\<rparr>) (completeFollowupRunLifecycle x s)"
    have "tweak (dr_queue d) s ?s1" by (rule tweak_trans [OF tweak_complete(1) tweak_items])
    then show ?thesis using assms AbortRun
      by (simp add: answer_drain_def Let_def advances_move [OF moves_scan] advances_move0)
  next
    case (ItemRunning x)
    with assms show ?thesis by (simp add: answer_drain_def Let_def advances_move [OF moves_wait tweak_items] advances_move0)
  next
    case (SummaryItemRunning x snap)
    with assms show ?thesis by (simp add: answer_drain_def Let_def advances_move [OF moves_wait t] del: if_split)
  next
    case (SummaryRunning snap)
    with assms show ?thesis by (simp add: answer_drain_def Let_def advances_move [OF moves_wait t] del: if_split)
  next
    case (GroupRunning grp rest b snap)
    have "tweak (dr_queue d) s (if b then ?s else s)" using t by simp
    from advances_move [OF moves_wait this] GroupRunning assms show ?thesis
      by (simp add: answer_drain_def Let_def del: if_split)
  qed (use assms in \<open>auto simp: answer_drain_def Let_def\<close>)
qed

lemma tick_cases:
  assumes "js_get (drains s) i = Some d"
  shows "debounce_tick i now s = s \<or> advances i d s (debounce_tick i now s)"
  using assms by (auto simp: debounce_tick_def split: drain_point.split)

lemma advances_base: "advances i d s s' \<Longrightarrow> js_get (drains s) i = Some d \<Longrightarrow> drain_base s \<Longrightarrow> drain_base s'"
proof -
  assume "advances i d s s'" and d: "js_get (drains s) i = Some d" and base: "drain_base s"
  then obtain s1 where t: "tweak (dr_queue d) s s1" and s': "moves i d s1 s' \<or> s' = finish_drain i d s1"
    by (auto simp: advances_def)
  have "drain_base s1" "js_get (drains s1) i = Some d" using t d base by (simp_all add: tweak_base [OF t]) (simp add: tweak_def)
  with s' show ?thesis by (auto intro: moves_base finish_base)
qed

lemma advances_stranded:
  assumes "advances i d s s'" and d: "js_get (drains s) i = Some d" and base: "drain_base s" and ok: "stranded_within K s"
  shows "stranded_within K s'"
proof -
  from assms(1) obtain s1 where t: "tweak (dr_queue d) s s1" and s': "moves i d s1 s' \<or> s' = finish_drain i d s1"
    by (auto simp: advances_def)
  have "is_draining (queues s (dr_queue d))" using bookkeptD(1) [OF drain_baseD(1) [OF base] d] by blast
  from tweak_stranded [OF t this ok] have "stranded_within K s1" .
  moreover have "drain_base s1" "js_get (drains s1) i = Some d" using t d base by (simp_all add: tweak_base [OF t]) (simp add: tweak_def)
  ultimately show ?thesis using s' by (auto intro: moves_stranded finish_stranded)
qed

section \<open>All events\<close>

lemma created_queue_fields [simp]:
  "is_draining (created_queue st) = False" "items (created_queue st) = []" "droppedCount (created_queue st) = 0"
  by (simp_all add: created_queue_def)

lemma settings_fields [simp]:
  "is_draining (applyQueueRuntimeSettings st q) = is_draining q" "items (applyQueueRuntimeSettings st q) = items q"
  "droppedCount (applyQueueRuntimeSettings st q) = droppedCount q" "lastRun (applyQueueRuntimeSettings st q) = lastRun q"
  "summaryLines (applyQueueRuntimeSettings st q) = summaryLines q" "summarySources (applyQueueRuntimeSettings st q) = summarySources q"
  by (simp_all add: applyQueueRuntimeSettings_def)

lemma created_cap: "whole_cap (cap (created_queue st))"
proof -
  have "whole_cap (cap (applyQueueRuntimeSettings st ((created_queue st)\<lparr>cap := Num (of_nat 20)\<rparr>)))"
    by (rule settings_cap_whole) (auto simp: whole_cap_def intro!: exI [of _ 20])
  moreover have "cap (applyQueueRuntimeSettings st ((created_queue st)\<lparr>cap := Num (of_nat 20)\<rparr>)) = cap (created_queue st)"
    by (simp add: applyQueueRuntimeSettings_def created_queue_def DEFAULT_QUEUE_CAP_def split: option.split)
  ultimately show ?thesis by simp
qed

lemma pending_settings [simp]: "pending_work (applyQueueRuntimeSettings st q) = pending_work q"
  by (simp add: pending_work_def)

lemma get_queue_base:
  assumes base: "drain_base s"
  shows "drain_base (snd (getFollowupQueue key st s))"
    "js_get (registry (snd (getFollowupQueue key st s))) key = Some (fst (getFollowupQueue key st s))"
proof -
  show "drain_base (snd (getFollowupQueue key st s))"
  proof (cases "js_get (registry s) key")
    case (Some n)
    show ?thesis
      by (rule drain_baseI [where D = "js_get (drains s)" and R = "js_get (registry s)" and I = "\<lambda>n. is_draining (queues s n)"])
        (use Some drain_baseD(2) [OF base] drain_baseD(1) [OF base] in \<open>simp_all add: getFollowupQueue_def settings_cap_whole\<close>)
  next
    case None
    show ?thesis
      by (rule drain_baseI [where D = "js_get (drains s)" and R = "(js_get (registry s))(key \<mapsto> next_queue s)"
            and I = "\<lambda>n. is_draining (queues s n)"])
        (use None drain_baseD(2) [OF base] bookkept_create [OF drain_baseD(1) [OF base]] bookkept_fresh [OF drain_baseD(1) [OF base]]
         in \<open>simp_all add: getFollowupQueue_def Let_def settings_cap_whole created_cap\<close>)
  qed
qed (simp add: getFollowupQueue_def Let_def split: option.split)

lemma get_queue_stranded: "stranded_within K s \<Longrightarrow> stranded_within K (snd (getFollowupQueue key st s))"
  by (auto simp: getFollowupQueue_def Let_def stranded_within_def pending_work_def split: option.split)

lemma admit_tweak: "tweak n s (snd (admit n s))"
proof -
  obtain ok dropped q where r: "applyQueueDropPolicy summary_text None (queues s n) = (ok, dropped, q)"
    by (cases "applyQueueDropPolicy summary_text None (queues s n)")
  have q: "is_draining q = is_draining (queues s n)" "cap q = cap (queues s n)"
    using arg_cong [OF r, of "\<lambda>r. snd (snd r)"] by (auto simp: applyQueueDropPolicy_def Let_def split: if_splits)
  have sources: "tweak n t (update_queue n (\<lambda>q. q\<lparr>summarySources := f q\<rparr>) t)" for f t by (rule tweak_update) simp_all
  define s1 where "s1 = update_queue n (\<lambda>_. q) s"
  define s2 where "s2 = (if dropPolicy q = Summarize
     then update_queue n (\<lambda>q. q\<lparr>summarySources := summarySources q @ dropped\<rparr>) s1
     else fold completeFollowupRunLifecycle dropped s1)"
  define o2 where "o2 = length (summarySources (queues s2 n)) - length (summaryLines (queues s2 n))"
  define s3 where "s3 = (if dropPolicy q = Summarize
     then update_queue n (\<lambda>q. q\<lparr>summarySources := drop o2 (summarySources q)\<rparr>)
            (fold completeFollowupRunLifecycle (take o2 (summarySources (queues s2 n))) s2)
     else s2)"
  have "tweak n s s1" unfolding s1_def by (rule tweak_update) (simp_all add: q)
  moreover have "tweak n s1 s2" unfolding s2_def using sources tweak_complete(2) by simp
  moreover have "tweak n s2 s3" unfolding s3_def using tweak_trans [OF tweak_complete(2) sources] by simp
  moreover have "snd (admit n s) = s3"
    unfolding admit_def r prod.case Let_def s1_def [symmetric] s2_def [symmetric] o2_def [symmetric] s3_def [symmetric] by simp
  ultimately show ?thesis by (metis tweak_trans)
qed

text \<open>Recording message ids and lifecycles touches no queue.\<close>

lemma base_cong:
  assumes "drains s' = drains s" "registry s' = registry s" "next_queue s' = next_queue s" "next_drain s' = next_drain s"
    "queues s' = queues s"
  shows "drain_base s' = drain_base s"
  using assms by (simp add: drain_base_def)

lemma stranded_cong:
  assumes "registry s' = registry s" "callbacks s' = callbacks s" "queues s' = queues s"
  shows "stranded_within K s' = stranded_within K s"
  using assms by (simp_all add: stranded_within_def)

lemma tweak_recent [simp]: "tweak n s (s\<lparr>recent_ids := c\<rparr>)"
  by (simp add: tweak_def)

lemma tweak_mark [simp]: "tweak n s (markFollowupRunEnqueued x s)"
  by (simp add: tweak_def)

definition restart_if_idle :: "string \<Rightarrow> nat \<Rightarrow> nat option \<Rightarrow> bool \<Rightarrow> followup_state \<Rightarrow> followup_state" where
  "restart_if_idle key n cb restart t =
     (let s7 = (case cb of None \<Rightarrow> t | Some c \<Rightarrow> rememberFollowupDrainCallback key c t)
      in if restart \<and> \<not> is_draining (queues s7 n) then kickFollowupDrainIfIdle key s7 else s7)"

lemma refused_same:
  "\<not> fst (admit n s) \<Longrightarrow> pending_work (queues (snd (admit n s)) n) = pending_work (queues s n)"
  "\<not> fst (admit n s) \<Longrightarrow> items (queues (snd (admit n s)) n) = items (queues s n)"
  by (auto simp: admit_def Let_def applyQueueDropPolicy_def pending_work_def split: prod.splits if_splits)

lemma enqueue_cases:
  fixes key run st dd cb restart now s
  defines "r \<equiv> enqueueFollowupRun key run st dd cb restart now s"
    and "n \<equiv> fst (getFollowupQueue key st s)" and "s1 \<equiv> snd (getFollowupQueue key st s)"
  obtains (aborted) "r = (False, s)"
    | (refused) "\<not> fst r" "tweak n s1 (snd r)" "pending_work (queues (snd r) n) = pending_work (queues s1 n)"
        "items (queues (snd r) n) = items (queues s1 n)"
    | (accepted) t c s3 where "fst r" "tweak n s1 t" "snd r = restart_if_idle key n cb restart t"
        "s3 = update_queue n (\<lambda>q. q\<lparr>lastEnqueuedAt := now, lastRun := Some (fu_run run)\<rparr>) (s1\<lparr>recent_ids := c\<rparr>)"
        "queues t n = (queues (snd (admit n s3)) n)\<lparr>items := items (queues (snd (admit n s3)) n) @ [run]\<rparr>"
        "fst (admit n s3)"
proof (cases "isFollowupRunAborted s run")
  case True
  then show thesis using aborted by (simp add: r_def enqueueFollowupRun_def)
next
  case False
  define recentKey where "recentKey = (if dd = NoDedupe then None else buildRecentMessageIdKey run key)"
  define peeked where "peeked = (case recentKey of None \<Rightarrow> (False, recent_ids s1) | Some k \<Rightarrow> dedupe_peek k now (recent_ids s1))"
  define s2 where "s2 = s1\<lparr>recent_ids := snd peeked\<rparr>"
  define s3 where "s3 = update_queue n (\<lambda>q. q\<lparr>lastEnqueuedAt := now, lastRun := Some (fu_run run)\<rparr>) s2"
  define skip where "skip = (fst peeked \<or> shouldSkipQueueItem run (items (queues s2 n))
    (if dd = NoDedupe then None else Some (isRunAlreadyQueued (dd = ByPrompt))))"
  define s5 where "s5 = markFollowupRunEnqueued run (update_queue n (\<lambda>q. q\<lparr>items := items q @ [run]\<rparr>) (snd (admit n s3)))"
  define s6 where "s6 = (case recentKey of None \<Rightarrow> s5 | Some k \<Rightarrow> s5\<lparr>recent_ids := snd (dedupe_check k now (recent_ids s5))\<rparr>)"
  have r: "r = (if skip then (False, s2) else if fst (admit n s3) then (True, restart_if_idle key n cb restart s6)
      else (False, snd (admit n s3)))"
  proof -
    have g: "getFollowupQueue key st s = (n, s1)" by (simp add: n_def s1_def)
    have a: "admit n s3 = (fst (admit n s3), snd (admit n s3))" by simp
    have "r = (let (seen, cache) = peeked; s2 = s1\<lparr>recent_ids := cache\<rparr>
         in if seen then (False, s2)
            else if shouldSkipQueueItem run (items (queues s2 n))
                      (if dd = NoDedupe then None else Some (isRunAlreadyQueued (dd = ByPrompt))) then (False, s2)
            else (case admit n (update_queue n (\<lambda>q. q\<lparr>lastEnqueuedAt := now, lastRun := Some (fu_run run)\<rparr>) s2) of
                    (False, s4) \<Rightarrow> (False, s4)
                  | (True, s4) \<Rightarrow>
                      (let s5 = markFollowupRunEnqueued run (update_queue n (\<lambda>q. q\<lparr>items := items q @ [run]\<rparr>) s4);
                           s6 = (case recentKey of None \<Rightarrow> s5
                                 | Some k \<Rightarrow> s5\<lparr>recent_ids := snd (dedupe_check k now (recent_ids s5))\<rparr>)
                       in (True, restart_if_idle key n cb restart s6))))"
      using False unfolding r_def enqueueFollowupRun_def g recentKey_def peeked_def restart_if_idle_def Let_def by simp
    also have "\<dots> = (if skip then (False, s2) else if fst (admit n s3) then (True, restart_if_idle key n cb restart s6)
        else (False, snd (admit n s3)))"
      unfolding skip_def s6_def s5_def
      by (subst a) (simp only: Let_def split_beta s2_def [symmetric] s3_def [symmetric], simp add: split_beta split: bool.split)
    finally show ?thesis .
  qed
  have t2: "tweak n s1 s2" by (simp add: s2_def)
  have t3: "tweak n s1 s3" using t2 unfolding s3_def by (rule tweak_trans) (rule tweak_update, simp_all)
  consider "skip" | "\<not> skip" "\<not> fst (admit n s3)" | "\<not> skip" "fst (admit n s3)" by blast
  then show thesis
  proof cases
    case 1
    then show thesis using refused r t2 by (simp add: s2_def)
  next
    case 2
    have "pending_work (queues s3 n) = pending_work (queues s1 n)" "items (queues s3 n) = items (queues s1 n)"
      by (simp_all add: s3_def s2_def pending_work_def)
    with 2 show thesis using refused r tweak_trans [OF t3 admit_tweak] refused_same [of n s3] by simp
  next
    case 3
    have "tweak n s1 s5"
      unfolding s5_def by (rule tweak_trans [OF tweak_trans [OF t3 admit_tweak] tweak_trans [OF tweak_items tweak_mark]])
    then have "tweak n s1 s6" unfolding s6_def by (cases recentKey) (simp_all add: tweak_trans [OF _ tweak_recent])
    moreover have "queues s6 n = (queues (snd (admit n s3)) n)\<lparr>items := items (queues (snd (admit n s3)) n) @ [run]\<rparr>"
      by (simp add: s6_def s5_def split: option.split)
    ultimately show thesis using accepted [of s6 s3 "snd peeked"] 3 r by (simp add: s3_def s2_def)
  qed
qed

lemma remember_base [simp]: "drain_base (rememberFollowupDrainCallback key c t) = drain_base t"
  by (simp add: drain_base_def rememberFollowupDrainCallback_def)

lemma restart_base: "drain_base t \<Longrightarrow> drain_base (restart_if_idle key n cb restart t)"
  by (auto simp: restart_if_idle_def Let_def kickFollowupDrainIfIdle_def schedule_base split: option.split)

lemma remember_only_at: "stranded_within (insert key K) t \<Longrightarrow> stranded_within (insert key K) (rememberFollowupDrainCallback key c t)"
  by (simp add: stranded_within_def rememberFollowupDrainCallback_def)

lemma only_at_drained:
  assumes "stranded_within (insert key K) t" "\<And>n. js_get (registry t) key = Some n \<Longrightarrow> is_draining (queues t n) \<or> js_get (callbacks t) key = None"
  shows "stranded_within K t"
  using assms unfolding stranded_within_def by (metis insert_iff)

lemma restart_stranded:
  assumes only: "stranded_within (insert key K) t" and reg: "js_get (registry t) key = Some n"
  shows "stranded_within K (restart_if_idle key n cb True t)"
proof -
  define u where "u = (case cb of None \<Rightarrow> t | Some c \<Rightarrow> rememberFollowupDrainCallback key c t)"
  have u: "stranded_within (insert key K) u" "js_get (registry u) key = Some n"
    using assms remember_only_at by (auto simp: u_def rememberFollowupDrainCallback_def split: option.split)
  have "stranded_within K (kickFollowupDrainIfIdle key u)"
    using u schedule_stranded [OF u(1)] only_at_drained [OF u(1)] by (auto simp: kickFollowupDrainIfIdle_def split: option.split)
  moreover have "stranded_within K u" if "is_draining (queues u n)" using only_at_drained [OF u(1)] u(2) that by simp
  ultimately show ?thesis by (simp add: restart_if_idle_def u_def [symmetric] Let_def)
qed

lemma enqueue_base:
  assumes base: "drain_base s"
  shows "drain_base (snd (enqueueFollowupRun key run st dd cb restart now s))"
proof (cases rule: enqueue_cases [of key run st dd cb restart now s])
  case refused
  with get_queue_base(1) [OF base, of key st] tweak_base show ?thesis by blast
next
  case (accepted t c s3)
  with get_queue_base(1) [OF base, of key st] tweak_base restart_base show ?thesis by metis
qed (use base in simp)

text \<open>An enqueue that restarts an idle drain strands nothing; one that does not may leave its own key behind.\<close>

lemma enqueue_stranded:
  assumes base: "drain_base s" and ok: "stranded_within K s"
  shows "stranded_within (if restart then K else insert key K) (snd (enqueueFollowupRun key run st dd cb restart now s))"
proof -
  let ?n = "fst (getFollowupQueue key st s)" and ?s1 = "snd (getFollowupQueue key st s)"
  let ?K = "if restart then K else insert key K"
  note base1 = get_queue_base [OF base, of key st] and ok1 = get_queue_stranded [OF ok, of key st]
  have ok': "stranded_within ?K s" "stranded_within ?K ?s1"
    using stranded_mono [OF ok subset_insertI] stranded_mono [OF ok1 subset_insertI] ok ok1 by simp_all
  show ?thesis
  proof (cases rule: enqueue_cases [of key run st dd cb restart now s])
    case aborted
    with ok' show ?thesis by simp
  next
    case refused
    then show ?thesis using ok'(2) unfolding stranded_within_def tweak_def by metis
  next
    case (accepted t c s3)
    have only: "stranded_within (insert key K) t"
      unfolding stranded_within_def
    proof (intro allI impI)
      fix k m assume m: "js_get (registry t) k = Some m" "pending_work (queues t m)" "k \<notin> insert key K"
      then have "m \<noteq> ?n" using bookkeptD(5) [OF drain_baseD(1) [OF base1(1)] _ base1(2)] accepted(2) by (auto simp: tweak_def)
      with m accepted(2) ok1 show "is_draining (queues t m) \<or> js_get (callbacks t) k = None"
        by (simp add: tweak_def stranded_within_def)
    qed
    have reg: "js_get (registry t) key = Some ?n" using accepted(2) base1(2) by (simp add: tweak_def)
    show ?thesis
    proof (cases restart)
      case True
      with restart_stranded [OF only reg, of cb] show ?thesis unfolding accepted(3) by simp
    next
      case False
      with only remember_only_at [OF only] show ?thesis unfolding accepted(3) by (simp add: restart_if_idle_def split: option.split)
    qed
  qed
qed

text \<open>Clearing a queue.\<close>

lemma clear_cases:
  obtains (missing) "clearFollowupQueue key s = (0, s)"
    | (cleared) n s1 where "js_get (registry s) (js_trim key) = Some n" "tweak n s s1"
        "queues s1 n = (queues s n)\<lparr>items := [], droppedCount := 0, summaryLines := [], summarySources := [],
           lastRun := None, lastEnqueuedAt := 0\<rparr>"
        "snd (clearFollowupQueue key s) = s1\<lparr>registry := js_delete (js_trim key) (registry s)\<rparr>"
        "fst (clearFollowupQueue key s) = length (items (queues s n)) + droppedCount (queues s n)"
        "\<exists>xs. outputs s1 = outputs s @ map LifecycleCompleted xs"
proof (cases "getExistingFollowupQueue (js_trim key) s")
  case None
  then show thesis using missing by (simp add: clearFollowupQueue_def Let_def)
next
  case (Some n)
  have trim: "js_trim (js_trim key) = js_trim key" by simp
  with Some have reg: "js_get (registry s) (js_trim key) = Some n"
    by (auto simp: getExistingFollowupQueue_def Let_def split: if_splits)
  define s0 where "s0 = fold completeFollowupRunLifecycle (summarySources (queues s n))
    (fold completeFollowupRunLifecycle (items (queues s n)) s)"
  define s1 where "s1 = update_queue n (\<lambda>q. q\<lparr>items := [], droppedCount := 0, summaryLines := [], summarySources := [],
    lastRun := None, lastEnqueuedAt := 0\<rparr>) s0"
  have complete: "\<exists>ys. outputs (completeFollowupRunLifecycle x t) = outputs t @ map LifecycleCompleted ys" for x t
    by (auto simp: completeFollowupRunLifecycle_def emit_out_def split: option.split
        intro: exI [of _ "[]"] exI [of _ "[the (fu_lifecycle x)]"])
  have folded: "\<exists>ys. outputs (fold completeFollowupRunLifecycle xs t) = outputs t @ map LifecycleCompleted ys" for xs t
  proof (induction xs arbitrary: t)
    case (Cons x xs)
    from complete [of x t] Cons.IH [of "completeFollowupRunLifecycle x t"] show ?case
      by simp (metis append_assoc map_append)
  qed simp
  have out: "\<exists>xs. outputs s1 = outputs s @ map LifecycleCompleted xs"
    using folded [of "items (queues s n)" s] folded [of "summarySources (queues s n)" "fold completeFollowupRunLifecycle (items (queues s n)) s"]
    by (simp add: s1_def s0_def) (metis append_assoc map_append)
  have "tweak n s s0" unfolding s0_def by (rule tweak_trans [OF tweak_complete(2) tweak_complete(2)])
  then have "tweak n s s1" unfolding s1_def by (rule tweak_trans) (rule tweak_update, simp_all)
  with cleared [OF reg, of s1] out Some show thesis
    by (simp add: clearFollowupQueue_def Let_def s0_def [symmetric] s1_def [symmetric]) (simp add: s1_def s0_def)
qed

lemma clear_queue_inv:
  assumes base: "drain_base s"
  shows "drain_base (snd (clearFollowupQueue key s))" "stranded_within K s \<Longrightarrow> stranded_within K (snd (clearFollowupQueue key s))"
proof -
  show "drain_base (snd (clearFollowupQueue key s))"
  proof (cases rule: clear_cases [of key s])
    case (cleared n s1)
    have b1: "drain_base s1" using base tweak_base [OF cleared(2)] by simp
    show ?thesis unfolding cleared(4)
      by (rule drain_baseI [where D = "js_get (drains s1)" and R = "(js_get (registry s1))(js_trim key := None)"
            and I = "\<lambda>n. is_draining (queues s1 n)"])
        (use bookkept_unregister [OF drain_baseD(1) [OF b1]] drain_baseD(2) [OF b1] cleared(2) in \<open>simp_all add: tweak_def\<close>)
  qed (use base in simp)
  show "stranded_within K (snd (clearFollowupQueue key s))" if ok: "stranded_within K s"
  proof (cases rule: clear_cases [of key s])
    case (cleared n s1)
    have other: "m \<noteq> n" if "js_get (registry s) k = Some m" "k \<noteq> js_trim key" for k m
      using bookkeptD(5) [OF drain_baseD(1) [OF base] that(1)] cleared(1) that(2) by blast
    show ?thesis unfolding stranded_within_def
    proof (intro allI impI)
      fix k m assume m: "js_get (registry (snd (clearFollowupQueue key s))) k = Some m"
        "pending_work (queues (snd (clearFollowupQueue key s)) m)" "k \<notin> K"
      then have "k \<noteq> js_trim key" "js_get (registry s) k = Some m" by (auto simp: cleared(4) split: if_splits)
      with other have "m \<noteq> n" by blast
      with m cleared ok \<open>js_get (registry s) k = Some m\<close>
      show "is_draining (queues (snd (clearFollowupQueue key s)) m) \<or> js_get (callbacks (snd (clearFollowupQueue key s))) k = None"
        by (simp add: tweak_def stranded_within_def)
    qed
  qed (use ok in simp)
qed

subsection \<open>The machine\<close>

lemma step_base:
  assumes base: "drain_base s"
  shows "drain_base (followup_step routable e s)"
proof (cases e)
  case (Resume i now)
  show ?thesis
  proof (cases "js_get (drains s) i")
    case (Some d)
    with Resume base resume_cases [OF Some, of routable now] advances_base [OF _ Some] show ?thesis by auto
  qed (use Resume base in \<open>simp add: resume_drain_def\<close>)
next
  case (Tick i now)
  show ?thesis
  proof (cases "js_get (drains s) i")
    case (Some d)
    with Tick base tick_cases [OF Some, of now] advances_base [OF _ Some] show ?thesis by auto
  qed (use Tick base in \<open>simp add: debounce_tick_def\<close>)
next
  case (Answered i res)
  show ?thesis
  proof (cases "js_get (drains s) i")
    case (Some d)
    with Answered base answer_cases [OF Some, of res] advances_base [OF _ Some] show ?thesis by auto
  qed (use Answered base in \<open>simp add: answer_drain_def\<close>)
next
  case (Enqueue key run st dd cb restart now)
  with base show ?thesis by (simp add: enqueue_base)
next
  case (ScheduleDrain key cb)
  with base show ?thesis by (simp add: schedule_base)
next
  case (ClearQueue key)
  with base show ?thesis by (simp add: clear_queue_inv)
qed (use base in \<open>simp_all add: clearFollowupDrainCallback_def refreshQueuedFollowupSession_def
  resetRecentQueuedMessageIdDedupe_def Let_def drain_base_def split: option.split\<close>)

text \<open>The keys that a history leaves to be scheduled: an enqueue that is told not to restart an idle drain leaves its key, until
  a drain is scheduled for the key.\<close>

fun to_schedule :: "followup_event \<Rightarrow> string set \<Rightarrow> string set" where
  "to_schedule (Enqueue key _ _ _ _ restart _) K = (if restart then K else insert key K)"
| "to_schedule (ScheduleDrain key _) K = K - {key}"
| "to_schedule _ K = K"

definition unscheduled :: "followup_event list \<Rightarrow> string set" where
  "unscheduled es = fold to_schedule es {}"

lemma step_stranded:
  assumes base: "drain_base s" and ok: "stranded_within K s"
  shows "stranded_within (to_schedule e K) (followup_step routable e s)"
proof (cases e)
  case (Enqueue key run st dd cb restart now)
  with enqueue_stranded [OF base ok, of restart key run st dd cb now] show ?thesis by simp
next
  case (ScheduleDrain key cb)
  have "stranded_within (insert key (K - {key})) s" using ok by (rule stranded_mono) blast
  from schedule_stranded [OF this] ScheduleDrain show ?thesis by simp
next
  case (ClearQueue key)
  with base ok show ?thesis by (simp add: clear_queue_inv)
next
  case (Resume i now)
  show ?thesis
  proof (cases "js_get (drains s) i")
    case (Some d)
    with Resume ok resume_cases [OF Some, of routable now] advances_stranded [OF _ Some base] show ?thesis by auto
  qed (use Resume ok in \<open>simp add: resume_drain_def\<close>)
next
  case (Tick i now)
  show ?thesis
  proof (cases "js_get (drains s) i")
    case (Some d)
    with Tick ok tick_cases [OF Some, of now] advances_stranded [OF _ Some base] show ?thesis by auto
  qed (use Tick ok in \<open>simp add: debounce_tick_def\<close>)
next
  case (Answered i res)
  show ?thesis
  proof (cases "js_get (drains s) i")
    case (Some d)
    with Answered ok answer_cases [OF Some, of res] advances_stranded [OF _ Some base] show ?thesis by auto
  qed (use Answered ok in \<open>simp add: answer_drain_def\<close>)
next
  case (ForgetCallback key)
  with ok show ?thesis by (auto simp: clearFollowupDrainCallback_def stranded_within_def)
qed (use ok in \<open>auto simp: refreshQueuedFollowupSession_def resetRecentQueuedMessageIdDedupe_def Let_def stranded_within_def
  split: option.split\<close>)

lemma initial_base: "drain_base (initial_followups runs)"
  unfolding initial_followups_def drain_base_def bookkept_def by (simp add: created_cap)

lemma initial_stranded: "stranded_within K (initial_followups runs)"
  by (simp add: initial_followups_def stranded_within_def)

lemma run_followups_snoc:
  "run_followups routable runs (es @ [e]) = followup_step routable e (run_followups routable runs es)"
  by (simp add: run_followups_def)

interpretation followups: invariant_machine "followup_step routable" drain_base
  for routable by unfold_locales (rule step_base)

lemma run_base: "drain_base (run_followups routable runs es)"
  unfolding run_followups_def by (rule followups.run_inv [OF initial_base])

lemma run_stranded: "stranded_within (unscheduled es) (run_followups routable runs es)"
proof (induction es rule: rev_induct)
  case Nil
  show ?case by (simp add: run_followups_def initial_stranded)
next
  case (snoc e es)
  from step_stranded [OF run_base this] show ?case by (simp add: run_followups_snoc unscheduled_def)
qed

end
