(* ===== verification/FollowupQueueProps.thy ===== *)
theory FollowupQueueProps
  imports FollowupQueueInv
begin

text \<open>
  What the follow-up queues promise: one drain per queue, no idle pending work, batches of one authorization, runs
  that leave their queue only for a reason, the cap, and the rejection of redelivered messages.
\<close>

section \<open>A sample\<close>

definition plain_agent :: agent_run where
  "plain_agent =
     \<lparr>ar_sessionId = ''s'', ar_sessionFile = ''f'', ar_provider = ''p'', ar_model = ''m'', ar_hasSessionModelOverride = None,
      ar_modelOverrideSource = None, ar_hasAutoFallbackProvenance = None, ar_authProfileId = None,
      ar_authProfileIdSource = None, ar_senderId = Some ''u'', ar_senderName = None, ar_senderUsername = None,
      ar_senderE164 = None, ar_senderIsOwner = None, ar_execOverrides = None, ar_bashElevated = None\<rparr>"

definition message :: "nat \<Rightarrow> string \<Rightarrow> followup_run" where
  "message n text = (blank_run text n 0)\<lparr>fu_ref := n, fu_channel := Some ''slack'', fu_to := Some ''c1''\<rparr>"

definition sample_settings :: "queue_mode \<Rightarrow> nat \<Rightarrow> queue_settings" where
  "sample_settings m c = \<lparr>set_mode = m, set_debounceMs = Some (Num 0), set_cap = Some (Num (of_nat c)), set_dropPolicy = Some DropOld\<rparr>"

definition sample_run :: "followup_event list \<Rightarrow> followup_state" where
  "sample_run = run_followups (\<lambda>_. True) (\<lambda>_. plain_agent)"

definition two_messages :: "followup_event list" where
  "two_messages =
     [Enqueue ''k'' (message 1 ''first'') (sample_settings Collect 3) NoDedupe None True 1,
      Enqueue ''k'' (message 2 ''second'') (sample_settings Collect 3) NoDedupe (Some 9) True 2]"

section \<open>Drains\<close>

text \<open>C17. One drain per queue: after any operations, in any interleaving, a queue is marked as draining exactly when
  one drain works on it, and never two; a drain of a cleared or replaced queue keeps to its own queue.\<close>

theorem queue_has_one_drain:
  "is_draining (queues (run_followups routable runs es) n)
   = (\<exists>!i. \<exists>d. js_get (drains (run_followups routable runs es)) i = Some d \<and> dr_queue d = n)"
proof -
  note book = drain_baseD(1) [OF run_base [of routable runs es]]
  show ?thesis
  proof
    assume "is_draining (queues (run_followups routable runs es) n)"
    from bookkeptD(3) [OF book this] show "\<exists>!i. \<exists>d. js_get (drains (run_followups routable runs es)) i = Some d \<and> dr_queue d = n"
      using bookkeptD(2) [OF book] by metis
  next
    assume "\<exists>!i. \<exists>d. js_get (drains (run_followups routable runs es)) i = Some d \<and> dr_queue d = n"
    then show "is_draining (queues (run_followups routable runs es) n)" using bookkeptD(1) [OF book] by blast
  qed
qed

text \<open>C18. Queued work never sits idle: after any operations (enqueues, clears, failing and deferring callbacks, drains that
  end, callbacks that are forgotten) a registered queue with runs or drops pending and a known callback is being drained,
  under its own key, unless an enqueue was told not to restart an idle drain and no drain has been scheduled for the key
  since.  The reply runner enqueues behind an active run in this way, and schedules the drain at once when the run is found
  to be over, or else when it ends.\<close>

theorem queued_work_is_drained:
  assumes "key \<notin> unscheduled es"
    and "js_get (registry (run_followups routable runs es)) key = Some n"
    and "js_get (callbacks (run_followups routable runs es)) key = Some cb"
    and "pending_work (queues (run_followups routable runs es) n)"
  shows "\<exists>i d. js_get (drains (run_followups routable runs es)) i = Some d \<and> dr_queue d = n \<and> dr_key d = key"
proof -
  note book = drain_baseD(1) [OF run_base [of routable runs es]]
  have "is_draining (queues (run_followups routable runs es) n)"
    using run_stranded [of es routable runs] assms unfolding stranded_within_def by fastforce
  from bookkeptD(3) [OF book this] obtain i d where "js_get (drains (run_followups routable runs es)) i = Some d" "dr_queue d = n"
    by blast
  with bookkeptD(6) [OF book assms(2)] show ?thesis by blast
qed

text \<open>Two messages come behind an active run, and the drain is scheduled when the run is over.\<close>

definition behind_a_run :: "followup_event list" where
  "behind_a_run =
     [Enqueue ''k'' (message 1 ''first'') (sample_settings Collect 3) NoDedupe (Some 9) False 1,
      Enqueue ''k'' (message 2 ''second'') (sample_settings Collect 3) NoDedupe (Some 9) False 2,
      ScheduleDrain ''k'' 9]"

lemma queued_work_is_drained_witness:
  "\<exists>i d. js_get (drains (sample_run behind_a_run)) i = Some d \<and> dr_queue d = 0 \<and> dr_key d = ''k''"
  unfolding sample_run_def
proof (rule queued_work_is_drained)
  show "''k'' \<notin> unscheduled behind_a_run" by code_simp
  show "js_get (registry (run_followups (\<lambda>_. True) (\<lambda>_. plain_agent) behind_a_run)) ''k'' = Some 0" by code_simp
  show "js_get (callbacks (run_followups (\<lambda>_. True) (\<lambda>_. plain_agent) behind_a_run)) ''k'' = Some 9" by code_simp
  show "pending_work (queues (run_followups (\<lambda>_. True) (\<lambda>_. plain_agent) behind_a_run) 0)" by code_simp
qed

section \<open>Authorization of batches\<close>

definition auth_of :: "(nat \<Rightarrow> agent_run) \<Rightarrow> followup_run \<Rightarrow> string" where
  "auth_of runs x = resolveFollowupAuthorizationKey (runs (fu_run x))"

definition uniform :: "(nat \<Rightarrow> agent_run) \<Rightarrow> followup_run list \<Rightarrow> bool" where
  "uniform runs xs \<longleftrightarrow> (\<forall>x \<in> set xs. \<forall>y \<in> set xs. auth_of runs x = auth_of runs y)"

lemma split_groups_concat: "concat (split_groups key grp k its) = grp @ its"
  by (induction key grp k its rule: split_groups.induct) auto

lemma split_groups_uniform:
  "\<forall>x \<in> set grp. key x = k \<Longrightarrow> g \<in> set (split_groups key grp k its) \<Longrightarrow> g \<noteq> [] \<and> (\<exists>k'. \<forall>x \<in> set g. key x = k')"
proof (induction its arbitrary: grp k)
  case Nil
  then show ?case by (auto split: if_splits)
next
  case (Cons i its)
  show ?case
  proof (cases "grp = [] \<or> key i = k")
    case True
    with Cons.prems(1) have "\<forall>x \<in> set (grp @ [i]). key x = key i" by auto
    moreover have "g \<in> set (split_groups key (grp @ [i]) (key i) its)" using Cons.prems(2) True by simp
    ultimately show ?thesis by (rule Cons.IH)
  next
    case False
    with Cons.prems(2) have "g = grp \<or> g \<in> set (split_groups key [i] (key i) its)" by simp
    then show ?thesis
    proof
      assume "g \<in> set (split_groups key [i] (key i) its)"
      then show ?thesis by (rule Cons.IH [rotated]) simp
    qed (use False Cons.prems(1) in blast)
  qed
qed

lemma split_concat [simp]: "concat (splitCollectItemsByAuthorization runs its) = its"
  by (simp add: splitCollectItemsByAuthorization_def split_groups_concat)

lemma split_uniform:
  assumes "g \<in> set (splitCollectItemsByAuthorization runs its)"
  shows "g \<noteq> []" "uniform runs g"
proof -
  have "g \<noteq> [] \<and> uniform runs g"
  proof (cases "length its \<le> 1")
    case True
    then have "length its = 0 \<or> length its = 1" by linarith
    with assms show ?thesis by (auto simp: splitCollectItemsByAuthorization_def uniform_def length_Suc_conv)
  next
    case False
    with assms have "g \<in> set (split_groups (auth_of runs) [] [] its)"
      by (simp add: splitCollectItemsByAuthorization_def auth_of_def [abs_def])
    from split_groups_uniform [OF _ this] show ?thesis unfolding uniform_def by (metis empty_iff list.set(1))
  qed
  then show "g \<noteq> []" "uniform runs g" by simp_all
qed

fun groups_of :: "drain_point \<Rightarrow> followup_run list list" where
  "groups_of (GroupRunning grp rest b snap) = grp # rest"
| "groups_of (GroupDone grp rest b snap) = grp # rest"
| "groups_of _ = []"

definition batch_ok :: "(nat \<Rightarrow> agent_run) \<Rightarrow> followup_output \<Rightarrow> bool" where
  "batch_ok runs out \<longleftrightarrow>
     (case out of Called i cb run ms \<Rightarrow> uniform runs ms \<and> (ms \<noteq> [] \<longrightarrow> fu_run run = fu_run (last ms)) | _ \<Rightarrow> True)"

text \<open>A run was handed over: some call carried its prompt.\<close>

definition handed :: "followup_state \<Rightarrow> followup_run \<Rightarrow> bool" where
  "handed s x \<longleftrightarrow> (\<exists>i cb run members. Called i cb run members \<in> set (calls s) \<and> x \<in> set members)"

fun handed_of :: "drain_point \<Rightarrow> followup_run list" where
  "handed_of (AbortRun b k m x) = [x]"
| "handed_of (ItemRunning x) = [x]"
| "handed_of (GroupRunning grp rest b snap) = grp"
| "handed_of (GroupDone grp rest b snap) = grp"
| "handed_of _ = []"

definition point_ok :: "(nat \<Rightarrow> agent_run) \<Rightarrow> followup_state \<Rightarrow> drain_point \<Rightarrow> bool" where
  "point_ok runs s p \<longleftrightarrow> (\<forall>g \<in> set (groups_of p). g \<noteq> [] \<and> uniform runs g) \<and> (\<forall>x \<in> set (handed_of p). handed s x)"

definition auth_inv :: "(nat \<Rightarrow> agent_run) \<Rightarrow> followup_state \<Rightarrow> bool" where
  "auth_inv runs s \<longleftrightarrow>
     (\<forall>r. resolveFollowupAuthorizationKey (agent_runs s r) = resolveFollowupAuthorizationKey (runs r))
     \<and> (\<forall>out \<in> set (calls s). batch_ok runs out)
     \<and> (\<forall>i d. js_get (drains s) i = Some d \<longrightarrow> point_ok runs s (dr_point d))"

lemma auth_cong:
  assumes "agent_runs s' = agent_runs s" "calls s' = calls s" "drains s' = drains s"
  shows "auth_inv runs s' = auth_inv runs s"
  using assms by (simp add: auth_inv_def point_ok_def handed_def)

lemma auth_tweak: "tweak n s s' \<Longrightarrow> auth_inv runs s' = auth_inv runs s"
  by (rule auth_cong) (simp_all add: tweak_def)

lemma auth_complete [simp]: "auth_inv runs (completeFollowupRunLifecycle x s) = auth_inv runs s"
  by (rule auth_cong) simp_all

lemma auth_fold [simp]: "auth_inv runs (fold completeFollowupRunLifecycle xs s) = auth_inv runs s"
  by (rule auth_cong) simp_all

lemma auth_update [simp]: "auth_inv runs (update_queue n f s) = auth_inv runs s"
  by (rule auth_cong) simp_all

lemma auth_sources [simp]: "auth_inv runs (completeFollowupQueueSummarySources n s) = auth_inv runs s"
  by (rule auth_tweak [OF tweak_sources])

lemma auth_clear [simp]: "auth_inv runs (clearFollowupQueueSummaryState n s) = auth_inv runs s"
  by (rule auth_tweak [OF tweak_clear])

lemma auth_wait: "auth_inv runs s \<Longrightarrow> point_ok runs s p \<Longrightarrow> auth_inv runs (wait_at i d p s)"
  by (auto simp: auth_inv_def point_ok_def handed_def calls_def wait_at_def)

lemma auth_call:
  assumes "auth_inv runs s" "\<forall>g \<in> set (groups_of p). g \<noteq> [] \<and> uniform runs g" "set (handed_of p) \<subseteq> set ms"
    "batch_ok runs (Called i (dr_callback d) run ms)"
  shows "auth_inv runs (call_and_wait i d p run ms s)"
proof -
  let ?s = "call_and_wait i d p run ms s"
  have calls: "calls ?s = calls s @ [Called i (dr_callback d) run ms]"
    by (simp add: call_and_wait_def wait_at_def emit_out_def calls_def)
  then have mono: "handed s x \<Longrightarrow> handed ?s x" for x by (auto simp: handed_def)
  have new: "handed ?s x" if "x \<in> set ms" for x using that by (auto simp: handed_def calls)
  have "point_ok runs ?s (dr_point e)" if "js_get (drains ?s) j = Some e" for j e
  proof (cases "j = i")
    case True
    with that have "dr_point e = p" by (auto simp: call_and_wait_def wait_at_def emit_out_def)
    with assms(2,3) new show ?thesis by (auto simp: point_ok_def)
  next
    case False
    with that have "js_get (drains s) j = Some e" by (simp add: call_and_wait_def wait_at_def emit_out_def)
    with assms(1) have "point_ok runs s (dr_point e)" by (simp add: auth_inv_def)
    with mono show ?thesis by (simp add: point_ok_def)
  qed
  moreover have "agent_runs ?s = agent_runs s" by (simp add: call_and_wait_def wait_at_def emit_out_def)
  ultimately show ?thesis using assms(1,4) calls by (simp add: auth_inv_def)
qed

lemma batch_single [simp]: "batch_ok runs (Called i cb x [x])" "batch_ok runs (Called i cb x [])"
  by (simp_all add: batch_ok_def uniform_def)

lemma auth_scan: "auth_inv runs s \<Longrightarrow> auth_inv runs (dropAbortedFollowups i d b n k s)"
  by (simp add: dropAbortedFollowups_def auth_wait auth_call point_ok_def split: scan_result.split)

lemma auth_enter: "auth_inv runs s \<Longrightarrow> auth_inv runs (enter_loop i d s)"
  by (simp add: enter_loop_def auth_scan)

lemma auth_fields [simp]:
  "auth_inv runs (s\<lparr>queues := a\<rparr>) = auth_inv runs s" "auth_inv runs (s\<lparr>next_queue := n\<rparr>) = auth_inv runs s"
  "auth_inv runs (s\<lparr>registry := b\<rparr>) = auth_inv runs s" "auth_inv runs (s\<lparr>callbacks := b\<rparr>) = auth_inv runs s"
  "auth_inv runs (s\<lparr>next_drain := n\<rparr>) = auth_inv runs s" "auth_inv runs (s\<lparr>recent_ids := c\<rparr>) = auth_inv runs s"
  "auth_inv runs (s\<lparr>aborted_signals := as\<rparr>) = auth_inv runs s"
  by (rule auth_cong; simp add: calls_def)+

lemma auth_schedule: "auth_inv runs s \<Longrightarrow> auth_inv runs (scheduleFollowupDrain key cb s)"
  by (cases rule: schedule_cases [of key cb s]) (simp_all add: auth_enter)

lemma auth_retire: "auth_inv runs s \<Longrightarrow> auth_inv runs (retire_queue key n s)"
  by (simp add: retire_queue_def clearFollowupDrainCallback_def)

lemma auth_finish: "auth_inv runs s \<Longrightarrow> auth_inv runs (finish_drain i d s)"
proof -
  assume ok: "auth_inv runs s"
  have "auth_inv runs (s\<lparr>drains := js_delete i (drains s)\<rparr>)" using ok by (auto simp: auth_inv_def point_ok_def handed_def calls_def split: if_splits)
  then show ?thesis by (simp add: finish_drain_def Let_def auth_schedule auth_retire)
qed

lemma auth_loop: "auth_inv runs s \<Longrightarrow> auth_inv runs (loop_head i d s)"
  by (simp add: loop_head_def auth_enter auth_finish)

lemma fu_run_metadata [simp]:
  "fu_run (collectQueuedImages its r) = fu_run r" "fu_run (collectRuntimeMetadata its o1 r) = fu_run r"
  "fu_run (resolveOriginRoutingMetadata its r) = fu_run r" "fu_run (blank_run p k now) = k"
  by (simp_all add: collectQueuedImages_def collectRuntimeMetadata_def resolveOriginRoutingMetadata_def blank_run_def Let_def)

lemma batch_none [simp]: "batch_ok runs (Called i cb r [])"
  by (simp add: batch_ok_def uniform_def)

lemma auth_summary: "auth_inv runs s \<Longrightarrow> auth_inv runs (run_summary_only i d now b s)"
  by (auto simp: run_summary_only_def Let_def auth_finish intro: auth_call split: option.split prod.split)

lemma auth_group:
  "auth_inv runs s \<Longrightarrow> \<forall>g \<in> set (grp # rest). g \<noteq> [] \<and> uniform runs g \<Longrightarrow> auth_inv runs (run_group i d now grp rest ps snap s)"
  unfolding run_group_def Let_def by (rule auth_call) (simp_all add: batch_ok_def)

lemma uniform_now: "auth_inv runs s \<Longrightarrow> uniform (agent_runs s) = uniform runs"
  by (rule ext) (simp add: auth_inv_def uniform_def auth_of_def)

lemma auth_batch:
  assumes ok: "auth_inv runs s"
  shows "auth_inv runs (run_batch i d now s)"
proof (cases "splitCollectItemsByAuthorization (agent_runs s) (items (queues s (dr_queue d)))")
  case (Cons grp rest)
  have "g \<noteq> [] \<and> uniform runs g" if "g \<in> set (grp # rest)" for g
    using split_uniform [of g "agent_runs s" "items (queues s (dr_queue d))"] that Cons uniform_now [OF ok] by simp
  with Cons ok show ?thesis by (simp add: run_batch_def Let_def auth_group)
qed (simp add: run_batch_def Let_def auth_summary ok)

lemma auth_single: "auth_inv runs s \<Longrightarrow> auth_inv runs (single_pass i d now s)"
  by (auto simp: single_pass_def Let_def auth_finish intro: auth_call auth_wait simp: point_ok_def split: option.split prod.split list.split)

lemma auth_collect: "auth_inv runs s \<Longrightarrow> auth_inv runs (collect_pass routable i d s)"
  by (auto simp: collect_pass_def Let_def point_ok_def intro: auth_call auth_wait split: prod.split collect_step.split)

lemma auth_aborts: "auth_inv runs s \<Longrightarrow> auth_inv runs (after_aborts routable i d now b k s)"
  by (simp add: after_aborts_def Let_def auth_finish auth_single auth_collect auth_wait point_ok_def)

lemma auth_after_group:
  "auth_inv runs s \<Longrightarrow> \<forall>g \<in> set rest. g \<noteq> [] \<and> uniform runs g \<Longrightarrow> auth_inv runs (after_group i d now grp rest b snap s)"
  by (auto simp: after_group_def Let_def auth_loop intro: auth_group split: list.split)

lemma auth_resume: "auth_inv runs s \<Longrightarrow> auth_inv runs (resume_drain routable i now s)"
proof (cases "js_get (drains s) i")
  case (Some d)
  assume ok: "auth_inv runs s"
  then have "\<forall>g \<in> set (groups_of (dr_point d)). g \<noteq> [] \<and> uniform runs g" using Some by (simp add: auth_inv_def point_ok_def)
  with Some ok show ?thesis
    by (auto simp: resume_drain_def point_ok_def auth_loop auth_scan auth_batch auth_summary auth_aborts auth_finish auth_wait
        intro: auth_after_group split: drain_point.split option.split)
qed (simp add: resume_drain_def)

lemma auth_answer: "auth_inv runs s \<Longrightarrow> auth_inv runs (answer_drain i res s)"
proof (cases "js_get (drains s) i")
  case (Some d)
  assume ok: "auth_inv runs s"
  then have "point_ok runs s (dr_point d)" using Some by (simp add: auth_inv_def)
  moreover have "handed (completeFollowupQueueSummarySources n s) = handed s" for n
    using tweak_sources [of n s] by (intro ext) (simp add: handed_def tweak_def)
  ultimately show ?thesis
    using Some ok by (cases "dr_point d")
      (simp_all add: answer_drain_def Let_def auth_scan auth_wait point_ok_def handed_def)
qed (simp add: answer_drain_def)

lemma auth_tick: "auth_inv runs s \<Longrightarrow> auth_inv runs (debounce_tick i now s)"
  by (simp add: debounce_tick_def auth_wait point_ok_def split: option.split drain_point.split)

lemma auth_get_queue [simp]: "auth_inv runs (snd (getFollowupQueue key st s)) = auth_inv runs s"
  by (simp add: getFollowupQueue_def Let_def split: option.split)

lemma auth_remember [simp]: "auth_inv runs (rememberFollowupDrainCallback key cb s) = auth_inv runs s"
  by (simp add: rememberFollowupDrainCallback_def)

lemma auth_kick: "auth_inv runs s \<Longrightarrow> auth_inv runs (kickFollowupDrainIfIdle key s)"
  by (simp add: kickFollowupDrainIfIdle_def auth_schedule split: option.split)

lemma auth_restart: "auth_inv runs s \<Longrightarrow> auth_inv runs (restart_if_idle key n cb restart s)"
  by (auto simp: restart_if_idle_def Let_def intro: auth_kick split: option.split)

lemma auth_enqueue:
  assumes ok: "auth_inv runs s"
  shows "auth_inv runs (snd (enqueueFollowupRun key run st dd cb restart now s))"
proof -
  have s1: "auth_inv runs (snd (getFollowupQueue key st s))" using ok by simp
  show ?thesis
  proof (cases rule: enqueue_cases [of key run st dd cb restart now s])
    case refused
    then show ?thesis using auth_tweak s1 by blast
  next
    case (accepted t c s3)
    from auth_tweak [OF accepted(2)] s1 have "auth_inv runs t" by simp
    then show ?thesis unfolding accepted(3) by (rule auth_restart)
  qed (use ok in simp)
qed

lemma auth_clear_queue: "auth_inv runs s \<Longrightarrow> auth_inv runs (snd (clearFollowupQueue key s))"
  by (simp add: clearFollowupQueue_def Let_def split: option.split)

lemma auth_rewrite: "resolveFollowupAuthorizationKey (rewriteRun p r) = resolveFollowupAuthorizationKey r"
  by (simp add: rewriteRun_def resolveFollowupAuthorizationKey_def Let_def split: own.split)

lemma auth_rewrites: "resolveFollowupAuthorizationKey (fold (rewrite_ref p) refs ar r) = resolveFollowupAuthorizationKey (ar r)"
  by (induction refs arbitrary: ar) (simp_all add: rewrite_ref_def auth_rewrite)

lemma auth_refresh: "auth_inv runs s \<Longrightarrow> auth_inv runs (refreshQueuedFollowupSession key p s)"
  by (simp add: refreshQueuedFollowupSession_def Let_def auth_inv_def point_ok_def handed_def calls_def auth_rewrites split: option.split)

lemma step_auth: "auth_inv runs s \<Longrightarrow> auth_inv runs (followup_step routable e s)"
  by (cases e)
    (simp_all add: auth_enqueue auth_schedule auth_clear_queue clearFollowupDrainCallback_def auth_refresh
      resetRecentQueuedMessageIdDedupe_def auth_resume auth_answer auth_tick)

interpretation followup_auth: invariant_machine "followup_step routable" "auth_inv runs"
  for routable runs by unfold_locales (rule step_auth)

lemma run_auth: "auth_inv runs (run_followups routable runs es)"
  unfolding run_followups_def by (rule followup_auth.run_inv) (simp add: auth_inv_def initial_followups_def calls_def)

text \<open>C20. A collected batch carries one authorization: whenever a callback is called with the prompts of several
  queued runs, all of them have the same sender, owner flag, exec overrides and elevation, and the call runs with
  the run object of its last member, whatever runs, refreshes, overflows and failures came in between.\<close>

theorem collected_batches_share_authorization:
  assumes "Called i cb run members \<in> set (outputs (run_followups routable runs es))" "x \<in> set members"
  shows "resolveFollowupAuthorizationKey (runs (fu_run x)) = resolveFollowupAuthorizationKey (runs (fu_run run))
    \<and> fu_run run = fu_run (last members)"
proof -
  have "batch_ok runs (Called i cb run members)"
    using run_auth [of runs routable es] assms(1) by (simp add: auth_inv_def calls_def)
  then have batch: "uniform runs members" "members \<noteq> [] \<longrightarrow> fu_run run = fu_run (last members)" by (simp_all add: batch_ok_def)
  from assms(2) have "members \<noteq> []" by auto
  with batch have last: "fu_run run = fu_run (last members)" "last members \<in> set members" by simp_all
  with batch(1) assms(2) have "auth_of runs x = auth_of runs (last members)" unfolding uniform_def by blast
  with last show ?thesis by (simp add: auth_of_def)
qed

text \<open>The call the two messages of the sample are collected into.\<close>

definition two_call :: followup_run where
  "two_call =
     (let ms = [message 1 ''first'', message 2 ''second'']
      in collectQueuedImages ms
           (collectRuntimeMetadata ms None
             (resolveOriginRoutingMetadata ms
               (blank_run (buildCollectPrompt ''[Queued messages while agent was busy]'' ms None (renderCollectItem (\<lambda>_. plain_agent)))
                 2 1))))"

lemma collected_batches_share_authorization_witness:
  "resolveFollowupAuthorizationKey ((\<lambda>_. plain_agent) (fu_run (message 1 ''first'')))
     = resolveFollowupAuthorizationKey ((\<lambda>_. plain_agent) (fu_run two_call))
   \<and> fu_run two_call = fu_run (last [message 1 ''first'', message 2 ''second''])"
proof -
  have "Called 0 9 two_call [message 1 ''first'', message 2 ''second'']
      \<in> set (outputs (run_followups (\<lambda>_. True) (\<lambda>_. plain_agent) (two_messages @ replicate 4 (Resume 0 1))))"
    by code_simp
  from collected_batches_share_authorization [OF this, of "message 1 ''first''"] show ?thesis by simp
qed

section \<open>Leaving a queue\<close>

abbreviation queued :: "followup_state \<Rightarrow> nat \<Rightarrow> followup_run list" where
  "queued s n \<equiv> items (queues s n)"

lemma queued_sources [simp]: "queued (completeFollowupQueueSummarySources n s) m = queued s m" "recent_ids (completeFollowupQueueSummarySources n s) = recent_ids s"
  by (simp_all add: completeFollowupQueueSummarySources_def)

lemma queued_clear [simp]: "queued (clearFollowupQueueSummaryState n s) m = queued s m" "recent_ids (clearFollowupQueueSummaryState n s) = recent_ids s"
  by (simp_all add: clearFollowupQueueSummaryState_def clearQueueSummaryState_def)

lemma queued_wait [simp]: "queued (wait_at i d p s) m = queued s m" "recent_ids (wait_at i d p s) = recent_ids s" "queued (call_and_wait i d p run ms s) m = queued s m" "recent_ids (call_and_wait i d p run ms s) = recent_ids s"
  by (simp_all add: wait_at_def call_and_wait_def emit_out_def)

lemma queued_scan [simp]: "queued (dropAbortedFollowups i d b k j s) m = queued s m" "recent_ids (dropAbortedFollowups i d b k j s) = recent_ids s"
  by (simp_all add: dropAbortedFollowups_def split: scan_result.split)

lemma queued_enter [simp]: "queued (enter_loop i d s) m = queued s m" "recent_ids (enter_loop i d s) = recent_ids s"
  by (simp_all add: enter_loop_def)

lemma queued_schedule [simp]: "queued (scheduleFollowupDrain key cb s) m = queued s m" "recent_ids (scheduleFollowupDrain key cb s) = recent_ids s"
  by (cases rule: schedule_cases [of key cb s]; simp)+

lemma queued_finish [simp]: "queued (finish_drain i d s) m = queued s m" "recent_ids (finish_drain i d s) = recent_ids s"
  by (simp_all add: finish_drain_def Let_def retire_queue_def clearFollowupDrainCallback_def)

lemma queued_loop [simp]: "queued (loop_head i d s) m = queued s m" "recent_ids (loop_head i d s) = recent_ids s"
  by (simp_all add: loop_head_def)

lemma queued_passes [simp]:
  "queued (run_summary_only i d now b s) m = queued s m" "recent_ids (run_summary_only i d now b s) = recent_ids s" "queued (run_group i d now grp rest ps snap s) m = queued s m" "recent_ids (run_group i d now grp rest ps snap s) = recent_ids s"
  by (simp_all add: run_summary_only_def run_group_def Let_def split: option.split prod.split)

lemma queued_batch [simp]: "queued (run_batch i d now s) m = queued s m" "recent_ids (run_batch i d now s) = recent_ids s"
  by (simp_all add: run_batch_def Let_def split: list.split)

lemma queued_single [simp]: "queued (single_pass i d now s) m = queued s m" "recent_ids (single_pass i d now s) = recent_ids s"
  by (simp_all add: single_pass_def Let_def split: option.split prod.split list.split)

lemma queued_collect [simp]: "queued (collect_pass routable i d s) m = queued s m" "recent_ids (collect_pass routable i d s) = recent_ids s"
  by (simp_all add: collect_pass_def Let_def split: prod.split collect_step.split)

lemma queued_aborts [simp]: "queued (after_aborts routable i d now b k s) m = queued s m" "recent_ids (after_aborts routable i d now b k s) = recent_ids s"
  by (simp_all add: after_aborts_def Let_def)

lemma queued_restart [simp]: "queued (restart_if_idle key n cb restart s) m = queued s m" "recent_ids (restart_if_idle key n cb restart s) = recent_ids s"
  by (simp_all add: restart_if_idle_def Let_def kickFollowupDrainIfIdle_def rememberFollowupDrainCallback_def split: option.split)

lemma queued_after_group:
  "queued (after_group i d now grp rest b snap s) m
   = (if m = dr_queue d then removeQueuedItemsByRef (queued s m) grp else queued s m)"
  by (simp add: after_group_def Let_def split: list.split)

text \<open>The drain of a queue, where it waits.\<close>

definition drain_at :: "followup_state \<Rightarrow> nat \<Rightarrow> nat \<Rightarrow> drain_point \<Rightarrow> bool" where
  "drain_at s i n p \<longleftrightarrow> (\<exists>d. js_get (drains s) i = Some d \<and> dr_queue d = n \<and> dr_point d = p)"

lemma removed_by_ref: "x \<in> set its \<Longrightarrow> x \<notin> set (removeQueuedItemsByRef its processed) \<Longrightarrow> x \<in> set processed"
  unfolding removeQueuedItemsByRef_def
proof (induction processed arbitrary: its)
  case (Cons y ys)
  show ?case
  proof (cases "x = y")
    case False
    then have "x \<in> set (remove1 y its)" using Cons.prems(1) in_set_remove1 by metis
    with Cons.IH [of "remove1 y its"] Cons.prems(2) show ?thesis by simp
  qed simp
qed simp

lemma resume_leaves:
  assumes "x \<in> set (queued s n)" "x \<notin> set (queued (resume_drain routable i now s) n)"
  shows "drain_at s i n (SummaryItemRan x)
    \<or> (\<exists>grp rest b snap. drain_at s i n (GroupDone grp rest b snap) \<and> x \<in> set grp)"
proof (cases "js_get (drains s) i")
  case (Some d)
  show ?thesis
  proof (cases "dr_point d")
    case (SummaryItemRan y)
    with assms Some removed_by_ref [of x "queued s n" "[y]"] show ?thesis
      by (simp add: resume_drain_def drain_at_def split: if_splits)
  next
    case (GroupDone grp rest b snap)
    with assms Some removed_by_ref [of x "queued s n" grp] show ?thesis
      by (simp add: resume_drain_def drain_at_def queued_after_group split: if_splits)
  next
    case (Throwing deferred snap)
    with assms Some show ?thesis by (cases snap) (simp_all add: resume_drain_def split: if_splits)
  qed (use assms Some in \<open>simp_all add: resume_drain_def\<close>)
qed (use assms in \<open>simp add: resume_drain_def\<close>)

lemma spliced:
  assumes "x \<in> set xs" "x \<notin> set (take k xs @ drop (Suc k) xs)"
  shows "k < length xs \<and> xs ! k = x"
proof (cases "k < length xs")
  case True
  with assms show ?thesis using arg_cong [OF id_take_nth_drop [OF True], of set] by auto
qed (use assms in simp)

lemma answer_leaves:
  assumes "x \<in> set (queued s n)" "x \<notin> set (queued (answer_drain i res s) n)"
  shows "res = RunOk \<and> (drain_at s i n (ItemRunning x)
    \<or> (\<exists>b k m y. drain_at s i n (AbortRun b k m y) \<and> k < length (queued s n) \<and> queued s n ! k = x))"
proof (cases "js_get (drains s) i")
  case (Some d)
  show ?thesis
  proof (cases "dr_point d")
    case (AbortRun b k m y)
    with assms Some spliced [of x "queued s n" k] show ?thesis
      by (auto simp: answer_drain_def Let_def drain_at_def split: if_splits)
  next
    case (ItemRunning y)
    with assms Some removed_by_ref [of x "queued s n" "[y]"] show ?thesis
      by (auto simp: answer_drain_def Let_def drain_at_def split: if_splits)
  qed (use assms Some in \<open>auto simp: answer_drain_def Let_def split: if_splits\<close>)
qed (use assms in \<open>simp add: answer_drain_def\<close>)

lemma tick_queued [simp]: "queued (debounce_tick i now s) n = queued s n"
  by (simp add: debounce_tick_def split: option.split drain_point.split)

lemma clear_leaves:
  assumes "x \<in> set (queued s n)" "x \<notin> set (queued (snd (clearFollowupQueue key s)) n)"
  shows "js_get (registry s) (js_trim key) = Some n"
proof (cases rule: clear_cases [of key s])
  case (cleared m s1)
  then show ?thesis using assms by (cases "m = n") (auto simp: tweak_def)
qed (use assms in simp)

section \<open>Admission and the cap\<close>

lemma admit_result:
  "fst (admit n s) = fst (applyQueueDropPolicy summary_text None (queues s n))"
  "queued (snd (admit n s)) n = items (snd (snd (applyQueueDropPolicy summary_text None (queues s n))))"
  by (simp_all add: admit_def Let_def split: prod.split)

definition queued_under :: "string \<Rightarrow> followup_state \<Rightarrow> followup_run list" where
  "queued_under key s = (case js_get (registry s) key of None \<Rightarrow> [] | Some n \<Rightarrow> queued s n)"

lemma get_queued: "queued (snd (getFollowupQueue key st s)) (fst (getFollowupQueue key st s)) = queued_under key s"
  by (simp add: getFollowupQueue_def Let_def queued_under_def split: option.split)

lemma schedule_pending:
  assumes "js_get (registry s) key = Some n" "pending_work (queues s n)"
  shows "registry (scheduleFollowupDrain key cb s) = registry s" "cap (queues (scheduleFollowupDrain key cb s) m) = cap (queues s m)"
  by (cases rule: schedule_cases [of key cb s]; use assms moves_enter in \<open>simp add: moves_def\<close>)+

lemma restart_pending:
  assumes "js_get (registry s) key = Some n" "pending_work (queues s n)"
  shows "registry (restart_if_idle key n cb restart s) = registry s"
    "cap (queues (restart_if_idle key n cb restart s) m) = cap (queues s m)"
proof -
  have "registry (kickFollowupDrainIfIdle key t) = registry t \<and> cap (queues (kickFollowupDrainIfIdle key t) m) = cap (queues t m)"
    if "js_get (registry t) key = Some n" "pending_work (queues t n)" for t
    using schedule_pending [OF that] by (simp add: kickFollowupDrainIfIdle_def split: option.split)
  with assms show "registry (restart_if_idle key n cb restart s) = registry s"
    "cap (queues (restart_if_idle key n cb restart s) m) = cap (queues s m)"
    by (simp_all add: restart_if_idle_def Let_def rememberFollowupDrainCallback_def split: option.split)
qed

text \<open>What an accepted run does to its queue: the oldest runs above the cap make room, the run is last.\<close>

lemma accepted_queue:
  assumes base: "drain_base s" and ok: "fst (enqueueFollowupRun key run st dd cb restart now s)"
  defines "s' \<equiv> snd (enqueueFollowupRun key run st dd cb restart now s)" and "n \<equiv> fst (getFollowupQueue key st s)"
  obtains k where "js_get (registry s') key = Some n" "queued s' n = drop k (queued_under key s) @ [run]"
    "k = 0 \<or> cap (queues s' n) = Num (of_nat (length (queued s' n)))"
    "\<forall>c. cap (queues s' n) = Num c \<longrightarrow> 0 < c \<longrightarrow> of_nat (length (queued s' n)) \<le> c"
    "\<forall>m. m \<noteq> n \<longrightarrow> queued s' m = queued s m"
proof (cases rule: enqueue_cases [of key run st dd cb restart now s])
  case (accepted t c s3)
  let ?s1 = "snd (getFollowupQueue key st s)" and ?p = "applyQueueDropPolicy summary_text None (queues s3 n)"
  note base1 = get_queue_base [OF base, of key st]
  have reg: "js_get (registry t) key = Some n" using accepted(2) base1(2) by (simp add: tweak_def n_def)
  have t: "queued t n = items (snd (snd ?p)) @ [run]" using accepted(5) by (simp add: admit_result n_def)
  then have "pending_work (queues t n)" by (simp add: pending_work_def)
  note kept = restart_pending [OF reg this, of cb restart]
  have s': "s' = restart_if_idle key n cb restart t" using accepted(3) by (simp add: s'_def n_def)
  have q3: "queued s3 n = queued_under key s" "cap (queues s3 n) = cap (queues ?s1 n)"
    using accepted(4) get_queued [of key st s] by (simp_all add: n_def)
  have cap: "cap (queues s' n) = cap (queues s3 n)" using accepted(2) q3(2) kept(2) by (simp add: s' tweak_def n_def)
  have "whole_cap (cap (queues s3 n))" using q3(2) drain_baseD(2) [OF base1(1)] by simp
  then obtain k where k: "items (snd (snd ?p)) = drop k (queued_under key s)"
    "k = 0 \<and> (\<forall>c. cap (queues s3 n) = Num c \<longrightarrow> 0 < c \<longrightarrow> of_nat (Suc (length (queued_under key s))) \<le> c)
     \<or> cap (queues s3 n) = Num (of_nat (Suc (length (drop k (queued_under key s)))))"
  proof (cases rule: drop_policy_cases [of "queues s3 n" summary_text None])
    case free
    show thesis by (rule that [of 0]) (use free(2) q3(1) in \<open>simp_all add: free(1)\<close>)
  next
    case refused
    then show thesis using accepted(6) by (simp add: admit_result n_def)
  next
    case (dropped c)
    then have "Suc (length (drop (Suc (length (queued s3 n)) - c) (queued s3 n))) = c" by simp
    with dropped(1,7) q3(1) show thesis by (intro that [of "Suc (length (queued s3 n)) - c"]) simp_all
  qed
  have other: "queued s' m = queued s m" if "m \<noteq> n" for m
    using accepted(2) that by (simp add: s' tweak_def n_def getFollowupQueue_def Let_def split: option.splits)
  show thesis
    by (rule that [of k]) (use k reg kept t cap other in \<open>auto simp: s'\<close>)
qed (use ok in simp_all)

definition leaves_by :: "followup_state \<Rightarrow> nat \<Rightarrow> followup_run \<Rightarrow> followup_event \<Rightarrow> bool" where
  "leaves_by s n x e \<longleftrightarrow>
     (case e of
        Answered i res \<Rightarrow> res = RunOk \<and> ((drain_at s i n (ItemRunning x) \<and> handed s x)
          \<or> (\<exists>b k m y. drain_at s i n (AbortRun b k m y) \<and> k < length (queued s n) \<and> queued s n ! k = x))
      | Resume i now \<Rightarrow> drain_at s i n (SummaryItemRan x)
          \<or> ((\<exists>grp rest b snap. drain_at s i n (GroupDone grp rest b snap) \<and> x \<in> set grp) \<and> handed s x)
      | ClearQueue key \<Rightarrow> js_get (registry s) (js_trim key) = Some n
      | Enqueue key run st dd cb restart now \<Rightarrow> js_get (registry s) key = Some n
          \<and> fst (enqueueFollowupRun key run st dd cb restart now s)
          \<and> cap (queues (snd (enqueueFollowupRun key run st dd cb restart now s)) n)
             = Num (of_nat (length (queued (snd (enqueueFollowupRun key run st dd cb restart now s)) n)))
      | _ \<Rightarrow> False)"

lemma handed_at: "auth_inv runs s \<Longrightarrow> drain_at s i n p \<Longrightarrow> x \<in> set (handed_of p) \<Longrightarrow> handed s x"
  by (auto simp: auth_inv_def drain_at_def point_ok_def)

lemma enqueue_leaves:
  assumes base: "drain_base s" and n: "n < next_queue s" and x: "x \<in> set (queued s n)"
    and gone: "x \<notin> set (queued (snd (enqueueFollowupRun key run st dd cb restart now s)) n)"
  defines "s' \<equiv> snd (enqueueFollowupRun key run st dd cb restart now s)"
  shows "js_get (registry s) key = Some n \<and> fst (enqueueFollowupRun key run st dd cb restart now s)
    \<and> cap (queues s' n) = Num (of_nat (length (queued s' n)))"
proof -
  let ?n = "fst (getFollowupQueue key st s)"
  have same: "queued (snd (getFollowupQueue key st s)) m = queued s m" if "m < next_queue s" for m
    using that by (auto simp: getFollowupQueue_def Let_def split: option.split)
  show ?thesis
  proof (cases "fst (enqueueFollowupRun key run st dd cb restart now s)")
    case True
    obtain k where k: "js_get (registry s') key = Some ?n"
      "queued s' ?n = drop k (queued_under key s) @ [run]" "k = 0 \<or> cap (queues s' ?n) = Num (of_nat (length (queued s' ?n)))"
      "\<forall>c. cap (queues s' ?n) = Num c \<longrightarrow> 0 < c \<longrightarrow> of_nat (length (queued s' ?n)) \<le> c"
      "\<forall>m. m \<noteq> ?n \<longrightarrow> queued s' m = queued s m"
      by (rule accepted_queue [OF base True, folded s'_def])
    have "n = ?n" using k(5) x gone by (cases "n = ?n") (simp_all add: s'_def)
    with n have "js_get (registry s) key = Some n"
      by (auto simp: getFollowupQueue_def Let_def split: option.splits)
    then have "queued_under key s = queued s n" by (simp add: queued_under_def)
    have "k \<noteq> 0"
    proof
      assume "k = 0"
      with k(2) \<open>queued_under key s = queued s n\<close> \<open>n = ?n\<close> have "x \<in> set (queued s' n)" using x by simp
      with gone show False by (simp add: s'_def)
    qed
    with k(3) \<open>n = ?n\<close> True \<open>js_get (registry s) key = Some n\<close> show ?thesis by simp
  next
    case False
    show ?thesis
    proof (cases rule: enqueue_cases [of key run st dd cb restart now s])
      case aborted
      with x gone show ?thesis by simp
    next
      case refused
      have "queued (snd (enqueueFollowupRun key run st dd cb restart now s)) n = queued s n"
      proof (cases "n = ?n")
        case True
        then show ?thesis using refused(4) same [OF n] by simp
      next
        case False
        then show ?thesis using refused(2) same [OF n] by (simp add: tweak_def)
      qed
      with x gone show ?thesis by simp
    qed (use False in simp)
  qed
qed

text \<open>C19. No queued run is lost silently but for the reasons named: a run leaves its queue only when a callback that was
  given its prompt succeeded (alone or in a batch), when a summary run succeeded in its place, when the cleanup of
  an aborted run removes the run at its index, when the queue is cleared, or when an accepted run fills the queue to
  its cap; a run that fails, is deferred or is refused takes nothing from a queue.\<close>

theorem queued_run_leaves_for_a_reason:
  assumes "x \<in> set (queued (run_followups routable runs es) n)" "n < next_queue (run_followups routable runs es)"
    and "x \<notin> set (queued (run_followups routable runs (es @ [e])) n)"
  shows "leaves_by (run_followups routable runs es) n x e"
proof -
  let ?s = "run_followups routable runs es"
  note gone = assms(3) [unfolded run_followups_snoc] and handed = handed_at [OF run_auth [of runs routable es]]
  show ?thesis
  proof (cases e)
    case (Enqueue key run st dd cb restart now)
    then show ?thesis using enqueue_leaves [OF run_base assms(2,1), of key run st dd cb restart now] gone
      by (simp add: leaves_by_def)
  next
    case (Answered i res)
    then show ?thesis using answer_leaves [OF assms(1), of i res] gone handed [of i n "ItemRunning x"] by (auto simp: leaves_by_def)
  next
    case (Resume i now)
    then have "drain_at ?s i n (SummaryItemRan x) \<or> (\<exists>grp rest b snap. drain_at ?s i n (GroupDone grp rest b snap) \<and> x \<in> set grp)"
      using resume_leaves [OF assms(1), of routable i now] gone by simp
    with Resume handed show ?thesis by (fastforce simp: leaves_by_def)
  next
    case (ClearQueue key)
    then show ?thesis using clear_leaves [OF assms(1), of key] gone by (simp add: leaves_by_def)
  qed (use gone assms(1) in \<open>simp_all add: clearFollowupDrainCallback_def refreshQueuedFollowupSession_def
    resetRecentQueuedMessageIdDedupe_def Let_def split: option.splits\<close>)
qed

lemma queued_run_leaves_for_a_reason_witness:
  "leaves_by (sample_run two_messages) 0 (message 1 ''first'') (ClearQueue ''k'')"
  unfolding sample_run_def
proof (rule queued_run_leaves_for_a_reason)
  show "message 1 ''first'' \<in> set (queued (run_followups (\<lambda>_. True) (\<lambda>_. plain_agent) two_messages) 0)" by code_simp
  show "0 < next_queue (run_followups (\<lambda>_. True) (\<lambda>_. plain_agent) two_messages)" by code_simp
  show "message 1 ''first'' \<notin> set (queued (run_followups (\<lambda>_. True) (\<lambda>_. plain_agent) (two_messages @ [ClearQueue ''k''])) 0)"
    by code_simp
qed

section \<open>The cap\<close>

text \<open>The cap holds at every admission: an accepted run is the last of its queue, behind what was queued under the
  key less the oldest runs, the queue is at most as long as a positive cap, whatever the cap was before, and no run
  is dropped unless the queue is then exactly full.\<close>

theorem accepted_run_fits_the_cap:
  assumes "fst (enqueueFollowupRun key run st dd cb restart now (run_followups routable runs es))"
    and "s' = snd (enqueueFollowupRun key run st dd cb restart now (run_followups routable runs es))"
  shows "\<exists>n k. js_get (registry s') key = Some n
    \<and> queued s' n = drop k (queued_under key (run_followups routable runs es)) @ [run]
    \<and> (k = 0 \<or> cap (queues s' n) = Num (of_nat (length (queued s' n))))
    \<and> (\<forall>c. cap (queues s' n) = Num c \<longrightarrow> 0 < c \<longrightarrow> of_nat (length (queued s' n)) \<le> c)"
  by (rule accepted_queue [OF run_base assms(1), folded assms(2)]) blast

lemma accepted_run_fits_the_cap_witness:
  "\<exists>s'. \<exists>n k. js_get (registry s') ''k'' = Some n
    \<and> queued s' n = drop k (queued_under ''k'' (sample_run two_messages)) @ [message 3 ''third'']
    \<and> (k = 0 \<or> cap (queues s' n) = Num (of_nat (length (queued s' n))))"
proof -
  have "fst (enqueueFollowupRun ''k'' (message 3 ''third'') (sample_settings Collect 2) NoDedupe None True 3
      (run_followups (\<lambda>_. True) (\<lambda>_. plain_agent) two_messages))"
    by code_simp
  from accepted_run_fits_the_cap [OF this refl] show ?thesis unfolding sample_run_def by blast
qed

end
