(* ===== verification/FollowupDedupe.thy ===== *)
theory FollowupDedupe
  imports FollowupQueueProps
begin

text \<open>
  The follow-up queues with the cache of recent message ids: what the cache is asked and told by the events, and
  that a redelivered message is refused.
\<close>

section \<open>What the cache sees\<close>

text \<open>The cache of message ids sees a peek for every enqueue that is not aborted, and a check when it is accepted.\<close>

lemma recent_others [simp]:
  "recent_ids (after_group i d now grp rest b snap s) = recent_ids s"
  "recent_ids (resume_drain routable i now s) = recent_ids s"
  "recent_ids (answer_drain i res s) = recent_ids s"
  "recent_ids (debounce_tick i now s) = recent_ids s"
  "recent_ids (snd (clearFollowupQueue key s)) = recent_ids s"
  "recent_ids (snd (admit n s)) = recent_ids s"
  "recent_ids (snd (getFollowupQueue key st s)) = recent_ids s"
  "recent_ids (refreshQueuedFollowupSession key p s) = recent_ids s"
proof -
  show "recent_ids (after_group i d now grp rest b snap s) = recent_ids s"
    by (simp add: after_group_def Let_def split: list.split)
  then show "recent_ids (resume_drain routable i now s) = recent_ids s"
    by (simp add: resume_drain_def after_group_def Let_def split: option.split drain_point.split list.split)
  show "recent_ids (answer_drain i res s) = recent_ids s"
    by (simp add: answer_drain_def Let_def split: option.split drain_point.split)
  show "recent_ids (debounce_tick i now s) = recent_ids s"
    by (simp add: debounce_tick_def split: option.split drain_point.split)
  show "recent_ids (snd (clearFollowupQueue key s)) = recent_ids s"
    by (simp add: clearFollowupQueue_def Let_def split: option.split)
  show "recent_ids (snd (admit n s)) = recent_ids s"
    by (simp add: admit_def Let_def split: prod.split)
  show "recent_ids (snd (getFollowupQueue key st s)) = recent_ids s"
    by (simp add: getFollowupQueue_def Let_def split: option.split)
  show "recent_ids (refreshQueuedFollowupSession key p s) = recent_ids s"
    by (simp add: refreshQueuedFollowupSession_def Let_def split: option.split)
qed

definition recent_key :: "dedupe_mode \<Rightarrow> followup_run \<Rightarrow> string \<Rightarrow> string option" where
  "recent_key dd run key = (if dd = NoDedupe then None else buildRecentMessageIdKey run key)"

lemma recent_restart [simp]: "recent_ids (restart_if_idle key n cb restart s) = recent_ids s"
  by (simp add: restart_if_idle_def Let_def kickFollowupDrainIfIdle_def rememberFollowupDrainCallback_def split: option.split)

definition after_peek :: "string option \<Rightarrow> int \<Rightarrow> dedupe_cache \<Rightarrow> bool \<times> dedupe_cache" where
  "after_peek rk now c = (case rk of None \<Rightarrow> (False, c) | Some k \<Rightarrow> dedupe_peek k now c)"

definition after_check :: "string option \<Rightarrow> int \<Rightarrow> dedupe_cache \<Rightarrow> dedupe_cache" where
  "after_check rk now c = (case rk of None \<Rightarrow> c | Some k \<Rightarrow> snd (dedupe_check k now c))"

lemma enqueue_recent:
  fixes key run st dd cb restart now s
  defines "r \<equiv> enqueueFollowupRun key run st dd cb restart now s"
  obtains (aborted) "r = (False, s)"
    | (refused) "\<not> fst r" "recent_ids (snd r) = snd (after_peek (recent_key dd run key) now (recent_ids s))"
    | (accepted) "fst r" "\<not> fst (after_peek (recent_key dd run key) now (recent_ids s))"
        "recent_ids (snd r) = after_check (recent_key dd run key) now (snd (after_peek (recent_key dd run key) now (recent_ids s)))"
proof (cases "isFollowupRunAborted s run")
  case True
  then show thesis using aborted by (simp add: r_def enqueueFollowupRun_def)
next
  case False
  obtain n s1 where g: "getFollowupQueue key st s = (n, s1)" by (cases "getFollowupQueue key st s")
  have s1: "recent_ids s1 = recent_ids s" using recent_others(7) [of key st s] g by simp
  obtain seen c where p: "after_peek (recent_key dd run key) now (recent_ids s) = (seen, c)"
    by (cases "after_peek (recent_key dd run key) now (recent_ids s)")
  define s2 where "s2 = s1\<lparr>recent_ids := c\<rparr>"
  define s3 where "s3 = update_queue n (\<lambda>q. q\<lparr>lastEnqueuedAt := now, lastRun := Some (fu_run run)\<rparr>) s2"
  obtain ok s4 where a: "admit n s3 = (ok, s4)" by (cases "admit n s3")
  have s4: "recent_ids s4 = c" using recent_others(6) [of n s3] unfolding a by (simp add: s3_def s2_def)
  define s5 where "s5 = markFollowupRunEnqueued run (update_queue n (\<lambda>q. q\<lparr>items := items q @ [run]\<rparr>) s4)"
  define s6 where "s6 = (case recent_key dd run key of None \<Rightarrow> s5
    | Some k \<Rightarrow> s5\<lparr>recent_ids := snd (dedupe_check k now (recent_ids s5))\<rparr>)"
  define skip where "skip = (seen \<or> shouldSkipQueueItem run (items (queues s2 n))
    (if dd = NoDedupe then None else Some (isRunAlreadyQueued (dd = ByPrompt))))"
  have p': "(case recent_key dd run key of None \<Rightarrow> (False, recent_ids s1) | Some k \<Rightarrow> dedupe_peek k now (recent_ids s1)) = (seen, c)"
    using p unfolding after_peek_def s1 .
  have r: "r = (if skip then (False, s2) else if ok then (True, restart_if_idle key n cb restart s6) else (False, s4))"
    using False unfolding r_def enqueueFollowupRun_def g prod.case recent_key_def [symmetric] Let_def p'
      s2_def [symmetric] s3_def [symmetric] a skip_def s6_def s5_def restart_if_idle_def
    by (simp split: bool.split)
  have s6: "recent_ids s6 = after_check (recent_key dd run key) now c"
    by (simp add: s6_def s5_def s4 after_check_def split: option.split)
  consider "skip" | "\<not> skip" "\<not> ok" | "\<not> skip" "ok" by blast
  then show thesis
  proof cases
    case 1
    with r refused p show thesis by (simp add: s2_def)
  next
    case 2
    with r refused p s4 show thesis by simp
  next
    case 3
    with r accepted p s6 show thesis by (simp add: skip_def)
  qed
qed

section \<open>Keeping a message id\<close>

text \<open>Events at most five minutes after \<^verbatim>\<open>t0\<close>, whose messages are among \<^verbatim>\<open>K\<close> or the one of \<^verbatim>\<open>k\<close>.\<close>

definition within_dedupe :: "string \<Rightarrow> int \<Rightarrow> string set \<Rightarrow> followup_event \<Rightarrow> bool" where
  "within_dedupe k t0 K e \<longleftrightarrow>
     (case e of
        Enqueue key run st dd cb restart now \<Rightarrow> t0 \<le> now \<and> now < t0 + 5 * 60 * 1000
          \<and> (case recent_key dd run key of None \<Rightarrow> True | Some k' \<Rightarrow> k' \<in> insert k K)
      | ForgetMessageIds \<Rightarrow> False
      | _ \<Rightarrow> True)"

lemma forget_outside [simp]: "\<not> within_dedupe k t0 K ForgetMessageIds"
  by (simp add: within_dedupe_def)

definition remembers :: "string \<Rightarrow> int \<Rightarrow> string set \<Rightarrow> dedupe_cache \<Rightarrow> bool" where
  "remembers k t0 K c \<longleftrightarrow> kept_in k t0 K (recorded c) \<and> ttlMs c = 5 * 60 * 1000 \<and> maxSize c = 10000"

lemma remembers_step:
  assumes ok: "remembers k t0 K c" and e: "within_window k t0 (5 * 60 * 1000) K e" and K: "finite K" "card K < 10000"
  shows "remembers k t0 K (dedupe_step e c)"
  using ok kept_step [of k t0 K c e] e K bounds_kept [of e c] by (simp add: remembers_def)

lemma remembers_enqueue:
  assumes ok: "remembers k t0 K (recent_ids s)" and e: "within_dedupe k t0 K (Enqueue key run st dd cb restart now)"
    and K: "finite K" "card K < 10000"
  shows "remembers k t0 K (recent_ids (snd (enqueueFollowupRun key run st dd cb restart now s)))"
proof -
  have peeked: "remembers k t0 K (snd (after_peek (recent_key dd run key) now (recent_ids s)))"
    using ok e remembers_step [OF ok _ K, of "PeekKey k' now" for k']
    by (simp add: after_peek_def within_dedupe_def within_window_def split: option.split)
  then have "remembers k t0 K (after_check (recent_key dd run key) now (snd (after_peek (recent_key dd run key) now (recent_ids s))))"
    using e remembers_step [OF peeked _ K, of "CheckKey k' now" for k']
    by (auto simp: after_check_def within_dedupe_def within_window_def split: option.splits)
  with peeked ok show ?thesis by (cases rule: enqueue_recent [of key run st dd cb restart now s]) simp_all
qed

lemma remembers_run:
  assumes "remembers k t0 K (recent_ids s)" "list_all (within_dedupe k t0 K) es" "finite K" "card K < 10000"
  shows "remembers k t0 K (recent_ids (fold (followup_step routable) es s))"
  using assms(1,2)
proof (induction es arbitrary: s)
  case (Cons e es)
  have "remembers k t0 K (recent_ids (followup_step routable e s))"
    using Cons.prems remembers_enqueue [OF Cons.prems(1) _ assms(3,4)]
    by (cases e) (simp_all add: clearFollowupDrainCallback_def)
  with Cons show ?case by simp
qed simp

text \<open>The cache keeps its bounds and its invariant under every event.\<close>

definition cache_ok :: "followup_state \<Rightarrow> bool" where
  "cache_ok s \<longleftrightarrow> dedupe_inv (recent_ids s) \<and> ttlMs (recent_ids s) = 5 * 60 * 1000 \<and> maxSize (recent_ids s) = 10000"

lemma cache_ok_peek: "dedupe_inv c \<Longrightarrow> dedupe_inv (snd (after_peek rk now c))"
    "dedupe_inv c \<Longrightarrow> dedupe_inv (after_check rk now c)"
  using step_dedupe_inv [of c "PeekKey (the rk) now"] step_dedupe_inv [of c "CheckKey (the rk) now"]
  by (auto simp: after_peek_def after_check_def split: option.split)

lemma bounds_peek [simp]:
  "ttlMs (snd (after_peek rk now c)) = ttlMs c" "maxSize (snd (after_peek rk now c)) = maxSize c"
  "ttlMs (after_check rk now c) = ttlMs c" "maxSize (after_check rk now c) = maxSize c"
  using bounds_kept [of "PeekKey k now" c for k] bounds_kept [of "CheckKey k now" c for k]
  by (simp_all add: after_peek_def after_check_def split: option.split)

lemma cache_ok_step: "cache_ok s \<Longrightarrow> cache_ok (followup_step routable e s)"
proof (cases e)
  case (Enqueue key run st dd cb restart now)
  assume "cache_ok s"
  then show ?thesis
    by (cases rule: enqueue_recent [of key run st dd cb restart now s]) (simp_all add: Enqueue cache_ok_def cache_ok_peek)
next
  case ForgetMessageIds
  then show "cache_ok s \<Longrightarrow> ?thesis" using step_dedupe_inv [of "recent_ids s" ClearKeys]
    by (simp add: cache_ok_def resetRecentQueuedMessageIdDedupe_def) (simp add: dedupe_clear_def)
qed (simp_all add: cache_ok_def clearFollowupDrainCallback_def)

interpretation followup_cache: invariant_machine "followup_step routable" cache_ok
  for routable by unfold_locales (rule cache_ok_step)

lemma run_cache: "cache_ok (run_followups routable runs es)"
  unfolding run_followups_def
proof (rule followup_cache.run_inv)
  have "ttlMs RECENT_QUEUE_MESSAGE_IDS = 5 * 60 * 1000" "maxSize RECENT_QUEUE_MESSAGE_IDS = 10000" by code_simp+
  moreover have "dedupe_inv RECENT_QUEUE_MESSAGE_IDS" unfolding RECENT_QUEUE_MESSAGE_IDS_def by (rule created_inv)
  ultimately show "cache_ok (initial_followups runs)" by (simp add: cache_ok_def initial_followups_def)
qed

lemma message_key_not_Nil: "recent_key dd run key = Some k \<Longrightarrow> k \<noteq> []"
  by (auto simp: recent_key_def buildRecentMessageIdKey_def json_tuple_def split: if_splits option.splits)

text \<open>C21. A redelivered message is rejected: after a run with a message id was accepted, an enqueue of a message with
  the same id, route and session is refused for five minutes, whether or not the first is still queued, running or
  cleared, whatever happened in between, as long as fewer than 10000 other messages came in.\<close>

theorem redelivery_is_rejected:
  assumes first: "fst (enqueueFollowupRun key run st dd cb restart t0 (run_followups routable runs es))"
    and k: "recent_key dd run key = Some k" "recent_key dd' run' key' = Some k"
    and between: "list_all (within_dedupe k t0 K) es'" "finite K" "card K < 10000"
    and now: "t0 \<le> now" "now < t0 + 5 * 60 * 1000"
  shows "\<not> fst (enqueueFollowupRun key' run' st' dd' cb' restart' now
    (run_followups routable runs (es @ Enqueue key run st dd cb restart t0 # es')))"
proof -
  let ?s = "run_followups routable runs es"
  let ?s1 = "snd (enqueueFollowupRun key run st dd cb restart t0 ?s)"
  have ok: "cache_ok ?s" by (rule run_cache)
  have "remembers k t0 {} (recent_ids ?s1)"
  proof (cases rule: enqueue_recent [of key run st dd cb restart t0 ?s])
    case accepted
    let ?c = "snd (after_peek (recent_key dd run key) t0 (recent_ids ?s))"
    have "dedupe_inv ?c" using ok by (simp add: cache_ok_def cache_ok_peek)
    with ok check_records [of ?c k t0] bounds_kept [of "CheckKey k t0" ?c] message_key_not_Nil [OF k(1)] accepted(3) k(1) show ?thesis
      by (simp add: remembers_def cache_ok_def after_check_def [of "Some k"])
  qed (use first in simp_all)
  then have "remembers k t0 K (recent_ids ?s1)" unfolding remembers_def using kept_mono by blast
  from remembers_run [OF this between]
  have kept: "remembers k t0 K (recent_ids (fold (followup_step routable) es' ?s1))" .
  have same: "run_followups routable runs (es @ Enqueue key run st dd cb restart t0 # es') = fold (followup_step routable) es' ?s1"
    by (simp add: run_followups_def)
  have "fst (after_peek (recent_key dd' run' key') now (recent_ids (fold (followup_step routable) es' ?s1)))"
    using kept kept_unexpired(2) [of k t0 K _ now False k] now message_key_not_Nil [OF k(1)] k(2)
    by (simp add: remembers_def after_peek_def dedupe_peek_def)
  then show ?thesis unfolding same
    by (cases rule: enqueue_recent [of key' run' st' dd' cb' restart' now "fold (followup_step routable) es' ?s1"]) simp_all
qed

lemma redelivery_is_rejected_witness:
  "\<not> fst (enqueueFollowupRun ''k'' ((message 5 ''again'')\<lparr>fu_messageId := Some ''id1''\<rparr>) (sample_settings Followup 3) ByMessageId None True 200000
     (sample_run ([] @ Enqueue ''k'' ((message 1 ''first'')\<lparr>fu_messageId := Some ''id1''\<rparr>) (sample_settings Followup 3) ByMessageId None True 0
        # [ClearQueue ''k'', Enqueue ''k'' (message 2 ''second'') (sample_settings Followup 3) ByMessageId None True 100000])))"
  unfolding sample_run_def
proof (rule redelivery_is_rejected [where K = "{}"])
  let ?first = "(message 1 ''first'')\<lparr>fu_messageId := Some ''id1''\<rparr>"
  show "fst (enqueueFollowupRun ''k'' ?first (sample_settings Followup 3) ByMessageId None True 0
      (run_followups (\<lambda>_. True) (\<lambda>_. plain_agent) []))"
    by code_simp
  show "recent_key ByMessageId ?first ''k'' = Some (the (recent_key ByMessageId ?first ''k''))" by code_simp
  show "recent_key ByMessageId ((message 5 ''again'')\<lparr>fu_messageId := Some ''id1''\<rparr>) ''k''
      = Some (the (recent_key ByMessageId ?first ''k''))"
    by code_simp
  have "recent_key ByMessageId (message 2 ''second'') ''k'' = None" by code_simp
  then show "list_all (within_dedupe (the (recent_key ByMessageId ?first ''k'')) 0 {})
      [ClearQueue ''k'', Enqueue ''k'' (message 2 ''second'') (sample_settings Followup 3) ByMessageId None True 100000]"
    by (simp add: within_dedupe_def)
qed simp_all

end
