(* ===== verification/FollowupHazards.thy ===== *)
theory FollowupHazards
  imports FollowupQueueProps
begin

text \<open>
  What the follow-up queues do against their purpose: a summary run discards the message at the head of the queue,
  an overflow while an aborted run is cleaned up loses the run that caused it, and drops that no policy
  summarizes any more keep the drain spinning.
\<close>

lemma calls_wait [simp]: "calls (wait_at i d p s) = calls s"
  by (simp add: wait_at_def calls_def)

section \<open>Summaries take the place of messages\<close>

text \<open>Outside collect mode a pass with a summary calls back with the summary alone, without any queued prompt, and
  removes the message at the head of the queue.\<close>

lemma summary_run_discards_the_head:
  assumes d: "js_get (drains s) i = Some d" "dr_point d = AbortsDropped True m"
    and q: "mode (queues s (dr_queue d)) \<noteq> Collect" "queued s (dr_queue d) = x # rest" "lastRun (queues s (dr_queue d)) = Some r"
      "previewRestorable (queues s (dr_queue d)) = Some (prompt, snap)"
  shows "queued (fold (followup_step routable) [Resume i now, Answered i RunOk, Resume i now] s) (dr_queue d) = rest
    \<and> (\<exists>run. fu_prompt run = prompt
         \<and> calls (fold (followup_step routable) [Resume i now, Answered i RunOk, Resume i now] s)
           = calls s @ [Called i (dr_callback d) run []])"
proof -
  have p: "pending_work (queues s (dr_queue d))" using q(2) by (simp add: pending_work_def)
  define run where "run = collectQueuedImages [x] (collectSummaryRuntimeMetadata [x]
     ((blank_run prompt r now)\<lparr>fu_channel := fu_channel x, fu_to := fu_to x, fu_account := fu_account x, fu_thread := fu_thread x\<rparr>))"
  define s1 where "s1 = call_and_wait i d (SummaryItemRunning x snap) run [] s"
  have 1: "followup_step routable (Resume i now) s = s1"
    using d q p by (simp add: resume_drain_def after_aborts_def Let_def single_pass_def s1_def run_def)
  have d1: "js_get (drains s1) i = Some (d\<lparr>dr_point := SummaryItemRunning x snap\<rparr>)"
    by (simp add: s1_def call_and_wait_def wait_at_def emit_out_def)
  define s2 where "s2 = wait_at i (d\<lparr>dr_point := SummaryItemRunning x snap\<rparr>) (SummaryItemRan x)
     (completeFollowupQueueSummarySources (dr_queue d) s1)"
  have 2: "followup_step routable (Answered i RunOk) s1 = s2"
    using d1 by (simp add: answer_drain_def s2_def)
  have d2: "js_get (drains s2) i = Some (d\<lparr>dr_point := SummaryItemRan x\<rparr>)"
    by (simp add: s2_def wait_at_def)
  have items2: "queued s2 (dr_queue d) = x # rest" using q(2) by (simp add: s2_def s1_def)
  have 3: "queued (followup_step routable (Resume i now) s2) (dr_queue d) = rest"
    using d2 items2 by (simp add: resume_drain_def removeQueuedItemsByRef_def)
  have "calls s1 = calls s @ [Called i (dr_callback d) run []]"
    by (simp add: s1_def call_and_wait_def wait_at_def emit_out_def calls_def)
  then have "calls (followup_step routable (Resume i now) s2) = calls s @ [Called i (dr_callback d) run []]"
    using d2 by (simp add: resume_drain_def s2_def completeFollowupQueueSummarySources_def)
  moreover have "fu_prompt run = prompt"
    by (simp add: run_def collectQueuedImages_def collectSummaryRuntimeMetadata_def collectRuntimeMetadata_def Let_def blank_run_def)
  ultimately show ?thesis using 1 2 3 by auto
qed

section \<open>Overflow during the cleanup of an aborted run\<close>

text \<open>The cleanup splices by an index taken before its \<^verbatim>\<open>await\<close>.  An overflow that drops one run in between moves
  the runs: the accepted run, now at that index, is removed without ever being handed over.\<close>

lemma overflow_during_cleanup_loses_the_run:
  assumes base: "drain_base s" and d: "js_get (drains s) i = Some d" "dr_queue d = n" "dr_point d = AbortRun b k m y"
    and key: "js_get (registry s) key = Some n" and k: "length (queued s n) = Suc k"
    and ok: "fst (enqueueFollowupRun key run st dd cb restart now s)"
    and full: "cap (queues (snd (enqueueFollowupRun key run st dd cb restart now s)) n) = Num (of_nat (Suc k))"
  shows "queued (fold (followup_step routable) [Enqueue key run st dd cb restart now, Answered i RunOk] s) n = tl (queued s n)
    \<and> calls (fold (followup_step routable) [Enqueue key run st dd cb restart now] s) = calls s"
proof -
  let ?s1 = "snd (getFollowupQueue key st s)" and ?s' = "snd (enqueueFollowupRun key run st dd cb restart now s)"
  have n: "fst (getFollowupQueue key st s) = n" using key by (simp add: getFollowupQueue_def)
  have s1: "drains ?s1 = drains s" "is_draining (queues ?s1 n) = is_draining (queues s n)" "calls ?s1 = calls s"
    using key by (simp_all add: getFollowupQueue_def calls_def)
  have "is_draining (queues s n)" using bookkeptD(1) [OF drain_baseD(1) [OF base] d(1)] d(2) by blast
  moreover obtain t where "tweak n ?s1 t" "?s' = restart_if_idle key n cb restart t"
    using ok n by (cases rule: enqueue_cases [of key run st dd cb restart now s]) auto
  ultimately have s': "drains ?s' = drains s" "calls ?s' = calls s"
    using s1 by (auto simp: tweak_def restart_if_idle_def rememberFollowupDrainCallback_def Let_def calls_def split: option.split)
  obtain j where j: "js_get (registry ?s') key = Some n" "queued ?s' n = drop j (queued_under key s) @ [run]"
    "j = 0 \<or> cap (queues ?s' n) = Num (of_nat (length (queued ?s' n)))"
    "\<forall>c. cap (queues ?s' n) = Num c \<longrightarrow> 0 < c \<longrightarrow> of_nat (length (queued ?s' n)) \<le> c"
    "\<forall>m. m \<noteq> n \<longrightarrow> queued ?s' m = queued s m"
    by (rule accepted_queue [OF base ok, unfolded n])
  have "rat_of_nat (length (queued ?s' n)) \<le> rat_of_nat (Suc k)" using j(4) full by simp
  then have "length (queued ?s' n) \<le> Suc k" by (simp only: of_nat_le_iff)
  then have "j \<noteq> 0" using j(2) key k by (auto simp: queued_under_def)
  then have "length (queued ?s' n) = Suc k" using j(3) full by simp
  then have "Suc k - j = k" using j(2) key k by (simp add: queued_under_def)
  with \<open>j \<noteq> 0\<close> have "j = 1 \<or> k = 0" by linarith
  then have "drop j (queued s n) = tl (queued s n)" using k \<open>j \<noteq> 0\<close> by (cases "queued s n") (auto simp: drop_Suc drop_Cons')
  with j(2) key have q: "queued ?s' n = tl (queued s n) @ [run]" by (simp add: queued_under_def)
  have "queued (answer_drain i RunOk ?s') n = take k (queued ?s' n) @ drop (Suc k) (queued ?s' n)"
    using d s' by (simp add: answer_drain_def Let_def)
  with q k s' show ?thesis by simp
qed

section \<open>A drain that spins\<close>

text \<open>Runs that were dropped to be summarized, in a queue whose policy no longer summarizes: the drain of the empty
  queue breaks out of its loop, and its \<^verbatim>\<open>finally\<close> starts the next one.\<close>

definition spinning :: "followup_state \<Rightarrow> nat \<Rightarrow> drain \<Rightarrow> int \<Rightarrow> bool" where
  "spinning s i d now \<longleftrightarrow>
     (let n = dr_queue d; q = queues s n in
      js_get (drains s) i = Some d \<and> dr_point d = AbortsDropped False 0 \<and> js_get (registry s) (dr_key d) = Some n
      \<and> items q = [] \<and> droppedCount q > 0 \<and> dropPolicy q \<noteq> Summarize \<and> mode q \<noteq> Collect
      \<and> debounce_ready (debounce_window (debounceMs q)) (lastEnqueuedAt q) now)"

lemma spin_round:
  fixes routable :: "string option \<Rightarrow> bool"
  assumes "spinning s i d now"
  defines "s' \<equiv> fold (followup_step routable) (replicate 4 (Resume i now)) s"
  shows "\<exists>d'. spinning s' (next_drain s) d' now \<and> dr_queue d' = dr_queue d \<and> dr_key d' = dr_key d
    \<and> next_drain s' = Suc (next_drain s) \<and> outputs s' = outputs s"
proof -
  let ?n = "dr_queue d"
  note spin = assms(1) [unfolded spinning_def Let_def]
  have p: "pending_work (queues s ?n)" using spin by (simp add: pending_work_def)
  have 1: "followup_step routable (Resume i now) s = wait_at i d Debounced s"
    using spin p by (simp add: resume_drain_def after_aborts_def Let_def)
  have 2: "followup_step routable (Resume i now) (wait_at i d Debounced s) = wait_at i d (AbortsDropped True 0) s"
    using spin by (simp add: resume_drain_def dropAbortedFollowups_def wait_at_def)
  have 3: "followup_step routable (Resume i now) (wait_at i d (AbortsDropped True 0) s) = wait_at i d Breaking s"
    using spin p by (simp add: resume_drain_def after_aborts_def Let_def single_pass_def previewRestorable_def
        previewQueueSummaryPrompt_def buildQueueSummaryPrompt_def wait_at_def)
  have 4: "followup_step routable (Resume i now) (wait_at i d Breaking s) = finish_drain i (d\<lparr>dr_point := Breaking\<rparr>) (wait_at i d Breaking s)"
    by (simp add: resume_drain_def wait_at_def)
  have s': "s' = finish_drain i (d\<lparr>dr_point := Breaking\<rparr>) (wait_at i d Breaking s)"
    using 1 2 3 4 by (simp add: s'_def numeral_eq_Suc del: followup_step.simps)
  let ?c = "or_default (js_get (callbacks s) (dr_key d)) (dr_callback d)"
  let ?d = "\<lparr>dr_queue = ?n, dr_key = dr_key d, dr_callback = ?c, dr_force = False, dr_point = AbortsDropped False 0\<rparr>"
  have pending: "pending_work (q\<lparr>is_draining := b\<rparr>) = pending_work q" for q :: followup_queue and b by (simp add: pending_work_def)
  have "drains s' = js_set (next_drain s) ?d (js_delete i (js_set i (d\<lparr>dr_point := Breaking\<rparr>) (drains s)))"
    "queues s' ?n = (queues s ?n)\<lparr>is_draining := True\<rparr>" "registry s' = registry s"
    "next_drain s' = Suc (next_drain s)" "outputs s' = outputs s"
    using spin p
    by (simp_all add: s' finish_drain_def Let_def wait_at_def pending scheduleFollowupDrain_def beginQueueDrain_def
        rememberFollowupDrainCallback_def enter_loop_def dropAbortedFollowups_def)
  then show ?thesis using spin by (intro exI [of _ ?d]) (simp add: spinning_def)
qed

text \<open>So it goes on for ever, by steps that wait for nothing outside, and never calls back.\<close>

fun spins :: "nat \<Rightarrow> nat \<Rightarrow> nat \<Rightarrow> int \<Rightarrow> followup_event list" where
  "spins 0 i nd now = []"
| "spins (Suc k) i nd now = replicate 4 (Resume i now) @ spins k nd (Suc nd) now"

lemma drops_without_summary_spin:
  "spinning s i d now
   \<Longrightarrow> (\<exists>j d'. spinning (fold (followup_step routable) (spins k i (next_drain s) now) s) j d' now \<and> dr_queue d' = dr_queue d)
     \<and> outputs (fold (followup_step routable) (spins k i (next_drain s) now) s) = outputs s"
proof (induction k arbitrary: s i d)
  case (Suc k)
  from spin_round [OF Suc.prems, of routable] obtain d' where
    d': "spinning (fold (followup_step routable) (replicate 4 (Resume i now)) s) (next_drain s) d' now" "dr_queue d' = dr_queue d"
      "next_drain (fold (followup_step routable) (replicate 4 (Resume i now)) s) = Suc (next_drain s)"
      "outputs (fold (followup_step routable) (replicate 4 (Resume i now)) s) = outputs s"
    by blast
  from Suc.IH [OF d'(1)] d'(2-4) show ?case by (simp only: spins.simps fold_append comp_apply)
qed auto
end
