(* ===== verification/DeliveryStore.thy ===== *)
theory DeliveryStore
  imports JsRuntime
begin

text \<open>
  The durable queues of deliveries: the SQLite table of \<^verbatim>\<open>infra/delivery-queue-sqlite.ts\<close> and its two users, the
  queue of outbound messages (\<^verbatim>\<open>infra/outbound/delivery-queue-storage.ts\<close>) and the queue of session deliveries
  (\<^verbatim>\<open>infra/session-delivery-queue-storage.ts\<close>).  The table is a map from queue name and id to rows.  An entry has the
  fields the code reads or writes; the rest of a message is a value of the type \<^typ>\<open>'p\<close>, and \<^verbatim>\<open>entry_json\<close>
  holds the entry itself.  Any operation of the database may fail: the argument \<open>io\<close> is \<^const>\<open>None\<close> when it succeeds and
  otherwise the message of the exception, which leaves the table as it was.
\<close>

section \<open>Entries and rows\<close>

record delivery_place =
  pl_channel :: "string option"
  pl_to :: "string option"
  pl_accountId :: "string option"

record 'p delivery_entry =
  de_id :: string
  enqueuedAt :: int
  retryCount :: int
  lastAttemptAt :: "int option"
  lastError :: "string option"
  platformSendStartedAt :: "int option"
  recoveryState :: "string option"
  de_kind :: "string option"
  de_sessionKey :: "string option"
  de_session_key :: "string option"
  de_channel :: "string option"
  de_to :: "string option"
  de_accountId :: "string option"
  de_route :: "delivery_place option"
  de_deliveryContext :: "delivery_place option"
  de_maxRetries :: "int option"
  de_message :: 'p

record delivery_metadata =
  md_entryKind :: "string option"
  md_sessionKey :: "string option"
  md_channel :: "string option"
  md_target :: "string option"
  md_accountId :: "string option"

datatype queue_status = PendingStatus | FailedStatus

record 'p queue_row =
  row_status :: queue_status
  row_metadata :: delivery_metadata
  row_retry_count :: int
  row_last_attempt_at :: "int option"
  row_last_error :: "string option"
  row_recovery_state :: "string option"
  row_platform_send_started_at :: "int option"
  row_entry_json :: "'p delivery_entry"
  row_enqueued_at :: int
  row_updated_at :: int
  row_failed_at :: "int option"

type_synonym 'p delivery_table = "(string \<times> string, 'p queue_row) js_map"

datatype store_error = Enoent string string | SqliteError string

definition store_error_message :: "store_error \<Rightarrow> string" where
  "store_error_message e =
     (case e of Enoent q k \<Rightarrow> ''No pending '' @ q @ '' delivery queue entry '' @ k | SqliteError m \<Rightarrow> m)"

definition inflate :: "string \<Rightarrow> 'p queue_row \<Rightarrow> 'p delivery_entry" where
  "inflate k r =
     (let e = row_entry_json r in
      e\<lparr>de_id := k, enqueuedAt := row_enqueued_at r, retryCount := row_retry_count r,
        lastAttemptAt := or_else (row_last_attempt_at r) (lastAttemptAt e),
        lastError := or_else (row_last_error r) (lastError e),
        platformSendStartedAt := or_else (row_platform_send_started_at r) (platformSendStartedAt e),
        recoveryState := or_else (row_recovery_state r) (recoveryState e)\<rparr>)"

definition place_field :: "(delivery_place \<Rightarrow> string option) \<Rightarrow> delivery_place option \<Rightarrow> string option" where
  "place_field f p = Option.bind p f"

definition metadata :: "'p delivery_entry \<Rightarrow> delivery_metadata" where
  "metadata e =
     \<lparr>md_entryKind = de_kind e,
      md_sessionKey = or_else (de_sessionKey e) (de_session_key e),
      md_channel = or_else (de_channel e)
        (or_else (place_field pl_channel (de_route e)) (place_field pl_channel (de_deliveryContext e))),
      md_target = or_else (de_to e) (or_else (place_field pl_to (de_route e)) (place_field pl_to (de_deliveryContext e))),
      md_accountId = or_else (de_accountId e)
        (or_else (place_field pl_accountId (de_route e)) (place_field pl_accountId (de_deliveryContext e)))\<rparr>"

section \<open>The table\<close>

definition row_of :: "int \<Rightarrow> delivery_metadata option \<Rightarrow> queue_status \<Rightarrow> 'p delivery_entry \<Rightarrow> 'p queue_row" where
  "row_of now md st e =
     \<lparr>row_status = st, row_metadata = or_default md (metadata e), row_retry_count = retryCount e,
      row_last_attempt_at = lastAttemptAt e, row_last_error = lastError e, row_recovery_state = recoveryState e,
      row_platform_send_started_at = platformSendStartedAt e, row_entry_json = e, row_enqueued_at = enqueuedAt e,
      row_updated_at = now, row_failed_at = (if st = FailedStatus then Some now else None)\<rparr>"

definition upsertDeliveryQueueEntry ::
  "string option \<Rightarrow> int \<Rightarrow> string \<Rightarrow> 'p delivery_entry \<Rightarrow> delivery_metadata option \<Rightarrow> queue_status \<Rightarrow> 'p delivery_table
   \<Rightarrow> store_error + 'p delivery_table" where
  "upsertDeliveryQueueEntry io now q e md st t =
     (case io of Some m \<Rightarrow> Inl (SqliteError m) | None \<Rightarrow> Inr (js_set (q, de_id e) (row_of now md st e) t))"

definition pending_entry :: "string \<Rightarrow> 'p delivery_table \<Rightarrow> string \<Rightarrow> 'p delivery_entry option" where
  "pending_entry q t k =
     (case js_get t (q, k) of
        None \<Rightarrow> None
      | Some r \<Rightarrow> if row_status r = PendingStatus then Some (inflate k r) else None)"

definition loadDeliveryQueueEntry ::
  "string option \<Rightarrow> string \<Rightarrow> string \<Rightarrow> 'p delivery_table \<Rightarrow> store_error + 'p delivery_entry option" where
  "loadDeliveryQueueEntry io q k t =
     (case io of Some m \<Rightarrow> Inl (SqliteError m) | None \<Rightarrow> Inr (pending_entry q t k))"

text \<open>\<^verbatim>\<open>ORDER BY enqueued_at, id\<close> with SQLite's binary collation.\<close>

definition entry_order :: "'p delivery_entry \<Rightarrow> int \<times> nat list" where
  "entry_order e = (enqueuedAt e, map of_char (de_id e))"

definition loadDeliveryQueueEntries ::
  "string option \<Rightarrow> string \<Rightarrow> 'p delivery_table \<Rightarrow> store_error + 'p delivery_entry list" where
  "loadDeliveryQueueEntries io q t =
     (case io of
        Some m \<Rightarrow> Inl (SqliteError m)
      | None \<Rightarrow> Inr (sort_key entry_order
          (map (\<lambda>((_, k), r). inflate k r)
            (filter (\<lambda>((q', _), r). q' = q \<and> row_status r = PendingStatus) t))))"

definition deleteDeliveryQueueEntry ::
  "string option \<Rightarrow> string \<Rightarrow> string \<Rightarrow> 'p delivery_table \<Rightarrow> store_error + 'p delivery_table" where
  "deleteDeliveryQueueEntry io q k t =
     (case io of
        Some m \<Rightarrow> Inl (SqliteError m)
      | None \<Rightarrow> Inr (if pending_entry q t k = None then t else js_delete (q, k) t))"

definition updateDeliveryQueueEntry ::
  "string option \<Rightarrow> int \<Rightarrow> string \<Rightarrow> string \<Rightarrow> ('p delivery_entry \<Rightarrow> 'p delivery_entry) \<Rightarrow> 'p delivery_table
   \<Rightarrow> store_error + 'p delivery_table" where
  "updateDeliveryQueueEntry io now q k f t =
     (case loadDeliveryQueueEntry io q k t of
        Inl e \<Rightarrow> Inl e
      | Inr None \<Rightarrow> Inl (Enoent q k)
      | Inr (Some current) \<Rightarrow> upsertDeliveryQueueEntry io now q (f current) None PendingStatus t)"

definition moveDeliveryQueueEntryToFailed ::
  "string option \<Rightarrow> int \<Rightarrow> string \<Rightarrow> string \<Rightarrow> 'p delivery_table \<Rightarrow> store_error + 'p delivery_table" where
  "moveDeliveryQueueEntryToFailed io now q k t =
     (case loadDeliveryQueueEntry io q k t of
        Inl e \<Rightarrow> Inl e
      | Inr None \<Rightarrow> Inl (Enoent q k)
      | Inr (Some current) \<Rightarrow> upsertDeliveryQueueEntry io now q current None FailedStatus t)"

section \<open>The queue of outbound messages\<close>

definition OUTBOUND :: string where "OUTBOUND = ''outbound''"

definition queuedDeliveryMetadata :: "'p delivery_entry \<Rightarrow> delivery_metadata" where
  "queuedDeliveryMetadata e =
     \<lparr>md_entryKind = Some ''outbound'', md_sessionKey = de_session_key e, md_channel = de_channel e, md_target = de_to e,
      md_accountId = de_accountId e\<rparr>"

record 'p outbound_payload =
  op_channel :: string
  op_to :: string
  op_accountId :: "string option"
  op_session_key :: "string option"
  op_message :: 'p

definition outbound_entry :: "string \<Rightarrow> int \<Rightarrow> 'p outbound_payload \<Rightarrow> 'p delivery_entry" where
  "outbound_entry k now p =
     \<lparr>de_id = k, enqueuedAt = now, retryCount = 0, lastAttemptAt = None, lastError = None, platformSendStartedAt = None,
      recoveryState = None, de_kind = None, de_sessionKey = None, de_session_key = op_session_key p,
      de_channel = Some (op_channel p), de_to = Some (op_to p), de_accountId = op_accountId p, de_route = None,
      de_deliveryContext = None, de_maxRetries = None, de_message = op_message p\<rparr>"

definition enqueueDelivery ::
  "string option \<Rightarrow> int \<Rightarrow> string \<Rightarrow> 'p outbound_payload \<Rightarrow> 'p delivery_table \<Rightarrow> store_error + 'p delivery_table" where
  "enqueueDelivery io now k p t =
     (let e = outbound_entry k now p
      in upsertDeliveryQueueEntry io now OUTBOUND e (Some (queuedDeliveryMetadata e)) PendingStatus t)"

definition ackDelivery :: "string option \<Rightarrow> string \<Rightarrow> 'p delivery_table \<Rightarrow> store_error + 'p delivery_table" where
  "ackDelivery io k t = deleteDeliveryQueueEntry io OUTBOUND k t"

definition failed_attempt :: "int \<Rightarrow> string \<Rightarrow> 'p delivery_entry \<Rightarrow> 'p delivery_entry" where
  "failed_attempt now err e = e\<lparr>retryCount := retryCount e + 1, lastAttemptAt := Some now, lastError := Some err\<rparr>"

definition failDelivery ::
  "string option \<Rightarrow> int \<Rightarrow> string \<Rightarrow> string \<Rightarrow> 'p delivery_table \<Rightarrow> store_error + 'p delivery_table" where
  "failDelivery io now k err t = updateDeliveryQueueEntry io now OUTBOUND k (failed_attempt now err) t"

definition send_mark :: "int \<Rightarrow> string \<Rightarrow> 'p delivery_entry \<Rightarrow> 'p delivery_entry" where
  "send_mark now m e =
     e\<lparr>platformSendStartedAt := Some (or_default (platformSendStartedAt e) now), recoveryState := Some m\<rparr>"

definition markDeliveryPlatformSendAttemptStarted ::
  "string option \<Rightarrow> int \<Rightarrow> string \<Rightarrow> 'p delivery_table \<Rightarrow> store_error + 'p delivery_table" where
  "markDeliveryPlatformSendAttemptStarted io now k t =
     updateDeliveryQueueEntry io now OUTBOUND k (send_mark now ''send_attempt_started'') t"

definition markDeliveryPlatformOutcomeUnknown ::
  "string option \<Rightarrow> int \<Rightarrow> string \<Rightarrow> 'p delivery_table \<Rightarrow> store_error + 'p delivery_table" where
  "markDeliveryPlatformOutcomeUnknown io now k t =
     updateDeliveryQueueEntry io now OUTBOUND k (send_mark now ''unknown_after_send'') t"

definition loadPendingDelivery ::
  "string option \<Rightarrow> string \<Rightarrow> 'p delivery_table \<Rightarrow> store_error + 'p delivery_entry option" where
  "loadPendingDelivery io k t = loadDeliveryQueueEntry io OUTBOUND k t"

definition loadPendingDeliveries :: "string option \<Rightarrow> 'p delivery_table \<Rightarrow> store_error + 'p delivery_entry list" where
  "loadPendingDeliveries io t = loadDeliveryQueueEntries io OUTBOUND t"

definition moveToFailed ::
  "string option \<Rightarrow> int \<Rightarrow> string \<Rightarrow> 'p delivery_table \<Rightarrow> store_error + 'p delivery_table" where
  "moveToFailed io now k t = moveDeliveryQueueEntryToFailed io now OUTBOUND k t"

section \<open>The queue of session deliveries\<close>

definition SESSION :: string where "SESSION = ''session''"

record 'p session_payload =
  sp_kind :: string
  sp_sessionKey :: string
  sp_route :: "delivery_place option"
  sp_deliveryContext :: "delivery_place option"
  sp_idempotencyKey :: "string option"
  sp_maxRetries :: "int option"
  sp_message :: 'p

text \<open>SHA-256 and the source of random ids are parameters.\<close>

definition buildEntryId :: "(string \<Rightarrow> string) \<Rightarrow> string \<Rightarrow> string option \<Rightarrow> string" where
  "buildEntryId sha256 uuid key = (case key of None \<Rightarrow> uuid | Some k \<Rightarrow> if k = [] then uuid else sha256 k)"

definition queuedSessionDeliveryMetadata :: "'p delivery_entry \<Rightarrow> delivery_metadata" where
  "queuedSessionDeliveryMetadata e =
     (let route = (if de_kind e = Some ''agentTurn'' then de_route e else None) in
      \<lparr>md_entryKind = de_kind e, md_sessionKey = de_sessionKey e,
       md_channel = or_else (place_field pl_channel route) (place_field pl_channel (de_deliveryContext e)),
       md_target = or_else (place_field pl_to route) (place_field pl_to (de_deliveryContext e)),
       md_accountId = or_else (place_field pl_accountId route) (place_field pl_accountId (de_deliveryContext e))\<rparr>)"

definition session_entry :: "string \<Rightarrow> int \<Rightarrow> 'p session_payload \<Rightarrow> 'p delivery_entry" where
  "session_entry k now p =
     \<lparr>de_id = k, enqueuedAt = now, retryCount = 0, lastAttemptAt = None, lastError = None, platformSendStartedAt = None,
      recoveryState = None, de_kind = Some (sp_kind p), de_sessionKey = Some (sp_sessionKey p), de_session_key = None,
      de_channel = None, de_to = None, de_accountId = None, de_route = sp_route p,
      de_deliveryContext = sp_deliveryContext p, de_maxRetries = sp_maxRetries p, de_message = sp_message p\<rparr>"

definition enqueueSessionDelivery ::
  "(string \<Rightarrow> string) \<Rightarrow> string option \<Rightarrow> int \<Rightarrow> string \<Rightarrow> 'p session_payload \<Rightarrow> 'p delivery_table
   \<Rightarrow> store_error + string \<times> 'p delivery_table" where
  "enqueueSessionDelivery sha256 io now uuid p t =
     (let k = buildEntryId sha256 uuid (sp_idempotencyKey p);
          keyed = (case sp_idempotencyKey p of None \<Rightarrow> False | Some i \<Rightarrow> i \<noteq> []);
          insert_entry = (let e = session_entry k now p in
            case upsertDeliveryQueueEntry io now SESSION e (Some (queuedSessionDeliveryMetadata e)) PendingStatus t of
              Inl err \<Rightarrow> Inl err | Inr t' \<Rightarrow> Inr (k, t'))
      in if keyed
         then (case loadDeliveryQueueEntry io SESSION k t of
                 Inl err \<Rightarrow> Inl err
               | Inr (Some _) \<Rightarrow> Inr (k, t)
               | Inr None \<Rightarrow> insert_entry)
         else insert_entry)"

definition ackSessionDelivery :: "string option \<Rightarrow> string \<Rightarrow> 'p delivery_table \<Rightarrow> store_error + 'p delivery_table" where
  "ackSessionDelivery io k t = deleteDeliveryQueueEntry io SESSION k t"

definition failSessionDelivery ::
  "string option \<Rightarrow> int \<Rightarrow> string \<Rightarrow> string \<Rightarrow> 'p delivery_table \<Rightarrow> store_error + 'p delivery_table" where
  "failSessionDelivery io now k err t =
     updateDeliveryQueueEntry io now SESSION k
       (\<lambda>queued. queued\<lparr>retryCount := retryCount queued + 1, lastAttemptAt := Some now, lastError := Some err\<rparr>) t"

definition loadPendingSessionDelivery ::
  "string option \<Rightarrow> string \<Rightarrow> 'p delivery_table \<Rightarrow> store_error + 'p delivery_entry option" where
  "loadPendingSessionDelivery io k t = loadDeliveryQueueEntry io SESSION k t"

definition loadPendingSessionDeliveries ::
  "string option \<Rightarrow> 'p delivery_table \<Rightarrow> store_error + 'p delivery_entry list" where
  "loadPendingSessionDeliveries io t = loadDeliveryQueueEntries io SESSION t"

definition moveSessionDeliveryToFailed ::
  "string option \<Rightarrow> int \<Rightarrow> string \<Rightarrow> 'p delivery_table \<Rightarrow> store_error + 'p delivery_table" where
  "moveSessionDeliveryToFailed io now k t = moveDeliveryQueueEntryToFailed io now SESSION k t"

section \<open>What the table holds after an operation\<close>

text \<open>The dead letters: the entries moved out of the retry set and kept for inspection.\<close>

definition failed_entry :: "string \<Rightarrow> 'p delivery_table \<Rightarrow> string \<Rightarrow> 'p delivery_entry option" where
  "failed_entry q t k =
     (case js_get t (q, k) of
        None \<Rightarrow> None
      | Some r \<Rightarrow> if row_status r = FailedStatus then Some (inflate k r) else None)"

lemma inflate_row_of: "inflate (de_id e) (row_of now md st e) = e"
  by (cases e) (simp add: inflate_def row_of_def Let_def or_else_def split: option.split)

lemma pending_entry_id: "pending_entry q t k = Some e \<Longrightarrow> de_id e = k"
  by (auto simp: pending_entry_def inflate_def Let_def split: option.splits if_splits)

lemma failed_entry_id: "failed_entry q t k = Some e \<Longrightarrow> de_id e = k"
  by (auto simp: failed_entry_def inflate_def Let_def split: option.splits if_splits)

lemma pending_not_failed: "pending_entry q t k = Some e \<Longrightarrow> failed_entry q t k = None"
  by (auto simp: pending_entry_def failed_entry_def split: option.splits if_splits)

lemma pending_after_set [store_simps]:
  "de_id e = k' \<Longrightarrow> pending_entry q' (js_set (q, k') (row_of now md st e) t) k =
     (if q' = q \<and> k = k' then (if st = PendingStatus then Some e else None) else pending_entry q' t k)"
  using inflate_row_of [of e now md st] by (auto simp: pending_entry_def) (auto simp: row_of_def)

lemma failed_after_set [store_simps]:
  "de_id e = k' \<Longrightarrow> failed_entry q' (js_set (q, k') (row_of now md st e) t) k =
     (if q' = q \<and> k = k' then (if st = FailedStatus then Some e else None) else failed_entry q' t k)"
  using inflate_row_of [of e now md st] by (auto simp: failed_entry_def) (auto simp: row_of_def)

lemma pending_after_delete [store_simps]:
  "pending_entry q' (js_delete (q, k') t) k = (if q' = q \<and> k = k' then None else pending_entry q' t k)"
  by (auto simp: pending_entry_def)

lemma failed_after_delete [store_simps]:
  "failed_entry q' (js_delete (q, k') t) k = (if q' = q \<and> k = k' then None else failed_entry q' t k)"
  by (auto simp: failed_entry_def)

lemma upsert_result:
  "upsertDeliveryQueueEntry io now q e md st t = Inr t' \<longleftrightarrow> io = None \<and> t' = js_set (q, de_id e) (row_of now md st e) t"
  by (auto simp: upsertDeliveryQueueEntry_def split: option.split)

lemma load_result: "loadDeliveryQueueEntry io q k t = Inr r \<longleftrightarrow> io = None \<and> r = pending_entry q t k"
  by (auto simp: loadDeliveryQueueEntry_def split: option.split)

lemma delete_result:
  "deleteDeliveryQueueEntry io q k t = Inr t'
   \<longleftrightarrow> io = None \<and> t' = (if pending_entry q t k = None then t else js_delete (q, k) t)"
  by (auto simp: deleteDeliveryQueueEntry_def split: option.split)

lemma update_result:
  "updateDeliveryQueueEntry io now q k f t = Inr t'
   \<longleftrightarrow> io = None \<and> (\<exists>e. pending_entry q t k = Some e
         \<and> t' = js_set (q, de_id (f e)) (row_of now None PendingStatus (f e)) t)"
  by (auto simp: updateDeliveryQueueEntry_def loadDeliveryQueueEntry_def upsertDeliveryQueueEntry_def split: option.splits)

lemma move_result:
  "moveDeliveryQueueEntryToFailed io now q k t = Inr t'
   \<longleftrightarrow> io = None \<and> (\<exists>e. pending_entry q t k = Some e \<and> t' = js_set (q, de_id e) (row_of now None FailedStatus e) t)"
  by (auto simp: moveDeliveryQueueEntryToFailed_def loadDeliveryQueueEntry_def upsertDeliveryQueueEntry_def
      split: option.splits)

lemmas store_results = upsert_result load_result delete_result update_result move_result

text \<open>An operation fails with \<^verbatim>\<open>ENOENT\<close> exactly when the database works and nothing is pending under the id.\<close>

lemma update_enoent: "updateDeliveryQueueEntry io now q k f t = Inl (Enoent q k) \<longleftrightarrow> io = None \<and> pending_entry q t k = None"
  by (auto simp: updateDeliveryQueueEntry_def loadDeliveryQueueEntry_def upsertDeliveryQueueEntry_def split: option.splits)

lemma move_enoent: "moveDeliveryQueueEntryToFailed io now q k t = Inl (Enoent q k) \<longleftrightarrow> io = None \<and> pending_entry q t k = None"
  by (auto simp: moveDeliveryQueueEntryToFailed_def loadDeliveryQueueEntry_def upsertDeliveryQueueEntry_def
      split: option.splits)

text \<open>Which entries are listed: the pending ones of the queue, in the order of their admission.\<close>

lemma listed_entries:
  assumes "distinct (js_keys t)" and "loadDeliveryQueueEntries io q t = Inr es"
  shows "sorted (map entry_order es)" and "distinct (map de_id es)"
    and "e \<in> set es \<longleftrightarrow> pending_entry q t (de_id e) = Some e"
proof -
  let ?P = "\<lambda>((q', _), r). q' = q \<and> row_status r = PendingStatus"
  let ?f = "\<lambda>((_, k), r). inflate k r :: 'a delivery_entry"
  have es: "es = sort_key entry_order (map ?f (filter ?P t))"
    using assms(2) by (simp add: loadDeliveryQueueEntries_def split: option.splits)
  then show "sorted (map entry_order es)" by simp
  have ids: "map de_id (map ?f (filter ?P t)) = map (snd \<circ> fst) (filter ?P t)"
    by (auto simp: inflate_def Let_def)
  have "distinct (map (snd \<circ> fst) (filter ?P t))"
    using assms(1) by (induction t) (auto simp: image_iff)
  then have "distinct (map de_id (map ?f (filter ?P t)))"
    unfolding ids .
  moreover have "mset (map de_id es) = mset (map de_id (map ?f (filter ?P t)))"
    unfolding es by (simp only: mset_map mset_sort)
  ultimately show "distinct (map de_id es)"
    using mset_eq_imp_distinct_iff by blast
  have mem: "js_get t (q, k) = Some r \<longleftrightarrow> ((q, k), r) \<in> set t" for k r
    using assms(1) by (simp add: map_of_eq_Some_iff)
  have pend: "pending_entry q t k = Some e \<longleftrightarrow> (\<exists>r. ((q, k), r) \<in> set t \<and> row_status r = PendingStatus \<and> e = inflate k r)" for k e
    unfolding pending_entry_def mem [symmetric] by (auto split: option.split)
  show "e \<in> set es \<longleftrightarrow> pending_entry q t (de_id e) = Some e"
    unfolding pend es by (auto simp: image_iff inflate_def Let_def Bex_def)
qed

section \<open>The contract of a durable queue\<close>

text \<open>What the workers of a queue rely on: an acknowledged entry is gone, a failed attempt is recorded in place, and an
  entry that is given up moves to the dead letters, where no operation touches it.\<close>

locale durable_queue =
  fixes pending :: "'t \<Rightarrow> string \<Rightarrow> 'e option"
    and dead :: "'t \<Rightarrow> string \<Rightarrow> 'e option"
    and attempt :: "int \<Rightarrow> string \<Rightarrow> 'e \<Rightarrow> 'e"
    and ack :: "string option \<Rightarrow> string \<Rightarrow> 't \<Rightarrow> store_error + 't"
    and retry :: "string option \<Rightarrow> int \<Rightarrow> string \<Rightarrow> string \<Rightarrow> 't \<Rightarrow> store_error + 't"
    and bury :: "string option \<Rightarrow> int \<Rightarrow> string \<Rightarrow> 't \<Rightarrow> store_error + 't"
  assumes exclusive: "pending t k = Some e \<Longrightarrow> dead t k = None"
    and ack_pending: "ack io k t = Inr t' \<Longrightarrow> pending t' = (pending t)(k := None)"
    and ack_dead: "ack io k t = Inr t' \<Longrightarrow> dead t' = dead t"
    and retry_pending: "retry io now k err t = Inr t' \<Longrightarrow>
      \<exists>e. pending t k = Some e \<and> pending t' = (pending t)(k \<mapsto> attempt now err e)"
    and retry_dead: "retry io now k err t = Inr t' \<Longrightarrow> dead t' = dead t"
    and bury_entry: "bury io now k t = Inr t' \<Longrightarrow>
      \<exists>e. pending t k = Some e \<and> pending t' = (pending t)(k := None) \<and> dead t' = (dead t)(k \<mapsto> e)"
begin

lemma dead_letters_stay:
  assumes "dead t k = Some e"
    and "ack io k' t = Inr t' \<or> retry io now k' err t = Inr t' \<or> bury io now k' t = Inr t'"
  shows "dead t' k = Some e"
  using assms(2)
proof (elim disjE)
  assume "bury io now k' t = Inr t'"
  from bury_entry [OF this] exclusive assms(1) show ?thesis by fastforce
qed (use assms(1) ack_dead retry_dead in fastforce)+

lemma only_ack_removes:
  assumes "pending t k \<noteq> None \<or> dead t k \<noteq> None" and "retry io now k' err t = Inr t' \<or> bury io now k' t = Inr t'"
  shows "pending t' k \<noteq> None \<or> dead t' k \<noteq> None"
  using assms(2)
proof (elim disjE)
  assume r: "retry io now k' err t = Inr t'"
  from retry_pending [OF r] retry_dead [OF r] assms(1) show ?thesis by auto
next
  assume "bury io now k' t = Inr t'"
  from bury_entry [OF this] assms(1) show ?thesis by auto
qed

end

lemma pending_facts: "pending_entry q t k = Some e \<Longrightarrow> de_id e = k \<and> failed_entry q t k = None"
  by (simp add: pending_entry_id pending_not_failed)

lemma delete_maps:
  assumes "deleteDeliveryQueueEntry io q k t = Inr t'"
  shows "pending_entry q t' = (pending_entry q t)(k := None)" and "failed_entry q t' = failed_entry q t"
  using assms by (auto simp: fun_eq_iff store_results store_simps pending_not_failed split: if_splits)

lemma update_maps:
  assumes "updateDeliveryQueueEntry io now q k f t = Inr t'" and "\<And>e. de_id (f e) = de_id e"
  shows "\<exists>e. pending_entry q t k = Some e \<and> pending_entry q t' = (pending_entry q t)(k \<mapsto> f e)"
    and "failed_entry q t' = failed_entry q t"
  using assms by (auto simp: fun_eq_iff store_results store_simps dest: pending_facts)

lemma move_maps:
  assumes "moveDeliveryQueueEntryToFailed io now q k t = Inr t'"
  shows "\<exists>e. pending_entry q t k = Some e \<and> pending_entry q t' = (pending_entry q t)(k := None)
    \<and> failed_entry q t' = (failed_entry q t)(k \<mapsto> e)"
  using assms by (auto simp: fun_eq_iff store_results store_simps dest: pending_entry_id)

interpretation outbound: durable_queue "pending_entry OUTBOUND" "failed_entry OUTBOUND" failed_attempt ackDelivery failDelivery
  moveToFailed
proof
qed (auto simp: ackDelivery_def failDelivery_def moveToFailed_def failed_attempt_def
    intro: pending_not_failed dest: delete_maps update_maps move_maps)

interpretation session: durable_queue "pending_entry SESSION" "failed_entry SESSION" failed_attempt ackSessionDelivery
  failSessionDelivery moveSessionDeliveryToFailed
proof
qed (auto simp: ackSessionDelivery_def failSessionDelivery_def moveSessionDeliveryToFailed_def failed_attempt_def
    intro: pending_not_failed dest: delete_maps update_maps move_maps)

text \<open>An operation on one queue does not touch the entries of another.\<close>

lemma other_queue_untouched:
  assumes "q' \<noteq> q"
    and "deleteDeliveryQueueEntry io q k t = Inr t' \<or> updateDeliveryQueueEntry io now q k f t = Inr t'
       \<or> moveDeliveryQueueEntryToFailed io now q k t = Inr t' \<or> upsertDeliveryQueueEntry io now q e md st t = Inr t'"
  shows "pending_entry q' t' = pending_entry q' t" and "failed_entry q' t' = failed_entry q' t"
  using assms by (auto simp: fun_eq_iff store_results store_simps split: if_splits)

end
