(* ===== verification/DeliveryQueue.thy ===== *)
theory DeliveryQueue
  imports DeliveryStore NumberCoercion
begin

text \<open>
  The workers of the queue of outbound messages: live sends (\<^verbatim>\<open>deliverOutboundPayloadsInternal\<close> and
  \<^verbatim>\<open>deliverOutboundPayloadsWithQueueCleanup\<close> of \<^verbatim>\<open>infra/outbound/deliver.ts\<close>), the recovery at start-up and the
  drains after a reconnect (\<^verbatim>\<open>infra/outbound/delivery-queue-recovery.ts\<close>).  They share the table and the
  in-memory set of claims.  A worker runs from one \<^verbatim>\<open>await\<close> to the next; an event continues one worker, or starts a
  new one, or is a crash of the process, which loses everything but the table.  The code that sends
  (\<^verbatim>\<open>deliverOutboundPayloadsCore\<close> and the adapters of the channels) is not modelled: its calls are entries of the
  history and its answers are events.
\<close>

section \<open>Retry policy\<close>

definition MAX_RETRIES :: int where "MAX_RETRIES = 5"

definition BACKOFF_MS :: "int list" where "BACKOFF_MS = [5000, 25000, 120000, 600000]"

definition computeBackoffMs :: "int \<Rightarrow> int" where
  "computeBackoffMs n = (if n \<le> 0 then 0 else BACKOFF_MS ! nat (min (n - 1) (int (length BACKOFF_MS) - 1)))"

text \<open>The milliseconds that remain of the backoff of an entry, or \<^const>\<open>None\<close> when it is eligible.\<close>

definition isEntryEligibleForRecoveryRetry :: "'p delivery_entry \<Rightarrow> int \<Rightarrow> int option" where
  "isEntryEligibleForRecoveryRetry e now =
     (let backoff = computeBackoffMs (retryCount e + 1) in
      if backoff \<le> 0 then None
      else
        (let firstReplayAfterCrash = (retryCount e = 0 \<and> lastAttemptAt e = None) in
         if firstReplayAfterCrash then None
         else
           (let hasAttemptTimestamp = (case lastAttemptAt e of None \<Rightarrow> False | Some attempted \<Rightarrow> attempted > 0);
                baseAttemptAt = (if hasAttemptTimestamp then or_default (lastAttemptAt e) (enqueuedAt e) else enqueuedAt e);
                nextEligibleAt = baseAttemptAt + backoff
            in if now \<ge> nextEligibleAt then None else Some (nextEligibleAt - now))))"

text \<open>The patterns of permanent errors: literal pieces with \<^verbatim>\<open>.*\<close> between them, which does not cross a line end.
  The flag \<^verbatim>\<open>i\<close> is a comparison of lower-case texts.\<close>

definition PERMANENT_ERROR_PATTERNS :: "string list list" where
  "PERMANENT_ERROR_PATTERNS =
     [[''no conversation reference found''], [''chat not found''], [''user not found''], [''bot'', ''not'', ''member''],
      [''bot was blocked by the user''], [''forbidden: bot was kicked''], [''chat_id is empty''],
      [''recipient is not a valid''], [''outbound not configured for channel''], [''ambiguous '', '' recipient''],
      [''user '', '' not in room'']]"

definition line_end :: "char \<Rightarrow> bool" where
  "line_end c \<longleftrightarrow> (let n = (of_char c :: nat) in n = 10 \<or> n = 13)"

function pieces_follow :: "string list \<Rightarrow> string \<Rightarrow> bool" where
  "pieces_follow [] s = True"
| "pieces_follow (p # ps) s =
     (starts_with s p \<and> pieces_follow ps (drop (length p) s)
      \<or> (case s of [] \<Rightarrow> False | c # cs \<Rightarrow> \<not> line_end c \<and> pieces_follow (p # ps) cs))"
  by pat_completeness auto
termination by (relation "measures [\<lambda>(ps, s). length ps, \<lambda>(ps, s). length s]") auto

fun pattern_found :: "string list \<Rightarrow> string \<Rightarrow> bool" where
  "pattern_found [] s = True"
| "pattern_found (p # ps) [] = (p = [] \<and> pieces_follow ps [])"
| "pattern_found (p # ps) (c # cs) =
     (starts_with (c # cs) p \<and> pieces_follow ps (drop (length p) (c # cs)) \<or> pattern_found (p # ps) cs)"

definition isPermanentDeliveryError :: "string \<Rightarrow> bool" where
  "isPermanentDeliveryError err \<longleftrightarrow> (\<exists>p \<in> set PERMANENT_ERROR_PATTERNS. pattern_found p (js_lower err))"

definition resolveRecoveryDeadlineMs :: "int \<Rightarrow> js_number option \<Rightarrow> js_number" where
  "resolveRecoveryDeadlineMs now maxRecoveryMs =
     (let durationMs = (case maxRecoveryMs of Some (Num q) \<Rightarrow> max 0 (js_trunc q) | _ \<Rightarrow> 60000);
          clock = Num (resolveDateTimestampMs (VNum (Num (of_int now))) (VNum (Num (of_int now))))
      in if durationMs \<le> 0 then clock
         else or_default (resolveExpiresAtMsFromDurationMs now (VNum (Num (of_int durationMs))) no_expiry_opts) clock)"

section \<open>The retry policy of session deliveries\<close>

definition MAX_SESSION_DELIVERY_RETRIES :: int where "MAX_SESSION_DELIVERY_RETRIES = 5"

definition computeSessionDeliveryBackoffMs :: "int \<Rightarrow> int" where
  "computeSessionDeliveryBackoffMs n =
     (if n \<le> 0 then 0 else BACKOFF_MS ! nat (min (n - 1) (int (length BACKOFF_MS) - 1)))"

definition resolveSessionDeliveryMaxRetries :: "'p delivery_entry \<Rightarrow> int" where
  "resolveSessionDeliveryMaxRetries e = or_default (de_maxRetries e) MAX_SESSION_DELIVERY_RETRIES"

definition resolveSessionDeliveryRecoveryDeadlineMs :: "int \<Rightarrow> js_value \<Rightarrow> js_number" where
  "resolveSessionDeliveryRecoveryDeadlineMs now maxRecoveryMs =
     (let durationMs = resolveNonNegativeIntegerOption maxRecoveryMs (Num 60000);
          clock = Num (resolveDateTimestampMs (VNum (Num (of_int now))) (VNum (Num (of_int now))))
      in if js_le durationMs (Num 0) then clock
         else or_default (resolveExpiresAtMsFromDurationMs now (VNum durationMs) no_expiry_opts) clock)"

definition isSessionDeliveryEligibleForRetry :: "'p delivery_entry \<Rightarrow> int \<Rightarrow> int option" where
  "isSessionDeliveryEligibleForRetry e now =
     (let backoff = computeSessionDeliveryBackoffMs (retryCount e) in
      if backoff \<le> 0 then None
      else
        (let firstReplayAfterCrash = (retryCount e = 0 \<and> lastAttemptAt e = None) in
         if firstReplayAfterCrash then None
         else
           (let baseAttemptAt = (case lastAttemptAt e of
                                   Some attempted \<Rightarrow> if attempted > 0 then attempted else enqueuedAt e
                                 | None \<Rightarrow> enqueuedAt e);
                nextEligibleAt = baseAttemptAt + backoff
            in if now \<ge> nextEligibleAt then None else Some (nextEligibleAt - now))))"

section \<open>Workers\<close>

datatype queue_policy = Required | BestEffort

record drain_decision =
  dd_match :: bool
  bypassBackoff :: bool

record recovery_summary =
  sum_recovered :: nat
  sum_failed :: nat
  skippedMaxRetries :: nat
  deferredBackoff :: nat

definition createEmptyRecoverySummary :: recovery_summary where
  "createEmptyRecoverySummary = \<lparr>sum_recovered = 0, sum_failed = 0, skippedMaxRetries = 0, deferredBackoff = 0\<rparr>"

datatype 'p job =
    LiveSend queue_policy
  | StartupRecovery "js_number option" js_number
  | ReconnectDrain string "'p delivery_entry \<Rightarrow> int \<Rightarrow> drain_decision" int

text \<open>Where a worker waits.  A live send: its entry is stored; the core sends (whether the start of the platform send is
  marked, whether a payload failed); the outcome is marked and the entry is to be acknowledged; the hooks run; it leaves; it sends without an entry.  A recovery
  or drain with the entries it has left: the entries are listed; the next one is to be claimed; it is claimed and read again;
  its outcome is being reconciled; it is being sent again; its acknowledgement failed with this text; the hooks run; it is
  to be released, or to be released on the way out of the loop.  The summary is that of a recovery; a drain has none.\<close>

datatype 'p point =
    LiveStored string
  | LiveSending string bool bool
  | LiveOutcomeMarked string
  | LiveHooks string
  | LiveLeaving string
  | LiveDirect
  | Listed "'p delivery_entry list"
  | NextEntry "'p delivery_entry list"
  | Reread string "'p delivery_entry option" "'p delivery_entry list"
  | Reconciling "'p delivery_entry" "'p delivery_entry list"
  | Replaying "'p delivery_entry" bool "'p delivery_entry list"
  | AckFailed "'p delivery_entry" string "'p delivery_entry list"
  | ReplayFailed "'p delivery_entry" string "'p delivery_entry list"
  | CommitHooks "'p delivery_entry" "'p delivery_entry list"
  | Releasing string "'p delivery_entry list"
  | Aborting string

record 'p worker =
  wk_job :: "'p job"
  wk_at :: "'p point"
  wk_summary :: recovery_summary

text \<open>What the adapter of a channel knows of a send that may have happened; \<open>NoReconciliation\<close> is \<^verbatim>\<open>null\<close>.\<close>

datatype reconciliation = WasSent | WasNotSent | Unresolved "string option" bool | NoReconciliation

datatype core_answer = CoreReturned | CoreRejected string bool

datatype conclusion = SentLive | AbortedLive | SentByReplay bool | FoundSent

datatype 'p delivery_output =
    Stored "'p delivery_entry"
  | CoreCalled nat string
  | StartMarked nat string
  | ReconcileCalled nat "'p delivery_entry"
  | NotSentReported nat string
  | ReplayCalled nat "'p delivery_entry"
  | Acknowledged nat string conclusion
  | AttemptRecorded nat string string
  | GivenUp nat string
  | DirectSend nat

record 'p delivery_state =
  table :: "'p delivery_table"
  entriesInProgress :: "string list"
  drainInProgress :: "string list"
  workers :: "(nat, 'p worker) js_map"
  next_worker :: nat
  next_uuid :: nat
  history :: "'p delivery_output list"

definition initial_deliveries :: "'p delivery_state" where
  "initial_deliveries =
     \<lparr>table = [], entriesInProgress = [], drainInProgress = [], workers = [], next_worker = 0, next_uuid = 0, history = []\<rparr>"

definition note_output :: "'p delivery_output \<Rightarrow> 'p delivery_state \<Rightarrow> 'p delivery_state" where
  "note_output x s = s\<lparr>history := history s @ [x]\<rparr>"

definition worker_waits :: "nat \<Rightarrow> 'p worker \<Rightarrow> 'p point \<Rightarrow> 'p delivery_state \<Rightarrow> 'p delivery_state" where
  "worker_waits i w p s = s\<lparr>workers := js_set i (w\<lparr>wk_at := p\<rparr>) (workers s)\<rparr>"

definition start_worker :: "'p job \<Rightarrow> 'p point \<Rightarrow> 'p delivery_state \<Rightarrow> 'p delivery_state" where
  "start_worker j p s =
     s\<lparr>workers := js_set (next_worker s) \<lparr>wk_job = j, wk_at = p, wk_summary = createEmptyRecoverySummary\<rparr> (workers s),
       next_worker := Suc (next_worker s)\<rparr>"

definition count_in :: "((nat \<Rightarrow> nat) \<Rightarrow> recovery_summary \<Rightarrow> recovery_summary) \<Rightarrow> 'p worker \<Rightarrow> 'p worker" where
  "count_in upd w = w\<lparr>wk_summary := upd Suc (wk_summary w)\<rparr>"

section \<open>Claims\<close>

definition claimRecoveryEntry :: "string \<Rightarrow> 'p delivery_state \<Rightarrow> bool \<times> 'p delivery_state" where
  "claimRecoveryEntry k s =
     (if k \<in> set (entriesInProgress s) then (False, s)
      else (True, s\<lparr>entriesInProgress := js_set_add k (entriesInProgress s)\<rparr>))"

definition releaseRecoveryEntry :: "string \<Rightarrow> 'p delivery_state \<Rightarrow> 'p delivery_state" where
  "releaseRecoveryEntry k s = s\<lparr>entriesInProgress := remove1 k (entriesInProgress s)\<rparr>"

text \<open>A worker ends; a drain gives its key free.\<close>

definition end_worker :: "nat \<Rightarrow> 'p worker \<Rightarrow> 'p delivery_state \<Rightarrow> 'p delivery_state" where
  "end_worker i w s =
     (let s1 = s\<lparr>workers := js_delete i (workers s)\<rparr>
      in case wk_job w of
           ReconnectDrain key _ _ \<Rightarrow> s1\<lparr>drainInProgress := remove1 key (drainInProgress s1)\<rparr>
         | _ \<Rightarrow> s1)"

section \<open>Live sends\<close>

text \<open>\<^verbatim>\<open>deliverOutboundPayloadsInternal\<close>: the entry is written before anything is sent.  A write that fails is an error for
  a required send, and a best-effort message is then sent without an entry.\<close>

definition begin_send ::
  "(nat \<Rightarrow> string) \<Rightarrow> string option \<Rightarrow> int \<Rightarrow> queue_policy \<Rightarrow> 'p outbound_payload \<Rightarrow> 'p delivery_state \<Rightarrow> 'p delivery_state" where
  "begin_send uuid io now policy p s =
     (let k = uuid (next_uuid s); s1 = s\<lparr>next_uuid := Suc (next_uuid s)\<rparr>
      in case enqueueDelivery io now k p (table s) of
           Inl _ \<Rightarrow>
             (if policy = Required then s1
              else note_output (DirectSend (next_worker s1)) (start_worker (LiveSend policy) LiveDirect s1))
         | Inr t \<Rightarrow> note_output (Stored (outbound_entry k now p)) (start_worker (LiveSend policy) (LiveStored k) (s1\<lparr>table := t\<rparr>)))"

definition markQueuedPlatformSendAttemptStarted ::
  "string option \<Rightarrow> int \<Rightarrow> string \<Rightarrow> queue_policy \<Rightarrow> 'p delivery_table \<Rightarrow> store_error + bool \<times> 'p delivery_table" where
  "markQueuedPlatformSendAttemptStarted io now k policy t =
     (case markDeliveryPlatformSendAttemptStarted io now k t of
        Inr t' \<Rightarrow> Inr (True, t')
      | Inl e \<Rightarrow> if policy = Required then Inl e else Inr (False, t))"

definition markQueuedPlatformOutcomeUnknown ::
  "string option \<Rightarrow> int \<Rightarrow> string \<Rightarrow> queue_policy \<Rightarrow> 'p delivery_table \<Rightarrow> store_error + 'p delivery_table" where
  "markQueuedPlatformOutcomeUnknown io now k policy t =
     (case markDeliveryPlatformOutcomeUnknown io now k t of
        Inr t' \<Rightarrow> Inr t'
      | Inl e \<Rightarrow> if policy = Required then Inl e else Inr t)"

text \<open>The adapter is about to send: the start is marked once.  A required send whose mark fails throws into the core.\<close>

definition platform_send_start :: "nat \<Rightarrow> string option \<Rightarrow> int \<Rightarrow> 'p delivery_state \<Rightarrow> 'p delivery_state" where
  "platform_send_start i io now s =
     (case js_get (workers s) i of
        None \<Rightarrow> s
      | Some w \<Rightarrow>
          (case (wk_job w, wk_at w) of
             (LiveSend policy, LiveSending k started partial_failure) \<Rightarrow>
               if started then s
               else
                 (case markQueuedPlatformSendAttemptStarted io now k policy (table s) of
                    Inl _ \<Rightarrow> s
                  | Inr (marked, t) \<Rightarrow>
                      (let s1 = worker_waits i w (LiveSending k marked partial_failure) (s\<lparr>table := t\<rparr>)
                       in if marked then note_output (StartMarked i k) s1 else s1))
           | _ \<Rightarrow> s))"

text \<open>A payload fails under best effort: \<^verbatim>\<open>onError\<close> of the wrapper.\<close>

definition payload_error :: "nat \<Rightarrow> 'p delivery_state \<Rightarrow> 'p delivery_state" where
  "payload_error i s =
     (case js_get (workers s) i of
        None \<Rightarrow> s
      | Some w \<Rightarrow>
          (case wk_at w of
             LiveSending k started partial_failure \<Rightarrow> worker_waits i w (LiveSending k started True) s
           | Replaying e partial_failure es \<Rightarrow> worker_waits i w (Replaying e True es) s
           | _ \<Rightarrow> s))"

text \<open>The core answers a live send: its results, or the text of the error it threw and whether it was an abort.\<close>

definition live_answer ::
  "nat \<Rightarrow> 'p worker \<Rightarrow> queue_policy \<Rightarrow> string \<Rightarrow> bool \<Rightarrow> bool \<Rightarrow> string option \<Rightarrow> int \<Rightarrow> core_answer
   \<Rightarrow> 'p delivery_state \<Rightarrow> 'p delivery_state" where
  "live_answer i w policy k started partial_failure io now a s =
     (case a of
        CoreReturned \<Rightarrow>
          if partial_failure then
            (case failDelivery io now k ''partial delivery failure (bestEffort)'' (table s) of
               Inl _ \<Rightarrow> worker_waits i w (LiveLeaving k) s
             | Inr t \<Rightarrow> note_output (AttemptRecorded i k ''partial delivery failure (bestEffort)'')
                          (worker_waits i w (LiveLeaving k) (s\<lparr>table := t\<rparr>)))
          else if started then
            (case markQueuedPlatformOutcomeUnknown io now k policy (table s) of
               Inl _ \<Rightarrow> worker_waits i w (LiveLeaving k) s
             | Inr t \<Rightarrow> worker_waits i w (LiveOutcomeMarked k) (s\<lparr>table := t\<rparr>))
          else
            (case ackDelivery io k (table s) of
               Inl _ \<Rightarrow> worker_waits i w (LiveLeaving k) s
             | Inr t \<Rightarrow> note_output (Acknowledged i k SentLive) (worker_waits i w (LiveHooks k) (s\<lparr>table := t\<rparr>)))
      | CoreRejected msg aborted \<Rightarrow>
          if aborted then
            (case ackDelivery io k (table s) of
               Inl _ \<Rightarrow> worker_waits i w (LiveLeaving k) s
             | Inr t \<Rightarrow> note_output (Acknowledged i k AbortedLive) (worker_waits i w (LiveLeaving k) (s\<lparr>table := t\<rparr>)))
          else
            (case failDelivery io now k msg (table s) of
               Inl _ \<Rightarrow> worker_waits i w (LiveLeaving k) s
             | Inr t \<Rightarrow> note_output (AttemptRecorded i k msg) (worker_waits i w (LiveLeaving k) (s\<lparr>table := t\<rparr>))))"

section \<open>Recovery and drains\<close>

text \<open>\<^verbatim>\<open>recoverPendingDeliveries\<close> and \<^verbatim>\<open>drainPendingDeliveries\<close> list the pending entries; when that fails they throw.\<close>

definition begin_recovery :: "string option \<Rightarrow> js_number option \<Rightarrow> 'p delivery_state \<Rightarrow> 'p delivery_state" where
  "begin_recovery io maxRecoveryMs s =
     (case loadPendingDeliveries io (table s) of
        Inl _ \<Rightarrow> s
      | Inr es \<Rightarrow> start_worker (StartupRecovery maxRecoveryMs NaN) (Listed es) s)"

definition begin_drain ::
  "string option \<Rightarrow> int \<Rightarrow> string \<Rightarrow> ('p delivery_entry \<Rightarrow> int \<Rightarrow> drain_decision) \<Rightarrow> 'p delivery_state \<Rightarrow> 'p delivery_state" where
  "begin_drain io now key selectEntry s =
     (if key \<in> set (drainInProgress s) then s
      else
        (case loadPendingDeliveries io (table s) of
           Inl _ \<Rightarrow> s
         | Inr es \<Rightarrow>
             start_worker (ReconnectDrain key selectEntry now) (Listed es)
               (s\<lparr>drainInProgress := js_set_add key (drainInProgress s)\<rparr>)))"

text \<open>The listed entries: a drain keeps those its client selects, a recovery takes all and fixes its deadline.\<close>

definition work_list :: "nat \<Rightarrow> 'p worker \<Rightarrow> 'p delivery_entry list \<Rightarrow> int \<Rightarrow> 'p delivery_state \<Rightarrow> 'p delivery_state" where
  "work_list i w es now s =
     (case wk_job w of
        ReconnectDrain key selectEntry started \<Rightarrow>
          worker_waits i w (NextEntry (sort_key enqueuedAt (filter (\<lambda>e. dd_match (selectEntry e started)) es))) s
      | StartupRecovery mx _ \<Rightarrow>
          worker_waits i (w\<lparr>wk_job := StartupRecovery mx (resolveRecoveryDeadlineMs now mx)\<rparr>) (NextEntry (sort_key enqueuedAt es)) s
      | LiveSend _ \<Rightarrow> s)"

definition budget_spent :: "'p worker \<Rightarrow> int \<Rightarrow> bool" where
  "budget_spent w now \<longleftrightarrow> (case wk_job w of StartupRecovery _ deadline \<Rightarrow> js_le deadline (Num (of_int now)) | _ \<Rightarrow> False)"

text \<open>The head of the loop: the budget, the claim, and the entry read again under it.\<close>

definition claim_next ::
  "nat \<Rightarrow> 'p worker \<Rightarrow> 'p delivery_entry list \<Rightarrow> string option \<Rightarrow> int \<Rightarrow> 'p delivery_state \<Rightarrow> 'p delivery_state" where
  "claim_next i w es io now s =
     (case es of
        [] \<Rightarrow> end_worker i w s
      | e # rest \<Rightarrow>
          if budget_spent w now then end_worker i w s
          else
            (case claimRecoveryEntry (de_id e) s of
               (False, s1) \<Rightarrow> worker_waits i w (NextEntry rest) s1
             | (True, s1) \<Rightarrow>
                 (case loadPendingDelivery io (de_id e) (table s1) of
                    Inl _ \<Rightarrow> worker_waits i w (Aborting (de_id e)) s1
                  | Inr current \<Rightarrow> worker_waits i w (Reread (de_id e) current rest) s1)))"

definition needs_reconciliation :: "'p delivery_entry \<Rightarrow> bool" where
  "needs_reconciliation e \<longleftrightarrow> recoveryState e = Some ''send_attempt_started'' \<or> recoveryState e = Some ''unknown_after_send''"

text \<open>The begin of \<^verbatim>\<open>drainQueuedEntry\<close>: either the adapter is asked, or the message is sent again.\<close>

definition call_replay :: "nat \<Rightarrow> 'p worker \<Rightarrow> 'p delivery_entry \<Rightarrow> 'p delivery_entry list \<Rightarrow> 'p delivery_state \<Rightarrow> 'p delivery_state" where
  "call_replay i w e es s = note_output (ReplayCalled i e) (worker_waits i w (Replaying e False es) s)"

definition begin_entry :: "nat \<Rightarrow> 'p worker \<Rightarrow> 'p delivery_entry \<Rightarrow> 'p delivery_entry list \<Rightarrow> 'p delivery_state \<Rightarrow> 'p delivery_state" where
  "begin_entry i w e es s =
     (if needs_reconciliation e then note_output (ReconcileCalled i e) (worker_waits i w (Reconciling e es) s)
      else call_replay i w e es s)"

text \<open>Too many retries: the entry is given up.  Only a drain lets an error of the database other than a missing entry out.\<close>

definition give_up_entry ::
  "nat \<Rightarrow> 'p worker \<Rightarrow> 'p delivery_entry \<Rightarrow> 'p delivery_entry list \<Rightarrow> string option \<Rightarrow> int \<Rightarrow> 'p delivery_state \<Rightarrow> 'p delivery_state" where
  "give_up_entry i w e es io now s =
     (case moveToFailed io now (de_id e) (table s) of
        Inr t \<Rightarrow> note_output (GivenUp i (de_id e))
                   (worker_waits i (count_in skippedMaxRetries_update w) (Releasing (de_id e) es) (s\<lparr>table := t\<rparr>))
      | Inl err \<Rightarrow>
          (case (wk_job w, err) of
             (ReconnectDrain _ _ _, SqliteError _) \<Rightarrow> worker_waits i w (Aborting (de_id e)) s
           | _ \<Rightarrow> worker_waits i (count_in skippedMaxRetries_update w) (Releasing (de_id e) es) s))"

definition skips_backoff :: "'p worker \<Rightarrow> 'p delivery_entry \<Rightarrow> int \<Rightarrow> bool" where
  "skips_backoff w e now \<longleftrightarrow> (case wk_job w of ReconnectDrain _ selectEntry _ \<Rightarrow> bypassBackoff (selectEntry e now) | _ \<Rightarrow> False)"

definition still_selected :: "'p worker \<Rightarrow> 'p delivery_entry \<Rightarrow> int \<Rightarrow> bool" where
  "still_selected w e now \<longleftrightarrow> (case wk_job w of ReconnectDrain _ selectEntry _ \<Rightarrow> dd_match (selectEntry e now) | _ \<Rightarrow> True)"

definition examine_entry ::
  "nat \<Rightarrow> 'p worker \<Rightarrow> string \<Rightarrow> 'p delivery_entry option \<Rightarrow> 'p delivery_entry list \<Rightarrow> string option \<Rightarrow> int
   \<Rightarrow> 'p delivery_state \<Rightarrow> 'p delivery_state" where
  "examine_entry i w k current es io now s =
     (case current of
        None \<Rightarrow> worker_waits i w (Releasing k es) s
      | Some e \<Rightarrow>
          if \<not> still_selected w e now then worker_waits i w (Releasing k es) s
          else if retryCount e \<ge> MAX_RETRIES then give_up_entry i w e es io now s
          else if \<not> skips_backoff w e now \<and> isEntryEligibleForRecoveryRetry e now \<noteq> None
          then worker_waits i (count_in deferredBackoff_update w) (Releasing k es) s
          else begin_entry i w e es s)"

text \<open>A failed attempt is recorded; an entry that cannot be delivered is given up.  The errors of the database end here.\<close>

definition record_failure ::
  "nat \<Rightarrow> 'p worker \<Rightarrow> 'p delivery_entry \<Rightarrow> string \<Rightarrow> 'p delivery_entry list \<Rightarrow> string option \<Rightarrow> int
   \<Rightarrow> 'p delivery_state \<Rightarrow> 'p delivery_state" where
  "record_failure i w e msg es io now s =
     (case failDelivery io now (de_id e) msg (table s) of
        Inr t \<Rightarrow> note_output (AttemptRecorded i (de_id e) msg) (worker_waits i w (Releasing (de_id e) es) (s\<lparr>table := t\<rparr>))
      | Inl _ \<Rightarrow> worker_waits i w (Releasing (de_id e) es) s)"

definition bury_entry ::
  "nat \<Rightarrow> 'p worker \<Rightarrow> 'p delivery_entry \<Rightarrow> 'p delivery_entry list \<Rightarrow> string option \<Rightarrow> int \<Rightarrow> 'p delivery_state \<Rightarrow> 'p delivery_state" where
  "bury_entry i w e es io now s =
     (case moveToFailed io now (de_id e) (table s) of
        Inr t \<Rightarrow> note_output (GivenUp i (de_id e)) (worker_waits i w (Releasing (de_id e) es) (s\<lparr>table := t\<rparr>))
      | Inl _ \<Rightarrow> worker_waits i w (Releasing (de_id e) es) s)"

text \<open>The answer of the adapter.\<close>

definition reconciled ::
  "nat \<Rightarrow> 'p worker \<Rightarrow> 'p delivery_entry \<Rightarrow> 'p delivery_entry list \<Rightarrow> string option \<Rightarrow> int \<Rightarrow> reconciliation
   \<Rightarrow> 'p delivery_state \<Rightarrow> 'p delivery_state" where
  "reconciled i w e es io now r s =
     (let state_text = ''delivery state is '' @ or_default (recoveryState e) [];
          refusal = state_text @ ''; refusing blind replay without adapter reconciliation''
      in case r of
           WasSent \<Rightarrow>
             (case ackDelivery io (de_id e) (table s) of
                Inr t \<Rightarrow> note_output (Acknowledged i (de_id e) FoundSent) (worker_waits i w (CommitHooks e es) (s\<lparr>table := t\<rparr>))
              | Inl err \<Rightarrow> worker_waits i w
                  (AckFailed e (''failed to ack reconciled sent delivery: '' @ store_error_message err) es) s)
         | WasNotSent \<Rightarrow> call_replay i w e es (note_output (NotSentReported i (de_id e)) s)
         | Unresolved err retryable \<Rightarrow>
             (let msg = (case err of
                           Some x \<Rightarrow> if x = [] then refusal else state_text @ '' and reconciliation is unresolved: '' @ x
                         | None \<Rightarrow> refusal);
                  w1 = count_in sum_failed_update w
              in if retryable then record_failure i w1 e msg es io now s else bury_entry i w1 e es io now s)
         | NoReconciliation \<Rightarrow> bury_entry i (count_in sum_failed_update w) e es io now s)"

text \<open>The replay answers.  It runs without the queue, so a payload that fails under best effort leaves no trace.\<close>

definition replay_answer ::
  "nat \<Rightarrow> 'p worker \<Rightarrow> 'p delivery_entry \<Rightarrow> bool \<Rightarrow> 'p delivery_entry list \<Rightarrow> string option \<Rightarrow> int \<Rightarrow> core_answer
   \<Rightarrow> 'p delivery_state \<Rightarrow> 'p delivery_state" where
  "replay_answer i w e partial_failure es io now a s =
     (case a of
        CoreReturned \<Rightarrow>
          (case ackDelivery io (de_id e) (table s) of
             Inr t \<Rightarrow> note_output (Acknowledged i (de_id e) (SentByReplay partial_failure))
                        (worker_waits i w (CommitHooks e es) (s\<lparr>table := t\<rparr>))
           | Inl err \<Rightarrow> worker_waits i w (ReplayFailed e (store_error_message err) es) s)
      | CoreRejected msg _ \<Rightarrow>
          (let w1 = count_in sum_failed_update w
           in if isPermanentDeliveryError msg then bury_entry i w1 e es io now s else record_failure i w1 e msg es io now s))"

section \<open>The machine\<close>

text \<open>A worker goes on after an \<^verbatim>\<open>await\<close> that needs no answer from outside.\<close>

definition continue_worker :: "nat \<Rightarrow> string option \<Rightarrow> int \<Rightarrow> 'p delivery_state \<Rightarrow> 'p delivery_state" where
  "continue_worker i io now s =
     (case js_get (workers s) i of
        None \<Rightarrow> s
      | Some w \<Rightarrow>
          (case wk_at w of
             LiveStored k \<Rightarrow>
               (case claimRecoveryEntry k s of
                  (False, s1) \<Rightarrow> end_worker i w s1
                | (True, s1) \<Rightarrow> note_output (CoreCalled i k) (worker_waits i w (LiveSending k False False) s1))
           | LiveOutcomeMarked k \<Rightarrow>
               (case ackDelivery io k (table s) of
                  Inl _ \<Rightarrow> worker_waits i w (LiveLeaving k) s
                | Inr t \<Rightarrow> note_output (Acknowledged i k SentLive) (worker_waits i w (LiveHooks k) (s\<lparr>table := t\<rparr>)))
           | LiveHooks k \<Rightarrow> worker_waits i w (LiveLeaving k) s
           | LiveLeaving k \<Rightarrow> end_worker i w (releaseRecoveryEntry k s)
           | Listed es \<Rightarrow> work_list i w es now s
           | NextEntry es \<Rightarrow> claim_next i w es io now s
           | Reread k current es \<Rightarrow> examine_entry i w k current es io now s
           | AckFailed e msg es \<Rightarrow> record_failure i (count_in sum_failed_update w) e msg es io now s
           | ReplayFailed e msg es \<Rightarrow>
               (let w1 = count_in sum_failed_update w
                in if isPermanentDeliveryError msg then bury_entry i w1 e es io now s else record_failure i w1 e msg es io now s)
           | CommitHooks e es \<Rightarrow> worker_waits i (count_in sum_recovered_update w) (Releasing (de_id e) es) s
           | Releasing k es \<Rightarrow> worker_waits i w (NextEntry es) (releaseRecoveryEntry k s)
           | Aborting k \<Rightarrow> end_worker i w (releaseRecoveryEntry k s)
           | _ \<Rightarrow> s))"

definition core_answers :: "nat \<Rightarrow> string option \<Rightarrow> int \<Rightarrow> core_answer \<Rightarrow> 'p delivery_state \<Rightarrow> 'p delivery_state" where
  "core_answers i io now a s =
     (case js_get (workers s) i of
        None \<Rightarrow> s
      | Some w \<Rightarrow>
          (case (wk_job w, wk_at w) of
             (LiveSend policy, LiveSending k started partial_failure) \<Rightarrow>
               live_answer i w policy k started partial_failure io now a s
           | (LiveSend policy, LiveDirect) \<Rightarrow> end_worker i w s
           | (_, Replaying e partial_failure es) \<Rightarrow> replay_answer i w e partial_failure es io now a s
           | _ \<Rightarrow> s))"

definition adapter_answers :: "nat \<Rightarrow> string option \<Rightarrow> int \<Rightarrow> reconciliation \<Rightarrow> 'p delivery_state \<Rightarrow> 'p delivery_state" where
  "adapter_answers i io now r s =
     (case js_get (workers s) i of
        None \<Rightarrow> s
      | Some w \<Rightarrow> (case wk_at w of Reconciling e es \<Rightarrow> reconciled i w e es io now r s | _ \<Rightarrow> s))"

text \<open>The process ends and starts again: only the table is left (the history and the ids drawn are not state of the code).\<close>

definition crash :: "'p delivery_state \<Rightarrow> 'p delivery_state" where
  "crash s = s\<lparr>entriesInProgress := [], drainInProgress := [], workers := []\<rparr>"

datatype 'p delivery_event =
    Send "string option" int queue_policy "'p outbound_payload"
  | Recover "string option" "js_number option"
  | Reconnect "string option" int string "'p delivery_entry \<Rightarrow> int \<Rightarrow> drain_decision"
  | Continue nat "string option" int
  | PlatformSendStart nat "string option" int
  | PayloadError nat
  | CoreAnswers nat "string option" int core_answer
  | AdapterAnswers nat "string option" int reconciliation
  | Crash

fun delivery_step :: "(nat \<Rightarrow> string) \<Rightarrow> 'p delivery_event \<Rightarrow> 'p delivery_state \<Rightarrow> 'p delivery_state" where
  "delivery_step uuid (Send io now policy p) s = begin_send uuid io now policy p s"
| "delivery_step uuid (Recover io mx) s = begin_recovery io mx s"
| "delivery_step uuid (Reconnect io now key sel) s = begin_drain io now key sel s"
| "delivery_step uuid (Continue i io now) s = continue_worker i io now s"
| "delivery_step uuid (PlatformSendStart i io now) s = platform_send_start i io now s"
| "delivery_step uuid (PayloadError i) s = payload_error i s"
| "delivery_step uuid (CoreAnswers i io now a) s = core_answers i io now a s"
| "delivery_step uuid (AdapterAnswers i io now r) s = adapter_answers i io now r s"
| "delivery_step uuid Crash s = crash s"

definition run_deliveries :: "(nat \<Rightarrow> string) \<Rightarrow> 'p delivery_event list \<Rightarrow> 'p delivery_state" where
  "run_deliveries uuid es = fold (delivery_step uuid) es initial_deliveries"

end
