(* ===== verification/DeliveryProtocol.thy ===== *)
theory DeliveryProtocol
  imports DeliveryQueue
begin

text \<open>
  The protocol the workers of the outbound queue are to follow, as an abstract machine: the pending entries and the
  dead letters as maps, which worker holds which entry, which entry it has read under its claim and whether it is
  sending it again.  The invariants of the queue are proved here, by induction over the reachable states; that the code
  of the workers follows the protocol is proved in \<^verbatim>\<open>DeliveryRefine\<close>.
\<close>

record 'p protocol =
  pend :: "string \<Rightarrow> 'p delivery_entry option"
  dead :: "string \<Rightarrow> 'p delivery_entry option"
  holds :: "nat \<Rightarrow> string option"
  hand :: "nat \<Rightarrow> 'p delivery_entry option"
  sending :: "nat \<Rightarrow> bool"
  drawn :: nat
  lost :: nat
  told :: "'p delivery_output list"

definition protocol_start :: "'p protocol" where
  "protocol_start =
     \<lparr>pend = (\<lambda>_. None), dead = (\<lambda>_. None), holds = (\<lambda>_. None), hand = (\<lambda>_. None), sending = (\<lambda>_. False),
      drawn = 0, lost = 0, told = []\<rparr>"

text \<open>The outputs that carry no obligation.\<close>

fun plain_output :: "'p delivery_output \<Rightarrow> bool" where
  "plain_output (CoreCalled i k) = True"
| "plain_output (ReconcileCalled i e) = True"
| "plain_output (NotSentReported i k) = True"
| "plain_output (DirectSend i) = True"
| "plain_output _ = False"

definition same_message :: "'p delivery_entry \<Rightarrow> 'p delivery_entry \<Rightarrow> bool" where
  "same_message e e' \<longleftrightarrow>
     e' = e\<lparr>retryCount := retryCount e', lastAttemptAt := lastAttemptAt e', lastError := lastError e',
            platformSendStartedAt := platformSendStartedAt e', recoveryState := recoveryState e'\<rparr>"

definition holds_none :: "nat \<Rightarrow> 'p protocol \<Rightarrow> 'p protocol" where
  "holds_none i a = a\<lparr>hand := (hand a)(i := None), sending := (sending a)(i := False)\<rparr>"

inductive action :: "(nat \<Rightarrow> string) \<Rightarrow> 'p protocol \<Rightarrow> 'p protocol \<Rightarrow> bool" for uuid where
  store: "de_id e = uuid (drawn a) \<Longrightarrow> retryCount e = 0 \<Longrightarrow>
    action uuid a (a\<lparr>pend := (pend a)(de_id e \<mapsto> e), dead := (dead a)(de_id e := None), drawn := Suc (drawn a),
                     told := told a @ [Stored e]\<rparr>)"
| draw: "action uuid a (a\<lparr>drawn := Suc (drawn a)\<rparr>)"
| claim: "holds a i = None \<Longrightarrow> \<forall>j. holds a j \<noteq> Some k \<Longrightarrow> h = None \<or> h = pend a k \<Longrightarrow>
    action uuid a (a\<lparr>holds := (holds a)(i \<mapsto> k), hand := (hand a)(i := h)\<rparr>)"
| tell: "plain_output x \<Longrightarrow> action uuid a (a\<lparr>told := told a @ [x]\<rparr>)"
| mark: "holds a i = Some k \<Longrightarrow> hand a i = None \<Longrightarrow> pend a k = Some e \<Longrightarrow>
    m = ''send_attempt_started'' \<or> m = ''unknown_after_send'' \<Longrightarrow> hs = [] \<or> hs = [StartMarked i k] \<Longrightarrow>
    action uuid a (a\<lparr>pend := (pend a)(k \<mapsto> send_mark now m e), told := told a @ hs\<rparr>)"
| replay: "hand a i = Some e \<Longrightarrow> \<not> sending a i \<Longrightarrow> retryCount e < MAX_RETRIES \<Longrightarrow>
    needs_reconciliation e \<longrightarrow> (\<exists>xs. told a = xs @ [NotSentReported i (de_id e)]) \<Longrightarrow>
    action uuid a (a\<lparr>sending := (sending a)(i := True), told := told a @ [ReplayCalled i e]\<rparr>)"
| ack: "holds a i = Some k \<Longrightarrow>
    action uuid a ((holds_none i a)\<lparr>pend := (pend a)(k := None), told := told a @ [Acknowledged i k c]\<rparr>)"
| attempt: "holds a i = Some k \<Longrightarrow> pend a k = Some e \<Longrightarrow>
    action uuid a ((holds_none i a)\<lparr>pend := (pend a)(k \<mapsto> failed_attempt now err e),
                                    told := told a @ [AttemptRecorded i k err]\<rparr>)"
| bury: "holds a i = Some k \<Longrightarrow> pend a k = Some e \<Longrightarrow>
    action uuid a ((holds_none i a)\<lparr>pend := (pend a)(k := None), dead := (dead a)(k \<mapsto> e), told := told a @ [GivenUp i k]\<rparr>)"
| forget: "\<not> sending a i \<Longrightarrow> action uuid a (holds_none i a)"
| lose: "action uuid a ((holds_none i a)\<lparr>lost := Suc (lost a)\<rparr>)"
| waste: "action uuid a (a\<lparr>lost := Suc (lost a)\<rparr>)"
| release: "\<not> sending a i \<Longrightarrow> action uuid a ((holds_none i a)\<lparr>holds := (holds a)(i := None)\<rparr>)"
| crash: "action uuid a (a\<lparr>holds := (\<lambda>_. None), hand := (\<lambda>_. None), sending := (\<lambda>_. False), lost := Suc (lost a)\<rparr>)"

inductive protocol_reach :: "(nat \<Rightarrow> string) \<Rightarrow> 'p protocol \<Rightarrow> bool" for uuid where
  start: "protocol_reach uuid protocol_start"
| act: "protocol_reach uuid a \<Longrightarrow> action uuid a b \<Longrightarrow> protocol_reach uuid b"

lemma reach_actions: "(action uuid)\<^sup>*\<^sup>* a b \<Longrightarrow> protocol_reach uuid a \<Longrightarrow> protocol_reach uuid b"
  by (induction rule: rtranclp_induct) (auto intro: protocol_reach.act)

lemma same_message_refl [simp]: "same_message e e"
  by (simp add: same_message_def)

lemma same_message_trans: "same_message a b \<Longrightarrow> same_message b c \<Longrightarrow> same_message a c"
  unfolding same_message_def by (cases a; cases b; cases c) simp

lemma same_message_mark [simp]: "same_message e (send_mark now m e)"
  by (simp add: same_message_def send_mark_def)

lemma same_message_attempt [simp]: "same_message e (failed_attempt now err e)"
  by (simp add: same_message_def failed_attempt_def)

lemma same_message_id: "same_message a b \<Longrightarrow> de_id b = de_id a"
  unfolding same_message_def by (cases a; cases b) simp

lemma id_mark [simp]: "de_id (send_mark now m e) = de_id e"
  by (simp add: send_mark_def)

lemma id_attempt [simp]: "de_id (failed_attempt now err e) = de_id e"
  by (simp add: failed_attempt_def)

lemma retry_mark [simp]: "retryCount (send_mark now m e) = retryCount e"
  by (simp add: send_mark_def)

lemma retry_attempt [simp]: "retryCount (failed_attempt now err e) = retryCount e + 1"
  by (simp add: failed_attempt_def)

lemma needs_attempt [simp]: "needs_reconciliation (failed_attempt now err e) = needs_reconciliation e"
  by (simp add: failed_attempt_def needs_reconciliation_def)

lemma needs_mark: "m = ''send_attempt_started'' \<or> m = ''unknown_after_send'' \<Longrightarrow> needs_reconciliation (send_mark now m e)"
  by (auto simp: send_mark_def needs_reconciliation_def)

lemma holds_none_simps [simp]:
  "pend (holds_none i a) = pend a" "dead (holds_none i a) = dead a" "holds (holds_none i a) = holds a"
  "hand (holds_none i a) = (hand a)(i := None)" "sending (holds_none i a) = (sending a)(i := False)"
  "drawn (holds_none i a) = drawn a" "lost (holds_none i a) = lost a" "told (holds_none i a) = told a"
  by (simp_all add: holds_none_def)

section \<open>Ownership\<close>

definition owned :: "'p protocol \<Rightarrow> bool" where
  "owned a \<longleftrightarrow>
     (\<forall>i j k. holds a i = Some k \<longrightarrow> holds a j = Some k \<longrightarrow> i = j)
     \<and> (\<forall>k e. pend a k = Some e \<longrightarrow> de_id e = k)
     \<and> (\<forall>i e. hand a i = Some e \<longrightarrow> holds a i = Some (de_id e) \<and> pend a (de_id e) = Some e)
     \<and> (\<forall>i. sending a i \<longrightarrow> (\<exists>e. hand a i = Some e \<and> retryCount e < MAX_RETRIES))"

definition known_ids :: "'p protocol \<Rightarrow> string set" where
  "known_ids a =
     dom (pend a) \<union> dom (dead a) \<union> de_id ` {e. Stored e \<in> set (told a)} \<union> {k. \<exists>i. StartMarked i k \<in> set (told a)}
     \<union> de_id ` {e. \<exists>i. ReplayCalled i e \<in> set (told a)}"

definition dated :: "(nat \<Rightarrow> string) \<Rightarrow> 'p protocol \<Rightarrow> bool" where
  "dated uuid a \<longleftrightarrow> known_ids a \<subseteq> uuid ` {..<drawn a}"

lemma owned_holder: "owned a \<Longrightarrow> hand a j = Some e \<Longrightarrow> holds a i = Some (de_id e) \<Longrightarrow> j = i"
  by (auto simp: owned_def)

lemma owned_hand: "owned a \<Longrightarrow> hand a i = Some e \<Longrightarrow> holds a i = Some (de_id e) \<and> pend a (de_id e) = Some e"
  by (simp add: owned_def)

lemma dated_start [simp]: "dated uuid protocol_start"
  by (auto simp: dated_def known_ids_def protocol_start_def)

lemma owned_start [simp]: "owned protocol_start"
  by (simp add: owned_def protocol_start_def)

lemma fresh_id: "inj uuid \<Longrightarrow> dated uuid a \<Longrightarrow> uuid (drawn a) \<notin> known_ids a"
  unfolding dated_def by (metis (no_types, lifting) image_iff inj_eq lessThan_iff less_irrefl subsetD)

lemma fresh_entry: "inj uuid \<Longrightarrow> dated uuid a \<Longrightarrow> pend a (uuid (drawn a)) = None \<and> dead a (uuid (drawn a)) = None"
  using fresh_id [of uuid a] by (auto simp: known_ids_def dom_def)

lemma fresh_stored: "inj uuid \<Longrightarrow> dated uuid a \<Longrightarrow> Stored e \<in> set (told a) \<Longrightarrow> de_id e \<noteq> uuid (drawn a)"
  using fresh_id [of uuid a] by (force simp: known_ids_def)

lemma fresh_marked: "inj uuid \<Longrightarrow> dated uuid a \<Longrightarrow> StartMarked i k \<in> set (told a) \<Longrightarrow> k \<noteq> uuid (drawn a)"
  using fresh_id [of uuid a] by (auto simp: known_ids_def)

lemma fresh_replayed: "inj uuid \<Longrightarrow> dated uuid a \<Longrightarrow> ReplayCalled i e \<in> set (told a) \<Longrightarrow> de_id e \<noteq> uuid (drawn a)"
  using fresh_id [of uuid a] by (force simp: known_ids_def)

text \<open>No action but a store learns of a new id.\<close>

lemma known_ids_action:
  assumes "action uuid a b" and "owned a"
  shows "known_ids b \<subseteq> known_ids a \<union> uuid ` {..<drawn b}" and "drawn a \<le> drawn b"
proof -
  show "known_ids b \<subseteq> known_ids a \<union> uuid ` {..<drawn b}"
    using assms(1)
  proof (cases rule: action.cases)
    case (store e)
    then show ?thesis by (auto simp: known_ids_def)
  next
    case (tell x)
    then show ?thesis by (cases x) (auto simp: known_ids_def)
  next
    case (replay i e)
    then have "pend a (de_id e) = Some e" using assms(2) by (auto simp: owned_def)
    with replay show ?thesis by (auto simp: known_ids_def)
  qed (auto simp: known_ids_def)
  show "drawn a \<le> drawn b" using assms(1) by (cases rule: action.cases) auto
qed

lemma dated_action:
  assumes "action uuid a b" and "dated uuid a" and "owned a"
  shows "dated uuid b"
proof -
  have "uuid ` {..<drawn a} \<subseteq> uuid ` {..<drawn b}"
    using known_ids_action(2) [OF assms(1,3)] by (intro image_mono) auto
  then show ?thesis using known_ids_action(1) [OF assms(1,3)] assms(2) unfolding dated_def by blast
qed

lemma owned_action:
  assumes "action uuid a b" and "owned a" and "dated uuid a" and "inj uuid"
  shows "owned b"
  using assms(1)
proof (cases rule: action.cases)
  case (store e)
  have "pend a (de_id e) = None" using fresh_entry [OF assms(4,3)] store(2) by simp
  then have "hand a j = Some e' \<Longrightarrow> de_id e' \<noteq> de_id e" for j e' using owned_hand [OF assms(2), of j e'] by auto
  with store(1) assms(2) show ?thesis by (auto simp: owned_def)
next
  case (claim i k h)
  then show ?thesis using assms(2) by (auto simp: owned_def)
next
  case (mark i k e m hs now)
  then have "hand a j = Some e' \<Longrightarrow> de_id e' \<noteq> k" for j e' using assms(2) owned_holder [OF assms(2), of j e' i] by auto
  then show ?thesis using mark assms(2) by (auto simp: owned_def)
next
  case (ack i k c)
  then have "j \<noteq> i \<Longrightarrow> hand a j = Some e' \<Longrightarrow> de_id e' \<noteq> k" for j e' using assms(2) owned_holder [OF assms(2), of j e' i] by auto
  then show ?thesis using ack assms(2) by (auto simp: owned_def)
next
  case (attempt i k e now err)
  then have "j \<noteq> i \<Longrightarrow> hand a j = Some e' \<Longrightarrow> de_id e' \<noteq> k" for j e' using assms(2) owned_holder [OF assms(2), of j e' i] by auto
  then show ?thesis using attempt assms(2) by (auto simp: owned_def)
next
  case (bury i k e)
  then have "j \<noteq> i \<Longrightarrow> hand a j = Some e' \<Longrightarrow> de_id e' \<noteq> k" for j e' using assms(2) owned_holder [OF assms(2), of j e' i] by auto
  then show ?thesis using bury assms(2) by (auto simp: owned_def)
qed (use assms(2) in \<open>auto simp: owned_def\<close>)

lemma reach_owned:
  assumes "protocol_reach uuid a" and "inj uuid"
  shows "owned a \<and> dated uuid a"
  using assms by (induction rule: protocol_reach.induct) (auto dest: owned_action dated_action)

section \<open>Entries are kept\<close>

text \<open>A stored message is pending, or among the dead letters because a worker gave it up, or acknowledged.\<close>

definition kept :: "'p protocol \<Rightarrow> bool" where
  "kept a \<longleftrightarrow>
     (\<forall>e. Stored e \<in> set (told a) \<longrightarrow>
        (\<exists>e'. pend a (de_id e) = Some e' \<and> same_message e e')
        \<or> (\<exists>e'. dead a (de_id e) = Some e' \<and> same_message e e')
        \<or> (\<exists>i c. Acknowledged i (de_id e) c \<in> set (told a)))
     \<and> (\<forall>k. dead a k \<noteq> None \<longrightarrow> pend a k = None \<and> (\<exists>i. GivenUp i k \<in> set (told a)))"

lemma kept_action:
  assumes "action uuid a b" and "kept a" and "owned a" and "dated uuid a" and "inj uuid"
  shows "kept b"
  using assms(1)
proof (cases rule: action.cases)
  case (store e)
  have "de_id e' \<noteq> de_id e" if "Stored e' \<in> set (told a)" for e'
    using that fresh_stored [OF assms(5,4)] store(2) by simp
  with store assms(2) show ?thesis by (auto simp: kept_def)
next
  case (mark i k e m hs now)
  then show ?thesis using assms(2) by (fastforce simp: kept_def intro: same_message_trans)
next
  case (ack i k c)
  then show ?thesis using assms(2) by (auto simp: kept_def)
next
  case (attempt i k e now err)
  then show ?thesis using assms(2) by (fastforce simp: kept_def intro: same_message_trans)
next
  case (bury i k e)
  then show ?thesis using assms(2) by (fastforce simp: kept_def)
next
  case (tell x)
  then show ?thesis using assms(2) by (auto simp: kept_def)
next
  case (replay i e)
  then show ?thesis using assms(2) by (auto simp: kept_def)
qed (use assms(2) in \<open>auto simp: kept_def\<close>)

lemma reach_kept:
  assumes "protocol_reach uuid a" and "inj uuid"
  shows "kept a"
  using assms
proof (induction rule: protocol_reach.induct)
  case start
  then show ?case by (simp add: kept_def protocol_start_def)
next
  case (act a b)
  then show ?case using reach_owned kept_action by blast
qed

text \<open>A dead letter is never touched again.\<close>

lemma dead_action:
  assumes "action uuid a b" and "owned a" and "dated uuid a" and "kept a" and "inj uuid" and "dead a k = Some e"
  shows "dead b k = Some e"
  using assms(1)
proof (cases rule: action.cases)
  case (store e')
  then show ?thesis using fresh_entry [OF assms(5,3)] assms(6) by auto
next
  case (bury i k' e')
  then show ?thesis using assms(4,6) by (auto simp: kept_def)
qed (use assms(6) in auto)

text \<open>Nor is it ever sent again.\<close>

lemma dead_is_silent:
  assumes "action uuid a b" and "owned a" and "kept a" and "dead a k \<noteq> None"
  shows "\<exists>xs. told b = told a @ xs \<and> (\<forall>i e. ReplayCalled i e \<in> set xs \<longrightarrow> de_id e \<noteq> k)"
  using assms(1)
proof (cases rule: action.cases)
  case (replay i e)
  have "pend a (de_id e) = Some e" using owned_hand [OF assms(2) replay(2)] by simp
  then have "de_id e \<noteq> k" using assms(3,4) by (auto simp: kept_def)
  then show ?thesis using replay(1) by auto
next
  case (tell x)
  then show ?thesis by (cases x) auto
qed auto

lemma dead_actions:
  assumes "(action uuid)\<^sup>*\<^sup>* a b" and "protocol_reach uuid a" and "inj uuid" and "dead a k = Some e"
  shows "dead b k = Some e"
  using assms(1)
proof (induction rule: rtranclp_induct)
  case (step c d)
  then have "protocol_reach uuid c" using assms(2) reach_actions by blast
  then show ?case using step dead_action reach_owned reach_kept assms(3) by blast
qed (rule assms(4))

lemma dead_silent_actions:
  assumes "(action uuid)\<^sup>*\<^sup>* a b" and "protocol_reach uuid a" and "inj uuid" and "dead a k = Some e"
  shows "\<exists>xs. told b = told a @ xs \<and> (\<forall>i e. ReplayCalled i e \<in> set xs \<longrightarrow> de_id e \<noteq> k)"
  using assms(1)
proof (induction rule: rtranclp_induct)
  case (step c d)
  from step.IH obtain xs where xs: "told c = told a @ xs" "\<forall>i e. ReplayCalled i e \<in> set xs \<longrightarrow> de_id e \<noteq> k" by blast
  have c: "protocol_reach uuid c" using step(1) assms(2) reach_actions by blast
  have "dead c k = Some e" by (rule dead_actions [OF step(1) assms(2-4)])
  then obtain ys where ys: "told d = told c @ ys" "\<forall>i e. ReplayCalled i e \<in> set ys \<longrightarrow> de_id e \<noteq> k"
    using dead_is_silent [OF step(2)] reach_owned [OF c assms(3)] reach_kept [OF c assms(3)] by (metis option.distinct(1))
  have "told d = told a @ xs @ ys" using xs(1) ys(1) by simp
  moreover have "\<forall>i e. ReplayCalled i e \<in> set (xs @ ys) \<longrightarrow> de_id e \<noteq> k" using xs(2) ys(2) by auto
  ultimately show ?case by blast
qed simp

section \<open>No blind replay\<close>

text \<open>A message whose platform send was marked as started is only sent again right after an adapter reported that it
  was not sent.\<close>

definition marks_stay :: "'p protocol \<Rightarrow> bool" where
  "marks_stay a \<longleftrightarrow> (\<forall>i k e. StartMarked i k \<in> set (told a) \<longrightarrow> pend a k = Some e \<longrightarrow> needs_reconciliation e)"

definition replay_is_checked :: "'p delivery_output list \<Rightarrow> nat \<Rightarrow> 'p delivery_entry \<Rightarrow> bool" where
  "replay_is_checked xs i e \<longleftrightarrow>
     ((\<exists>j. StartMarked j (de_id e) \<in> set xs) \<longrightarrow> (\<exists>zs. xs = zs @ [NotSentReported i (de_id e)]))"

definition replays_checked :: "'p delivery_output list \<Rightarrow> bool" where
  "replays_checked h \<longleftrightarrow> (\<forall>xs i e ys. h = xs @ ReplayCalled i e # ys \<longrightarrow> replay_is_checked xs i e)"

lemma replays_checked_Nil [simp]: "replays_checked []"
  by (simp add: replays_checked_def)

lemma replays_checked_snoc:
  "replays_checked (h @ [x]) \<longleftrightarrow> replays_checked h \<and> (\<forall>i e. x = ReplayCalled i e \<longrightarrow> replay_is_checked h i e)"
proof -
  have "h @ [x] = xs @ y # ys \<longleftrightarrow> ys = [] \<and> h = xs \<and> x = y \<or> (\<exists>zs. ys = zs @ [x] \<and> h = xs @ y # zs)" for xs y ys
    by (cases ys rule: rev_cases) auto
  then show ?thesis unfolding replays_checked_def by auto
qed

lemma marks_action:
  assumes "action uuid a b" and "marks_stay a" and "owned a" and "dated uuid a" and "inj uuid"
  shows "marks_stay b"
  using assms(1)
proof (cases rule: action.cases)
  case (store e)
  then show ?thesis using assms(2) fresh_marked [OF assms(5,4)] by (auto simp: marks_stay_def)
next
  case (mark i k e m hs now)
  then show ?thesis using assms(2) needs_mark [OF mark(5)] by (auto simp: marks_stay_def)
next
  case (tell x)
  then show ?thesis using assms(2) by (cases x) (auto simp: marks_stay_def)
qed (use assms(2) in \<open>auto simp: marks_stay_def\<close>)

lemma checked_action:
  assumes "action uuid a b" and "replays_checked (told a)" and "marks_stay a" and "owned a"
  shows "replays_checked (told b)"
  using assms(1)
proof (cases rule: action.cases)
  case (replay i e)
  have "pend a (de_id e) = Some e" using owned_hand [OF assms(4) replay(2)] by simp
  then have "\<exists>j. StartMarked j (de_id e) \<in> set (told a) \<Longrightarrow> needs_reconciliation e"
    using assms(3) by (auto simp: marks_stay_def)
  then show ?thesis using replay assms(2) by (simp add: replays_checked_snoc replay_is_checked_def)
next
  case (tell x)
  then show ?thesis using assms(2) by (cases x) (auto simp: replays_checked_snoc)
qed (use assms(2) in \<open>auto simp: replays_checked_snoc\<close>)

lemma reach_checked:
  assumes "protocol_reach uuid a" and "inj uuid"
  shows "marks_stay a \<and> replays_checked (told a)"
  using assms
proof (induction rule: protocol_reach.induct)
  case start
  then show ?case by (simp add: marks_stay_def protocol_start_def)
next
  case (act a b)
  then show ?case using marks_action checked_action reach_owned by blast
qed

section \<open>The budget of retries\<close>

definition is_replay_of :: "string \<Rightarrow> 'p delivery_output \<Rightarrow> bool" where
  "is_replay_of k x \<longleftrightarrow> (case x of ReplayCalled i e \<Rightarrow> de_id e = k | _ \<Rightarrow> False)"

definition replays_of :: "string \<Rightarrow> 'p delivery_output list \<Rightarrow> nat" where
  "replays_of k h = length (filter (is_replay_of k) h)"

definition replay_in_flight :: "string \<Rightarrow> 'p protocol \<Rightarrow> bool" where
  "replay_in_flight k a \<longleftrightarrow> (\<exists>i e. sending a i \<and> hand a i = Some e \<and> de_id e = k)"

definition spent :: "string \<Rightarrow> 'p protocol \<Rightarrow> nat" where
  "spent k a =
     (case pend a k of None \<Rightarrow> 5
      | Some e \<Rightarrow> nat (min 5 (retryCount e + of_bool (replay_in_flight k a))))"

definition in_budget :: "'p protocol \<Rightarrow> bool" where
  "in_budget a \<longleftrightarrow> (\<forall>k. replays_of k (told a) \<le> lost a + spent k a) \<and> (\<forall>k e. pend a k = Some e \<longrightarrow> 0 \<le> retryCount e)"

lemma replays_of_simps [simp]:
  "replays_of k [] = 0" "replays_of k (h @ [x]) = replays_of k h + of_bool (is_replay_of k x)"
  by (simp_all add: replays_of_def)

lemma is_replay_simps [simp]:
  "is_replay_of k (ReplayCalled i e) \<longleftrightarrow> de_id e = k" "\<not> is_replay_of k (Stored e)" "\<not> is_replay_of k (StartMarked i k')"
  "\<not> is_replay_of k (Acknowledged i k' c)" "\<not> is_replay_of k (AttemptRecorded i k' m)" "\<not> is_replay_of k (GivenUp i k')"
  "plain_output x \<Longrightarrow> \<not> is_replay_of k x"
  by (simp_all add: is_replay_of_def) (cases x; simp)

lemma spent_none [simp]: "pend a k = None \<Longrightarrow> spent k a = 5"
  by (simp add: spent_def)

lemma spent_le: "spent k a \<le> 5"
  by (auto simp: spent_def split: option.split)

text \<open>What the budget depends on.\<close>

lemma in_budget_step:
  assumes "in_budget a" and "\<And>k e. pend b k = Some e \<Longrightarrow> 0 \<le> retryCount e"
    and "\<And>k. replays_of k (told b) + lost a + spent k a \<le> replays_of k (told a) + lost b + spent k b"
  shows "in_budget b"
proof -
  have "replays_of k (told b) \<le> lost b + spent k b" for k
  proof -
    have "replays_of k (told a) \<le> lost a + spent k a" using assms(1) by (simp add: in_budget_def)
    then show ?thesis using assms(3) [of k] by linarith
  qed
  then show ?thesis using assms(2) by (simp add: in_budget_def)
qed

lemma spent_cong:
  "pend b k = pend a k \<Longrightarrow> (replay_in_flight k b \<longleftrightarrow> replay_in_flight k a) \<Longrightarrow> spent k b = spent k a"
  by (simp add: spent_def)

lemma spent_dropped:
  "pend b k = pend a k \<Longrightarrow> spent k a \<le> Suc (spent k b)"
  by (auto simp: spent_def split: option.split)

text \<open>The holder of an entry is the only one that may have a replay of it in flight.\<close>

lemma flight_of_holder:
  assumes "owned a" and "holds a i = Some k"
  shows "replay_in_flight k a \<longleftrightarrow> sending a i"
proof
  assume "replay_in_flight k a"
  then obtain j e where j: "sending a j" "hand a j = Some e" "de_id e = k" by (auto simp: replay_in_flight_def)
  with owned_hand [OF assms(1), of j e] assms owned_holder [OF assms(1), of j e i] show "sending a i" by auto
next
  assume "sending a i"
  with assms obtain e where "hand a i = Some e" by (auto simp: owned_def)
  with owned_hand [OF assms(1) this] assms(2) \<open>sending a i\<close> show "replay_in_flight k a"
    by (auto simp: replay_in_flight_def)
qed

lemma flight_other:
  assumes "owned a" and "holds a i = Some k" and "k' \<noteq> k" and "hand b = (hand a)(i := None)" and "sending b = (sending a)(i := False)"
  shows "replay_in_flight k' b \<longleftrightarrow> replay_in_flight k' a"
proof -
  have "sending b j \<and> hand b j = Some e \<and> de_id e = k' \<longleftrightarrow> sending a j \<and> hand a j = Some e \<and> de_id e = k'" for j e
    using assms owned_hand [OF assms(1), of i e] by (cases "j = i") auto
  then show ?thesis unfolding replay_in_flight_def by simp
qed

lemma settle_spent:
  assumes "owned a" and "holds a i = Some k" and "hand b = (hand a)(i := None)" and "sending b = (sending a)(i := False)"
    and "\<And>k'. k' \<noteq> k \<Longrightarrow> pend b k' = pend a k'" and "pend b k = None \<or> (\<exists>e e'. pend a k = Some e \<and> pend b k = Some e' \<and> retryCount e' = retryCount e + 1)"
  shows "spent k' a \<le> spent k' b"
proof (cases "k' = k")
  case False
  then show ?thesis using spent_cong [of b k' a] flight_other [OF assms(1,2) False assms(3,4)] assms(5) by simp
next
  case True
  show ?thesis
    using assms(6)
  proof (elim disjE exE conjE)
    assume "pend b k = None"
    then show ?thesis using True spent_le [of k a] by simp
  next
    fix e e'
    assume "pend a k = Some e" "pend b k = Some e'" "retryCount e' = retryCount e + 1"
    then show ?thesis using True by (auto simp: spent_def of_bool_def intro!: nat_mono)
  qed
qed

lemma budget_action:
  assumes "action uuid a b" and "in_budget a" and "owned a" and "dated uuid a" and "inj uuid"
  shows "in_budget b"
  using assms(1)
proof (cases rule: action.cases)
  case (store e)
  have none: "replays_of (de_id e) (told a) = 0"
    using fresh_replayed [OF assms(5,4)] store(2) by (auto simp: replays_of_def is_replay_of_def filter_empty_conv split: delivery_output.splits)
  have other: "k \<noteq> de_id e \<Longrightarrow> spent k b = spent k a" for k
    using store(1) by (intro spent_cong) (simp_all add: replay_in_flight_def)
  have "replays_of k (told b) \<le> lost b + spent k b" for k
    using none other [of k] assms(2) store(1) by (cases "k = de_id e") (simp_all add: in_budget_def)
  then show ?thesis using assms(2) store by (auto simp: in_budget_def split: if_splits)
next
  case draw
  have "spent k b = spent k a" for k using draw by (intro spent_cong) (simp_all add: replay_in_flight_def)
  then show ?thesis by (intro in_budget_step [OF assms(2)]) (use draw assms(2) in \<open>simp_all add: in_budget_def\<close>)
next
  case (claim i k h)
  have "\<not> sending a i" using claim(2) assms(3) unfolding owned_def by fastforce
  then have "spent k' b = spent k' a" for k' using claim by (intro spent_cong) (auto simp: replay_in_flight_def)
  then show ?thesis by (intro in_budget_step [OF assms(2)]) (use claim assms(2) in \<open>simp_all add: in_budget_def\<close>)
next
  case (tell x)
  have "spent k b = spent k a" for k using tell by (intro spent_cong) (simp_all add: replay_in_flight_def)
  then show ?thesis by (intro in_budget_step [OF assms(2)]) (use tell assms(2) in \<open>simp_all add: in_budget_def\<close>)
next
  case (mark i k e m hs now)
  have "spent k' b = spent k' a" for k'
    using mark by (auto simp: spent_def replay_in_flight_def)
  moreover have "replays_of k' (told b) = replays_of k' (told a)" for k' using mark by auto
  ultimately show ?thesis
    by (intro in_budget_step [OF assms(2)]) (use mark assms(2) in \<open>auto simp: in_budget_def split: if_splits\<close>)
next
  case (replay i e)
  have h: "holds a i = Some (de_id e)" "pend a (de_id e) = Some e" using owned_hand [OF assms(3) replay(2)] by simp_all
  have "\<not> replay_in_flight (de_id e) a" using flight_of_holder [OF assms(3) h(1)] replay(3) by simp
  moreover have "replay_in_flight (de_id e) b" using replay by (auto simp: replay_in_flight_def)
  moreover have "0 \<le> retryCount e" using h(2) assms(2) by (auto simp: in_budget_def)
  ultimately have "spent (de_id e) b = Suc (spent (de_id e) a)"
    using replay h(2) by (simp add: spent_def MAX_RETRIES_def)
  moreover have "k \<noteq> de_id e \<Longrightarrow> spent k b = spent k a" for k
    using replay by (intro spent_cong) (auto simp: replay_in_flight_def)
  ultimately have "replays_of k (told b) + lost a + spent k a \<le> replays_of k (told a) + lost b + spent k b" for k
    using replay by (cases "k = de_id e") simp_all
  then show ?thesis by (intro in_budget_step [OF assms(2)]) (use replay assms(2) in \<open>simp_all add: in_budget_def\<close>)
next
  case (ack i k c)
  have "spent k' a \<le> spent k' b" for k' using ack by (intro settle_spent [OF assms(3) ack(2)]) simp_all
  then show ?thesis by (intro in_budget_step [OF assms(2)]) (use ack assms(2) in \<open>auto simp: in_budget_def split: if_splits\<close>)
next
  case (attempt i k e now err)
  have "spent k' a \<le> spent k' b" for k' using attempt by (intro settle_spent [OF assms(3) attempt(2)]) simp_all
  then show ?thesis by (intro in_budget_step [OF assms(2)]) (use attempt assms(2) in \<open>auto simp: in_budget_def split: if_splits\<close>)
next
  case (bury i k e)
  have "spent k' a \<le> spent k' b" for k' using bury by (intro settle_spent [OF assms(3) bury(2)]) simp_all
  then show ?thesis by (intro in_budget_step [OF assms(2)]) (use bury assms(2) in \<open>auto simp: in_budget_def split: if_splits\<close>)
next
  case (forget i)
  have "spent k b = spent k a" for k using forget by (intro spent_cong) (auto simp: replay_in_flight_def)
  then show ?thesis by (intro in_budget_step [OF assms(2)]) (use forget assms(2) in \<open>simp_all add: in_budget_def\<close>)
next
  case (lose i)
  have "spent k a \<le> Suc (spent k b)" for k using lose by (intro spent_dropped) simp
  then show ?thesis by (intro in_budget_step [OF assms(2)]) (use lose assms(2) in \<open>simp_all add: in_budget_def\<close>)
next
  case waste
  have "spent k b = spent k a" for k using waste by (intro spent_cong) (simp_all add: replay_in_flight_def)
  then show ?thesis by (intro in_budget_step [OF assms(2)]) (use waste assms(2) in \<open>simp_all add: in_budget_def\<close>)
next
  case (release i)
  have "spent k b = spent k a" for k using release by (intro spent_cong) (auto simp: replay_in_flight_def)
  then show ?thesis by (intro in_budget_step [OF assms(2)]) (use release assms(2) in \<open>simp_all add: in_budget_def\<close>)
next
  case crash
  have "spent k a \<le> Suc (spent k b)" for k using crash by (intro spent_dropped) simp
  then show ?thesis by (intro in_budget_step [OF assms(2)]) (use crash assms(2) in \<open>simp_all add: in_budget_def\<close>)
qed

lemma reach_budget:
  assumes "protocol_reach uuid a" and "inj uuid"
  shows "in_budget a"
  using assms
proof (induction rule: protocol_reach.induct)
  case start
  then show ?case by (simp add: in_budget_def protocol_start_def)
next
  case (act a b)
  then show ?case using budget_action reach_owned by blast
qed

section \<open>Every recorded attempt counts\<close>

definition is_attempt_of :: "string \<Rightarrow> 'p delivery_output \<Rightarrow> bool" where
  "is_attempt_of k x \<longleftrightarrow> (case x of AttemptRecorded i k' m \<Rightarrow> k' = k | _ \<Rightarrow> False)"

definition attempts_of :: "string \<Rightarrow> 'p delivery_output list \<Rightarrow> nat" where
  "attempts_of k h = length (filter (is_attempt_of k) h)"

lemma attempts_of_simps [simp]:
  "attempts_of k [] = 0" "attempts_of k (h @ [x]) = attempts_of k h + of_bool (is_attempt_of k x)"
  by (simp_all add: attempts_of_def)

lemma is_attempt_simps [simp]:
  "is_attempt_of k (AttemptRecorded i k' m) \<longleftrightarrow> k' = k" "\<not> is_attempt_of k (Stored e)" "\<not> is_attempt_of k (StartMarked i k')"
  "\<not> is_attempt_of k (ReplayCalled i e)" "\<not> is_attempt_of k (Acknowledged i k' c)" "\<not> is_attempt_of k (GivenUp i k')"
  "plain_output x \<Longrightarrow> \<not> is_attempt_of k x"
  by (simp_all add: is_attempt_of_def) (cases x; simp)

text \<open>The counter of a stored entry is the number of the attempts recorded for it, and an entry is only replayed below
  the limit.\<close>

definition attempts_counted :: "'p protocol \<Rightarrow> bool" where
  "attempts_counted a \<longleftrightarrow>
     (\<forall>k e. pend a k = Some e \<or> dead a k = Some e \<longrightarrow> retryCount e = int (attempts_of k (told a)))"

definition attempts_dated :: "(nat \<Rightarrow> string) \<Rightarrow> 'p protocol \<Rightarrow> bool" where
  "attempts_dated uuid a \<longleftrightarrow> (\<forall>k. attempts_of k (told a) \<noteq> 0 \<longrightarrow> k \<in> uuid ` {..<drawn a})"

definition replay_is_counted :: "'p delivery_output list \<Rightarrow> 'p delivery_entry \<Rightarrow> bool" where
  "replay_is_counted xs e \<longleftrightarrow> retryCount e = int (attempts_of (de_id e) xs) \<and> retryCount e < MAX_RETRIES"

definition replays_counted :: "'p delivery_output list \<Rightarrow> bool" where
  "replays_counted h \<longleftrightarrow>
     (\<forall>xs i e ys. h = xs @ ReplayCalled i e # ys \<longrightarrow> replay_is_counted xs e)"

lemma replays_counted_Nil [simp]: "replays_counted []"
  by (simp add: replays_counted_def)

lemma replays_counted_snoc:
  "replays_counted (h @ [x]) \<longleftrightarrow> replays_counted h \<and> (\<forall>i e. x = ReplayCalled i e \<longrightarrow> replay_is_counted h e)"
proof -
  have "h @ [x] = xs @ y # ys \<longleftrightarrow> ys = [] \<and> h = xs \<and> x = y \<or> (\<exists>zs. ys = zs @ [x] \<and> h = xs @ y # zs)" for xs y ys
    by (cases ys rule: rev_cases) auto
  then show ?thesis unfolding replays_counted_def by auto
qed

lemma attempts_dated_action:
  assumes "action uuid a b" and "attempts_dated uuid a" and "dated uuid a" and "owned a"
  shows "attempts_dated uuid b"
proof -
  have more: "uuid ` {..<drawn a} \<subseteq> uuid ` {..<drawn b}"
    using known_ids_action(2) [OF assms(1,4)] by (intro image_mono) auto
  have "attempts_of k (told b) \<noteq> 0 \<Longrightarrow> attempts_of k (told a) \<noteq> 0 \<or> pend a k \<noteq> None" for k
    using assms(1) by (cases rule: action.cases) (auto split: if_splits)
  moreover have "pend a k \<noteq> None \<Longrightarrow> k \<in> uuid ` {..<drawn a}" for k
    using assms(3) by (auto simp: dated_def known_ids_def dom_def)
  ultimately show ?thesis using assms(2) more unfolding attempts_dated_def by blast
qed

lemma counted_action:
  assumes "action uuid a b" and "attempts_counted a" and "attempts_dated uuid a" and "kept a" and "inj uuid"
  shows "attempts_counted b"
  using assms(1)
proof (cases rule: action.cases)
  case (store e)
  have "uuid (drawn a) \<notin> uuid ` {..<drawn a}" using assms(5) by (auto simp: inj_eq)
  then have "attempts_of (de_id e) (told a) = 0" using assms(3) store(2) by (auto simp: attempts_dated_def)
  then show ?thesis using store assms(2) by (auto simp: attempts_counted_def split: if_splits)
next
  case (mark i k e m hs now)
  have "attempts_of k' (told b) = attempts_of k' (told a)" for k' using mark by auto
  then show ?thesis using mark assms(2) by (auto simp: attempts_counted_def split: if_splits)
next
  case (attempt i k e now err)
  have "dead a k = None" using assms(4) attempt(3) by (auto simp: kept_def)
  then show ?thesis using attempt assms(2) by (auto simp: attempts_counted_def split: if_splits)
next
  case (tell x)
  then show ?thesis using assms(2) by (auto simp: attempts_counted_def)
qed (use assms(2) in \<open>auto simp: attempts_counted_def split: if_splits\<close>)

lemma replays_counted_action:
  assumes "action uuid a b" and "replays_counted (told a)" and "attempts_counted a" and "owned a"
  shows "replays_counted (told b)"
  using assms(1)
proof (cases rule: action.cases)
  case (replay i e)
  have "pend a (de_id e) = Some e" using owned_hand [OF assms(4) replay(2)] by simp
  then have "retryCount e = int (attempts_of (de_id e) (told a))" using assms(3) by (auto simp: attempts_counted_def)
  then show ?thesis using replay assms(2) by (simp add: replays_counted_snoc replay_is_counted_def)
next
  case (tell x)
  then show ?thesis using assms(2) by (cases x) (auto simp: replays_counted_snoc)
qed (use assms(2) in \<open>auto simp: replays_counted_snoc\<close>)

lemma reach_counted:
  assumes "protocol_reach uuid a" and "inj uuid"
  shows "attempts_counted a \<and> attempts_dated uuid a \<and> replays_counted (told a)"
  using assms
proof (induction rule: protocol_reach.induct)
  case start
  then show ?case by (simp add: attempts_counted_def attempts_dated_def protocol_start_def)
next
  case (act a b)
  then have "owned a" "dated uuid a" "kept a" using reach_owned reach_kept by blast+
  then show ?case
    using act counted_action attempts_dated_action [OF act.hyps(2)] replays_counted_action [OF act.hyps(2)] by blast
qed

end
