(* ===== verification/DeliveryRefine.thy ===== *)
theory DeliveryRefine
  imports DeliveryProtocol
begin

text \<open>
  The workers of the outbound queue follow the protocol: every step of the machine is a sequence of actions of the
  abstract one.  What a worker holds and what it has in hand is read off the point it waits at.
\<close>

fun claim_of :: "'p point \<Rightarrow> string option" where
  "claim_of (LiveSending k b c) = Some k"
| "claim_of (LiveOutcomeMarked k) = Some k"
| "claim_of (LiveHooks k) = Some k"
| "claim_of (LiveLeaving k) = Some k"
| "claim_of (Reread k e es) = Some k"
| "claim_of (Reconciling e es) = Some (de_id e)"
| "claim_of (Replaying e b es) = Some (de_id e)"
| "claim_of (AckFailed e m es) = Some (de_id e)"
| "claim_of (ReplayFailed e m es) = Some (de_id e)"
| "claim_of (CommitHooks e es) = Some (de_id e)"
| "claim_of (Releasing k es) = Some k"
| "claim_of (Aborting k) = Some k"
| "claim_of _ = None"

fun entry_read :: "'p point \<Rightarrow> 'p delivery_entry option" where
  "entry_read (Reread k e es) = e"
| "entry_read (Reconciling e es) = Some e"
| "entry_read (Replaying e b es) = Some e"
| "entry_read (AckFailed e m es) = Some e"
| "entry_read (ReplayFailed e m es) = Some e"
| "entry_read _ = None"

fun replaying_at :: "'p point \<Rightarrow> bool" where
  "replaying_at (Replaying e b es) = True"
| "replaying_at (ReplayFailed e m es) = True"
| "replaying_at _ = False"

fun point_ok :: "'p point \<Rightarrow> bool" where
  "point_ok (Reconciling e es) = (retryCount e < MAX_RETRIES)"
| "point_ok _ = True"

definition abstraction :: "nat \<Rightarrow> 'p delivery_state \<Rightarrow> 'p protocol" where
  "abstraction n s =
     \<lparr>pend = pending_entry OUTBOUND (table s), dead = failed_entry OUTBOUND (table s),
      holds = (\<lambda>i. Option.bind (js_get (workers s) i) (\<lambda>w. claim_of (wk_at w))),
      hand = (\<lambda>i. Option.bind (js_get (workers s) i) (\<lambda>w. entry_read (wk_at w))),
      sending = (\<lambda>i. case js_get (workers s) i of None \<Rightarrow> False | Some w \<Rightarrow> replaying_at (wk_at w)),
      drawn = next_uuid s, lost = n, told = history s\<rparr>"

lemma abstraction_simps [simp]:
  "pend (abstraction n s) = pending_entry OUTBOUND (table s)" "dead (abstraction n s) = failed_entry OUTBOUND (table s)"
  "drawn (abstraction n s) = next_uuid s" "lost (abstraction n s) = n" "told (abstraction n s) = history s"
  by (simp_all add: abstraction_def)

lemma abstraction_at:
  "holds (abstraction n s) i = Option.bind (js_get (workers s) i) (\<lambda>w. claim_of (wk_at w))"
  "hand (abstraction n s) i = Option.bind (js_get (workers s) i) (\<lambda>w. entry_read (wk_at w))"
  "sending (abstraction n s) i = (case js_get (workers s) i of None \<Rightarrow> False | Some w \<Rightarrow> replaying_at (wk_at w))"
  by (simp_all add: abstraction_def)

lemma abstraction_note [simp]:
  "abstraction n (note_output x s) = (abstraction n s)\<lparr>told := history s @ [x]\<rparr>"
  by (simp add: abstraction_def note_output_def)

lemma abstraction_waits [simp]:
  "abstraction n (worker_waits i w p s) =
     (abstraction n s)\<lparr>holds := (holds (abstraction n s))(i := claim_of p), hand := (hand (abstraction n s))(i := entry_read p),
                       sending := (sending (abstraction n s))(i := replaying_at p)\<rparr>"
  by (auto simp: abstraction_def worker_waits_def)

lemma abstraction_table [simp]:
  "abstraction n (s\<lparr>table := t\<rparr>) =
     (abstraction n s)\<lparr>pend := pending_entry OUTBOUND t, dead := failed_entry OUTBOUND t\<rparr>"
  by (simp add: abstraction_def)

lemma abstraction_claims [simp]: "abstraction n (s\<lparr>entriesInProgress := ks\<rparr>) = abstraction n s"
  by (simp add: abstraction_def)

lemma abstraction_lost: "abstraction m s = (abstraction n s)\<lparr>lost := m\<rparr>"
  by (simp add: abstraction_def)

lemma protocol_eqI:
  fixes a b :: "'p protocol"
  assumes "pend a = pend b" "dead a = dead b" "holds a = holds b" "hand a = hand b" "sending a = sending b"
    "drawn a = drawn b" "lost a = lost b" "told a = told b"
  shows "a = b"
  using assms by (cases a; cases b) simp

section \<open>Claims\<close>

definition claims_ok :: "'p delivery_state \<Rightarrow> bool" where
  "claims_ok s \<longleftrightarrow>
     distinct (entriesInProgress s)
     \<and> (\<forall>k. k \<in> set (entriesInProgress s) \<longleftrightarrow> (\<exists>i. holds (abstraction 0 s) i = Some k))
     \<and> (\<forall>i w. js_get (workers s) i = Some w \<longrightarrow> i < next_worker s \<and> point_ok (wk_at w))"

definition follows :: "(nat \<Rightarrow> string) \<Rightarrow> bool \<Rightarrow> nat \<Rightarrow> 'p delivery_state \<Rightarrow> 'p delivery_state \<Rightarrow> bool" where
  "follows uuid b n s s' \<longleftrightarrow>
     claims_ok s' \<and> (action uuid)\<^sup>*\<^sup>* (abstraction n s) (abstraction (n + of_bool b) s')"

lemma holds_lost: "holds (abstraction m s) = holds (abstraction n s)"
  "hand (abstraction m s) = hand (abstraction n s)" "sending (abstraction m s) = sending (abstraction n s)"
  by (simp_all add: abstraction_def)

lemma followsI:
  assumes "claims_ok s'" and "(action uuid)\<^sup>*\<^sup>* (abstraction n s) (abstraction n s')"
  shows "follows uuid b n s s'"
proof -
  have "action uuid (abstraction n s') (abstraction (n + 1) s')"
    using action.waste [of uuid "abstraction n s'"] by (simp add: abstraction_lost [of "Suc n" s' n])
  then show ?thesis using assms unfolding follows_def by (cases b) auto
qed

lemma follows_same: "claims_ok s' \<Longrightarrow> abstraction n s' = abstraction n s \<Longrightarrow> follows uuid b n s s'"
  by (rule followsI) simp_all

lemma follows_action: "claims_ok s' \<Longrightarrow> action uuid (abstraction n s) (abstraction n s') \<Longrightarrow> follows uuid b n s s'"
  by (rule followsI) auto

lemma follows_two:
  "claims_ok s' \<Longrightarrow> action uuid (abstraction n s) a \<Longrightarrow> action uuid a (abstraction n s') \<Longrightarrow> follows uuid b n s s'"
  by (rule followsI) auto

section \<open>Steps of a worker that keeps its claim\<close>

lemma claims_ok_table [simp]: "claims_ok (s\<lparr>table := t\<rparr>) = claims_ok s"
  by (simp add: claims_ok_def abstraction_at)

lemma claims_ok_note [simp]: "claims_ok (note_output x s) = claims_ok s"
  by (simp add: claims_ok_def abstraction_at note_output_def)

lemma holds_waits:
  "holds (abstraction n (worker_waits i w p s)) j = (if j = i then claim_of p else holds (abstraction n s) j)"
  by simp

lemma workers_waits [simp]:
  "js_get (workers (worker_waits i w p s)) j = (if j = i then Some (w\<lparr>wk_at := p\<rparr>) else js_get (workers s) j)"
  "entriesInProgress (worker_waits i w p s) = entriesInProgress s" "next_worker (worker_waits i w p s) = next_worker s"
  "table (worker_waits i w p s) = table s" "drainInProgress (worker_waits i w p s) = drainInProgress s"
  "history (worker_waits i w p s) = history s" "next_uuid (worker_waits i w p s) = next_uuid s"
  by (simp_all add: worker_waits_def)

lemma workers_note [simp]:
  "workers (note_output x s) = workers s" "entriesInProgress (note_output x s) = entriesInProgress s"
  "next_worker (note_output x s) = next_worker s" "table (note_output x s) = table s"
  "drainInProgress (note_output x s) = drainInProgress s" "history (note_output x s) = history s @ [x]"
  "next_uuid (note_output x s) = next_uuid s"
  by (simp_all add: note_output_def)

lemma claims_ok_waits:
  assumes "claims_ok s" and "js_get (workers s) i = Some w0" and "claim_of p = claim_of (wk_at w0)" and "point_ok p"
  shows "claims_ok (worker_waits i w p s)"
proof -
  have "holds (abstraction 0 (worker_waits i w p s)) = holds (abstraction 0 s)"
    using assms(2,3) by (auto simp: abstraction_at)
  with assms show ?thesis unfolding claims_ok_def by simp
qed

lemma waits_same:
  assumes "claims_ok s" and "js_get (workers s) i = Some w0" and "claim_of p = claim_of (wk_at w0)"
    and "entry_read p = entry_read (wk_at w0)" and "replaying_at p = replaying_at (wk_at w0)" and "point_ok p"
  shows "follows uuid b n s (worker_waits i w p s)"
proof (rule follows_same)
  show "claims_ok (worker_waits i w p s)" by (rule claims_ok_waits [OF assms(1-3,6)])
  show "abstraction n (worker_waits i w p s) = abstraction n s"
    by (rule protocol_eqI) (use assms(2-5) in \<open>auto simp: abstraction_at fun_eq_iff\<close>)
qed

lemma waits_tell:
  assumes "claims_ok s" and "js_get (workers s) i = Some w0" and "claim_of p = claim_of (wk_at w0)"
    and "entry_read p = entry_read (wk_at w0)" and "replaying_at p = replaying_at (wk_at w0)" and "point_ok p"
    and "plain_output x"
  shows "follows uuid b n s (note_output x (worker_waits i w p s))"
proof (rule follows_action)
  show "claims_ok (note_output x (worker_waits i w p s))" using claims_ok_waits [OF assms(1-3,6)] by simp
  have "abstraction n (worker_waits i w p s) = abstraction n s"
    by (rule protocol_eqI) (use assms(2-5) in \<open>auto simp: abstraction_at fun_eq_iff\<close>)
  then show "action uuid (abstraction n s) (abstraction n (note_output x (worker_waits i w p s)))"
    using action.tell [OF assms(7), of uuid "abstraction n s"] by (simp del: abstraction_waits)
qed

lemma waits_forget:
  assumes "claims_ok s" and "js_get (workers s) i = Some w0" and "claim_of p = claim_of (wk_at w0)"
    and "entry_read p = None" and "\<not> replaying_at p" and "\<not> replaying_at (wk_at w0)" and "point_ok p"
  shows "follows uuid b n s (worker_waits i w p s)"
proof (rule follows_action)
  show "claims_ok (worker_waits i w p s)" by (rule claims_ok_waits [OF assms(1-3,7)])
  have "abstraction n (worker_waits i w p s) = holds_none i (abstraction n s)"
    by (rule protocol_eqI) (use assms(2-5) in \<open>auto simp: abstraction_at fun_eq_iff\<close>)
  then show "action uuid (abstraction n s) (abstraction n (worker_waits i w p s))"
    using action.forget [of "abstraction n s" i uuid] assms(2,6) by (simp add: abstraction_at)
qed

lemma waits_lose:
  assumes "claims_ok s" and "js_get (workers s) i = Some w0" and "claim_of p = claim_of (wk_at w0)"
    and "entry_read p = None" and "\<not> replaying_at p" and "point_ok p"
  shows "follows uuid True n s (worker_waits i w p s)"
proof -
  have "abstraction (Suc n) (worker_waits i w p s) = (holds_none i (abstraction n s))\<lparr>lost := Suc (lost (abstraction n s))\<rparr>"
    by (rule protocol_eqI) (use assms(2-5) in \<open>auto simp: abstraction_at holds_lost [of "Suc n" s n]\<close>)
  then have "action uuid (abstraction n s) (abstraction (Suc n) (worker_waits i w p s))"
    using action.lose [of uuid "abstraction n s" i] by simp
  then show ?thesis
    using claims_ok_waits [OF assms(1-3,6)] unfolding follows_def by (simp add: r_into_rtranclp)
qed

text \<open>The operations of the store.\<close>

lemma waits_ack:
  assumes "claims_ok s" and "js_get (workers s) i = Some w0" and "claim_of (wk_at w0) = Some k" and "claim_of p = Some k"
    and "entry_read p = None" and "\<not> replaying_at p" and "point_ok p" and "ackDelivery io k (table s) = Inr t"
  shows "follows uuid b n s (note_output (Acknowledged i k c) (worker_waits i w p (s\<lparr>table := t\<rparr>)))"
proof (rule follows_action)
  show "claims_ok (note_output (Acknowledged i k c) (worker_waits i w p (s\<lparr>table := t\<rparr>)))"
    using claims_ok_waits [of "s\<lparr>table := t\<rparr>" i w0 p w] assms by simp
  have "abstraction n (note_output (Acknowledged i k c) (worker_waits i w p (s\<lparr>table := t\<rparr>)))
      = (holds_none i (abstraction n s))\<lparr>pend := (pend (abstraction n s))(k := None),
          told := told (abstraction n s) @ [Acknowledged i k c]\<rparr>"
    by (rule protocol_eqI)
      (use assms(2-6) outbound.ack_pending [OF assms(8)] outbound.ack_dead [OF assms(8)] in \<open>auto simp: abstraction_at\<close>)
  then show "action uuid (abstraction n s) (abstraction n (note_output (Acknowledged i k c) (worker_waits i w p (s\<lparr>table := t\<rparr>))))"
    using action.ack [of "abstraction n s" i k uuid c] assms(2,3) by (simp add: abstraction_at)
qed

lemma waits_attempt:
  assumes "claims_ok s" and "js_get (workers s) i = Some w0" and "claim_of (wk_at w0) = Some k" and "claim_of p = Some k"
    and "entry_read p = None" and "\<not> replaying_at p" and "point_ok p" and "failDelivery io now k err (table s) = Inr t"
  shows "follows uuid b n s (note_output (AttemptRecorded i k err) (worker_waits i w p (s\<lparr>table := t\<rparr>)))"
proof (rule follows_action)
  show "claims_ok (note_output (AttemptRecorded i k err) (worker_waits i w p (s\<lparr>table := t\<rparr>)))"
    using claims_ok_waits [of "s\<lparr>table := t\<rparr>" i w0 p w] assms by simp
  obtain e where e: "pending_entry OUTBOUND (table s) k = Some e"
    "pending_entry OUTBOUND t = (pending_entry OUTBOUND (table s))(k \<mapsto> failed_attempt now err e)"
    using outbound.retry_pending [OF assms(8)] by blast
  have "abstraction n (note_output (AttemptRecorded i k err) (worker_waits i w p (s\<lparr>table := t\<rparr>)))
      = (holds_none i (abstraction n s))\<lparr>pend := (pend (abstraction n s))(k \<mapsto> failed_attempt now err e),
          told := told (abstraction n s) @ [AttemptRecorded i k err]\<rparr>"
    by (rule protocol_eqI) (use assms(2-6) e(2) outbound.retry_dead [OF assms(8)] in \<open>auto simp: abstraction_at\<close>)
  then show "action uuid (abstraction n s) (abstraction n (note_output (AttemptRecorded i k err) (worker_waits i w p (s\<lparr>table := t\<rparr>))))"
    using action.attempt [where a = "abstraction n s" and i = i and k = k and e = e and now = now and err = err and uuid = uuid] assms(2,3) e(1) by (simp add: abstraction_at)
qed

lemma waits_bury:
  assumes "claims_ok s" and "js_get (workers s) i = Some w0" and "claim_of (wk_at w0) = Some k" and "claim_of p = Some k"
    and "entry_read p = None" and "\<not> replaying_at p" and "point_ok p" and "moveToFailed io now k (table s) = Inr t"
  shows "follows uuid b n s (note_output (GivenUp i k) (worker_waits i w p (s\<lparr>table := t\<rparr>)))"
proof (rule follows_action)
  show "claims_ok (note_output (GivenUp i k) (worker_waits i w p (s\<lparr>table := t\<rparr>)))"
    using claims_ok_waits [of "s\<lparr>table := t\<rparr>" i w0 p w] assms by simp
  obtain e where e: "pending_entry OUTBOUND (table s) k = Some e"
    "pending_entry OUTBOUND t = (pending_entry OUTBOUND (table s))(k := None)"
    "failed_entry OUTBOUND t = (failed_entry OUTBOUND (table s))(k \<mapsto> e)"
    using outbound.bury_entry [OF assms(8)] by blast
  have "abstraction n (note_output (GivenUp i k) (worker_waits i w p (s\<lparr>table := t\<rparr>)))
      = (holds_none i (abstraction n s))\<lparr>pend := (pend (abstraction n s))(k := None),
          dead := (dead (abstraction n s))(k \<mapsto> e), told := told (abstraction n s) @ [GivenUp i k]\<rparr>"
    by (rule protocol_eqI) (use assms(2-6) e(2,3) in \<open>auto simp: abstraction_at\<close>)
  then show "action uuid (abstraction n s) (abstraction n (note_output (GivenUp i k) (worker_waits i w p (s\<lparr>table := t\<rparr>))))"
    using action.bury [of "abstraction n s" i k e uuid] assms(2,3) e(1) by (simp add: abstraction_at)
qed

lemma waits_mark:
  assumes "claims_ok s" and "js_get (workers s) i = Some w0" and "claim_of (wk_at w0) = Some k" and "claim_of p = Some k"
    and "entry_read (wk_at w0) = None" and "\<not> replaying_at (wk_at w0)" and "entry_read p = None" and "\<not> replaying_at p"
    and "point_ok p" and "m = ''send_attempt_started'' \<or> m = ''unknown_after_send''"
    and "updateDeliveryQueueEntry io now OUTBOUND k (send_mark now m) (table s) = Inr t"
    and "hs = [] \<or> hs = [StartMarked i k]"
  shows "follows uuid b n s (fold note_output hs (worker_waits i w p (s\<lparr>table := t\<rparr>)))"
proof (rule follows_action)
  let ?s = "fold note_output hs (worker_waits i w p (s\<lparr>table := t\<rparr>))"
  show "claims_ok ?s"
    using claims_ok_waits [of "s\<lparr>table := t\<rparr>" i w0 p w] assms by auto
  obtain e where e: "pending_entry OUTBOUND (table s) k = Some e"
    "pending_entry OUTBOUND t = (pending_entry OUTBOUND (table s))(k \<mapsto> send_mark now m e)"
    using update_maps(1) [OF assms(11)] by auto
  have f: "failed_entry OUTBOUND t = failed_entry OUTBOUND (table s)" using update_maps(2) [OF assms(11)] by simp
  have "abstraction n ?s
      = (abstraction n s)\<lparr>pend := (pend (abstraction n s))(k \<mapsto> send_mark now m e), told := told (abstraction n s) @ hs\<rparr>"
    by (rule protocol_eqI) (use assms(2-8,12) e(2) f in \<open>auto simp: abstraction_at fun_eq_iff split: if_splits\<close>)
  then show "action uuid (abstraction n s) (abstraction n ?s)"
    using action.mark [where a = "abstraction n s" and i = i and k = k and e = e and m = m and hs = hs and now = now and uuid = uuid]
      assms(2,3,5,10,12) e(1) by (simp add: abstraction_at)
qed

lemma waits_replay:
  assumes "claims_ok s" and "js_get (workers s) i = Some w0" and "claim_of (wk_at w0) = Some (de_id e)"
    and "entry_read (wk_at w0) = Some e" and "\<not> replaying_at (wk_at w0)" and "retryCount e < MAX_RETRIES"
  shows "\<not> needs_reconciliation e \<Longrightarrow> follows uuid b n s (call_replay i w e es s)"
    and "follows uuid b n s (call_replay i w e es (note_output (NotSentReported i (de_id e)) s))"
proof -
  have ok: "claims_ok (call_replay i w e es s')" if "claims_ok s'" "js_get (workers s') i = Some w0" for s'
    using claims_ok_waits [of s' i w0 "Replaying e False es" w] that assms(3) by (simp add: call_replay_def)
  have eq: "abstraction n (call_replay i w e es s')
      = (abstraction n s')\<lparr>sending := (sending (abstraction n s'))(i := True), told := history s' @ [ReplayCalled i e]\<rparr>"
    if "js_get (workers s') i = Some w0" for s'
    unfolding call_replay_def
    by (rule protocol_eqI) (use that assms(3,4) in \<open>auto simp: abstraction_at fun_eq_iff\<close>)
  show "follows uuid b n s (call_replay i w e es s)" if "\<not> needs_reconciliation e"
  proof (rule follows_action)
    show "claims_ok (call_replay i w e es s)" by (rule ok [OF assms(1,2)])
    show "action uuid (abstraction n s) (abstraction n (call_replay i w e es s))"
      unfolding eq [OF assms(2)]
      using action.replay [of "abstraction n s" i e uuid] assms(2,4-6) that by (simp add: abstraction_at)
  qed
  let ?s = "note_output (NotSentReported i (de_id e)) s"
  show "follows uuid b n s (call_replay i w e es ?s)"
  proof (rule follows_two)
    show "claims_ok (call_replay i w e es ?s)" by (rule ok) (use assms in simp_all)
    show "action uuid (abstraction n s) (abstraction n ?s)"
      using action.tell [of "NotSentReported i (de_id e)" uuid "abstraction n s"] by simp
    show "action uuid (abstraction n ?s) (abstraction n (call_replay i w e es ?s))"
      using eq [of ?s] action.replay [of "abstraction n ?s" i e uuid] assms(2,4-6) by (simp add: abstraction_at)
  qed
qed

section \<open>Claims and releases\<close>

lemma claims_ok_free:
  assumes "claims_ok s" and "js_get (workers s) i = Some w0" and "claim_of (wk_at w0) = None" and "claim_of p = None" and "point_ok p"
  shows "claims_ok (worker_waits i w p s)"
  using claims_ok_waits [OF assms(1,2)] assms(3-5) by simp

lemma claim_granted:
  assumes "claims_ok s" and "js_get (workers s) i = Some w0" and "claim_of (wk_at w0) = None"
    and "claimRecoveryEntry k s = (True, s1)" and "claim_of p = Some k"
    and "entry_read p = None \<or> entry_read p = pending_entry OUTBOUND (table s) k" and "\<not> replaying_at p" and "point_ok p"
    and "\<not> replaying_at (wk_at w0)" and "hs = [] \<or> (\<exists>x. hs = [x] \<and> plain_output x)"
  shows "follows uuid b n s (fold note_output hs (worker_waits i w p s1))"
proof -
  have s1: "k \<notin> set (entriesInProgress s)" "s1 = s\<lparr>entriesInProgress := js_set_add k (entriesInProgress s)\<rparr>"
    using assms(4) by (auto simp: claimRecoveryEntry_def split: if_splits)
  then have free: "holds (abstraction n s) j \<noteq> Some k" for j n
    using assms(1) unfolding claims_ok_def holds_lost [of n s 0] by metis
  let ?s = "worker_waits i w p s1"
  have h: "holds (abstraction 0 ?s) = (holds (abstraction 0 s))(i \<mapsto> k)"
    using assms(5) s1 by simp
  have ok: "claims_ok ?s"
    unfolding claims_ok_def h
  proof (intro conjI allI)
    show "distinct (entriesInProgress ?s)" using assms(1) s1 by (simp add: claims_ok_def)
    fix k'
    have "holds (abstraction 0 s) i = None" using assms(2,3) by (simp add: abstraction_at)
    then have "(\<exists>j. ((holds (abstraction 0 s))(i \<mapsto> k)) j = Some k') \<longleftrightarrow> k' = k \<or> (\<exists>j. holds (abstraction 0 s) j = Some k')"
      by (auto) (metis option.distinct(1))
    then show "k' \<in> set (entriesInProgress ?s) \<longleftrightarrow> (\<exists>j. ((holds (abstraction 0 s))(i \<mapsto> k)) j = Some k')"
      using assms(1) s1 by (simp add: claims_ok_def)
    fix j w'
    show "js_get (workers ?s) j = Some w' \<longrightarrow> j < next_worker ?s \<and> point_ok (wk_at w')"
      using assms(1,2,8) s1 by (auto simp: claims_ok_def)
  qed
  have eq: "abstraction n ?s = (abstraction n s)\<lparr>holds := (holds (abstraction n s))(i \<mapsto> k), hand := (hand (abstraction n s))(i := entry_read p)\<rparr>"
    by (rule protocol_eqI) (use assms(2,5,7,9) s1 in \<open>auto simp: abstraction_at fun_eq_iff\<close>)
  have act: "action uuid (abstraction n s) (abstraction n ?s)"
    unfolding eq
    using action.claim [of "abstraction n s" i k "entry_read p" uuid] assms(2,3,6) free by (simp add: abstraction_at)
  show ?thesis
    using assms(10)
  proof (elim disjE exE conjE)
    assume "hs = []"
    then show ?thesis using follows_action [OF ok act] by simp
  next
    fix x assume x: "hs = [x]" "plain_output x"
    have "action uuid (abstraction n ?s) (abstraction n (note_output x ?s))"
      using action.tell [OF x(2), of uuid "abstraction n ?s"] s1 by simp
    then show ?thesis using follows_two [OF _ act] ok x(1) by simp
  qed
qed

lemma claim_refused:
  "claimRecoveryEntry k s = (False, s1) \<Longrightarrow> s1 = s"
  by (auto simp: claimRecoveryEntry_def split: if_splits)

text \<open>Worker \<open>i\<close> lets its claim go and waits where it holds none, or ends.\<close>

lemma released:
  assumes "claims_ok s" and "owned (abstraction n s)" and "js_get (workers s) i = Some w0" and "claim_of (wk_at w0) = Some k"
    and "\<not> replaying_at (wk_at w0)"
    and "entriesInProgress s' = remove1 k (entriesInProgress s)" and "next_worker s' = next_worker s" and "table s' = table s"
    and "history s' = history s" and "next_uuid s' = next_uuid s"
    and "\<And>j. j \<noteq> i \<Longrightarrow> js_get (workers s') j = js_get (workers s) j"
    and "\<And>w. js_get (workers s') i = Some w \<Longrightarrow> claim_of (wk_at w) = None \<and> entry_read (wk_at w) = None \<and> \<not> replaying_at (wk_at w) \<and> point_ok (wk_at w)"
  shows "follows uuid b n s s'"
proof (rule follows_action)
  have free: "holds (abstraction m s') i = None" "hand (abstraction m s') i = None" "\<not> sending (abstraction m s') i" for m
    using assms(12) by (cases "js_get (workers s') i"; simp add: abstraction_at)+
  have other: "j \<noteq> i \<Longrightarrow> holds (abstraction m s') j = holds (abstraction m s) j \<and> hand (abstraction m s') j = hand (abstraction m s) j
      \<and> sending (abstraction m s') j = sending (abstraction m s) j" for j m
    using assms(11) by (simp add: abstraction_at)
  have mine: "holds (abstraction 0 s) i = Some k" using assms(3,4) by (simp add: abstraction_at)
  have uniq: "holds (abstraction 0 s) j = Some k \<Longrightarrow> j = i" for j
    using assms(2) mine unfolding owned_def holds_lost [of n s 0] by blast
  show "claims_ok s'"
    unfolding claims_ok_def
  proof (intro conjI allI)
    show "distinct (entriesInProgress s')" using assms(1,6) by (simp add: claims_ok_def)
    fix k'
    have "(\<exists>j. holds (abstraction 0 s') j = Some k') \<longleftrightarrow> k' \<noteq> k \<and> (\<exists>j. holds (abstraction 0 s) j = Some k')"
      using free other uniq mine by (metis option.distinct(1) option.inject)
    then show "k' \<in> set (entriesInProgress s') \<longleftrightarrow> (\<exists>j. holds (abstraction 0 s') j = Some k')"
      using assms(1,6) by (simp add: claims_ok_def) blast
    fix j w
    show "js_get (workers s') j = Some w \<longrightarrow> j < next_worker s' \<and> point_ok (wk_at w)"
      using assms(1,3,7,11,12) by (cases "j = i") (auto simp: claims_ok_def)
  qed
  have "abstraction n s' = (holds_none i (abstraction n s))\<lparr>holds := (holds (abstraction n s))(i := None)\<rparr>"
    by (rule protocol_eqI) (use free other assms(8-10) in \<open>auto simp: fun_eq_iff\<close>)
  then show "action uuid (abstraction n s) (abstraction n s')"
    using action.release [of "abstraction n s" i uuid] assms(3,5) by (simp add: abstraction_at)
qed

text \<open>A worker without a claim changes to another point without one, starts or ends.\<close>

definition idle_point :: "'p point \<Rightarrow> bool" where
  "idle_point p \<longleftrightarrow> claim_of p = None \<and> entry_read p = None \<and> \<not> replaying_at p \<and> point_ok p"

lemma idle_points [simp]:
  "idle_point (LiveStored k)" "idle_point LiveDirect" "idle_point (Listed es)" "idle_point (NextEntry es)"
  by (simp_all add: idle_point_def)

definition idle_at :: "'p delivery_state \<Rightarrow> nat \<Rightarrow> bool" where
  "idle_at s i \<longleftrightarrow> (\<forall>w. js_get (workers s) i = Some w \<longrightarrow> idle_point (wk_at w))"

lemma idle_abstraction:
  assumes "idle_at s i"
  shows "holds (abstraction n s) i = None" "hand (abstraction n s) i = None" "sending (abstraction n s) i = False"
  using assms by (cases "js_get (workers s) i"; simp add: abstraction_at idle_at_def idle_point_def)+

lemma idle_steps:
  assumes "claims_ok s" and "idle_at s i" and "idle_at s' i"
    and "\<And>j. j \<noteq> i \<Longrightarrow> js_get (workers s') j = js_get (workers s) j"
    and "entriesInProgress s' = entriesInProgress s" and "next_worker s \<le> next_worker s'"
    and "js_get (workers s') i \<noteq> None \<Longrightarrow> i < next_worker s'"
  shows "claims_ok s'" and "holds (abstraction n s') = holds (abstraction n s)" "hand (abstraction n s') = hand (abstraction n s)"
    and "sending (abstraction n s') = sending (abstraction n s)"
proof -
  have "holds (abstraction m s') j = holds (abstraction m s) j \<and> hand (abstraction m s') j = hand (abstraction m s) j
      \<and> sending (abstraction m s') j = sending (abstraction m s) j" for j m
    using assms(4) idle_abstraction [OF assms(2), of m] idle_abstraction [OF assms(3), of m]
    by (cases "j = i") (simp_all add: abstraction_at)
  then show h: "holds (abstraction n s') = holds (abstraction n s)" "hand (abstraction n s') = hand (abstraction n s)"
    "sending (abstraction n s') = sending (abstraction n s)" for n by auto
  have "j < next_worker s' \<and> point_ok (wk_at w)" if w: "js_get (workers s') j = Some w" for j w
  proof (cases "j = i")
    case True
    then show ?thesis using w assms(3,7) by (auto simp: idle_at_def idle_point_def)
  next
    case False
    then have "j < next_worker s \<and> point_ok (wk_at w)" using w assms(1,4) by (auto simp: claims_ok_def)
    then show ?thesis using assms(6) by simp
  qed
  then show "claims_ok s'" using assms(1,5) h(1) [of 0] by (simp add: claims_ok_def)
qed

lemma idle_follows:
  assumes "claims_ok s" and "idle_at s i" and "idle_at s' i"
    and "\<And>j. j \<noteq> i \<Longrightarrow> js_get (workers s') j = js_get (workers s) j"
    and "entriesInProgress s' = entriesInProgress s" and "next_worker s \<le> next_worker s'"
    and "js_get (workers s') i \<noteq> None \<Longrightarrow> i < next_worker s'"
    and "table s' = table s" and "history s' = history s" and "next_uuid s' = next_uuid s"
  shows "follows uuid b n s s'"
proof (rule follows_same)
  note idle = idle_steps [OF assms(1-7)]
  show "claims_ok s'" by (rule idle(1))
  show "abstraction n s' = abstraction n s" by (rule protocol_eqI) (use idle(2-4) assms(8-10) in simp_all)
qed

lemma next_worker_idle: "claims_ok s \<Longrightarrow> js_get (workers s) (next_worker s) = None"
  unfolding claims_ok_def by (metis less_irrefl option.exhaust)

lemma end_worker_simps [simp]:
  "js_get (workers (end_worker i w s)) j = (if j = i then None else js_get (workers s) j)"
  "entriesInProgress (end_worker i w s) = entriesInProgress s" "next_worker (end_worker i w s) = next_worker s"
  "table (end_worker i w s) = table s" "history (end_worker i w s) = history s" "next_uuid (end_worker i w s) = next_uuid s"
  by (simp_all add: end_worker_def Let_def split: job.split)

lemma release_simps [simp]:
  "workers (releaseRecoveryEntry k s) = workers s" "next_worker (releaseRecoveryEntry k s) = next_worker s"
  "entriesInProgress (releaseRecoveryEntry k s) = remove1 k (entriesInProgress s)" "table (releaseRecoveryEntry k s) = table s"
  "history (releaseRecoveryEntry k s) = history s" "next_uuid (releaseRecoveryEntry k s) = next_uuid s"
  by (simp_all add: releaseRecoveryEntry_def)

lemma start_worker_simps [simp]:
  "js_get (workers (start_worker j p s)) i =
     (if i = next_worker s then Some \<lparr>wk_job = j, wk_at = p, wk_summary = createEmptyRecoverySummary\<rparr> else js_get (workers s) i)"
  "entriesInProgress (start_worker j p s) = entriesInProgress s" "next_worker (start_worker j p s) = Suc (next_worker s)"
  "table (start_worker j p s) = table s" "history (start_worker j p s) = history s" "next_uuid (start_worker j p s) = next_uuid s"
  by (simp_all add: start_worker_def)

lemma end_idle:
  assumes "claims_ok s" and "js_get (workers s) i = Some w0" and "idle_point (wk_at w0)"
  shows "follows uuid b n s (end_worker i w s)"
  by (rule idle_follows [OF assms(1), where i = i]) (use assms(2,3) in \<open>auto simp: idle_at_def\<close>)

lemma wait_idle:
  assumes "claims_ok s" and "js_get (workers s) i = Some w0" and "idle_point (wk_at w0)" and "idle_point p"
  shows "follows uuid b n s (worker_waits i w p s)"
  by (rule idle_follows [OF assms(1), where i = i]) (use assms in \<open>auto simp: idle_at_def claims_ok_def\<close>)

lemma start_idle:
  assumes "claims_ok s" and "idle_point p" and "claims_ok s1" and "workers s1 = workers s" "next_worker s1 = next_worker s"
    "table s1 = table s" "history s1 = history s" "next_uuid s1 = next_uuid s" "entriesInProgress s1 = entriesInProgress s"
  shows "follows uuid b n s (start_worker j p s1)"
  by (rule idle_follows [OF assms(1), where i = "next_worker s"])
     (use assms next_worker_idle [OF assms(1)] in \<open>auto simp: idle_at_def\<close>)

section \<open>Live sends\<close>

lemma enqueue_maps:
  assumes "enqueueDelivery io now k p t = Inr t'"
  shows "pending_entry OUTBOUND t' = (pending_entry OUTBOUND t)(k \<mapsto> outbound_entry k now p)"
    and "failed_entry OUTBOUND t' = (failed_entry OUTBOUND t)(k := None)"
  using assms by (auto simp: enqueueDelivery_def Let_def upsert_result store_simps fun_eq_iff outbound_entry_def)

lemma follows_send:
  assumes "claims_ok s"
  shows "follows uuid b n s (begin_send uuid io now policy p s)"
proof -
  define k where "k = uuid (next_uuid s)"
  define s1 where "s1 = s\<lparr>next_uuid := Suc (next_uuid s)\<rparr>"
  have s1: "claims_ok s1" "next_worker s1 = next_worker s" "workers s1 = workers s" "table s1 = table s" "history s1 = history s"
    "next_uuid s1 = Suc (next_uuid s)" "entriesInProgress s1 = entriesInProgress s"
    using assms by (simp_all add: s1_def claims_ok_def abstraction_at)
  have a1: "abstraction n s1 = (abstraction n s)\<lparr>drawn := Suc (drawn (abstraction n s))\<rparr>"
    by (simp add: s1_def abstraction_def)
  note idle = next_worker_idle [OF s1(1)]
  show ?thesis
  proof (cases "enqueueDelivery io now k p (table s)")
    case (Inl err)
    show ?thesis
    proof (cases "policy = Required")
      case True
      then have eq: "begin_send uuid io now policy p s = s1" using Inl by (simp add: begin_send_def k_def s1_def)
      show ?thesis unfolding eq
        by (rule follows_action [OF s1(1)]) (use action.draw [of uuid "abstraction n s"] a1 in simp)
    next
      case False
      let ?s = "start_worker (LiveSend policy) LiveDirect s1"
      have eq: "begin_send uuid io now policy p s = note_output (DirectSend (next_worker s1)) ?s"
        using Inl False by (simp add: begin_send_def k_def s1_def Let_def)
      have idle_s: "claims_ok ?s" "holds (abstraction n ?s) = holds (abstraction n s1)" "hand (abstraction n ?s) = hand (abstraction n s1)"
        "sending (abstraction n ?s) = sending (abstraction n s1)"
        by (rule idle_steps [OF s1(1), where i = "next_worker s1"], use idle in \<open>auto simp: idle_at_def\<close>)+
      have "abstraction n (note_output (DirectSend (next_worker s1)) ?s)
          = (abstraction n s1)\<lparr>told := told (abstraction n s1) @ [DirectSend (next_worker s1)]\<rparr>"
        by (rule protocol_eqI) (use idle_s in simp_all)
      then show ?thesis unfolding eq
        using follows_two [of "note_output (DirectSend (next_worker s1)) ?s" uuid n s "abstraction n s1"] idle_s(1)
          action.draw [of uuid "abstraction n s"] a1 action.tell [of "DirectSend (next_worker s1)" uuid "abstraction n s1"] by simp
    qed
  next
    case (Inr t)
    let ?e = "outbound_entry k now p"
    let ?s = "start_worker (LiveSend policy) (LiveStored k) (s1\<lparr>table := t\<rparr>)"
    have eq: "begin_send uuid io now policy p s = note_output (Stored ?e) ?s"
      using Inr by (simp add: begin_send_def k_def s1_def Let_def)
    have idle_s: "claims_ok ?s" "holds (abstraction n ?s) = holds (abstraction n s1)" "hand (abstraction n ?s) = hand (abstraction n s1)"
      "sending (abstraction n ?s) = sending (abstraction n s1)"
      by (rule idle_steps [OF s1(1), where i = "next_worker s1"], use idle in \<open>auto simp: idle_at_def\<close>)+
    have id: "de_id ?e = uuid (drawn (abstraction n s))" "retryCount ?e = 0" by (simp_all add: k_def outbound_entry_def)
    have "abstraction n (note_output (Stored ?e) ?s)
        = (abstraction n s)\<lparr>pend := (pend (abstraction n s))(de_id ?e \<mapsto> ?e), dead := (dead (abstraction n s))(de_id ?e := None),
            drawn := Suc (drawn (abstraction n s)), told := told (abstraction n s) @ [Stored ?e]\<rparr>"
      by (rule protocol_eqI) (use idle_s s1 enqueue_maps [OF Inr] a1 in \<open>simp_all add: outbound_entry_def\<close>)
    then show ?thesis unfolding eq
      using follows_action [of "note_output (Stored ?e) ?s" uuid n s] idle_s(1) action.store [where e = ?e and a = "abstraction n s" and uuid = uuid, OF id] by simp
  qed
qed

section \<open>Settling an attempt\<close>

lemma fail_error: "failDelivery io now k msg t = Inl err \<Longrightarrow> pending_entry OUTBOUND t k = Some e \<Longrightarrow> io \<noteq> None"
  by (cases io) (simp_all add: failDelivery_def updateDeliveryQueueEntry_def loadDeliveryQueueEntry_def upsertDeliveryQueueEntry_def)

lemma move_error: "moveToFailed io now k t = Inl err \<Longrightarrow> pending_entry OUTBOUND t k = Some e \<Longrightarrow> io \<noteq> None"
  by (cases io) (simp_all add: moveToFailed_def moveDeliveryQueueEntryToFailed_def loadDeliveryQueueEntry_def
      upsertDeliveryQueueEntry_def)

lemma ack_error: "ackDelivery io k t = Inl err \<Longrightarrow> io \<noteq> None"
  by (auto simp: ackDelivery_def deleteDeliveryQueueEntry_def split: option.splits)

lemma waits_settled:
  assumes "claims_ok s" and "js_get (workers s) i = Some w0" and "claim_of (wk_at w0) = Some (de_id e)"
    and "pending_entry OUTBOUND (table s) (de_id e) = Some e"
  shows "follows uuid (io \<noteq> None) n s (record_failure i w e msg es io now s)"
    and "follows uuid (io \<noteq> None) n s (bury_entry i w e es io now s)"
    and "follows uuid (io \<noteq> None) n s (give_up_entry i w e es io now s)"
proof -
  have lose: "follows uuid (io \<noteq> None) n s (worker_waits i w' p s)"
    if "claim_of p = Some (de_id e)" "entry_read p = None" "\<not> replaying_at p" "point_ok p" "io \<noteq> None" for w' p
    using waits_lose [OF assms(1,2), of p] that assms(3) by simp
  show "follows uuid (io \<noteq> None) n s (record_failure i w e msg es io now s)"
    using lose [of "Releasing (de_id e) es"] fail_error [OF _ assms(4)]
    by (auto simp: record_failure_def intro: waits_attempt [OF assms(1-3)] split: sum.split)
  show "follows uuid (io \<noteq> None) n s (bury_entry i w e es io now s)"
    using lose [of "Releasing (de_id e) es"] move_error [OF _ assms(4)]
    by (auto simp: bury_entry_def intro: waits_bury [OF assms(1-3)] split: sum.split)
  show "follows uuid (io \<noteq> None) n s (give_up_entry i w e es io now s)"
  proof (cases "moveToFailed io now (de_id e) (table s)")
    case (Inl err)
    have "io \<noteq> None" by (rule move_error [OF Inl assms(4)])
    then show ?thesis
      using lose [of "Releasing (de_id e) es"] lose [of "Aborting (de_id e)"] Inl
      by (simp add: give_up_entry_def split: job.split store_error.split)
  next
    case (Inr t)
    then show ?thesis
      by (auto simp: give_up_entry_def intro: waits_bury [OF assms(1-3)])
  qed
qed

section \<open>The steps of a worker\<close>

lemma follows_live_answer:
  assumes "claims_ok s" and "js_get (workers s) i = Some w" and "wk_at w = LiveSending k started partial_failure"
  shows "follows uuid b n s (live_answer i w policy k started partial_failure io now a s)"
proof -
  have leave: "follows uuid b n s (worker_waits i w (LiveLeaving k) s)"
    by (rule waits_same [OF assms(1,2)]) (simp_all add: assms(3))
  have acked: "follows uuid b n s (note_output (Acknowledged i k c) (worker_waits i w p (s\<lparr>table := t\<rparr>)))"
    if "ackDelivery io k (table s) = Inr t" "p = LiveHooks k \<or> p = LiveLeaving k" for t c p
    using that by (intro waits_ack [OF assms(1,2)]) (auto simp: assms(3))
  have failed: "follows uuid b n s (note_output (AttemptRecorded i k m) (worker_waits i w (LiveLeaving k) (s\<lparr>table := t\<rparr>)))"
    if "failDelivery io now k m (table s) = Inr t" for t m
    using that by (intro waits_attempt [OF assms(1,2)]) (auto simp: assms(3))
  have marked: "follows uuid b n s (worker_waits i w (LiveOutcomeMarked k) (s\<lparr>table := t\<rparr>))"
    if "markQueuedPlatformOutcomeUnknown io now k policy (table s) = Inr t" for t
  proof (cases "markDeliveryPlatformOutcomeUnknown io now k (table s)")
    case (Inl err)
    then have "t = table s" using that by (simp add: markQueuedPlatformOutcomeUnknown_def split: if_splits)
    then have "s\<lparr>table := t\<rparr> = s" by simp
    then show ?thesis using waits_same [OF assms(1,2), of "LiveOutcomeMarked k" uuid b n w] assms(3) by simp
  next
    case (Inr t')
    then have "t' = t" using that by (simp add: markQueuedPlatformOutcomeUnknown_def)
    then show ?thesis
      using waits_mark [OF assms(1,2), of k "LiveOutcomeMarked k" "''unknown_after_send''" io now t "[]" uuid b n w] Inr assms(3)
      by (simp add: markDeliveryPlatformOutcomeUnknown_def)
  qed
  show ?thesis
    unfolding live_answer_def using leave acked failed marked
    by (auto split: core_answer.split sum.split)
qed

lemma follows_platform_start:
  assumes "claims_ok s"
  shows "follows uuid b n s (platform_send_start i io now s)"
proof -
  have stay: "follows uuid b n s s" by (rule follows_same) (use assms in simp_all)
  show ?thesis
  proof (cases "js_get (workers s) i")
    case None
    then show ?thesis using stay by (simp add: platform_send_start_def)
  next
    case (Some w)
    show ?thesis
    proof (cases "\<exists>policy k pf. wk_job w = LiveSend policy \<and> wk_at w = LiveSending k False pf")
      case False
      then have "platform_send_start i io now s = s"
        using Some by (auto simp: platform_send_start_def split: job.split point.split)
      then show ?thesis using stay by simp
    next
      case True
      then obtain policy k pf where w: "wk_job w = LiveSend policy" "wk_at w = LiveSending k False pf" by blast
      show ?thesis
      proof (cases "markDeliveryPlatformSendAttemptStarted io now k (table s)")
        case (Inl err)
        have "s\<lparr>table := table s\<rparr> = s" by simp
        then have "platform_send_start i io now s = s \<or> platform_send_start i io now s = worker_waits i w (LiveSending k False pf) s"
          using Some w Inl by (auto simp: platform_send_start_def markQueuedPlatformSendAttemptStarted_def)
        then show ?thesis
          using stay waits_same [OF assms Some, of "LiveSending k False pf" uuid b n w] w(2) by auto
      next
        case (Inr t)
        then have "platform_send_start i io now s = note_output (StartMarked i k) (worker_waits i w (LiveSending k True pf) (s\<lparr>table := t\<rparr>))"
          using Some w by (simp add: platform_send_start_def markQueuedPlatformSendAttemptStarted_def)
        then show ?thesis
          using waits_mark [OF assms Some, of k "LiveSending k True pf" "''send_attempt_started''" io now t "[StartMarked i k]" uuid b n w] Inr w(2)
          by (simp add: markDeliveryPlatformSendAttemptStarted_def)
      qed
    qed
  qed
qed

lemma follows_payload_error:
  assumes "claims_ok s"
  shows "follows uuid b n s (payload_error i s)"
proof -
  have stay: "follows uuid b n s s" by (rule follows_same) (use assms in simp_all)
  then show ?thesis
    by (auto simp: payload_error_def intro: waits_same [OF assms] split: option.split point.split)
qed

lemma follows_reconciled:
  assumes "claims_ok s" and "js_get (workers s) i = Some w" and "wk_at w = Reconciling e es"
    and "pending_entry OUTBOUND (table s) (de_id e) = Some e"
  shows "follows uuid (io \<noteq> None) n s (reconciled i w e es io now r s)"
proof (cases r)
  case WasSent
  have "follows uuid (io \<noteq> None) n s (note_output (Acknowledged i (de_id e) FoundSent) (worker_waits i w (CommitHooks e es) (s\<lparr>table := t\<rparr>)))"
    if "ackDelivery io (de_id e) (table s) = Inr t" for t
    using that by (intro waits_ack [OF assms(1,2)]) (simp_all add: assms(3))
  moreover have "follows uuid (io \<noteq> None) n s (worker_waits i w (AckFailed e m es) s)" for m
    by (rule waits_same [OF assms(1,2)]) (simp_all add: assms(3))
  ultimately show ?thesis by (auto simp: reconciled_def WasSent split: sum.split)
next
  case WasNotSent
  have "point_ok (wk_at w)" using assms(1,2) unfolding claims_ok_def by blast
  then have "retryCount e < MAX_RETRIES" by (simp add: assms(3))
  then show ?thesis
    using waits_replay(2) [OF assms(1,2)] assms(3) by (simp add: reconciled_def WasNotSent)
next
  case (Unresolved err retryable)
  then show ?thesis
    using waits_settled(1,2) [OF assms(1,2) _ assms(4)] assms(3) by (simp add: reconciled_def Let_def)
next
  case NoReconciliation
  then show ?thesis
    using waits_settled(2) [OF assms(1,2) _ assms(4)] assms(3) by (simp add: reconciled_def)
qed

lemma follows_replay_answer:
  assumes "claims_ok s" and "js_get (workers s) i = Some w" and "wk_at w = Replaying e pf es"
    and "pending_entry OUTBOUND (table s) (de_id e) = Some e"
  shows "follows uuid (io \<noteq> None) n s (replay_answer i w e pf es io now a s)"
proof (cases a)
  case CoreReturned
  have "follows uuid (io \<noteq> None) n s (note_output (Acknowledged i (de_id e) (SentByReplay pf)) (worker_waits i w (CommitHooks e es) (s\<lparr>table := t\<rparr>)))"
    if "ackDelivery io (de_id e) (table s) = Inr t" for t
    using that by (intro waits_ack [OF assms(1,2)]) (simp_all add: assms(3))
  moreover have "follows uuid (io \<noteq> None) n s (worker_waits i w (ReplayFailed e m es) s)" for m
    by (rule waits_same [OF assms(1,2)]) (simp_all add: assms(3))
  ultimately show ?thesis by (auto simp: replay_answer_def CoreReturned split: sum.split)
next
  case (CoreRejected m aborted)
  then show ?thesis
    using waits_settled(1,2) [OF assms(1,2) _ assms(4)] assms(3) by (simp add: replay_answer_def Let_def)
qed

lemma follows_examine:
  assumes "claims_ok s" and "js_get (workers s) i = Some w" and "wk_at w = Reread k current es"
    and "\<And>e. current = Some e \<Longrightarrow> de_id e = k \<and> pending_entry OUTBOUND (table s) k = Some e"
  shows "follows uuid (io \<noteq> None) n s (examine_entry i w k current es io now s)"
proof (cases current)
  case None
  then show ?thesis
    using waits_forget [OF assms(1,2), of "Releasing k es"] assms(3) by (simp add: examine_entry_def)
next
  case (Some e)
  with assms(4) have e: "de_id e = k" "pending_entry OUTBOUND (table s) (de_id e) = Some e" by auto
  have leave: "follows uuid (io \<noteq> None) n s (worker_waits i w' (Releasing k es) s)" for w'
    using waits_forget [OF assms(1,2), of "Releasing k es"] assms(3) by simp
  have give_up: "follows uuid (io \<noteq> None) n s (give_up_entry i w e es io now s)"
    using waits_settled(3) [OF assms(1,2) _ e(2)] assms(3) e(1) by simp
  have "follows uuid (io \<noteq> None) n s (begin_entry i w e es s)" if few: "retryCount e < MAX_RETRIES"
  proof (cases "needs_reconciliation e")
    case True
    then show ?thesis
      using waits_tell [OF assms(1,2), of "Reconciling e es" "ReconcileCalled i e"] assms(3) Some e(1) few
      by (simp add: begin_entry_def)
  next
    case False
    then show ?thesis
      using waits_replay(1) [OF assms(1,2), of e] assms(3) Some e(1) few by (simp add: begin_entry_def)
  qed
  with leave give_up show ?thesis by (simp add: examine_entry_def Some)
qed

lemma follows_claim_next:
  assumes "claims_ok s" and "js_get (workers s) i = Some w" and "wk_at w = NextEntry es"
  shows "follows uuid b n s (claim_next i w es io now s)"
proof (cases es)
  case Nil
  then show ?thesis using end_idle [OF assms(1,2)] assms(3) by (simp add: claim_next_def)
next
  case (Cons e rest)
  obtain granted s1 where c: "claimRecoveryEntry (de_id e) s = (granted, s1)" by (meson surj_pair)
  show ?thesis
  proof (cases "budget_spent w now")
    case True
    then show ?thesis using end_idle [OF assms(1,2)] assms(3) Cons by (simp add: claim_next_def)
  next
    case False
    show ?thesis
    proof (cases granted)
      case True
      have t: "table s1 = table s" using c by (auto simp: claimRecoveryEntry_def split: if_splits)
      have g: "follows uuid b n s (worker_waits i w p s1)"
        if "claim_of p = Some (de_id e)" "entry_read p = None \<or> entry_read p = pending_entry OUTBOUND (table s) (de_id e)"
          "\<not> replaying_at p" "point_ok p" for p
        using claim_granted [OF assms(1,2), of "de_id e" s1 p "[]"] c True that assms(3) by simp
      show ?thesis
        using g [of "Aborting (de_id e)"] g [of "Reread (de_id e) (pending_entry OUTBOUND (table s) (de_id e)) rest"] False c True t
        by (auto simp: claim_next_def Cons loadPendingDelivery_def loadDeliveryQueueEntry_def split: option.split)
    next
      case refused: False
      then have "s1 = s" using c claim_refused by simp
      then show ?thesis
        using wait_idle [OF assms(1,2), of "NextEntry rest"] assms(3) False c refused by (simp add: claim_next_def Cons)
    qed
  qed
qed

text \<open>What a worker has in hand is what the table holds.\<close>

lemma hand_is_current:
  assumes "owned (abstraction n s)" and "js_get (workers s) i = Some w" and "entry_read (wk_at w) = Some e"
  shows "claim_of (wk_at w) = Some (de_id e) \<and> pending_entry OUTBOUND (table s) (de_id e) = Some e"
  using owned_hand [OF assms(1), of i e] assms(2,3) by (simp add: abstraction_at)

lemma leaves_claim:
  assumes "claims_ok s" and "owned (abstraction n s)" and "js_get (workers s) i = Some w" and "claim_of (wk_at w) = Some k"
    and "\<not> replaying_at (wk_at w)"
  shows "follows uuid b n s (end_worker i w' (releaseRecoveryEntry k s))"
    and "follows uuid b n s (worker_waits i w' (NextEntry es) (releaseRecoveryEntry k s))"
  by (rule released [OF assms], auto)+

lemma follows_live_stored:
  assumes "claims_ok s" and "js_get (workers s) i = Some w" and "wk_at w = LiveStored k"
  shows "follows uuid b n s (continue_worker i io now s)"
proof -
  obtain granted s1 where c: "claimRecoveryEntry k s = (granted, s1)" by (meson surj_pair)
  show ?thesis
  proof (cases granted)
    case True
    have "follows uuid b n s (fold note_output [CoreCalled i k] (worker_waits i w (LiveSending k False False) s1))"
      by (rule claim_granted [OF assms(1,2), of k]) (use c True assms(3) in auto)
    then show ?thesis using assms(2,3) c True by (simp add: continue_worker_def)
  next
    case False
    then show ?thesis
      using end_idle [OF assms(1,2)] claim_refused [of k s s1] assms(2,3) c by (simp add: continue_worker_def)
  qed
qed

lemma follows_work_list:
  assumes "claims_ok s" and "js_get (workers s) i = Some w" and "wk_at w = Listed es"
  shows "follows uuid b n s (work_list i w es now s)"
proof (cases "wk_job w")
  case (LiveSend policy)
  then show ?thesis using follows_same [OF assms(1)] by (simp add: work_list_def)
qed (use wait_idle [OF assms(1,2)] assms(3) in \<open>simp_all add: work_list_def\<close>)

lemma follows_continue:
  assumes "claims_ok s" and "owned (abstraction n s)"
  shows "follows uuid (io \<noteq> None) n s (continue_worker i io now s)"
proof (cases "js_get (workers s) i")
  case None
  then show ?thesis using follows_same [OF assms(1)] by (simp add: continue_worker_def)
next
  case (Some w)
  note current = hand_is_current [OF assms(2) Some] and leaves = leaves_claim [OF assms Some]
  show ?thesis
  proof (cases "wk_at w")
    case (LiveStored k)
    then show ?thesis by (rule follows_live_stored [OF assms(1) Some])
  next
    case (LiveOutcomeMarked k)
    have "follows uuid (io \<noteq> None) n s (note_output (Acknowledged i k SentLive) (worker_waits i w (LiveHooks k) (s\<lparr>table := t\<rparr>)))"
      if "ackDelivery io k (table s) = Inr t" for t
      using that by (intro waits_ack [OF assms(1) Some]) (simp_all add: LiveOutcomeMarked)
    then show ?thesis
      using waits_same [OF assms(1) Some, of "LiveLeaving k"] Some LiveOutcomeMarked
      by (auto simp: continue_worker_def split: sum.split)
  next
    case (LiveHooks k)
    then show ?thesis using waits_same [OF assms(1) Some, of "LiveLeaving k"] Some by (simp add: continue_worker_def)
  next
    case (LiveLeaving k)
    then show ?thesis using leaves(1) [of k] Some by (simp add: continue_worker_def)
  next
    case (Listed es)
    then show ?thesis using follows_work_list [OF assms(1) Some] Some by (simp add: continue_worker_def)
  next
    case (NextEntry es)
    then show ?thesis using follows_claim_next [OF assms(1) Some] Some by (simp add: continue_worker_def)
  next
    case (Reread k cur es)
    then show ?thesis
      using follows_examine [OF assms(1) Some Reread] current Some by (simp add: continue_worker_def)
  next
    case (AckFailed e m es)
    then show ?thesis
      using waits_settled(1) [OF assms(1) Some, of e] current [of e] Some by (simp add: continue_worker_def)
  next
    case (ReplayFailed e m es)
    then show ?thesis
      using waits_settled(1,2) [OF assms(1) Some, of e] current [of e] Some by (simp add: continue_worker_def Let_def)
  next
    case (CommitHooks e es)
    then show ?thesis using waits_same [OF assms(1) Some, of "Releasing (de_id e) es"] Some by (simp add: continue_worker_def)
  next
    case (Releasing k es)
    then show ?thesis using leaves(2) [of k] Some by (simp add: continue_worker_def)
  next
    case (Aborting k)
    then show ?thesis using leaves(1) [of k] Some by (simp add: continue_worker_def)
  qed (use follows_same [OF assms(1)] Some in \<open>simp_all add: continue_worker_def\<close>)
qed

lemma follows_core_answers:
  assumes "claims_ok s" and "owned (abstraction n s)"
  shows "follows uuid (io \<noteq> None) n s (core_answers i io now a s)"
proof -
  have stay: "follows uuid b n s s" for b by (rule follows_same) (use assms in simp_all)
  show ?thesis
  proof (cases "js_get (workers s) i")
    case None
    then show ?thesis using stay by (simp add: core_answers_def)
  next
    case (Some w)
    note current = hand_is_current [OF assms(2) Some]
    show ?thesis
    proof (cases "wk_at w")
      case (LiveSending k b pf)
      then show ?thesis
        using stay follows_live_answer [OF assms(1) Some] Some by (cases "wk_job w") (simp_all add: core_answers_def)
    next
      case LiveDirect
      then show ?thesis
        using stay end_idle [OF assms(1) Some] Some by (cases "wk_job w") (simp_all add: core_answers_def)
    next
      case (Replaying e pf es)
      then have "core_answers i io now a s = replay_answer i w e pf es io now a s"
        using Some by (cases "wk_job w") (simp_all add: core_answers_def)
      then show ?thesis using follows_replay_answer [OF assms(1) Some Replaying] current [of e] Replaying by simp
    qed (use stay Some in \<open>cases "wk_job w"; simp add: core_answers_def\<close>)+
  qed
qed

lemma follows_adapter_answers:
  assumes "claims_ok s" and "owned (abstraction n s)"
  shows "follows uuid (io \<noteq> None) n s (adapter_answers i io now r s)"
proof -
  have stay: "follows uuid b n s s" for b by (rule follows_same) (use assms in simp_all)
  show ?thesis
  proof (cases "js_get (workers s) i")
    case None
    then show ?thesis using stay by (simp add: adapter_answers_def)
  next
    case (Some w)
    then show ?thesis
      using stay follows_reconciled [OF assms(1) Some] hand_is_current [OF assms(2) Some]
      by (cases "wk_at w") (simp_all add: adapter_answers_def)
  qed
qed

lemma follows_crash: "follows uuid True n s (crash s)"
proof -
  have "claims_ok (crash s)" by (simp add: claims_ok_def crash_def abstraction_at)
  moreover have "abstraction (Suc n) (crash s) = (abstraction n s)\<lparr>holds := (\<lambda>_. None), hand := (\<lambda>_. None), sending := (\<lambda>_. False),
      lost := Suc (lost (abstraction n s))\<rparr>"
    by (simp add: abstraction_def crash_def)
  ultimately show ?thesis
    unfolding follows_def using action.crash [of uuid "abstraction n s"] by (simp add: r_into_rtranclp)
qed

lemma follows_begin:
  assumes "claims_ok s"
  shows "follows uuid b n s (begin_recovery io mx s)" and "follows uuid b n s (begin_drain io now key sel s)"
proof -
  have stay: "follows uuid b n s s" by (rule follows_same) (use assms in simp_all)
  have drain: "claims_ok (s\<lparr>drainInProgress := ks\<rparr>)" for ks using assms by (simp add: claims_ok_def abstraction_at)
  show "follows uuid b n s (begin_recovery io mx s)"
    using stay start_idle [OF assms _ assms] by (simp add: begin_recovery_def split: sum.split)
  show "follows uuid b n s (begin_drain io now key sel s)"
    using stay start_idle [OF assms _ drain] by (simp add: begin_drain_def split: sum.split)
qed

section \<open>Runs\<close>

text \<open>An event is an interruption when the process crashes, or when the database fails while an attempt is settled.\<close>

fun interruption :: "'p delivery_event \<Rightarrow> bool" where
  "interruption Crash = True"
| "interruption (Continue i io now) = (io \<noteq> None)"
| "interruption (CoreAnswers i io now a) = (io \<noteq> None)"
| "interruption (AdapterAnswers i io now r) = (io \<noteq> None)"
| "interruption _ = False"

definition interruptions :: "'p delivery_event list \<Rightarrow> nat" where
  "interruptions es = length (filter interruption es)"

lemma step_follows:
  assumes "claims_ok s" and "owned (abstraction n s)"
  shows "follows uuid (interruption ev) n s (delivery_step uuid ev s)"
  using assms
  by (cases ev) (simp_all add: follows_send follows_begin follows_continue follows_platform_start follows_payload_error
      follows_core_answers follows_adapter_answers follows_crash del: not_None_eq)

lemma abstraction_initial: "abstraction 0 initial_deliveries = protocol_start"
  by (simp add: abstraction_def initial_deliveries_def protocol_start_def pending_entry_def failed_entry_def
      fun_eq_iff)

lemma run_follows:
  assumes "inj uuid"
  shows "claims_ok (run_deliveries uuid es) \<and> protocol_reach uuid (abstraction (interruptions es) (run_deliveries uuid es))"
proof (induction es rule: rev_induct)
  case Nil
  have "protocol_reach uuid (abstraction 0 initial_deliveries)"
    unfolding abstraction_initial by (rule protocol_reach.start)
  moreover have "claims_ok initial_deliveries" by (simp add: claims_ok_def initial_deliveries_def abstraction_at)
  ultimately show ?case by (simp add: run_deliveries_def interruptions_def)
next
  case (snoc ev es)
  let ?s = "run_deliveries uuid es" and ?n = "interruptions es"
  have "owned (abstraction ?n ?s)" using snoc reach_owned assms by blast
  then have "follows uuid (interruption ev) ?n ?s (delivery_step uuid ev ?s)" using step_follows snoc by blast
  moreover have "run_deliveries uuid (es @ [ev]) = delivery_step uuid ev ?s" by (simp add: run_deliveries_def)
  moreover have "interruptions (es @ [ev]) = ?n + of_bool (interruption ev)" by (simp add: interruptions_def)
  ultimately show ?case using snoc reach_actions unfolding follows_def by metis
qed

end
