(* ===== verification/DeliveryProps.thy ===== *)
theory DeliveryProps
  imports DeliveryRefine
begin

text \<open>
  What the durable queue of outbound messages promises, whatever the order in which live sends, recoveries and drains
  interleave, wherever the process crashes and whichever operation of the database fails.  The ids of the entries are
  random UUIDs: that they do not repeat is the hypothesis \<^prop>\<open>inj uuid\<close>.
\<close>

definition unary_id :: "nat \<Rightarrow> string" where
  "unary_id n = replicate n CHR ''i''"

lemma inj_unary_id: "inj unary_id"
  by (auto simp: inj_def unary_id_def dest: arg_cong [where f = length])

lemma run_append: "run_deliveries uuid (es @ es') = fold (delivery_step uuid) es' (run_deliveries uuid es)"
  by (simp add: run_deliveries_def)

lemma interruptions_append [simp]: "interruptions (es @ es') = interruptions es + interruptions es'"
  by (simp add: interruptions_def)

lemma run_invariants:
  assumes "inj uuid"
  shows "owned (abstraction (interruptions es) (run_deliveries uuid es))"
    and "kept (abstraction (interruptions es) (run_deliveries uuid es))"
    and "in_budget (abstraction (interruptions es) (run_deliveries uuid es))"
    and "replays_checked (history (run_deliveries uuid es))"
    and "claims_ok (run_deliveries uuid es)"
    and "attempts_counted (abstraction (interruptions es) (run_deliveries uuid es))"
    and "replays_counted (history (run_deliveries uuid es))"
  using run_follows [OF assms, of es] reach_owned reach_kept reach_budget reach_checked reach_counted assms by fastforce+

lemma run_step_acts:
  assumes "inj uuid"
  shows "(action uuid)\<^sup>*\<^sup>* (abstraction (interruptions es) (run_deliveries uuid es))
    (abstraction (interruptions (es @ [ev])) (run_deliveries uuid (es @ [ev])))"
proof -
  have "follows uuid (interruption ev) (interruptions es) (run_deliveries uuid es) (run_deliveries uuid (es @ [ev]))"
    using step_follows [OF run_invariants(5,1) [OF assms]] by (simp add: run_append)
  moreover have "interruptions (es @ [ev]) = interruptions es + of_bool (interruption ev)" by (simp add: interruptions_def)
  ultimately show ?thesis unfolding follows_def by metis
qed

lemma run_acts:
  assumes "inj uuid"
  shows "(action uuid)\<^sup>*\<^sup>* (abstraction (interruptions es) (run_deliveries uuid es))
    (abstraction (interruptions (es @ es')) (run_deliveries uuid (es @ es')))"
proof (induction es' rule: rev_induct)
  case (snoc ev es')
  then show ?case using run_step_acts [OF assms, of "es @ es'" ev] by (metis append_assoc rtranclp_trans)
qed simp

section \<open>A small run\<close>

text \<open>A message is stored, and before its live send goes on a drain finds it and sends it.\<close>

definition hello_payload :: "nat outbound_payload" where
  "hello_payload = \<lparr>op_channel = ''x'', op_to = ''y'', op_accountId = None, op_session_key = None, op_message = 1\<rparr>"

definition hello_entry :: "nat delivery_entry" where
  "hello_entry = outbound_entry [] 1 hello_payload"

definition take_all :: "nat delivery_entry \<Rightarrow> int \<Rightarrow> drain_decision" where
  "take_all e t = \<lparr>dd_match = True, bypassBackoff = False\<rparr>"

definition claimed_run :: "nat delivery_event list" where
  "claimed_run = [Send None 1 BestEffort hello_payload, Reconnect None 2 ''k'' take_all, Continue 1 None 3, Continue 1 None 4]"

definition drained_run :: "nat delivery_event list" where
  "drained_run = claimed_run @ [Continue 1 None 5]"

lemmas small_run_defs =
  run_deliveries_def initial_deliveries_def begin_send_def enqueueDelivery_def upsertDeliveryQueueEntry_def Let_def
  note_output_def start_worker_def worker_waits_def begin_drain_def loadPendingDeliveries_def loadDeliveryQueueEntries_def
  continue_worker_def work_list_def claim_next_def claimRecoveryEntry_def loadPendingDelivery_def loadDeliveryQueueEntry_def
  pending_entry_def examine_entry_def still_selected_def skips_backoff_def isEntryEligibleForRecoveryRetry_def computeBackoffMs_def
  BACKOFF_MS_def MAX_RETRIES_def begin_entry_def needs_reconciliation_def call_replay_def budget_spent_def unary_id_def
  hello_entry_def hello_payload_def outbound_entry_def row_of_def inflate_def js_set_add_def take_all_def drained_run_def
  claimed_run_def

lemma claimed_history: "history (run_deliveries unary_id claimed_run) = [Stored hello_entry]"
  by (simp add: small_run_defs)

lemma claimed_worker:
  "map_option wk_at (js_get (workers (run_deliveries unary_id claimed_run)) 1) = Some (Reread [] (Some hello_entry) [])"
  by (simp add: small_run_defs)

lemma drained_history: "history (run_deliveries unary_id drained_run) = [Stored hello_entry, ReplayCalled 1 hello_entry]"
  by (simp add: small_run_defs)

lemma drained_pending: "pending_entry OUTBOUND (table (run_deliveries unary_id drained_run)) [] = Some hello_entry"
  by (simp add: small_run_defs)

section \<open>The workers follow the protocol\<close>

text \<open>C3. Whatever happens to it, a run of the workers is a run of the protocol: each event is a sequence of protocol
  actions between the states it abstracts to.\<close>

theorem workers_follow_the_protocol:
  assumes "inj uuid"
  shows "abstraction (interruptions []) (run_deliveries uuid ([] :: 'p delivery_event list)) = protocol_start
    \<and> (action uuid)\<^sup>*\<^sup>* (abstraction (interruptions es) (run_deliveries uuid es))
        (abstraction (interruptions (es @ [ev :: 'p delivery_event])) (run_deliveries uuid (es @ [ev])))"
proof
  show "abstraction (interruptions []) (run_deliveries uuid ([] :: 'p delivery_event list)) = protocol_start"
    using abstraction_initial by (simp add: run_deliveries_def interruptions_def)
qed (rule run_step_acts [OF assms])

theorem workers_follow_the_protocol_witness:
  "inj unary_id \<and> (action unary_id)\<^sup>*\<^sup>* (abstraction (interruptions claimed_run) (run_deliveries unary_id claimed_run))
     (abstraction (interruptions (claimed_run @ [Continue 1 None 5])) (run_deliveries unary_id (claimed_run @ [Continue 1 None 5])))"
  using workers_follow_the_protocol [OF inj_unary_id, of claimed_run "Continue 1 None 5"] inj_unary_id by blast

section \<open>No message is lost\<close>

text \<open>C4. A message that was stored is pending with its content, or a dead letter that a worker gave up, or
  acknowledged.\<close>

theorem stored_message_is_never_lost:
  assumes "inj uuid" and "Stored e \<in> set (history (run_deliveries uuid es))"
  shows "(\<exists>e'. pending_entry OUTBOUND (table (run_deliveries uuid es)) (de_id e) = Some e' \<and> same_message e e')
    \<or> (\<exists>e'. failed_entry OUTBOUND (table (run_deliveries uuid es)) (de_id e) = Some e' \<and> same_message e e'
         \<and> (\<exists>i. GivenUp i (de_id e) \<in> set (history (run_deliveries uuid es))))
    \<or> (\<exists>i c. Acknowledged i (de_id e) c \<in> set (history (run_deliveries uuid es)))"
proof -
  have "kept (abstraction (interruptions es) (run_deliveries uuid es))" by (rule run_invariants(2) [OF assms(1)])
  then show ?thesis using assms(2) by (simp add: kept_def) blast
qed

theorem stored_message_is_never_lost_witness:
  "Stored hello_entry \<in> set (history (run_deliveries unary_id drained_run))
   \<and> ((\<exists>e'. pending_entry OUTBOUND (table (run_deliveries unary_id drained_run)) (de_id hello_entry) = Some e' \<and> same_message hello_entry e')
    \<or> (\<exists>e'. failed_entry OUTBOUND (table (run_deliveries unary_id drained_run)) (de_id hello_entry) = Some e' \<and> same_message hello_entry e'
         \<and> (\<exists>i. GivenUp i (de_id hello_entry) \<in> set (history (run_deliveries unary_id drained_run))))
    \<or> (\<exists>i c. Acknowledged i (de_id hello_entry) c \<in> set (history (run_deliveries unary_id drained_run))))"
proof -
  have "Stored hello_entry \<in> set (history (run_deliveries unary_id drained_run))" by (simp add: drained_history)
  from stored_message_is_never_lost [OF inj_unary_id this] this show ?thesis by blast
qed

text \<open>Once a message is a dead letter it stays one, unchanged, and is never sent again.\<close>

theorem dead_letters_are_final:
  assumes "inj uuid" and "failed_entry OUTBOUND (table (run_deliveries uuid es)) k = Some e"
  shows "failed_entry OUTBOUND (table (run_deliveries uuid (es @ es'))) k = Some e
    \<and> (\<exists>new. history (run_deliveries uuid (es @ es')) = history (run_deliveries uuid es) @ new
         \<and> (\<forall>i e'. ReplayCalled i e' \<in> set new \<longrightarrow> de_id e' \<noteq> k))"
proof -
  note acts = run_acts [OF assms(1), of es es']
  have reach: "protocol_reach uuid (abstraction (interruptions es) (run_deliveries uuid es))"
    using run_follows [OF assms(1)] by blast
  show ?thesis
    using dead_actions [OF acts reach assms(1)] dead_silent_actions [OF acts reach assms(1)] assms(2) by simp
qed

theorem dead_letters_are_final_witness:
  "\<exists>e. failed_entry OUTBOUND (table (run_deliveries unary_id (drained_run @ [CoreAnswers 1 None 6 (CoreRejected ''chat not found'' False)]))) [] = Some e
    \<and> failed_entry OUTBOUND (table (run_deliveries unary_id ((drained_run @ [CoreAnswers 1 None 6 (CoreRejected ''chat not found'' False)]) @ [Crash]))) [] = Some e"
proof -
  have "\<not> Option.is_none (failed_entry OUTBOUND (table (run_deliveries unary_id (drained_run @ [CoreAnswers 1 None 6 (CoreRejected ''chat not found'' False)]))) [])"
    by code_simp
  then have "\<exists>e. failed_entry OUTBOUND (table (run_deliveries unary_id (drained_run @ [CoreAnswers 1 None 6 (CoreRejected ''chat not found'' False)]))) [] = Some e"
    by (simp add: Option.is_none_def)
  then show ?thesis using dead_letters_are_final [OF inj_unary_id, of "drained_run @ [CoreAnswers 1 None 6 (CoreRejected ''chat not found'' False)]"]
    by blast
qed

section \<open>No blind replay\<close>

text \<open>C5. Once the platform send of a message was marked as started, a worker sends the message again only right after
  the adapter of its channel reported that it was not sent.\<close>

theorem started_send_is_not_replayed_blindly:
  assumes "inj uuid" and "history (run_deliveries uuid es) = xs @ ReplayCalled i e # ys"
    and "StartMarked j (de_id e) \<in> set xs"
  shows "\<exists>zs. xs = zs @ [NotSentReported i (de_id e)]"
  using run_invariants(4) [OF assms(1), of es] assms(2,3) unfolding replays_checked_def replay_is_checked_def by blast

text \<open>A live send marks its start, the process crashes, and a drain asks the adapter before it sends again.\<close>

definition restarted_run :: "nat delivery_event list" where
  "restarted_run = [Send None 1 BestEffort hello_payload, Continue 0 None 2, PlatformSendStart 0 None 3, Crash,
     Reconnect None 4 ''k'' take_all, Continue 1 None 5, Continue 1 None 6, Continue 1 None 7, AdapterAnswers 1 None 8 WasNotSent]"

theorem started_send_is_not_replayed_blindly_witness:
  "\<exists>xs i e ys j. history (run_deliveries unary_id restarted_run) = xs @ ReplayCalled i e # ys \<and> StartMarked j (de_id e) \<in> set xs
     \<and> (\<exists>zs. xs = zs @ [NotSentReported i (de_id e)])"
proof -
  let ?h = "history (run_deliveries unary_id restarted_run)"
  have "map (is_replay_of []) ?h = [False, False, False, False, False, True]"
    and "map (\<lambda>x. case x of StartMarked j k \<Rightarrow> k = [] | _ \<Rightarrow> False) ?h = [False, False, True, False, False, False]"
    by code_simp+
  then obtain x0 x1 x2 x3 x4 x5 where h: "?h = [x0, x1, x2, x3, x4, x5]" "is_replay_of [] x5"
    "case x2 of StartMarked j k \<Rightarrow> k = [] | _ \<Rightarrow> False" by (auto simp: map_eq_Cons_conv)
  from h(2) obtain i e where e: "x5 = ReplayCalled i e" "de_id e = []"
    by (auto simp: is_replay_of_def split: delivery_output.splits)
  from h(3) obtain j where j: "x2 = StartMarked j []" by (auto split: delivery_output.splits)
  have "?h = [x0, x1, x2, x3, x4] @ ReplayCalled i e # []" "StartMarked j (de_id e) \<in> set [x0, x1, x2, x3, x4]"
    using h(1) e j by simp_all
  with started_send_is_not_replayed_blindly [OF inj_unary_id this] show ?thesis by blast
qed

section \<open>One owner\<close>

text \<open>C12. Exactly the entries in progress are held by a worker, and no entry is held by two.\<close>

theorem entry_has_one_owner:
  assumes "inj uuid"
  shows "distinct (entriesInProgress (run_deliveries uuid es))
    \<and> set (entriesInProgress (run_deliveries uuid es))
        = {k. \<exists>i w. js_get (workers (run_deliveries uuid es)) i = Some w \<and> claim_of (wk_at w) = Some k}
    \<and> \<not> (\<exists>i j w w' k. i \<noteq> j \<and> js_get (workers (run_deliveries uuid es)) i = Some w \<and> claim_of (wk_at w) = Some k
         \<and> js_get (workers (run_deliveries uuid es)) j = Some w' \<and> claim_of (wk_at w') = Some k)"
proof -
  let ?s = "run_deliveries uuid es"
  have holds: "holds (abstraction n ?s) i = Some k \<longleftrightarrow> (\<exists>w. js_get (workers ?s) i = Some w \<and> claim_of (wk_at w) = Some k)" for n i k
    by (cases "js_get (workers ?s) i") (simp_all add: abstraction_at)
  show ?thesis
    using run_invariants(5) [OF assms, of es] run_invariants(1) [OF assms, of es]
    unfolding claims_ok_def owned_def holds by blast
qed

theorem entry_has_one_owner_witness:
  "inj unary_id \<and> distinct (entriesInProgress (run_deliveries unary_id claimed_run))
   \<and> set (entriesInProgress (run_deliveries unary_id claimed_run))
        = {k. \<exists>i w. js_get (workers (run_deliveries unary_id claimed_run)) i = Some w \<and> claim_of (wk_at w) = Some k}"
  using entry_has_one_owner [OF inj_unary_id, of claimed_run] inj_unary_id by blast

section \<open>The retry budget\<close>

text \<open>The entry whose send this answer of the core reports as failed: a live send that threw without being aborted or lost
  payloads, or a replay that threw an error that is not permanent.\<close>

fun failed_send :: "'p job \<Rightarrow> 'p point \<Rightarrow> core_answer \<Rightarrow> string option" where
  "failed_send (LiveSend policy) (LiveSending k started pf) CoreReturned = (if pf then Some k else None)"
| "failed_send (LiveSend policy) (LiveSending k started pf) (CoreRejected msg aborted) = (if aborted then None else Some k)"
| "failed_send j (Replaying e pf es) (CoreRejected msg aborted) = (if isPermanentDeliveryError msg then None else Some (de_id e))"
| "failed_send j p a = None"

lemma fail_succeeds:
  assumes "pending_entry OUTBOUND t k \<noteq> None"
  obtains t' where "failDelivery None now k m t = Inr t'"
  using assms fail_error [of None now k m t] by (cases "failDelivery None now k m t") auto

lemma failed_send_is_recorded:
  assumes "js_get (workers s) j = Some w" and "failed_send (wk_job w) (wk_at w) a = Some l" and "pending_entry OUTBOUND (table s) l \<noteq> None"
  shows "\<exists>m. history (core_answers j None now a s) = history s @ [AttemptRecorded j l m]"
proof (cases "wk_at w")
  case (LiveSending k b pf)
  then obtain policy where w: "wk_job w = LiveSend policy" and k: "k = l"
    using assms(2) by (cases "wk_job w"; cases a) (auto split: if_splits)
  show ?thesis
  proof (cases a)
    case CoreReturned
    obtain t' where "failDelivery None now k ''partial delivery failure (bestEffort)'' (table s) = Inr t'"
      using fail_succeeds assms(3) k by metis
    then show ?thesis using assms(1,2) LiveSending w k CoreReturned
      by (auto simp: core_answers_def live_answer_def split: if_splits)
  next
    case (CoreRejected msg ab)
    obtain t' where "failDelivery None now k msg (table s) = Inr t'" using fail_succeeds assms(3) k by metis
    then show ?thesis using assms(1,2) LiveSending w k CoreRejected
      by (auto simp: core_answers_def live_answer_def split: if_splits)
  qed
next
  case (Replaying e pf es)
  then obtain msg ab where a: "a = CoreRejected msg ab" "\<not> isPermanentDeliveryError msg" "l = de_id e"
    using assms(2) by (cases "wk_job w"; cases a) (auto split: if_splits)
  obtain t' where "failDelivery None now (de_id e) msg (table s) = Inr t'" using fail_succeeds assms(3) a(3) by metis
  then show ?thesis using assms(1) Replaying a
    by (cases "wk_job w") (simp_all add: core_answers_def replay_answer_def record_failure_def Let_def)
qed (use assms(2) in \<open>cases "wk_job w"; cases a; simp\<close>)+

definition refused_send :: "nat delivery_event" where
  "refused_send = CoreAnswers 1 None 6 (CoreRejected ''timeout'' False)"

lemma refused_worker:
  "\<exists>w. js_get (workers (run_deliveries unary_id drained_run)) 1 = Some w \<and> failed_send (wk_job w) (wk_at w) (CoreRejected ''timeout'' False) = Some []"
proof -
  have p: "\<not> isPermanentDeliveryError ''timeout''" by code_simp
  have "de_id hello_entry = []" by (simp add: hello_entry_def outbound_entry_def)
  with p show ?thesis by (auto simp: small_run_defs)
qed

text \<open>C13. An entry is only replayed while fewer than the maximal number of attempts are recorded for it, and its counter is
  the number of the attempts that are recorded, when it is replayed as well as while it is stored.  A send that fails, live or
  replayed, is recorded and counted when the database works and the error is not permanent.  So a message is sent again at
  most five times, not counting sends whose failure a crash or a failing database kept from being recorded.\<close>

theorem retries_are_bounded:
  assumes "inj uuid"
  shows "(history (run_deliveries uuid es) = xs @ ReplayCalled i e # ys \<longrightarrow>
           retryCount e = int (attempts_of (de_id e) xs) \<and> retryCount e < MAX_RETRIES)
    \<and> (pending_entry OUTBOUND (table (run_deliveries uuid es)) k = Some e' \<or> failed_entry OUTBOUND (table (run_deliveries uuid es)) k = Some e'
         \<longrightarrow> retryCount e' = int (attempts_of k (history (run_deliveries uuid es))))
    \<and> (js_get (workers (run_deliveries uuid es)) j = Some w \<and> failed_send (wk_job w) (wk_at w) a = Some l
         \<and> pending_entry OUTBOUND (table (run_deliveries uuid es)) l \<noteq> None \<longrightarrow>
         (\<exists>m. history (run_deliveries uuid (es @ [CoreAnswers j None now a]))
            = history (run_deliveries uuid es) @ [AttemptRecorded j l m]))
    \<and> replays_of k (history (run_deliveries uuid es)) \<le> nat MAX_RETRIES + interruptions es"
proof -
  let ?s = "run_deliveries uuid es" and ?a = "abstraction (interruptions es) (run_deliveries uuid es)"
  have "replays_of k (told ?a) \<le> lost ?a + spent k ?a"
    using run_invariants(3) [OF assms, of es] by (simp add: in_budget_def)
  then have "replays_of k (history ?s) \<le> nat MAX_RETRIES + interruptions es" using spent_le [of k ?a] by (simp add: MAX_RETRIES_def)
  moreover have "history ?s = xs @ ReplayCalled i e # ys \<longrightarrow> retryCount e = int (attempts_of (de_id e) xs) \<and> retryCount e < MAX_RETRIES"
    using run_invariants(7) [OF assms, of es] unfolding replays_counted_def replay_is_counted_def by blast
  moreover have "pending_entry OUTBOUND (table ?s) k = Some e' \<or> failed_entry OUTBOUND (table ?s) k = Some e'
      \<longrightarrow> retryCount e' = int (attempts_of k (history ?s))"
    using run_invariants(6) [OF assms, of es] by (simp add: attempts_counted_def)
  moreover have "js_get (workers ?s) j = Some w \<and> failed_send (wk_job w) (wk_at w) a = Some l \<and> pending_entry OUTBOUND (table ?s) l \<noteq> None
      \<longrightarrow> (\<exists>m. history (run_deliveries uuid (es @ [CoreAnswers j None now a])) = history ?s @ [AttemptRecorded j l m])"
    using failed_send_is_recorded [of ?s j w a l now] by (simp add: run_append)
  ultimately show ?thesis by blast
qed

theorem retries_are_bounded_witness:
  "inj unary_id \<and> retryCount hello_entry = int (attempts_of (de_id hello_entry) [Stored hello_entry])
   \<and> retryCount hello_entry < MAX_RETRIES
   \<and> (\<exists>m. history (run_deliveries unary_id (drained_run @ [refused_send]))
        = history (run_deliveries unary_id drained_run) @ [AttemptRecorded 1 [] m])
   \<and> replays_of [] (history (run_deliveries unary_id drained_run)) \<le> nat MAX_RETRIES + interruptions drained_run"
proof -
  obtain w where w: "js_get (workers (run_deliveries unary_id drained_run)) 1 = Some w"
    "failed_send (wk_job w) (wk_at w) (CoreRejected ''timeout'' False) = Some []"
    using refused_worker by blast
  have h: "history (run_deliveries unary_id drained_run) = [Stored hello_entry] @ ReplayCalled 1 hello_entry # []"
    by (simp add: drained_history)
  note bounded = retries_are_bounded [OF inj_unary_id, of drained_run "[Stored hello_entry]" 1 hello_entry "[]" "[]" hello_entry 1 w
      "CoreRejected ''timeout'' False" "[]" 6]
  show ?thesis
    using bounded h w drained_pending inj_unary_id unfolding refused_send_def by simp
qed

section \<open>Why an entry leaves the retry set\<close>

fun worker_of :: "'p delivery_event \<Rightarrow> nat option" where
  "worker_of (Continue i io now) = Some i"
| "worker_of (PlatformSendStart i io now) = Some i"
| "worker_of (PayloadError i) = Some i"
| "worker_of (CoreAnswers i io now a) = Some i"
| "worker_of (AdapterAnswers i io now r) = Some i"
| "worker_of _ = None"

text \<open>The events that acknowledge an entry, with the point at which they find the worker: the message was sent, the send
  was aborted by its caller, or the adapter found that it had been sent.\<close>

inductive acknowledges :: "'p delivery_event \<Rightarrow> 'p point \<Rightarrow> string \<Rightarrow> bool" where
  live_sent: "acknowledges (CoreAnswers i io now CoreReturned) (LiveSending k False False) k"
| live_aborted: "acknowledges (CoreAnswers i io now (CoreRejected msg True)) (LiveSending k started pf) k"
| live_confirmed: "acknowledges (Continue i io now) (LiveOutcomeMarked k) k"
| replay_sent: "acknowledges (CoreAnswers i io now CoreReturned) (Replaying e pf es) (de_id e)"
| found_sent: "acknowledges (AdapterAnswers i io now WasSent) (Reconciling e es) (de_id e)"

text \<open>The events that give an entry up: no retries left, a permanent error, or no way to tell whether it was sent.\<close>

inductive gives_up :: "'p delivery_event \<Rightarrow> 'p point \<Rightarrow> 'p delivery_entry \<Rightarrow> bool" where
  exhausted: "MAX_RETRIES \<le> retryCount e \<Longrightarrow> gives_up (Continue i io now) (Reread k (Some e) es) e"
| refused: "isPermanentDeliveryError msg \<Longrightarrow> gives_up (CoreAnswers i io now (CoreRejected msg aborted)) (Replaying e pf es) e"
| unacknowledged: "isPermanentDeliveryError msg \<Longrightarrow> gives_up (Continue i io now) (ReplayFailed e msg es) e"
| unresolved: "gives_up (AdapterAnswers i io now (Unresolved err False)) (Reconciling e es) e"
| unreconciled: "gives_up (AdapterAnswers i io now NoReconciliation) (Reconciling e es) e"

lemma fail_keeps: "failDelivery io now k' m t = Inr t' \<Longrightarrow> pending_entry OUTBOUND t k \<noteq> None \<Longrightarrow> pending_entry OUTBOUND t' k \<noteq> None"
  using outbound.retry_pending [of io now k' m t t'] by fastforce

lemma update_keeps_entry:
  "updateDeliveryQueueEntry io now OUTBOUND k' f t = Inr t' \<Longrightarrow> (\<And>e. de_id (f e) = de_id e)
   \<Longrightarrow> pending_entry OUTBOUND t k \<noteq> None \<Longrightarrow> pending_entry OUTBOUND t' k \<noteq> None"
  using update_maps(1) [of io now OUTBOUND k' f t t'] by fastforce

lemma ack_takes:
  "ackDelivery io k' t = Inr t' \<Longrightarrow> pending_entry OUTBOUND t k \<noteq> None \<Longrightarrow> pending_entry OUTBOUND t' k = None \<Longrightarrow> k = k'"
  using outbound.ack_pending [of io k' t t'] by (auto split: if_splits)

lemma move_takes:
  "moveToFailed io now k' t = Inr t' \<Longrightarrow> pending_entry OUTBOUND t k = Some e \<Longrightarrow> pending_entry OUTBOUND t' k = None
   \<Longrightarrow> k = k' \<and> failed_entry OUTBOUND t' k = Some e"
  using outbound.bury_entry [of io now k' t t'] by (auto split: if_splits)

definition lost_pending :: "string \<Rightarrow> 'p delivery_entry \<Rightarrow> 'p delivery_state \<Rightarrow> 'p delivery_state \<Rightarrow> bool" where
  "lost_pending k e s s' \<longleftrightarrow> pending_entry OUTBOUND (table s) k = Some e \<and> pending_entry OUTBOUND (table s') k = None"

lemma not_lost_by_failure [simp]: "\<not> lost_pending k e s (record_failure i w e' m es io now s)"
  using fail_keeps [of io now "de_id e'" m "table s" _ k] by (auto simp: record_failure_def lost_pending_def split: sum.split)

lemma not_lost [simp]: "\<not> lost_pending k e s s" "table s' = table s \<Longrightarrow> \<not> lost_pending k e s s'"
  by (simp_all add: lost_pending_def)

lemma table_bury:
  assumes "lost_pending k e s (bury_entry i w e' es io now s)"
  shows "k = de_id e' \<and> failed_entry OUTBOUND (table (bury_entry i w e' es io now s)) k = Some e"
  using assms move_takes [of io now "de_id e'" "table s"] by (auto simp: bury_entry_def lost_pending_def split: sum.splits)

lemma table_give_up:
  assumes "lost_pending k e s (give_up_entry i w e' es io now s)"
  shows "k = de_id e' \<and> failed_entry OUTBOUND (table (give_up_entry i w e' es io now s)) k = Some e"
  using assms move_takes [of io now "de_id e'" "table s"]
  by (auto simp: give_up_entry_def lost_pending_def split: sum.splits job.splits store_error.splits)

lemma table_unchanged [simp]:
  "table (call_replay i w e es s) = table s" "table (begin_entry i w e es s) = table s"
  "table (work_list i w es now s) = table s" "table (claim_next i w es io now s) = table s"
  "table (begin_recovery io mx s) = table s" "table (begin_drain io now key sel s) = table s"
  "table (payload_error i s) = table s" "table (crash s) = table s"
  by (auto simp: call_replay_def begin_entry_def work_list_def claim_next_def begin_recovery_def begin_drain_def payload_error_def
      crash_def claimRecoveryEntry_def split: job.split list.split prod.split bool.split sum.split option.split point.split)

lemma lost_by_examine:
  assumes "lost_pending k e s (examine_entry i w k' cur es io now s)"
  shows "\<exists>e'. cur = Some e' \<and> k = de_id e' \<and> MAX_RETRIES \<le> retryCount e'
    \<and> failed_entry OUTBOUND (table (examine_entry i w k' cur es io now s)) k = Some e"
proof (cases "\<exists>e'. cur = Some e' \<and> still_selected w e' now \<and> MAX_RETRIES \<le> retryCount e'")
  case True
  then obtain e' where c: "cur = Some e'" "still_selected w e' now" "MAX_RETRIES \<le> retryCount e'" by blast
  then have eq: "examine_entry i w k' cur es io now s = give_up_entry i w e' es io now s" by (simp add: examine_entry_def)
  show ?thesis using table_give_up [of k e s i w e' es io now] assms c unfolding eq by blast
next
  case False
  then have "table (examine_entry i w k' cur es io now s) = table s"
    by (auto simp: examine_entry_def split: option.split)
  then show ?thesis using assms not_lost(2) by blast
qed

lemma lost_by_live_answer:
  assumes "lost_pending k e s (live_answer i w policy k' started pf io now a s)"
  shows "k = k' \<and> (a = CoreReturned \<and> \<not> started \<and> \<not> pf \<or> (\<exists>msg. a = CoreRejected msg True))"
proof -
  have marks: "markQueuedPlatformOutcomeUnknown io now k' policy t = Inr t' \<Longrightarrow> pending_entry OUTBOUND t k \<noteq> None
      \<Longrightarrow> pending_entry OUTBOUND t' k \<noteq> None" for t t' :: "'a delivery_table"
    using update_keeps_entry [of io now k' "send_mark now ''unknown_after_send''" t t' k]
    by (auto simp: markQueuedPlatformOutcomeUnknown_def markDeliveryPlatformOutcomeUnknown_def split: sum.splits if_splits)
  show ?thesis
    using assms ack_takes [of io k' "table s" _ k] fail_keeps [of io now k' _ "table s" _ k] marks [of "table s"]
    by (fastforce simp: live_answer_def lost_pending_def split: core_answer.splits sum.splits if_splits)
qed

lemma lost_by_reconciled:
  assumes "lost_pending k e s (reconciled i w e' es io now r s)"
  shows "k = de_id e' \<and> (r = WasSent \<or> (r = NoReconciliation \<or> (\<exists>err. r = Unresolved err False))
    \<and> failed_entry OUTBOUND (table (reconciled i w e' es io now r s)) k = Some e)"
proof (cases r)
  case WasSent
  then show ?thesis using assms ack_takes [of io "de_id e'" "table s" _ k]
    by (auto simp: reconciled_def lost_pending_def split: sum.splits)
next
  case WasNotSent
  then show ?thesis using assms by (auto simp: reconciled_def lost_pending_def)
next
  case (Unresolved err retryable)
  then obtain w1 msg where "reconciled i w e' es io now r s
      = (if retryable then record_failure i w1 e' msg es io now s else bury_entry i w1 e' es io now s)"
    by (simp add: reconciled_def Let_def)
  then show ?thesis using assms table_bury [of k e s i w1 e' es io now] Unresolved by (cases retryable) auto
next
  case NoReconciliation
  then show ?thesis using assms table_bury [of k e s _ _ e' es io now] by (simp add: reconciled_def Let_def)
qed

lemma lost_by_replay_answer:
  assumes "lost_pending k e s (replay_answer i w e' pf es io now a s)"
  shows "k = de_id e' \<and> (a = CoreReturned \<or> (\<exists>msg aborted. a = CoreRejected msg aborted \<and> isPermanentDeliveryError msg)
    \<and> failed_entry OUTBOUND (table (replay_answer i w e' pf es io now a s)) k = Some e)"
proof (cases a)
  case CoreReturned
  then show ?thesis using assms ack_takes [of io "de_id e'" "table s" _ k]
    by (auto simp: replay_answer_def lost_pending_def split: sum.splits)
next
  case (CoreRejected msg aborted)
  then show ?thesis using assms table_bury [of k e s _ _ e' es io now]
    by (cases "isPermanentDeliveryError msg") (simp_all add: replay_answer_def Let_def)
qed

definition settled_by :: "'p delivery_event \<Rightarrow> string \<Rightarrow> 'p delivery_entry \<Rightarrow> 'p delivery_state \<Rightarrow> 'p delivery_state \<Rightarrow> bool" where
  "settled_by ev k e s s' \<longleftrightarrow>
     (\<exists>i w. worker_of ev = Some i \<and> js_get (workers s) i = Some w
        \<and> (acknowledges ev (wk_at w) k \<or> gives_up ev (wk_at w) e \<and> failed_entry OUTBOUND (table s') k = Some e))"

lemma settled_continue:
  assumes "owned (abstraction n s)" and "lost_pending k e s (continue_worker i io now s)"
  shows "settled_by (Continue i io now) k e s (continue_worker i io now s)"
proof (cases "js_get (workers s) i")
  case None
  then show ?thesis using assms(2) by (simp add: continue_worker_def)
next
  case (Some w)
  let ?s = "continue_worker i io now s"
  note current = hand_is_current [OF assms(1) Some]
  have up: "settled_by (Continue i io now) k e s ?s"
    if "gives_up (Continue i io now) (wk_at w) e'" "entry_read (wk_at w) = Some e'" "k = de_id e'" "failed_entry OUTBOUND (table ?s) k = Some e" for e'
  proof -
    have "e' = e" using current [OF that(2)] that(3) assms(2) by (simp add: lost_pending_def)
    then show ?thesis using that Some by (auto simp: settled_by_def)
  qed
  show ?thesis
  proof (cases "wk_at w")
    case (LiveStored k')
    then have "table ?s = table s" using Some by (auto simp: continue_worker_def claimRecoveryEntry_def)
    then show ?thesis using assms(2) not_lost(2) by blast
  next
    case (LiveOutcomeMarked k')
    then have "k = k'"
      using assms(2) Some ack_takes [of io k' "table s" _ k] by (auto simp: continue_worker_def lost_pending_def split: sum.splits)
    then show ?thesis using Some LiveOutcomeMarked acknowledges.live_confirmed by (auto simp: settled_by_def)
  next
    case (Reread k' cur es)
    then have eq: "?s = examine_entry i w k' cur es io now s" using Some by (simp add: continue_worker_def)
    from lost_by_examine [of k e s i w k' cur es io now] assms(2) obtain e' where
      e': "cur = Some e'" "k = de_id e'" "MAX_RETRIES \<le> retryCount e'" "failed_entry OUTBOUND (table ?s) k = Some e"
      unfolding eq by blast
    show ?thesis by (rule up [of e']) (use e' Reread in \<open>auto intro: gives_up.exhausted\<close>)
  next
    case (AckFailed e' m es)
    then show ?thesis using assms(2) Some by (simp add: continue_worker_def)
  next
    case (ReplayFailed e' m es)
    show ?thesis
    proof (cases "isPermanentDeliveryError m")
      case True
      then have "k = de_id e' \<and> failed_entry OUTBOUND (table ?s) k = Some e"
        using assms(2) Some ReplayFailed table_bury [of k e s i _ e' es io now] by (simp add: continue_worker_def Let_def)
      then show ?thesis by (intro up [of e']) (use True ReplayFailed in \<open>auto intro: gives_up.unacknowledged\<close>)
    next
      case False
      then show ?thesis using assms(2) Some ReplayFailed by (simp add: continue_worker_def Let_def)
    qed
  qed (use assms(2) Some in \<open>simp_all add: continue_worker_def\<close>)
qed

lemma settled_core:
  assumes "owned (abstraction n s)" and "lost_pending k e s (core_answers i io now a s)"
  shows "settled_by (CoreAnswers i io now a) k e s (core_answers i io now a s)"
proof (cases "js_get (workers s) i")
  case None
  then show ?thesis using assms(2) by (simp add: core_answers_def)
next
  case (Some w)
  let ?s = "core_answers i io now a s"
  show ?thesis
  proof (cases "wk_at w")
    case (LiveSending k' started pf)
    show ?thesis
    proof (cases "wk_job w")
      case (LiveSend policy)
      then have "?s = live_answer i w policy k' started pf io now a s" using Some LiveSending by (simp add: core_answers_def)
      then have "k = k' \<and> (a = CoreReturned \<and> \<not> started \<and> \<not> pf \<or> (\<exists>msg. a = CoreRejected msg True))"
        using lost_by_live_answer [of k e s i w policy k' started pf io now a] assms(2) by simp
      then have "acknowledges (CoreAnswers i io now a) (wk_at w) k"
        using LiveSending by (auto intro: acknowledges.intros)
      then show ?thesis using Some by (auto simp: settled_by_def)
    qed (use assms(2) Some LiveSending in \<open>simp_all add: core_answers_def\<close>)
  next
    case LiveDirect
    then show ?thesis using assms(2) Some by (cases "wk_job w") (simp_all add: core_answers_def)
  next
    case (Replaying e' pf es)
    then have eq: "?s = replay_answer i w e' pf es io now a s" using Some by (cases "wk_job w") (simp_all add: core_answers_def)
    have "e' = e" if "k = de_id e'"
      using hand_is_current [OF assms(1) Some, of e'] that Replaying assms(2) by (simp add: lost_pending_def)
    moreover have "k = de_id e' \<and> (a = CoreReturned \<or> (\<exists>msg aborted. a = CoreRejected msg aborted \<and> isPermanentDeliveryError msg)
        \<and> failed_entry OUTBOUND (table ?s) k = Some e)"
      using lost_by_replay_answer [OF assms(2) [unfolded eq]] unfolding eq .
    ultimately have "acknowledges (CoreAnswers i io now a) (wk_at w) k
        \<or> gives_up (CoreAnswers i io now a) (wk_at w) e \<and> failed_entry OUTBOUND (table ?s) k = Some e"
      using Replaying by (auto intro: acknowledges.intros gives_up.intros)
    then show ?thesis using Some by (auto simp: settled_by_def)
  qed (use assms(2) Some in \<open>cases "wk_job w"; simp add: core_answers_def\<close>)+
qed

lemma settled_adapter:
  assumes "owned (abstraction n s)" and "lost_pending k e s (adapter_answers i io now r s)"
  shows "settled_by (AdapterAnswers i io now r) k e s (adapter_answers i io now r s)"
proof (cases "\<exists>w e' es. js_get (workers s) i = Some w \<and> wk_at w = Reconciling e' es")
  case False
  then have "adapter_answers i io now r s = s"
    by (auto simp: adapter_answers_def split: option.split point.split)
  then show ?thesis using assms(2) by simp
next
  case True
  then obtain w e' es where w: "js_get (workers s) i = Some w" "wk_at w = Reconciling e' es" by blast
  let ?s = "adapter_answers i io now r s"
  have eq: "?s = reconciled i w e' es io now r s" using w by (simp add: adapter_answers_def)
  have "e' = e" if "k = de_id e'"
    using hand_is_current [OF assms(1) w(1), of e'] that w(2) assms(2) by (simp add: lost_pending_def)
  moreover have "k = de_id e' \<and> (r = WasSent \<or> (r = NoReconciliation \<or> (\<exists>err. r = Unresolved err False))
      \<and> failed_entry OUTBOUND (table ?s) k = Some e)"
    using lost_by_reconciled [OF assms(2) [unfolded eq]] unfolding eq .
  ultimately have "acknowledges (AdapterAnswers i io now r) (wk_at w) k
      \<or> gives_up (AdapterAnswers i io now r) (wk_at w) e \<and> failed_entry OUTBOUND (table ?s) k = Some e"
    using w(2) by (auto intro: acknowledges.intros gives_up.intros)
  then show ?thesis using w(1) by (auto simp: settled_by_def)
qed

lemma not_lost_by_send: "inj uuid \<Longrightarrow> \<not> lost_pending k e s (begin_send uuid io now policy p s)"
  using enqueue_maps(1) [of io now "uuid (next_uuid s)" p "table s"]
  by (auto simp: begin_send_def lost_pending_def Let_def split: sum.splits if_splits)

lemma not_lost_by_start: "\<not> lost_pending k e s (platform_send_start i io now s)"
  using update_keeps_entry [of io now _ "send_mark now ''send_attempt_started''" "table s" _ k]
  by (fastforce simp: platform_send_start_def lost_pending_def Let_def markQueuedPlatformSendAttemptStarted_def
      markDeliveryPlatformSendAttemptStarted_def split: option.splits job.splits point.splits sum.splits if_splits)

text \<open>C14. An entry leaves the retry set only because its worker was told that the message was sent or aborted, or because
  the worker gave it up for one of the named reasons, and then it is kept as a dead letter.\<close>

theorem entry_leaves_for_a_reason:
  assumes "inj uuid" and "pending_entry OUTBOUND (table (run_deliveries uuid es)) k = Some e"
    and "pending_entry OUTBOUND (table (run_deliveries uuid (es @ [ev]))) k = None"
  shows "\<exists>i w. worker_of ev = Some i \<and> js_get (workers (run_deliveries uuid es)) i = Some w
    \<and> (acknowledges ev (wk_at w) k
       \<or> gives_up ev (wk_at w) e \<and> failed_entry OUTBOUND (table (run_deliveries uuid (es @ [ev]))) k = Some e)"
proof -
  let ?s = "run_deliveries uuid es"
  have step: "run_deliveries uuid (es @ [ev]) = delivery_step uuid ev ?s" by (simp add: run_append)
  have own: "owned (abstraction (interruptions es) ?s)" by (rule run_invariants(1) [OF assms(1)])
  have lost: "lost_pending k e ?s (delivery_step uuid ev ?s)" using assms(2,3) by (simp add: lost_pending_def step)
  have "settled_by ev k e ?s (delivery_step uuid ev ?s)"
    using lost settled_continue [OF own] settled_core [OF own] settled_adapter [OF own]
    by (cases ev) (simp_all add: not_lost_by_send [OF assms(1)] not_lost_by_start)
  then show ?thesis unfolding settled_by_def step .
qed

theorem entry_leaves_for_a_reason_witness:
  "\<exists>i w. worker_of (CoreAnswers 1 None 6 CoreReturned :: nat delivery_event) = Some i
    \<and> js_get (workers (run_deliveries unary_id drained_run)) i = Some w
    \<and> (acknowledges (CoreAnswers 1 None 6 CoreReturned) (wk_at w) []
       \<or> gives_up (CoreAnswers 1 None 6 CoreReturned) (wk_at w) hello_entry
          \<and> failed_entry OUTBOUND (table (run_deliveries unary_id (drained_run @ [CoreAnswers 1 None 6 CoreReturned]))) [] = Some hello_entry)"
proof -
  have "Option.is_none (pending_entry OUTBOUND (table (run_deliveries unary_id (drained_run @ [CoreAnswers 1 None 6 CoreReturned]))) [])"
    by code_simp
  then have "pending_entry OUTBOUND (table (run_deliveries unary_id (drained_run @ [CoreAnswers 1 None 6 CoreReturned]))) [] = None"
    by (simp add: Option.is_none_def)
  from entry_leaves_for_a_reason [OF inj_unary_id drained_pending this] show ?thesis .
qed

section \<open>Backoff\<close>

text \<open>The outputs an event adds to the history, and those with which a worker turns to an entry.\<close>

definition news :: "'p delivery_state \<Rightarrow> 'p delivery_state \<Rightarrow> 'p delivery_output set" where
  "news s s' = set (drop (length (history s)) (history s'))"

definition turns_to :: "nat \<Rightarrow> 'p delivery_entry \<Rightarrow> 'p delivery_output \<Rightarrow> bool" where
  "turns_to i e x \<longleftrightarrow> x = ReplayCalled i e \<or> x = ReconcileCalled i e"

definition untouched_news :: "'p delivery_state \<Rightarrow> 'p delivery_state \<Rightarrow> bool" where
  "untouched_news s s' \<longleftrightarrow> (\<forall>i e x. x \<in> news s s' \<longrightarrow> \<not> turns_to i e x)"

lemma news_simps [simp]:
  "news s s = {}" "history s' = history s \<Longrightarrow> news s s' = {}" "history s' = history s \<Longrightarrow> news s (note_output x s') = {x}"
  by (simp_all add: news_def)

lemma history_simps [simp]:
  "history (s\<lparr>table := t\<rparr>) = history s" "history (s\<lparr>entriesInProgress := ks\<rparr>) = history s"
  "history (s\<lparr>next_uuid := n\<rparr>) = history s" "history (s\<lparr>drainInProgress := ks\<rparr>) = history s"
  by simp_all

lemma claim_history: "claimRecoveryEntry k s = (b, s1) \<Longrightarrow> history s1 = history s"
  by (auto simp: claimRecoveryEntry_def split: if_splits)

lemma untouched_simps [simp]:
  "untouched_news s s" "history s' = history s \<Longrightarrow> untouched_news s s'"
  "history s' = history s \<Longrightarrow> \<forall>i e. \<not> turns_to i e x \<Longrightarrow> untouched_news s (note_output x s')"
  by (simp_all add: untouched_news_def)

lemma no_turn [simp]:
  "\<not> turns_to i e (Stored e')" "\<not> turns_to i e (CoreCalled j k)" "\<not> turns_to i e (StartMarked j k)"
  "\<not> turns_to i e (NotSentReported j k)" "\<not> turns_to i e (Acknowledged j k c)" "\<not> turns_to i e (AttemptRecorded j k m)"
  "\<not> turns_to i e (GivenUp j k)" "\<not> turns_to i e (DirectSend j)"
  by (simp_all add: turns_to_def)

lemma untouched_settling [simp]:
  "untouched_news s (record_failure i w e m es io now s)" "untouched_news s (bury_entry i w e es io now s)"
  "untouched_news s (give_up_entry i w e es io now s)" "untouched_news s (live_answer i w policy k b pf io now a s)"
  "untouched_news s (replay_answer i w e pf es io now a s)"
  by (simp_all add: record_failure_def bury_entry_def give_up_entry_def live_answer_def replay_answer_def Let_def
      split: sum.split job.split store_error.split core_answer.split)

lemma untouched_others [simp]:
  "untouched_news s (begin_send uuid io now policy p s)" "untouched_news s (begin_recovery io mx s)"
  "untouched_news s (begin_drain io now key sel s)" "untouched_news s (platform_send_start i io now s)"
  "untouched_news s (payload_error i s)" "untouched_news s (crash s)" "untouched_news s (work_list i w es now s)"
  "untouched_news s (claim_next i w es io now s)" "untouched_news s (core_answers i io now a s)"
  by (auto simp: begin_send_def begin_recovery_def begin_drain_def platform_send_start_def payload_error_def crash_def
      work_list_def claim_next_def core_answers_def Let_def dest: claim_history
      split: sum.split option.split job.split point.split prod.split list.split bool.split)

definition last_tried :: "'p delivery_entry \<Rightarrow> int" where
  "last_tried e = (case lastAttemptAt e of Some attempted \<Rightarrow> if attempted > 0 then attempted else enqueuedAt e | None \<Rightarrow> enqueuedAt e)"

lemma eligible_waited:
  assumes "isEntryEligibleForRecoveryRetry e now = None" and "0 \<le> retryCount e"
  shows "retryCount e = 0 \<and> lastAttemptAt e = None \<or> last_tried e + BACKOFF_MS ! nat (min 3 (retryCount e)) \<le> now"
proof -
  have "computeBackoffMs (retryCount e + 1) = BACKOFF_MS ! nat (min 3 (retryCount e))"
    using assms(2) by (simp add: computeBackoffMs_def BACKOFF_MS_def min.commute)
  moreover have "0 < BACKOFF_MS ! nat (min 3 (retryCount e))"
  proof -
    have "nat (min 3 (retryCount e)) \<in> {0, 1, 2, 3}" by auto
    then show ?thesis by (auto simp: BACKOFF_MS_def)
  qed
  ultimately show ?thesis
    using assms(1) by (auto simp: isEntryEligibleForRecoveryRetry_def last_tried_def Let_def split: if_splits option.splits)
qed

lemma turn_of_examine:
  assumes "x \<in> news s (examine_entry i w k cur es io now s)" and "turns_to j e x"
  shows "j = i \<and> cur = Some e \<and> retryCount e < MAX_RETRIES
    \<and> (skips_backoff w e now \<or> isEntryEligibleForRecoveryRetry e now = None)"
proof (cases "\<exists>e'. cur = Some e' \<and> still_selected w e' now \<and> retryCount e' < MAX_RETRIES
    \<and> (skips_backoff w e' now \<or> isEntryEligibleForRecoveryRetry e' now = None)")
  case True
  then obtain e' where e': "cur = Some e'" "still_selected w e' now" "retryCount e' < MAX_RETRIES"
    "skips_backoff w e' now \<or> isEntryEligibleForRecoveryRetry e' now = None" by blast
  then have "examine_entry i w k cur es io now s = begin_entry i w e' es s" by (auto simp: examine_entry_def)
  then have "x = ReplayCalled i e' \<or> x = ReconcileCalled i e'"
    using assms(1) by (auto simp: begin_entry_def call_replay_def split: if_splits)
  then show ?thesis using assms(2) e' by (auto simp: turns_to_def)
next
  case False
  then have "untouched_news s (examine_entry i w k cur es io now s)"
    by (auto simp: examine_entry_def split: option.split)
  then show ?thesis using assms by (auto simp: untouched_news_def)
qed

lemma turn_of_continue:
  assumes "x \<in> news s (continue_worker i io now s)" and "turns_to j e x"
  shows "\<exists>w k es. js_get (workers s) i = Some w \<and> wk_at w = Reread k (Some e) es
    \<and> j = i \<and> retryCount e < MAX_RETRIES \<and> (skips_backoff w e now \<or> isEntryEligibleForRecoveryRetry e now = None)"
proof (cases "\<exists>w k cur es. js_get (workers s) i = Some w \<and> wk_at w = Reread k cur es")
  case True
  then obtain w k cur es where w: "js_get (workers s) i = Some w" "wk_at w = Reread k cur es" by blast
  then have "continue_worker i io now s = examine_entry i w k cur es io now s" by (simp add: continue_worker_def)
  then show ?thesis using turn_of_examine [of x s i w k cur es io now j e] assms w by auto
next
  case False
  then have "untouched_news s (continue_worker i io now s)"
    by (auto simp: continue_worker_def Let_def dest: claim_history split: option.split point.split sum.split prod.split bool.split)
  then show ?thesis using assms by (auto simp: untouched_news_def)
qed

lemma turn_of_adapter:
  assumes "x \<in> news s (adapter_answers i io now r s)" and "turns_to j e x"
  shows "\<exists>w es. js_get (workers s) i = Some w \<and> wk_at w = Reconciling e es \<and> j = i \<and> r = WasNotSent"
proof (cases "\<exists>w e' es. js_get (workers s) i = Some w \<and> wk_at w = Reconciling e' es")
  case True
  then obtain w e' es where w: "js_get (workers s) i = Some w" "wk_at w = Reconciling e' es" by blast
  then have eq: "adapter_answers i io now r s = reconciled i w e' es io now r s" by (simp add: adapter_answers_def)
  have "untouched_news s (reconciled i w e' es io now r s)" if "r \<noteq> WasNotSent"
    using that by (cases r) (simp_all add: reconciled_def Let_def split: sum.split)
  then have r: "r = WasNotSent" using assms unfolding eq untouched_news_def by blast
  then have "x = NotSentReported i (de_id e') \<or> x = ReplayCalled i e'"
    using assms(1) unfolding eq by (auto simp: reconciled_def call_replay_def news_def)
  then show ?thesis using assms(2) w r by (auto simp: turns_to_def)
next
  case False
  then have "adapter_answers i io now r s = s" by (auto simp: adapter_answers_def split: option.split point.split)
  then show ?thesis using assms by simp
qed

text \<open>C24. A worker turns to an entry, to send it again or to ask the adapter about it, only with retries left, and after
  the backoff since the last recorded attempt unless the entry was never tried or the client of a drain waives the
  backoff; and it sends an entry it asked about only when the adapter answers that it was not sent.\<close>

theorem backoff_is_kept:
  assumes "inj uuid" and "x \<in> news (run_deliveries uuid es) (run_deliveries uuid (es @ [ev]))" and "turns_to i e x"
  shows "\<exists>w. js_get (workers (run_deliveries uuid es)) i = Some w
    \<and> pending_entry OUTBOUND (table (run_deliveries uuid es)) (de_id e) = Some e
    \<and> ((\<exists>io now. ev = Continue i io now \<and> retryCount e < MAX_RETRIES
          \<and> (skips_backoff w e now \<or> retryCount e = 0 \<and> lastAttemptAt e = None
             \<or> last_tried e + BACKOFF_MS ! nat (min 3 (retryCount e)) \<le> now))
       \<or> (\<exists>io now es'. ev = AdapterAnswers i io now WasNotSent \<and> wk_at w = Reconciling e es'))"
proof -
  let ?s = "run_deliveries uuid es"
  have step: "run_deliveries uuid (es @ [ev]) = delivery_step uuid ev ?s" by (simp add: run_append)
  note own = run_invariants(1) [OF assms(1), of es]
  have nonneg: "0 \<le> retryCount e" if "pending_entry OUTBOUND (table ?s) (de_id e) = Some e"
    using run_invariants(3) [OF assms(1), of es] that by (simp add: in_budget_def)
  have new: "x \<in> news ?s (delivery_step uuid ev ?s)" using assms(2) by (simp add: step)
  consider (cont) j io now where "ev = Continue j io now" | (adapter) j io now r where "ev = AdapterAnswers j io now r"
    | (other) "untouched_news ?s (delivery_step uuid ev ?s)"
    by (cases ev) simp_all
  then show ?thesis
  proof cases
    case cont
    then have "x \<in> news ?s (continue_worker j io now ?s)" using new by simp
    from turn_of_continue [OF this assms(3)] obtain w k es' where w: "js_get (workers ?s) j = Some w" "wk_at w = Reread k (Some e) es'"
      "i = j" "retryCount e < MAX_RETRIES" "skips_backoff w e now \<or> isEntryEligibleForRecoveryRetry e now = None" by blast
    have p: "pending_entry OUTBOUND (table ?s) (de_id e) = Some e" using hand_is_current [OF own w(1)] w(2) by simp
    have "skips_backoff w e now \<or> retryCount e = 0 \<and> lastAttemptAt e = None
        \<or> last_tried e + BACKOFF_MS ! nat (min 3 (retryCount e)) \<le> now"
      using w(5) eligible_waited [OF _ nonneg [OF p]] by blast
    then show ?thesis using w p cont by blast
  next
    case adapter
    then have "x \<in> news ?s (adapter_answers j io now r ?s)" using new by simp
    from turn_of_adapter [OF this assms(3)] obtain w es' where w: "js_get (workers ?s) j = Some w" "wk_at w = Reconciling e es'"
      "i = j" "r = WasNotSent" by blast
    have p: "pending_entry OUTBOUND (table ?s) (de_id e) = Some e" using hand_is_current [OF own w(1)] w(2) by simp
    then show ?thesis using w adapter by blast
  next
    case other
    then show ?thesis using new assms(3) by (simp add: untouched_news_def)
  qed
qed

theorem backoff_is_kept_witness:
  "\<exists>w. js_get (workers (run_deliveries unary_id claimed_run)) 1 = Some w
    \<and> pending_entry OUTBOUND (table (run_deliveries unary_id claimed_run)) (de_id hello_entry) = Some hello_entry"
proof -
  have "ReplayCalled 1 hello_entry \<in> news (run_deliveries unary_id claimed_run) (run_deliveries unary_id (claimed_run @ [Continue 1 None 5]))"
    using drained_history by (simp add: news_def claimed_history drained_run_def)
  moreover have "turns_to 1 hello_entry (ReplayCalled 1 hello_entry)" by (simp add: turns_to_def)
  ultimately show ?thesis using backoff_is_kept [OF inj_unary_id] by blast
qed

end
