(* ===== verification/DeliveryProgress.thy ===== *)
theory DeliveryProgress
  imports DeliveryProps
begin

text \<open>
  Every worker of the outbound queue comes to its end: a live send after at most six of its steps, a recovery or a drain
  after at most six for each entry it has left.  A step of a worker is an event the worker is waiting for; nothing the
  other workers do adds to what it has left.  When a worker is gone, the entry it claimed and the key it drained are free.
\<close>

fun live_point :: "'p point \<Rightarrow> bool" where
  "live_point (LiveStored k) = True"
| "live_point (LiveSending k b c) = True"
| "live_point (LiveOutcomeMarked k) = True"
| "live_point (LiveHooks k) = True"
| "live_point (LiveLeaving k) = True"
| "live_point LiveDirect = True"
| "live_point _ = False"

fun live_job :: "'p job \<Rightarrow> bool" where
  "live_job (LiveSend policy) = True"
| "live_job _ = False"

fun steps_left :: "'p point \<Rightarrow> nat" where
  "steps_left (LiveStored k) = 5"
| "steps_left (LiveSending k b c) = 4"
| "steps_left (LiveOutcomeMarked k) = 3"
| "steps_left (LiveHooks k) = 2"
| "steps_left (LiveLeaving k) = 1"
| "steps_left LiveDirect = 1"
| "steps_left (Listed es) = 2 + 6 * length es"
| "steps_left (NextEntry es) = 1 + 6 * length es"
| "steps_left (Reread k e es) = 6 + 6 * length es"
| "steps_left (Reconciling e es) = 5 + 6 * length es"
| "steps_left (Replaying e b es) = 4 + 6 * length es"
| "steps_left (AckFailed e m es) = 3 + 6 * length es"
| "steps_left (ReplayFailed e m es) = 3 + 6 * length es"
| "steps_left (CommitHooks e es) = 3 + 6 * length es"
| "steps_left (Releasing k es) = 2 + 6 * length es"
| "steps_left (Aborting k) = 1"

text \<open>The event the worker waits for: an answer of the core, an answer of the adapter, or its own continuation.\<close>

fun awaits :: "'p point \<Rightarrow> nat \<Rightarrow> 'p delivery_event \<Rightarrow> bool" where
  "awaits (LiveSending k b c) i ev = (\<exists>io now a. ev = CoreAnswers i io now a)"
| "awaits LiveDirect i ev = (\<exists>io now a. ev = CoreAnswers i io now a)"
| "awaits (Replaying e b es) i ev = (\<exists>io now a. ev = CoreAnswers i io now a)"
| "awaits (Reconciling e es) i ev = (\<exists>io now r. ev = AdapterAnswers i io now r)"
| "awaits p i ev = (\<exists>io now. ev = Continue i io now)"

definition moved :: "nat \<Rightarrow> 'p worker \<Rightarrow> nat \<Rightarrow> 'p delivery_state \<Rightarrow> 'p delivery_state \<Rightarrow> bool" where
  "moved i w n s s' \<longleftrightarrow>
     (\<forall>j. j \<noteq> i \<longrightarrow> js_get (workers s') j = js_get (workers s) j)
     \<and> (\<forall>w'. js_get (workers s') i = Some w' \<longrightarrow> steps_left (wk_at w') + n \<le> steps_left (wk_at w)
          \<and> live_job (wk_job w') = live_job (wk_job w) \<and> live_point (wk_at w') = live_point (wk_at w))"

lemma moved_waits [simp]:
  "(\<And>j. j \<noteq> i \<Longrightarrow> js_get (workers s') j = js_get (workers s) j) \<Longrightarrow>
   moved i w n s (worker_waits i w' p s') \<longleftrightarrow> steps_left p + n \<le> steps_left (wk_at w)
     \<and> live_job (wk_job w') = live_job (wk_job w) \<and> live_point p = live_point (wk_at w)"
  by (auto simp: moved_def)

lemma moved_note [simp]: "moved i w n s (note_output x s') = moved i w n s s'"
  by (simp add: moved_def)

lemma moved_end [simp]:
  "(\<And>j. j \<noteq> i \<Longrightarrow> js_get (workers s') j = js_get (workers s) j) \<Longrightarrow> moved i w n s (end_worker i w' s')"
  by (simp add: moved_def)

lemma moved_same [simp]: "js_get (workers s) i = Some w \<Longrightarrow> moved i w 0 s s"
  by (simp add: moved_def)

lemma count_in_job [simp]: "wk_job (count_in f w) = wk_job w" "wk_at (count_in f w) = wk_at w"
  by (simp_all add: count_in_def)

lemma claim_workers: "claimRecoveryEntry k s = (b, s1) \<Longrightarrow> workers s1 = workers s"
  by (auto simp: claimRecoveryEntry_def split: if_splits)

lemma moved_settling:
  assumes "\<not> live_point (wk_at w)" and "steps_left (Releasing (de_id e) es) + n \<le> steps_left (wk_at w)" and "live_job (wk_job w') = live_job (wk_job w)"
  shows "moved i w n s (record_failure i w' e m es io now s)" "moved i w n s (bury_entry i w' e es io now s)"
    "moved i w n s (give_up_entry i w' e es io now s)"
  using assms by (auto simp: record_failure_def bury_entry_def give_up_entry_def split: sum.split job.split store_error.split)

lemma moved_examine:
  assumes "wk_at w = Reread k cur es"
  shows "moved i w 1 s (examine_entry i w k cur es io now s)"
  using assms moved_settling(3) [of w _ es 1 w i s]
  by (auto simp: examine_entry_def begin_entry_def call_replay_def split: option.split)

lemma moved_claim_next:
  assumes "wk_at w = NextEntry es"
  shows "moved i w 1 s (claim_next i w es io now s)"
  using assms by (auto simp: claim_next_def dest: claim_workers split: list.split prod.split bool.split sum.split)

lemma moved_work_list:
  assumes "wk_at w = Listed es" and "\<not> live_job (wk_job w)"
  shows "moved i w 1 s (work_list i w es now s)"
proof (cases "wk_job w")
  case (ReconnectDrain key sel started)
  then show ?thesis using assms length_filter_le [of "\<lambda>e. dd_match (sel e started)" es] by (simp add: work_list_def)
qed (use assms in \<open>simp_all add: work_list_def\<close>)

lemma moved_continue:
  assumes "js_get (workers s) i = Some w" and "awaits (wk_at w) i (Continue i io now)" and "live_job (wk_job w) = live_point (wk_at w)"
  shows "moved i w 1 s (continue_worker i io now s)"
proof (cases "wk_at w")
  case (LiveStored k)
  then show ?thesis using assms by (auto simp: continue_worker_def dest: claim_workers split: prod.split bool.split)
next
  case (LiveOutcomeMarked k)
  then show ?thesis using assms by (auto simp: continue_worker_def split: sum.split)
next
  case (Listed es)
  then show ?thesis using assms moved_work_list [OF Listed] by (simp add: continue_worker_def)
next
  case (NextEntry es)
  then show ?thesis using assms moved_claim_next [OF NextEntry] by (simp add: continue_worker_def)
next
  case (Reread k cur es)
  then show ?thesis using assms moved_examine [OF Reread] by (simp add: continue_worker_def)
next
  case (AckFailed e m es)
  then show ?thesis using assms by (auto simp: continue_worker_def intro!: moved_settling)
next
  case (ReplayFailed e m es)
  then show ?thesis using assms by (auto simp: continue_worker_def Let_def intro!: moved_settling)
qed (use assms in \<open>simp_all add: continue_worker_def\<close>)

lemma moved_core:
  assumes "js_get (workers s) i = Some w" and "awaits (wk_at w) i (CoreAnswers i io now a)" and "live_job (wk_job w) = live_point (wk_at w)"
  shows "moved i w 1 s (core_answers i io now a s)"
proof (cases "wk_at w")
  case (LiveSending k b pf)
  then obtain policy where "wk_job w = LiveSend policy" using assms(3) by (cases "wk_job w") auto
  then show ?thesis using assms LiveSending
    by (auto simp: core_answers_def live_answer_def split: core_answer.split sum.split)
next
  case LiveDirect
  then obtain policy where "wk_job w = LiveSend policy" using assms(3) by (cases "wk_job w") auto
  then show ?thesis using assms LiveDirect by (simp add: core_answers_def)
next
  case (Replaying e pf es)
  then have "core_answers i io now a s = replay_answer i w e pf es io now a s"
    using assms(1) by (cases "wk_job w") (simp_all add: core_answers_def)
  then show ?thesis using Replaying
    by (auto simp: replay_answer_def Let_def intro!: moved_settling split: core_answer.split sum.split)
qed (use assms(2) in simp_all)

lemma moved_adapter:
  assumes "js_get (workers s) i = Some w" and "awaits (wk_at w) i (AdapterAnswers i io now r)"
  shows "moved i w 1 s (adapter_answers i io now r s)"
proof -
  obtain e es where p: "wk_at w = Reconciling e es" using assms(2) by (cases "wk_at w") auto
  then have "adapter_answers i io now r s = reconciled i w e es io now r s" using assms(1) by (simp add: adapter_answers_def)
  then show ?thesis using p
    by (cases r) (auto simp: reconciled_def call_replay_def Let_def intro!: moved_settling split: sum.split)
qed

section \<open>All events\<close>

lemma unawaited_continue:
  assumes "js_get (workers s) i = Some w" and "\<not> awaits (wk_at w) i (Continue i io now)"
  shows "continue_worker i io now s = s"
  using assms by (cases "wk_at w") (simp_all add: continue_worker_def)

lemma unawaited_core:
  assumes "js_get (workers s) i = Some w" and "\<not> awaits (wk_at w) i (CoreAnswers i io now a)"
  shows "core_answers i io now a s = s"
  using assms by (cases "wk_at w") (simp_all add: core_answers_def split: job.split)

lemma unawaited_adapter:
  assumes "js_get (workers s) i = Some w" and "\<not> awaits (wk_at w) i (AdapterAnswers i io now r)"
  shows "adapter_answers i io now r s = s"
  using assms by (cases "wk_at w") (simp_all add: adapter_answers_def)

lemma absent_worker:
  assumes "js_get (workers s) i = None"
  shows "continue_worker i io now s = s" "core_answers i io now a s = s" "adapter_answers i io now r s = s"
    "platform_send_start i io now s = s" "payload_error i s = s"
  using assms by (simp_all add: continue_worker_def core_answers_def adapter_answers_def platform_send_start_def payload_error_def)

lemma moved_start:
  assumes "js_get (workers s) i = Some w"
  shows "moved i w 0 s (platform_send_start i io now s)" and "moved i w 0 s (payload_error i s)"
  using assms by (auto simp: platform_send_start_def payload_error_def Let_def split: job.split point.split sum.split)

definition all_matched :: "'p delivery_state \<Rightarrow> bool" where
  "all_matched s \<longleftrightarrow> (\<forall>i w. js_get (workers s) i = Some w \<longrightarrow> live_job (wk_job w) = live_point (wk_at w))"

text \<open>A step of the worker an event is for.\<close>

lemma own_step:
  assumes "js_get (workers s) i = Some w" and "live_job (wk_job w) = live_point (wk_at w)" and "worker_of ev = Some i"
  shows "moved i w (of_bool (awaits (wk_at w) i ev)) s (delivery_step uuid ev s)"
proof -
  have start: "\<not> awaits (wk_at w) i (PlatformSendStart i io now)" "\<not> awaits (wk_at w) i (PayloadError i)" for io now
    by (cases "wk_at w"; simp)+
  show ?thesis
    using assms(3)
  proof (cases ev)
    case (Continue j io now)
    with assms show ?thesis
      using moved_continue [OF assms(1) _ assms(2)] unawaited_continue [OF assms(1)] moved_same [OF assms(1)]
      by (cases "awaits (wk_at w) i ev") simp_all
  next
    case (CoreAnswers j io now a)
    with assms show ?thesis
      using moved_core [OF assms(1) _ assms(2)] unawaited_core [OF assms(1)] moved_same [OF assms(1)]
      by (cases "awaits (wk_at w) i ev") simp_all
  next
    case (AdapterAnswers j io now r)
    with assms show ?thesis
      using moved_adapter [OF assms(1)] unawaited_adapter [OF assms(1)] moved_same [OF assms(1)]
      by (cases "awaits (wk_at w) i ev") simp_all
  qed (use moved_start [OF assms(1)] start in \<open>simp_all\<close>)
qed

lemma other_step:
  assumes "all_matched s" and "worker_of ev = Some j" and "i \<noteq> j"
  shows "js_get (workers (delivery_step uuid ev s)) i = js_get (workers s) i"
proof (cases "js_get (workers s) j")
  case None
  then have "delivery_step uuid ev s = s" using assms(2) absent_worker [OF None] by (cases ev) simp_all
  then show ?thesis by simp
next
  case (Some w)
  then have "live_job (wk_job w) = live_point (wk_at w)" using assms(1) unfolding all_matched_def by blast
  from own_step [OF Some this assms(2), of uuid] assms(3) show ?thesis unfolding moved_def by blast
qed

lemma new_step:
  assumes "worker_of ev = None" and "js_get (workers (delivery_step uuid ev s)) i = Some w'"
  shows "js_get (workers s) i = Some w' \<or> i = next_worker s \<and> live_job (wk_job w') = live_point (wk_at w')"
  using assms by (cases ev) (auto simp: begin_send_def begin_recovery_def begin_drain_def crash_def Let_def split: sum.splits if_splits)

lemma unaddressed: "worker_of ev \<noteq> Some i \<Longrightarrow> \<not> awaits p i ev"
  by (cases p) auto

lemma step_matched: "all_matched s \<Longrightarrow> all_matched (delivery_step uuid ev s)"
  unfolding all_matched_def
proof (intro allI impI)
  fix i w'
  assume m: "\<forall>i w. js_get (workers s) i = Some w \<longrightarrow> live_job (wk_job w) = live_point (wk_at w)"
    and g: "js_get (workers (delivery_step uuid ev s)) i = Some w'"
  show "live_job (wk_job w') = live_point (wk_at w')"
  proof (cases "worker_of ev")
    case None
    then show ?thesis using new_step [OF None g] m by blast
  next
    case (Some j)
    show ?thesis
    proof (cases "i = j")
      case False
      then show ?thesis using other_step [of s ev j i uuid] Some m g by (simp add: all_matched_def)
    next
      case True
      show ?thesis
      proof (cases "js_get (workers s) i")
        case None
        then have "delivery_step uuid ev s = s" using Some True absent_worker [OF None] by (cases ev) simp_all
        then show ?thesis using g None by simp
      next
        case w: (Some w)
        have "live_job (wk_job w) = live_point (wk_at w)" using m w by blast
        moreover have "worker_of ev = Some i" using Some True by simp
        ultimately show ?thesis using own_step [OF w, of ev uuid] g m w unfolding moved_def by metis
      qed
    qed
  qed
qed

text \<open>What is left is used up by the events the worker is served with.\<close>

fun served :: "(nat \<Rightarrow> string) \<Rightarrow> nat \<Rightarrow> 'p delivery_event list \<Rightarrow> 'p delivery_state \<Rightarrow> nat" where
  "served uuid i [] s = 0"
| "served uuid i (ev # es) s = of_bool (case js_get (workers s) i of None \<Rightarrow> False | Some w \<Rightarrow> awaits (wk_at w) i ev)
     + served uuid i es (delivery_step uuid ev s)"

lemma run_matched: "all_matched (run_deliveries uuid es)"
proof (induction es rule: rev_induct)
  case Nil
  then show ?case by (simp add: all_matched_def run_deliveries_def initial_deliveries_def)
next
  case (snoc ev es)
  then show ?case by (simp add: run_append step_matched)
qed

text \<open>What worker \<open>i\<close> has left, zero when it has ended.\<close>

definition work_left :: "nat \<Rightarrow> 'p delivery_state \<Rightarrow> nat" where
  "work_left i s = (case js_get (workers s) i of None \<Rightarrow> 0 | Some w \<Rightarrow> steps_left (wk_at w))"

definition serves :: "nat \<Rightarrow> 'p delivery_event \<Rightarrow> 'p delivery_state \<Rightarrow> bool" where
  "serves i ev s \<longleftrightarrow> (case js_get (workers s) i of None \<Rightarrow> False | Some w \<Rightarrow> awaits (wk_at w) i ev)"

lemma step_work:
  assumes "all_matched s" and "i < next_worker s"
  shows "work_left i (delivery_step uuid ev s) + of_bool (serves i ev s) \<le> work_left i s"
proof (cases "js_get (workers s) i")
  case None
  have "js_get (workers (delivery_step uuid ev s)) i = None"
  proof (cases "worker_of ev")
    case w: None
    then show ?thesis using new_step [OF w, of uuid s i] None assms(2) by (cases "js_get (workers (delivery_step uuid ev s)) i") auto
  next
    case (Some j)
    show ?thesis
    proof (cases "i = j")
      case True
      then have "delivery_step uuid ev s = s" using Some absent_worker [OF None] by (cases ev) simp_all
      then show ?thesis using None by simp
    qed (use other_step [OF assms(1) Some] None in simp)
  qed
  then show ?thesis using None by (simp add: work_left_def serves_def)
next
  case (Some w)
  have m: "live_job (wk_job w) = live_point (wk_at w)" using assms(1) Some by (simp add: all_matched_def)
  show ?thesis
  proof (cases "worker_of ev = Some i")
    case True
    have pos: "0 < steps_left (wk_at w)" by (cases "wk_at w") simp_all
    show ?thesis
    proof (cases "js_get (workers (delivery_step uuid ev s)) i")
      case None
      then show ?thesis using Some pos by (simp add: work_left_def serves_def)
    next
      case w': (Some w')
      then have "steps_left (wk_at w') + of_bool (awaits (wk_at w) i ev) \<le> steps_left (wk_at w)"
        using own_step [OF Some m True, of uuid] unfolding moved_def by blast
      then show ?thesis using Some w' by (simp add: work_left_def serves_def)
    qed
  next
    case False
    have "js_get (workers (delivery_step uuid ev s)) i \<in> {None, Some w}"
    proof (cases "worker_of ev")
      case n: None
      then show ?thesis using new_step [OF n, of uuid s i] Some assms(2) by (cases "js_get (workers (delivery_step uuid ev s)) i") auto
    next
      case j: (Some j)
      then show ?thesis using other_step [OF assms(1) j] False Some by auto
    qed
    then show ?thesis using Some unaddressed [OF False] by (auto simp: work_left_def serves_def)
  qed
qed

lemma next_worker_mono: "next_worker s \<le> next_worker (delivery_step uuid ev s)"
proof -
  have c: "claimRecoveryEntry k s = (b, s1) \<Longrightarrow> next_worker s1 = next_worker s" for k b s s1
    by (auto simp: claimRecoveryEntry_def split: if_splits)
  have n: "next_worker (record_failure i w e m es io now s) = next_worker s" "next_worker (bury_entry i w e es io now s) = next_worker s"
    "next_worker (give_up_entry i w e es io now s) = next_worker s" "next_worker (call_replay i w e es s) = next_worker s"
    "next_worker (begin_entry i w e es s) = next_worker s" "next_worker (work_list i w es now s) = next_worker s"
    for i w e m es io now and s :: "'a delivery_state"
    by (simp_all add: record_failure_def bury_entry_def give_up_entry_def call_replay_def begin_entry_def work_list_def
        split: sum.split job.split store_error.split)
  have x: "next_worker (examine_entry i w k cur es io now s) = next_worker s" "next_worker (claim_next i w es io now s) = next_worker s"
    "next_worker (reconciled i w e es io now r s) = next_worker s" "next_worker (replay_answer i w e pf es io now a s) = next_worker s"
    "next_worker (live_answer i w policy k st pf io now a s) = next_worker s"
    for i w k cur es io now e r pf a policy st and s :: "'a delivery_state"
    by (auto simp: n examine_entry_def claim_next_def reconciled_def replay_answer_def live_answer_def Let_def dest: c
        split: option.split list.split prod.split bool.split sum.split reconciliation.split core_answer.split)
  show ?thesis
  proof (cases ev)
    case (Send io now policy p)
    then show ?thesis by (auto simp: begin_send_def Let_def split: sum.split)
  next
    case (Recover io mx)
    then show ?thesis by (simp add: begin_recovery_def split: sum.split)
  next
    case (Reconnect io now key sel)
    then show ?thesis by (simp add: begin_drain_def split: sum.split)
  next
    case (Continue i io now)
    then show ?thesis
      by (auto simp: n x continue_worker_def Let_def dest: c split: option.split point.split sum.split prod.split bool.split)
  next
    case (PlatformSendStart i io now)
    then show ?thesis by (simp add: platform_send_start_def Let_def split: option.split job.split point.split sum.split)
  next
    case (PayloadError i)
    then show ?thesis by (simp add: payload_error_def split: option.split point.split)
  next
    case (CoreAnswers i io now a)
    then show ?thesis by (simp add: core_answers_def x split: option.split job.split point.split)
  next
    case (AdapterAnswers i io now r)
    then show ?thesis by (simp add: adapter_answers_def x split: option.split point.split)
  next
    case Crash
    then show ?thesis by (simp add: crash_def)
  qed
qed

lemma served_work:
  assumes "all_matched s" and "i < next_worker s"
  shows "work_left i (fold (delivery_step uuid) es s) + served uuid i es s \<le> work_left i s"
  using assms
proof (induction es arbitrary: s)
  case (Cons ev es)
  have "all_matched (delivery_step uuid ev s)" by (rule step_matched [OF Cons.prems(1)])
  moreover have "i < next_worker (delivery_step uuid ev s)" using Cons.prems(2) next_worker_mono less_le_trans by blast
  ultimately have "work_left i (fold (delivery_step uuid) es (delivery_step uuid ev s)) + served uuid i es (delivery_step uuid ev s)
      \<le> work_left i (delivery_step uuid ev s)"
    by (rule Cons.IH)
  then show ?case using step_work [OF Cons.prems, of uuid ev] by (simp add: serves_def)
qed simp

section \<open>The drains\<close>

text \<open>A drain of a key runs at most once at a time, and \<open>drainInProgress\<close> holds the keys of the drains that run: a worker keeps its
  job until it ends, and a drain that ends gives its key free.\<close>

fun drain_key :: "'p job \<Rightarrow> string option" where
  "drain_key (ReconnectDrain key sel started) = Some key"
| "drain_key _ = None"

definition keeps_drain :: "nat \<Rightarrow> 'p worker \<Rightarrow> 'p delivery_state \<Rightarrow> 'p delivery_state \<Rightarrow> bool" where
  "keeps_drain i w s s' \<longleftrightarrow>
     (\<forall>j. j \<noteq> i \<longrightarrow> js_get (workers s') j = js_get (workers s) j)
     \<and> (case js_get (workers s') i of
          Some w' \<Rightarrow> drain_key (wk_job w') = drain_key (wk_job w) \<and> drainInProgress s' = drainInProgress s
        | None \<Rightarrow> drainInProgress s' = (case drain_key (wk_job w) of None \<Rightarrow> drainInProgress s | Some key \<Rightarrow> remove1 key (drainInProgress s)))"

lemma keeps_waits [simp]:
  "(\<And>j. j \<noteq> i \<Longrightarrow> js_get (workers s') j = js_get (workers s) j) \<Longrightarrow> drainInProgress s' = drainInProgress s \<Longrightarrow>
   keeps_drain i w s (worker_waits i w' p s') \<longleftrightarrow> drain_key (wk_job w') = drain_key (wk_job w)"
  by (auto simp: keeps_drain_def worker_waits_def)

lemma note_drains [simp]: "drainInProgress (note_output x s) = drainInProgress s"
  by (simp add: note_output_def)

lemma keeps_note [simp]: "keeps_drain i w s (note_output x s') = keeps_drain i w s s'"
  unfolding keeps_drain_def note_drains by simp

lemma keeps_end [simp]:
  "(\<And>j. j \<noteq> i \<Longrightarrow> js_get (workers s') j = js_get (workers s) j) \<Longrightarrow> drainInProgress s' = drainInProgress s \<Longrightarrow>
   keeps_drain i w s (end_worker i w s')"
  by (cases "wk_job w") (simp_all add: keeps_drain_def end_worker_def)

lemma keeps_same [simp]: "js_get (workers s) i = Some w \<Longrightarrow> keeps_drain i w s s"
  by (simp add: keeps_drain_def)

lemma claim_drains: "claimRecoveryEntry k s = (b, s1) \<Longrightarrow> workers s1 = workers s \<and> drainInProgress s1 = drainInProgress s"
  by (auto simp: claimRecoveryEntry_def split: if_splits)

lemma release_drains [simp]: "drainInProgress (releaseRecoveryEntry k s) = drainInProgress s"
  by (simp add: releaseRecoveryEntry_def)

lemma keeps_settling:
  assumes "wk_job w' = wk_job w"
  shows "keeps_drain i w s (record_failure i w' e m es io now s)" "keeps_drain i w s (bury_entry i w' e es io now s)"
    "keeps_drain i w s (give_up_entry i w' e es io now s)"
  using assms by (auto simp: record_failure_def bury_entry_def give_up_entry_def split: sum.split job.split store_error.split)

lemma keeps_examine: "keeps_drain i w s (examine_entry i w k cur es io now s)"
  using keeps_settling(3) [of w w i s]
  by (auto simp: examine_entry_def begin_entry_def call_replay_def split: option.split)

lemma keeps_claim_next: "keeps_drain i w s (claim_next i w es io now s)"
  by (auto simp: claim_next_def dest: claim_drains split: list.split prod.split bool.split sum.split)

lemma keeps_work_list: "js_get (workers s) i = Some w \<Longrightarrow> keeps_drain i w s (work_list i w es now s)"
  by (cases "wk_job w") (simp_all add: work_list_def)

lemma keeps_continue:
  assumes "js_get (workers s) i = Some w"
  shows "keeps_drain i w s (continue_worker i io now s)"
proof (cases "wk_at w")
  case (LiveStored k)
  then show ?thesis using assms by (auto simp: continue_worker_def dest: claim_drains split: prod.split bool.split)
next
  case (LiveOutcomeMarked k)
  then show ?thesis using assms by (auto simp: continue_worker_def split: sum.split)
next
  case (Listed es)
  then show ?thesis using assms keeps_work_list by (simp add: continue_worker_def)
next
  case (NextEntry es)
  then show ?thesis using assms keeps_claim_next by (simp add: continue_worker_def)
next
  case (Reread k cur es)
  then show ?thesis using assms keeps_examine by (simp add: continue_worker_def)
next
  case (AckFailed e m es)
  then show ?thesis using assms by (auto simp: continue_worker_def intro!: keeps_settling)
next
  case (ReplayFailed e m es)
  then show ?thesis using assms by (auto simp: continue_worker_def Let_def intro!: keeps_settling)
qed (use assms in \<open>simp_all add: continue_worker_def\<close>)

lemma keeps_live_answer:
  assumes "js_get (workers s) i = Some w"
  shows "keeps_drain i w s (live_answer i w policy k b pf io now a s)"
  using assms by (auto simp: live_answer_def split: core_answer.split sum.split)

lemma keeps_replay_answer: "keeps_drain i w s (replay_answer i w e pf es io now a s)"
  by (auto simp: replay_answer_def Let_def intro!: keeps_settling split: core_answer.split sum.split)

lemma keeps_core:
  assumes "js_get (workers s) i = Some w"
  shows "keeps_drain i w s (core_answers i io now a s)"
  using assms keeps_live_answer [OF assms] keeps_replay_answer [of i w s]
  by (auto simp: core_answers_def split: job.split point.split)

lemma keeps_adapter:
  assumes "js_get (workers s) i = Some w"
  shows "keeps_drain i w s (adapter_answers i io now r s)"
proof (cases "wk_at w")
  case (Reconciling e es)
  then have "adapter_answers i io now r s = reconciled i w e es io now r s" using assms by (simp add: adapter_answers_def)
  then show ?thesis
    by (cases r) (auto simp: reconciled_def call_replay_def Let_def intro!: keeps_settling split: sum.split)
qed (use assms in \<open>simp_all add: adapter_answers_def\<close>)

lemma keeps_start:
  assumes "js_get (workers s) i = Some w"
  shows "keeps_drain i w s (platform_send_start i io now s)" and "keeps_drain i w s (payload_error i s)"
  using assms by (auto simp: platform_send_start_def payload_error_def Let_def split: job.split point.split sum.split)

lemma worker_step_keeps:
  assumes "js_get (workers s) i = Some w" and "worker_of ev = Some i"
  shows "keeps_drain i w s (delivery_step uuid ev s)"
  using assms by (cases ev) (simp_all add: keeps_continue keeps_start keeps_core keeps_adapter)

text \<open>The key worker \<open>j\<close> drains and the entry it claims.\<close>

definition drain_of :: "'p delivery_state \<Rightarrow> nat \<Rightarrow> string option" where
  "drain_of s j = Option.bind (js_get (workers s) j) (\<lambda>w. drain_key (wk_job w))"

definition claim_at :: "'p delivery_state \<Rightarrow> nat \<Rightarrow> string option" where
  "claim_at s j = Option.bind (js_get (workers s) j) (\<lambda>w. claim_of (wk_at w))"

definition drains_ok :: "'p delivery_state \<Rightarrow> bool" where
  "drains_ok s \<longleftrightarrow>
     distinct (drainInProgress s) \<and> (\<forall>key. key \<in> set (drainInProgress s) \<longleftrightarrow> (\<exists>j. drain_of s j = Some key))
     \<and> (\<forall>i j key. drain_of s i = Some key \<longrightarrow> drain_of s j = Some key \<longrightarrow> i = j)
     \<and> (\<forall>i. js_get (workers s) i \<noteq> None \<longrightarrow> i < next_worker s)"

lemma drains_start: "drains_ok initial_deliveries"
  by (simp add: drains_ok_def drain_of_def initial_deliveries_def)

lemma drains_same:
  assumes "drains_ok s" and "drainInProgress s' = drainInProgress s" and "next_worker s \<le> next_worker s'"
    and "drain_of s' = drain_of s" and "\<And>i. js_get (workers s') i \<noteq> None \<Longrightarrow> js_get (workers s) i \<noteq> None"
  shows "drains_ok s'"
  using assms(1,5) less_le_trans [OF _ assms(3)] unfolding drains_ok_def assms(2,4) by blast

lemma drains_ended:
  assumes "drains_ok s" and "next_worker s \<le> next_worker s'" and "drain_of s' = (drain_of s)(i := None)"
    and "drainInProgress s' = (case drain_of s i of None \<Rightarrow> drainInProgress s | Some key \<Rightarrow> remove1 key (drainInProgress s))"
    and "\<And>i. js_get (workers s') i \<noteq> None \<Longrightarrow> js_get (workers s) i \<noteq> None"
  shows "drains_ok s'"
proof -
  have ok: "distinct (drainInProgress s)" "\<And>key. key \<in> set (drainInProgress s) \<longleftrightarrow> (\<exists>j. drain_of s j = Some key)"
    "\<And>i j key. drain_of s i = Some key \<Longrightarrow> drain_of s j = Some key \<Longrightarrow> i = j"
    "\<And>i. js_get (workers s) i \<noteq> None \<Longrightarrow> i < next_worker s"
    using assms(1) unfolding drains_ok_def by blast+
  have "distinct (drainInProgress s')" using ok(1) assms(4) by (simp split: option.splits)
  moreover have "key \<in> set (drainInProgress s') \<longleftrightarrow> (\<exists>j. drain_of s' j = Some key)" for key
  proof (cases "drain_of s i")
    case None
    then have "drain_of s' = drain_of s" "drainInProgress s' = drainInProgress s" using assms(3,4) by auto
    then show ?thesis using ok(2) by simp
  next
    case (Some l)
    then have "key \<in> set (drainInProgress s') \<longleftrightarrow> key \<noteq> l \<and> key \<in> set (drainInProgress s)" using assms(4) ok(1) by auto
    moreover have "(\<exists>j. drain_of s' j = Some key) \<longleftrightarrow> key \<noteq> l \<and> (\<exists>j. drain_of s j = Some key)"
    proof -
      have "drain_of s' j = Some key \<longleftrightarrow> key \<noteq> l \<and> drain_of s j = Some key" for j
        using Some ok(3) [OF Some, of j] unfolding assms(3) by (cases "j = i") auto
      then show ?thesis by simp
    qed
    ultimately show ?thesis using ok(2) by simp
  qed
  moreover have "p = q" if "drain_of s' p = Some key" "drain_of s' q = Some key" for p q key
    using that ok(3) unfolding assms(3) by (simp split: if_splits)
  moreover have "p < next_worker s'" if "js_get (workers s') p \<noteq> None" for p
    using ok(4) [OF assms(5) [OF that]] assms(2) by simp
  ultimately show ?thesis unfolding drains_ok_def by blast
qed

lemma drains_started:
  assumes "drains_ok s" and "drain_key j = None \<and> drainInProgress s1 = drainInProgress s
      \<or> (\<exists>key. drain_key j = Some key \<and> key \<notin> set (drainInProgress s) \<and> drainInProgress s1 = js_set_add key (drainInProgress s))"
    and "workers s1 = workers s" and "next_worker s1 = next_worker s"
  shows "drains_ok (start_worker j p s1)"
proof -
  let ?s = "start_worker j p s1"
  have ok: "distinct (drainInProgress s)" "\<And>key. key \<in> set (drainInProgress s) \<longleftrightarrow> (\<exists>j. drain_of s j = Some key)"
    "\<And>i j key. drain_of s i = Some key \<Longrightarrow> drain_of s j = Some key \<Longrightarrow> i = j"
    "\<And>i. js_get (workers s) i \<noteq> None \<Longrightarrow> i < next_worker s"
    using assms(1) unfolding drains_ok_def by blast+
  have fresh: "drain_of s (next_worker s) = None" using ok(4) [of "next_worker s"]
    by (cases "js_get (workers s) (next_worker s)") (auto simp: drain_of_def)
  have got: "drain_of ?s = (drain_of s)(next_worker s := drain_key j)"
    using assms(3,4) by (simp add: fun_eq_iff drain_of_def)
  have keys: "drainInProgress ?s = drainInProgress s1" by (simp add: start_worker_def)
  have "distinct (drainInProgress ?s)" using assms(2) ok(1) keys by auto
  moreover have "key \<in> set (drainInProgress ?s) \<longleftrightarrow> (\<exists>i. drain_of ?s i = Some key)" for key
  proof -
    have "(\<exists>i. drain_of ?s i = Some key) \<longleftrightarrow> drain_key j = Some key \<or> (\<exists>i. drain_of s i = Some key)"
      using fresh unfolding got by (metis fun_upd_apply option.distinct(1))
    then show ?thesis using assms(2) ok(2) [of key] keys by auto
  qed
  moreover have "p = q" if "drain_of ?s p = Some key" "drain_of ?s q = Some key" for p q key
  proof -
    have "drain_of s r \<noteq> Some key" if "drain_key j = Some key" for r using assms(2) ok(2) [of key] that by auto
    then show ?thesis using that ok(3) unfolding got by (auto split: if_splits)
  qed
  moreover have "p < next_worker ?s" if "js_get (workers ?s) p \<noteq> None" for p
    using that ok(4) [of p] assms(3,4) by (auto split: if_splits)
  ultimately show ?thesis unfolding drains_ok_def by blast
qed

lemma step_drains:
  assumes "drains_ok s"
  shows "drains_ok (delivery_step uuid ev s)"
proof (cases "worker_of ev")
  case None
  then show ?thesis
  proof (cases ev)
    case (Send io now policy p)
    have same: "drains_ok (s\<lparr>next_uuid := n\<rparr>)" for n
      by (rule drains_same [OF assms]) (simp_all add: drain_of_def fun_eq_iff)
    have said: "drains_ok (note_output x s1)" if "drains_ok s1" for x s1
      by (rule drains_same [OF that]) (simp_all add: drain_of_def fun_eq_iff)
    show ?thesis
      using Send same by (auto simp: begin_send_def Let_def intro!: said drains_started [OF assms] split: sum.split)
  next
    case (Recover io mx)
    then show ?thesis using assms drains_started [OF assms] by (simp add: begin_recovery_def split: sum.split)
  next
    case (Reconnect io now key sel)
    then show ?thesis using assms drains_started [OF assms] by (simp add: begin_drain_def split: sum.split)
  next
    case Crash
    then show ?thesis by (simp add: crash_def drains_ok_def drain_of_def)
  qed simp_all
next
  case (Some i)
  show ?thesis
  proof (cases "js_get (workers s) i")
    case None
    then have "delivery_step uuid ev s = s" using Some absent_worker [OF None] by (cases ev) simp_all
    then show ?thesis using assms by simp
  next
    case w: (Some w)
    let ?s = "delivery_step uuid ev s"
    have keeps: "keeps_drain i w s ?s" by (rule worker_step_keeps [OF w Some])
    then have other: "js_get (workers ?s) j = js_get (workers s) j" if "j \<noteq> i" for j using that by (simp add: keeps_drain_def)
    have present: "js_get (workers s) j \<noteq> None" if "js_get (workers ?s) j \<noteq> None" for j using that other w by (cases "j = i") auto
    have of_i: "drain_of s i = drain_key (wk_job w)" using w by (simp add: drain_of_def)
    show ?thesis
    proof (cases "js_get (workers ?s) i")
      case None
      then show ?thesis using keeps of_i other
        by (intro drains_ended [OF assms next_worker_mono _ _ present, where i = i]) (simp_all add: keeps_drain_def drain_of_def fun_eq_iff)
    next
      case w': (Some w')
      then have kept: "drain_key (wk_job w') = drain_key (wk_job w)" "drainInProgress ?s = drainInProgress s"
        using keeps by (simp_all add: keeps_drain_def)
      have "drain_of ?s j = drain_of s j" for j
        using w w' kept(1) other [of j] by (cases "j = i") (simp_all add: drain_of_def)
      then show ?thesis using kept(2) by (intro drains_same [OF assms _ next_worker_mono _ present]) auto
    qed
  qed
qed

lemma run_drains: "drains_ok (run_deliveries uuid es)"
proof (induction es rule: rev_induct)
  case Nil
  then show ?case by (simp add: run_deliveries_def drains_start)
next
  case (snoc ev es)
  then show ?case by (simp add: run_append step_drains)
qed

section \<open>A worker ends\<close>

text \<open>What is claimed and drained when worker \<open>i\<close> is gone is what the other workers claim and drain.\<close>

lemma gone_worker_holds_nothing:
  assumes "inj uuid" and "js_get (workers (run_deliveries uuid es)) i = None"
  shows "set (entriesInProgress (run_deliveries uuid es)) = {k. \<exists>j. j \<noteq> i \<and> claim_at (run_deliveries uuid es) j = Some k}"
    and "set (drainInProgress (run_deliveries uuid es)) = {key. \<exists>j. j \<noteq> i \<and> drain_of (run_deliveries uuid es) j = Some key}"
proof -
  let ?s = "run_deliveries uuid es"
  have gone: "claim_at ?s i = None" "drain_of ?s i = None" using assms(2) by (simp_all add: claim_at_def drain_of_def)
  have "k \<in> set (entriesInProgress ?s) \<longleftrightarrow> (\<exists>j. claim_at ?s j = Some k)" for k
    using run_invariants(5) [OF assms(1), of es] unfolding claims_ok_def abstraction_at claim_at_def by blast
  moreover have "claim_at ?s j = Some k \<longleftrightarrow> j \<noteq> i \<and> claim_at ?s j = Some k" for j k using gone(1) by (cases "j = i") simp_all
  ultimately show "set (entriesInProgress ?s) = {k. \<exists>j. j \<noteq> i \<and> claim_at ?s j = Some k}" by blast
  have "key \<in> set (drainInProgress ?s) \<longleftrightarrow> (\<exists>j. drain_of ?s j = Some key)" for key
    using run_drains [of uuid es] unfolding drains_ok_def by blast
  moreover have "drain_of ?s j = Some key \<longleftrightarrow> j \<noteq> i \<and> drain_of ?s j = Some key" for j key using gone(2) by (cases "j = i") simp_all
  ultimately show "set (drainInProgress ?s) = {key. \<exists>j. j \<noteq> i \<and> drain_of ?s j = Some key}" by blast
qed

definition finished_run :: "nat delivery_event list" where
  "finished_run = [Continue 1 None 5, CoreAnswers 1 None 6 CoreReturned, Continue 1 None 7, Continue 1 None 8, Continue 1 None 9]"

lemma finished_worker: "js_get (workers (run_deliveries unary_id (claimed_run @ finished_run))) 1 = None"
  by (simp add: small_run_defs finished_run_def core_answers_def replay_answer_def ackDelivery_def deleteDeliveryQueueEntry_def
      end_worker_def releaseRecoveryEntry_def count_in_def)

text \<open>C25. A worker ends and gives its claims free: it can always be served, it can be served no more often than it has
  steps left, whatever else happens in between, and when it has been served that often it is gone.  Whenever it is gone,
  on whatever way it left, only what another worker claims is in progress, and only the keys that another worker drains
  are marked as drained.\<close>

theorem every_worker_ends:
  assumes "inj uuid" and "js_get (workers (run_deliveries uuid es)) i = Some w"
  shows "(\<exists>ev. served uuid i [ev] (run_deliveries uuid es) = 1)
    \<and> served uuid i es' (run_deliveries uuid es) \<le> steps_left (wk_at w)
    \<and> (served uuid i es' (run_deliveries uuid es) < steps_left (wk_at w)
       \<or> js_get (workers (run_deliveries uuid (es @ es'))) i = None)
    \<and> (js_get (workers (run_deliveries uuid (es @ es'))) i = None \<longrightarrow>
         set (entriesInProgress (run_deliveries uuid (es @ es')))
           = {k. \<exists>j. j \<noteq> i \<and> claim_at (run_deliveries uuid (es @ es')) j = Some k}
         \<and> set (drainInProgress (run_deliveries uuid (es @ es')))
           = {key. \<exists>j. j \<noteq> i \<and> drain_of (run_deliveries uuid (es @ es')) j = Some key})"
proof -
  let ?s = "run_deliveries uuid es"
  have i: "i < next_worker ?s"
    using run_invariants(5) [OF assms(1), of es] assms(2) unfolding claims_ok_def by blast
  have "work_left i (fold (delivery_step uuid) es' ?s) + served uuid i es' ?s \<le> steps_left (wk_at w)"
    using served_work [OF run_matched i, of uuid es'] assms(2) by (simp add: work_left_def)
  moreover have "js_get (workers (run_deliveries uuid (es @ es'))) i = None"
    if "work_left i (fold (delivery_step uuid) es' ?s) = 0"
  proof (cases "js_get (workers (run_deliveries uuid (es @ es'))) i")
    case (Some w')
    then have "steps_left (wk_at w') = 0" using that by (simp add: work_left_def run_append)
    then show ?thesis by (cases "wk_at w'") simp_all
  qed simp
  moreover have "\<exists>ev. served uuid i [ev] ?s = 1"
  proof -
    have "\<exists>ev. awaits (wk_at w) i ev" by (cases "wk_at w") auto
    then show ?thesis using assms(2) by auto
  qed
  moreover note gone_worker_holds_nothing [OF assms(1), of "es @ es'" i]
  ultimately show ?thesis by (cases "work_left i (fold (delivery_step uuid) es' ?s) = 0") auto
qed

theorem every_worker_ends_witness:
  "\<exists>w. js_get (workers (run_deliveries unary_id claimed_run)) 1 = Some w
    \<and> served unary_id 1 finished_run (run_deliveries unary_id claimed_run) \<le> steps_left (wk_at w)
    \<and> js_get (workers (run_deliveries unary_id (claimed_run @ finished_run))) 1 = None
    \<and> set (entriesInProgress (run_deliveries unary_id (claimed_run @ finished_run)))
        = {k. \<exists>j. j \<noteq> 1 \<and> claim_at (run_deliveries unary_id (claimed_run @ finished_run)) j = Some k}"
proof -
  obtain w where "js_get (workers (run_deliveries unary_id claimed_run)) 1 = Some w"
    using claimed_worker by auto
  with every_worker_ends [OF inj_unary_id this, of finished_run] finished_worker show ?thesis by blast
qed

end
