(* ===== verification/DeliveryHazards.thy ===== *)
theory DeliveryHazards
  imports DeliveryProgress
begin

text \<open>
  What the queue of outbound messages does against its purpose, and what distinguishes its retry policy from that of the
  session deliveries.
\<close>

section \<open>Replays\<close>

text \<open>A replay marks nothing when its platform send starts: after a crash during a replay the next worker sends the
  message again without asking the adapter.\<close>

lemma crashed_replay_is_repeated_blindly:
  "map (is_replay_of []) (history (run_deliveries unary_id
     (drained_run @ [Crash, Reconnect None 7 ''k'' take_all, Continue 2 None 8, Continue 2 None 9, Continue 2 None 10])))
   = [False, True, True]"
  by code_simp

text \<open>A replay whose payloads failed under best effort is acknowledged all the same: the message is neither pending nor a
  dead letter.\<close>

lemma failed_payloads_are_acknowledged:
  assumes w: "js_get (workers s) i = Some w" "wk_at w = Replaying e pf es"
    and p: "pending_entry OUTBOUND (table s) (de_id e) = Some e"
  shows "let s' = delivery_step uuid (CoreAnswers i None now CoreReturned) (delivery_step uuid (PayloadError i) s) in
    pending_entry OUTBOUND (table s') (de_id e) = None \<and> failed_entry OUTBOUND (table s') (de_id e) = None
    \<and> history s' = history s @ [Acknowledged i (de_id e) (SentByReplay True)]"
proof -
  define s1 where "s1 = worker_waits i w (Replaying e True es) s"
  have 1: "delivery_step uuid (PayloadError i) s = s1" using w by (simp add: payload_error_def s1_def)
  have t: "ackDelivery None (de_id e) (table s) = Inr (js_delete (OUTBOUND, de_id e) (table s))"
    using p by (simp add: ackDelivery_def deleteDeliveryQueueEntry_def)
  let ?w = "w\<lparr>wk_at := Replaying e True es\<rparr>"
  have "delivery_step uuid (CoreAnswers i None now CoreReturned) s1 = replay_answer i ?w e True es None now CoreReturned s1"
    by (cases "wk_job w") (simp_all add: core_answers_def s1_def)
  then have 2: "delivery_step uuid (CoreAnswers i None now CoreReturned) s1
      = note_output (Acknowledged i (de_id e) (SentByReplay True))
          (worker_waits i ?w (CommitHooks e es) (s1\<lparr>table := js_delete (OUTBOUND, de_id e) (table s)\<rparr>))"
    using t by (simp add: replay_answer_def s1_def)
  show ?thesis
    unfolding 1 2 Let_def using pending_not_failed [OF p] by (simp add: store_simps s1_def)
qed

text \<open>When a replay was sent but its acknowledgement fails, the attempt is recorded as a failure: the message stays pending
  and will be sent again.\<close>

lemma sent_message_stays_pending:
  assumes w: "js_get (workers s) i = Some w" "wk_at w = Replaying e pf es"
    and p: "pending_entry OUTBOUND (table s) (de_id e) = Some e" and m: "\<not> isPermanentDeliveryError m"
  shows "pending_entry OUTBOUND (table (delivery_step uuid (Continue i None now') (delivery_step uuid (CoreAnswers i (Some m) now CoreReturned) s)))
    (de_id e) = Some (failed_attempt now' m e)"
proof -
  have "delivery_step uuid (CoreAnswers i (Some m) now CoreReturned) s = worker_waits i w (ReplayFailed e m es) s"
    using w by (cases "wk_job w")
      (simp_all add: core_answers_def replay_answer_def ackDelivery_def deleteDeliveryQueueEntry_def store_error_message_def)
  moreover obtain t where t: "failDelivery None now' (de_id e) m (table s) = Inr t"
    using p by (simp add: failDelivery_def updateDeliveryQueueEntry_def loadDeliveryQueueEntry_def upsertDeliveryQueueEntry_def)
  moreover have "pending_entry OUTBOUND t (de_id e) = Some (failed_attempt now' m e)"
    using outbound.retry_pending [OF t] p by auto
  ultimately show ?thesis using m by (simp add: continue_worker_def Let_def record_failure_def)
qed

section \<open>Backoff\<close>

text \<open>The outbound queue looks one retry ahead, so that the first failure already waits for the second delay; the first
  delay of five seconds is that of a session delivery.\<close>

lemma five_second_delay_is_skipped:
  assumes "1 \<le> retryCount e" and "isEntryEligibleForRecoveryRetry e now = None"
  shows "last_tried e + 25000 \<le> now"
proof -
  have "retryCount e = 0 \<and> lastAttemptAt e = None \<or> last_tried e + BACKOFF_MS ! nat (min 3 (retryCount e)) \<le> now"
    using assms by (intro eligible_waited) simp_all
  moreover have "nat (min 3 (retryCount e)) \<in> {1, 2, 3}" using assms(1) by auto
  then have "25000 \<le> BACKOFF_MS ! nat (min 3 (retryCount e))" by (auto simp: BACKOFF_MS_def)
  ultimately show ?thesis using assms(1) by linarith
qed

lemma session_waits_five_seconds:
  "retryCount e = 1 \<Longrightarrow> isSessionDeliveryEligibleForRetry e now = None \<longleftrightarrow> last_tried e + 5000 \<le> now"
  by (auto simp: isSessionDeliveryEligibleForRetry_def computeSessionDeliveryBackoffMs_def BACKOFF_MS_def last_tried_def Let_def
      split: option.split)

section \<open>Stored metadata\<close>

text \<open>The kind an entry is stored under does not survive its first update, which recomputes the metadata from the entry.\<close>

lemma update_forgets_the_kind:
  assumes "enqueueDelivery None now k p t = Inr t1" and "failDelivery None now' k err t1 = Inr t2"
  shows "map_option (md_entryKind \<circ> row_metadata) (js_get t1 (OUTBOUND, k)) = Some (Some ''outbound'')"
    and "map_option (md_entryKind \<circ> row_metadata) (js_get t2 (OUTBOUND, k)) = Some None"
proof -
  have t1: "t1 = js_set (OUTBOUND, k) (row_of now (Some (queuedDeliveryMetadata (outbound_entry k now p))) PendingStatus (outbound_entry k now p)) t"
    using assms(1) by (simp add: enqueueDelivery_def Let_def upsert_result) (simp add: outbound_entry_def)
  then show "map_option (md_entryKind \<circ> row_metadata) (js_get t1 (OUTBOUND, k)) = Some (Some ''outbound'')"
    by (simp add: row_of_def queuedDeliveryMetadata_def)
  have "pending_entry OUTBOUND t1 k = Some (outbound_entry k now p)"
    unfolding t1 by (subst pending_after_set) (simp_all add: outbound_entry_def)
  then have "t2 = js_set (OUTBOUND, k) (row_of now' None PendingStatus (failed_attempt now' err (outbound_entry k now p))) t1"
    using assms(2) by (simp add: failDelivery_def update_result) (simp add: outbound_entry_def)
  then show "map_option (md_entryKind \<circ> row_metadata) (js_get t2 (OUTBOUND, k)) = Some None"
    by (simp add: row_of_def metadata_def failed_attempt_def outbound_entry_def)
qed

section \<open>Session deliveries\<close>

text \<open>A delivery with an idempotency key is stored once: while its entry is pending a second one changes nothing.\<close>

lemma keyed_session_delivery_is_stored_once:
  assumes "enqueueSessionDelivery sha256 None now uuid p t = Inr (k, t1)" and "sp_idempotencyKey p = Some key" "key \<noteq> []"
  shows "enqueueSessionDelivery sha256 None now' uuid' p t1 = Inr (k, t1)"
proof -
  have k: "k = sha256 key"
    using assms by (auto simp: enqueueSessionDelivery_def buildEntryId_def Let_def loadDeliveryQueueEntry_def upsertDeliveryQueueEntry_def
        split: option.splits)
  have "pending_entry SESSION t1 k \<noteq> None"
  proof (cases "pending_entry SESSION t (sha256 key)")
    case None
    then have "t1 = js_set (SESSION, sha256 key) (row_of now (Some (queuedSessionDeliveryMetadata (session_entry (sha256 key) now p)))
        PendingStatus (session_entry (sha256 key) now p)) t"
      using assms by (auto simp: enqueueSessionDelivery_def buildEntryId_def Let_def loadDeliveryQueueEntry_def upsertDeliveryQueueEntry_def
          session_entry_def)
    then show ?thesis using k by (simp add: pending_after_set session_entry_def)
  next
    case (Some e)
    then show ?thesis
      using assms k by (auto simp: enqueueSessionDelivery_def buildEntryId_def Let_def loadDeliveryQueueEntry_def)
  qed
  then show ?thesis
    using assms(2,3) k by (auto simp: enqueueSessionDelivery_def buildEntryId_def Let_def loadDeliveryQueueEntry_def)
qed

end
