(* ===== verification/SystemRunGuard.thy ===== *)
theory SystemRunGuard
  imports ExecApproval
begin

text \<open>
  The gate in front of \<^verbatim>\<open>system.run\<close> on a node: an agent may forward an approved command only against a record of the
  approval manager (\<^verbatim>\<open>gateway/node-invoke-system-run-approval.ts\<close> and its helpers
  \<^verbatim>\<open>node-invoke-system-run-approval-match.ts\<close>, \<^verbatim>\<open>infra/system-run-approval-binding.ts\<close>,
  \<^verbatim>\<open>infra/system-run-approval-context.ts\<close>, \<^verbatim>\<open>infra/system-run-command.ts\<close>, \<^verbatim>\<open>infra/system-run-normalize.ts\<close>), and the
  part of \<^verbatim>\<open>gateway/server-methods/exec-approval.ts\<close> that builds the record for a node.  The parameters of a request are
  untyped JavaScript values.  Parameters of the model, in the record \<open>runtime\<close>: \<^verbatim>\<open>String(v)\<close> of a value that is not a
  string, the collation of \<^verbatim>\<open>localeCompare\<close> as a sort key, the SHA-256 digest of the JSON text of a list of entries,
  the preview text of shell wrappers, which no property depends on.
\<close>

section \<open>Values\<close>

datatype jv = JUndefined | JNull | JBool bool | JNum js_number | JStr string | JArr "jv list" | JObj "(string \<times> jv) list"

record runtime =
  text_of :: "jv \<Rightarrow> string"
  collation :: "string \<Rightarrow> nat list"
  digest :: "(string \<times> string) list \<Rightarrow> string"
  shell_preview :: "string list \<Rightarrow> string option \<Rightarrow> string option"
  display_fits :: "string \<Rightarrow> bool"

definition js_field :: "(string \<times> jv) list \<Rightarrow> string \<Rightarrow> jv" where
  "js_field m k = or_default (js_get m k) JUndefined"

definition js_String :: "runtime \<Rightarrow> jv \<Rightarrow> string" where
  "js_String R v = (case v of JStr s \<Rightarrow> s | _ \<Rightarrow> text_of R v)"

definition nullable_string :: "jv \<Rightarrow> string option" where
  "nullable_string v = (case v of JStr s \<Rightarrow> normalizeNullableString (Some s) | _ \<Rightarrow> None)"

definition normalizeNonEmptyString :: "jv \<Rightarrow> string option" where
  "normalizeNonEmptyString v = (case v of JStr s \<Rightarrow> normalizeOptionalString (Some s) | _ \<Rightarrow> None)"

definition normalizeStringArray :: "runtime \<Rightarrow> jv \<Rightarrow> string list" where
  "normalizeStringArray R v = (case v of JArr xs \<Rightarrow> map (js_String R) xs | _ \<Rightarrow> [])"

definition js_strings :: "string list \<Rightarrow> jv" where
  "js_strings xs = JArr (map JStr xs)"

definition opt_value :: "string option \<Rightarrow> jv" where
  "opt_value s = (case s of None \<Rightarrow> JNull | Some x \<Rightarrow> JStr x)"

text \<open>The truth value of a string that may be missing.\<close>

definition truthy_text :: "string option \<Rightarrow> bool" where
  "truthy_text s \<longleftrightarrow> (case s of None \<Rightarrow> False | Some x \<Rightarrow> x \<noteq> [])"

section \<open>Plans and bindings\<close>

record file_operand =
  fo_argvIndex :: rat
  fo_path :: string
  fo_sha256 :: string

record run_plan =
  pl_argv :: "string list"
  pl_cwd :: "string option"
  pl_commandText :: string
  pl_commandPreview :: "string option"
  pl_agentId :: "string option"
  pl_sessionKey :: "string option"
  pl_fileOperand :: "file_operand option"

record run_binding =
  bd_argv :: "string list"
  bd_cwd :: "string option"
  bd_agentId :: "string option"
  bd_sessionKey :: "string option"
  bd_envHash :: "string option"

text \<open>\<^const>\<open>None\<close> for \<^verbatim>\<open>undefined\<close>, \<open>Some None\<close> for \<^verbatim>\<open>null\<close>.\<close>

definition normalizeSystemRunApprovalFileOperand :: "jv \<Rightarrow> file_operand option option" where
  "normalizeSystemRunApprovalFileOperand v =
     (case v of
        JUndefined \<Rightarrow> None
      | JObj m \<Rightarrow>
          (let argvIndex = (case js_field m ''argvIndex'' of
                              JNum (Num q) \<Rightarrow> if of_int \<lfloor>q\<rfloor> = q \<and> 0 \<le> q then Some q else None
                            | _ \<Rightarrow> None);
               filePath = normalizeNonEmptyString (js_field m ''path'');
               sha256 = normalizeNonEmptyString (js_field m ''sha256'')
           in case (argvIndex, filePath, sha256) of
                (Some i, Some p, Some h) \<Rightarrow> Some (Some \<lparr>fo_argvIndex = i, fo_path = p, fo_sha256 = h\<rparr>)
              | _ \<Rightarrow> Some None)
      | _ \<Rightarrow> Some None)"

definition normalizeSystemRunApprovalPlan :: "runtime \<Rightarrow> jv \<Rightarrow> run_plan option" where
  "normalizeSystemRunApprovalPlan R v =
     (case v of
        JObj m \<Rightarrow>
          (let argv = normalizeStringArray R (js_field m ''argv'') in
           if argv = [] then None
           else
             (let operand = normalizeSystemRunApprovalFileOperand (js_field m ''mutableFileOperand'') in
              if js_field m ''mutableFileOperand'' \<noteq> JUndefined \<and> operand = Some None then None
              else
                (case or_else (normalizeNonEmptyString (js_field m ''commandText''))
                        (normalizeNonEmptyString (js_field m ''rawCommand'')) of
                   None \<Rightarrow> None
                 | Some commandText \<Rightarrow>
                     Some \<lparr>pl_argv = argv, pl_cwd = normalizeNonEmptyString (js_field m ''cwd''),
                           pl_commandText = commandText,
                           pl_commandPreview = normalizeNonEmptyString (js_field m ''commandPreview''),
                           pl_agentId = normalizeNonEmptyString (js_field m ''agentId''),
                           pl_sessionKey = normalizeNonEmptyString (js_field m ''sessionKey''),
                           pl_fileOperand = or_default operand None\<rparr>)))
      | _ \<Rightarrow> None)"

text \<open>A plan as the object it is at run time.\<close>

definition plan_value :: "run_plan \<Rightarrow> jv" where
  "plan_value p =
     JObj ([(''argv'', js_strings (pl_argv p)), (''cwd'', opt_value (pl_cwd p)), (''commandText'', JStr (pl_commandText p)),
            (''commandPreview'', opt_value (pl_commandPreview p)), (''agentId'', opt_value (pl_agentId p)),
            (''sessionKey'', opt_value (pl_sessionKey p))]
           @ (case pl_fileOperand p of
                None \<Rightarrow> []
              | Some f \<Rightarrow> [(''mutableFileOperand'',
                  JObj [(''argvIndex'', JNum (Num (fo_argvIndex f))), (''path'', JStr (fo_path f)), (''sha256'', JStr (fo_sha256 f))])]))"

definition key_start :: "char \<Rightarrow> bool" where
  "key_start c \<longleftrightarrow> (let n = (of_char c :: nat) in 65 \<le> n \<and> n \<le> 90 \<or> 97 \<le> n \<and> n \<le> 122 \<or> n = 95)"

definition key_char :: "char \<Rightarrow> bool" where
  "key_char c \<longleftrightarrow> key_start c \<or> (let n = (of_char c :: nat) in 48 \<le> n \<and> n \<le> 57)"

definition PORTABLE_ENV_VAR_KEY :: "string \<Rightarrow> bool" where
  "PORTABLE_ENV_VAR_KEY s = (case s of [] \<Rightarrow> False | c # cs \<Rightarrow> key_start c \<and> list_all key_char cs)"

definition WINDOWS_COMPAT_OVERRIDE_ENV_VAR_KEY :: "string \<Rightarrow> bool" where
  "WINDOWS_COMPAT_OVERRIDE_ENV_VAR_KEY s =
     (case s of [] \<Rightarrow> False | c # cs \<Rightarrow> key_start c \<and> list_all (\<lambda>x. key_char x \<or> x = CHR ''('' \<or> x = CHR '')'') cs)"

definition normalizeEnvVarKey :: "string \<Rightarrow> bool \<Rightarrow> string option" where
  "normalizeEnvVarKey rawKey portable =
     (let key = js_trim rawKey in
      if key = [] then None else if portable \<and> \<not> PORTABLE_ENV_VAR_KEY key then None else Some key)"

definition normalizeHostOverrideEnvVarKey :: "string \<Rightarrow> string option" where
  "normalizeHostOverrideEnvVarKey rawKey =
     (case normalizeEnvVarKey rawKey False of
        None \<Rightarrow> None
      | Some key \<Rightarrow> if PORTABLE_ENV_VAR_KEY key \<or> WINDOWS_COMPAT_OVERRIDE_ENV_VAR_KEY key then Some key else None)"

fun env_entries :: "(string \<times> jv) list \<Rightarrow> (string \<times> string) list" where
  "env_entries [] = []"
| "env_entries ((rawKey, v) # rest) =
     (case v of
        JStr x \<Rightarrow>
          (case normalizeHostOverrideEnvVarKey rawKey of None \<Rightarrow> env_entries rest | Some key \<Rightarrow> (key, x) # env_entries rest)
      | _ \<Rightarrow> env_entries rest)"

definition normalizeSystemRunEnvEntries :: "runtime \<Rightarrow> jv \<Rightarrow> (string \<times> string) list" where
  "normalizeSystemRunEnvEntries R env =
     (case env of JObj m \<Rightarrow> sort_key (\<lambda>(k, _). collation R k) (env_entries m) | _ \<Rightarrow> [])"

definition hashSystemRunEnvEntries :: "runtime \<Rightarrow> (string \<times> string) list \<Rightarrow> string option" where
  "hashSystemRunEnvEntries R es = (if es = [] then None else Some (digest R es))"

definition buildSystemRunApprovalEnvBinding :: "runtime \<Rightarrow> jv \<Rightarrow> string option \<times> string list" where
  "buildSystemRunApprovalEnvBinding R env =
     (let es = normalizeSystemRunEnvEntries R env in (hashSystemRunEnvEntries R es, map fst es))"

definition buildSystemRunApprovalBinding ::
  "runtime \<Rightarrow> jv \<Rightarrow> jv \<Rightarrow> jv \<Rightarrow> jv \<Rightarrow> jv \<Rightarrow> run_binding \<times> string list" where
  "buildSystemRunApprovalBinding R argv cwd agentId sessionKey env =
     (let (envHash, envKeys) = buildSystemRunApprovalEnvBinding R env
      in (\<lparr>bd_argv = normalizeStringArray R argv, bd_cwd = normalizeNonEmptyString cwd,
           bd_agentId = normalizeNonEmptyString agentId, bd_sessionKey = normalizeNonEmptyString sessionKey,
           bd_envHash = envHash\<rparr>, envKeys))"

section \<open>Matching\<close>

record guard_error =
  ge_message :: string
  ge_details :: "(string \<times> jv) list"

text \<open>\<^const>\<open>None\<close> for a match, otherwise the code, the message and the further details of the mismatch.\<close>

type_synonym match_result = "(string \<times> string \<times> (string \<times> jv) list) option"

definition requestMismatch :: "(string \<times> jv) list \<Rightarrow> match_result" where
  "requestMismatch details = Some (''APPROVAL_REQUEST_MISMATCH'', ''approval id does not match request'', details)"

definition argvMatches :: "string list \<Rightarrow> string list \<Rightarrow> bool" where
  "argvMatches expected actual \<longleftrightarrow>
     expected \<noteq> [] \<and> length expected = length actual \<and> list_all (\<lambda>(a, b). a = b) (zip expected actual)"

definition matchSystemRunApprovalEnvHash :: "string option \<Rightarrow> string option \<Rightarrow> string list \<Rightarrow> match_result" where
  "matchSystemRunApprovalEnvHash expected actual envKeys =
     (let missing = Some (''APPROVAL_ENV_BINDING_MISSING'', ''approval id missing env binding for requested env overrides'',
            [(''envKeys'', js_strings envKeys)])
      in if \<not> truthy_text expected \<and> \<not> truthy_text actual \<and> envKeys \<noteq> [] then missing
         else if \<not> truthy_text expected \<and> \<not> truthy_text actual then None
         else if \<not> truthy_text expected \<and> truthy_text actual then missing
         else if expected \<noteq> actual then
           Some (''APPROVAL_ENV_MISMATCH'', ''approval id env binding mismatch'',
             [(''envKeys'', js_strings envKeys), (''expectedEnvHash'', opt_value expected), (''actualEnvHash'', opt_value actual)])
         else None)"

definition matchSystemRunApprovalBinding :: "run_binding \<Rightarrow> run_binding \<Rightarrow> string list \<Rightarrow> match_result" where
  "matchSystemRunApprovalBinding expected actual envKeys =
     (if \<not> argvMatches (bd_argv expected) (bd_argv actual) then requestMismatch []
      else if bd_cwd expected \<noteq> bd_cwd actual then requestMismatch []
      else if bd_agentId expected \<noteq> bd_agentId actual then requestMismatch []
      else if bd_sessionKey expected \<noteq> bd_sessionKey actual then requestMismatch []
      else matchSystemRunApprovalEnvHash (bd_envHash expected) (bd_envHash actual) envKeys)"

definition toSystemRunApprovalMismatchError :: "string \<Rightarrow> string \<times> string \<times> (string \<times> jv) list \<Rightarrow> guard_error" where
  "toSystemRunApprovalMismatchError runId m =
     (case m of (code, message, details) \<Rightarrow>
        \<lparr>ge_message = message, ge_details = fold (\<lambda>(k, v). js_set k v) details [(''code'', JStr code), (''runId'', JStr runId)]\<rparr>)"

text \<open>The request of an approval, with the metadata of the client that made it.\<close>

record node_request =
  nr_host :: "string option"
  nr_nodeId :: "string option"
  nr_binding :: "run_binding option"
  nr_plan :: "run_plan option"
  nr_cwd :: "string option"
  nr_agentId :: "string option"
  nr_sessionKey :: "string option"
  nr_turnSourceChannel :: "string option"
  nr_turnSourceTo :: "string option"
  nr_turnSourceAccountId :: "string option"
  nr_turnSourceThreadId :: jv
  requestedByConnId :: "string option"
  requestedByDeviceId :: "string option"
  requestedByClientId :: "string option"
  requestedByDeviceTokenAuth :: bool

definition evaluateSystemRunApprovalMatch ::
  "runtime \<Rightarrow> string list \<Rightarrow> node_request \<Rightarrow> string option \<Rightarrow> string option \<Rightarrow> string option \<Rightarrow> jv \<Rightarrow> match_result" where
  "evaluateSystemRunApprovalMatch R argv req cwd agentId sessionKey env =
     (if nr_host req \<noteq> Some ''node'' then requestMismatch []
      else
        (let (actual, envKeys) =
               buildSystemRunApprovalBinding R (js_strings argv) (opt_value cwd) (opt_value agentId) (opt_value sessionKey) env
         in case nr_binding req of
              None \<Rightarrow> requestMismatch [(''envKeys'', js_strings envKeys)]
            | Some expected \<Rightarrow> matchSystemRunApprovalBinding expected actual envKeys))"

section \<open>Commands\<close>

definition quote_text :: "string \<Rightarrow> string" where
  "quote_text s = concat (map (\<lambda>c. if c = CHR 0x22 then [CHR 0x5C, CHR 0x22] else [c]) s)"

definition formatExecCommand :: "string list \<Rightarrow> string" where
  "formatExecCommand argv =
     js_join '' '' (map (\<lambda>arg. if arg = [] then [CHR 0x22, CHR 0x22]
        else if \<exists>c \<in> set arg. is_js_space c \<or> c = CHR 0x22 then [CHR 0x22] @ quote_text arg @ [CHR 0x22] else arg) argv)"

definition normalizeRawCommandText :: "jv \<Rightarrow> string option" where
  "normalizeRawCommandText v = (case v of JStr s \<Rightarrow> if js_trim s = [] then None else Some (js_trim s) | _ \<Rightarrow> None)"

text \<open>A raw text must be the command's own text or, in the lenient mode, the text of the shell script the command wraps.\<close>

definition validateSystemRunCommandConsistency :: "runtime \<Rightarrow> string list \<Rightarrow> string option \<Rightarrow> bool \<Rightarrow> guard_error + string" where
  "validateSystemRunCommandConsistency R argv rawCommand allowLegacyShellText =
     (let raw = Option.bind rawCommand (\<lambda>s. normalizeRawCommandText (JStr s)); text = formatExecCommand argv
      in case raw of
           None \<Rightarrow> Inr text
         | Some r \<Rightarrow>
             (let matchesCanonicalArgv = (r = text);
                  matchesLegacyShellText = (allowLegacyShellText \<and> shell_preview R argv raw = Some r)
              in if \<not> matchesCanonicalArgv \<and> \<not> matchesLegacyShellText then
                   Inl \<lparr>ge_message = ''INVALID_REQUEST: rawCommand does not match command'',
                        ge_details = [(''code'', JStr ''RAW_COMMAND_MISMATCH''), (''rawCommand'', JStr r), (''inferred'', JStr text),
                                      (''formattedArgv'', JStr text)]\<rparr>
                 else Inr text))"

text \<open>The arguments of a command and its text.\<close>

definition resolveSystemRunCommandWithMode :: "runtime \<Rightarrow> jv \<Rightarrow> jv \<Rightarrow> bool \<Rightarrow> guard_error + string list \<times> string" where
  "resolveSystemRunCommandWithMode R command rawCommand allowLegacyShellText =
     (let raw = normalizeRawCommandText rawCommand;
          items = (case command of JArr xs \<Rightarrow> xs | _ \<Rightarrow> [])
      in if items = [] then
           (if raw \<noteq> None then Inl \<lparr>ge_message = ''rawCommand requires params.command'', ge_details = [(''code'', JStr ''MISSING_COMMAND'')]\<rparr>
            else Inr ([], []))
         else
           (let argv = map (js_String R) items
            in case validateSystemRunCommandConsistency R argv raw allowLegacyShellText of
                 Inl e \<Rightarrow> Inl e
               | Inr text \<Rightarrow> Inr (argv, text)))"

definition resolveSystemRunCommand :: "runtime \<Rightarrow> jv \<Rightarrow> jv \<Rightarrow> guard_error + string list \<times> string" where
  "resolveSystemRunCommand R command rawCommand = resolveSystemRunCommandWithMode R command rawCommand False"

definition resolveSystemRunCommandRequest :: "runtime \<Rightarrow> jv \<Rightarrow> jv \<Rightarrow> guard_error + string list \<times> string" where
  "resolveSystemRunCommandRequest R command rawCommand = resolveSystemRunCommandWithMode R command rawCommand True"

record runtime_context =
  rc_plan :: "run_plan option"
  rc_argv :: "string list"
  rc_cwd :: "string option"
  rc_agentId :: "string option"
  rc_sessionKey :: "string option"
  rc_commandText :: string

definition resolveSystemRunApprovalRuntimeContext ::
  "runtime \<Rightarrow> jv \<Rightarrow> (string \<times> jv) list \<Rightarrow> guard_error + runtime_context" where
  "resolveSystemRunApprovalRuntimeContext R plan p =
     (case normalizeSystemRunApprovalPlan R plan of
        Some n \<Rightarrow>
          Inr \<lparr>rc_plan = Some n, rc_argv = pl_argv n, rc_cwd = pl_cwd n, rc_agentId = pl_agentId n,
               rc_sessionKey = pl_sessionKey n, rc_commandText = pl_commandText n\<rparr>
      | None \<Rightarrow>
          (case resolveSystemRunCommandRequest R (js_field p ''command'') (js_field p ''rawCommand'') of
             Inl e \<Rightarrow> Inl e
           | Inr (argv, text) \<Rightarrow>
               Inr \<lparr>rc_plan = None, rc_argv = argv, rc_cwd = normalizeNonEmptyString (js_field p ''cwd''),
                    rc_agentId = normalizeNonEmptyString (js_field p ''agentId''),
                    rc_sessionKey = normalizeNonEmptyString (js_field p ''sessionKey''), rc_commandText = text\<rparr>))"

section \<open>What a node prepared\<close>

text \<open>The answer of a node that prepared a run: the plan, in the present or the old form, and the node's own policy.\<close>

record allow_coverage =
  ac_complete :: bool
  ac_patterns :: "(string \<times> string option) list"

record prepared_run =
  pp_plan :: run_plan
  pp_execPolicy :: "(string \<times> string) option"
  pp_coverage :: "allow_coverage option"

definition normalizePreparedRunExecPolicy :: "jv \<Rightarrow> (string \<times> string) option" where
  "normalizePreparedRunExecPolicy v =
     (case v of
        JObj m \<Rightarrow>
          (case (js_field m ''security'', js_field m ''ask'') of
             (JStr security, JStr ask) \<Rightarrow>
               if security \<in> {''deny'', ''allowlist'', ''full''} \<and> ask \<in> {''off'', ''on-miss'', ''always''} then Some (security, ask) else None
           | _ \<Rightarrow> None)
      | _ \<Rightarrow> None)"

fun coverage_patterns :: "jv list \<Rightarrow> (string \<times> string option) list" where
  "coverage_patterns [] = []"
| "coverage_patterns (entry # rest) =
     (case entry of
        JObj m \<Rightarrow>
          (case normalizeNonEmptyString (js_field m ''pattern'') of
             None \<Rightarrow> coverage_patterns rest
           | Some pattern \<Rightarrow> (pattern, normalizeNonEmptyString (js_field m ''argPattern'')) # coverage_patterns rest)
      | _ \<Rightarrow> coverage_patterns rest)"

definition normalizeAllowAlwaysCoverage :: "jv \<Rightarrow> allow_coverage option" where
  "normalizeAllowAlwaysCoverage v =
     (case v of
        JObj m \<Rightarrow>
          (case js_field m ''patterns'' of
             JArr xs \<Rightarrow> Some \<lparr>ac_complete = (js_field m ''complete'' = JBool True), ac_patterns = coverage_patterns xs\<rparr>
           | _ \<Rightarrow> None)
      | _ \<Rightarrow> None)"

definition parsePreparedSystemRunPayload :: "runtime \<Rightarrow> jv \<Rightarrow> prepared_run option" where
  "parsePreparedSystemRunPayload R payload =
     (case payload of
        JObj raw \<Rightarrow>
          (let execPolicy = normalizePreparedRunExecPolicy (js_field raw ''execPolicy'');
               coverage = normalizeAllowAlwaysCoverage (js_field raw ''allowAlwaysCoverage'')
           in case normalizeSystemRunApprovalPlan R (js_field raw ''plan'') of
                Some plan \<Rightarrow> Some \<lparr>pp_plan = plan, pp_execPolicy = execPolicy, pp_coverage = coverage\<rparr>
              | None \<Rightarrow>
                  (case js_field raw ''plan'' of
                     JObj legacyPlan \<Rightarrow>
                       (let argv = normalizeStringArray R (js_field legacyPlan ''argv'')
                        in case or_else (normalizeNonEmptyString (js_field legacyPlan ''rawCommand''))
                                  (or_else (normalizeNonEmptyString (js_field raw ''commandText''))
                                           (normalizeNonEmptyString (js_field raw ''cmdText''))) of
                             None \<Rightarrow> None
                           | Some commandText \<Rightarrow>
                               if argv = [] then None
                               else Some \<lparr>pp_plan = \<lparr>pl_argv = argv, pl_cwd = normalizeNonEmptyString (js_field legacyPlan ''cwd''),
                                      pl_commandText = commandText,
                                      pl_commandPreview = normalizeNonEmptyString (js_field legacyPlan ''commandPreview''),
                                      pl_agentId = normalizeNonEmptyString (js_field legacyPlan ''agentId''),
                                      pl_sessionKey = normalizeNonEmptyString (js_field legacyPlan ''sessionKey''),
                                      pl_fileOperand = None\<rparr>,
                                    pp_execPolicy = execPolicy, pp_coverage = coverage\<rparr>)
                   | _ \<Rightarrow> None))
      | _ \<Rightarrow> None)"

section \<open>Recording the request\<close>

record request_context =
  cx_plan :: "run_plan option"
  cx_commandArgv :: "string list option"
  cx_commandText :: string
  cx_commandPreview :: "string option"
  cx_cwd :: "string option"
  cx_agentId :: "string option"
  cx_sessionKey :: "string option"

definition normalizeCommandText :: "jv \<Rightarrow> string" where
  "normalizeCommandText v = (case v of JStr s \<Rightarrow> s | _ \<Rightarrow> [])"

definition normalizeCommandPreview :: "jv \<Rightarrow> string \<Rightarrow> string option" where
  "normalizeCommandPreview v authoritative =
     (case normalizeNonEmptyString v of None \<Rightarrow> None | Some preview \<Rightarrow> if preview = authoritative then None else Some preview)"

definition resolveSystemRunApprovalRequestContext :: "runtime \<Rightarrow> (string \<times> jv) list \<Rightarrow> request_context" where
  "resolveSystemRunApprovalRequestContext R p =
     (let host = or_default (normalizeNonEmptyString (js_field p ''host'')) [];
          normalizedPlan = (if host = ''node'' then normalizeSystemRunApprovalPlan R (js_field p ''systemRunPlan'') else None);
          fallbackArgv = normalizeStringArray R (js_field p ''commandArgv'');
          fallbackCommand = normalizeCommandText (js_field p ''command'');
          commandText = (case normalizedPlan of
                           Some n \<Rightarrow> if pl_commandText n = [] then formatExecCommand (pl_argv n) else pl_commandText n
                         | None \<Rightarrow> fallbackCommand);
          commandPreview = (case normalizedPlan of
                              Some n \<Rightarrow> normalizeCommandPreview
                                (case pl_commandPreview n of Some v \<Rightarrow> JStr v | None \<Rightarrow> JStr fallbackCommand) commandText
                            | None \<Rightarrow> None);
          plan = map_option (\<lambda>n. n\<lparr>pl_commandPreview := commandPreview\<rparr>) normalizedPlan
      in \<lparr>cx_plan = plan,
          cx_commandArgv = (case plan of Some n \<Rightarrow> Some (pl_argv n) | None \<Rightarrow> if fallbackArgv = [] then None else Some fallbackArgv),
          cx_commandText = commandText, cx_commandPreview = commandPreview,
          cx_cwd = or_else (Option.bind plan pl_cwd) (normalizeNonEmptyString (js_field p ''cwd'')),
          cx_agentId = or_else (Option.bind plan pl_agentId) (normalizeNonEmptyString (js_field p ''agentId'')),
          cx_sessionKey = or_else (Option.bind plan pl_sessionKey) (normalizeNonEmptyString (js_field p ''sessionKey''))\<rparr>)"

record approval_client =
  cl_connId :: "string option"
  cl_deviceTokenAuth :: bool
  cl_scopes :: "string list option"
  cl_id :: "string option"
  cl_mode :: "string option"
  cl_deviceId :: "string option"

definition RESERVED_PLUGIN_APPROVAL_ID_PREFIX :: string where "RESERVED_PLUGIN_APPROVAL_ID_PREFIX = ''plugin:''"

text \<open>The client's metadata, which the gateway puts on a new record.\<close>

definition bindApprovalRequesterMetadata :: "approval_client option \<Rightarrow> node_request \<Rightarrow> node_request" where
  "bindApprovalRequesterMetadata client req =
     req\<lparr>requestedByConnId := Option.bind client cl_connId, requestedByDeviceId := Option.bind client cl_deviceId,
         requestedByClientId := Option.bind client cl_id,
         requestedByDeviceTokenAuth := (case client of None \<Rightarrow> False | Some c \<Rightarrow> cl_deviceTokenAuth c)\<rparr>"

text \<open>The payload of a record, without the fields that are only displayed.\<close>

definition approval_payload :: "runtime \<Rightarrow> (string \<times> jv) list \<Rightarrow> string \<Rightarrow> string \<Rightarrow> request_context \<Rightarrow> node_request" where
  "approval_payload R p host nodeId cx =
     \<lparr>nr_host = (if host = [] then None else Some host), nr_nodeId = (if host = ''node'' then Some nodeId else None),
      nr_binding = (if host = ''node''
        then Some (fst (buildSystemRunApprovalBinding R
               (case cx_commandArgv cx of Some xs \<Rightarrow> js_strings xs | None \<Rightarrow> JUndefined) (opt_value (cx_cwd cx))
               (opt_value (cx_agentId cx)) (opt_value (cx_sessionKey cx)) (js_field p ''env'')))
        else None),
      nr_plan = cx_plan cx, nr_cwd = cx_cwd cx, nr_agentId = cx_agentId cx, nr_sessionKey = cx_sessionKey cx,
      nr_turnSourceChannel = normalizeNonEmptyString (js_field p ''turnSourceChannel''),
      nr_turnSourceTo = normalizeNonEmptyString (js_field p ''turnSourceTo''),
      nr_turnSourceAccountId = normalizeNonEmptyString (js_field p ''turnSourceAccountId''),
      nr_turnSourceThreadId = (case js_field p ''turnSourceThreadId'' of JUndefined \<Rightarrow> JNull | v \<Rightarrow> v),
      requestedByConnId = None, requestedByDeviceId = None, requestedByClientId = None, requestedByDeviceTokenAuth = False\<rparr>"

text \<open>The guards of the handler of approval requests, and the request it stores: the refusal, or the payload.  The test whether a
  command is too long to be shown is a parameter.\<close>

definition node_approval_request ::
  "runtime \<Rightarrow> (string \<times> jv) list \<Rightarrow> approval_client option \<Rightarrow> node_request approvals \<Rightarrow> string + node_request" where
  "node_approval_request R p client s =
     (let explicitId = normalizeNonEmptyString (js_field p ''id'');
          host = or_default (normalizeNonEmptyString (js_field p ''host'')) [];
          nodeId = or_default (normalizeNonEmptyString (js_field p ''nodeId'')) [];
          cx = resolveSystemRunApprovalRequestContext R p
      in if host = ''node'' \<and> nodeId = [] then Inl ''nodeId is required for host=node''
         else if host = ''node'' \<and> cx_plan cx = None then Inl ''systemRunPlan is required for host=node''
         else if js_trim (cx_commandText cx) = [] then Inl ''command is required''
         else if (case explicitId of None \<Rightarrow> False | Some k \<Rightarrow> starts_with k RESERVED_PLUGIN_APPROVAL_ID_PREFIX) then
           Inl ''approval ids starting with plugin: are reserved''
         else if host = ''node'' \<and> or_default (cx_commandArgv cx) [] = [] then Inl ''commandArgv is required for host=node''
         else if \<not> display_fits R (cx_commandText cx) then Inl ''command exceeds exec approval display limit''
         else if (case explicitId of None \<Rightarrow> False | Some k \<Rightarrow> getSnapshot k s \<noteq> None) then Inl ''approval id already pending''
         else Inr (bindApprovalRequesterMetadata client (approval_payload R p host nodeId cx)))"

section \<open>Who may use an approval\<close>

definition normalizeApprovalDecision :: "jv \<Rightarrow> string option" where
  "normalizeApprovalDecision v =
     (case nullable_string v of
        Some s \<Rightarrow> if s = ''allow-once'' \<or> s = ''allow-always'' then Some s else None
      | None \<Rightarrow> None)"

definition clientHasApprovals :: "approval_client option \<Rightarrow> bool" where
  "clientHasApprovals client \<longleftrightarrow>
     (let scopes = or_default (Option.bind client cl_scopes) []
      in ''operator.admin'' \<in> set scopes \<or> ''operator.approvals'' \<in> set scopes)"

definition isTrustedBackendApprovalClient :: "approval_client option \<Rightarrow> bool" where
  "isTrustedBackendApprovalClient client \<longleftrightarrow>
     clientHasApprovals client
     \<and> (case client of
          None \<Rightarrow> False
        | Some c \<Rightarrow> cl_id c = Some ''gateway-client'' \<and> cl_mode c = Some ''backend'' \<and> \<not> cl_deviceTokenAuth c)"

definition normalizeComparableString :: "runtime \<Rightarrow> jv \<Rightarrow> bool \<Rightarrow> string option" where
  "normalizeComparableString R v lowercase =
     (let normalized = (case v of JNum (Num q) \<Rightarrow> Some (text_of R v) | _ \<Rightarrow> nullable_string v)
      in if \<not> truthy_text normalized then None
         else if lowercase then map_option js_lower normalized else normalized)"

definition hasChatApprovalReplayBinding :: "runtime \<Rightarrow> node_request \<Rightarrow> bool" where
  "hasChatApprovalReplayBinding R req \<longleftrightarrow>
     normalizeComparableString R (opt_value (nr_turnSourceChannel req)) True \<noteq> None
     \<or> normalizeComparableString R (opt_value (nr_turnSourceTo req)) False \<noteq> None
     \<or> normalizeComparableString R (opt_value (nr_turnSourceAccountId req)) False \<noteq> None
     \<or> normalizeComparableString R (nr_turnSourceThreadId req) False \<noteq> None"

definition BACKEND_BRIDGEABLE_NO_DEVICE_REQUEST_CLIENT_IDS :: "string list" where
  "BACKEND_BRIDGEABLE_NO_DEVICE_REQUEST_CLIENT_IDS = [''openclaw-control-ui'', ''webchat-ui'', ''webchat'', ''gateway-client'']"

definition canBridgeNoDeviceApprovalFromBackend :: "runtime \<Rightarrow> node_request \<Rightarrow> approval_client option \<Rightarrow> bool" where
  "canBridgeNoDeviceApprovalFromBackend R req client \<longleftrightarrow>
     requestedByDeviceId req = None \<and> \<not> requestedByDeviceTokenAuth req \<and> \<not> hasChatApprovalReplayBinding R req
     \<and> (case normalizeNullableString (requestedByClientId req) of
          None \<Rightarrow> False
        | Some c \<Rightarrow> c \<in> set BACKEND_BRIDGEABLE_NO_DEVICE_REQUEST_CLIENT_IDS)
     \<and> isTrustedBackendApprovalClient client"

definition matchesRequiredString :: "runtime \<Rightarrow> jv \<Rightarrow> jv \<Rightarrow> bool \<Rightarrow> bool" where
  "matchesRequiredString R expected actual lowercase \<longleftrightarrow>
     (case normalizeComparableString R expected lowercase of
        None \<Rightarrow> False | Some e \<Rightarrow> normalizeComparableString R actual lowercase = Some e)"

definition matchesOptionalString :: "runtime \<Rightarrow> jv \<Rightarrow> jv \<Rightarrow> bool \<Rightarrow> bool" where
  "matchesOptionalString R expected actual lowercase \<longleftrightarrow>
     (case normalizeComparableString R expected lowercase of
        None \<Rightarrow> True | Some e \<Rightarrow> normalizeComparableString R actual lowercase = Some e)"

definition canBridgeNoDeviceChatApprovalFromBackend ::
  "runtime \<Rightarrow> node_request \<Rightarrow> (string \<times> jv) list \<Rightarrow> approval_client option \<Rightarrow> bool" where
  "canBridgeNoDeviceChatApprovalFromBackend R req p client \<longleftrightarrow>
     (if requestedByDeviceId req \<noteq> None \<or> requestedByDeviceTokenAuth req \<or> \<not> isTrustedBackendApprovalClient client then False
      else
        matchesRequiredString R (opt_value (nr_turnSourceChannel req)) (js_field p ''turnSourceChannel'') True
        \<and> matchesOptionalString R (opt_value (nr_turnSourceTo req)) (js_field p ''turnSourceTo'') False
        \<and> matchesRequiredString R (opt_value (or_else (Option.bind (nr_plan req) pl_sessionKey) (nr_sessionKey req)))
            (js_field p ''sessionKey'') False
        \<and> matchesOptionalString R (opt_value (or_else (Option.bind (nr_plan req) pl_agentId) (nr_agentId req)))
            (js_field p ''agentId'') False
        \<and> matchesOptionalString R (opt_value (nr_turnSourceAccountId req)) (js_field p ''turnSourceAccountId'') False
        \<and> matchesOptionalString R (nr_turnSourceThreadId req) (js_field p ''turnSourceThreadId'') False)"

section \<open>The gate\<close>

definition FORWARDED_KEYS :: "string list" where
  "FORWARDED_KEYS =
     [''command'', ''rawCommand'', ''systemRunPlan'', ''cwd'', ''env'', ''timeoutMs'', ''needsScreenRecording'', ''agentId'',
      ''sessionKey'', ''runId'', ''suppressNotifyOnExit'']"

definition pickSystemRunParams :: "(string \<times> jv) list \<Rightarrow> (string \<times> jv) list" where
  "pickSystemRunParams raw =
     fold (\<lambda>key next. case js_get raw key of None \<Rightarrow> next | Some v \<Rightarrow> js_set key v next) FORWARDED_KEYS []"

definition systemRunApprovalGuardError :: "string \<Rightarrow> string \<Rightarrow> (string \<times> jv) list \<Rightarrow> guard_error" where
  "systemRunApprovalGuardError code message details =
     \<lparr>ge_message = message, ge_details = fold (\<lambda>(k, v). js_set k v) details [(''code'', JStr code)]\<rparr>"

definition systemRunApprovalRequired :: "string \<Rightarrow> guard_error" where
  "systemRunApprovalRequired runId =
     systemRunApprovalGuardError ''APPROVAL_REQUIRED'' ''approval required'' [(''runId'', JStr runId)]"

type_synonym approval_snapshot = "node_request approval_record"

text \<open>The checks of the record against the target and the client, up to the first that fails.\<close>

definition snapshot_refusal ::
  "runtime \<Rightarrow> int \<Rightarrow> string option \<Rightarrow> string \<Rightarrow> (string \<times> jv) list \<Rightarrow> approval_client option \<Rightarrow> approval_snapshot \<Rightarrow> guard_error option" where
  "snapshot_refusal R now nodeId runId p client snapshot =
     (let refuse = (\<lambda>code message. Some (systemRunApprovalGuardError code message [(''runId'', JStr runId)]));
          req = request snapshot
      in if js_less (expiresAtMs snapshot) (Num (of_int now)) then refuse ''APPROVAL_EXPIRED'' ''approval expired''
         else
           (case normalizeNullableString nodeId of
              None \<Rightarrow> refuse ''MISSING_NODE_ID'' ''node.invoke requires nodeId''
            | Some target \<Rightarrow>
                (case normalizeNullableString (nr_nodeId req) of
                   None \<Rightarrow> refuse ''APPROVAL_NODE_BINDING_MISSING'' ''approval id missing node binding''
                 | Some bound \<Rightarrow>
                     if bound \<noteq> target then refuse ''APPROVAL_NODE_MISMATCH'' ''approval id not valid for this node''
                     else if truthy_text (requestedByDeviceId req) then
                       (if requestedByDeviceId req \<noteq> Option.bind client cl_deviceId
                        then refuse ''APPROVAL_DEVICE_MISMATCH'' ''approval id not valid for this device'' else None)
                     else if truthy_text (requestedByConnId req) \<and> requestedByConnId req \<noteq> Option.bind client cl_connId
                          \<and> \<not> canBridgeNoDeviceApprovalFromBackend R req client
                          \<and> \<not> canBridgeNoDeviceChatApprovalFromBackend R req p client
                     then refuse ''APPROVAL_CLIENT_MISMATCH'' ''approval id not valid for this client''
                     else None)))"

definition set_or_drop :: "string \<Rightarrow> string option \<Rightarrow> (string \<times> jv) list \<Rightarrow> (string \<times> jv) list" where
  "set_or_drop k v m = (case v of Some x \<Rightarrow> js_set k (JStr x) m | None \<Rightarrow> js_delete k m)"

text \<open>With a plan the fields of the request are replaced by those of the approved plan.\<close>

definition apply_plan :: "runtime_context \<Rightarrow> (string \<times> jv) list \<Rightarrow> (string \<times> jv) list" where
  "apply_plan cx next =
     (case rc_plan cx of
        None \<Rightarrow> next
      | Some n \<Rightarrow>
          set_or_drop ''sessionKey'' (rc_sessionKey cx)
            (set_or_drop ''agentId'' (rc_agentId cx)
              (set_or_drop ''cwd'' (rc_cwd cx)
                (set_or_drop ''rawCommand'' (if rc_commandText cx = [] then None else Some (rc_commandText cx))
                  (js_set ''systemRunPlan'' (plan_value n) (js_set ''command'' (js_strings (pl_argv n)) next))))))"

definition approve :: "string \<Rightarrow> (string \<times> jv) list \<Rightarrow> (string \<times> jv) list" where
  "approve d next = js_set ''approvalDecision'' (JStr d) (js_set ''approved'' (JBool True) next)"

type_synonym node_approvals = "node_request approvals"

text \<open>The decision on record.  A one-time approval is consumed; one that timed out lets a client with the approvals scope
  fall back to a single run.\<close>

definition enforce_decision ::
  "string \<Rightarrow> bool \<Rightarrow> string option \<Rightarrow> approval_client option \<Rightarrow> approval_snapshot \<Rightarrow> (string \<times> jv) list \<Rightarrow> node_approvals
   \<Rightarrow> (guard_error + jv) \<times> node_approvals" where
  "enforce_decision runId approved requested client snapshot next s =
     (if decision snapshot = Some AllowOnce then
        (case consumeAllowOnce runId s of
           (False, s') \<Rightarrow> (Inl (systemRunApprovalRequired runId), s')
         | (True, s') \<Rightarrow> (Inr (JObj (approve ''allow-once'' next)), s'))
      else if decision snapshot = Some AllowAlways then (Inr (JObj (approve ''allow-always'' next)), s)
      else
        (let timedOut = (resolvedAtMs snapshot \<noteq> None \<and> decision snapshot = None \<and> resolvedBy snapshot = None)
         in if timedOut \<and> approved \<and> requested = Some ''allow-once'' \<and> clientHasApprovals client
            then (Inr (JObj (approve ''allow-once'' next)), s)
            else (Inl (systemRunApprovalRequired runId), s)))"

definition sanitizeSystemRunParamsForForwarding ::
  "runtime \<Rightarrow> int \<Rightarrow> string option \<Rightarrow> jv \<Rightarrow> approval_client option \<Rightarrow> node_approvals option
   \<Rightarrow> (guard_error + jv) \<times> node_approvals option" where
  "sanitizeSystemRunParamsForForwarding R now nodeId rawParams client manager =
     (case rawParams of
        JObj p \<Rightarrow>
          (let approved = (js_field p ''approved'' = JBool True);
               requested = normalizeApprovalDecision (js_field p ''approvalDecision'');
               next = pickSystemRunParams p
           in if \<not> (approved \<or> requested \<noteq> None) then
                (case resolveSystemRunCommandRequest R (js_field p ''command'') (js_field p ''rawCommand'') of
                   Inl e \<Rightarrow> (Inl e, manager) | Inr _ \<Rightarrow> (Inr (JObj next), manager))
              else
                (case nullable_string (js_field p ''runId'') of
                   None \<Rightarrow> (Inl (systemRunApprovalGuardError ''MISSING_RUN_ID'' ''approval override requires params.runId'' []), manager)
                 | Some runId \<Rightarrow>
                     (case manager of
                        None \<Rightarrow> (Inl (systemRunApprovalGuardError ''APPROVALS_UNAVAILABLE'' ''exec approvals unavailable'' []), manager)
                      | Some s \<Rightarrow>
                          (case getSnapshot runId s of
                             None \<Rightarrow> (Inl (systemRunApprovalGuardError ''UNKNOWN_APPROVAL_ID'' ''unknown or expired approval id''
                                       [(''runId'', JStr runId)]), manager)
                           | Some snapshot \<Rightarrow>
                               (case snapshot_refusal R now nodeId runId p client snapshot of
                                  Some e \<Rightarrow> (Inl e, manager)
                                | None \<Rightarrow>
                                    (case resolveSystemRunApprovalRuntimeContext R
                                            (case nr_plan (request snapshot) of Some n \<Rightarrow> plan_value n | None \<Rightarrow> JNull) p of
                                       Inl e \<Rightarrow> (Inl e, manager)
                                     | Inr cx \<Rightarrow>
                                         (case evaluateSystemRunApprovalMatch R (rc_argv cx) (request snapshot) (rc_cwd cx)
                                                 (rc_agentId cx) (rc_sessionKey cx) (js_field p ''env'') of
                                            Some m \<Rightarrow> (Inl (toSystemRunApprovalMismatchError runId m), manager)
                                          | None \<Rightarrow>
                                              (let (r, s') = enforce_decision runId approved requested client snapshot
                                                               (apply_plan cx next) s
                                               in (r, Some s')))))))))
      | _ \<Rightarrow> (Inr rawParams, manager))"

definition sanitizeNodeInvokeParamsForForwarding ::
  "runtime \<Rightarrow> int \<Rightarrow> string \<Rightarrow> string \<Rightarrow> jv \<Rightarrow> approval_client option \<Rightarrow> node_approvals option
   \<Rightarrow> (guard_error + jv) \<times> node_approvals option" where
  "sanitizeNodeInvokeParamsForForwarding R now nodeId command rawParams client manager =
     (if command = ''system.run''
      then sanitizeSystemRunParamsForForwarding R now (Some nodeId) rawParams client manager
      else (Inr rawParams, manager))"

end
