(* ===== verification/SystemRunGuardProps.thy ===== *)
theory SystemRunGuardProps
  imports SystemRunGuard ExecApprovalProps
begin

text \<open>
  The guarantees of the gate in front of \<^verbatim>\<open>system.run\<close>: what a forwarded approval rests on, that the command a node gets is
  the one the operator saw, and that over any history of approvals and invocations in which whoever decides has a name a
  one-time approval runs once and a denied one never.
\<close>

section \<open>Picking and replacing fields\<close>

lemma fold_pick:
  "js_get (fold (\<lambda>key next. case js_get raw key of None \<Rightarrow> next | Some v \<Rightarrow> js_set key v next) ks next) k =
     (if k \<in> set ks \<and> js_get raw k \<noteq> None then js_get raw k else js_get next k)"
proof (induction ks arbitrary: "next")
  case (Cons key ks)
  then show ?case by (cases "js_get raw key") auto
qed simp

lemma get_pick: "js_get (pickSystemRunParams raw) k = (if k \<in> set FORWARDED_KEYS then js_get raw k else None)"
  by (simp add: pickSystemRunParams_def fold_pick)

lemma get_set_or_drop: "js_get (set_or_drop k v m) k' = (if k' = k then map_option JStr v else js_get m k')"
  by (simp add: set_or_drop_def split: option.split)

lemma get_apply_plan:
  "js_get (apply_plan cx m) k =
     (case rc_plan cx of
        None \<Rightarrow> js_get m k
      | Some n \<Rightarrow>
          if k = ''sessionKey'' then map_option JStr (rc_sessionKey cx)
          else if k = ''agentId'' then map_option JStr (rc_agentId cx)
          else if k = ''cwd'' then map_option JStr (rc_cwd cx)
          else if k = ''rawCommand'' then (if rc_commandText cx = [] then None else Some (JStr (rc_commandText cx)))
          else if k = ''systemRunPlan'' then Some (plan_value n)
          else if k = ''command'' then Some (js_strings (pl_argv n))
          else js_get m k)"
  by (simp add: apply_plan_def get_set_or_drop split: option.split)

lemma get_approve:
  "js_get (approve d m) k =
     (if k = ''approvalDecision'' then Some (JStr d) else if k = ''approved'' then Some (JBool True) else js_get m k)"
  by (simp add: approve_def)

section \<open>Plans\<close>

lemma strings_of_strings [simp]: "normalizeStringArray R (js_strings xs) = xs"
  by (simp add: normalizeStringArray_def js_strings_def js_String_def comp_def)

lemma text_of_opt_value [simp]: "normalizeNonEmptyString (opt_value s) = Option.bind s (\<lambda>x. normalizeOptionalString (Some x))"
  by (simp add: normalizeNonEmptyString_def opt_value_def split: option.split)

definition clean_text :: "string option \<Rightarrow> bool" where
  "clean_text s \<longleftrightarrow> (case s of None \<Rightarrow> True | Some x \<Rightarrow> x \<noteq> [] \<and> js_trim x = x)"

lemma clean_nonempty [simp]: "clean_text (normalizeNonEmptyString v)"
  by (auto simp: clean_text_def normalizeNonEmptyString_def normalizeOptionalString_def normalizeNullableString_def Let_def split: jv.split)

lemma clean_reread: "clean_text s \<Longrightarrow> Option.bind s (\<lambda>x. normalizeOptionalString (Some x)) = s"
  by (cases s) (simp_all add: clean_text_def normalizeOptionalString_def normalizeNullableString_def Let_def)

lemma clean_reread_Some: "clean_text (Some x) \<Longrightarrow> normalizeNonEmptyString (JStr x) = Some x"
  by (simp add: clean_text_def normalizeNonEmptyString_def normalizeOptionalString_def normalizeNullableString_def Let_def)

lemma clean_or_else: "clean_text a \<Longrightarrow> clean_text b \<Longrightarrow> clean_text (or_else a b)"
  by (cases a) simp_all

definition wf_operand :: "file_operand \<Rightarrow> bool" where
  "wf_operand f \<longleftrightarrow> of_int \<lfloor>fo_argvIndex f\<rfloor> = fo_argvIndex f \<and> 0 \<le> fo_argvIndex f
     \<and> clean_text (Some (fo_path f)) \<and> clean_text (Some (fo_sha256 f))"

definition wf_plan :: "run_plan \<Rightarrow> bool" where
  "wf_plan n \<longleftrightarrow> pl_argv n \<noteq> [] \<and> clean_text (pl_cwd n) \<and> clean_text (Some (pl_commandText n))
     \<and> clean_text (pl_commandPreview n) \<and> clean_text (pl_agentId n) \<and> clean_text (pl_sessionKey n)
     \<and> (case pl_fileOperand n of None \<Rightarrow> True | Some f \<Rightarrow> wf_operand f)"

lemma nonempty_clean: "normalizeNonEmptyString v = Some x \<Longrightarrow> clean_text (Some x)"
  by (metis clean_nonempty)

lemma operand_wf: "normalizeSystemRunApprovalFileOperand v = Some (Some f) \<Longrightarrow> wf_operand f"
  by (auto simp: normalizeSystemRunApprovalFileOperand_def wf_operand_def Let_def nonempty_clean
      split: jv.splits js_number.splits option.splits if_splits)

lemma plan_wf:
  assumes "normalizeSystemRunApprovalPlan R v = Some n"
  shows "wf_plan n"
proof -
  obtain m cmd where m: "v = JObj m" "normalizeStringArray R (js_field m ''argv'') \<noteq> []"
    and cmd: "or_else (normalizeNonEmptyString (js_field m ''commandText''))
                 (normalizeNonEmptyString (js_field m ''rawCommand'')) = Some cmd"
    and n: "n = \<lparr>pl_argv = normalizeStringArray R (js_field m ''argv''), pl_cwd = normalizeNonEmptyString (js_field m ''cwd''),
                 pl_commandText = cmd, pl_commandPreview = normalizeNonEmptyString (js_field m ''commandPreview''),
                 pl_agentId = normalizeNonEmptyString (js_field m ''agentId''),
                 pl_sessionKey = normalizeNonEmptyString (js_field m ''sessionKey''),
                 pl_fileOperand = or_default (normalizeSystemRunApprovalFileOperand (js_field m ''mutableFileOperand'')) None\<rparr>"
    using assms by (auto simp: normalizeSystemRunApprovalPlan_def Let_def split: jv.splits if_splits option.splits)
  have "clean_text (Some cmd)" using clean_or_else [OF clean_nonempty clean_nonempty] cmd by metis
  moreover have "wf_operand f"
    if "or_default (normalizeSystemRunApprovalFileOperand (js_field m ''mutableFileOperand'')) None = Some f" for f
    using that operand_wf by (cases "normalizeSystemRunApprovalFileOperand (js_field m ''mutableFileOperand'')") auto
  ultimately show ?thesis using m by (simp add: n wf_plan_def split: option.split)
qed

lemma prepared_plan_wf:
  assumes "parsePreparedSystemRunPayload R v = Some r"
  shows "wf_plan (pp_plan r)"
proof -
  have legacy: "clean_text (or_else (normalizeNonEmptyString a) (or_else (normalizeNonEmptyString b) (normalizeNonEmptyString c)))" for a b c
    by (intro clean_or_else clean_nonempty)
  show ?thesis
    using assms
    by (auto simp: parsePreparedSystemRunPayload_def Let_def dest: plan_wf split: jv.splits option.splits if_splits)
      (simp add: wf_plan_def, metis legacy)+
qed

lemma operand_reread:
  "wf_operand f \<Longrightarrow> normalizeSystemRunApprovalFileOperand
       (JObj [(''argvIndex'', JNum (Num (fo_argvIndex f))), (''path'', JStr (fo_path f)), (''sha256'', JStr (fo_sha256 f))])
     = Some (Some f)"
  by (simp add: normalizeSystemRunApprovalFileOperand_def wf_operand_def js_field_def clean_reread_Some)

lemma no_operand [simp]: "normalizeSystemRunApprovalFileOperand JUndefined = None"
  by (simp add: normalizeSystemRunApprovalFileOperand_def)

lemma plan_reread: "wf_plan n \<Longrightarrow> normalizeSystemRunApprovalPlan R (plan_value n) = Some n"
  by (cases "pl_fileOperand n")
    (simp_all add: normalizeSystemRunApprovalPlan_def plan_value_def wf_plan_def js_field_def clean_reread clean_reread_Some
      operand_reread Let_def)

section \<open>What a forwarded approval went through\<close>

definition same_requester :: "runtime \<Rightarrow> node_request \<Rightarrow> (string \<times> jv) list \<Rightarrow> approval_client option \<Rightarrow> bool" where
  "same_requester R req p client \<longleftrightarrow>
     (if truthy_text (requestedByDeviceId req) then requestedByDeviceId req = Option.bind client cl_deviceId
      else \<not> truthy_text (requestedByConnId req) \<or> requestedByConnId req = Option.bind client cl_connId
           \<or> canBridgeNoDeviceApprovalFromBackend R req client \<or> canBridgeNoDeviceChatApprovalFromBackend R req p client)"

definition same_node :: "node_request \<Rightarrow> string option \<Rightarrow> bool" where
  "same_node req nodeId \<longleftrightarrow>
     normalizeNullableString nodeId \<noteq> None \<and> normalizeNullableString (nr_nodeId req) = normalizeNullableString nodeId"

lemma snapshot_accepted:
  "snapshot_refusal R now nodeId runId p client rec = None \<longleftrightarrow>
     \<not> js_less (expiresAtMs rec) (Num (of_int now)) \<and> same_node (request rec) nodeId \<and> same_requester R (request rec) p client"
  by (auto simp: snapshot_refusal_def Let_def same_node_def same_requester_def split: option.splits)

text \<open>Why the gate let a run pass: a one-time approval it consumed, a standing one, or a request nobody answered.\<close>

datatype run_ground = ConsumedOnce | Standing | Unanswered

definition ground_of :: "approval_snapshot \<Rightarrow> run_ground" where
  "ground_of rec = (case decision rec of Some AllowOnce \<Rightarrow> ConsumedOnce | Some AllowAlways \<Rightarrow> Standing | _ \<Rightarrow> Unanswered)"

definition earned :: "string \<Rightarrow> approval_client option \<Rightarrow> approval_snapshot \<Rightarrow> node_approvals \<Rightarrow> node_approvals \<Rightarrow> bool" where
  "earned runId client rec s s' \<longleftrightarrow>
     (case ground_of rec of
        ConsumedOnce \<Rightarrow> consumeAllowOnce runId s = (True, s')
      | Standing \<Rightarrow> s' = s
      | Unanswered \<Rightarrow> s' = s \<and> decision rec = None \<and> resolvedAtMs rec \<noteq> None \<and> resolvedBy rec = None \<and> clientHasApprovals client)"

lemma enforce_granted:
  assumes "enforce_decision runId approved requested client rec next s = (Inr v, s')"
  shows "earned runId client rec s s'
    \<and> (\<exists>d. v = JObj (approve d next) \<and> d \<in> {''allow-once'', ''allow-always''})"
  using assms
  by (auto simp: enforce_decision_def earned_def ground_of_def Let_def split: if_splits prod.splits bool.splits)

lemma granted_run:
  assumes "sanitizeSystemRunParamsForForwarding R now nodeId (JObj p) client manager = (Inr (JObj m), manager')"
    and "js_get m ''approved'' \<noteq> None"
  obtains s s' runId rec cx d where "manager = Some s" "manager' = Some s'"
    "nullable_string (js_field p ''runId'') = Some runId" "getSnapshot runId s = Some rec"
    "snapshot_refusal R now nodeId runId p client rec = None"
    "resolveSystemRunApprovalRuntimeContext R
       (case nr_plan (request rec) of Some n \<Rightarrow> plan_value n | None \<Rightarrow> JNull) p = Inr cx"
    "evaluateSystemRunApprovalMatch R (rc_argv cx) (request rec) (rc_cwd cx) (rc_agentId cx) (rc_sessionKey cx)
       (js_field p ''env'') = None"
    "m = approve d (apply_plan cx (pickSystemRunParams p))" "earned runId client rec s s'"
    "d \<in> {''allow-once'', ''allow-always''}"
    "js_field p ''approved'' = JBool True \<or> normalizeApprovalDecision (js_field p ''approvalDecision'') \<noteq> None"
proof -
  have no: "js_get (pickSystemRunParams p) ''approved'' = None" by (simp add: get_pick FORWARDED_KEYS_def)
  show ?thesis
    using assms no
    by (auto simp: sanitizeSystemRunParamsForForwarding_def Let_def
        split: if_splits option.splits sum.splits prod.splits dest!: enforce_granted intro: that)
qed

section \<open>What is forwarded is what was approved\<close>

definition known_hash :: "string option \<Rightarrow> string option" where
  "known_hash h = (if truthy_text h then h else None)"

text \<open>The binding of the command a node is sent.\<close>

definition forwarded_binding :: "runtime \<Rightarrow> (string \<times> jv) list \<Rightarrow> run_binding" where
  "forwarded_binding R m =
     fst (buildSystemRunApprovalBinding R (js_field m ''command'') (js_field m ''cwd'') (js_field m ''agentId'')
            (js_field m ''sessionKey'') (js_field m ''env''))"

lemma argvMatches_iff: "argvMatches a b \<longleftrightarrow> a \<noteq> [] \<and> a = b"
proof -
  have "length a = length b \<Longrightarrow> list_all (\<lambda>(x, y). x = y) (zip a b) \<longleftrightarrow> a = b"
    by (induction a b rule: list_induct2) auto
  then show ?thesis by (auto simp: argvMatches_def)
qed

lemma env_hash_matched:
  "matchSystemRunApprovalEnvHash expected (hashSystemRunEnvEntries R es) (map fst es) = None
     \<Longrightarrow> known_hash expected = hashSystemRunEnvEntries R es"
  by (auto simp: matchSystemRunApprovalEnvHash_def hashSystemRunEnvEntries_def known_hash_def truthy_text_def Let_def
      split: if_splits option.splits)

lemma binding_matched:
  assumes "evaluateSystemRunApprovalMatch R argv req cwd aid sk env = None"
    and "clean_text cwd" "clean_text aid" "clean_text sk"
  obtains b where "nr_host req = Some ''node''" "nr_binding req = Some b" "bd_argv b = argv" "argv \<noteq> []" "bd_cwd b = cwd"
    "bd_agentId b = aid" "bd_sessionKey b = sk"
    "known_hash (bd_envHash b) = hashSystemRunEnvEntries R (normalizeSystemRunEnvEntries R env)"
  using assms
  by (auto simp: evaluateSystemRunApprovalMatch_def buildSystemRunApprovalBinding_def buildSystemRunApprovalEnvBinding_def
      matchSystemRunApprovalBinding_def requestMismatch_def argvMatches_iff clean_reread Let_def
      split: if_splits option.splits dest!: env_hash_matched)

lemma resolved_argv:
  "resolveSystemRunCommandRequest R v raw = Inr (argv, cmd) \<Longrightarrow> argv = normalizeStringArray R v"
  by (auto simp: resolveSystemRunCommandRequest_def resolveSystemRunCommandWithMode_def normalizeStringArray_def Let_def
      split: jv.splits if_splits option.splits sum.splits)

lemma context_clean:
  assumes "resolveSystemRunApprovalRuntimeContext R plan p = Inr cx"
  shows "clean_text (rc_cwd cx)" "clean_text (rc_agentId cx)" "clean_text (rc_sessionKey cx)"
  using assms
  by (auto simp: resolveSystemRunApprovalRuntimeContext_def wf_plan_def dest: plan_wf split: option.splits sum.splits)

lemma text_of_kept:
  "clean_text s \<Longrightarrow> normalizeNonEmptyString (or_default (map_option JStr s) JUndefined) = s"
  by (cases s) (simp add: normalizeNonEmptyString_def, simp add: clean_reread_Some)

lemma context_forwarded:
  assumes "resolveSystemRunApprovalRuntimeContext R plan p = Inr cx"
    and m: "m = approve d (apply_plan cx (pickSystemRunParams p))"
  shows "normalizeStringArray R (js_field m ''command'') = rc_argv cx"
    "normalizeNonEmptyString (js_field m ''cwd'') = rc_cwd cx"
    "normalizeNonEmptyString (js_field m ''agentId'') = rc_agentId cx"
    "normalizeNonEmptyString (js_field m ''sessionKey'') = rc_sessionKey cx"
    "js_field m ''env'' = js_field p ''env''"
proof -
  note clean = context_clean [OF assms(1)]
  have fields: "js_get m k = js_get (apply_plan cx (pickSystemRunParams p)) k"
    if "k \<in> set FORWARDED_KEYS" for k
    using that by (auto simp: m get_approve FORWARDED_KEYS_def)
  show "js_field m ''env'' = js_field p ''env''"
    by (simp add: fields FORWARDED_KEYS_def get_apply_plan get_pick js_field_def split: option.split)
  show "normalizeStringArray R (js_field m ''command'') = rc_argv cx"
    "normalizeNonEmptyString (js_field m ''cwd'') = rc_cwd cx"
    "normalizeNonEmptyString (js_field m ''agentId'') = rc_agentId cx"
    "normalizeNonEmptyString (js_field m ''sessionKey'') = rc_sessionKey cx"
    using assms(1) clean
    by (auto simp: fields FORWARDED_KEYS_def get_apply_plan get_pick js_field_def text_of_kept
        resolveSystemRunApprovalRuntimeContext_def dest: resolved_argv split: option.splits sum.splits)
qed

lemma forwarded_as_recorded:
  assumes cx: "resolveSystemRunApprovalRuntimeContext R plan p = Inr cx"
    and ev: "evaluateSystemRunApprovalMatch R (rc_argv cx) req (rc_cwd cx) (rc_agentId cx) (rc_sessionKey cx) (js_field p ''env'') = None"
    and m: "m = approve d (apply_plan cx (pickSystemRunParams p))"
  shows "\<exists>b. nr_host req = Some ''node'' \<and> nr_binding req = Some b \<and> bd_argv b \<noteq> []
           \<and> forwarded_binding R m = b\<lparr>bd_envHash := known_hash (bd_envHash b)\<rparr>"
proof -
  obtain b where b: "nr_host req = Some ''node''" "nr_binding req = Some b" "bd_argv b = rc_argv cx" "rc_argv cx \<noteq> []"
    "bd_cwd b = rc_cwd cx" "bd_agentId b = rc_agentId cx" "bd_sessionKey b = rc_sessionKey cx"
    "known_hash (bd_envHash b) = hashSystemRunEnvEntries R (normalizeSystemRunEnvEntries R (js_field p ''env''))"
    by (rule binding_matched [OF ev context_clean [OF cx]])
  then have "forwarded_binding R m = b\<lparr>bd_envHash := known_hash (bd_envHash b)\<rparr>"
    by (simp add: forwarded_binding_def buildSystemRunApprovalBinding_def buildSystemRunApprovalEnvBinding_def Let_def
        context_forwarded [OF cx m])
  with b show ?thesis by simp
qed

section \<open>Recorded requests\<close>

text \<open>The plan a request is recorded with: the plan of the request, with the preview that is shown to the operator, the plan's
  own or else the command of the request, unless it is the command text itself.\<close>

definition recorded_plan :: "(string \<times> jv) list \<Rightarrow> run_plan \<Rightarrow> run_plan" where
  "recorded_plan q n = n\<lparr>pl_commandPreview := normalizeCommandPreview
     (JStr (case pl_commandPreview n of Some v \<Rightarrow> v | None \<Rightarrow> normalizeCommandText (js_field q ''command''))) (pl_commandText n)\<rparr>"

lemma recorded_plan_keeps [simp]:
  "pl_argv (recorded_plan q n) = pl_argv n" "pl_cwd (recorded_plan q n) = pl_cwd n"
  "pl_commandText (recorded_plan q n) = pl_commandText n" "pl_agentId (recorded_plan q n) = pl_agentId n"
  "pl_sessionKey (recorded_plan q n) = pl_sessionKey n" "pl_fileOperand (recorded_plan q n) = pl_fileOperand n"
  by (simp_all add: recorded_plan_def)

lemma preview_clean: "clean_text (normalizeCommandPreview v t)"
  by (auto simp: normalizeCommandPreview_def clean_text_def dest: nonempty_clean split: option.splits)

lemma recorded_plan_wf: "wf_plan n \<Longrightarrow> wf_plan (recorded_plan q n)"
  by (simp add: wf_plan_def) (simp add: recorded_plan_def preview_clean)

lemma request_recorded:
  assumes "node_approval_request R q requester st = Inr req" and "nr_host req = Some ''node''"
  obtains n where "normalizeSystemRunApprovalPlan R (js_field q ''systemRunPlan'') = Some n"
    "nr_plan req = Some (recorded_plan q n)" "wf_plan n"
    "nr_binding req = Some \<lparr>bd_argv = pl_argv n, bd_cwd = or_else (pl_cwd n) (normalizeNonEmptyString (js_field q ''cwd'')),
       bd_agentId = or_else (pl_agentId n) (normalizeNonEmptyString (js_field q ''agentId'')),
       bd_sessionKey = or_else (pl_sessionKey n) (normalizeNonEmptyString (js_field q ''sessionKey'')),
       bd_envHash = hashSystemRunEnvEntries R (normalizeSystemRunEnvEntries R (js_field q ''env''))\<rparr>"
    "nr_nodeId req = normalizeNonEmptyString (js_field q ''nodeId'')" "nr_nodeId req \<noteq> None"
proof -
  define cx where "cx = resolveSystemRunApprovalRequestContext R q"
  have req: "req = bindApprovalRequesterMetadata requester (approval_payload R q (or_default (normalizeNonEmptyString (js_field q ''host'')) [])
       (or_default (normalizeNonEmptyString (js_field q ''nodeId'')) []) cx)"
    and guards: "or_default (normalizeNonEmptyString (js_field q ''host'')) [] = ''node''
       \<Longrightarrow> or_default (normalizeNonEmptyString (js_field q ''nodeId'')) [] \<noteq> [] \<and> cx_plan cx \<noteq> None"
    using assms(1) by (simp_all add: node_approval_request_def cx_def Let_def split: if_splits)
  have host: "or_default (normalizeNonEmptyString (js_field q ''host'')) [] = ''node''"
    using assms(2) by (simp add: req bindApprovalRequesterMetadata_def approval_payload_def split: if_splits)
  obtain n where n: "normalizeSystemRunApprovalPlan R (js_field q ''systemRunPlan'') = Some n"
    using guards [OF host] host by (auto simp: cx_def resolveSystemRunApprovalRequestContext_def Let_def)
  have wf: "wf_plan n" by (rule plan_wf [OF n])
  then have "pl_commandText n \<noteq> []" by (simp add: wf_plan_def clean_text_def)
  then have cx: "cx_plan cx = Some (recorded_plan q n)" "cx_commandArgv cx = Some (pl_argv n)"
    "cx_cwd cx = or_else (pl_cwd n) (normalizeNonEmptyString (js_field q ''cwd''))"
    "cx_agentId cx = or_else (pl_agentId n) (normalizeNonEmptyString (js_field q ''agentId''))"
    "cx_sessionKey cx = or_else (pl_sessionKey n) (normalizeNonEmptyString (js_field q ''sessionKey''))"
    using host n
    by (simp_all add: cx_def recorded_plan_def resolveSystemRunApprovalRequestContext_def Let_def split: option.split)
  have clean: "clean_text (cx_cwd cx)" "clean_text (cx_agentId cx)" "clean_text (cx_sessionKey cx)"
    using wf by (simp_all add: cx wf_plan_def clean_or_else)
  note req' = req [unfolded host bindApprovalRequesterMetadata_def approval_payload_def cx(1,2)]
  show ?thesis
  proof (rule that [OF n _ wf])
    show "nr_nodeId req = normalizeNonEmptyString (js_field q ''nodeId'')" "nr_nodeId req \<noteq> None"
      using guards [OF host] by (cases "normalizeNonEmptyString (js_field q ''nodeId'')"; simp add: req')+
    show "nr_binding req = Some \<lparr>bd_argv = pl_argv n, bd_cwd = or_else (pl_cwd n) (normalizeNonEmptyString (js_field q ''cwd'')),
       bd_agentId = or_else (pl_agentId n) (normalizeNonEmptyString (js_field q ''agentId'')),
       bd_sessionKey = or_else (pl_sessionKey n) (normalizeNonEmptyString (js_field q ''sessionKey'')),
       bd_envHash = hashSystemRunEnvEntries R (normalizeSystemRunEnvEntries R (js_field q ''env''))\<rparr>"
      using clean
      by (simp add: req' cx(3-5) [symmetric] buildSystemRunApprovalBinding_def buildSystemRunApprovalEnvBinding_def Let_def clean_reread)
  qed (simp add: req')
qed

lemma plan_context:
  "wf_plan n \<Longrightarrow> resolveSystemRunApprovalRuntimeContext R (plan_value n) p =
     Inr \<lparr>rc_plan = Some n, rc_argv = pl_argv n, rc_cwd = pl_cwd n, rc_agentId = pl_agentId n,
          rc_sessionKey = pl_sessionKey n, rc_commandText = pl_commandText n\<rparr>"
  by (simp add: resolveSystemRunApprovalRuntimeContext_def plan_reread)

section \<open>The manager and the gate together\<close>

text \<open>A history mixes what happens to the manager with invocations of nodes; the log keeps, for every run forwarded as
  approved, the promise of the entry it was forwarded for and the ground.\<close>

datatype gate_event =
    Manage "node_request approval_event"
  | Invoke int "string option" "(string \<times> jv) list" "approval_client option"

record gate =
  gt_approvals :: node_approvals
  gt_forwards :: "(nat \<times> run_ground) list"

definition run_entry :: "(string \<times> jv) list \<Rightarrow> node_approvals \<Rightarrow> (nat \<times> run_ground) list" where
  "run_entry p s =
     (case Option.bind (nullable_string (js_field p ''runId'')) (js_get (pending s)) of
        None \<Rightarrow> []
      | Some e \<Rightarrow> [(entry_promise e, ground_of (entry_record e))])"

definition goes_out_approved :: "guard_error + jv \<Rightarrow> bool" where
  "goes_out_approved r \<longleftrightarrow> (case r of Inr (JObj m) \<Rightarrow> \<not> Option.is_none (js_get m ''approved'') | _ \<Rightarrow> False)"

fun gate_step :: "runtime \<Rightarrow> gate_event \<Rightarrow> gate \<Rightarrow> gate" where
  "gate_step R (Manage e) g = g\<lparr>gt_approvals := approval_step e (gt_approvals g)\<rparr>"
| "gate_step R (Invoke now nodeId p client) g =
     (case sanitizeSystemRunParamsForForwarding R now nodeId (JObj p) client (Some (gt_approvals g)) of
        (r, s') \<Rightarrow>
          \<lparr>gt_approvals = or_default s' (gt_approvals g),
           gt_forwards = gt_forwards g @ (if goes_out_approved r then run_entry p (gt_approvals g) else [])\<rparr>)"

definition run_gate :: "runtime \<Rightarrow> gate_event list \<Rightarrow> gate" where
  "run_gate R es = fold (gate_step R) es \<lparr>gt_approvals = no_approvals, gt_forwards = []\<rparr>"

definition forwarded_by :: "run_ground \<Rightarrow> gate \<Rightarrow> nat list" where
  "forwarded_by w g = map fst (filter (\<lambda>(p, v). v = w) (gt_forwards g))"

definition gate_inv :: "gate \<Rightarrow> bool" where
  "gate_inv g \<longleftrightarrow>
     approval_inv {} (gt_approvals g) \<and> distinct (forwarded_by ConsumedOnce g)
     \<and> set (forwarded_by ConsumedOnce g) \<subseteq> set (granted (gt_approvals g))
     \<and> (\<lambda>p. (p, Some AllowAlways)) ` set (forwarded_by Standing g) \<subseteq> set (settled (gt_approvals g))
     \<and> set (forwarded_by Unanswered g) \<subseteq> {p. (p, None) \<in> set (settled (gt_approvals g))} \<union> set (granted (gt_approvals g))"

text \<open>An invocation that is not forwarded as approved leaves the manager as it was or as a consumption leaves it.\<close>

definition consumed_states :: "node_approvals \<Rightarrow> node_approvals option set" where
  "consumed_states s = insert (Some s) (range (\<lambda>runId. Some (snd (consumeAllowOnce runId s))))"

lemma enforce_manager: "Some (snd (enforce_decision runId approved requested client rec next s)) \<in> consumed_states s"
  by (auto simp: enforce_decision_def consumed_states_def Let_def case_prod_unfold split: bool.split)

lemma manager_kept: "Some s \<in> consumed_states s"
  by (simp add: consumed_states_def)

lemma sanitize_manager:
  "snd (sanitizeSystemRunParamsForForwarding R now nodeId v client (Some s)) \<in> consumed_states s"
  by (simp add: sanitizeSystemRunParamsForForwarding_def Let_def case_prod_unfold manager_kept enforce_manager
      split: jv.split option.split sum.split)

lemma approval_guar_refl [simp]: "approval_guar s s"
  by (simp add: approval_guar_def)

lemma consume_guar: "approval_guar s (snd (consumeAllowOnce aid s))"
  by (auto simp: approval_guar_def consumeAllowOnce_def split: option.split)

lemma forwarded_by_update: "forwarded_by w (g\<lparr>gt_approvals := s\<rparr>) = forwarded_by w g"
  by (simp add: forwarded_by_def)

lemma set_approvals: "gt_approvals (g\<lparr>gt_approvals := s\<rparr>) = s"
  by simp

lemma gate_inv_mono:
  assumes "gate_inv g" and "approval_inv {} s'" and "approval_guar (gt_approvals g) s'"
  shows "gate_inv (g\<lparr>gt_approvals := s'\<rparr>)"
proof -
  have "set (settled (gt_approvals g)) \<subseteq> set (settled s')" "set (granted (gt_approvals g)) \<subseteq> set (granted s')"
    using assms(3) by (auto simp: approval_guar_def prefix_def)
  moreover from this have "{p. (p, None) \<in> set (settled (gt_approvals g))} \<union> set (granted (gt_approvals g))
      \<subseteq> {p. (p, None) \<in> set (settled s')} \<union> set (granted s')" by auto
  ultimately show ?thesis
    using assms(1,2) unfolding gate_inv_def forwarded_by_update set_approvals by (meson subset_trans)
qed

lemma manage_step:
  assumes "gate_inv g"
  shows "gate_inv (gate_step R (Manage e) g)"
proof -
  have "approval_inv {} (gt_approvals g)" using assms by (simp add: gate_inv_def)
  from approval_machine.step_inv [OF this] approval_history.step_guar [OF this] gate_inv_mono [OF assms]
  show ?thesis by simp
qed

lemma entry_grounds:
  assumes inv: "approval_inv {} s" and e: "js_get (pending s) runId = Some e" and "earned runId client (entry_record e) s s'"
  shows "ground_of (entry_record e) = ConsumedOnce \<Longrightarrow>
           s' = snd (consumeAllowOnce runId s) \<and> granted s' = granted s @ [entry_promise e]"
    and "ground_of (entry_record e) = Standing \<Longrightarrow> s' = s \<and> (entry_promise e, Some AllowAlways) \<in> set (settled s)"
    and "ground_of (entry_record e) = Unanswered \<Longrightarrow>
           s' = s \<and> ((entry_promise e, None) \<in> set (settled s) \<or> entry_promise e \<in> set (granted s))"
proof -
  note ok = approval_invD(6) [OF inv e]
  show "s' = snd (consumeAllowOnce runId s) \<and> granted s' = granted s @ [entry_promise e]"
    if "ground_of (entry_record e) = ConsumedOnce"
    using that assms(3) e
    by (auto simp: earned_def ground_of_def consumeAllowOnce_def split: option.splits approval_decision.splits if_splits)
  show "s' = s \<and> (entry_promise e, Some AllowAlways) \<in> set (settled s)" if "ground_of (entry_record e) = Standing"
    using that assms(3) ok
    by (auto simp: earned_def ground_of_def entry_ok_def split: option.splits approval_decision.splits if_splits)
  show "s' = s \<and> ((entry_promise e, None) \<in> set (settled s) \<or> entry_promise e \<in> set (granted s))"
    if "ground_of (entry_record e) = Unanswered"
    using that assms(3) ok by (auto simp: earned_def entry_ok_def unresolved_def split: if_splits)
qed

lemma forwarded_by_more:
  "forwarded_by w \<lparr>gt_approvals = s, gt_forwards = fs @ [(p, v)]\<rparr> =
     forwarded_by w \<lparr>gt_approvals = s', gt_forwards = fs\<rparr> @ (if v = w then [p] else [])"
  by (simp add: forwarded_by_def)

lemma forwarded_by_state: "forwarded_by w \<lparr>gt_approvals = s, gt_forwards = gt_forwards g\<rparr> = forwarded_by w g"
  by (simp add: forwarded_by_def)

lemma approved_invocation:
  assumes inv: "gate_inv g" and e: "js_get (pending (gt_approvals g)) runId = Some e"
    and earned: "earned runId client (entry_record e) (gt_approvals g) s'"
  shows "gate_inv \<lparr>gt_approvals = s', gt_forwards = gt_forwards g @ [(entry_promise e, ground_of (entry_record e))]\<rparr>"
proof -
  let ?s = "gt_approvals g"
  have ainv: "approval_inv {} ?s" using inv by (simp add: gate_inv_def)
  note ground = entry_grounds [OF ainv e earned]
  show ?thesis
  proof (cases "ground_of (entry_record e)")
    case ConsumedOnce
    note g = ground(1) [OF this]
    then have s': "approval_inv {} s'" "approval_guar ?s s'" using consume_inv [OF ainv] consume_guar by blast+
    have "granted s' = granted ?s @ [entry_promise e]" using g by blast
    with approval_invD(4) [OF s'(1)] have "entry_promise e \<notin> set (granted ?s)" by simp
    with gate_inv_mono [OF inv s'] g ConsumedOnce inv show ?thesis
      by (auto simp: gate_inv_def forwarded_by_def)
  next
    case Standing
    with ground(2) inv show ?thesis by (simp add: gate_inv_def forwarded_by_def)
  next
    case Unanswered
    with ground(3) inv show ?thesis by (auto simp: gate_inv_def forwarded_by_def)
  qed
qed

lemma invoke_step:
  assumes inv: "gate_inv g"
  shows "gate_inv (gate_step R (Invoke now nodeId p client) g)"
proof -
  let ?s = "gt_approvals g"
  obtain r ms' where san: "sanitizeSystemRunParamsForForwarding R now nodeId (JObj p) client (Some ?s) = (r, ms')"
    by fastforce
  have ainv: "approval_inv {} ?s" using inv by (simp add: gate_inv_def)
  show ?thesis
  proof (cases "goes_out_approved r")
    case False
    have "approval_inv {} (or_default ms' ?s)" "approval_guar ?s (or_default ms' ?s)"
      using sanitize_manager [of R now nodeId "JObj p" client ?s] san ainv consume_inv [OF ainv]
      by (auto simp: consumed_states_def consume_guar)
    from gate_inv_mono [OF inv this] False san show ?thesis by (simp add: gate_inv_def forwarded_by_def)
  next
    case True
    then obtain m where m: "r = Inr (JObj m)" "js_get m ''approved'' \<noteq> None"
      by (auto simp: goes_out_approved_def Option.is_none_def split: sum.splits jv.splits)
    obtain s' runId rec where run: "ms' = Some s'" "nullable_string (js_field p ''runId'') = Some runId"
      "getSnapshot runId ?s = Some rec" "earned runId client rec ?s s'"
      by (rule granted_run [OF san [unfolded m(1)] m(2)]) simp
    then obtain e where e: "js_get (pending ?s) runId = Some e" "rec = entry_record e"
      by (auto simp: getSnapshot_def)
    from approved_invocation [OF inv e(1) run(4) [unfolded e(2)]] san True run e show ?thesis
      by (simp add: run_entry_def)
  qed
qed

interpretation node_gate: invariant_machine "gate_step R" gate_inv for R
proof
  fix s e assume "gate_inv s"
  then show "gate_inv (gate_step R e s)" by (cases e) (simp_all only: manage_step invoke_step)
qed

lemma run_gate_inv: "gate_inv (run_gate R es)"
  unfolding run_gate_def by (rule node_gate.run_inv) (simp add: gate_inv_def forwarded_by_def no_approvals_inv)

section \<open>Decisions with a name\<close>

text \<open>The handler of decisions names whoever decides, by the display name or the id of its client.\<close>

fun decided_by_name :: "gate_event \<Rightarrow> bool" where
  "decided_by_name (Manage (Resolve now aid d w)) = (w \<noteq> None)"
| "decided_by_name _ = True"

fun ground_outcome :: "run_ground \<Rightarrow> approval_decision option" where
  "ground_outcome ConsumedOnce = Some AllowOnce"
| "ground_outcome Standing = Some AllowAlways"
| "ground_outcome Unanswered = None"

text \<open>An answered entry without a name was settled without a decision.\<close>

definition named :: "node_approvals \<Rightarrow> bool" where
  "named s \<longleftrightarrow> (\<forall>k e. js_get (pending s) k = Some e \<longrightarrow> resolvedAtMs (entry_record e) \<noteq> None \<longrightarrow> resolvedBy (entry_record e) = None
     \<longrightarrow> decision (entry_record e) = None \<and> (entry_promise e, None) \<in> set (settled s))"

lemma named_conclude:
  assumes "named s" and "d = None \<or> w \<noteq> None"
  shows "named (snd (conclude now aid d w s))"
  using assms unfolding named_def conclude_def Let_def
  by (auto split: option.split)

lemma named_drop_timer [simp]: "named (s\<lparr>timers := ts\<rparr>) = named s"
  by (simp add: named_def)

lemma named_consume: "named s \<Longrightarrow> named (snd (consumeAllowOnce aid s))"
  unfolding named_def consumeAllowOnce_def by (auto split: option.split)

lemma named_fire: "named s \<Longrightarrow> named (fire_timer now i s)"
  by (cases "timers s ! i")
    (auto simp: fire_timer_def expire_def Let_def named_conclude, auto simp: named_def cleanup_entry_def split: option.split)

lemma named_submit: "named s \<Longrightarrow> named (approval_step (Submit now uuid req t aid) s)"
  by (auto simp: named_def register_def Let_def dest: created_fields split: sum.split option.split)

lemma named_step: "named s \<Longrightarrow> decided_by_name (Manage e) \<Longrightarrow> named (approval_step e s)"
  by (cases e)
    (simp_all add: named_conclude named_consume named_fire resolve_def expire_def named_submit del: approval_step.simps(1))

definition answered_inv :: "gate \<Rightarrow> bool" where
  "answered_inv g \<longleftrightarrow> named (gt_approvals g)
     \<and> (\<lambda>p. (p, None)) ` set (forwarded_by Unanswered g) \<subseteq> set (settled (gt_approvals g))"

lemma answered_mono:
  assumes "answered_inv g" and "named s'" and "approval_guar (gt_approvals g) s'"
  shows "answered_inv (g\<lparr>gt_approvals := s'\<rparr>)"
proof -
  have "set (settled (gt_approvals g)) \<subseteq> set (settled s')" using assms(3) by (auto simp: approval_guar_def prefix_def)
  with assms(1,2) show ?thesis unfolding answered_inv_def forwarded_by_update set_approvals by (meson subset_trans)
qed

lemma answered_invoke:
  assumes inv: "answered_inv g"
  shows "answered_inv (gate_step R (Invoke now nodeId p client) g)"
proof -
  let ?s = "gt_approvals g"
  obtain r ms' where san: "sanitizeSystemRunParamsForForwarding R now nodeId (JObj p) client (Some ?s) = (r, ms')"
    by fastforce
  have "named ?s" using inv by (simp add: answered_inv_def)
  then have "named (or_default ms' ?s)" "approval_guar ?s (or_default ms' ?s)"
    using sanitize_manager [of R now nodeId "JObj p" client ?s] san named_consume
    by (auto simp: consumed_states_def consume_guar)
  from answered_mono [OF inv this] have kept: "answered_inv (g\<lparr>gt_approvals := or_default ms' ?s\<rparr>)" .
  show ?thesis
  proof (cases "goes_out_approved r")
    case False
    with kept san show ?thesis by (simp add: answered_inv_def forwarded_by_def)
  next
    case True
    then obtain m where m: "r = Inr (JObj m)" "js_get m ''approved'' \<noteq> None"
      by (auto simp: goes_out_approved_def Option.is_none_def split: sum.splits jv.splits)
    obtain s' runId rec where run: "ms' = Some s'" "nullable_string (js_field p ''runId'') = Some runId"
      "getSnapshot runId ?s = Some rec" "earned runId client rec ?s s'"
      by (rule granted_run [OF san [unfolded m(1)] m(2)]) simp
    then obtain e where e: "js_get (pending ?s) runId = Some e" "rec = entry_record e"
      by (auto simp: getSnapshot_def)
    have "(entry_promise e, None) \<in> set (settled s')" if "ground_of (entry_record e) = Unanswered"
      using that run(4) e \<open>named ?s\<close> by (simp add: earned_def named_def)
    with kept san True run(1,2) e show ?thesis by (auto simp: answered_inv_def forwarded_by_def run_entry_def)
  qed
qed

lemma run_answered: "list_all decided_by_name es \<Longrightarrow> answered_inv (run_gate R es)"
proof (induction es rule: rev_induct)
  case Nil
  show ?case by (simp add: run_gate_def answered_inv_def named_def forwarded_by_def no_approvals_def)
next
  case (snoc e es)
  then have IH: "answered_inv (run_gate R es)" and e: "decided_by_name e" by simp_all
  have "answered_inv (gate_step R e (run_gate R es))"
  proof (cases e)
    case (Manage m)
    have "named (approval_step m (gt_approvals (run_gate R es)))"
      using named_step e IH Manage by (simp add: answered_inv_def)
    moreover have "approval_guar (gt_approvals (run_gate R es)) (approval_step m (gt_approvals (run_gate R es)))"
      using run_gate_inv by (intro approval_history.step_guar) (simp add: gate_inv_def)
    ultimately show ?thesis using answered_mono [OF IH] Manage by simp
  qed (simp only: answered_invoke [OF IH])
  then show ?case by (simp add: run_gate_def)
qed

lemma forwards_have_outcomes:
  assumes "list_all decided_by_name es" and "(p, w) \<in> set (gt_forwards (run_gate R es))"
  shows "(p, ground_outcome w) \<in> set (settled (gt_approvals (run_gate R es)))"
proof -
  have p: "p \<in> set (forwarded_by w (run_gate R es))" using assms(2) by (force simp: forwarded_by_def)
  note inv = run_gate_inv [of R es, unfolded gate_inv_def]
  have granted: "(p, Some AllowOnce) \<in> set (settled (gt_approvals (run_gate R es)))"
    if "p \<in> set (granted (gt_approvals (run_gate R es)))"
    using inv approval_invD(11) that by blast
  show ?thesis
    using p granted inv run_answered [OF assms(1), of R] by (cases w) (auto simp: answered_inv_def)
qed

lemma distinct_counted_once: "distinct xs \<Longrightarrow> count_list xs x \<le> 1"
  by (induction xs) (auto simp: count_list_0_iff)

lemma count_one_ground:
  "(\<And>v. (p, v) \<in> set fs \<Longrightarrow> v = w) \<Longrightarrow> count_list (map fst fs) p = count_list (map fst (filter (\<lambda>(p, v). v = w) fs)) p"
proof (induction fs)
  case (Cons f fs)
  obtain q v where "f = (q, v)" by (cases f)
  moreover have "count_list (map fst fs) p = count_list (map fst (filter (\<lambda>(p, v). v = w) fs)) p"
    by (rule Cons.IH) (simp add: Cons.prems)
  ultimately show ?case using Cons.prems [of v] by auto
qed simp

section \<open>An example\<close>

text \<open>A node run of \<^verbatim>\<open>ls\<close> is prepared, approved once by an operator and requested, with another command in the request.\<close>

definition plain_runtime :: runtime where
  "plain_runtime = \<lparr>text_of = (\<lambda>_. []), collation = map of_char,
     digest = (\<lambda>es. concat (map (\<lambda>(k, v). k @ CHR ''='' # v @ [CHR '';'']) es)), shell_preview = (\<lambda>_ _. None),
     display_fits = (\<lambda>_. True)\<rparr>"

definition example_plan :: run_plan where
  "example_plan = \<lparr>pl_argv = [''ls''], pl_cwd = Some ''/w'', pl_commandText = ''ls'', pl_commandPreview = None, pl_agentId = None,
     pl_sessionKey = None, pl_fileOperand = Some \<lparr>fo_argvIndex = 0, fo_path = ''/bin/ls'', fo_sha256 = ''e3''\<rparr>\<rparr>"

definition example_ask :: "(string \<times> jv) list" where
  "example_ask = [(''host'', JStr ''node''), (''nodeId'', JStr ''n1''), (''env'', JObj [(''A'', JStr ''1'')]),
     (''systemRunPlan'', plan_value example_plan)]"

definition example_client :: approval_client where
  "example_client = \<lparr>cl_connId = Some ''c1'', cl_deviceTokenAuth = False, cl_scopes = None, cl_id = Some ''cli'', cl_mode = None,
     cl_deviceId = None\<rparr>"

definition example_run :: "(string \<times> jv) list" where
  "example_run = [(''runId'', JStr ''Ab1''), (''approved'', JBool True), (''command'', JArr [JStr ''rm'']),
     (''env'', JObj [(''A'', JStr ''1'')])]"

definition example_request :: node_request where
  "example_request = projr (node_approval_request plain_runtime example_ask (Some example_client) no_approvals)"

lemma example_recorded: "node_approval_request plain_runtime example_ask (Some example_client) no_approvals = Inr example_request"
  by code_simp

definition example_record :: approval_snapshot where
  "example_record = \<lparr>approval_id = ''Ab1'', request = example_request, createdAtMs = 1000, expiresAtMs = Num 61000,
     resolvedAtMs = Some 2000, decision = Some AllowOnce, consumedDecision = None, resolvedBy = Some ''op''\<rparr>"

definition example_state :: node_approvals where
  "example_state = \<lparr>pending = [(''Ab1'', \<lparr>entry_promise = 0, entry_record = example_record\<rparr>)],
     timers = [CleanupTimer 0 ''Ab1''], next_promise = 1, settled = [(0, Some AllowOnce)], granted = []\<rparr>"

lemma example_decided: "run_approvals [Submit 1000 ''u'' example_request (Num 60000) (Some ''Ab1''),
     Resolve 2000 ''Ab1'' AllowOnce (Some ''op'')] = example_state"
  using run_approvals_append [of "[Submit 1000 ''u'' example_request (Num 60000) (Some ''Ab1'')]"
      "[Resolve 2000 ''Ab1'' AllowOnce (Some ''op'')]"]
  by (simp add: one_submitted resolve_def conclude_def example_state_def example_record_def)

definition example_forwarded :: "(string \<times> jv) list" where
  "example_forwarded = (case sanitizeSystemRunParamsForForwarding plain_runtime 3000 (Some ''n1'') (JObj example_run)
            (Some example_client) (Some example_state) of (Inr (JObj m), _) \<Rightarrow> m | _ \<Rightarrow> [])"

lemma example_forward: "sanitizeSystemRunParamsForForwarding plain_runtime 3000 (Some ''n1'') (JObj example_run)
     (Some example_client) (Some example_state)
    = (Inr (JObj example_forwarded), Some (snd (consumeAllowOnce ''Ab1'' example_state)))"
  by code_simp

lemma example_facts:
  "js_get example_forwarded ''approved'' \<noteq> None" "js_get example_forwarded ''command'' = Some (js_strings [''ls''])"
  "nullable_string (js_field example_run ''runId'') = Some ''Ab1''" "getSnapshot ''Ab1'' example_state = Some example_record"
  "request example_record = example_request" "decision example_record = Some AllowOnce"
  by code_simp+

section \<open>The properties\<close>

text \<open>C6. A run goes to a node as approved only if the approval was earned.  There is a record under the run id that has not
  expired, was asked for this node and by this device or connection (or is bridged by a trusted backend); the binding
  recomputed from the very fields the node is sent is the one on record; and the record was decided allow-once and is consumed
  by this run, or decided allow-always, or was left unanswered and the client itself may approve.\<close>

theorem forwarded_approval_is_earned:
  assumes "sanitizeSystemRunParamsForForwarding R now nodeId (JObj p) client manager = (Inr (JObj m), manager')"
    and "js_get m ''approved'' \<noteq> None"
  shows "\<exists>s s' runId rec b. manager = Some s \<and> manager' = Some s'
           \<and> nullable_string (js_field p ''runId'') = Some runId \<and> getSnapshot runId s = Some rec
           \<and> \<not> js_less (expiresAtMs rec) (Num (of_int now))
           \<and> same_node (request rec) nodeId \<and> same_requester R (request rec) p client
           \<and> nr_binding (request rec) = Some b \<and> bd_argv b \<noteq> []
           \<and> forwarded_binding R m = b\<lparr>bd_envHash := known_hash (bd_envHash b)\<rparr>
           \<and> earned runId client rec s s'"
proof -
  from assms obtain s s' runId rec cx d where run: "manager = Some s" "manager' = Some s'"
    "nullable_string (js_field p ''runId'') = Some runId" "getSnapshot runId s = Some rec"
    "snapshot_refusal R now nodeId runId p client rec = None" "earned runId client rec s s'"
    and cx: "resolveSystemRunApprovalRuntimeContext R
       (case nr_plan (request rec) of Some n \<Rightarrow> plan_value n | None \<Rightarrow> JNull) p = Inr cx"
    and ev: "evaluateSystemRunApprovalMatch R (rc_argv cx) (request rec) (rc_cwd cx) (rc_agentId cx) (rc_sessionKey cx)
       (js_field p ''env'') = None"
    and m: "m = approve d (apply_plan cx (pickSystemRunParams p))"
    by (rule granted_run) (rule that)
  from forwarded_as_recorded [OF cx ev m] run show ?thesis unfolding snapshot_accepted by blast
qed

lemma forwarded_approval_is_earned_witness:
  "\<exists>s s' runId rec b. Some example_state = Some s \<and> Some (snd (consumeAllowOnce ''Ab1'' example_state)) = Some s'
     \<and> nullable_string (js_field example_run ''runId'') = Some runId \<and> getSnapshot runId s = Some rec
     \<and> \<not> js_less (expiresAtMs rec) (Num (of_int 3000))
     \<and> same_node (request rec) (Some ''n1'') \<and> same_requester plain_runtime (request rec) example_run (Some example_client)
     \<and> nr_binding (request rec) = Some b \<and> bd_argv b \<noteq> []
     \<and> forwarded_binding plain_runtime example_forwarded = b\<lparr>bd_envHash := known_hash (bd_envHash b)\<rparr>
     \<and> earned runId (Some example_client) rec s s'"
  by (rule forwarded_approval_is_earned [OF example_forward example_facts(1)])

text \<open>C7. The node gets the command the operator approved, and nothing else.  When the record was made for a request with a
  prepared plan, then whatever plan, command, text, directory, agent, session or environment the later run request names, an
  approved run carries the recorded plan object itself (its file operand included), the plan's arguments, text, directory,
  agent and session, and the environment entries of the approval request; provided the digest has no collision between the two
  environments and is never empty.\<close>

theorem forwarded_run_is_the_approved_request:
  assumes "node_approval_request R q requester st = Inr req" and "getSnapshot runId s = Some rec" and "request rec = req"
    and "nullable_string (js_field p ''runId'') = Some runId"
    and "sanitizeSystemRunParamsForForwarding R now nodeId (JObj p) client (Some s) = (Inr (JObj m), manager')"
    and "js_get m ''approved'' \<noteq> None"
    and "digest R (normalizeSystemRunEnvEntries R (js_field q ''env'')) \<noteq> []"
    and "digest R (normalizeSystemRunEnvEntries R (js_field p ''env'')) = digest R (normalizeSystemRunEnvEntries R (js_field q ''env''))
           \<Longrightarrow> normalizeSystemRunEnvEntries R (js_field p ''env'') = normalizeSystemRunEnvEntries R (js_field q ''env'')"
  shows "\<exists>n. normalizeSystemRunApprovalPlan R (js_field q ''systemRunPlan'') = Some n
           \<and> js_get m ''systemRunPlan'' = Some (plan_value (recorded_plan q n))
           \<and> js_get m ''command'' = Some (js_strings (pl_argv n)) \<and> js_get m ''rawCommand'' = Some (JStr (pl_commandText n))
           \<and> js_get m ''cwd'' = map_option JStr (pl_cwd n) \<and> js_get m ''agentId'' = map_option JStr (pl_agentId n)
           \<and> js_get m ''sessionKey'' = map_option JStr (pl_sessionKey n)
           \<and> normalizeSystemRunEnvEntries R (js_field m ''env'') = normalizeSystemRunEnvEntries R (js_field q ''env'')"
proof -
  obtain cx d where cx: "resolveSystemRunApprovalRuntimeContext R
       (case nr_plan req of Some n \<Rightarrow> plan_value n | None \<Rightarrow> JNull) p = Inr cx"
    and ev: "evaluateSystemRunApprovalMatch R (rc_argv cx) req (rc_cwd cx) (rc_agentId cx) (rc_sessionKey cx)
       (js_field p ''env'') = None"
    and m: "m = approve d (apply_plan cx (pickSystemRunParams p))"
    by (rule granted_run [OF assms(5,6)]) (use assms(2-4) in auto)
  obtain b where b: "nr_host req = Some ''node''" "nr_binding req = Some b"
    "forwarded_binding R m = b\<lparr>bd_envHash := known_hash (bd_envHash b)\<rparr>"
    using forwarded_as_recorded [OF cx ev m] by blast
  obtain n where n: "normalizeSystemRunApprovalPlan R (js_field q ''systemRunPlan'') = Some n"
    "nr_plan req = Some (recorded_plan q n)" "wf_plan n"
    "bd_envHash b = hashSystemRunEnvEntries R (normalizeSystemRunEnvEntries R (js_field q ''env''))"
    by (rule request_recorded [OF assms(1) b(1)]) (use b(2) in auto)
  have cx': "cx = \<lparr>rc_plan = Some (recorded_plan q n), rc_argv = pl_argv n, rc_cwd = pl_cwd n, rc_agentId = pl_agentId n,
          rc_sessionKey = pl_sessionKey n, rc_commandText = pl_commandText n\<rparr>"
    using cx n(2) plan_context [OF recorded_plan_wf [OF n(3)]] by simp
  have "pl_commandText n \<noteq> []" using n(3) by (simp add: wf_plan_def clean_text_def)
  then have fields: "js_get m ''systemRunPlan'' = Some (plan_value (recorded_plan q n))"
    "js_get m ''command'' = Some (js_strings (pl_argv n))" "js_get m ''rawCommand'' = Some (JStr (pl_commandText n))"
    "js_get m ''cwd'' = map_option JStr (pl_cwd n)" "js_get m ''agentId'' = map_option JStr (pl_agentId n)"
    "js_get m ''sessionKey'' = map_option JStr (pl_sessionKey n)"
    by (simp_all add: m get_approve get_apply_plan cx')
  have env: "js_field m ''env'' = js_field p ''env''" by (rule context_forwarded(5) [OF cx m])
  have "hashSystemRunEnvEntries R (normalizeSystemRunEnvEntries R (js_field p ''env'')) =
        hashSystemRunEnvEntries R (normalizeSystemRunEnvEntries R (js_field q ''env''))"
    using arg_cong [OF b(3), of bd_envHash] n(4) assms(7)
    by (auto simp: forwarded_binding_def buildSystemRunApprovalBinding_def buildSystemRunApprovalEnvBinding_def env known_hash_def
        hashSystemRunEnvEntries_def truthy_text_def Let_def split: if_splits)
  with assms(8) have "normalizeSystemRunEnvEntries R (js_field p ''env'') = normalizeSystemRunEnvEntries R (js_field q ''env'')"
    by (auto simp: hashSystemRunEnvEntries_def split: if_splits)
  with n(1) fields env show ?thesis by simp
qed

lemma forwarded_run_is_the_approved_request_witness:
  "\<exists>n. normalizeSystemRunApprovalPlan plain_runtime (js_field example_ask ''systemRunPlan'') = Some n
     \<and> js_get example_forwarded ''systemRunPlan'' = Some (plan_value (recorded_plan example_ask n))
     \<and> js_get example_forwarded ''command'' = Some (js_strings (pl_argv n))
     \<and> js_get example_forwarded ''rawCommand'' = Some (JStr (pl_commandText n))
     \<and> js_get example_forwarded ''cwd'' = map_option JStr (pl_cwd n)
     \<and> js_get example_forwarded ''agentId'' = map_option JStr (pl_agentId n)
     \<and> js_get example_forwarded ''sessionKey'' = map_option JStr (pl_sessionKey n)
     \<and> normalizeSystemRunEnvEntries plain_runtime (js_field example_forwarded ''env'')
         = normalizeSystemRunEnvEntries plain_runtime (js_field example_ask ''env'')"
  by (rule forwarded_run_is_the_approved_request [OF example_recorded example_facts(4,5,3) example_forward example_facts(1)])
    code_simp+

text \<open>C15. Over any history of requests, decisions, expiries, timers, consumptions and invocations by any clients, in which
  whoever decides has a name (the handler of decisions passes the display name or the id of the deciding client), approvals are
  spent as decided: what was settled allow-once is forwarded at most once in all, on whatever ground; every run forwarded as
  consumed, standing or unanswered has an allow-once, an allow-always or no decision behind it; and no run is ever forwarded
  for a request an operator denied.\<close>

theorem approvals_are_spent_as_decided:
  assumes "list_all decided_by_name es"
  shows "(\<forall>p. (p, Some AllowOnce) \<in> set (settled (gt_approvals (run_gate R es)))
            \<longrightarrow> count_list (map fst (gt_forwards (run_gate R es))) p \<le> 1)
    \<and> (\<forall>(p, w) \<in> set (gt_forwards (run_gate R es)). (p, ground_outcome w) \<in> set (settled (gt_approvals (run_gate R es))))
    \<and> fst ` set (gt_forwards (run_gate R es)) \<inter> {p. (p, Some Deny) \<in> set (settled (gt_approvals (run_gate R es)))} = {}"
proof (intro conjI allI impI)
  let ?g = "run_gate R es"
  let ?out = "settled (gt_approvals ?g)"
  note inv = run_gate_inv [of R es, unfolded gate_inv_def]
  have outcome: "(p, ground_outcome w) \<in> set ?out" if "(p, w) \<in> set (gt_forwards ?g)" for p w
    by (rule forwards_have_outcomes [OF assms that])
  then show "\<forall>(p, w) \<in> set (gt_forwards ?g). (p, ground_outcome w) \<in> set ?out" by blast
  have one: "d = d'" if "(p, d) \<in> set ?out" "(p, d') \<in> set ?out" for p d d'
    using inv approval_invD(3) that by (metis eq_key_imp_eq_value)
  have "(p, Some Deny) \<notin> set ?out" if "(p, w) \<in> set (gt_forwards ?g)" for p w
    using one [OF outcome [OF that], of "Some Deny"] by (cases w) auto
  then show "fst ` set (gt_forwards ?g) \<inter> {p. (p, Some Deny) \<in> set ?out} = {}" by auto
  show "count_list (map fst (gt_forwards ?g)) p \<le> 1" if "(p, Some AllowOnce) \<in> set ?out" for p
  proof -
    have "w = ConsumedOnce" if "(p, w) \<in> set (gt_forwards ?g)" for w
      using one [OF outcome [OF that] \<open>(p, Some AllowOnce) \<in> set ?out\<close>] by (cases w) auto
    then have "count_list (map fst (gt_forwards ?g)) p = count_list (forwarded_by ConsumedOnce ?g) p"
      unfolding forwarded_by_def by (rule count_one_ground)
    also have "\<dots> \<le> 1" using inv by (intro distinct_counted_once) simp
    finally show ?thesis .
  qed
qed

lemma approvals_are_spent_as_decided_witness:
  "let es = [Manage (Submit 1000 ''u'' example_request (Num 60000) (Some ''Ab1'')), Manage (Resolve 2000 ''Ab1'' AllowOnce (Some ''op'')),
             Invoke 3000 (Some ''n1'') example_run (Some example_client), Invoke 3001 (Some ''n1'') example_run (Some example_client)]
   in (\<forall>p. (p, Some AllowOnce) \<in> set (settled (gt_approvals (run_gate plain_runtime es)))
            \<longrightarrow> count_list (map fst (gt_forwards (run_gate plain_runtime es))) p \<le> 1)
    \<and> (\<forall>(p, w) \<in> set (gt_forwards (run_gate plain_runtime es)).
          (p, ground_outcome w) \<in> set (settled (gt_approvals (run_gate plain_runtime es))))
    \<and> fst ` set (gt_forwards (run_gate plain_runtime es))
        \<inter> {p. (p, Some Deny) \<in> set (settled (gt_approvals (run_gate plain_runtime es)))} = {}"
  unfolding Let_def by (rule approvals_are_spent_as_decided) simp

text \<open>C26. A prepared plan survives its way to the run.  A well-formed plan (arguments, trimmed texts, and a file operand with a
  natural index) that a node answers a preparation with is read by the gateway as it is; sent with the approval request of that
  node it is recorded with every field, the file operand included, but with the preview set to what is shown beside the command
  text; and the plan read back from the record when the run is requested is the recorded one, so that the command that is checked
  against the binding has the arguments, directory, agent, session and text the node prepared.\<close>

theorem prepared_plan_survives_storage:
  assumes "wf_plan n" and "js_field raw ''plan'' = plan_value n" and "js_field q ''systemRunPlan'' = plan_value n"
    and "node_approval_request R q requester st = Inr req" and "nr_host req = Some ''node''"
  shows "map_option pp_plan (parsePreparedSystemRunPayload R (JObj raw)) = Some n
    \<and> nr_plan req = Some (recorded_plan q n)
    \<and> resolveSystemRunApprovalRuntimeContext R (case nr_plan req of Some n' \<Rightarrow> plan_value n' | None \<Rightarrow> JNull) p
        = Inr \<lparr>rc_plan = Some (recorded_plan q n), rc_argv = pl_argv n, rc_cwd = pl_cwd n, rc_agentId = pl_agentId n,
               rc_sessionKey = pl_sessionKey n, rc_commandText = pl_commandText n\<rparr>"
proof -
  have "nr_plan req = Some (recorded_plan q n)"
    by (rule request_recorded [OF assms(4,5)]) (use assms(1,3) in \<open>simp add: plan_reread\<close>)
  with assms(1,2) show ?thesis
    by (simp add: parsePreparedSystemRunPayload_def plan_reread plan_context recorded_plan_wf Let_def)
qed

lemma prepared_plan_survives_storage_witness:
  "map_option pp_plan (parsePreparedSystemRunPayload plain_runtime (JObj [(''plan'', plan_value example_plan)])) = Some example_plan
    \<and> nr_plan example_request = Some (recorded_plan example_ask example_plan)
    \<and> resolveSystemRunApprovalRuntimeContext plain_runtime
         (case nr_plan example_request of Some n' \<Rightarrow> plan_value n' | None \<Rightarrow> JNull) example_run
        = Inr \<lparr>rc_plan = Some (recorded_plan example_ask example_plan), rc_argv = pl_argv example_plan, rc_cwd = pl_cwd example_plan,
               rc_agentId = pl_agentId example_plan, rc_sessionKey = pl_sessionKey example_plan,
               rc_commandText = pl_commandText example_plan\<rparr>"
  by (rule prepared_plan_survives_storage [OF _ _ _ example_recorded]) code_simp+

text \<open>C27. No control field reaches a node through the gate.  Whatever object is invoked with, what is forwarded has only the
  known fields and the two approval fields; the approval fields appear together, say true and one of the two positive
  decisions, and only when the caller asked for an approval.\<close>

theorem only_trusted_fields_are_forwarded:
  assumes "sanitizeSystemRunParamsForForwarding R now nodeId (JObj p) client manager = (Inr (JObj m), manager')"
  shows "dom (js_get m) \<subseteq> set FORWARDED_KEYS \<union> {''approved'', ''approvalDecision''}
    \<and> ((js_get m ''approved'', js_get m ''approvalDecision'') = (None, None)
       \<or> (js_get m ''approved'', js_get m ''approvalDecision'') \<in> {Some (JBool True)} \<times> {Some (JStr ''allow-once''), Some (JStr ''allow-always'')}
         \<and> (js_field p ''approved'' = JBool True \<or> normalizeApprovalDecision (js_field p ''approvalDecision'') \<noteq> None))"
proof (cases "js_get m ''approved'' = None")
  case True
  have "m = pickSystemRunParams p"
  proof (cases "js_field p ''approved'' = JBool True \<or> normalizeApprovalDecision (js_field p ''approvalDecision'') \<noteq> None")
    case True
    with assms \<open>js_get m ''approved'' = None\<close> show ?thesis
      by (auto simp: sanitizeSystemRunParamsForForwarding_def Let_def get_approve split: option.splits sum.splits prod.splits
          dest!: enforce_granted)
  qed (use assms in \<open>auto simp: sanitizeSystemRunParamsForForwarding_def Let_def split: sum.splits\<close>)
  then have "js_get m k = (if k \<in> set FORWARDED_KEYS then js_get p k else None)" for k by (simp add: get_pick)
  then show ?thesis by (auto simp: FORWARDED_KEYS_def dom_def split: if_splits)
next
  case False
  then obtain cx d where m: "m = approve d (apply_plan cx (pickSystemRunParams p))" "d \<in> {''allow-once'', ''allow-always''}"
    and asked: "js_field p ''approved'' = JBool True \<or> normalizeApprovalDecision (js_field p ''approvalDecision'') \<noteq> None"
    by (rule granted_run [OF assms]) (rule that)
  have "js_get (apply_plan cx (pickSystemRunParams p)) k = None" if "k \<notin> set FORWARDED_KEYS" for k
    using that by (auto simp: get_apply_plan get_pick FORWARDED_KEYS_def split: option.splits)
  then have "dom (js_get m) \<subseteq> set FORWARDED_KEYS \<union> {''approved'', ''approvalDecision''}"
    by (auto simp: m get_approve intro: ccontr split: if_splits)
  moreover have "js_get m ''approved'' = Some (JBool True)" "js_get m ''approvalDecision'' = Some (JStr d)"
    by (simp_all add: m get_approve)
  ultimately show ?thesis using m(2) asked by auto
qed

lemma only_trusted_fields_are_forwarded_witness:
  "dom (js_get example_forwarded) \<subseteq> set FORWARDED_KEYS \<union> {''approved'', ''approvalDecision''}
    \<and> ((js_get example_forwarded ''approved'', js_get example_forwarded ''approvalDecision'') = (None, None)
       \<or> (js_get example_forwarded ''approved'', js_get example_forwarded ''approvalDecision'')
             \<in> {Some (JBool True)} \<times> {Some (JStr ''allow-once''), Some (JStr ''allow-always'')}
         \<and> (js_field example_run ''approved'' = JBool True
             \<or> normalizeApprovalDecision (js_field example_run ''approvalDecision'') \<noteq> None))"
  by (rule only_trusted_fields_are_forwarded [OF example_forward])

text \<open>C16. An approved request runs.  When the plan of a node request names the same directory, agent and session as the request
  (or the request names none), the operator allowed it once or always, the record has not expired and the one-time approval is
  not spent, and the caller asks for the run by an approval with the record's id, as the same device or connection (or a
  trusted backend bridging it), for the same node, with the same environment entries, whose digest is not empty, then the run
  goes through: the node gets the recorded plan and its arguments marked approved with the operator's decision; a one-time
  approval is spent and a standing one is left as it was.\<close>

theorem approved_run_goes_through:
  assumes "node_approval_request R q requester st = Inr req" and "nr_host req = Some ''node''"
    and "normalizeSystemRunApprovalPlan R (js_field q ''systemRunPlan'') = Some n"
    and "or_else (pl_cwd n) (normalizeNonEmptyString (js_field q ''cwd'')) = pl_cwd n"
    and "or_else (pl_agentId n) (normalizeNonEmptyString (js_field q ''agentId'')) = pl_agentId n"
    and "or_else (pl_sessionKey n) (normalizeNonEmptyString (js_field q ''sessionKey'')) = pl_sessionKey n"
    and "getSnapshot runId s = Some rec" and "request rec = req" and "decision rec = Some d" and "d \<noteq> Deny"
    and "\<not> js_less (expiresAtMs rec) (Num (of_int now))"
    and "nullable_string (js_field p ''runId'') = Some runId"
    and "js_field p ''approved'' = JBool True \<or> normalizeApprovalDecision (js_field p ''approvalDecision'') \<noteq> None"
    and "normalizeSystemRunEnvEntries R (js_field p ''env'') = normalizeSystemRunEnvEntries R (js_field q ''env'')"
    and "digest R (normalizeSystemRunEnvEntries R (js_field q ''env'')) \<noteq> []"
    and "same_node req nodeId" and "same_requester R req p client"
  shows "\<exists>m. sanitizeSystemRunParamsForForwarding R now nodeId (JObj p) client (Some s)
               = (Inr (JObj m), Some (if d = AllowOnce then snd (consumeAllowOnce runId s) else s))
           \<and> js_get m ''approved'' = Some (JBool True)
           \<and> js_get m ''approvalDecision'' = Some (JStr (if d = AllowOnce then ''allow-once'' else ''allow-always''))
           \<and> js_get m ''command'' = Some (js_strings (pl_argv n))
           \<and> js_get m ''systemRunPlan'' = Some (plan_value (recorded_plan q n))"
proof -
  have n: "nr_plan req = Some (recorded_plan q n)" "wf_plan n"
    "nr_binding req = Some \<lparr>bd_argv = pl_argv n, bd_cwd = pl_cwd n, bd_agentId = pl_agentId n, bd_sessionKey = pl_sessionKey n,
       bd_envHash = hashSystemRunEnvEntries R (normalizeSystemRunEnvEntries R (js_field q ''env''))\<rparr>"
    by (rule request_recorded [OF assms(1,2)]; use assms(3-6) in simp)+
  let ?cx = "\<lparr>rc_plan = Some (recorded_plan q n), rc_argv = pl_argv n, rc_cwd = pl_cwd n, rc_agentId = pl_agentId n,
          rc_sessionKey = pl_sessionKey n, rc_commandText = pl_commandText n\<rparr>"
  have cx: "resolveSystemRunApprovalRuntimeContext R (plan_value (recorded_plan q n)) p = Inr ?cx"
    using plan_context [OF recorded_plan_wf [OF n(2)]] by simp
  have ok: "snapshot_refusal R now nodeId runId p client rec = None"
    using assms by (simp add: snapshot_accepted)
  have match: "evaluateSystemRunApprovalMatch R (pl_argv n) req (pl_cwd n) (pl_agentId n) (pl_sessionKey n) (js_field p ''env'') = None"
    using n(2,3) assms(2,14,15)
    by (auto simp: evaluateSystemRunApprovalMatch_def buildSystemRunApprovalBinding_def buildSystemRunApprovalEnvBinding_def
        matchSystemRunApprovalBinding_def argvMatches_iff clean_reread wf_plan_def matchSystemRunApprovalEnvHash_def
        hashSystemRunEnvEntries_def truthy_text_def Let_def)
  let ?word = "if d = AllowOnce then ''allow-once'' else ''allow-always''"
  let ?next = "apply_plan ?cx (pickSystemRunParams p)"
  have asked: "(js_field p ''approved'' \<noteq> JBool True \<and> normalizeApprovalDecision (js_field p ''approvalDecision'') = None) = False"
    using assms(13) by blast
  have enforced: "enforce_decision runId a r client rec ?next s
      = (Inr (JObj (approve ?word ?next)), if d = AllowOnce then snd (consumeAllowOnce runId s) else s)" for a r
    using assms(7,9,10) by (cases d) (auto simp: enforce_decision_def getSnapshot_def consumeAllowOnce_def)
  have "sanitizeSystemRunParamsForForwarding R now nodeId (JObj p) client (Some s)
      = (Inr (JObj (approve ?word ?next)), Some (if d = AllowOnce then snd (consumeAllowOnce runId s) else s))"
    by (simp add: sanitizeSystemRunParamsForForwarding_def Let_def enforced assms(7,8,12) n(1) cx ok match asked del: if_split not_None_eq)
  then show ?thesis by (simp add: get_approve get_apply_plan)
qed

lemma approved_run_goes_through_witness:
  "\<exists>m. sanitizeSystemRunParamsForForwarding plain_runtime 3000 (Some ''n1'') (JObj example_run) (Some example_client)
           (Some example_state) = (Inr (JObj m), Some (if AllowOnce = AllowOnce then snd (consumeAllowOnce ''Ab1'' example_state)
                                                      else example_state))
     \<and> js_get m ''approved'' = Some (JBool True)
     \<and> js_get m ''approvalDecision'' = Some (JStr (if AllowOnce = AllowOnce then ''allow-once'' else ''allow-always''))
     \<and> js_get m ''command'' = Some (js_strings (pl_argv example_plan))
     \<and> js_get m ''systemRunPlan'' = Some (plan_value (recorded_plan example_ask example_plan))"
  by (rule approved_run_goes_through [OF example_recorded _ _ _ _ _ example_facts(4,5,6) _ _ example_facts(3)]) code_simp+

section \<open>Where the gate is stricter or laxer than it means to be\<close>

text \<open>The fallback for unanswered requests comes after the check of the expiry, and a request is settled unanswered by a timer
  that fires no earlier than its expiry: the fallback passes only in that very millisecond.\<close>

lemma timeout_fallback_needs_the_expiry_instant:
  assumes "sanitizeSystemRunParamsForForwarding R now nodeId (JObj p) client (Some s) = (Inr (JObj m), manager')"
    and "js_get m ''approved'' \<noteq> None" and "nullable_string (js_field p ''runId'') = Some runId"
    and "getSnapshot runId s = Some rec" and "expiresAtMs rec = Num e" and "resolvedAtMs rec = Some t"
    and "e \<le> of_int t" and "t \<le> now"
  shows "of_int now = e \<and> t = now"
proof -
  have "snapshot_refusal R now nodeId runId p client rec = None"
    by (rule granted_run [OF assms(1,2)]) (use assms(3,4) in auto)
  then have "\<not> js_less (Num e) (Num (of_int now))" using assms(5) by (simp add: snapshot_accepted)
  then have "of_int now \<le> e" by simp
  with assms(7) have "of_int now \<le> (of_int t :: rat)" by linarith
  then have "now \<le> t" by simp
  with assms(7,8) \<open>of_int now \<le> e\<close> show ?thesis by auto
qed

text \<open>The record binds the directory of the request where the plan has none, but a run is compared by the plan's: such a
  request can be approved and never run.\<close>

lemma directory_outside_the_plan_never_runs:
  assumes "node_approval_request R q requester st = Inr req"
    and "normalizeSystemRunApprovalPlan R (js_field q ''systemRunPlan'') = Some n"
    and "pl_cwd n = None" and "normalizeNonEmptyString (js_field q ''cwd'') \<noteq> None"
    and "nullable_string (js_field p ''runId'') = Some runId" and "getSnapshot runId s = Some rec" and "request rec = req"
  shows "\<not> goes_out_approved (fst (sanitizeSystemRunParamsForForwarding R now nodeId (JObj p) client (Some s)))"
proof
  assume "goes_out_approved (fst (sanitizeSystemRunParamsForForwarding R now nodeId (JObj p) client (Some s)))"
  then obtain m ms' where m: "js_get m ''approved'' \<noteq> None"
    and san: "sanitizeSystemRunParamsForForwarding R now nodeId (JObj p) client (Some s) = (Inr (JObj m), ms')"
    by (cases "sanitizeSystemRunParamsForForwarding R now nodeId (JObj p) client (Some s)")
      (auto simp: goes_out_approved_def Option.is_none_def split: sum.splits jv.splits)
  obtain cx where cx: "resolveSystemRunApprovalRuntimeContext R
       (case nr_plan req of Some n \<Rightarrow> plan_value n | None \<Rightarrow> JNull) p = Inr cx"
    and ev: "evaluateSystemRunApprovalMatch R (rc_argv cx) req (rc_cwd cx) (rc_agentId cx) (rc_sessionKey cx)
       (js_field p ''env'') = None"
    by (rule granted_run [OF san m]) (use assms(5-7) in auto)
  obtain b where b: "nr_host req = Some ''node''" "nr_binding req = Some b" "bd_cwd b = rc_cwd cx"
    by (rule binding_matched [OF ev context_clean [OF cx]])
  have n: "nr_plan req = Some (recorded_plan q n)" "wf_plan n" "bd_cwd b = normalizeNonEmptyString (js_field q ''cwd'')"
    by (rule request_recorded [OF assms(1) b(1)]; use assms(2,3) b(2) in auto)+
  with cx plan_context [OF recorded_plan_wf [OF n(2)]] assms(3) have "rc_cwd cx = None" by auto
  with b(3) n(3) assms(4) show False by simp
qed

text \<open>A consumed approval looks unanswered when whoever decided it left no name: a client with the approvals scope can then run
  it again.\<close>

lemma nameless_approval_is_used_twice:
  "let client = Some (example_client\<lparr>cl_scopes := Some [''operator.approvals'']\<rparr>);
       again = Invoke 3000 (Some ''n1'') ((''approvalDecision'', JStr ''allow-once'') # example_run) client
   in gt_forwards (fold (gate_step plain_runtime) [again, again]
        \<lparr>gt_approvals = example_state\<lparr>pending := [(''Ab1'',
             \<lparr>entry_promise = 0, entry_record = example_record\<lparr>resolvedBy := None\<rparr>\<rparr>)]\<rparr>, gt_forwards = []\<rparr>)
      = [(0, ConsumedOnce), (0, Unanswered)]"
  by code_simp

text \<open>A plan with a malformed file operand is refused, but the old form of the same answer is accepted without the operand.\<close>

lemma malformed_operand_is_dropped:
  "let plan = JObj [(''argv'', js_strings [''sh'', ''a.sh'']), (''rawCommand'', JStr ''sh a.sh''), (''mutableFileOperand'', JNull)]
   in (normalizeSystemRunApprovalPlan plain_runtime plan,
       map_option (\<lambda>r. pl_fileOperand (pp_plan r)) (parsePreparedSystemRunPayload plain_runtime (JObj [(''plan'', plan)])))
      = (None, Some None)"
  by code_simp

end
