(* ===== verification/Spec2Isabelle.thy ===== *)
theory Spec2Isabelle
  imports NumberProps CommandQueueProps SessionKeyProps RouteProps TaskFlowProps ExecApprovalProps
    EnvSubstProps GatewayAuthProps AttemptSerial HeartbeatWakeProps ChannelRouteProps FollowupDedupe FollowupHazards
    DeliveryProps DeliveryProgress DeliveryHazards SystemRunGuardProps
begin

text \<open>
  The core of the OpenClaw gateway, modelled and verified.

  The gateway (\<^verbatim>\<open>src/src\<close>, with shared packages under \<^verbatim>\<open>src/packages\<close>) receives messages from chat
  channels, decides which agent and which session a message belongs to, runs the agent's turns on
  command lanes with bounded concurrency, and keeps track of longer work as task flows in a SQLite
  table.  The development models the parts of that path whose behaviour is decided by the program
  itself rather than by a network, a model or a file system.

  Parts, theories and correspondence to the code:

  \<^item> Shared ground.  \<^verbatim>\<open>Prelude\<close>: JavaScript maps as association lists, results of computations that
    throw, stable sorting with a comparator, and the interfaces of the development as locales
    (\<^verbatim>\<open>keyed_store\<close>, \<^verbatim>\<open>durable_store\<close>, \<^verbatim>\<open>comparator\<close>, \<^verbatim>\<open>invariant_machine\<close>, \<^verbatim>\<open>guaranteed_machine\<close>,
    \<^verbatim>\<open>memo_bound\<close>).  \<^verbatim>\<open>JsRuntime\<close>: what is used of the language, on Latin-1 strings and exact numbers,
    and the string normalizers of \<^verbatim>\<open>packages/normalization-core/src/string-coerce.ts\<close>.
  \<^item> Numbers.  \<^verbatim>\<open>NumberCoercion\<close>, \<^verbatim>\<open>NumberProps\<close>: \<^verbatim>\<open>number-coercion.ts\<close> of the same package; timer delays,
    expiries and integer parsing stay in range.
  \<^item> Command queue.  \<^verbatim>\<open>CommandQueue\<close> is \<^verbatim>\<open>process/command-queue.ts\<close>: lanes with a priority queue, running
    tasks and a generation; every exported operation, the pump, the settlement of tasks and the
    timers are functions on one state record that also collects what becomes visible outside.
    \<^verbatim>\<open>CommandQueueInv\<close> states the invariant, \<^verbatim>\<open>CommandQueueSteps\<close> the machine of all events and that
    each keeps the invariant, \<^verbatim>\<open>CommandQueueProps\<close> what follows: work conservation, exactly-once
    settlement, bounded concurrency, priorities, resets and the tasks of earlier generations, progress,
    waiters and timeouts.
  \<^item> Session keys.  \<^verbatim>\<open>SessionKey\<close>: \<^verbatim>\<open>routing/account-id.ts\<close>, \<^verbatim>\<open>sessions/session-key-utils.ts\<close>,
    \<^verbatim>\<open>routing/session-key.ts\<close>; \<^verbatim>\<open>SessionKeyProps\<close>: safe identifiers, idempotence, isolation of agents,
    round trips of keys, transparency of the bounded caches.
  \<^item> Routing.  \<^verbatim>\<open>RouteResolve\<close>: \<^verbatim>\<open>routing/resolve-route.ts\<close> with the binding modules it uses;
    \<^verbatim>\<open>RouteProps\<close>: the indexed lookup is a scan of the bindings in source order, the most specific
    binding wins, a route leads to a configured agent.
  \<^item> Task flows.  \<^verbatim>\<open>TaskFlowStore\<close>: records, rows and the table of \<^verbatim>\<open>tasks/task-flow-registry.store.sqlite.ts\<close>;
    \<^verbatim>\<open>TaskFlow\<close>: the registry \<^verbatim>\<open>tasks/task-flow-registry.ts\<close> and its owner checks; \<^verbatim>\<open>TaskFlowMaint\<close>:
    maintenance and audit.  \<^verbatim>\<open>TaskFlowInv\<close> relates memory and table (the table's operations interpret
    \<^verbatim>\<open>durable_store\<close>), \<^verbatim>\<open>TaskFlowSteps\<close> lifts four primitive changes to all operations,
    \<^verbatim>\<open>TaskFlowProps\<close> proves durability over restarts (the delivery origin of a flow included), no lost updates, mirroring, owner isolation,
    maintenance and error behaviour.
  \<^item> Approvals.  \<^verbatim>\<open>ExecApproval\<close>: \<^verbatim>\<open>gateway/exec-approval-manager.ts\<close>, with promises, timers and one-time
    grants as part of the state; \<^verbatim>\<open>ExecApprovalProps\<close>: promises settle once, decisions are final,
    one-time approvals are used once, the store drains, short ids are unambiguous.
  \<^item> The gate in front of \<^verbatim>\<open>system.run\<close> on a node, which uses those approvals.  \<^verbatim>\<open>SystemRunGuard\<close>:
    \<^verbatim>\<open>gateway/node-invoke-system-run-approval.ts\<close> with the modules that bind a command (\<^verbatim>\<open>infra/system-run-*.ts\<close>)
    and the handler that records a request; \<^verbatim>\<open>SystemRunGuardProps\<close>: a forwarded approval is earned, the node
    gets the plan the operator saw, and over every history of the manager and the gate together in which
    whoever decides has a name a one-time approval runs once and a denied one never; at its end, where the
    gate errs, decisions without a name included.
  \<^item> The front door.  \<^verbatim>\<open>IpPolicy\<close>: \<^verbatim>\<open>packages/net-policy/src/ip.ts\<close>; \<^verbatim>\<open>GatewayNet\<close>: \<^verbatim>\<open>gateway/net.ts\<close> and
    \<^verbatim>\<open>gateway/origin-check.ts\<close>; \<^verbatim>\<open>AuthRateLimit\<close>: \<^verbatim>\<open>gateway/auth-rate-limit.ts\<close>; \<^verbatim>\<open>EnvSubst\<close>:
    \<^verbatim>\<open>config/env-substitution.ts\<close> and the secret references of \<^verbatim>\<open>config/types.secrets.ts\<close>; \<^verbatim>\<open>GatewayAuth\<close>:
    \<^verbatim>\<open>gateway/auth.ts\<close> with the configuration and comparison of secrets it rests on; \<^verbatim>\<open>AttemptSerial\<close>:
    \<^verbatim>\<open>gateway/rate-limit-attempt-serialization.ts\<close> as a machine of interleaved events.
    \<^verbatim>\<open>AuthRateLimitProps\<close> refines a specification that keeps the full log of wrong credentials and
    bounds guessing between the resets of a key, and shows which calls can lift a lockout; \<^verbatim>\<open>GatewayAuthProps\<close> shows that access is earned, that a login is one attempt of
    the limiter and that a client cannot choose its address; \<^verbatim>\<open>EnvSubstProps\<close> that the reference test
    is exact; serialized attempts run one at a time and never block.
  \<^item> Heartbeats.  \<^verbatim>\<open>HeartbeatWake\<close>: \<^verbatim>\<open>infra/heartbeat-wake.ts\<close>, with the asynchronous handler as
    calls and answers that interleave with requests, timers and registrations; \<^verbatim>\<open>HeartbeatWakeProps\<close>:
    a wake that is requested reaches the handler by a call that follows the request, no pending wake is
    stranded, the retry cooldown holds.
  \<^item> Follow-up queues, which hold the messages of a session whose agent is busy.  \<^verbatim>\<open>QueueHelpers\<close>:
    \<^verbatim>\<open>utils/queue-helpers.ts\<close>; \<^verbatim>\<open>QueueSettings\<close>: the settings modules of \<^verbatim>\<open>auto-reply/reply/queue\<close>;
    \<^verbatim>\<open>JsonText\<close>: JSON texts of tuples; \<^verbatim>\<open>ChannelRoute\<close>, \<^verbatim>\<open>ChannelRouteProps\<close>: \<^verbatim>\<open>plugin-sdk/channel-route.ts\<close>
    and that its dedupe key is exact; \<^verbatim>\<open>DedupeCache\<close>: \<^verbatim>\<open>infra/dedupe.ts\<close> and that it catches duplicates.
    \<^verbatim>\<open>FollowupQueue\<close>: \<^verbatim>\<open>types.ts\<close>, \<^verbatim>\<open>state.ts\<close>, \<^verbatim>\<open>enqueue.ts\<close> and \<^verbatim>\<open>drain.ts\<close> of the same directory, where a
    drain is a state machine from one \<^verbatim>\<open>await\<close> to the next and every other operation may come in between.
    \<^verbatim>\<open>FollowupQueueInv\<close> keeps the books of queues, registry and drains; \<^verbatim>\<open>FollowupQueueProps\<close>: one drain
    per queue, no idle work once a drain was asked for after the last enqueue without a restart, reasons
    for which a run leaves, batches of one authorization, the cap;
    \<^verbatim>\<open>FollowupDedupe\<close>: redelivered messages are refused, the composition with the cache;
    \<^verbatim>\<open>FollowupHazards\<close>: where the code loses messages or spins.
  \<^item> Durable deliveries, the write-ahead queue in front of the channels.  \<^verbatim>\<open>DeliveryStore\<close>:
    \<^verbatim>\<open>infra/delivery-queue-sqlite.ts\<close> and the two queues stored in it, which interpret the locale
    \<^verbatim>\<open>durable_queue\<close>; \<^verbatim>\<open>DeliveryQueue\<close>: the workers of \<^verbatim>\<open>infra/outbound/delivery-queue-recovery.ts\<close> and of the
    queue wrapper in \<^verbatim>\<open>infra/outbound/deliver.ts\<close>, from one \<^verbatim>\<open>await\<close> to the next, with crashes.
    \<^verbatim>\<open>DeliveryProtocol\<close> is the abstract protocol of claims, attempts and outcomes with its invariants,
    \<^verbatim>\<open>DeliveryRefine\<close> that every run follows it, \<^verbatim>\<open>DeliveryProps\<close> what follows for the code: no stored
    message is lost, no started send is repeated blindly, one owner, counted and bounded retries, backoff;
    \<^verbatim>\<open>DeliveryProgress\<close>: every worker ends and holds nothing afterwards; \<^verbatim>\<open>DeliveryHazards\<close>: where messages are lost or sent twice.

  Bounds and fuel.  Loops are structural recursions, except the drain of a lane, whose progress is
  proved by counting the commands a lane holds, and the workers of the delivery queue, whose end is
  proved by counting the awaits and entries they have left; the two-attempt loops of maintenance carry the
  attempts left.  No definition needs fuel.

  Environment.  The address library, the URL parser, the interface list and the tailnet identity service,
  clock readings, random UUIDs, plugin channel registries, callbacks that run a message, linked tasks and failures of
  the store are arguments or part of an environment record, so every theorem holds for all of them.

  The collation and digest of the runtime, the text of values that are not strings and the recognition of
  shell wrappers are fields of a record the gate of node runs is parameterized by.

  Not modelled: network, file and process input and output, model calls, plugins and their channels,
  configuration loading, logging, and the components the manifest lists as not modelled with the
  reason for each.
\<close>

end
